(* ===== verification/Prelude.thy ===== *)
theory Prelude
  imports Main "HOL-Library.Word"
begin

unbundle bit_operations_syntax

text \<open>
  Shared vocabulary of the development.

  The types of the machine integers the crate uses (\<open>u32\<close>, \<open>u64\<close>, and \<open>usize\<close> on
  a 64-bit target), the checked list access \<open>Vec::get\<close>, the saturating additions of the
  standard library, and the generic facts about list updates, filters and words that the
  component theories use. The collections declared here gather, per kind of proof, the
  facts the components contribute.
\<close>

section \<open>Machine integers\<close>

type_synonym u8 = "8 word"
type_synonym u32 = "32 word"
type_synonym u64 = "64 word"
type_synonym usize = "64 word"

text \<open>A platform handle (\<open>HANDLE\<close>) and a platform status (\<open>HRESULT\<close>) are plain bits.\<close>

type_synonym handle = "64 word"
type_synonym hresult = "32 word"

named_theorems wf_intros \<open>preservation of the well-formedness invariants\<close>
named_theorems view_simps \<open>how an operation changes the abstract view of a component\<close>
named_theorems frame_simps \<open>what an operation leaves alone\<close>

definition saturating_add :: "'a::len word \<Rightarrow> 'a word \<Rightarrow> 'a word" where
  "saturating_add a b = (if unat a + unat b < 2 ^ LENGTH('a) then a + b else -1)"

lemma unat_saturating_add:
  "unat (saturating_add a b) = min (unat a + unat b) (2 ^ LENGTH('a) - 1)"
  for a b :: "'a::len word"
proof -
  have "unat (-1 :: 'a word) = 2 ^ LENGTH('a) - 1"
    by (simp add: unsigned_minus_1_eq_mask mask_eq_exp_minus_1)
  then show ?thesis
    by (auto simp: saturating_add_def unat_word_ariths)
qed

lemma unat_succ:
  fixes n :: u64
  assumes "n \<noteq> -1"
  shows "unat (n + 1) = unat n + 1"
proof -
  have "unat n < 2 ^ LENGTH(64)" by (rule unsigned_less)
  moreover have "unat n \<noteq> 2 ^ 64 - 1"
  proof
    assume "unat n = 2 ^ 64 - 1"
    also have "\<dots> = unat (-1 :: u64)" by (simp add: unsigned_minus_1_eq_mask mask_eq_exp_minus_1)
    finally have "unat n = unat (-1 :: u64)" .
    then have "n = -1" by (simp only: word_unat_eq_iff)
    then show False using assms by simp
  qed
  ultimately show ?thesis by (simp add: unat_word_ariths)
qed

section \<open>Checked list access\<close>

text \<open>\<open>Vec::get\<close>: the element, or \<open>None\<close> past the end.\<close>

definition list_get :: "'a list \<Rightarrow> nat \<Rightarrow> 'a option" where
  "list_get xs i = (if i < length xs then Some (xs ! i) else None)"

lemma list_get_Some [simp]: "list_get xs i = Some x \<longleftrightarrow> i < length xs \<and> xs ! i = x"
  by (auto simp: list_get_def)

lemma list_get_None [simp]: "list_get xs i = None \<longleftrightarrow> length xs \<le> i"
  by (auto simp: list_get_def)

lemma list_get_nth [simp]: "i < length xs \<Longrightarrow> list_get xs i = Some (xs ! i)"
  by (simp add: list_get_def)

lemma list_get_beyond [simp]: "\<not> i < length xs \<Longrightarrow> list_get xs i = None"
  by (simp add: list_get_def)

lemma list_get_update:
  "list_get (xs[i := y]) j = (if i = j \<and> j < length xs then Some y else list_get xs j)"
  by (auto simp: list_get_def)

lemma list_get_append:
  "list_get (xs @ [y]) j = (if j = length xs then Some y else list_get xs j)"
  by (auto simp: list_get_def nth_append)

section \<open>Counting the elements of a list\<close>

text \<open>Changing one element changes a count by what the two elements contribute.\<close>

lemma length_filter_update:
  assumes "i < length xs"
  shows "length (filter P (xs[i := y])) + (if P (xs ! i) then 1 else 0)
    = length (filter P xs) + (if P y then 1 else 0)"
proof -
  have xs: "xs = take i xs @ xs ! i # drop (Suc i) xs"
    using assms by (rule id_take_nth_drop)
  have "xs[i := y] = take i xs @ y # drop (Suc i) xs"
    using assms by (rule upd_conv_take_nth_drop)
  then show ?thesis by (subst xs, simp)
qed

lemma length_filter_update_same:
  "\<lbrakk>i < length xs; P (xs ! i) = P y\<rbrakk> \<Longrightarrow> length (filter P (xs[i := y])) = length (filter P xs)"
  using length_filter_update [of i xs P y] by (simp split: if_splits)

lemma length_filter_update_less:
  "\<lbrakk>i < length xs; P (xs ! i); \<not> P y\<rbrakk>
    \<Longrightarrow> length (filter P (xs[i := y])) = length (filter P xs) - 1"
  using length_filter_update [of i xs P y] by simp

lemma length_filter_update_more:
  "\<lbrakk>i < length xs; \<not> P (xs ! i); P y\<rbrakk>
    \<Longrightarrow> length (filter P (xs[i := y])) = length (filter P xs) + 1"
  using length_filter_update [of i xs P y] by simp

lemma length_filter_nth_pos: "\<lbrakk>i < length xs; P (xs ! i)\<rbrakk> \<Longrightarrow> 0 < length (filter P xs)"
  by (auto simp: filter_empty_conv)

section \<open>Words\<close>

lemma word_of_nat_eq_iff_small:
  "\<lbrakk>i < 2 ^ LENGTH('a); j < 2 ^ LENGTH('a)\<rbrakk> \<Longrightarrow> (of_nat i :: 'a::len word) = of_nat j \<longleftrightarrow> i = j"
  by (metis of_nat_inverse)

lemma take_bit_word_self: "unat w < 2 ^ n \<Longrightarrow> take_bit n w = w"
  for w :: "'a::len word"
  by (intro unsigned_word_eqI [where ?'a = nat])
    (simp add: unsigned_take_bit_eq take_bit_nat_eq_self_iff)

lemma unat_take_bit_less: "unat (take_bit n w) < 2 ^ n"
  for w :: "'a::len word"
  by (simp add: unsigned_take_bit_eq)

end
