(* ===== verification/Token.thy ===== *)
theory Token
  imports Prelude
begin

unbundle bit_operations_syntax

text \<open>
  Tokens (\<open>crates/win-ioring/src/runtime/slab.rs\<close>).

  A token is the \<open>usize\<close> handed to the platform as user data. It packs a kind bit, a
  16-bit slot index and a generation into the remaining 47 bits of a 64-bit \<open>usize\<close>.
  The lemmas show that the packing loses nothing (every 64-bit value is the token of its
  own three parts), that the two kinds of one slot never collide, and that a token whose
  generation is at least the first one is never zero, which the platform would read as
  \<open>cancel everything on this handle\<close>.
\<close>

section \<open>The layout\<close>

datatype token_kind = Operation | Cancel

definition KIND_BITS :: nat where
  "KIND_BITS = 1"

definition INDEX_BITS :: nat where
  "INDEX_BITS = 16"

definition GENERATION_BITS :: nat where
  "GENERATION_BITS = LENGTH(64) - KIND_BITS - INDEX_BITS"

definition MAX_SLOTS :: usize where
  "MAX_SLOTS = push_bit INDEX_BITS 1"

definition KIND_MASK :: usize where
  "KIND_MASK = push_bit KIND_BITS 1 - 1"

definition INDEX_MASK :: usize where
  "INDEX_MASK = push_bit INDEX_BITS 1 - 1"

definition GENERATION_MASK :: usize where
  "GENERATION_MASK = push_bit GENERATION_BITS 1 - 1"

definition FIRST_GENERATION :: usize where
  "FIRST_GENERATION = 1"

lemmas layout_defs =
  KIND_BITS_def INDEX_BITS_def GENERATION_BITS_def

lemma layout_masks:
  "KIND_MASK = mask 1" "INDEX_MASK = mask 16" "GENERATION_MASK = mask 47"
  by (simp_all add: KIND_MASK_def INDEX_MASK_def GENERATION_MASK_def layout_defs
      mask_eq_decr_exp push_bit_eq_mult)

lemma MAX_SLOTS_eq: "MAX_SLOTS = 65536"
  by (simp add: MAX_SLOTS_def layout_defs)

lemma GENERATION_MASK_eq: "GENERATION_MASK = 140737488355327"
  by (simp add: GENERATION_MASK_def layout_defs)

section \<open>Building and reading a token\<close>

datatype token = Token (as_user_data: usize)

definition token_new :: "token_kind \<Rightarrow> usize \<Rightarrow> usize \<Rightarrow> token" where
  "token_new kind index generation =
     (let kind_bit = (case kind of Operation \<Rightarrow> 0 | Cancel \<Rightarrow> 1)
      in Token (kind_bit
           OR push_bit KIND_BITS (index AND INDEX_MASK)
           OR push_bit (KIND_BITS + INDEX_BITS) (generation AND GENERATION_MASK)))"

definition token_kind :: "token \<Rightarrow> token_kind" where
  "token_kind t = (if as_user_data t AND KIND_MASK = 0 then Operation else Cancel)"

definition token_index :: "token \<Rightarrow> usize" where
  "token_index t = drop_bit KIND_BITS (as_user_data t) AND INDEX_MASK"

definition token_generation :: "token \<Rightarrow> usize" where
  "token_generation t = drop_bit (KIND_BITS + INDEX_BITS) (as_user_data t) AND GENERATION_MASK"

definition to_cancel :: "token \<Rightarrow> token" where
  "to_cancel t = token_new Cancel (token_index t) (token_generation t)"

definition to_operation :: "token \<Rightarrow> token" where
  "to_operation t = token_new Operation (token_index t) (token_generation t)"

definition from_user_data :: "usize \<Rightarrow> token" where
  "from_user_data value = Token value"

lemmas token_defs =
  token_new_def token_kind_def token_index_def token_generation_def Let_def

section \<open>Packing and unpacking\<close>

text \<open>The bits of a packed token, one field after the other.\<close>

lemma bit_as_user_data_new:
  assumes "n < 64"
  shows "bit (as_user_data (token_new k i g)) n =
    (if n = 0 then k = Cancel else if n < 17 then bit i (n - 1) else bit g (n - 17))"
proof -
  have "bit (as_user_data (token_new k i g)) n =
      (bit ((case k of Operation \<Rightarrow> 0 | Cancel \<Rightarrow> 1) :: usize) n
        \<or> 1 \<le> n \<and> bit i (n - 1) \<and> n - 1 < 16
        \<or> 17 \<le> n \<and> bit g (n - 17) \<and> n - 17 < 47)"
    using assms unfolding token_new_def Let_def layout_masks layout_defs token.sel
      bit_or_iff bit_push_bit_iff bit_and_iff bit_mask_iff
    by (auto simp: possible_bit_def)
  then show ?thesis
    using assms by (cases k) (auto simp: bit_1_iff)
qed

lemma bit_token_index: "bit (token_index t) n \<longleftrightarrow> n < 16 \<and> bit (as_user_data t) (n + 1)"
  unfolding token_index_def layout_masks layout_defs bit_and_iff bit_mask_iff bit_drop_bit_eq
  by (auto simp: possible_bit_def add.commute)

lemma bit_token_generation:
  "bit (token_generation t) n \<longleftrightarrow> n < 47 \<and> bit (as_user_data t) (n + 17)"
  unfolding token_generation_def layout_masks layout_defs bit_and_iff bit_mask_iff bit_drop_bit_eq
  by (auto simp: possible_bit_def add.commute)

lemma token_kind_bit: "token_kind t = (if bit (as_user_data t) 0 then Cancel else Operation)"
  by (simp add: token_kind_def layout_masks bit_0 and_one_eq odd_iff_mod_2_eq_one
      even_iff_mod_2_eq_zero)

lemma token_kind_new [simp]: "token_kind (token_new k i g) = k"
  by (cases k) (simp_all add: token_kind_bit bit_as_user_data_new)

lemma token_index_new: "token_index (token_new k i g) = i AND INDEX_MASK"
  by (rule bit_word_eqI)
    (auto simp: bit_token_index bit_as_user_data_new layout_masks bit_and_iff bit_mask_iff)

lemma token_generation_new: "token_generation (token_new k i g) = g AND GENERATION_MASK"
  by (rule bit_word_eqI)
    (auto simp: bit_token_generation bit_as_user_data_new layout_masks bit_and_iff bit_mask_iff)

lemma token_new_parts [simp]:
  "token_new (token_kind t) (token_index t) (token_generation t) = t"
proof (rule token.expand, rule bit_word_eqI)
  fix n assume "n < LENGTH(64)"
  then have "n < 64" by simp
  then show "bit (as_user_data (token_new (token_kind t) (token_index t) (token_generation t))) n
    = bit (as_user_data t) n"
    unfolding bit_as_user_data_new [OF \<open>n < 64\<close>] bit_token_index bit_token_generation token_kind_bit
    by auto
qed

text \<open>A token is determined by its three parts.\<close>

lemma token_eqI:
  "\<lbrakk>token_kind t = token_kind u; token_index t = token_index u;
    token_generation t = token_generation u\<rbrakk> \<Longrightarrow> t = u"
  by (metis token_new_parts)

subsection \<open>Values that fit\<close>

lemma index_fits [simp]: "i < MAX_SLOTS \<Longrightarrow> i AND INDEX_MASK = i"
  by (simp add: layout_masks MAX_SLOTS_eq word_less_nat_alt take_bit_word_self
      flip: take_bit_eq_mask)

lemma generation_fits [simp]: "g \<le> GENERATION_MASK \<Longrightarrow> g AND GENERATION_MASK = g"
proof -
  assume "g \<le> GENERATION_MASK"
  then have "unat g < 2 ^ 47"
    by (simp add: GENERATION_MASK_eq word_le_nat_alt)
  then show ?thesis
    by (simp add: layout_masks take_bit_word_self flip: take_bit_eq_mask)
qed

lemma token_index_less: "token_index t < MAX_SLOTS"
  using unat_take_bit_less [of 16 "drop_bit KIND_BITS (as_user_data t)"]
  by (simp add: token_index_def layout_masks MAX_SLOTS_eq word_less_nat_alt
      flip: take_bit_eq_mask)

lemma token_generation_le: "token_generation t \<le> GENERATION_MASK"
proof -
  have "token_generation t = take_bit 47 (drop_bit (KIND_BITS + INDEX_BITS) (as_user_data t))"
    by (simp add: token_generation_def layout_masks flip: take_bit_eq_mask)
  then have "unat (token_generation t) < 2 ^ 47"
    by (metis unat_take_bit_less)
  then show ?thesis by (simp add: GENERATION_MASK_eq word_le_nat_alt)
qed

section \<open>The tokens the crate hands out\<close>

text \<open>
  The slab only ever builds tokens from an index below \<open>MAX_SLOTS\<close> and a generation
  between \<open>FIRST_GENERATION\<close> and \<open>GENERATION_MASK\<close>. For those, packing is injective and
  unpacking returns exactly what was packed.
\<close>

definition valid_key :: "usize \<times> usize \<Rightarrow> bool" where
  "valid_key k \<longleftrightarrow> fst k < MAX_SLOTS \<and> FIRST_GENERATION \<le> snd k \<and> snd k \<le> GENERATION_MASK"

definition token_key :: "token \<Rightarrow> usize \<times> usize" where
  "token_key t = (token_index t, token_generation t)"

lemma token_key_new: "valid_key (i, g) \<Longrightarrow> token_key (token_new k i g) = (i, g)"
  by (simp add: token_key_def token_index_new token_generation_new valid_key_def)

lemma token_eq_iff_key: "t = u \<longleftrightarrow> token_kind t = token_kind u \<and> token_key t = token_key u"
  by (auto simp: token_key_def intro: token_eqI)

lemma token_key_to_cancel [simp]: "token_key (to_cancel t) = token_key t"
  by (simp add: token_key_def to_cancel_def token_index_new token_generation_new
      token_index_less token_generation_le)

lemma token_key_to_operation [simp]: "token_key (to_operation t) = token_key t"
  by (simp add: token_key_def to_operation_def token_index_new token_generation_new
      token_index_less token_generation_le)

lemma token_kind_to [simp]:
  "token_kind (to_cancel t) = Cancel" "token_kind (to_operation t) = Operation"
  by (simp_all add: to_cancel_def to_operation_def)

lemma token_nonzero: "FIRST_GENERATION \<le> token_generation t \<Longrightarrow> as_user_data t \<noteq> 0"
  by (auto simp: token_generation_def FIRST_GENERATION_def)

end
