(* ===== verification/Slab.thy ===== *)
theory Slab
  imports Token
begin

text \<open>
  The operation slab (\<open>crates/win-ioring/src/runtime/slab.rs\<close>): driver-owned storage for
  the operations in flight.

  The payload (\<open>Box<dyn Any>\<close>) is the type parameter \<open>'p\<close>. A \<open>&mut self\<close> method is a
  function that returns the new slab; where the code contains an \<open>unreachable!\<close> or an index
  that could be out of range, the result is an \<open>option\<close> and \<open>None\<close> is the panic.
  The file holds the data and the operations, in the order of the source, then the
  well-formedness invariant (a free list that enumerates exactly the vacant slots,
  generations inside the token layout, an exact count of live operations) and its
  preservation by every operation.
\<close>

section \<open>Data\<close>

datatype lifecycle = Described | Built | Submitted

datatype observer = Live | Detached

datatype cancel_state = NeverRequested | Pending | Completed

datatype 'p slot_state =
    Vacant (next_free: "nat option")
  | Occupied lifecycle observer 'p cancel_state
  | Tombstone
  | Retired

record 'p slot =
  slot_generation :: usize
  slot_state :: "'p slot_state"

datatype lookup = LookupLive | LookupTombstoned | LookupUnknown

record 'p op_slab =
  slots :: "'p slot list"
  free_head :: "nat option"
  occupied :: nat

section \<open>Operations\<close>

definition slab_new :: "'p op_slab" where
  "slab_new = \<lparr>slots = [], free_head = None, occupied = 0\<rparr>"

definition is_occupied :: "'p slot \<Rightarrow> bool" where
  "is_occupied s = (case slot_state s of Occupied _ _ _ _ \<Rightarrow> True | _ \<Rightarrow> False)"

text \<open>The slots that still expect a completion of any kind.\<close>

definition slab_outstanding :: "'p op_slab \<Rightarrow> nat" where
  "slab_outstanding s = length (filter (\<lambda>sl. case slot_state sl of
       Vacant _ \<Rightarrow> False | Retired \<Rightarrow> False
     | Occupied _ _ _ _ \<Rightarrow> True | Tombstone \<Rightarrow> True) (slots s))"

text \<open>
  Where \<open>insert\<close> puts a payload: the head of the free list, or a fresh slot at the end.
  \<open>Some (None, s)\<close> is the full slab; \<open>None\<close> is the panic of a free list that points at
  a slot which is not vacant.
\<close>

definition slab_take_index :: "'p op_slab \<Rightarrow> (nat option \<times> 'p op_slab) option" where
  "slab_take_index s =
     (case free_head s of
        Some index \<Rightarrow>
          (case list_get (slots s) index of
             None \<Rightarrow> None
           | Some sl \<Rightarrow>
               (case slot_state sl of
                  Vacant next \<Rightarrow> Some (Some index, s\<lparr>free_head := next\<rparr>)
                | _ \<Rightarrow> None))
      | None \<Rightarrow>
          if unat MAX_SLOTS \<le> length (slots s) then Some (None, s)
          else Some (Some (length (slots s)),
            s\<lparr>slots := slots s @ [\<lparr>slot_generation = FIRST_GENERATION, slot_state = Vacant None\<rparr>]\<rparr>))"

definition set_slot_state :: "nat \<Rightarrow> 'p slot_state \<Rightarrow> 'p op_slab \<Rightarrow> 'p op_slab" where
  "set_slot_state index st s =
     s\<lparr>slots := (slots s)[index := (slots s ! index)\<lparr>slot_state := st\<rparr>]\<rparr>"

text \<open>\<open>Inl\<close> gives the payload back: the slab is full.\<close>

definition slab_insert :: "'p \<Rightarrow> 'p op_slab \<Rightarrow> (('p + token) \<times> 'p op_slab) option" where
  "slab_insert payload s =
     (case slab_take_index s of
        None \<Rightarrow> None
      | Some (None, s') \<Rightarrow> Some (Inl payload, s')
      | Some (Some index, s') \<Rightarrow>
          let s'' = set_slot_state index (Occupied Described Live payload NeverRequested) s'
          in Some (Inr (token_new Operation (of_nat index) (slot_generation (slots s'' ! index))),
                   s''\<lparr>occupied := occupied s'' + 1\<rparr>))"

text \<open>\<open>slot_for\<close> and \<open>slot_for_mut\<close>: the slot a token still names, with its index.\<close>

definition slot_for :: "'p op_slab \<Rightarrow> token \<Rightarrow> (nat \<times> 'p slot) option" where
  "slot_for s t =
     (case list_get (slots s) (unat (token_index t)) of
        None \<Rightarrow> None
      | Some sl \<Rightarrow>
          if slot_generation sl = token_generation t then Some (unat (token_index t), sl) else None)"

definition slab_lookup :: "'p op_slab \<Rightarrow> token \<Rightarrow> lookup" where
  "slab_lookup s t =
     (case map_option (slot_state \<circ> snd) (slot_for s t) of
        Some (Occupied _ _ _ _) \<Rightarrow> LookupLive
      | Some Tombstone \<Rightarrow> LookupTombstoned
      | _ \<Rightarrow> LookupUnknown)"

text \<open>\<open>payload_mut\<close> is a borrow: the payload it shows, and the write through it.\<close>

definition slab_payload :: "'p op_slab \<Rightarrow> token \<Rightarrow> 'p option" where
  "slab_payload s t =
     (case slot_for s t of
        Some (_, sl) \<Rightarrow> (case slot_state sl of Occupied _ _ p _ \<Rightarrow> Some p | _ \<Rightarrow> None)
      | None \<Rightarrow> None)"

definition slab_payload_write :: "token \<Rightarrow> 'p \<Rightarrow> 'p op_slab \<Rightarrow> 'p op_slab" where
  "slab_payload_write t p' s =
     (case slot_for s t of
        Some (i, sl) \<Rightarrow>
          (case slot_state sl of
             Occupied l ob p c \<Rightarrow> set_slot_state i (Occupied l ob p' c) s
           | _ \<Rightarrow> s)
      | None \<Rightarrow> s)"

definition slab_state :: "'p op_slab \<Rightarrow> token \<Rightarrow> (lifecycle \<times> observer) option" where
  "slab_state s t =
     (case slot_for s t of
        Some (_, sl) \<Rightarrow> (case slot_state sl of Occupied l ob _ _ \<Rightarrow> Some (l, ob) | _ \<Rightarrow> None)
      | None \<Rightarrow> None)"

fun lifecycle_forward :: "lifecycle \<Rightarrow> lifecycle \<Rightarrow> bool" where
  "lifecycle_forward Described Built = True"
| "lifecycle_forward Described Submitted = True"
| "lifecycle_forward Built Submitted = True"
| "lifecycle_forward _ _ = False"

definition slab_set_lifecycle :: "token \<Rightarrow> lifecycle \<Rightarrow> 'p op_slab \<Rightarrow> bool \<times> 'p op_slab" where
  "slab_set_lifecycle t next s =
     (case slot_for s t of
        None \<Rightarrow> (False, s)
      | Some (i, sl) \<Rightarrow>
          (case slot_state sl of
             Occupied l ob p c \<Rightarrow>
               (True, if lifecycle_forward l next
                      then set_slot_state i (Occupied next ob p c) s else s)
           | _ \<Rightarrow> (False, s)))"

definition slab_detach :: "token \<Rightarrow> 'p op_slab \<Rightarrow> lifecycle option \<times> 'p op_slab" where
  "slab_detach t s =
     (case slot_for s t of
        None \<Rightarrow> (None, s)
      | Some (i, sl) \<Rightarrow>
          (case slot_state sl of
             Occupied l ob p c \<Rightarrow> (Some l, set_slot_state i (Occupied l Detached p c) s)
           | _ \<Rightarrow> (None, s)))"

definition slab_register_cancel :: "token \<Rightarrow> 'p op_slab \<Rightarrow> token option \<times> 'p op_slab" where
  "slab_register_cancel t s =
     (if token_kind t \<noteq> Operation then (None, s)
      else case slot_for s t of
        None \<Rightarrow> (None, s)
      | Some (i, sl) \<Rightarrow>
          (case slot_state sl of
             Occupied l ob p NeverRequested \<Rightarrow>
               (Some (to_cancel t), set_slot_state i (Occupied l ob p Pending) s)
           | _ \<Rightarrow> (None, s)))"

text \<open>
  Frees a slot and bumps its generation; an exhausted slot is retired instead. Called only
  with an index that \<open>slot_for\<close> or the loop of \<open>drain\<close> has just read.
\<close>

definition slab_free_slot :: "nat \<Rightarrow> 'p op_slab \<Rightarrow> 'p op_slab" where
  "slab_free_slot index s =
     (let sl = slots s ! index in
      if GENERATION_MASK \<le> slot_generation sl then set_slot_state index Retired s
      else s\<lparr>slots := (slots s)[index := sl\<lparr>slot_generation := slot_generation sl + 1,
                                            slot_state := Vacant (free_head s)\<rparr>],
             free_head := Some index\<rparr>)"

definition slab_cancel_request_not_enqueued :: "token \<Rightarrow> 'p op_slab \<Rightarrow> bool \<times> 'p op_slab" where
  "slab_cancel_request_not_enqueued t s =
     (if token_kind t \<noteq> Cancel then (False, s)
      else case slot_for s t of
        None \<Rightarrow> (False, s)
      | Some (i, sl) \<Rightarrow>
          (case slot_state sl of
             Occupied l ob p Pending \<Rightarrow>
               (True, set_slot_state i (Occupied l ob p NeverRequested) s)
           | Tombstone \<Rightarrow> (True, slab_free_slot i s)
           | _ \<Rightarrow> (False, s)))"

definition slab_complete :: "token \<Rightarrow> 'p op_slab \<Rightarrow> 'p option \<times> 'p op_slab" where
  "slab_complete t s =
     (if token_kind t \<noteq> Operation then (None, s)
      else case slot_for s t of
        None \<Rightarrow> (None, s)
      | Some (i, sl) \<Rightarrow>
          (case slot_state sl of
             Occupied _ _ payload cancel \<Rightarrow>
               let s' = (set_slot_state i (Vacant None) s)\<lparr>occupied := occupied s - 1\<rparr>
               in (Some payload,
                   if cancel = Pending then set_slot_state i Tombstone s'
                   else slab_free_slot i s')
           | _ \<Rightarrow> (None, s)))"

definition slab_complete_cancel :: "token \<Rightarrow> 'p op_slab \<Rightarrow> bool \<times> 'p op_slab" where
  "slab_complete_cancel t s =
     (if token_kind t \<noteq> Cancel then (False, s)
      else case slot_for s t of
        None \<Rightarrow> (False, s)
      | Some (i, sl) \<Rightarrow>
          (case slot_state sl of
             Occupied l ob p Pending \<Rightarrow> (True, set_slot_state i (Occupied l ob p Completed) s)
           | Tombstone \<Rightarrow> (True, slab_free_slot i s)
           | _ \<Rightarrow> (False, s)))"

text \<open>The loop of \<open>drain\<close>: one index after the other, payloads pushed onto \<open>out\<close>.\<close>

fun slab_drain_loop :: "nat list \<Rightarrow> 'p op_slab \<Rightarrow> 'p list \<Rightarrow> 'p list \<times> 'p op_slab" where
  "slab_drain_loop [] s out = (out, s)"
| "slab_drain_loop (index # rest) s out =
     (case slot_state (slots s ! index) of
        Occupied _ _ payload _ \<Rightarrow>
          slab_drain_loop rest
            (slab_free_slot index
               ((set_slot_state index (Vacant None) s)\<lparr>occupied := occupied s - 1\<rparr>))
            (out @ [payload])
      | _ \<Rightarrow> slab_drain_loop rest s out)"

definition slab_drain :: "'p op_slab \<Rightarrow> 'p list \<times> 'p op_slab" where
  "slab_drain s = slab_drain_loop [0..<length (slots s)] s []"

definition promote_slot :: "'p slot \<Rightarrow> 'p slot" where
  "promote_slot sl =
     (case slot_state sl of
        Occupied Built ob p c \<Rightarrow> sl\<lparr>slot_state := Occupied Submitted ob p c\<rparr>
      | _ \<Rightarrow> sl)"

definition slab_promote_built_to_submitted :: "'p op_slab \<Rightarrow> 'p op_slab" where
  "slab_promote_built_to_submitted s = s\<lparr>slots := map promote_slot (slots s)\<rparr>"

text \<open>The four filtered token lists share one loop over the slots with their indices.\<close>

definition slab_tokens_where :: "('p slot_state \<Rightarrow> bool) \<Rightarrow> 'p op_slab \<Rightarrow> token list" where
  "slab_tokens_where P s =
     map (\<lambda>(index, sl). token_new Operation (of_nat index) (slot_generation sl))
       (filter (\<lambda>(index, sl). P (slot_state sl)) (enumerate 0 (slots s)))"

definition slab_detached_submitted_uncancelled :: "'p op_slab \<Rightarrow> token list" where
  "slab_detached_submitted_uncancelled = slab_tokens_where (\<lambda>st. case st of
     Occupied Submitted Detached _ NeverRequested \<Rightarrow> True | _ \<Rightarrow> False)"

definition slab_described :: "'p op_slab \<Rightarrow> token list" where
  "slab_described = slab_tokens_where (\<lambda>st. case st of
     Occupied Described _ _ _ \<Rightarrow> True | _ \<Rightarrow> False)"

definition slab_submitted_uncancelled :: "'p op_slab \<Rightarrow> token list" where
  "slab_submitted_uncancelled = slab_tokens_where (\<lambda>st. case st of
     Occupied Submitted _ _ NeverRequested \<Rightarrow> True | _ \<Rightarrow> False)"

definition slab_built :: "'p op_slab \<Rightarrow> token list" where
  "slab_built = slab_tokens_where (\<lambda>st. case st of
     Occupied Built _ _ _ \<Rightarrow> True | _ \<Rightarrow> False)"

text \<open>The slots whose completion only the kernel can deliver.\<close>

definition slab_awaiting_kernel :: "'p op_slab \<Rightarrow> nat" where
  "slab_awaiting_kernel s = length (filter (\<lambda>sl. case slot_state sl of
       Occupied Submitted _ _ _ \<Rightarrow> True | Tombstone \<Rightarrow> True | _ \<Rightarrow> False) (slots s))"

end
