(* ===== verification/Slab_View.thy ===== *)
theory Slab_View
  imports Slab
begin

text \<open>
  The invariant of the slab and its abstract view.

  Abstractly a slab is a partial map from keys (a slot index with a generation) to entries:
  a live operation, or the tombstone of one whose cancellation is still outstanding.
  \<open>slab_view\<close> reads that map off the slots. Every operation is then shown to be a
  simple update of the map, under the invariant \<open>slab_wf\<close>, which every operation keeps.
\<close>

section \<open>The invariant\<close>

fun free_chain :: "'p slot list \<Rightarrow> nat option \<Rightarrow> nat list \<Rightarrow> bool" where
  "free_chain sls h [] \<longleftrightarrow> h = None"
| "free_chain sls h (i # is) \<longleftrightarrow>
     h = Some i \<and> i < length sls \<and>
     (case slot_state (sls ! i) of Vacant n \<Rightarrow> free_chain sls n is | _ \<Rightarrow> False)"

definition is_vacant :: "'p slot_state \<Rightarrow> bool" where
  "is_vacant st = (case st of Vacant _ \<Rightarrow> True | _ \<Rightarrow> False)"

definition is_live :: "'p slot_state \<Rightarrow> bool" where
  "is_live st = (case st of Occupied _ _ _ _ \<Rightarrow> True | _ \<Rightarrow> False)"

definition generation_ok :: "usize \<Rightarrow> bool" where
  "generation_ok g \<longleftrightarrow> FIRST_GENERATION \<le> g \<and> g \<le> GENERATION_MASK"

definition free_list_ok :: "'p op_slab \<Rightarrow> bool" where
  "free_list_ok s \<longleftrightarrow> (\<exists>fl. free_chain (slots s) (free_head s) fl \<and> distinct fl \<and>
     set fl = {i. i < length (slots s) \<and> is_vacant (slot_state (slots s ! i))})"

definition slab_wf :: "'p op_slab \<Rightarrow> bool" where
  "slab_wf s \<longleftrightarrow>
     length (slots s) \<le> unat MAX_SLOTS \<and>
     list_all (\<lambda>sl. generation_ok (slot_generation sl)) (slots s) \<and>
     occupied s = length (filter (\<lambda>sl. is_live (slot_state sl)) (slots s)) \<and>
     free_list_ok s"

lemma slab_wfD:
  assumes "slab_wf s"
  shows "length (slots s) \<le> 65536"
    and "i < length (slots s) \<Longrightarrow> generation_ok (slot_generation (slots s ! i))"
    and "occupied s = length (filter (\<lambda>sl. is_live (slot_state sl)) (slots s))"
    and "free_list_ok s"
  using assms by (auto simp: slab_wf_def MAX_SLOTS_eq list_all_length)

subsection \<open>The free list\<close>

text \<open>A chain only reads the slots it lists.\<close>

lemma free_chain_cong:
  assumes "\<And>i. i \<in> set fl \<Longrightarrow> i < length sls \<Longrightarrow> i < length sls' \<and> slot_state (sls' ! i) = slot_state (sls ! i)"
    and "free_chain sls h fl"
  shows "free_chain sls' h fl"
  using assms
proof (induction fl arbitrary: h)
  case Nil
  then show ?case by simp
next
  case (Cons i fl)
  from Cons.prems(2) obtain n where
    n: "i < length sls" "slot_state (sls ! i) = Vacant n" "free_chain sls n fl" "h = Some i"
    by (auto split: slot_state.splits)
  with Cons.prems(1) [of i] have "i < length sls'" "slot_state (sls' ! i) = Vacant n"
    by auto
  moreover have "free_chain sls' n fl"
    using Cons.IH [of n] Cons.prems(1) n(3) by simp
  ultimately show ?case using n(4) by simp
qed

lemma free_list_ok_congI:
  assumes "free_list_ok s"
    and "length (slots s') = length (slots s)" and "free_head s' = free_head s"
    and "\<And>i. i < length (slots s) \<Longrightarrow> is_vacant (slot_state (slots s ! i)) \<Longrightarrow>
           slot_state (slots s' ! i) = slot_state (slots s ! i)"
    and "\<And>i. i < length (slots s) \<Longrightarrow> is_vacant (slot_state (slots s' ! i)) \<Longrightarrow>
           is_vacant (slot_state (slots s ! i))"
  shows "free_list_ok s'"
proof -
  from assms(1) obtain fl where fl:
    "free_chain (slots s) (free_head s) fl" "distinct fl"
    "set fl = {i. i < length (slots s) \<and> is_vacant (slot_state (slots s ! i))}"
    by (auto simp: free_list_ok_def)
  have "free_chain (slots s') (free_head s') fl"
    unfolding assms(3)
    by (rule free_chain_cong [OF _ fl(1)]) (use fl(3) assms(2,4) in auto)
  moreover have "set fl = {i. i < length (slots s') \<and> is_vacant (slot_state (slots s' ! i))}"
    using fl(3) assms(2,4,5) by auto
  ultimately show ?thesis using fl(2) by (auto simp: free_list_ok_def)
qed

section \<open>The abstract view\<close>

datatype 'p entry = Entry lifecycle observer 'p cancel_state | Tomb

type_synonym key = "usize \<times> usize"

fun entry_of :: "'p slot_state \<Rightarrow> 'p entry option" where
  "entry_of (Occupied l ob p c) = Some (Entry l ob p c)"
| "entry_of Tombstone = Some Tomb"
| "entry_of (Vacant _) = None"
| "entry_of Retired = None"

definition slab_view :: "'p op_slab \<Rightarrow> key \<Rightarrow> 'p entry option" where
  "slab_view s k =
     (case list_get (slots s) (unat (fst k)) of
        Some sl \<Rightarrow> if slot_generation sl = snd k then entry_of (slot_state sl) else None
      | None \<Rightarrow> None)"

lemma slab_view_token:
  "slab_view s (token_key t) = Option.bind (slot_for s t) (\<lambda>(_, sl). entry_of (slot_state sl))"
  by (auto simp: slab_view_def token_key_def slot_for_def split: option.splits)

lemma slot_for_SomeD:
  assumes "slot_for s t = Some (i, sl)"
  shows "i = unat (token_index t)" "i < length (slots s)" "slots s ! i = sl"
    "slot_generation sl = token_generation t"
  using assms by (auto simp: slot_for_def split: option.splits if_splits)

lemma slab_lookup_view:
  "slab_lookup s t = (case slab_view s (token_key t) of
     Some (Entry _ _ _ _) \<Rightarrow> LookupLive | Some Tomb \<Rightarrow> LookupTombstoned | None \<Rightarrow> LookupUnknown)"
  by (auto simp: slab_lookup_def slab_view_token split: option.splits slot_state.splits)

lemma slab_state_view:
  "slab_state s t = (case slab_view s (token_key t) of
     Some (Entry l ob _ _) \<Rightarrow> Some (l, ob) | _ \<Rightarrow> None)"
  by (auto simp: slab_state_def slab_view_token split: option.splits slot_state.splits)

lemma slab_payload_view:
  "slab_payload s t = (case slab_view s (token_key t) of
     Some (Entry _ _ p _) \<Rightarrow> Some p | _ \<Rightarrow> None)"
  by (auto simp: slab_payload_def slab_view_token split: option.splits slot_state.splits)

section \<open>How the elementary updates act\<close>

lemma set_slot_state_simps [simp]:
  "length (slots (set_slot_state i st s)) = length (slots s)"
  "free_head (set_slot_state i st s) = free_head s"
  "occupied (set_slot_state i st s) = occupied s"
  "i < length (slots s) \<Longrightarrow> slot_generation (slots (set_slot_state i st s) ! j) = slot_generation (slots s ! j)"
  "i < length (slots s) \<Longrightarrow> slot_state (slots (set_slot_state i st s) ! j)
     = (if j = i then st else slot_state (slots s ! j))"
  by (auto simp: set_slot_state_def nth_list_update)

lemma slab_view_occupied [simp]:
  "slab_view (s\<lparr>occupied := n\<rparr>) = slab_view s"
  "slab_view (s\<lparr>free_head := h\<rparr>) = slab_view s"
  by (simp_all add: slab_view_def fun_eq_iff)

lemma key_index_eq:
  "i < 65536 \<Longrightarrow> unat (a :: usize) = i \<longleftrightarrow> a = of_nat i"
  by (auto simp: unat_of_nat take_bit_nat_eq_self_iff)

lemma unat_of_nat_small [simp]: "i < 65536 \<Longrightarrow> unat (of_nat i :: usize) = i"
  by (simp add: unat_of_nat take_bit_nat_eq_self_iff)

lemma view_set_slot_state:
  assumes "i < length (slots s)" "length (slots s) \<le> 65536"
  shows "slab_view (set_slot_state i st s)
    = (slab_view s)((of_nat i, slot_generation (slots s ! i)) := entry_of st)"
proof (rule ext)
  fix k :: key
  from assms have i: "i < 65536" by simp
  show "slab_view (set_slot_state i st s) k =
      ((slab_view s)((of_nat i, slot_generation (slots s ! i)) := entry_of st)) k"
    using assms(1) key_index_eq [OF i, of "fst k"]
    by (cases k) (auto simp: slab_view_def set_slot_state_def list_get_def nth_list_update)
qed

lemma view_free_slot:
  assumes "i < length (slots s)" "length (slots s) \<le> 65536"
  shows "slab_view (slab_free_slot i s)
    = (slab_view s)((of_nat i, slot_generation (slots s ! i)) := None)"
proof (cases "GENERATION_MASK \<le> slot_generation (slots s ! i)")
  case True
  then show ?thesis
    using view_set_slot_state [OF assms] by (simp add: slab_free_slot_def Let_def)
next
  case False
  from assms have i: "i < 65536" by simp
  show ?thesis
  proof (rule ext)
    fix k :: key
    from False show "slab_view (slab_free_slot i s) k =
        ((slab_view s)((of_nat i, slot_generation (slots s ! i)) := None)) k"
      using assms(1) key_index_eq [OF i, of "fst k"]
      by (cases k) (auto simp: slab_view_def slab_free_slot_def Let_def list_get_def nth_list_update)
  qed
qed

text \<open>A slot that is about to be freed may be overwritten first, as the code does.\<close>

lemma free_slot_set_slot_state:
  "i < length (slots s) \<Longrightarrow> slab_free_slot i (set_slot_state i st s) = slab_free_slot i s"
  by (simp add: slab_free_slot_def set_slot_state_def Let_def)

lemma set_slot_state_twice:
  "i < length (slots s) \<Longrightarrow> set_slot_state i st (set_slot_state i st' s) = set_slot_state i st s"
  by (simp add: set_slot_state_def)

lemma set_slot_state_occupied:
  "set_slot_state i st (s\<lparr>occupied := n\<rparr>) = (set_slot_state i st s)\<lparr>occupied := n\<rparr>"
  by (simp add: set_slot_state_def)

lemma slab_complete_eq:
  "slab_complete t s =
     (if token_kind t \<noteq> Operation then (None, s)
      else case slot_for s t of
        Some (i, sl) \<Rightarrow>
          (case slot_state sl of
             Occupied _ _ payload cancel \<Rightarrow>
               (Some payload,
                if cancel = Pending
                then set_slot_state i Tombstone (s\<lparr>occupied := occupied s - 1\<rparr>)
                else slab_free_slot i (s\<lparr>occupied := occupied s - 1\<rparr>))
           | _ \<Rightarrow> (None, s))
      | None \<Rightarrow> (None, s))"
  by (auto simp: slab_complete_def Let_def free_slot_set_slot_state set_slot_state_twice
      simp flip: set_slot_state_occupied
      dest: slot_for_SomeD split: option.splits slot_state.splits)

section \<open>Preservation of the invariant by the elementary updates\<close>

lemma wf_set_slot_state:
  assumes wf: "slab_wf s" and i: "i < length (slots s)"
    and "\<not> is_vacant (slot_state (slots s ! i))" "\<not> is_vacant st"
    and n: "n + of_bool (is_live (slot_state (slots s ! i))) = occupied s + of_bool (is_live st)"
  shows "slab_wf (set_slot_state i st (s\<lparr>occupied := n\<rparr>))"
proof -
  have "free_list_ok (set_slot_state i st (s\<lparr>occupied := n\<rparr>))"
    by (rule free_list_ok_congI [OF slab_wfD(4) [OF wf]])
      (use i assms(3,4) in \<open>auto simp: set_slot_state_occupied split: if_splits\<close>)
  moreover have "n = length (filter (\<lambda>sl. is_live (slot_state sl)) (slots (set_slot_state i st s)))"
    using length_filter_update [OF i, of "\<lambda>sl. is_live (slot_state sl)" "(slots s ! i)\<lparr>slot_state := st\<rparr>"]
      n slab_wfD(3) [OF wf]
    by (auto simp: set_slot_state_def split: if_splits)
  ultimately show ?thesis
    using wf i by (auto simp: slab_wf_def list_all_length set_slot_state_occupied)
qed

lemma is_live_not_vacant: "is_live st \<Longrightarrow> \<not> is_vacant st"
  by (auto simp: is_live_def is_vacant_def split: slot_state.splits)

lemma free_slot_free_list:
  assumes wf: "free_list_ok s" and i: "i < length (slots s)"
    and nv: "\<not> is_vacant (slot_state (slots s ! i))"
  shows "free_list_ok (slab_free_slot i s)"
proof (cases "GENERATION_MASK \<le> slot_generation (slots s ! i)")
  case True
  have "free_list_ok (set_slot_state i Retired s)"
    by (rule free_list_ok_congI [OF wf]) (use i nv in \<open>auto simp: is_vacant_def split: if_splits\<close>)
  with True show ?thesis by (simp add: slab_free_slot_def Let_def)
next
  case False
  from wf obtain fl where fl:
    "free_chain (slots s) (free_head s) fl" "distinct fl"
    "set fl = {i. i < length (slots s) \<and> is_vacant (slot_state (slots s ! i))}"
    by (auto simp: free_list_ok_def)
  let ?s = "slab_free_slot i s"
  have sl: "slots ?s = (slots s)[i := (slots s ! i)\<lparr>slot_generation := slot_generation (slots s ! i) + 1,
      slot_state := Vacant (free_head s)\<rparr>]" "free_head ?s = Some i"
    using False by (simp_all add: slab_free_slot_def Let_def)
  have "i \<notin> set fl" using fl(3) nv by simp
  have "free_chain (slots ?s) (free_head s) fl"
  proof (rule free_chain_cong [OF _ fl(1)])
    fix j assume "j \<in> set fl" "j < length (slots s)"
    with \<open>i \<notin> set fl\<close> have "j \<noteq> i" by auto
    with \<open>j < length (slots s)\<close>
    show "j < length (slots ?s) \<and> slot_state (slots ?s ! j) = slot_state (slots s ! j)"
      by (simp add: sl)
  qed
  then have chain: "free_chain (slots ?s) (free_head ?s) (i # fl)"
    unfolding sl(2) using i by (simp only: free_chain.simps sl(1)) simp
  have vac: "is_vacant (slot_state (slots ?s ! j)) \<longleftrightarrow> j = i \<or> is_vacant (slot_state (slots s ! j))"
    if "j < length (slots s)" for j
    using that i by (cases "j = i") (simp_all add: sl(1) is_vacant_def)
  have "set (i # fl) = {j. j < length (slots ?s) \<and> is_vacant (slot_state (slots ?s ! j))}"
  proof -
    have len: "length (slots ?s) = length (slots s)" by (simp add: sl(1))
    show ?thesis unfolding len using fl(3) i vac by auto
  qed
  with chain fl(2) \<open>i \<notin> set fl\<close> have "free_chain (slots ?s) (free_head ?s) (i # fl) \<and> distinct (i # fl)
      \<and> set (i # fl) = {j. j < length (slots ?s) \<and> is_vacant (slot_state (slots ?s ! j))}"
    by simp
  then show ?thesis unfolding free_list_ok_def by blast
qed

lemma generation_step:
  "\<lbrakk>generation_ok g; \<not> GENERATION_MASK \<le> g\<rbrakk> \<Longrightarrow> generation_ok (g + 1) \<and> g < g + 1"
proof -
  assume g: "generation_ok g" "\<not> GENERATION_MASK \<le> g"
  then have "unat g < 140737488355327"
    by (simp add: GENERATION_MASK_eq word_le_nat_alt)
  then have "unat (g + 1) = unat g + 1"
    by (simp add: unat_word_ariths)
  with g \<open>unat g < 140737488355327\<close> show ?thesis
    by (simp add: generation_ok_def FIRST_GENERATION_def GENERATION_MASK_eq word_le_nat_alt
        word_less_nat_alt)
qed

lemma free_slot_slots:
  assumes "i < length (slots s)"
  shows "\<exists>g st. slots (slab_free_slot i s) = (slots s)[i := (slots s ! i)\<lparr>slot_generation := g, slot_state := st\<rparr>]
    \<and> \<not> is_live st \<and> (generation_ok (slot_generation (slots s ! i)) \<longrightarrow> generation_ok g)
    \<and> (if GENERATION_MASK \<le> slot_generation (slots s ! i) then g = slot_generation (slots s ! i) \<and> st = Retired
       else g = slot_generation (slots s ! i) + 1 \<and> st = Vacant (free_head s))"
proof (cases "GENERATION_MASK \<le> slot_generation (slots s ! i)")
  case True
  have "slots (slab_free_slot i s) = (slots s)[i := (slots s ! i)
      \<lparr>slot_generation := slot_generation (slots s ! i), slot_state := Retired\<rparr>]"
    using True by (simp add: slab_free_slot_def set_slot_state_def Let_def)
  with True show ?thesis by (fastforce simp: is_live_def)
next
  case False
  have "slots (slab_free_slot i s) = (slots s)[i := (slots s ! i)
      \<lparr>slot_generation := slot_generation (slots s ! i) + 1, slot_state := Vacant (free_head s)\<rparr>]"
    using False by (simp add: slab_free_slot_def Let_def)
  with False show ?thesis using generation_step by (fastforce simp: is_live_def)
qed

lemma free_slot_occupied [simp]: "occupied (slab_free_slot i s) = occupied s"
  by (simp add: slab_free_slot_def Let_def)

lemma wf_free_slot:
  assumes wf: "slab_wf s" and i: "i < length (slots s)"
    and nv: "\<not> is_vacant (slot_state (slots s ! i))"
    and n: "n + of_bool (is_live (slot_state (slots s ! i))) = occupied s"
  shows "slab_wf (slab_free_slot i (s\<lparr>occupied := n\<rparr>))"
proof -
  let ?s = "s\<lparr>occupied := n\<rparr>"
  obtain g st where gs: "slots (slab_free_slot i ?s)
      = (slots s)[i := (slots s ! i)\<lparr>slot_generation := g, slot_state := st\<rparr>]"
      "\<not> is_live st" "generation_ok (slot_generation (slots s ! i)) \<longrightarrow> generation_ok g"
    using free_slot_slots [of i ?s] i by auto
  have "free_list_ok (slab_free_slot i ?s)"
    by (rule free_slot_free_list) (use wf i nv in \<open>auto simp: slab_wf_def free_list_ok_def\<close>)
  moreover have "n = length (filter (\<lambda>sl. is_live (slot_state sl)) (slots (slab_free_slot i ?s)))"
    using length_filter_update [OF i, of "\<lambda>sl. is_live (slot_state sl)"
        "(slots s ! i)\<lparr>slot_generation := g, slot_state := st\<rparr>"] n slab_wfD(3) [OF wf] gs(1,2)
    by (auto split: if_splits)
  moreover have "generation_ok g" using gs(3) slab_wfD(2) [OF wf i] by simp
  ultimately show ?thesis
    using wf gs(1) i by (auto simp: slab_wf_def list_all_length nth_list_update)
qed

lemma live_count_pos:
  assumes "slab_wf s" "i < length (slots s)" "is_live (slot_state (slots s ! i))"
  shows "0 < occupied s"
  using slab_wfD(3) [OF assms(1)] length_filter_nth_pos [OF assms(2), of "\<lambda>sl. is_live (slot_state sl)"]
    assms(3) by simp

section \<open>Every operation as an update of the view\<close>

lemma token_index_nat: "of_nat (unat (token_index t)) = token_index t"
  by simp

lemma slot_for_key:
  "slot_for s t = Some (i, sl) \<Longrightarrow> (of_nat i, slot_generation (slots s ! i)) = token_key t"
  using slot_for_SomeD [of s t i sl] by (simp add: token_key_def)

lemma view_token_cases:
  assumes "slab_wf s"
  obtains (none) "slab_view s (token_key t) = None"
      "\<And>i sl. slot_for s t = Some (i, sl) \<Longrightarrow> \<not> is_live (slot_state sl) \<and> slot_state sl \<noteq> Tombstone"
    | (live) i l ob p c where "slab_view s (token_key t) = Some (Entry l ob p c)"
      "slot_for s t = Some (i, slots s ! i)" "slot_state (slots s ! i) = Occupied l ob p c"
      "i < length (slots s)" "(of_nat i, slot_generation (slots s ! i)) = token_key t"
    | (tomb) i where "slab_view s (token_key t) = Some Tomb"
      "slot_for s t = Some (i, slots s ! i)" "slot_state (slots s ! i) = Tombstone"
      "i < length (slots s)" "(of_nat i, slot_generation (slots s ! i)) = token_key t"
proof (cases "slot_for s t")
  case None
  then show thesis using none by (simp add: slab_view_token)
next
  case (Some p)
  then obtain i sl where sf: "slot_for s t = Some (i, sl)" by (cases p) auto
  note d = slot_for_SomeD [OF sf] slot_for_key [OF sf]
  show thesis
  proof (cases "slot_state sl")
    case (Occupied l ob p c)
    with sf d live show thesis by (simp add: slab_view_token)
  next
    case Tombstone
    with sf d tomb show thesis by (simp add: slab_view_token)
  qed (use none sf in \<open>auto simp: slab_view_token is_live_def\<close>)
qed

end
