(* ===== verification/Slab_Spec.thy ===== *)
theory Slab_Spec
  imports Slab_View
begin

text \<open>
  The slab implements a map of keys to entries.

  For every operation of \<open>OpSlab\<close> the file states what it does to the view and that it
  keeps \<open>slab_wf\<close>; the locale \<open>op_store\<close> at the end names the part of that contract
  the driver uses, with the facts that follow from it alone (a payload leaves the store
  only through its own completion), and the slab is shown to provide it.
\<close>

section \<open>Creation and insertion\<close>

lemma view_new [view_simps]: "slab_view slab_new = Map.empty"
  by (simp add: slab_view_def slab_new_def fun_eq_iff list_get_def)

lemma wf_new [wf_intros]: "slab_wf slab_new"
  by (auto simp: slab_wf_def slab_new_def free_list_ok_def intro!: exI [of _ "[]"])

text \<open>Filling the vacant slot that \<open>slab_take_index\<close> chose.\<close>

definition slab_fill :: "nat \<Rightarrow> 'p \<Rightarrow> 'p op_slab \<Rightarrow> 'p op_slab" where
  "slab_fill i p s =
     (set_slot_state i (Occupied Described Live p NeverRequested) s)\<lparr>occupied := occupied s + 1\<rparr>"

lemma slab_insert_eq:
  "slab_insert p s = (case slab_take_index s of
     None \<Rightarrow> None
   | Some (None, s') \<Rightarrow> Some (Inl p, s')
   | Some (Some i, s') \<Rightarrow>
       Some (Inr (token_new Operation (of_nat i) (slot_generation (slots (slab_fill i p s') ! i))),
             slab_fill i p s'))"
  by (auto simp: slab_insert_def slab_fill_def Let_def split: option.splits)

text \<open>What \<open>slab_take_index\<close> leaves: a vacant slot that is no longer on the free list.\<close>

definition reserved :: "nat \<Rightarrow> 'p op_slab \<Rightarrow> bool" where
  "reserved i s \<longleftrightarrow> i < length (slots s) \<and> is_vacant (slot_state (slots s ! i)) \<and>
     length (slots s) \<le> unat MAX_SLOTS \<and>
     list_all (\<lambda>sl. generation_ok (slot_generation sl)) (slots s) \<and>
     occupied s = length (filter (\<lambda>sl. is_live (slot_state sl)) (slots s)) \<and>
     (\<exists>fl. free_chain (slots s) (free_head s) fl \<and> distinct fl \<and>
        set fl = {j. j < length (slots s) \<and> is_vacant (slot_state (slots s ! j))} - {i})"

lemma free_chain_append:
  assumes "free_chain sls h fl"
  shows "free_chain (sls @ [x]) h fl"
  by (rule free_chain_cong [OF _ assms]) (auto simp: nth_append)

lemma vacant_append:
  "{j. j < length (xs @ [x]) \<and> P ((xs @ [x]) ! j)} - {length xs} = {j. j < length xs \<and> P (xs ! j)}"
  by (auto simp: nth_append split: if_splits)

lemma reserved_append:
  assumes wf: "slab_wf s" and full: "length (slots s) < 65536" "free_head s = None"
  shows "reserved (length (slots s))
    (s\<lparr>slots := slots s @ [\<lparr>slot_generation = FIRST_GENERATION, slot_state = Vacant None\<rparr>]\<rparr>)"
proof -
  obtain fl where fl: "free_chain (slots s) (free_head s) fl" "distinct fl"
    "set fl = {i. i < length (slots s) \<and> is_vacant (slot_state (slots s ! i))}"
    using slab_wfD(4) [OF wf] by (auto simp: free_list_ok_def)
  have first: "generation_ok FIRST_GENERATION"
    by (simp add: generation_ok_def FIRST_GENERATION_def GENERATION_MASK_eq)
  let ?x = "\<lparr>slot_generation = FIRST_GENERATION, slot_state = Vacant None\<rparr>"
  have "free_chain (slots s @ [?x]) (free_head s) fl \<and> distinct fl \<and>
      set fl = {j. j < length (slots s @ [?x]) \<and> is_vacant (slot_state ((slots s @ [?x]) ! j))}
        - {length (slots s)}"
    using fl free_chain_append [OF fl(1)]
      vacant_append [of "slots s" ?x "\<lambda>sl. is_vacant (slot_state sl)"] by auto
  then show ?thesis
    using wf first full(1)
    by (auto simp: reserved_def slab_wf_def MAX_SLOTS_eq is_vacant_def is_live_def)
qed

lemma take_index_cases:
  assumes wf: "slab_wf s"
  obtains (full) "slab_take_index s = Some (None, s)" "free_head s = None"
      "length (slots s) = 65536"
    | (index) i s' where "slab_take_index s = Some (Some i, s')" "reserved i s'"
      "slab_view s' = slab_view s"
proof (cases "free_head s")
  case None
  show thesis
  proof (cases "unat MAX_SLOTS \<le> length (slots s)")
    case True
    with None slab_wfD(1) [OF wf] full show thesis
      by (simp add: slab_take_index_def MAX_SLOTS_eq)
  next
    case False
    let ?x = "\<lparr>slot_generation = FIRST_GENERATION, slot_state = Vacant None :: 'a slot_state\<rparr>"
    have "slab_view (s\<lparr>slots := slots s @ [?x]\<rparr>) = slab_view s"
      by (auto simp: fun_eq_iff slab_view_def list_get_append split: option.splits)
    with index reserved_append [OF wf _ None] None False show thesis
      by (simp add: slab_take_index_def MAX_SLOTS_eq)
  qed
next
  case (Some i)
  obtain fl where fl: "free_chain (slots s) (free_head s) fl" "distinct fl"
    "set fl = {i. i < length (slots s) \<and> is_vacant (slot_state (slots s ! i))}"
    using slab_wfD(4) [OF wf] by (auto simp: free_list_ok_def)
  with Some obtain fl' where fl': "fl = i # fl'" by (cases fl) auto
  with fl(1) obtain n where n: "i < length (slots s)" "slot_state (slots s ! i) = Vacant n"
    "free_chain (slots s) n fl'" by (auto split: slot_state.splits)
  have "set fl' = {j. j < length (slots s) \<and> is_vacant (slot_state (slots s ! j))} - {i}"
    using fl(2,3) fl' by auto
  then have "reserved i (s\<lparr>free_head := n\<rparr>)"
    using wf n fl(2) fl' by (auto simp: reserved_def slab_wf_def is_vacant_def)
  with Some n index show thesis
    by (simp add: slab_take_index_def)
qed

lemma reserved_fill:
  assumes r: "reserved i s"
  shows "slab_wf (slab_fill i p s)"
    and "slab_view (slab_fill i p s) = (slab_view s)
      ((of_nat i, slot_generation (slots s ! i)) \<mapsto> Entry Described Live p NeverRequested)"
    and "slab_view s (of_nat i, slot_generation (slots s ! i)) = None"
    and "valid_key (of_nat i, slot_generation (slots s ! i))"
    and "slot_generation (slots (slab_fill i p s) ! i) = slot_generation (slots s ! i)"
proof -
  from r have i: "i < length (slots s)" "length (slots s) \<le> 65536"
    and v: "is_vacant (slot_state (slots s ! i))"
    by (auto simp: reserved_def MAX_SLOTS_eq)
  from r obtain fl where fl: "free_chain (slots s) (free_head s) fl" "distinct fl"
    "set fl = {j. j < length (slots s) \<and> is_vacant (slot_state (slots s ! j))} - {i}"
    by (auto simp: reserved_def)
  have "free_chain (slots (slab_fill i p s)) (free_head s) fl"
    by (rule free_chain_cong [OF _ fl(1)]) (use fl(3) i in \<open>auto simp: slab_fill_def\<close>)
  moreover have "set fl = {j. j < length (slots (slab_fill i p s)) \<and>
      is_vacant (slot_state (slots (slab_fill i p s) ! j))}"
    using fl(3) i by (auto simp: slab_fill_def is_vacant_def split: if_splits)
  ultimately have fr: "free_list_ok (slab_fill i p s)"
    using fl(2) by (auto simp: free_list_ok_def slab_fill_def)
  have nl: "\<not> is_live (slot_state (slots s ! i))" using v is_live_not_vacant by blast
  have "length (filter (\<lambda>sl. is_live (slot_state sl)) (slots (slab_fill i p s))) = occupied s + 1"
    using length_filter_update_more [OF i(1), of "\<lambda>sl. is_live (slot_state sl)"
        "(slots s ! i)\<lparr>slot_state := Occupied Described Live p NeverRequested\<rparr>"] nl r
    by (simp add: slab_fill_def set_slot_state_def reserved_def is_live_def)
  with fr r i show "slab_wf (slab_fill i p s)"
    by (simp add: slab_wf_def reserved_def list_all_length slab_fill_def)
  show "slab_view (slab_fill i p s) = (slab_view s)
      ((of_nat i, slot_generation (slots s ! i)) \<mapsto> Entry Described Live p NeverRequested)"
    by (simp add: slab_fill_def view_set_slot_state [OF i])
  show "slab_view s (of_nat i, slot_generation (slots s ! i)) = None"
    using v i by (auto simp: slab_view_def is_vacant_def list_get_def split: slot_state.splits)
  have "generation_ok (slot_generation (slots s ! i))"
    using r i by (auto simp: reserved_def list_all_length)
  moreover have "(of_nat i :: usize) < MAX_SLOTS"
    using i by (simp add: MAX_SLOTS_eq word_less_nat_alt)
  ultimately show "valid_key (of_nat i, slot_generation (slots s ! i))"
    by (simp add: valid_key_def generation_ok_def)
  show "slot_generation (slots (slab_fill i p s) ! i) = slot_generation (slots s ! i)"
    using i by (simp add: slab_fill_def)
qed

lemma insert_cases:
  assumes wf: "slab_wf s"
  obtains (full) "slab_insert p s = Some (Inl p, s)" "free_head s = None"
      "length (slots s) = 65536"
    | (token) t s' where "slab_insert p s = Some (Inr t, s')" "slab_wf s'"
      "token_kind t = Operation" "valid_key (token_key t)" "slab_view s (token_key t) = None"
      "slab_view s' = (slab_view s)(token_key t \<mapsto> Entry Described Live p NeverRequested)"
  using wf
proof (cases rule: take_index_cases)
  case full
  with that(1) show thesis by (simp add: slab_insert_eq)
next
  case (index i s')
  note f = reserved_fill [OF index(2)]
  show thesis
    by (rule that(2)) (use index f in \<open>auto simp: slab_insert_eq token_key_new\<close>)
qed

section \<open>The other operations\<close>

text \<open>
  What each operation does to the entry its token names. An operation that finds no such
  entry changes nothing; the others change only that entry.
\<close>

lemma payload_write_spec:
  assumes wf: "slab_wf s"
  shows "slab_wf (slab_payload_write t p' s) \<and>
    slab_view (slab_payload_write t p' s) = (case slab_view s (token_key t) of
      Some (Entry l ob p c) \<Rightarrow> (slab_view s)(token_key t \<mapsto> Entry l ob p' c) | _ \<Rightarrow> slab_view s)"
  using wf
proof (cases rule: view_token_cases [where t = t])
  case none
  with wf show ?thesis
    by (auto simp: slab_payload_write_def is_live_def split: option.splits slot_state.splits)
next
  case (live i l ob p c)
  show ?thesis
    using wf_set_slot_state [OF wf live(4), of "Occupied l ob p' c" "occupied s"]
      view_set_slot_state [OF live(4) slab_wfD(1) [OF wf]] live
    by (simp add: slab_payload_write_def is_vacant_def is_live_def)
next
  case (tomb i)
  with wf show ?thesis by (simp add: slab_payload_write_def)
qed

lemma set_lifecycle_spec:
  assumes wf: "slab_wf s" and r: "slab_set_lifecycle t next s = (b, s')"
  shows "slab_wf s' \<and> (case slab_view s (token_key t) of
      Some (Entry l ob p c) \<Rightarrow>
        b \<and> slab_view s' = (slab_view s)(token_key t \<mapsto>
               Entry (if lifecycle_forward l next then next else l) ob p c)
    | _ \<Rightarrow> \<not> b \<and> s' = s)"
  using wf
proof (cases rule: view_token_cases [where t = t])
  case none
  with r wf show ?thesis
    by (auto simp: slab_set_lifecycle_def is_live_def split: option.splits slot_state.splits)
next
  case (live i l ob p c)
  show ?thesis
    using wf_set_slot_state [OF wf live(4), of "Occupied next ob p c" "occupied s"]
      view_set_slot_state [OF live(4) slab_wfD(1) [OF wf]] live r wf
    by (auto simp: slab_set_lifecycle_def is_vacant_def is_live_def fun_upd_idem split: if_splits)
next
  case (tomb i)
  with r wf show ?thesis by (simp add: slab_set_lifecycle_def)
qed

lemma detach_spec:
  assumes wf: "slab_wf s" and r: "slab_detach t s = (res, s')"
  shows "slab_wf s' \<and> (case slab_view s (token_key t) of
      Some (Entry l ob p c) \<Rightarrow>
        res = Some l \<and> slab_view s' = (slab_view s)(token_key t \<mapsto> Entry l Detached p c)
    | _ \<Rightarrow> res = None \<and> s' = s)"
  using wf
proof (cases rule: view_token_cases [where t = t])
  case none
  with r wf show ?thesis
    by (auto simp: slab_detach_def is_live_def split: option.splits slot_state.splits)
next
  case (live i l ob p c)
  show ?thesis
    using wf_set_slot_state [OF wf live(4), of "Occupied l Detached p c" "occupied s"]
      view_set_slot_state [OF live(4) slab_wfD(1) [OF wf]] live r
    by (auto simp: slab_detach_def is_vacant_def is_live_def)
next
  case (tomb i)
  with r wf show ?thesis by (simp add: slab_detach_def)
qed

lemma register_cancel_spec:
  assumes wf: "slab_wf s" and r: "slab_register_cancel t s = (res, s')"
  shows "slab_wf s' \<and> (case slab_view s (token_key t) of
      Some (Entry l ob p NeverRequested) \<Rightarrow>
        if token_kind t = Operation
        then res = Some (to_cancel t) \<and> slab_view s' = (slab_view s)(token_key t \<mapsto> Entry l ob p Pending)
        else res = None \<and> s' = s
    | _ \<Rightarrow> res = None \<and> s' = s)"
  using wf
proof (cases rule: view_token_cases [where t = t])
  case none
  with r wf show ?thesis
    by (auto simp: slab_register_cancel_def is_live_def split: option.splits slot_state.splits if_splits)
next
  case (live i l ob p c)
  show ?thesis
    using wf_set_slot_state [OF wf live(4), of "Occupied l ob p Pending" "occupied s"]
      view_set_slot_state [OF live(4) slab_wfD(1) [OF wf]] live r wf
    by (cases c) (auto simp: slab_register_cancel_def is_vacant_def is_live_def split: if_splits)
next
  case (tomb i)
  with r wf show ?thesis by (auto simp: slab_register_cancel_def split: if_splits)
qed

lemma not_enqueued_spec:
  assumes wf: "slab_wf s" and r: "slab_cancel_request_not_enqueued t s = (b, s')"
  shows "slab_wf s' \<and> (if token_kind t \<noteq> Cancel then \<not> b \<and> s' = s else
    case slab_view s (token_key t) of
      Some (Entry l ob p Pending) \<Rightarrow>
        b \<and> slab_view s' = (slab_view s)(token_key t \<mapsto> Entry l ob p NeverRequested)
    | Some Tomb \<Rightarrow> b \<and> slab_view s' = (slab_view s)(token_key t := None)
    | _ \<Rightarrow> \<not> b \<and> s' = s)"
  using wf
proof (cases rule: view_token_cases [where t = t])
  case none
  with r wf show ?thesis
    by (auto simp: slab_cancel_request_not_enqueued_def is_live_def
        split: option.splits slot_state.splits if_splits)
next
  case (live i l ob p c)
  show ?thesis
    using wf_set_slot_state [OF wf live(4), of "Occupied l ob p NeverRequested" "occupied s"]
      view_set_slot_state [OF live(4) slab_wfD(1) [OF wf]] live r wf
    by (cases c) (auto simp: slab_cancel_request_not_enqueued_def is_vacant_def is_live_def split: if_splits)
next
  case (tomb i)
  show ?thesis
    using wf_free_slot [OF wf tomb(4), of "occupied s"] view_free_slot [OF tomb(4) slab_wfD(1) [OF wf]]
      tomb r wf
    by (auto simp: slab_cancel_request_not_enqueued_def is_vacant_def is_live_def split: if_splits)
qed

lemma complete_cancel_spec:
  assumes wf: "slab_wf s" and r: "slab_complete_cancel t s = (b, s')"
  shows "slab_wf s' \<and> (if token_kind t \<noteq> Cancel then \<not> b \<and> s' = s else
    case slab_view s (token_key t) of
      Some (Entry l ob p Pending) \<Rightarrow>
        b \<and> slab_view s' = (slab_view s)(token_key t \<mapsto> Entry l ob p Completed)
    | Some Tomb \<Rightarrow> b \<and> slab_view s' = (slab_view s)(token_key t := None)
    | _ \<Rightarrow> \<not> b \<and> s' = s)"
  using wf
proof (cases rule: view_token_cases [where t = t])
  case none
  with r wf show ?thesis
    by (auto simp: slab_complete_cancel_def is_live_def
        split: option.splits slot_state.splits if_splits)
next
  case (live i l ob p c)
  show ?thesis
    using wf_set_slot_state [OF wf live(4), of "Occupied l ob p Completed" "occupied s"]
      view_set_slot_state [OF live(4) slab_wfD(1) [OF wf]] live r wf
    by (cases c) (auto simp: slab_complete_cancel_def is_vacant_def is_live_def split: if_splits)
next
  case (tomb i)
  show ?thesis
    using wf_free_slot [OF wf tomb(4), of "occupied s"] view_free_slot [OF tomb(4) slab_wfD(1) [OF wf]]
      tomb r wf
    by (auto simp: slab_complete_cancel_def is_vacant_def is_live_def split: if_splits)
qed

text \<open>A completion hands the payload out and leaves a tombstone exactly while a
  cancellation is pending.\<close>

lemma complete_spec:
  assumes wf: "slab_wf s" and r: "slab_complete t s = (res, s')"
  shows "slab_wf s' \<and> (case slab_view s (token_key t) of
      Some (Entry l ob p c) \<Rightarrow>
        if token_kind t = Operation
        then res = Some p \<and>
          slab_view s' = (slab_view s)(token_key t := (if c = Pending then Some Tomb else None))
        else res = None \<and> s' = s
    | _ \<Rightarrow> res = None \<and> s' = s)"
  using wf
proof (cases rule: view_token_cases [where t = t])
  case none
  with r wf show ?thesis
    by (auto simp: slab_complete_eq is_live_def split: option.splits slot_state.splits if_splits)
next
  case (live i l ob p c)
  have lv: "is_live (slot_state (slots s ! i))" using live(3) by (simp add: is_live_def)
  have n: "occupied s - 1 + 1 = occupied s" using live_count_pos [OF wf live(4) lv] by simp
  show ?thesis
    using wf_free_slot [OF wf live(4), of "occupied s - 1"]
      wf_set_slot_state [OF wf live(4), of Tombstone "occupied s - 1"]
      view_free_slot [OF live(4) slab_wfD(1) [OF wf]]
      view_set_slot_state [OF live(4) slab_wfD(1) [OF wf]] live r wf lv n
      view_free_slot [of i "s\<lparr>occupied := occupied s - 1\<rparr>"] slab_wfD(1) [OF wf]
    by (auto simp: slab_complete_eq set_slot_state_occupied is_vacant_def is_live_def split: if_splits)
next
  case (tomb i)
  with r wf show ?thesis by (auto simp: slab_complete_eq split: if_splits)
qed

section \<open>Promotion\<close>

fun promote_entry :: "'p entry \<Rightarrow> 'p entry" where
  "promote_entry (Entry l ob p c) = Entry (if l = Built then Submitted else l) ob p c"
| "promote_entry Tomb = Tomb"

lemma promote_slot_simps [simp]:
  "slot_generation (promote_slot sl) = slot_generation sl"
  "is_live (slot_state (promote_slot sl)) = is_live (slot_state sl)"
  "is_vacant (slot_state (promote_slot sl)) = is_vacant (slot_state sl)"
  "entry_of (slot_state (promote_slot sl)) = map_option promote_entry (entry_of (slot_state sl))"
  by (auto simp: promote_slot_def is_live_def is_vacant_def split: slot_state.splits lifecycle.splits)

lemma promote_slot_vacant: "is_vacant (slot_state sl) \<Longrightarrow> promote_slot sl = sl"
  by (auto simp: promote_slot_def is_vacant_def split: slot_state.splits)

lemma promote_spec:
  assumes wf: "slab_wf s"
  shows "slab_wf (slab_promote_built_to_submitted s)"
    and "slab_view (slab_promote_built_to_submitted s) = map_option promote_entry \<circ> slab_view s"
proof -
  have "free_list_ok (slab_promote_built_to_submitted s)"
    by (rule free_list_ok_congI [OF slab_wfD(4) [OF wf]])
      (auto simp: slab_promote_built_to_submitted_def promote_slot_vacant)
  moreover have "length (filter (\<lambda>sl. is_live (slot_state sl)) (map promote_slot (slots s)))
      = length (filter (\<lambda>sl. is_live (slot_state sl)) (slots s))"
    by (simp add: filter_map comp_def)
  ultimately show "slab_wf (slab_promote_built_to_submitted s)"
    using wf by (simp add: slab_wf_def slab_promote_built_to_submitted_def list_all_length)
  show "slab_view (slab_promote_built_to_submitted s) = map_option promote_entry \<circ> slab_view s"
    by (auto simp: fun_eq_iff slab_view_def slab_promote_built_to_submitted_def list_get_def)
qed

section \<open>The token lists\<close>

lemma view_SomeD:
  assumes "slab_view s k = Some e"
  obtains i where "i < length (slots s)" "entry_of (slot_state (slots s ! i)) = Some e"
    "unat (fst k) = i" "snd k = slot_generation (slots s ! i)"
  using assms that [of "unat (fst k)"]
  by (auto simp: slab_view_def split: option.splits if_splits)

lemma view_at:
  assumes "slab_wf s" "i < length (slots s)"
  shows "slab_view s (of_nat i, slot_generation (slots s ! i)) = entry_of (slot_state (slots s ! i))"
proof -
  have "i < 65536" using assms slab_wfD(1) [of s] by simp
  with assms(2) show ?thesis by (simp add: slab_view_def)
qed

lemma key_at_valid:
  assumes "slab_wf s" "i < length (slots s)"
  shows "valid_key (of_nat i, slot_generation (slots s ! i))"
proof -
  have "i < 65536" using assms slab_wfD(1) [of s] by simp
  with slab_wfD(2) [OF assms] show ?thesis
    by (simp add: valid_key_def generation_ok_def MAX_SLOTS_eq word_less_nat_alt)
qed

lemma tokens_where_mem:
  assumes wf: "slab_wf s" and P: "\<And>st. P st \<Longrightarrow> entry_of st \<noteq> None"
    and PQ: "\<And>st e. entry_of st = Some e \<Longrightarrow> P st = Q e"
  shows "t \<in> set (slab_tokens_where P s) \<longleftrightarrow>
    token_kind t = Operation \<and> (\<exists>e. slab_view s (token_key t) = Some e \<and> Q e)"
proof
  assume "t \<in> set (slab_tokens_where P s)"
  then obtain i where i: "i < length (slots s)" "P (slot_state (slots s ! i))"
    "t = token_new Operation (of_nat i) (slot_generation (slots s ! i))"
    by (auto simp: slab_tokens_where_def in_set_enumerate_eq)
  with P obtain e where e: "entry_of (slot_state (slots s ! i)) = Some e" by fastforce
  with i view_at [OF wf i(1)] key_at_valid [OF wf i(1)] PQ
  show "token_kind t = Operation \<and> (\<exists>e. slab_view s (token_key t) = Some e \<and> Q e)"
    by (auto simp: token_key_new)
next
  assume r: "token_kind t = Operation \<and> (\<exists>e. slab_view s (token_key t) = Some e \<and> Q e)"
  then obtain e where e: "slab_view s (token_key t) = Some e" "Q e" by blast
  from e(1) obtain i where i: "i < length (slots s)" "entry_of (slot_state (slots s ! i)) = Some e"
    "unat (fst (token_key t)) = i" "snd (token_key t) = slot_generation (slots s ! i)"
    by (rule view_SomeD)
  have "token_key t = (of_nat i, slot_generation (slots s ! i))"
    using i(3,4) by (auto simp: prod_eq_iff simp flip: i(3))
  then have "t = token_new Operation (of_nat i) (slot_generation (slots s ! i))"
    using r key_at_valid [OF wf i(1)] by (simp add: token_eq_iff_key token_key_new)
  moreover have "(i, slots s ! i) \<in> set (filter (\<lambda>(index, sl). P (slot_state sl)) (enumerate 0 (slots s)))"
    using i PQ e(2) by (simp add: in_set_enumerate_eq)
  ultimately show "t \<in> set (slab_tokens_where P s)"
    unfolding slab_tokens_where_def by force
qed

lemma indexed_filter_mem:
  "x \<in> set (filter Q (enumerate 0 xs)) \<Longrightarrow> \<exists>i. x = (i, xs ! i) \<and> i < length xs"
  by (cases x) (simp add: in_set_enumerate_eq)

lemma tokens_where_distinct:
  assumes wf: "slab_wf s"
  shows "distinct (slab_tokens_where P s)"
proof -
  have "inj_on (\<lambda>(index, sl). token_new Operation (of_nat index) (slot_generation sl))
      (set (filter (\<lambda>(index, sl). P (slot_state sl)) (enumerate 0 (slots s))))"
  proof (rule inj_onI)
    fix x y
    assume "x \<in> set (filter (\<lambda>(index, sl). P (slot_state sl)) (enumerate 0 (slots s)))"
      and "y \<in> set (filter (\<lambda>(index, sl). P (slot_state sl)) (enumerate 0 (slots s)))"
      and xy: "(\<lambda>(index, sl). token_new Operation (of_nat index) (slot_generation sl)) x
        = (\<lambda>(index, sl). token_new Operation (of_nat index) (slot_generation sl)) y"
    then obtain i j where x: "x = (i, slots s ! i)" and y: "y = (j, slots s ! j)"
      and i: "i < length (slots s)" and j: "j < length (slots s)"
      using indexed_filter_mem by meson
    have eq: "token_new Operation (of_nat i) (slot_generation (slots s ! i))
      = token_new Operation (of_nat j) (slot_generation (slots s ! j))"
      using xy by (simp add: x y)
    from i j slab_wfD(1) [OF wf] have "i < 65536" "j < 65536" by simp_all
    moreover have "(of_nat i :: usize) = of_nat j"
      using arg_cong [OF eq, of token_key] key_at_valid [OF wf i] key_at_valid [OF wf j]
      by (simp add: token_key_new)
    ultimately have "i = j" by (metis unat_of_nat_small)
    then show "x = y" by (simp add: x y)
  qed
  then show ?thesis
    unfolding slab_tokens_where_def by (simp add: distinct_map)
qed

section \<open>The counters\<close>

lemma count_view:
  assumes wf: "slab_wf s"
  shows "length (filter (\<lambda>sl. \<exists>e. entry_of (slot_state sl) = Some e \<and> Q e) (slots s))
    = card {k. \<exists>e. slab_view s k = Some e \<and> Q e}"
proof -
  let ?I = "{i. i < length (slots s) \<and> (\<exists>e. entry_of (slot_state (slots s ! i)) = Some e \<and> Q e)}"
  let ?f = "\<lambda>i. (of_nat i :: usize, slot_generation (slots s ! i))"
  have small: "i < 65536" if "i < length (slots s)" for i
    using that slab_wfD(1) [OF wf] by simp
  have inj: "inj_on ?f ?I"
    by (rule inj_onI) (metis (mono_tags, lifting) mem_Collect_eq prod.inject small unat_of_nat_small)
  have "?f ` ?I = {k. \<exists>e. slab_view s k = Some e \<and> Q e}"
  proof (rule set_eqI, rule iffI)
    fix k assume "k \<in> ?f ` ?I"
    then show "k \<in> {k. \<exists>e. slab_view s k = Some e \<and> Q e}"
      using view_at [OF wf] by auto
  next
    fix k assume "k \<in> {k. \<exists>e. slab_view s k = Some e \<and> Q e}"
    then obtain e where e: "slab_view s k = Some e" "Q e" by blast
    from e(1) obtain i where i: "i < length (slots s)"
      "entry_of (slot_state (slots s ! i)) = Some e" "unat (fst k) = i"
      "snd k = slot_generation (slots s ! i)"
      by (rule view_SomeD)
    have "k = ?f i" using i(3,4) by (auto simp: prod_eq_iff simp flip: i(3))
    with i e(2) show "k \<in> ?f ` ?I" by blast
  qed
  with card_image [OF inj] show ?thesis
    by (simp add: length_filter_conv_card)
qed

lemma is_live_entry: "is_live st \<longleftrightarrow> (\<exists>e. entry_of st = Some e \<and> e \<noteq> Tomb)"
  by (cases st) (simp_all add: is_live_def)

lemma outstanding_entry:
  "(case st of Vacant _ \<Rightarrow> False | Retired \<Rightarrow> False | Occupied _ _ _ _ \<Rightarrow> True | Tombstone \<Rightarrow> True)
     \<longleftrightarrow> (\<exists>e. entry_of st = Some e \<and> True)"
  by (cases st) simp_all

fun entry_awaits_kernel :: "'p entry \<Rightarrow> bool" where
  "entry_awaits_kernel (Entry l _ _ _) = (l = Submitted)"
| "entry_awaits_kernel Tomb = True"

lemma awaiting_entry:
  "(case st of Occupied Submitted _ _ _ \<Rightarrow> True | Tombstone \<Rightarrow> True | _ \<Rightarrow> False)
     \<longleftrightarrow> (\<exists>e. entry_of st = Some e \<and> entry_awaits_kernel e)"
  by (cases st) (simp_all split: lifecycle.split)

lemma occupied_card:
  "slab_wf s \<Longrightarrow> occupied s = card {k. \<exists>e. slab_view s k = Some e \<and> e \<noteq> Tomb}"
  using count_view [of s "\<lambda>e. e \<noteq> Tomb"] slab_wfD(3) [of s] by (simp only: is_live_entry)

lemma outstanding_card: "slab_wf s \<Longrightarrow> slab_outstanding s = card (dom (slab_view s))"
  using count_view [of s "\<lambda>_. True"]
  by (simp only: slab_outstanding_def outstanding_entry dom_def simp_thms not_None_eq)

lemma awaiting_card:
  "slab_wf s \<Longrightarrow> slab_awaiting_kernel s
     = card {k. \<exists>e. slab_view s k = Some e \<and> entry_awaits_kernel e}"
  using count_view [of s entry_awaits_kernel] by (simp only: slab_awaiting_kernel_def awaiting_entry)

lemma finite_dom_view: "slab_wf s \<Longrightarrow> finite (dom (slab_view s))"
proof -
  assume wf: "slab_wf s"
  have "dom (slab_view s) \<subseteq> (\<lambda>i. (of_nat i, slot_generation (slots s ! i))) ` {..< length (slots s)}"
  proof
    fix k assume "k \<in> dom (slab_view s)"
    then obtain e where "slab_view s k = Some e" by blast
    then obtain i where i: "i < length (slots s)" "entry_of (slot_state (slots s ! i)) = Some e"
      "unat (fst k) = i" "snd k = slot_generation (slots s ! i)"
      by (rule view_SomeD)
    have "k = (of_nat i, slot_generation (slots s ! i))"
      using i(3,4) by (auto simp: prod_eq_iff simp flip: i(3))
    with i(1) show "k \<in> (\<lambda>i. (of_nat i, slot_generation (slots s ! i))) ` {..< length (slots s)}"
      by blast
  qed
  then show ?thesis by (rule finite_subset) simp
qed

lemma outstanding_zero: "slab_wf s \<Longrightarrow> slab_outstanding s = 0 \<longleftrightarrow> slab_view s = Map.empty"
  by (simp add: outstanding_card finite_dom_view)

section \<open>Draining at teardown\<close>

definition live_payload :: "'p slot_state \<Rightarrow> 'p list" where
  "live_payload st = (case st of Occupied _ _ p _ \<Rightarrow> [p] | _ \<Rightarrow> [])"

text \<open>What the loop of \<open>drain\<close> does with one occupied slot.\<close>

lemma drain_one:
  assumes wf: "slab_wf s" and i: "i < length (slots s)" "is_live (slot_state (slots s ! i))"
    and s': "s' = slab_free_slot i ((set_slot_state i (Vacant None) s)\<lparr>occupied := occupied s - 1\<rparr>)"
  shows "slab_wf s'" "length (slots s') = length (slots s)"
    "\<And>j. j \<noteq> i \<Longrightarrow> slots s' ! j = slots s ! j"
    "slab_view s' = (slab_view s)((of_nat i, slot_generation (slots s ! i)) := None)"
proof -
  have eq: "s' = slab_free_slot i (s\<lparr>occupied := occupied s - 1\<rparr>)"
    unfolding s' set_slot_state_occupied [symmetric]
    by (rule free_slot_set_slot_state) (use i in simp)
  show "slab_wf s'"
    unfolding eq
    by (rule wf_free_slot [OF wf i(1)])
      (use i live_count_pos [OF wf i] in \<open>auto dest: is_live_not_vacant\<close>)
  show "length (slots s') = length (slots s)" "\<And>j. j \<noteq> i \<Longrightarrow> slots s' ! j = slots s ! j"
    unfolding eq using i(1) free_slot_slots [of i "s\<lparr>occupied := occupied s - 1\<rparr>"] by auto
  show "slab_view s' = (slab_view s)((of_nat i, slot_generation (slots s ! i)) := None)"
    unfolding eq using view_free_slot [of i "s\<lparr>occupied := occupied s - 1\<rparr>"] i(1) slab_wfD(1) [OF wf]
    by simp
qed

lemma drain_loop_spec:
  assumes "slab_wf s" "distinct is" "\<forall>i\<in>set is. i < length (slots s)"
    and "slab_drain_loop is s out = (out', s')"
  shows "slab_wf s'" "out' = out @ concat (map (\<lambda>i. live_payload (slot_state (slots s ! i))) is)"
    "slab_view s' = (\<lambda>k. if unat (fst k) \<in> set is \<and> slab_view s k \<noteq> Some Tomb then None
                          else slab_view s k)"
proof -
  have "slab_wf s' \<and> out' = out @ concat (map (\<lambda>i. live_payload (slot_state (slots s ! i))) is) \<and>
    slab_view s' = (\<lambda>k. if unat (fst k) \<in> set is \<and> slab_view s k \<noteq> Some Tomb then None
                          else slab_view s k)"
    using assms
  proof (induction "is" arbitrary: s out)
    case Nil
    then show ?case by simp
  next
    case (Cons i rest)
    have i: "i < length (slots s)" "i < 65536" using Cons.prems slab_wfD(1) [OF Cons.prems(1)] by auto
    show ?case
    proof (cases "is_live (slot_state (slots s ! i))")
      case True
      then obtain l ob p c where o: "slot_state (slots s ! i) = Occupied l ob p c"
        by (auto simp: is_live_def split: slot_state.splits)
      define s1 where
        "s1 = slab_free_slot i ((set_slot_state i (Vacant None) s)\<lparr>occupied := occupied s - 1\<rparr>)"
      note d = drain_one [OF Cons.prems(1) i(1) True s1_def]
      have rest: "map (\<lambda>j. live_payload (slot_state (slots s1 ! j))) rest
          = map (\<lambda>j. live_payload (slot_state (slots s ! j))) rest"
      proof (rule map_cong [OF refl])
        fix j assume "j \<in> set rest"
        with Cons.prems(2) have "j \<noteq> i" by auto
        from d(3) [OF this] show "live_payload (slot_state (slots s1 ! j)) = live_payload (slot_state (slots s ! j))"
          by (rule arg_cong)
      qed
      have "slab_drain_loop rest s1 (out @ [p]) = (out', s')" using Cons.prems(4) o by (simp add: s1_def)
      note ih = Cons.IH [OF d(1) _ _ this]
      have "slab_wf s' \<and> out' = (out @ [p]) @ concat (map (\<lambda>j. live_payload (slot_state (slots s ! j))) rest)
        \<and> slab_view s' = (\<lambda>k. if unat (fst k) \<in> set rest \<and> slab_view s1 k \<noteq> Some Tomb then None
                          else slab_view s1 k)"
        using ih [unfolded rest] Cons.prems(2,3) d(2) by simp
      moreover have "slab_view s k = None"
        if "unat (fst k) = i" "k \<noteq> (of_nat i, slot_generation (slots s ! i))" for k
        using that i by (auto simp: slab_view_def prod_eq_iff list_get_def)
      moreover have "slab_view s (of_nat i, slot_generation (slots s ! i)) \<noteq> Some Tomb"
        using view_at [OF Cons.prems(1) i(1)] o by simp
      ultimately show ?thesis
        using o i(2) by (auto simp: d(4) fun_eq_iff live_payload_def)
    next
      case False
      have sk: "slab_view s k = None" if "unat (fst k) = i" "slab_view s k \<noteq> Some Tomb" for k
        using False that
        by (auto simp: slab_view_def is_live_def list_get_def split: slot_state.splits)
      have "slab_drain_loop rest s out = (out', s')" "live_payload (slot_state (slots s ! i)) = []"
        using Cons.prems(4) False by (auto simp: is_live_def live_payload_def split: slot_state.splits)
      moreover from this have "slab_wf s' \<and> out' = out @ concat (map (\<lambda>i. live_payload (slot_state (slots s ! i))) rest) \<and>
        slab_view s' = (\<lambda>k. if unat (fst k) \<in> set rest \<and> slab_view s k \<noteq> Some Tomb then None
                          else slab_view s k)"
        using Cons.IH [OF Cons.prems(1)] Cons.prems(2,3) by simp
      ultimately show ?thesis by (auto simp: fun_eq_iff sk)
    qed
  qed
  then show "slab_wf s'" "out' = out @ concat (map (\<lambda>i. live_payload (slot_state (slots s ! i))) is)"
    "slab_view s' = (\<lambda>k. if unat (fst k) \<in> set is \<and> slab_view s k \<noteq> Some Tomb then None
                          else slab_view s k)"
    by auto
qed

lemma map_slot_upt: "concat (map (\<lambda>i. f (xs ! i)) [0..<length xs]) = concat (map f xs)"
proof -
  have "map (\<lambda>i. f (xs ! i)) [0..<length xs] = map f xs"
    by (rule nth_equalityI) simp_all
  then show ?thesis by simp
qed

lemma drain_spec:
  assumes wf: "slab_wf s" and r: "slab_drain s = (out, s')"
  shows "slab_wf s'"
    and "out = concat (map (\<lambda>sl. live_payload (slot_state sl)) (slots s))"
    and "slab_view s' = (\<lambda>k. if slab_view s k = Some Tomb then Some Tomb else None)"
    and "occupied s' = 0"
proof -
  have r': "slab_drain_loop [0..<length (slots s)] s [] = (out, s')"
    using r by (simp add: slab_drain_def)
  note d = drain_loop_spec [OF wf _ _ r', simplified]
  show wf': "slab_wf s'" by (rule d(1))
  show "out = concat (map (\<lambda>sl. live_payload (slot_state sl)) (slots s))"
    using d(2) map_slot_upt [of "\<lambda>sl. live_payload (slot_state sl)" "slots s"] by simp
  show v: "slab_view s' = (\<lambda>k. if slab_view s k = Some Tomb then Some Tomb else None)"
    unfolding d(3)
    by (auto simp: fun_eq_iff slab_view_def split: option.splits)
  show "occupied s' = 0"
    unfolding occupied_card [OF wf'] v by (simp split: if_splits)
qed

end
