(* ===== verification/Slab_Trace.thy ===== *)
theory Slab_Trace
  imports Slab_Spec
begin

text \<open>
  Sequences of slab operations.

  A command is one call of a mutating method of \<open>OpSlab\<close> and \<open>slab_run\<close> a sequence of
  them. Abstractly a command acts on the entry of each key separately
  (\<open>cmd_effect\<close>), except that an insertion may fill one key that had no entry. The
  locale \<open>op_store\<close> states that contract, and \<open>generational_store\<close> adds that a
  key whose entry has gone is spent for good. The facts the driver relies on are proved
  from those contracts: a payload stays in the store until its own completion, one
  cancellation is issued per operation, a tombstone withholds its key, and a stale token
  never names anything again.
\<close>

section \<open>Commands\<close>

datatype 'p slab_cmd =
    CmdInsert 'p
  | CmdWrite token 'p
  | CmdSetLifecycle token lifecycle
  | CmdDetach token
  | CmdRegisterCancel token
  | CmdNotEnqueued token
  | CmdComplete token
  | CmdCompleteCancel token
  | CmdPromote
  | CmdDrain

fun slab_exec :: "'p slab_cmd \<Rightarrow> 'p op_slab \<Rightarrow> 'p op_slab option" where
  "slab_exec (CmdInsert p) s = map_option snd (slab_insert p s)"
| "slab_exec (CmdWrite t p) s = Some (slab_payload_write t p s)"
| "slab_exec (CmdSetLifecycle t l) s = Some (snd (slab_set_lifecycle t l s))"
| "slab_exec (CmdDetach t) s = Some (snd (slab_detach t s))"
| "slab_exec (CmdRegisterCancel t) s = Some (snd (slab_register_cancel t s))"
| "slab_exec (CmdNotEnqueued t) s = Some (snd (slab_cancel_request_not_enqueued t s))"
| "slab_exec (CmdComplete t) s = Some (snd (slab_complete t s))"
| "slab_exec (CmdCompleteCancel t) s = Some (snd (slab_complete_cancel t s))"
| "slab_exec CmdPromote s = Some (slab_promote_built_to_submitted s)"
| "slab_exec CmdDrain s = Some (snd (slab_drain s))"

fun run_cmds :: "('c \<Rightarrow> 's \<Rightarrow> 's option) \<Rightarrow> 'c list \<Rightarrow> 's \<Rightarrow> 's option" where
  "run_cmds exec [] s = Some s"
| "run_cmds exec (c # cs) s = Option.bind (exec c s) (run_cmds exec cs)"

abbreviation slab_run :: "'p slab_cmd list \<Rightarrow> 'p op_slab \<Rightarrow> 'p op_slab option" where
  "slab_run \<equiv> run_cmds slab_exec"

lemma run_cmds_append:
  "run_cmds exec (cs @ ds) s = Option.bind (run_cmds exec cs s) (run_cmds exec ds)"
proof (induction cs arbitrary: s)
  case (Cons c cs)
  then show ?case by (cases "exec c s") simp_all
qed simp

section \<open>The contract\<close>

text \<open>What a command does to the entry of the key \<open>k\<close>.\<close>

fun cmd_effect :: "'p slab_cmd \<Rightarrow> key \<Rightarrow> 'p entry option \<Rightarrow> 'p entry option" where
  "cmd_effect (CmdInsert p) k e = e"
| "cmd_effect (CmdWrite t p') k e =
     (case e of Some (Entry l ob p c) \<Rightarrow> if token_key t = k then Some (Entry l ob p' c) else e | _ \<Rightarrow> e)"
| "cmd_effect (CmdSetLifecycle t next) k e =
     (case e of
        Some (Entry l ob p c) \<Rightarrow>
          if token_key t = k \<and> lifecycle_forward l next then Some (Entry next ob p c) else e
      | _ \<Rightarrow> e)"
| "cmd_effect (CmdDetach t) k e =
     (case e of Some (Entry l ob p c) \<Rightarrow> if token_key t = k then Some (Entry l Detached p c) else e | _ \<Rightarrow> e)"
| "cmd_effect (CmdRegisterCancel t) k e =
     (case e of
        Some (Entry l ob p NeverRequested) \<Rightarrow>
          if token_key t = k \<and> token_kind t = Operation then Some (Entry l ob p Pending) else e
      | _ \<Rightarrow> e)"
| "cmd_effect (CmdNotEnqueued t) k e =
     (if token_key t = k \<and> token_kind t = Cancel then
        (case e of
           Some (Entry l ob p Pending) \<Rightarrow> Some (Entry l ob p NeverRequested)
         | Some Tomb \<Rightarrow> None
         | _ \<Rightarrow> e)
      else e)"
| "cmd_effect (CmdComplete t) k e =
     (if token_key t = k \<and> token_kind t = Operation then
        (case e of
           Some (Entry l ob p c) \<Rightarrow> if c = Pending then Some Tomb else None
         | _ \<Rightarrow> e)
      else e)"
| "cmd_effect (CmdCompleteCancel t) k e =
     (if token_key t = k \<and> token_kind t = Cancel then
        (case e of
           Some (Entry l ob p Pending) \<Rightarrow> Some (Entry l ob p Completed)
         | Some Tomb \<Rightarrow> None
         | _ \<Rightarrow> e)
      else e)"
| "cmd_effect CmdPromote k e = map_option promote_entry e"
| "cmd_effect CmdDrain k e = (if e = Some Tomb then e else None)"

locale op_store =
  fixes inv :: "'s \<Rightarrow> bool"
    and entry :: "'s \<Rightarrow> key \<Rightarrow> 'p entry option"
    and exec :: "'p slab_cmd \<Rightarrow> 's \<Rightarrow> 's option"
  assumes exec_total: "inv s \<Longrightarrow> \<exists>s'. exec c s = Some s'"
    and exec_inv: "\<lbrakk>inv s; exec c s = Some s'\<rbrakk> \<Longrightarrow> inv s'"
    and exec_effect: "\<lbrakk>inv s; exec c s = Some s'\<rbrakk> \<Longrightarrow>
      entry s' k = cmd_effect c k (entry s k) \<or>
      (\<exists>p. c = CmdInsert p \<and> entry s k = None \<and>
           entry s' k = Some (Entry Described Live p NeverRequested))"
begin

lemma run_total: "inv s \<Longrightarrow> \<exists>s'. run_cmds exec cs s = Some s' \<and> inv s'"
proof (induction cs arbitrary: s)
  case (Cons c cs)
  then obtain s1 where "exec c s = Some s1" using exec_total by blast
  with Cons exec_inv show ?case by fastforce
qed simp

lemma run_inv: "\<lbrakk>inv s; run_cmds exec cs s = Some s'\<rbrakk> \<Longrightarrow> inv s'"
  by (metis run_total option.inject)

text \<open>
  An invariant of one entry holds along a run when every command of the run keeps it. The
  next lemmas are instances.
\<close>

lemma run_entry_invariant:
  assumes "inv s" "run_cmds exec cs s = Some s'"
    and "I (entry s k)"
    and "\<And>c e. \<lbrakk>c \<in> set cs; I e\<rbrakk> \<Longrightarrow> I (cmd_effect c k e)"
    and "\<And>p. \<lbrakk>CmdInsert p \<in> set cs; I None\<rbrakk> \<Longrightarrow> I (Some (Entry Described Live p NeverRequested))"
  shows "I (entry s' k)"
  using assms
proof (induction cs arbitrary: s)
  case (Cons c cs)
  from Cons.prems(2) obtain s1 where s1: "exec c s = Some s1" "run_cmds exec cs s1 = Some s'"
    by (auto simp: Option.bind_eq_Some_conv)
  have "I (entry s1 k)"
    using exec_effect [OF Cons.prems(1) s1(1), of k] Cons.prems(3-5) by auto
  with Cons.IH [OF exec_inv [OF Cons.prems(1) s1(1)] s1(2)] Cons.prems(4,5) show ?case by simp
qed simp

text \<open>The payload of a live operation stays where it is until its own completion.\<close>

lemma payload_retained:
  assumes "inv s" "run_cmds exec cs s = Some s'"
    and "entry s k = Some (Entry l ob p c)"
    and "\<And>t. CmdComplete t \<in> set cs \<Longrightarrow> token_key t \<noteq> k \<or> token_kind t \<noteq> Operation"
    and "\<And>t q. CmdWrite t q \<in> set cs \<Longrightarrow> token_key t \<noteq> k"
    and "CmdDrain \<notin> set cs"
  shows "\<exists>l' ob' c'. entry s' k = Some (Entry l' ob' p c')"
proof (rule run_entry_invariant
    [where I = "\<lambda>e. \<exists>l ob c. e = Some (Entry l ob p c)", OF assms(1,2)])
  show "\<exists>l ob c. entry s k = Some (Entry l ob p c)" using assms(3) by blast
next
  fix c e assume "c \<in> set cs" "\<exists>l ob c. e = Some (Entry l ob p c)"
  with assms(4-6) show "\<exists>l ob c'. cmd_effect c k e = Some (Entry l ob p c')"
    by (cases c) (auto split: cancel_state.splits)
qed simp

text \<open>A tombstone stays until the cancellation it waits for reports or is withdrawn.\<close>

lemma tombstone_withheld:
  assumes "inv s" "run_cmds exec cs s = Some s'"
    and "entry s k = Some Tomb"
    and "\<And>t. CmdCompleteCancel t \<in> set cs \<or> CmdNotEnqueued t \<in> set cs \<Longrightarrow>
           token_key t \<noteq> k \<or> token_kind t \<noteq> Cancel"
  shows "entry s' k = Some Tomb"
proof (rule run_entry_invariant [where I = "\<lambda>e :: 'p entry option. e = Some Tomb", OF assms(1,2,3)])
  fix c and e :: "'p entry option" assume "c \<in> set cs" "e = Some Tomb"
  with assms(4) show "cmd_effect c k e = Some Tomb"
    by (cases c) auto
qed simp

end

text \<open>An entry whose cancellation was requested at some time.\<close>

definition requested :: "'p entry \<Rightarrow> bool" where
  "requested e = (case e of Entry _ _ _ c \<Rightarrow> c \<noteq> NeverRequested | Tomb \<Rightarrow> True)"

locale generational_store = op_store inv entry exec
  for inv :: "'s \<Rightarrow> bool" and entry :: "'s \<Rightarrow> key \<Rightarrow> 'p entry option"
    and exec :: "'p slab_cmd \<Rightarrow> 's \<Rightarrow> 's option" +
  fixes spent :: "'s \<Rightarrow> key \<Rightarrow> bool"
  assumes spent_no_entry: "\<lbrakk>inv s; spent s k\<rbrakk> \<Longrightarrow> entry s k = None"
    and spent_stays: "\<lbrakk>inv s; exec c s = Some s'; spent s k\<rbrakk> \<Longrightarrow> spent s' k"
    and gone_is_spent: "\<lbrakk>inv s; exec c s = Some s'; entry s k \<noteq> None; entry s' k = None\<rbrakk>
      \<Longrightarrow> spent s' k"
begin

lemma run_spent:
  assumes "inv s" "run_cmds exec cs s = Some s'" "spent s k"
  shows "spent s' k"
  using assms
proof (induction cs arbitrary: s)
  case (Cons c cs)
  from Cons.prems(2) obtain s1 where s1: "exec c s = Some s1" "run_cmds exec cs s1 = Some s'"
    by (auto simp: Option.bind_eq_Some_conv)
  with Cons exec_inv spent_stays show ?case by blast
qed simp

lemma run_gone_is_spent:
  assumes "inv s" "run_cmds exec cs s = Some s'" "entry s k \<noteq> None" "entry s' k = None"
  shows "spent s' k"
  using assms
proof (induction cs arbitrary: s)
  case (Cons c cs)
  from Cons.prems(2) obtain s1 where s1: "exec c s = Some s1" "run_cmds exec cs s1 = Some s'"
    by (auto simp: Option.bind_eq_Some_conv)
  show ?case
  proof (cases "entry s1 k = None")
    case True
    with gone_is_spent [OF Cons.prems(1) s1(1) Cons.prems(3)] show ?thesis
      using run_spent [OF exec_inv [OF Cons.prems(1) s1(1)] s1(2)] by simp
  next
    case False
    from Cons.IH [OF exec_inv [OF Cons.prems(1) s1(1)] s1(2) False Cons.prems(4)]
    show ?thesis .
  qed
qed simp

text \<open>A key whose entry has gone never names anything again.\<close>

lemma stale_forever:
  assumes "inv s" "entry s k \<noteq> None"
    and "run_cmds exec cs s = Some s1" "entry s1 k = None"
    and "run_cmds exec ds s1 = Some s2"
  shows "entry s2 k = None"
  using run_gone_is_spent [OF assms(1,3,2,4)] run_inv [OF assms(1,3)] run_spent [OF _ assms(5)]
    spent_no_entry run_inv [OF _ assms(5)] by blast

text \<open>
  A property of an entry that every command of a run keeps holds for as long as the key names
  that entry; once the entry has gone, no later insertion revives the key.
\<close>

lemma run_lifetime:
  assumes "inv s" "run_cmds exec cs s = Some s'"
    and "entry s k = Some e" "I e"
    and "\<And>c e. \<lbrakk>c \<in> set cs; I e\<rbrakk> \<Longrightarrow> pred_option I (cmd_effect c k (Some e))"
  shows "pred_option I (entry s' k)"
  using assms
proof (induction cs arbitrary: s e)
  case (Cons c cs)
  from Cons.prems(2) obtain s1 where s1: "exec c s = Some s1" "run_cmds exec cs s1 = Some s'"
    by (auto simp: Option.bind_eq_Some_conv)
  have e1: "entry s1 k = cmd_effect c k (Some e)"
    using exec_effect [OF Cons.prems(1) s1(1), of k] Cons.prems(3) by auto
  show ?case
  proof (cases "entry s1 k")
    case None
    have one: "run_cmds exec [c] s = Some s1" using s1(1) by simp
    have "entry s' k = None"
      by (rule stale_forever [OF Cons.prems(1) _ one None s1(2)]) (use Cons.prems(3) in simp)
    then show ?thesis by simp
  next
    case (Some e')
    then have "I e'" using Cons.prems(5) [of c e] Cons.prems(4) e1 by simp
    from Cons.IH [OF exec_inv [OF Cons.prems(1) s1(1)] s1(2) Some this] Cons.prems(5)
    show ?thesis by simp
  qed
qed simp

text \<open>Once requested, a cancellation is never unrequested except by its withdrawal.\<close>

lemma cancel_once:
  assumes "inv s" "run_cmds exec cs s = Some s'"
    and "entry s k = Some e" "requested e"
    and "\<And>t. CmdNotEnqueued t \<in> set cs \<Longrightarrow> token_key t \<noteq> k \<or> token_kind t \<noteq> Cancel"
  shows "pred_option requested (entry s' k)"
proof (rule run_lifetime [where I = requested, OF assms(1-4)])
  fix c and e :: "'p entry" assume "c \<in> set cs" "requested e"
  with assms(5) show "pred_option requested (cmd_effect c k (Some e))"
    by (cases c; cases e) (auto simp: requested_def split: cancel_state.splits)
qed

end

section \<open>The slab keeps the contract\<close>

lemma slab_exec_wf:
  assumes wf: "slab_wf s"
  shows "\<exists>s'. slab_exec c s = Some s' \<and> slab_wf s'"
proof (cases c)
  case (CmdInsert p)
  from wf show ?thesis
    by (cases rule: insert_cases [where p = p]) (simp_all add: CmdInsert wf)
next
  case (CmdComplete t)
  with complete_spec [OF wf, of t] show ?thesis by (cases "slab_complete t s") auto
next
  case (CmdWrite t p)
  with payload_write_spec [OF wf] show ?thesis by simp
next
  case (CmdSetLifecycle t l)
  with set_lifecycle_spec [OF wf, of t l] show ?thesis by (cases "slab_set_lifecycle t l s") auto
next
  case (CmdDetach t)
  with detach_spec [OF wf, of t] show ?thesis by (cases "slab_detach t s") auto
next
  case (CmdRegisterCancel t)
  with register_cancel_spec [OF wf, of t] show ?thesis by (cases "slab_register_cancel t s") auto
next
  case (CmdNotEnqueued t)
  with not_enqueued_spec [OF wf, of t] show ?thesis
    by (cases "slab_cancel_request_not_enqueued t s") auto
next
  case (CmdCompleteCancel t)
  with complete_cancel_spec [OF wf, of t] show ?thesis by (cases "slab_complete_cancel t s") auto
next
  case CmdPromote
  with promote_spec [OF wf] show ?thesis by simp
next
  case CmdDrain
  with drain_spec [OF wf] show ?thesis by (cases "slab_drain s") auto
qed

lemma slab_exec_effect:
  assumes wf: "slab_wf s" and r: "slab_exec c s = Some s'"
  shows "slab_view s' k = cmd_effect c k (slab_view s k) \<or>
      (\<exists>p. c = CmdInsert p \<and> slab_view s k = None \<and>
           slab_view s' k = Some (Entry Described Live p NeverRequested))"
proof (cases c)
  case (CmdInsert p)
  from wf show ?thesis
    by (cases rule: insert_cases [where p = p]) (use r CmdInsert in \<open>auto split: if_splits\<close>)
next
  case (CmdComplete t)
  with complete_spec [OF wf, of t] r show ?thesis
    by (cases "slab_complete t s") (auto split: option.splits entry.splits if_splits)
next
  case (CmdWrite t p)
  with payload_write_spec [OF wf, of t p] r show ?thesis
    by (auto split: option.splits entry.splits if_splits)
next
  case (CmdSetLifecycle t l)
  with set_lifecycle_spec [OF wf, of t l] r show ?thesis
    by (cases "slab_set_lifecycle t l s") (auto split: option.splits entry.splits if_splits)
next
  case (CmdDetach t)
  with detach_spec [OF wf, of t] r show ?thesis
    by (cases "slab_detach t s") (auto split: option.splits entry.splits if_splits)
next
  case (CmdRegisterCancel t)
  with register_cancel_spec [OF wf, of t] r show ?thesis
    by (cases "slab_register_cancel t s")
      (auto split: option.splits entry.splits if_splits cancel_state.splits)
next
  case (CmdNotEnqueued t)
  with not_enqueued_spec [OF wf, of t] r show ?thesis
    by (cases "slab_cancel_request_not_enqueued t s")
      (auto split: option.splits entry.splits if_splits cancel_state.splits)
next
  case (CmdCompleteCancel t)
  with complete_cancel_spec [OF wf, of t] r show ?thesis
    by (cases "slab_complete_cancel t s")
      (auto split: option.splits entry.splits if_splits cancel_state.splits)
next
  case CmdPromote
  with promote_spec [OF wf] r show ?thesis by auto
next
  case CmdDrain
  with drain_spec [OF wf] r show ?thesis by (cases "slab_drain s") auto
qed

interpretation slab_store: op_store slab_wf slab_view slab_exec
proof
  fix s :: "'a op_slab" and c
  assume "slab_wf s"
  then show "\<exists>s'. slab_exec c s = Some s'" using slab_exec_wf by blast
next
  fix s s' :: "'a op_slab" and c
  assume "slab_wf s" "slab_exec c s = Some s'"
  then show "slab_wf s'" using slab_exec_wf [of s c] by auto
next
  fix s s' :: "'a op_slab" and c k
  assume "slab_wf s" "slab_exec c s = Some s'"
  then show "slab_view s' k = cmd_effect c k (slab_view s k) \<or>
      (\<exists>p. c = CmdInsert p \<and> slab_view s k = None \<and>
           slab_view s' k = Some (Entry Described Live p NeverRequested))"
    by (rule slab_exec_effect)
qed

section \<open>Generations only advance\<close>

text \<open>
  A slot either keeps its generation, and then neither loses an entry nor leaves
  \<open>Retired\<close>, or moves on to a later generation.
\<close>

definition slot_advances :: "'p slot \<Rightarrow> 'p slot \<Rightarrow> bool" where
  "slot_advances a b \<longleftrightarrow> slot_generation a < slot_generation b \<or>
     slot_generation a = slot_generation b \<and>
     (slot_state b = Retired \<or>
      slot_state a \<noteq> Retired \<and> (entry_of (slot_state a) \<noteq> None \<longrightarrow> entry_of (slot_state b) \<noteq> None))"

definition advances :: "'p op_slab \<Rightarrow> 'p op_slab \<Rightarrow> bool" where
  "advances s s' \<longleftrightarrow> length (slots s) \<le> length (slots s') \<and>
     (\<forall>i < length (slots s). slot_advances (slots s ! i) (slots s' ! i))"

definition key_spent :: "'p op_slab \<Rightarrow> key \<Rightarrow> bool" where
  "key_spent s k \<longleftrightarrow> (case list_get (slots s) (unat (fst k)) of
     Some sl \<Rightarrow> snd k < slot_generation sl \<or> snd k = slot_generation sl \<and> slot_state sl = Retired
   | None \<Rightarrow> False)"

lemma slot_advances_refl [simp]: "slot_advances a a"
  by (cases "slot_state a") (simp_all add: slot_advances_def)

lemma slot_advances_trans: "\<lbrakk>slot_advances a b; slot_advances b c\<rbrakk> \<Longrightarrow> slot_advances a c"
  by (auto simp: slot_advances_def)

lemma advances_refl [simp]: "advances s s"
  by (simp add: advances_def)

lemma advances_trans: "\<lbrakk>advances s s'; advances s' s''\<rbrakk> \<Longrightarrow> advances s s''"
  unfolding advances_def
proof (intro conjI allI impI)
  assume a: "length (slots s) \<le> length (slots s') \<and>
      (\<forall>i<length (slots s). slot_advances (slots s ! i) (slots s' ! i))"
    and b: "length (slots s') \<le> length (slots s'') \<and>
      (\<forall>i<length (slots s'). slot_advances (slots s' ! i) (slots s'' ! i))"
  then show "length (slots s) \<le> length (slots s'')" by simp
  fix i assume "i < length (slots s)"
  with a b have "slot_advances (slots s ! i) (slots s' ! i)" "slot_advances (slots s' ! i) (slots s'' ! i)"
    by simp_all
  then show "slot_advances (slots s ! i) (slots s'' ! i)" by (rule slot_advances_trans)
qed

lemma advances_slots:
  assumes "slots s' = slots s" shows "advances s s'"
  using assms by (simp add: advances_def)

lemma advances_occupied [simp]:
  "advances s (s'\<lparr>occupied := n\<rparr>) = advances s s'" "advances (s\<lparr>occupied := n\<rparr>) s' = advances s s'"
  by (simp_all add: advances_def)

lemma advances_set:
  assumes "i < length (slots s)" "slot_state (slots s ! i) \<noteq> Retired" "entry_of st \<noteq> None"
  shows "advances s (set_slot_state i st s)"
  using assms by (auto simp: advances_def set_slot_state_def nth_list_update slot_advances_def)

lemma advances_free:
  assumes wf: "slab_wf s" and i: "i < length (slots s)"
  shows "advances s (slab_free_slot i s)"
proof (cases "GENERATION_MASK \<le> slot_generation (slots s ! i)")
  case True
  with i show ?thesis
    by (auto simp: advances_def slab_free_slot_def set_slot_state_def nth_list_update slot_advances_def
        Let_def)
next
  case False
  with generation_step [OF slab_wfD(2) [OF wf i]] i show ?thesis
    by (auto simp: advances_def slab_free_slot_def nth_list_update slot_advances_def Let_def)
qed

lemma entry_not_retired: "entry_of st \<noteq> None \<Longrightarrow> st \<noteq> Retired"
  by auto

text \<open>The operations that rewrite the slot of their token, or free it.\<close>

lemmas token_op_defs =
  slab_payload_write_def slab_set_lifecycle_def slab_detach_def slab_register_cancel_def
  slab_cancel_request_not_enqueued_def slab_complete_eq slab_complete_cancel_def

lemma advances_token_op:
  assumes wf: "slab_wf s" and sf: "slot_for s t = Some (i, sl)" and e: "entry_of (slot_state sl) \<noteq> None"
  shows "advances s (set_slot_state i (Occupied l ob p c) s)"
    and "advances s (set_slot_state i Tombstone (s\<lparr>occupied := n\<rparr>))"
    and "advances s (slab_free_slot i s)"
    and "advances s (slab_free_slot i (s\<lparr>occupied := n\<rparr>))"
proof -
  note d = slot_for_SomeD [OF sf]
  have nr: "slot_state (slots s ! i) \<noteq> Retired" using d(3) e by auto
  show "advances s (set_slot_state i (Occupied l ob p c) s)"
    by (rule advances_set [OF d(2) nr]) simp
  show "advances s (set_slot_state i Tombstone (s\<lparr>occupied := n\<rparr>))"
    using advances_set [OF d(2) nr, of Tombstone] by (simp add: set_slot_state_occupied)
  show f: "advances s (slab_free_slot i s)" by (rule advances_free [OF wf d(2)])
  have "slots (slab_free_slot i (s\<lparr>occupied := n\<rparr>)) = slots (slab_free_slot i s)"
    by (simp add: slab_free_slot_def set_slot_state_def Let_def)
  with f show "advances s (slab_free_slot i (s\<lparr>occupied := n\<rparr>))"
    by (simp add: advances_def)
qed

lemma advances_fill:
  assumes "reserved i s" shows "advances s (slab_fill i p s)"
proof -
  have "is_vacant (slot_state (slots s ! i))" and i: "i < length (slots s)"
    using assms by (simp_all only: reserved_def)
  then have i: "i < length (slots s)" "slot_state (slots s ! i) \<noteq> Retired"
    by (auto simp: is_vacant_def)
  have "advances s (set_slot_state i (Occupied Described Live p NeverRequested) s)"
    by (rule advances_set [OF i]) simp
  then show ?thesis by (simp add: slab_fill_def)
qed

lemma advances_append: "slots s' = slots s @ [x] \<Longrightarrow> advances s s'"
  by (simp add: advances_def nth_append)

lemma take_index_slots:
  assumes "slab_take_index s = Some (r, s')"
  shows "slots s' = slots s \<or> (\<exists>x. slots s' = slots s @ [x])"
proof (cases "free_head s")
  case None
  with assms show ?thesis by (auto simp: slab_take_index_def split: if_splits)
next
  case (Some i)
  with assms show ?thesis
    by (cases "list_get (slots s) i"; cases "slot_state (slots s ! i)")
      (auto simp: slab_take_index_def)
qed

lemma take_index_advances:
  assumes "slab_take_index s = Some (r, s')" shows "advances s s'"
  using take_index_slots [OF assms] advances_slots advances_append by blast

lemma insert_advances:
  assumes wf: "slab_wf s" and r: "slab_insert p s = Some (res, s')"
  shows "advances s s'"
  using wf
proof (cases rule: take_index_cases)
  case full
  with r show ?thesis by (simp add: slab_insert_eq)
next
  case (index i s1)
  with r have "s' = slab_fill i p s1" by (simp add: slab_insert_eq)
  with advances_trans [OF take_index_advances [OF index(1)] advances_fill [OF index(2)]]
  show ?thesis by simp
qed

lemma promote_advances: "advances s (slab_promote_built_to_submitted s)"
  by (auto simp: advances_def slab_promote_built_to_submitted_def slot_advances_def promote_slot_def
      split: slot_state.splits lifecycle.splits)

lemma drain_loop_advances:
  assumes "slab_wf s" "distinct is" "\<forall>i\<in>set is. i < length (slots s)"
    and "slab_drain_loop is s out = (out', s')"
  shows "advances s s'"
  using assms
proof (induction "is" arbitrary: s out)
  case (Cons i rest)
  show ?case
  proof (cases "is_live (slot_state (slots s ! i))")
    case True
    then obtain l ob p c where o: "slot_state (slots s ! i) = Occupied l ob p c"
      by (auto simp: is_live_def split: slot_state.splits)
    define s1 where
      "s1 = slab_free_slot i ((set_slot_state i (Vacant None) s)\<lparr>occupied := occupied s - 1\<rparr>)"
    have i: "i < length (slots s)" using Cons.prems(3) by simp
    note d = drain_one [OF Cons.prems(1) i True s1_def]
    have "slots s1 = slots (slab_free_slot i s)"
      unfolding s1_def using i
      by (simp add: slab_free_slot_def set_slot_state_def Let_def)
    with advances_free [OF Cons.prems(1) i] have "advances s s1" by (simp add: advances_def)
    moreover have "advances s1 s'"
      by (rule Cons.IH [OF d(1), where out = "out @ [p]"])
        (use Cons.prems d(2) o in \<open>auto simp: s1_def\<close>)
    ultimately show ?thesis by (rule advances_trans)
  next
    case False
    with Cons show ?thesis by (auto simp: is_live_def split: slot_state.splits)
  qed
qed simp

lemma exec_advances:
  assumes wf: "slab_wf s" and r: "slab_exec c s = Some s'"
  shows "advances s s'"
proof (cases c)
  case (CmdInsert p)
  with r insert_advances [OF wf] show ?thesis by auto
next
  case CmdPromote
  with r promote_advances show ?thesis by auto
next
  case CmdDrain
  with r drain_loop_advances [OF wf, of "[0..<length (slots s)]"] show ?thesis
    by (cases "slab_drain s") (auto simp: slab_drain_def)
qed (use r advances_token_op [OF wf] in
    \<open>auto simp: token_op_defs split: option.splits slot_state.splits cancel_state.splits if_splits\<close>)

section \<open>Spent keys\<close>

lemma spent_view: "key_spent s k \<Longrightarrow> slab_view s k = None"
  by (auto simp: key_spent_def slab_view_def split: option.splits)

lemma advances_spent:
  assumes "advances s s'" "key_spent s k" shows "key_spent s' k"
proof -
  from assms(2) have i: "unat (fst k) < length (slots s)"
    by (auto simp: key_spent_def split: option.splits)
  with assms(1) have "slot_advances (slots s ! unat (fst k)) (slots s' ! unat (fst k))"
    "unat (fst k) < length (slots s')"
    by (auto simp: advances_def)
  with assms(2) i show ?thesis by (auto simp: key_spent_def slot_advances_def)
qed

lemma advances_gone:
  assumes "advances s s'" "slab_view s k \<noteq> None" "slab_view s' k = None"
  shows "key_spent s' k"
proof -
  from assms(2) obtain e where e: "slab_view s k = Some e" by blast
  then obtain i where i: "i < length (slots s)" "entry_of (slot_state (slots s ! i)) = Some e"
    "unat (fst k) = i" "snd k = slot_generation (slots s ! i)"
    by (rule view_SomeD)
  with assms(1) have "slot_advances (slots s ! i) (slots s' ! i)" "i < length (slots s')"
    by (auto simp: advances_def)
  with i assms(3) show ?thesis
    by (auto simp: key_spent_def slot_advances_def slab_view_def split: if_splits)
qed

interpretation slab_gen: generational_store slab_wf slab_view slab_exec key_spent
proof
  fix s :: "'a op_slab" and k
  show "\<lbrakk>slab_wf s; key_spent s k\<rbrakk> \<Longrightarrow> slab_view s k = None" by (rule spent_view)
next
  fix s s' :: "'a op_slab" and c k
  show "\<lbrakk>slab_wf s; slab_exec c s = Some s'; key_spent s k\<rbrakk> \<Longrightarrow> key_spent s' k"
    using exec_advances advances_spent by blast
next
  fix s s' :: "'a op_slab" and c k
  show "\<lbrakk>slab_wf s; slab_exec c s = Some s'; slab_view s k \<noteq> None; slab_view s' k = None\<rbrakk>
      \<Longrightarrow> key_spent s' k"
    using exec_advances advances_gone by blast
qed

end
