(* ===== verification/Slab_Props.thy ===== *)
theory Slab_Props
  imports Slab_Trace
begin

text \<open>
  The properties of the operation slab and of its tokens.

  They are stated over runs of the slab's methods from the empty slab, on the functions of
  the code (\<open>lookup\<close>, \<open>insert\<close>, \<open>complete\<close> and the others); the proofs read them off
  the two contracts of \<open>Slab_Trace\<close>.
\<close>

section \<open>Shared steps\<close>

lemma run_new_wf: "slab_run cs slab_new = Some s \<Longrightarrow> slab_wf s"
  using slab_store.run_inv [OF wf_new] .

lemma lookup_unknown_iff: "slab_lookup s t = LookupUnknown \<longleftrightarrow> slab_view s (token_key t) = None"
  by (auto simp: slab_lookup_view split: option.splits entry.splits)

lemma lookup_live_iff:
  "slab_lookup s t = LookupLive \<longleftrightarrow> (\<exists>l ob p c. slab_view s (token_key t) = Some (Entry l ob p c))"
  by (auto simp: slab_lookup_view split: option.splits entry.splits)

lemma lookup_tombstoned_iff:
  "slab_lookup s t = LookupTombstoned \<longleftrightarrow> slab_view s (token_key t) = Some Tomb"
  by (auto simp: slab_lookup_view split: option.splits entry.splits)

lemmas lookup_iffs = lookup_unknown_iff lookup_live_iff lookup_tombstoned_iff

lemma payload_iff:
  "slab_payload s t = Some p \<longleftrightarrow> (\<exists>l ob c. slab_view s (token_key t) = Some (Entry l ob p c))"
  by (auto simp: slab_payload_view split: option.splits entry.splits)

lemma view_same_index:
  assumes "slab_view s k \<noteq> None" "slab_view s k' \<noteq> None" "fst k = fst k'"
  shows "k = k'"
  using assms by (auto simp: slab_view_def prod_eq_iff split: option.splits if_splits)

text \<open>An operation on a token without an entry is refused and changes nothing.\<close>

lemma unknown_refused:
  assumes wf: "slab_wf s" and u: "slab_view s (token_key t) = None"
  shows "slab_complete t s = (None, s)" "slab_complete_cancel t s = (False, s)"
    "slab_register_cancel t s = (None, s)" "slab_detach t s = (None, s)"
    "slab_set_lifecycle t l s = (False, s)" "slab_payload s t = None"
  using u complete_spec [OF wf surjective_pairing, of t]
    complete_cancel_spec [OF wf surjective_pairing, of t]
    register_cancel_spec [OF wf surjective_pairing, of t]
    detach_spec [OF wf surjective_pairing, of t]
    set_lifecycle_spec [OF wf surjective_pairing, of t l]
  by (auto simp: prod_eq_iff slab_payload_view split: if_splits)

section \<open>Stale tokens\<close>

text \<open>
  C18: A token is never reused for another operation. Once the slab has stopped tracking the
  slot a token named, no later sequence of calls makes that token name anything: it is
  unknown to \<open>lookup\<close>, its completion is ignored and hands out no payload, a cancellation
  under it is refused, and no such call changes the slab.
\<close>

theorem stale_token_stays_stale:
  assumes "slab_run cs slab_new = Some s" and "slab_lookup s t \<noteq> LookupUnknown"
    and "slab_run ds s = Some s1" and "slab_lookup s1 t = LookupUnknown"
    and "slab_run es s1 = Some s2"
  shows "slab_lookup s2 t = LookupUnknown \<and> slab_payload s2 t = None \<and>
    slab_complete t s2 = (None, s2) \<and> slab_complete_cancel (to_cancel t) s2 = (False, s2) \<and>
    slab_register_cancel t s2 = (None, s2)"
proof -
  note wf = run_new_wf [OF assms(1)]
  have "slab_view s2 (token_key t) = None"
    using slab_gen.stale_forever [OF wf _ assms(3) _ assms(5)] assms(2,4)
    by (simp add: lookup_unknown_iff)
  moreover have "slab_wf s2"
    using slab_store.run_inv [OF slab_store.run_inv [OF wf assms(3)] assms(5)] .
  ultimately show ?thesis
    using unknown_refused [of s2 t] unknown_refused(2) [of s2 "to_cancel t"]
    by (simp add: lookup_unknown_iff)
qed

text \<open>
  The token an insertion returns is fresh. It names an operation, its user data is not
  zero, its key was not in use, and it differs in its key from every token that has named a
  slot at any earlier point of the run, completed or not.
\<close>

theorem insert_token_fresh:
  assumes "slab_run cs slab_new = Some s" and "slab_lookup s t \<noteq> LookupUnknown"
    and "slab_run ds s = Some s1" and "slab_insert p s1 = Some (Inr u, s2)"
  shows "token_key u \<noteq> token_key t \<and> token_kind u = Operation \<and> as_user_data u \<noteq> 0 \<and>
    slab_lookup s1 u = LookupUnknown \<and> slab_payload s2 u = Some p"
proof -
  note wf = run_new_wf [OF assms(1)]
  note wf1 = slab_store.run_inv [OF wf assms(3)]
  from wf1 have u: "token_kind u = Operation" "valid_key (token_key u)"
    "slab_view s1 (token_key u) = None"
    "slab_view s2 = (slab_view s1)(token_key u \<mapsto> Entry Described Live p NeverRequested)"
    by (cases rule: insert_cases [where p = p]; use assms(4) in simp)+
  have "token_key u \<noteq> token_key t"
  proof
    assume k: "token_key u = token_key t"
    have "slab_run [CmdInsert p] s1 = Some s2" using assms(4) by simp
    from slab_gen.stale_forever [OF wf _ assms(3) _ this, of "token_key t"] assms(2) u(3,4) k
    show False by (simp add: lookup_unknown_iff)
  qed
  then show ?thesis
    using u token_nonzero [of u]
    by (auto simp: valid_key_def token_key_def lookup_unknown_iff slab_payload_view)
qed

text \<open>How the witnesses evaluate, and the run they use: one operation in slot 0.\<close>

lemma small_generations [simp]:
  "\<not> (140737488355327 :: usize) \<le> 1" "\<not> (140737488355327 :: usize) \<le> 2"
  by (simp_all add: word_le_nat_alt)

lemmas slab_eval = slab_new_def slab_insert_def slab_take_index_def set_slot_state_def slot_for_def
  slab_lookup_def slab_payload_def slab_payload_write_def slab_state_def slab_set_lifecycle_def
  slab_detach_def slab_register_cancel_def slab_free_slot_def slab_cancel_request_not_enqueued_def
  slab_complete_def slab_complete_cancel_def slab_promote_built_to_submitted_def promote_slot_def
  slab_drain_def slab_tokens_where_def MAX_SLOTS_eq FIRST_GENERATION_def GENERATION_MASK_eq
  token_index_new token_generation_new layout_masks to_cancel_def list_get_def Let_def

definition tok0 :: token where
  "tok0 = token_new Operation 0 1"

lemma tok0_parts [simp]:
  "token_kind tok0 = Operation" "token_index tok0 = 0" "token_generation tok0 = 1"
  "token_key tok0 = (0, 1)"
  by (simp_all add: tok0_def slab_eval token_key_def)

definition slab1 :: "nat op_slab" where
  "slab1 = \<lparr>slots = [\<lparr>slot_generation = 1, slot_state = Occupied Described Live 7 NeverRequested\<rparr>],
     free_head = None, occupied = 1\<rparr>"

lemma slab1_run: "slab_run [CmdInsert 7] slab_new = Some slab1"
  by (simp add: slab_eval slab1_def)

lemma slab1_insert: "slab_insert 7 slab_new = Some (Inr tok0, slab1)"
  by (simp add: slab_eval slab1_def tok0_def)

definition slab2 :: "nat op_slab" where
  "slab2 = \<lparr>slots = [\<lparr>slot_generation = 2, slot_state = Vacant None\<rparr>], free_head = Some 0, occupied = 0\<rparr>"

lemma slab2_run: "slab_run [CmdComplete tok0] slab1 = Some slab2"
  by (simp add: slab_eval slab1_def slab2_def)

theorem stale_token_stays_stale_witness:
  "slab_lookup (the (slab_run [CmdInsert 8] slab2)) tok0 = LookupUnknown"
proof -
  have "slab_run [CmdInsert 8] slab2 = Some (the (slab_run [CmdInsert 8] slab2))"
    by (simp add: slab_eval slab2_def)
  from stale_token_stays_stale [OF slab1_run _ slab2_run _ this, of tok0] show ?thesis
    by (simp add: slab_eval slab1_def slab2_def)
qed

theorem insert_token_fresh_witness:
  "\<exists>u s2. slab_insert 8 slab2 = Some (Inr u, s2) \<and> token_key u \<noteq> token_key tok0"
proof -
  obtain u s2 where ins: "slab_insert 8 slab2 = Some (Inr u, s2)"
    by (simp add: slab_eval slab2_def)
  from insert_token_fresh [OF slab1_run _ slab2_run ins, of tok0] ins show ?thesis
    by (simp add: slab_eval slab1_def)
qed

section \<open>Payloads\<close>

text \<open>
  C19: The slab owns the payload of an operation until that operation's own completion. From
  the insertion on, whatever other calls are made, on this token or on others, by
  cancellations or by their completions, the token stays live and shows the payload that was
  inserted, until \<open>complete\<close> is called with this very operation token, the slab is
  drained, or the payload is written through \<open>payload_mut\<close>; and that completion is what
  hands the payload out.
\<close>

theorem payload_kept_until_completion:
  assumes "slab_run cs slab_new = Some s" and "slab_insert p s = Some (Inr t, s1)"
    and "slab_run ds s1 = Some s2"
    and "CmdComplete t \<notin> set ds" and "CmdDrain \<notin> set ds"
    and "\<And>u q. CmdWrite u q \<in> set ds \<Longrightarrow> token_key u \<noteq> token_key t"
  shows "slab_lookup s2 t = LookupLive \<and> slab_payload s2 t = Some p \<and> fst (slab_complete t s2) = Some p"
proof -
  note wf = run_new_wf [OF assms(1)]
  from wf have t: "token_kind t = Operation" "slab_wf s1"
    "slab_view s1 = (slab_view s)(token_key t \<mapsto> Entry Described Live p NeverRequested)"
    by (cases rule: insert_cases [where p = p]; use assms(2) in simp)+
  have "token_key u \<noteq> token_key t \<or> token_kind u \<noteq> Operation" if "CmdComplete u \<in> set ds" for u
    using that assms(4) t(1) token_eq_iff_key [of u t] by auto
  with slab_store.payload_retained [OF t(2) assms(3), of "token_key t"] t(3) assms(5,6)
  obtain l ob c where v: "slab_view s2 (token_key t) = Some (Entry l ob p c)" by auto
  have "slab_wf s2" by (rule slab_store.run_inv [OF t(2) assms(3)])
  with complete_spec [OF _ surjective_pairing, of s2 t] v t(1)
  have "fst (slab_complete t s2) = Some p" by auto
  with v show ?thesis by (simp add: lookup_live_iff payload_iff)
qed

theorem payload_kept_until_completion_witness:
  "slab_payload (the (slab_run [CmdSetLifecycle tok0 Submitted, CmdDetach tok0,
     CmdRegisterCancel tok0, CmdCompleteCancel (to_cancel tok0)] slab1)) tok0 = Some 7"
proof -
  let ?ds = "[CmdSetLifecycle tok0 Submitted, CmdDetach tok0, CmdRegisterCancel tok0,
    CmdCompleteCancel (to_cancel tok0)] :: nat slab_cmd list"
  have "slab_run ?ds slab1 = Some (the (slab_run ?ds slab1))"
    by (simp add: slab_eval slab1_def)
  from payload_kept_until_completion [OF _ slab1_insert this, of "[]"] show ?thesis by simp
qed

text \<open>
  What a call answers, read off the abstract map: whether the token named a live operation, the
  stage it was at, the cancellation token, the payload handed out, or all the payloads.
\<close>

definition answered :: "'p slab_cmd \<Rightarrow> 'p op_slab \<Rightarrow> bool" where
  "answered c s = (case c of
     CmdSetLifecycle t l \<Rightarrow> fst (slab_set_lifecycle t l s) = (case slab_view s (token_key t) of
        Some (Entry _ _ _ _) \<Rightarrow> True | _ \<Rightarrow> False)
   | CmdDetach t \<Rightarrow> fst (slab_detach t s) = (case slab_view s (token_key t) of
        Some (Entry l _ _ _) \<Rightarrow> Some l | _ \<Rightarrow> None)
   | CmdRegisterCancel t \<Rightarrow> fst (slab_register_cancel t s) = (case slab_view s (token_key t) of
        Some (Entry _ _ _ NeverRequested) \<Rightarrow> if token_kind t = Operation then Some (to_cancel t) else None
      | _ \<Rightarrow> None)
   | CmdNotEnqueued t \<Rightarrow> fst (slab_cancel_request_not_enqueued t s) =
        (token_kind t = Cancel \<and> (case slab_view s (token_key t) of
           Some (Entry _ _ _ Pending) \<Rightarrow> True | Some Tomb \<Rightarrow> True | _ \<Rightarrow> False))
   | CmdComplete t \<Rightarrow> fst (slab_complete t s) = (case slab_view s (token_key t) of
        Some (Entry _ _ p _) \<Rightarrow> if token_kind t = Operation then Some p else None | _ \<Rightarrow> None)
   | CmdCompleteCancel t \<Rightarrow> fst (slab_complete_cancel t s) =
        (token_kind t = Cancel \<and> (case slab_view s (token_key t) of
           Some (Entry _ _ _ Pending) \<Rightarrow> True | Some Tomb \<Rightarrow> True | _ \<Rightarrow> False))
   | CmdDrain \<Rightarrow> set (fst (slab_drain s)) = {p. \<exists>k l ob c. slab_view s k = Some (Entry l ob p c)}
   | _ \<Rightarrow> True)"

lemma drain_payloads:
  assumes wf: "slab_wf s"
  shows "set (fst (slab_drain s)) = {p. \<exists>k l ob c. slab_view s k = Some (Entry l ob p c)}"
proof -
  have live: "set (live_payload st) = {p. \<exists>l ob c. entry_of st = Some (Entry l ob p c)}" for st :: "'a slot_state"
    by (cases st) (auto simp: live_payload_def)
  have "set (fst (slab_drain s)) = (\<Union>sl \<in> set (slots s). set (live_payload (slot_state sl)))"
    using drain_spec(2) [OF wf surjective_pairing] by simp
  also have "\<dots> = {p. \<exists>k l ob c. slab_view s k = Some (Entry l ob p c)}"
    unfolding live
  proof (intro set_eqI iffI; clarsimp)
    fix p sl l ob c assume "sl \<in> set (slots s)" "entry_of (slot_state sl) = Some (Entry l ob p c)"
    then show "\<exists>k ka l ob c. slab_view s (k, ka) = Some (Entry l ob p c)"
      using view_at [OF wf] by (metis in_set_conv_nth)
  next
    fix p k g l ob c assume "slab_view s (k, g) = Some (Entry l ob p c)"
    then show "\<exists>sl \<in> set (slots s). \<exists>l ob c. entry_of (slot_state sl) = Some (Entry l ob p c)"
      by (rule view_SomeD) (metis nth_mem)
  qed
  finally show ?thesis .
qed

lemma answered_wf:
  assumes wf: "slab_wf s" shows "answered c s"
proof (cases c)
  case (CmdSetLifecycle t l)
  from set_lifecycle_spec [OF wf surjective_pairing, of t l] show ?thesis
    by (auto simp: answered_def CmdSetLifecycle split: option.split entry.split)
next
  case (CmdDetach t)
  from detach_spec [OF wf surjective_pairing, of t] show ?thesis
    by (auto simp: answered_def CmdDetach split: option.split entry.split)
next
  case (CmdRegisterCancel t)
  from register_cancel_spec [OF wf surjective_pairing, of t] show ?thesis
    by (auto simp: answered_def CmdRegisterCancel split: option.splits entry.splits cancel_state.splits if_splits)
next
  case (CmdNotEnqueued t)
  from not_enqueued_spec [OF wf surjective_pairing, of t] show ?thesis
    by (auto simp: answered_def CmdNotEnqueued split: option.splits entry.splits cancel_state.splits if_splits)
next
  case (CmdComplete t)
  from complete_spec [OF wf surjective_pairing, of t] show ?thesis
    by (auto simp: answered_def CmdComplete split: option.splits entry.splits if_splits)
next
  case (CmdCompleteCancel t)
  from complete_cancel_spec [OF wf surjective_pairing, of t] show ?thesis
    by (auto simp: answered_def CmdCompleteCancel split: option.splits entry.splits cancel_state.splits if_splits)
next
  case CmdDrain
  then show ?thesis using drain_payloads [OF wf] by (simp add: answered_def)
qed (simp_all add: answered_def)

text \<open>
  C20: The slab refines its abstract map. No sequence of calls from the empty slab reaches a
  panic (the \<open>unreachable!\<close> of the free list, an index out of range), and the invariant holds
  in every state reached. In such a state an insertion either returns an operation token whose
  key had no entry, and the map gains exactly that key, holding the payload as a described, live
  operation nobody asked to cancel; or every one of the 65536 slots exists and none is vacant,
  and it hands the very payload back and leaves the slab as it was. Every other call changes the
  map, on every key, exactly as \<open>cmd_effect\<close> says, and answers what the map says
  (\<open>answered\<close>).
\<close>

theorem slab_refines_map:
  "\<exists>s. slab_run cs slab_new = Some s \<and> slab_wf s \<and>
    (\<exists>s'. slab_exec c s = Some s' \<and> slab_wf s' \<and> answered c s \<and>
      (case c of
         CmdInsert p \<Rightarrow>
           (\<exists>t. slab_insert p s = Some (Inr t, s') \<and> token_kind t = Operation \<and>
              slab_view s (token_key t) = None \<and>
              slab_view s' = (slab_view s)(token_key t \<mapsto> Entry Described Live p NeverRequested)) \<or>
           slab_insert p s = Some (Inl p, s') \<and> s' = s \<and>
              length (slots s) = unat MAX_SLOTS \<and> free_head s = None
       | _ \<Rightarrow> slab_view s' = (\<lambda>k. cmd_effect c k (slab_view s k))))"
proof -
  obtain s where s: "slab_run cs slab_new = Some s" "slab_wf s"
    using slab_store.run_total [OF wf_new] by blast
  obtain s' where s': "slab_exec c s = Some s'"
    using slab_store.exec_total [OF s(2)] by blast
  note kept = slab_store.exec_inv [OF s(2) s'] answered_wf [OF s(2), of c]
  show ?thesis
  proof (cases "\<exists>p. c = CmdInsert p")
    case True
    then obtain p where c: "c = CmdInsert p" ..
    from s(2) show ?thesis
      by (cases rule: insert_cases [where p = p]) (use s s' kept in \<open>auto simp: c MAX_SLOTS_eq\<close>)
  next
    case False
    then have "slab_view s' k = cmd_effect c k (slab_view s k)" for k
      using slab_store.exec_effect [OF s(2) s', of k] by blast
    then show ?thesis using s s' kept False by (auto split: slab_cmd.split)
  qed
qed

section \<open>Cancellation\<close>

text \<open>
  At most one cancellation is issued per operation. After \<open>register_cancel\<close> has handed
  out a cancellation token, every later request against the same operation is refused,
  whatever happened in between (the cancellation completing, the operation completing and its
  slot being reused included), unless that request was withdrawn as never enqueued.
\<close>

theorem cancel_issued_once:
  assumes "slab_run cs slab_new = Some s" and "slab_register_cancel t s = (Some u, s1)"
    and "slab_run ds s1 = Some s2" and "CmdNotEnqueued u \<notin> set ds"
  shows "u = to_cancel t \<and> fst (slab_register_cancel t s2) = None"
proof -
  note wf = run_new_wf [OF assms(1)]
  note sp = register_cancel_spec [OF wf assms(2)]
  then obtain l ob p where t: "token_kind t = Operation" "u = to_cancel t"
    "slab_view s (token_key t) = Some (Entry l ob p NeverRequested)"
    and v1: "slab_view s1 (token_key t) = Some (Entry l ob p Pending)" and wf1: "slab_wf s1"
    by (auto split: option.splits entry.splits cancel_state.splits if_splits)
  have wf2: "slab_wf s2" by (rule slab_store.run_inv [OF wf1 assms(3)])
  have nw: "token_key x \<noteq> token_key t \<or> token_kind x \<noteq> Cancel" if "CmdNotEnqueued x \<in> set ds" for x
    using that assms(4) t(2) token_eq_iff_key [of x u] by auto
  have "pred_option requested (slab_view s2 (token_key t))"
    by (rule slab_gen.cancel_once [OF wf1 assms(3) v1 _ nw]) (simp_all add: requested_def)
  then have "fst (slab_register_cancel t s2) = None"
    using register_cancel_spec [OF wf2 surjective_pairing, of t]
    by (auto simp: requested_def split: option.splits entry.splits cancel_state.splits)
  with t(2) show ?thesis by simp
qed

theorem cancel_issued_once_witness:
  "fst (slab_register_cancel tok0 (the (slab_run [CmdCompleteCancel (to_cancel tok0), CmdComplete tok0,
     CmdInsert 8] (snd (slab_register_cancel tok0 slab1))))) = None"
proof -
  let ?ds = "[CmdCompleteCancel (to_cancel tok0), CmdComplete tok0, CmdInsert 8] :: nat slab_cmd list"
  let ?s1 = "snd (slab_register_cancel tok0 slab1)"
  have reg: "slab_register_cancel tok0 slab1 = (Some (to_cancel tok0), ?s1)"
    by (simp add: slab_eval slab1_def)
  have run: "slab_run ?ds ?s1 = Some (the (slab_run ?ds ?s1))"
    by (simp add: slab_eval slab1_def)
  from cancel_issued_once [OF slab1_run reg run] show ?thesis by simp
qed

text \<open>
  A slot is withheld while a cancellation against its operation is outstanding. When an
  operation completes with its cancellation pending, its payload is handed out but the token
  becomes tombstoned, and until the cancellation's own completion arrives (or the request is
  withdrawn), the token stays tombstoned, still counts as outstanding, and no insertion
  returns a token with its index.
\<close>

theorem tombstone_withholds_index:
  assumes "slab_run cs slab_new = Some s" and "slab_register_cancel t s = (Some u, s0)"
    and "slab_complete t s0 = (Some p, s1)" and "slab_run ds s1 = Some s2"
    and "CmdCompleteCancel u \<notin> set ds" and "CmdNotEnqueued u \<notin> set ds"
  shows "slab_lookup s2 t = LookupTombstoned \<and> 0 < slab_outstanding s2 \<and>
    (\<forall>q w s3. slab_insert q s2 = Some (Inr w, s3) \<longrightarrow> token_index w \<noteq> token_index t)"
proof -
  note wf = run_new_wf [OF assms(1)]
  from register_cancel_spec [OF wf assms(2)] obtain l ob p where t: "u = to_cancel t"
    and v0: "slab_view s0 (token_key t) = Some (Entry l ob p Pending)" and wf0: "slab_wf s0"
    by (auto split: option.splits entry.splits cancel_state.splits if_splits)
  from complete_spec [OF wf0 assms(3)] v0
  have v1: "slab_view s1 (token_key t) = Some Tomb" and wf1: "slab_wf s1"
    by (auto split: if_splits)
  have "token_key x \<noteq> token_key t \<or> token_kind x \<noteq> Cancel"
    if "CmdCompleteCancel x \<in> set ds \<or> CmdNotEnqueued x \<in> set ds" for x
    using that assms(5,6) t token_eq_iff_key [of x u] by auto
  from slab_store.tombstone_withheld [OF wf1 assms(4) v1 this]
  have v2: "slab_view s2 (token_key t) = Some Tomb" .
  have wf2: "slab_wf s2" by (rule slab_store.run_inv [OF wf1 assms(4)])
  have "token_index w \<noteq> token_index t" if "slab_insert q s2 = Some (Inr w, s3)" for q w s3
    using wf2
  proof (cases rule: insert_cases [where p = q])
    case (token x s')
    with that have "slab_view s2 (token_key w) = None"
      "slab_view s3 = (slab_view s2)(token_key w \<mapsto> Entry Described Live q NeverRequested)" by auto
    with v2 have "slab_view s3 (token_key w) \<noteq> None" "slab_view s3 (token_key t) \<noteq> None"
      "token_key w \<noteq> token_key t" by auto
    with view_same_index [of s3 "token_key w" "token_key t"]
    show ?thesis by (auto simp: token_key_def)
  qed (use that in simp)
  moreover have "slab_outstanding s2 \<noteq> 0" using v2 outstanding_zero [OF wf2] by auto
  ultimately show ?thesis using v2 by (simp add: lookup_tombstoned_iff)
qed

theorem tombstone_withholds_index_witness:
  "\<exists>w s3. slab_insert 8 (snd (slab_complete tok0 (snd (slab_register_cancel tok0 slab1)))) = Some (Inr w, s3)
     \<and> token_index w \<noteq> token_index tok0"
proof -
  let ?s0 = "snd (slab_register_cancel tok0 slab1)" and ?s1 = "snd (slab_complete tok0 (snd (slab_register_cancel tok0 slab1)))"
  have reg: "slab_register_cancel tok0 slab1 = (Some (to_cancel tok0), ?s0)"
    by (simp add: slab_eval slab1_def)
  have comp: "slab_complete tok0 ?s0 = (Some 7, ?s1)"
    by (simp add: slab_eval slab1_def)
  obtain w s3 where ins: "slab_insert 8 ?s1 = Some (Inr w, s3)"
    by (simp add: slab_eval slab1_def)
  from tombstone_withholds_index [OF slab1_run reg comp, of "[]" ?s1] ins
  show ?thesis by auto
qed

section \<open>Capacity, accounting and teardown\<close>

text \<open>
  An insertion is refused exactly when the slab is full: all 65536 indices exist and none
  of them is vacant. The refusal returns the payload it was given and changes nothing.
\<close>

theorem insert_refused_iff_full:
  assumes "slab_run cs slab_new = Some s"
  shows "((\<exists>q s'. slab_insert p s = Some (Inl q, s')) \<longleftrightarrow>
      length (slots s) = 65536 \<and> (\<forall>sl \<in> set (slots s). \<not> is_vacant (slot_state sl))) \<and>
    (\<forall>q s'. slab_insert p s = Some (Inl q, s') \<longrightarrow> q = p \<and> s' = s)"
proof -
  note wf = run_new_wf [OF assms(1)]
  have vac: "free_head s = None \<longleftrightarrow> (\<forall>sl \<in> set (slots s). \<not> is_vacant (slot_state sl))"
  proof -
    obtain fl where fl: "free_chain (slots s) (free_head s) fl"
      "set fl = {i. i < length (slots s) \<and> is_vacant (slot_state (slots s ! i))}"
      using slab_wfD(4) [OF wf] by (auto simp: free_list_ok_def)
    have "free_head s = None \<longleftrightarrow> fl = []" using fl(1) by (cases fl) auto
    also have "\<dots> \<longleftrightarrow> set fl = {}" by simp
    also have "\<dots> \<longleftrightarrow> (\<forall>sl \<in> set (slots s). \<not> is_vacant (slot_state sl))"
      unfolding fl(2) by (auto simp: set_conv_nth)
    finally show ?thesis .
  qed
  have "(\<exists>q s'. slab_insert p s = Some (Inl q, s')) \<longleftrightarrow> length (slots s) = 65536 \<and> free_head s = None"
  proof (cases "free_head s")
    case None
    then show ?thesis
      by (cases rule: insert_cases [OF wf, where p = p])
        (auto simp: slab_insert_def slab_take_index_def MAX_SLOTS_eq Let_def split: if_splits)
  next
    case (Some i)
    then show ?thesis by (cases rule: insert_cases [OF wf, where p = p]) auto
  qed
  moreover have "\<forall>q s'. slab_insert p s = Some (Inl q, s') \<longrightarrow> q = p \<and> s' = s"
    by (cases rule: insert_cases [OF wf, where p = p]) simp_all
  ultimately show ?thesis unfolding vac by blast
qed

theorem insert_refused_iff_full_witness:
  "\<not> (\<exists>q s'. slab_insert 8 slab1 = Some (Inl q, s'))"
proof -
  from insert_refused_iff_full [OF slab1_run, of 8] have
    "(\<exists>q s'. slab_insert 8 slab1 = Some (Inl q, s')) \<longleftrightarrow>
      length (slots slab1) = 65536 \<and> (\<forall>sl \<in> set (slots slab1). \<not> is_vacant (slot_state sl))"
    by blast
  then show ?thesis by (simp add: slab1_def)
qed

text \<open>
  The counters are exact. \<open>occupied\<close> is the number of live operations and
  \<open>outstanding\<close> the number of slots that still expect a completion, tombstones included;
  so \<open>outstanding\<close> is zero exactly when every token is unknown, and no slot awaits the
  kernel then.
\<close>

theorem counters_exact:
  assumes "slab_run cs slab_new = Some s"
  shows "occupied s = card {k. \<exists>l ob p c. slab_view s k = Some (Entry l ob p c)} \<and>
    slab_outstanding s = card (dom (slab_view s)) \<and>
    slab_awaiting_kernel s \<le> slab_outstanding s \<and> occupied s \<le> slab_outstanding s \<and>
    (slab_outstanding s = 0 \<longleftrightarrow> (\<forall>t. slab_lookup s t = LookupUnknown))"
proof -
  note wf = run_new_wf [OF assms]
  have live: "{k. \<exists>e. slab_view s k = Some e \<and> e \<noteq> Tomb}
      = {k. \<exists>l ob p c. slab_view s k = Some (Entry l ob p c)}"
    by (auto, metis entry.exhaust)
  have sub: "{k. \<exists>e. slab_view s k = Some e \<and> Q e} \<subseteq> dom (slab_view s)" for Q by auto
  have "slab_outstanding s = 0 \<longleftrightarrow> (\<forall>t. slab_lookup s t = LookupUnknown)"
  proof
    assume "\<forall>t. slab_lookup s t = LookupUnknown"
    then have n: "\<And>t. slab_view s (token_key t) = None" by (simp add: lookup_unknown_iff)
    have "slab_view s k = None" for k
    proof (rule ccontr)
      assume "slab_view s k \<noteq> None"
      then obtain e where "slab_view s k = Some e" by blast
      then obtain i where i: "i < length (slots s)" "entry_of (slot_state (slots s ! i)) = Some e"
        "unat (fst k) = i" "snd k = slot_generation (slots s ! i)"
        by (rule view_SomeD)
      then have k: "k = (of_nat i, slot_generation (slots s ! i))" by (auto simp: prod_eq_iff)
      from n [of "token_new Operation (fst k) (snd k)"] key_at_valid [OF wf i(1)]
      show False using \<open>slab_view s k \<noteq> None\<close> by (simp add: k token_key_new)
    qed
    then show "slab_outstanding s = 0" by (simp add: outstanding_zero [OF wf] fun_eq_iff)
  qed (simp add: outstanding_zero [OF wf] lookup_unknown_iff)
  then show ?thesis
    using occupied_card [OF wf] outstanding_card [OF wf] awaiting_card [OF wf]
      card_mono [OF finite_dom_view [OF wf] sub, of entry_awaits_kernel]
      card_mono [OF finite_dom_view [OF wf] sub, of "\<lambda>e. e \<noteq> Tomb"]
    by (simp only: live simp_thms)
qed

theorem counters_exact_witness:
  "slab_outstanding slab1 \<noteq> 0"
  using counters_exact [OF slab1_run] by (simp add: slab_eval slab1_def slab_outstanding_def)

text \<open>
  Draining returns the payload of every live operation, in the order of the slots, and
  leaves no live operation. Tombstones survive the drain.
\<close>

theorem drain_returns_live_payloads:
  assumes "slab_run cs slab_new = Some s" and "slab_drain s = (out, s')"
  shows "out = concat (map (\<lambda>sl. live_payload (slot_state sl)) (slots s)) \<and>
    length out = occupied s \<and> occupied s' = 0 \<and>
    (\<forall>t. slab_lookup s' t =
       (if slab_lookup s t = LookupTombstoned then LookupTombstoned else LookupUnknown))"
proof -
  note wf = run_new_wf [OF assms(1)]
  note d = drain_spec [OF wf assms(2)]
  have "length (concat (map (\<lambda>sl. live_payload (slot_state sl)) xs))
      = length (filter (\<lambda>sl. is_live (slot_state sl)) xs)" for xs :: "'a slot list"
    by (induction xs) (simp_all add: live_payload_def is_live_def split: slot_state.split)
  moreover have "slab_lookup s' t =
      (if slab_lookup s t = LookupTombstoned then LookupTombstoned else LookupUnknown)" for t
    unfolding lookup_tombstoned_iff unfolding slab_lookup_view d(3) by simp
  ultimately show ?thesis using d slab_wfD(3) [OF wf] by simp
qed

theorem drain_returns_live_payloads_witness:
  "fst (slab_drain slab1) = [7]"
proof -
  from drain_returns_live_payloads [OF slab1_run surjective_pairing] show ?thesis
    by (simp add: slab1_def live_payload_def)
qed

section \<open>Tokens\<close>

text \<open>
  C21: Packing a token loses nothing. For every slot index the slab can use and every
  generation it issues, the three parts are read back unchanged from the user data the
  platform echoes, the value is not the zero the platform would read as all operations, the
  operation's and the cancellation's token of a slot differ, and each is recovered from the
  other.
\<close>

theorem token_roundtrip:
  assumes "i < MAX_SLOTS" "FIRST_GENERATION \<le> g" "g \<le> GENERATION_MASK"
  shows "let t = from_user_data (as_user_data (token_new k i g)) in
    token_kind t = k \<and> token_index t = i \<and> token_generation t = g \<and> as_user_data t \<noteq> 0 \<and>
    as_user_data (to_cancel t) \<noteq> as_user_data (to_operation t) \<and>
    to_operation (to_cancel t) = token_new Operation i g \<and>
    to_cancel (to_operation t) = token_new Cancel i g"
proof -
  let ?t = "token_new k i g"
  have parts: "token_index ?t = i" "token_generation ?t = g"
    using assms by (simp_all add: token_index_new token_generation_new)
  have "to_cancel ?t \<noteq> to_operation ?t"
    using token_kind_to by (metis token_kind.distinct(1))
  moreover have "as_user_data ?t \<noteq> 0"
    by (rule token_nonzero) (use assms parts in simp)
  moreover have "to_operation (to_cancel ?t) = token_new Operation i g"
    "to_cancel (to_operation ?t) = token_new Cancel i g"
    using assms parts by (simp_all add: to_operation_def to_cancel_def token_index_new token_generation_new)
  ultimately show ?thesis
    using parts by (simp add: from_user_data_def Let_def token.expand)
       (metis token.expand)
qed

theorem token_roundtrip_witness:
  "token_generation (from_user_data (as_user_data (token_new Cancel 65535 GENERATION_MASK))) = GENERATION_MASK"
  using token_roundtrip [of 65535 GENERATION_MASK Cancel]
  by (simp add: MAX_SLOTS_eq FIRST_GENERATION_def GENERATION_MASK_eq word_less_nat_alt word_le_nat_alt Let_def)

end
