(* ===== verification/Errors.thy ===== *)
theory Errors
  imports Prelude
begin

text \<open>
  The error surfaces (\<open>error.rs\<close>, \<open>buf/error.rs\<close>, \<open>io_ring/error.rs\<close>,
  \<open>runtime/error.rs\<close>, \<open>file/error.rs\<close>, \<open>pipe/error.rs\<close>).

  Each surface has its own error type, which names the conditions it can produce and
  carries every other platform error verbatim. The crate compares a platform code in two
  tables only, one for the pipe surface and one for the ring surface; the other types
  delegate. The file holds the types, the two tables, the conversions, \<open>os_error\<close>,
  \<open>source\<close> and \<open>Display\<close>.

  A \<open>windows::core::Error\<close> is modelled by its code; the message the platform attaches to
  it is the parameter \<open>sys\<close> of the \<open>Display\<close> functions.
\<close>

section \<open>Platform codes\<close>

text \<open>The documented values of the constants the crate imports.\<close>

definition hresult_from_win32 :: "u32 \<Rightarrow> hresult" where
  "hresult_from_win32 e = (if sint e \<le> 0 then e else 0x80070000 OR (e AND 0xFFFF))"

definition ERROR_BROKEN_PIPE :: u32 where "ERROR_BROKEN_PIPE = 109"
definition ERROR_PIPE_BUSY :: u32 where "ERROR_PIPE_BUSY = 231"
definition ERROR_NO_DATA :: u32 where "ERROR_NO_DATA = 232"
definition ERROR_PIPE_LISTENING :: u32 where "ERROR_PIPE_LISTENING = 536"
definition IORING_E_SUBMISSION_QUEUE_FULL :: hresult where
  "IORING_E_SUBMISSION_QUEUE_FULL = 0x80460002"
definition E_NOTIMPL :: hresult where "E_NOTIMPL = 0x80004001"

lemmas code_defs = hresult_from_win32_def ERROR_BROKEN_PIPE_def ERROR_PIPE_BUSY_def
  ERROR_NO_DATA_def ERROR_PIPE_LISTENING_def IORING_E_SUBMISSION_QUEUE_FULL_def E_NOTIMPL_def

lemma code_values [simp]:
  "hresult_from_win32 ERROR_BROKEN_PIPE = 0x8007006D"
  "hresult_from_win32 ERROR_PIPE_BUSY = 0x800700E7"
  "hresult_from_win32 ERROR_NO_DATA = 0x800700E8"
  "hresult_from_win32 ERROR_PIPE_LISTENING = 0x80070218"
  by (simp_all add: code_defs)

datatype win_error = WinError (win_code: hresult)

section \<open>The classification tables\<close>

datatype pipe_condition = CondBusy | CondBroken | CondNoPeer | CondListening

datatype ring_condition = CondQueueFull

definition pipe_table :: "(hresult \<times> pipe_condition) list" where
  "pipe_table =
    [(hresult_from_win32 ERROR_PIPE_BUSY, CondBusy),
     (hresult_from_win32 ERROR_BROKEN_PIPE, CondBroken),
     (hresult_from_win32 ERROR_NO_DATA, CondNoPeer),
     (hresult_from_win32 ERROR_PIPE_LISTENING, CondListening)]"

definition ring_table :: "(hresult \<times> ring_condition) list" where
  "ring_table = [(IORING_E_SUBMISSION_QUEUE_FULL, CondQueueFull)]"

definition classify_pipe :: "hresult \<Rightarrow> pipe_condition option" where
  "classify_pipe hr = map_option snd (find (\<lambda>(code, _). code = hr) pipe_table)"

definition classify_ring :: "hresult \<Rightarrow> ring_condition option" where
  "classify_ring hr = map_option snd (find (\<lambda>(code, _). code = hr) ring_table)"

section \<open>The error types\<close>

text \<open>An \<open>i32\<close> is kept as its bits; \<open>sint\<close> reads it.\<close>

type_synonym i32 = "32 word"

datatype buf_error =
    TooSmall u64 u64
  | UninitializedWriteRange u64 u64

datatype build_error =
    Unsupported
  | UnsupportedVersion i32 i32
  | UnsupportedFeature i32 i32
  | BuildOther win_error

datatype ring_error =
    QueueFull
  | UnsupportedOp i32
  | RingClosed
  | RingOther win_error

text \<open>\<open>ops::MissingField\<close>, the one failure of the operation builders.\<close>

datatype missing_field = MissingField (mf_field: string)

datatype runtime_error =
    RtRing ring_error
  | RtBuf buf_error
  | RtShuttingDown
  | RtAbandonedAtShutdown
  | RtShutdownStalled nat
  | RtMissingField string
  | RtTooManyOperations
  | RtInvalidRegisteredIndex u32
  | RtRegisteredRangeOutOfBounds u32 u64 u64 u64
  | RtBufferCheckedOut u32
  | RtRegistrationSuperseded
  | RtRegistrationPending
  | RtOther win_error

datatype file_error =
    FiRing ring_error
  | FiBuf buf_error
  | FiShuttingDown
  | FiMissingField string
  | FiAbandonedAtShutdown
  | FiOperationOutstanding
  | FiTooManyOperations
  | FiNotSeekable u32
  | FiDriver runtime_error
  | FiOther win_error

datatype pipe_error =
    PiBusy
  | PiBroken
  | PiNoPeer
  | PiListening
  | PiAcceptOutstanding
  | PiRing ring_error
  | PiBuf buf_error
  | PiShuttingDown
  | PiMissingField string
  | PiAbandonedAtShutdown
  | PiTooManyOperations
  | PiDriver runtime_error
  | PiOther win_error

section \<open>Conversions\<close>

definition build_from_hresult :: "hresult \<Rightarrow> build_error" where
  "build_from_hresult hr = BuildOther (WinError hr)"

definition build_from_win :: "win_error \<Rightarrow> build_error" where
  "build_from_win e = build_from_hresult (win_code e)"

definition from_create_failure :: "win_error \<Rightarrow> build_error" where
  "from_create_failure e =
     (if win_code e = E_NOTIMPL then Unsupported else build_from_hresult (win_code e))"

definition unsupported_version :: "i32 \<Rightarrow> i32 \<Rightarrow> build_error" where
  "unsupported_version requested max_version = UnsupportedVersion requested max_version"

definition ring_from_hresult :: "hresult \<Rightarrow> ring_error" where
  "ring_from_hresult hr =
     (case classify_ring hr of
        Some CondQueueFull \<Rightarrow> QueueFull
      | None \<Rightarrow> RingOther (WinError hr))"

definition ring_from_win :: "win_error \<Rightarrow> ring_error" where
  "ring_from_win e = ring_from_hresult (win_code e)"

definition runtime_from_ring :: "ring_error \<Rightarrow> runtime_error" where
  "runtime_from_ring e = RtRing e"

definition runtime_from_buf :: "buf_error \<Rightarrow> runtime_error" where
  "runtime_from_buf e = RtBuf e"

definition runtime_from_missing :: "missing_field \<Rightarrow> runtime_error" where
  "runtime_from_missing m = (case m of MissingField field \<Rightarrow> RtMissingField field)"

definition runtime_from_hresult :: "hresult \<Rightarrow> runtime_error" where
  "runtime_from_hresult hr =
     (case ring_from_hresult hr of
        RingOther e \<Rightarrow> RtOther e
      | named \<Rightarrow> RtRing named)"

definition runtime_from_win :: "win_error \<Rightarrow> runtime_error" where
  "runtime_from_win e = runtime_from_hresult (win_code e)"

definition file_from_ring :: "ring_error \<Rightarrow> file_error" where
  "file_from_ring e = FiRing e"

definition file_from_buf :: "buf_error \<Rightarrow> file_error" where
  "file_from_buf e = FiBuf e"

definition file_from_missing :: "missing_field \<Rightarrow> file_error" where
  "file_from_missing m = (case m of MissingField field \<Rightarrow> FiMissingField field)"

definition file_from_hresult :: "hresult \<Rightarrow> file_error" where
  "file_from_hresult hr =
     (case ring_from_hresult hr of
        RingOther e \<Rightarrow> FiOther e
      | named \<Rightarrow> FiRing named)"

definition file_from_win :: "win_error \<Rightarrow> file_error" where
  "file_from_win e = file_from_hresult (win_code e)"

fun file_from_runtime :: "runtime_error \<Rightarrow> file_error" where
  "file_from_runtime (RtRing e) = FiRing e"
| "file_from_runtime (RtBuf e) = FiBuf e"
| "file_from_runtime RtShuttingDown = FiShuttingDown"
| "file_from_runtime RtAbandonedAtShutdown = FiAbandonedAtShutdown"
| "file_from_runtime (RtMissingField field) = FiMissingField field"
| "file_from_runtime RtTooManyOperations = FiTooManyOperations"
| "file_from_runtime (RtOther e) = file_from_hresult (win_code e)"
| "file_from_runtime other = FiDriver other"

definition pipe_from_ring :: "ring_error \<Rightarrow> pipe_error" where
  "pipe_from_ring e = PiRing e"

definition pipe_from_buf :: "buf_error \<Rightarrow> pipe_error" where
  "pipe_from_buf e = PiBuf e"

definition pipe_from_missing :: "missing_field \<Rightarrow> pipe_error" where
  "pipe_from_missing m = (case m of MissingField field \<Rightarrow> PiMissingField field)"

definition pipe_from_hresult :: "hresult \<Rightarrow> pipe_error" where
  "pipe_from_hresult hr =
     (case classify_pipe hr of
        Some CondBusy \<Rightarrow> PiBusy
      | Some CondBroken \<Rightarrow> PiBroken
      | Some CondNoPeer \<Rightarrow> PiNoPeer
      | Some CondListening \<Rightarrow> PiListening
      | None \<Rightarrow>
          (case ring_from_hresult hr of
             RingOther e \<Rightarrow> PiOther e
           | named \<Rightarrow> PiRing named))"

definition pipe_from_win :: "win_error \<Rightarrow> pipe_error" where
  "pipe_from_win e = pipe_from_hresult (win_code e)"

fun pipe_from_runtime :: "runtime_error \<Rightarrow> pipe_error" where
  "pipe_from_runtime (RtRing e) = PiRing e"
| "pipe_from_runtime (RtBuf e) = PiBuf e"
| "pipe_from_runtime RtShuttingDown = PiShuttingDown"
| "pipe_from_runtime RtAbandonedAtShutdown = PiAbandonedAtShutdown"
| "pipe_from_runtime (RtMissingField field) = PiMissingField field"
| "pipe_from_runtime RtTooManyOperations = PiTooManyOperations"
| "pipe_from_runtime (RtOther e) = pipe_from_hresult (win_code e)"
| "pipe_from_runtime other = PiDriver other"

section \<open>The platform error a value carries\<close>

fun buf_os_error :: "buf_error \<Rightarrow> win_error option" where
  "buf_os_error (TooSmall _ _) = None"
| "buf_os_error (UninitializedWriteRange _ _) = None"

fun build_os_error :: "build_error \<Rightarrow> win_error option" where
  "build_os_error (BuildOther e) = Some e"
| "build_os_error _ = None"

fun ring_os_error :: "ring_error \<Rightarrow> win_error option" where
  "ring_os_error (RingOther e) = Some e"
| "ring_os_error _ = None"

fun runtime_os_error :: "runtime_error \<Rightarrow> win_error option" where
  "runtime_os_error (RtRing e) = ring_os_error e"
| "runtime_os_error (RtBuf e) = buf_os_error e"
| "runtime_os_error (RtOther e) = Some e"
| "runtime_os_error _ = None"

fun file_os_error :: "file_error \<Rightarrow> win_error option" where
  "file_os_error (FiRing e) = ring_os_error e"
| "file_os_error (FiBuf e) = buf_os_error e"
| "file_os_error (FiDriver e) = runtime_os_error e"
| "file_os_error (FiOther e) = Some e"
| "file_os_error _ = None"

fun pipe_os_error :: "pipe_error \<Rightarrow> win_error option" where
  "pipe_os_error (PiRing e) = ring_os_error e"
| "pipe_os_error (PiBuf e) = buf_os_error e"
| "pipe_os_error (PiDriver e) = runtime_os_error e"
| "pipe_os_error (PiOther e) = Some e"
| "pipe_os_error _ = None"

section \<open>Sources\<close>

text \<open>What \<open>Error::source\<close> points at: the error one level below, of its own type.\<close>

datatype error_source = SrcWin win_error | SrcRing ring_error | SrcBuf buf_error | SrcRuntime runtime_error

fun build_source :: "build_error \<Rightarrow> error_source option" where
  "build_source (BuildOther e) = Some (SrcWin e)"
| "build_source _ = None"

fun ring_source :: "ring_error \<Rightarrow> error_source option" where
  "ring_source (RingOther e) = Some (SrcWin e)"
| "ring_source _ = None"

fun runtime_source :: "runtime_error \<Rightarrow> error_source option" where
  "runtime_source (RtRing e) = Some (SrcRing e)"
| "runtime_source (RtBuf e) = Some (SrcBuf e)"
| "runtime_source (RtOther e) = Some (SrcWin e)"
| "runtime_source _ = None"

fun file_source :: "file_error \<Rightarrow> error_source option" where
  "file_source (FiRing e) = Some (SrcRing e)"
| "file_source (FiBuf e) = Some (SrcBuf e)"
| "file_source (FiDriver e) = Some (SrcRuntime e)"
| "file_source (FiOther e) = Some (SrcWin e)"
| "file_source _ = None"

fun pipe_source :: "pipe_error \<Rightarrow> error_source option" where
  "pipe_source (PiRing e) = Some (SrcRing e)"
| "pipe_source (PiBuf e) = Some (SrcBuf e)"
| "pipe_source (PiDriver e) = Some (SrcRuntime e)"
| "pipe_source (PiOther e) = Some (SrcWin e)"
| "pipe_source _ = None"

text \<open>The chain of sources, walked to its end.\<close>

fun source_of :: "error_source \<Rightarrow> error_source option" where
  "source_of (SrcWin _) = None"
| "source_of (SrcRing e) = ring_source e"
| "source_of (SrcBuf _) = None"
| "source_of (SrcRuntime e) = runtime_source e"

section \<open>Display\<close>

text \<open>The formatting of the standard library that the messages use.\<close>

definition digit_char :: "nat \<Rightarrow> char" where
  "digit_char d = char_of (if d < 10 then 48 + d else 87 + d)"

fun show_base :: "nat \<Rightarrow> nat \<Rightarrow> string" where
  "show_base b n =
     (if b < 2 \<or> n < b then [digit_char n] else show_base b (n div b) @ [digit_char (n mod b)])"

declare show_base.simps [simp del]

definition show_unsigned :: "'a::len word \<Rightarrow> string" where
  "show_unsigned w = show_base 10 (unat w)"

definition show_i32 :: "i32 \<Rightarrow> string" where
  "show_i32 w = (if sint w < 0 then ''-'' @ show_base 10 (nat (- sint w)) else show_base 10 (nat (sint w)))"

definition show_i32_hex :: "i32 \<Rightarrow> string" where
  "show_i32_hex w = ''0x'' @ show_base 16 (unat w)"

fun buf_display :: "buf_error \<Rightarrow> string" where
  "buf_display (TooSmall requested available) =
     ''buffer too small: '' @ show_unsigned requested @ '' bytes requested but only '' @
     show_unsigned available @ '' available''"
| "buf_display (UninitializedWriteRange requested initialized) =
     ''write of '' @ show_unsigned requested @ '' bytes would read past '' @
     show_unsigned initialized @ '' initialized bytes''"

fun build_display :: "(win_error \<Rightarrow> string) \<Rightarrow> build_error \<Rightarrow> string" where
  "build_display sys Unsupported = ''IoRing is not usable on this host''"
| "build_display sys (UnsupportedVersion requested max_supported) =
     ''IoRing version '' @ show_i32 requested @ '' is not supported; this host supports up to '' @
     show_i32 max_supported"
| "build_display sys (UnsupportedFeature required available) =
     ''IoRing feature flags '' @ show_i32_hex required @ '' are required but this host reports '' @
     show_i32_hex available"
| "build_display sys (BuildOther e) = sys e"

fun ring_display :: "(win_error \<Rightarrow> string) \<Rightarrow> ring_error \<Rightarrow> string" where
  "ring_display sys QueueFull = ''the submission queue is full''"
| "ring_display sys (UnsupportedOp op) =
     ''IoRing operation '' @ show_i32 op @ '' is not supported on this host''"
| "ring_display sys RingClosed = ''the ring has been closed''"
| "ring_display sys (RingOther e) = sys e"

definition tracking_full_message :: string where
  "tracking_full_message = ''the driver is tracking as many operations as it can; complete '' @
     ''outstanding operations rather than submitting more''"

fun runtime_display :: "(win_error \<Rightarrow> string) \<Rightarrow> runtime_error \<Rightarrow> string" where
  "runtime_display sys (RtRing e) = ring_display sys e"
| "runtime_display sys (RtBuf e) = buf_display e"
| "runtime_display sys RtShuttingDown = ''the driver is shutting down''"
| "runtime_display sys RtAbandonedAtShutdown =
     ''the operation was abandoned at shutdown before the platform ran it''"
| "runtime_display sys (RtShutdownStalled outstanding) =
     ''shutdown is still draining, with '' @ show_base 10 outstanding @ '' operation(s) outstanding''"
| "runtime_display sys (RtMissingField field) = ''required field `'' @ field @ ''` was not set''"
| "runtime_display sys RtTooManyOperations = tracking_full_message"
| "runtime_display sys (RtInvalidRegisteredIndex index) =
     ''registered index '' @ show_unsigned index @ '' does not refer to a registration''"
| "runtime_display sys (RtRegisteredRangeOutOfBounds index offset len extent) =
     ''registered buffer '' @ show_unsigned index @ '' range '' @ show_unsigned offset @ ''..'' @
     show_unsigned (saturating_add offset len) @ '' exceeds its extent of '' @ show_unsigned extent"
| "runtime_display sys (RtBufferCheckedOut index) =
     ''registered buffer '' @ show_unsigned index @ '' is already checked out''"
| "runtime_display sys RtRegistrationSuperseded =
     ''the registration this collection came from has been superseded''"
| "runtime_display sys RtRegistrationPending =
     ''a registration request is in flight, so no buffer may be checked out''"
| "runtime_display sys (RtOther e) = sys e"

fun file_display :: "(win_error \<Rightarrow> string) \<Rightarrow> file_error \<Rightarrow> string" where
  "file_display sys (FiRing e) = ring_display sys e"
| "file_display sys (FiBuf e) = buf_display e"
| "file_display sys FiShuttingDown = ''the driver is shutting down''"
| "file_display sys (FiMissingField field) = ''required field `'' @ field @ ''` was not set''"
| "file_display sys FiAbandonedAtShutdown =
     ''the operation was abandoned at shutdown before the platform ran it''"
| "file_display sys FiOperationOutstanding =
     ''a sequential operation is already outstanding on this file''"
| "file_display sys FiTooManyOperations = tracking_full_message"
| "file_display sys (FiNotSeekable file_type) =
     ''this handle has no file offset (Win32 file type '' @ show_unsigned file_type @
     ''), so a positional operation is meaningless''"
| "file_display sys (FiDriver e) = runtime_display sys e"
| "file_display sys (FiOther e) = sys e"

fun pipe_display :: "(win_error \<Rightarrow> string) \<Rightarrow> pipe_error \<Rightarrow> string" where
  "pipe_display sys PiBusy = ''every pipe instance is already serving a client''"
| "pipe_display sys PiBroken = ''the peer closed its end of the pipe''"
| "pipe_display sys PiNoPeer = ''the pipe has no peer connected''"
| "pipe_display sys PiListening = ''the pipe instance is still waiting for a client''"
| "pipe_display sys PiAcceptOutstanding = ''an accept is already outstanding on this server''"
| "pipe_display sys (PiRing e) = ring_display sys e"
| "pipe_display sys (PiBuf e) = buf_display e"
| "pipe_display sys PiShuttingDown = ''the runtime is shutting down''"
| "pipe_display sys (PiMissingField field) = ''required field `'' @ field @ ''` was not set''"
| "pipe_display sys PiAbandonedAtShutdown =
     ''the operation was abandoned when the runtime shut down''"
| "pipe_display sys PiTooManyOperations = tracking_full_message"
| "pipe_display sys (PiDriver e) = runtime_display sys e"
| "pipe_display sys (PiOther e) = sys e"

section \<open>Classification\<close>

lemma classify_pipe_eq:
  "classify_pipe hr =
    (if hr = 0x800700E7 then Some CondBusy else if hr = 0x8007006D then Some CondBroken
     else if hr = 0x800700E8 then Some CondNoPeer else if hr = 0x80070218 then Some CondListening
     else None)"
  by (simp add: classify_pipe_def pipe_table_def)

lemma classify_ring_eq:
  "classify_ring hr = (if hr = 0x80460002 then Some CondQueueFull else None)"
  by (simp add: classify_ring_def ring_table_def code_defs)

lemmas classify_eqs = classify_pipe_eq classify_ring_eq

lemma ring_from_hresult_eq:
  "ring_from_hresult hr = (if hr = 0x80460002 then QueueFull else RingOther (WinError hr))"
  by (simp add: ring_from_hresult_def classify_ring_eq)

lemmas from_hresult_defs =
  runtime_from_hresult_def file_from_hresult_def pipe_from_hresult_def build_from_hresult_def

text \<open>
  The routes a platform code can take through the crate: raised on any of the four surfaces,
  from the code or from the \<open>windows\<close> error that carries it, and passed on by the conversions
  from the ring and from the driver, any number of times.
\<close>

datatype surface_error =
    OnRing ring_error
  | OnRuntime runtime_error
  | OnFile file_error
  | OnPipe pipe_error

inductive reaches :: "hresult \<Rightarrow> surface_error \<Rightarrow> bool" for hr where
  ring_code: "reaches hr (OnRing (ring_from_hresult hr))"
| ring_win: "reaches hr (OnRing (ring_from_win (WinError hr)))"
| runtime_code: "reaches hr (OnRuntime (runtime_from_hresult hr))"
| runtime_win: "reaches hr (OnRuntime (runtime_from_win (WinError hr)))"
| file_code: "reaches hr (OnFile (file_from_hresult hr))"
| file_win: "reaches hr (OnFile (file_from_win (WinError hr)))"
| pipe_code: "reaches hr (OnPipe (pipe_from_hresult hr))"
| pipe_win: "reaches hr (OnPipe (pipe_from_win (WinError hr)))"
| ring_runtime: "reaches hr (OnRing e) \<Longrightarrow> reaches hr (OnRuntime (runtime_from_ring e))"
| ring_file: "reaches hr (OnRing e) \<Longrightarrow> reaches hr (OnFile (file_from_ring e))"
| ring_pipe: "reaches hr (OnRing e) \<Longrightarrow> reaches hr (OnPipe (pipe_from_ring e))"
| runtime_file: "reaches hr (OnRuntime r) \<Longrightarrow> reaches hr (OnFile (file_from_runtime r))"
| runtime_pipe: "reaches hr (OnRuntime r) \<Longrightarrow> reaches hr (OnPipe (pipe_from_runtime r))"

fun surface_os_error :: "surface_error \<Rightarrow> win_error option" where
  "surface_os_error (OnRing e) = ring_os_error e"
| "surface_os_error (OnRuntime e) = runtime_os_error e"
| "surface_os_error (OnFile e) = file_os_error e"
| "surface_os_error (OnPipe e) = pipe_os_error e"

text \<open>The documented code of a condition the value names.\<close>

definition named_code :: "surface_error \<Rightarrow> hresult option" where
  "named_code v = (case v of
     OnRing QueueFull \<Rightarrow> Some 0x80460002
   | OnRuntime (RtRing QueueFull) \<Rightarrow> Some 0x80460002
   | OnFile (FiRing QueueFull) \<Rightarrow> Some 0x80460002
   | OnPipe (PiRing QueueFull) \<Rightarrow> Some 0x80460002
   | OnPipe PiBusy \<Rightarrow> Some 0x800700E7
   | OnPipe PiBroken \<Rightarrow> Some 0x8007006D
   | OnPipe PiNoPeer \<Rightarrow> Some 0x800700E8
   | OnPipe PiListening \<Rightarrow> Some 0x80070218
   | _ \<Rightarrow> None)"

text \<open>Along a route a code is where it was raised, or in the ring's error wrapped whole.\<close>

lemma reaches_value:
  assumes "reaches hr v"
  shows "v \<in> {OnRing (ring_from_hresult hr),
      OnRuntime (runtime_from_hresult hr), OnRuntime (RtRing (ring_from_hresult hr)),
      OnFile (file_from_hresult hr), OnFile (FiRing (ring_from_hresult hr)),
      OnPipe (pipe_from_hresult hr), OnPipe (PiRing (ring_from_hresult hr))}"
  using assms
proof induction
  case (runtime_file r)
  then show ?case
    by (auto simp: runtime_from_hresult_def file_from_hresult_def ring_from_hresult_eq)
next
  case (runtime_pipe r)
  then show ?case
    by (auto simp: runtime_from_hresult_def pipe_from_hresult_def classify_pipe_eq ring_from_hresult_eq)
qed (simp_all add: ring_from_win_def runtime_from_win_def file_from_win_def pipe_from_win_def
    runtime_from_ring_def file_from_ring_def pipe_from_ring_def)



text \<open>
  Demotion through the driver and the file surface is lossless. A pipe surface handed the
  driver's error for a code names exactly the condition it would have named from the code
  itself, and so does the file surface; and whatever a driver error is, narrowing it never
  adds a platform error it did not carry, and drops one only by naming its condition.
\<close>

theorem narrowing_lossless:
  "pipe_from_runtime (runtime_from_hresult hr) = pipe_from_hresult hr \<and>
   file_from_runtime (runtime_from_hresult hr) = file_from_hresult hr \<and>
   file_os_error (file_from_runtime e) \<in> {runtime_os_error e, None} \<and>
   pipe_os_error (pipe_from_runtime e) \<in> {runtime_os_error e, None} \<and>
   (\<forall>w. runtime_os_error e = Some w \<and> classify_ring (win_code w) = None \<longrightarrow>
      file_os_error (file_from_runtime e) = Some w \<and>
      (classify_pipe (win_code w) = None \<longrightarrow> pipe_os_error (pipe_from_runtime e) = Some w))"
proof -
  have "pipe_from_runtime (runtime_from_hresult hr) = pipe_from_hresult hr"
    "file_from_runtime (runtime_from_hresult hr) = file_from_hresult hr"
    by (simp_all add: from_hresult_defs classify_eqs ring_from_hresult_eq)
  moreover have "file_os_error (file_from_runtime e) \<in> {runtime_os_error e, None}"
    "pipe_os_error (pipe_from_runtime e) \<in> {runtime_os_error e, None}"
    by (cases e; simp add: from_hresult_defs classify_eqs ring_from_hresult_eq)+
  moreover have "\<forall>w. runtime_os_error e = Some w \<and> classify_ring (win_code w) = None \<longrightarrow>
      file_os_error (file_from_runtime e) = Some w \<and>
      (classify_pipe (win_code w) = None \<longrightarrow> pipe_os_error (pipe_from_runtime e) = Some w)"
    by (cases e) (auto simp: from_hresult_defs classify_eqs ring_from_hresult_eq split: if_splits)
  ultimately show ?thesis by blast
qed

theorem narrowing_lossless_witness:
  "pipe_os_error (pipe_from_runtime (RtOther (WinError 0x80070026))) = Some (WinError 0x80070026) \<and>
   pipe_from_runtime (runtime_from_hresult 0x8007006D) = PiBroken"
  using narrowing_lossless [of "0x8007006D" "RtOther (WinError 0x80070026)"]
  by (simp add: classify_eqs pipe_from_hresult_def)

text \<open>
  Narrowing keeps what the user reads. A driver error converted to the file surface
  displays the same message, except for a carried code that the ring table names; so does the
  pipe surface, which also words the two shutdown conditions and its own four conditions
  itself.
\<close>

theorem display_kept:
  "(\<forall>w. e = RtOther w \<longrightarrow> classify_ring (win_code w) = None) \<Longrightarrow>
   file_display sys (file_from_runtime e) = runtime_display sys e \<and>
   (e \<notin> {RtShuttingDown, RtAbandonedAtShutdown} \<and>
    (\<forall>w. e = RtOther w \<longrightarrow> classify_pipe (win_code w) = None) \<longrightarrow>
      pipe_display sys (pipe_from_runtime e) = runtime_display sys e)"
  by (cases e; cases "case e of RtOther w \<Rightarrow> w | _ \<Rightarrow> WinError 0")
    (auto simp: from_hresult_defs classify_eqs ring_from_hresult_eq split: if_splits)

theorem display_kept_witness:
  "file_display (\<lambda>_. ''handle eof'') (file_from_runtime (RtOther (WinError 0x80070026))) = ''handle eof''"
  using display_kept [of "RtOther (WinError 0x80070026)" "\<lambda>_. ''handle eof''"]
  by (simp add: classify_eqs)

end
