(* ===== verification/Buf.thy ===== *)
theory Buf
  imports Errors
begin

text \<open>
  Buffers (\<open>buf.rs\<close>).

  A buffer is its address, its extents and its kind; its bytes live in the shared memory,
  which the kernel may write while an operation is in flight, so they are read through a
  memory argument. \<open>IoBuf\<close> and \<open>IoBufMut\<close> are implemented by \<open>Vec<u8>\<close>,
  \<open>Box<[u8]>\<close> and \<open>[u8; N]\<close>. The locale \<open>io_buf\<close> states the part of the trait
  contract the driver relies on.
\<close>

section \<open>The buffer kinds\<close>

type_synonym memory = "usize \<Rightarrow> u8"

datatype buf_kind = VecBuf | BoxedBuf | ArrayBuf

record iobuf =
  ib_kind :: buf_kind
  ib_addr :: usize
  ib_len :: usize
  ib_cap :: usize

definition buf_ptr :: "iobuf \<Rightarrow> usize" where
  "buf_ptr b = ib_addr b"

definition buf_mut_ptr :: "iobuf \<Rightarrow> usize" where
  "buf_mut_ptr b = ib_addr b"

definition buf_len :: "iobuf \<Rightarrow> usize" where
  "buf_len b = ib_len b"

definition buf_capacity :: "iobuf \<Rightarrow> usize" where
  "buf_capacity b = (case ib_kind b of VecBuf \<Rightarrow> ib_cap b | BoxedBuf \<Rightarrow> ib_len b | ArrayBuf \<Rightarrow> ib_len b)"

text \<open>\<open>None\<close> is the failed \<open>debug_assert!\<close>. Only a vector records a length.\<close>

definition set_buf_init :: "usize \<Rightarrow> iobuf \<Rightarrow> iobuf option" where
  "set_buf_init n b =
     (case ib_kind b of
        VecBuf \<Rightarrow> if n \<le> ib_cap b then Some (b\<lparr>ib_len := n\<rparr>) else None
      | BoxedBuf \<Rightarrow> Some b
      | ArrayBuf \<Rightarrow> Some b)"

definition as_io_slice :: "memory \<Rightarrow> iobuf \<Rightarrow> u8 list" where
  "as_io_slice mem b =
     (if buf_len b = 0 then []
      else map (\<lambda>i. mem (buf_ptr b + of_nat i)) [0..<unat (buf_len b)])"

section \<open>Results that carry the buffer\<close>

record ('t, 'b, 'e) buf_result =
  br_result :: "'e + 't"
  br_buffer :: 'b

definition buf_result_new :: "'e + 't \<Rightarrow> 'b \<Rightarrow> ('t, 'b, 'e) buf_result" where
  "buf_result_new r b = \<lparr>br_result = r, br_buffer = b\<rparr>"

definition into_parts :: "('t, 'b, 'e) buf_result \<Rightarrow> ('e + 't) \<times> 'b" where
  "into_parts r = (br_result r, br_buffer r)"

definition br_is_ok :: "('t, 'b, 'e) buf_result \<Rightarrow> bool" where
  "br_is_ok r = (case br_result r of Inr _ \<Rightarrow> True | Inl _ \<Rightarrow> False)"

definition br_err :: "('t, 'b, 'e) buf_result \<Rightarrow> 'e option" where
  "br_err r = (case br_result r of Inl e \<Rightarrow> Some e | Inr _ \<Rightarrow> None)"

definition br_map :: "('t \<Rightarrow> 'u) \<Rightarrow> ('t, 'b, 'e) buf_result \<Rightarrow> ('u, 'b, 'e) buf_result" where
  "br_map f r = \<lparr>br_result = map_sum id f (br_result r), br_buffer = br_buffer r\<rparr>"

text \<open>\<open>Inl\<close> is the panic, with its message.\<close>

definition br_expect :: "('e \<Rightarrow> string) \<Rightarrow> string \<Rightarrow> ('t, 'b, 'e) buf_result \<Rightarrow> string + 't \<times> 'b" where
  "br_expect disp msg r =
     (case br_result r of
        Inr v \<Rightarrow> Inr (v, br_buffer r)
      | Inl e \<Rightarrow> Inl (msg @ '': '' @ disp e))"

definition br_unwrap :: "('e \<Rightarrow> string) \<Rightarrow> ('t, 'b, 'e) buf_result \<Rightarrow> string + 't \<times> 'b" where
  "br_unwrap disp r = br_expect disp ''operation failed'' r"

section \<open>The two checks\<close>

definition check_read_capacity :: "iobuf \<Rightarrow> u64 \<Rightarrow> buf_error + unit" where
  "check_read_capacity b requested =
     (let available = buf_capacity b in
      if requested > available then Inl (TooSmall requested available) else Inr ())"

definition check_write_initialized :: "iobuf \<Rightarrow> u64 \<Rightarrow> buf_error + unit" where
  "check_write_initialized b requested =
     (let initialized = buf_len b in
      if requested > initialized then Inl (UninitializedWriteRange requested initialized)
      else Inr ())"

section \<open>The contract\<close>

text \<open>What every safe value of the three types satisfies.\<close>

definition buf_ok :: "iobuf \<Rightarrow> bool" where
  "buf_ok b \<longleftrightarrow> ib_addr b \<noteq> 0 \<and> ib_len b \<le> ib_cap b \<and> unat (ib_cap b) < 2 ^ 63 \<and>
     (ib_kind b \<noteq> VecBuf \<longrightarrow> ib_len b = ib_cap b) \<and> unat (ib_addr b) + unat (ib_cap b) \<le> 2 ^ 64"

locale io_buf =
  fixes ok :: "'b \<Rightarrow> bool" and ptr :: "'b \<Rightarrow> usize" and mut_ptr :: "'b \<Rightarrow> usize"
    and len :: "'b \<Rightarrow> usize" and cap :: "'b \<Rightarrow> usize"
    and set_init :: "usize \<Rightarrow> 'b \<Rightarrow> 'b option"
  assumes same_address: "ok b \<Longrightarrow> mut_ptr b = ptr b"
    and non_null: "ok b \<Longrightarrow> ptr b \<noteq> 0"
    and in_bounds: "ok b \<Longrightarrow> unat (ptr b) + unat (cap b) \<le> 2 ^ 64"
    and consistent: "ok b \<Longrightarrow> len b \<le> cap b"
    and init_total: "\<lbrakk>ok b; n \<le> cap b\<rbrakk> \<Longrightarrow> \<exists>b'. set_init n b = Some b'"
    and init_stable: "\<lbrakk>ok b; n \<le> cap b; set_init n b = Some b'\<rbrakk> \<Longrightarrow>
      ok b' \<and> ptr b' = ptr b \<and> cap b' = cap b \<and> (len b' = n \<or> len b' = len b)"
begin

text \<open>
  A transfer of at most the checked number of bytes stays inside the buffer, and recording it
  cannot panic or move the buffer.
\<close>

lemma checked_transfer:
  assumes "ok b" "n \<le> requested" "requested \<le> cap b"
  shows "\<exists>b'. set_init n b = Some b' \<and> ok b' \<and> ptr b' = ptr b \<and>
    unat (ptr b) + unat n \<le> 2 ^ 64 \<and> len b' \<le> cap b"
proof -
  have n: "n \<le> cap b" using assms(2,3) by simp
  then have "unat n \<le> unat (cap b)" by (simp add: word_le_nat_alt)
  moreover obtain b' where b': "set_init n b = Some b'" using init_total [OF assms(1) n] by blast
  moreover note init_stable [OF assms(1) n b']
  ultimately show ?thesis
    using in_bounds [OF assms(1)] consistent by fastforce
qed

end

interpretation rust_buf: io_buf buf_ok buf_ptr buf_mut_ptr buf_len buf_capacity set_buf_init
proof
  fix b :: iobuf
  show "buf_ok b \<Longrightarrow> buf_mut_ptr b = buf_ptr b" "buf_ok b \<Longrightarrow> buf_ptr b \<noteq> 0"
    by (simp_all add: buf_ok_def buf_ptr_def buf_mut_ptr_def)
  show "buf_ok b \<Longrightarrow> unat (buf_ptr b) + unat (buf_capacity b) \<le> 2 ^ 64"
    "buf_ok b \<Longrightarrow> buf_len b \<le> buf_capacity b"
    by (cases "ib_kind b"; simp add: buf_ok_def buf_ptr_def buf_capacity_def buf_len_def)+
  fix n b'
  show "\<lbrakk>buf_ok b; n \<le> buf_capacity b\<rbrakk> \<Longrightarrow> \<exists>b'. set_buf_init n b = Some b'"
    by (cases "ib_kind b") (simp_all add: set_buf_init_def buf_capacity_def)
  show "\<lbrakk>buf_ok b; n \<le> buf_capacity b; set_buf_init n b = Some b'\<rbrakk> \<Longrightarrow>
      buf_ok b' \<and> buf_ptr b' = buf_ptr b \<and> buf_capacity b' = buf_capacity b \<and>
      (buf_len b' = n \<or> buf_len b' = buf_len b)"
    by (cases "ib_kind b") (auto simp: set_buf_init_def buf_capacity_def buf_ok_def buf_ptr_def
        buf_len_def split: if_splits)
qed

lemma check_read_ok: "check_read_capacity b requested = Inr () \<longleftrightarrow> requested \<le> buf_capacity b"
  by (auto simp: check_read_capacity_def Let_def not_less)

lemma check_write_ok: "check_write_initialized b requested = Inr () \<longleftrightarrow> requested \<le> buf_len b"
  by (auto simp: check_write_initialized_def Let_def not_less)

section \<open>What a device does to the memory\<close>

text \<open>A transfer stores its bytes one after the other from the address it was given.\<close>

fun device_fill :: "usize \<Rightarrow> u8 list \<Rightarrow> memory \<Rightarrow> memory" where
  "device_fill p [] mem = mem"
| "device_fill p (x # xs) mem = device_fill (p + 1) xs (mem(p := x))"

definition bytes_at :: "memory \<Rightarrow> usize \<Rightarrow> nat \<Rightarrow> u8 list" where
  "bytes_at mem p n = map (\<lambda>i. mem (p + of_nat i)) [0..<n]"

lemma length_bytes_at [simp]: "length (bytes_at mem p n) = n"
  by (simp add: bytes_at_def)

lemma as_io_slice_bytes: "as_io_slice mem b = bytes_at mem (buf_ptr b) (unat (buf_len b))"
  by (simp add: as_io_slice_def bytes_at_def)

lemma unat_before: "a \<noteq> p \<Longrightarrow> unat (a - p) = Suc (unat (a - (p + 1)))" for a p :: usize
proof -
  assume "a \<noteq> p"
  then have "a - p \<noteq> 0" by simp
  then have "unat (a - p - 1) = unat (a - p) - 1" "0 < unat (a - p)"
    by (simp_all add: unat_minus_one unat_gt_0)
  then show ?thesis by (simp add: diff_diff_eq)
qed

lemma device_fill_at:
  "length xs \<le> 2 ^ 64 \<Longrightarrow> device_fill p xs mem a =
     (if unat (a - p) < length xs then xs ! unat (a - p) else mem a)"
proof (induction xs arbitrary: p mem)
  case (Cons x xs)
  show ?case
  proof (cases "a = p")
    case True
    have "unat (p - (p + 1)) = 2 ^ 64 - 1"
      by (simp add: unsigned_minus_1_eq_mask mask_eq_exp_minus_1)
    with Cons True show ?thesis by simp
  next
    case False
    with Cons unat_before [OF False] show ?thesis by (simp add: fun_upd_def)
  qed
qed simp

lemma bytes_at_fill:
  assumes "length xs \<le> n" "n < 2 ^ 64"
  shows "bytes_at (device_fill p xs mem) p n = xs @ drop (length xs) (bytes_at mem p n)"
proof (rule nth_equalityI)
  fix i assume "i < length (bytes_at (device_fill p xs mem) p n)"
  then have i: "i < n" by simp
  with assms(2) have "unat (of_nat i :: usize) = i" by (simp add: unat_of_nat)
  with i assms show "bytes_at (device_fill p xs mem) p n ! i = (xs @ drop (length xs) (bytes_at mem p n)) ! i"
    by (simp add: bytes_at_def device_fill_at nth_append)
qed (use assms in simp)

text \<open>A transfer changes nothing outside its own range.\<close>

lemma device_fill_frame:
  assumes "device_fill p xs mem a \<noteq> mem a" "unat p + n \<le> 2 ^ 64" "length xs \<le> n"
  shows "unat p \<le> unat a \<and> unat a < unat p + n"
proof -
  have i: "unat (a - p) < length xs"
    using assms device_fill_at [of xs p mem a] by (auto split: if_splits)
  then have "unat p + unat (a - p) < 2 ^ 64" using assms by simp
  then have "unat (p + (a - p)) = unat p + unat (a - p)"
    by (intro unat_add_lem [THEN iffD1]) simp
  then show ?thesis using i assms(3) by simp
qed

lemma buf_len_recorded:
  assumes "buf_ok b" "n \<le> buf_capacity b" "set_buf_init n b = Some b'"
  shows "buf_len b' = (if ib_kind b = VecBuf then n else buf_len b)"
  using assms by (cases "ib_kind b") (auto simp: set_buf_init_def buf_len_def split: if_splits)

text \<open>
  C23: The two checks are exact and sufficient. A read is refused only when it asks for more
  than the buffer can hold, a write only when it asks for more than is initialized, each
  error carrying the two numbers. Let a read of \<open>r\<close> bytes be accepted and let a device
  then store any bytes, up to \<open>r\<close> of them, at the address the buffer gave it. It changes only
  memory of the buffer's own allocation, recording the transfer cannot panic or move the buffer,
  and what the buffer then shows is exactly those bytes for a vector, and those bytes followed by
  the old ones for a box or an array, whose length is fixed. After an accepted write, the
  \<open>r\<close> bytes found at the buffer's address are the first \<open>r\<close> of its initialized
  contents.
\<close>

theorem buffer_checks_sufficient:
  assumes "buf_ok b"
  shows "(case check_read_capacity b r of
      Inl e \<Rightarrow> e = TooSmall r (buf_capacity b) \<and> ib_cap b < r
    | Inr _ \<Rightarrow> r \<le> ib_cap b \<and> (\<forall>xs. length xs \<le> unat r \<longrightarrow>
        (let mem' = device_fill (buf_mut_ptr b) xs mem in
         (\<forall>a. mem' a \<noteq> mem a \<longrightarrow>
            unat (ib_addr b) \<le> unat a \<and> unat a < unat (ib_addr b) + unat (ib_cap b)) \<and>
         (\<exists>b'. set_buf_init (of_nat (length xs)) b = Some b' \<and> buf_ok b' \<and>
            buf_ptr b' = buf_ptr b \<and> buf_capacity b' = buf_capacity b \<and>
            as_io_slice mem' b' =
              (if ib_kind b = VecBuf then xs else xs @ drop (length xs) (as_io_slice mem b)))))) \<and>
    (case check_write_initialized b r of
      Inl e \<Rightarrow> e = UninitializedWriteRange r (buf_len b) \<and> ib_len b < r
    | Inr _ \<Rightarrow> r \<le> ib_len b \<and> bytes_at mem (buf_ptr b) (unat r) = take (unat r) (as_io_slice mem b))"
proof -
  have cap: "buf_capacity b = ib_cap b" using assms by (cases "ib_kind b") (simp_all add: buf_ok_def buf_capacity_def)
  have ptr: "buf_mut_ptr b = buf_ptr b" "buf_ptr b = ib_addr b" by (simp_all add: buf_ptr_def buf_mut_ptr_def)
  have "(\<forall>a. device_fill (buf_ptr b) xs mem a \<noteq> mem a \<longrightarrow>
        unat (ib_addr b) \<le> unat a \<and> unat a < unat (ib_addr b) + unat (ib_cap b)) \<and>
      (\<exists>b'. set_buf_init (of_nat (length xs)) b = Some b' \<and> buf_ok b' \<and>
        buf_ptr b' = buf_ptr b \<and> buf_capacity b' = buf_capacity b \<and>
        as_io_slice (device_fill (buf_ptr b) xs mem) b' =
          (if ib_kind b = VecBuf then xs else xs @ drop (length xs) (as_io_slice mem b)))"
    if r: "r \<le> buf_capacity b" and xs: "length xs \<le> unat r" for xs
  proof -
    have l: "length xs \<le> unat (buf_capacity b)" "unat (buf_capacity b) < 2 ^ 63"
      using r xs assms by (simp_all add: word_le_nat_alt cap buf_ok_def)
    then have u: "unat (of_nat (length xs) :: usize) = length xs" by (simp add: unat_of_nat)
    then have n: "of_nat (length xs) \<le> buf_capacity b" using l by (simp add: word_le_nat_alt)
    obtain b' where b': "set_buf_init (of_nat (length xs)) b = Some b'"
      using rust_buf.checked_transfer [OF assms n order_refl] by blast
    note st = rust_buf.init_stable [OF assms n b'] and len = buf_len_recorded [OF assms n b']
    have all: "ib_kind b \<noteq> VecBuf \<Longrightarrow> buf_len b = buf_capacity b"
      using assms by (simp add: buf_ok_def buf_len_def cap)
    have "as_io_slice (device_fill (buf_ptr b) xs mem) b' =
        (if ib_kind b = VecBuf then xs else xs @ drop (length xs) (as_io_slice mem b))"
      using st len u l all by (auto simp: as_io_slice_bytes bytes_at_fill)
    moreover have "unat (ib_addr b) \<le> unat a \<and> unat a < unat (ib_addr b) + unat (ib_cap b)"
      if "device_fill (buf_ptr b) xs mem a \<noteq> mem a" for a
      using device_fill_frame [OF that, of "unat (buf_capacity b)"] rust_buf.in_bounds [OF assms] l(1)
      by (simp add: ptr cap)
    ultimately show ?thesis using b' st by blast
  qed
  moreover have "bytes_at mem (buf_ptr b) (unat r) = take (unat r) (as_io_slice mem b)" if "r \<le> buf_len b"
    using that by (simp add: as_io_slice_bytes bytes_at_def take_map word_le_nat_alt)
  ultimately show ?thesis
    by (simp add: check_read_capacity_def check_write_initialized_def Let_def cap ptr(1) not_less buf_len_def)
qed

theorem buffer_checks_sufficient_witness:
  "let b = \<lparr>ib_kind = VecBuf, ib_addr = 4096, ib_len = 0, ib_cap = 16\<rparr> in
   check_read_capacity b 17 = Inl (TooSmall 17 16) \<and>
   check_write_initialized b 1 = Inl (UninitializedWriteRange 1 0) \<and>
   as_io_slice (device_fill 4096 [7, 8, 9] (\<lambda>_. 0)) (the (set_buf_init 3 b)) = [7, 8, 9]"
proof -
  let ?b = "\<lparr>ib_kind = VecBuf, ib_addr = 4096, ib_len = 0, ib_cap = 16\<rparr>"
  have ok: "buf_ok ?b" by (simp add: buf_ok_def)
  have "check_read_capacity ?b 4 = Inr ()" by (simp add: check_read_ok buf_capacity_def)
  then have "as_io_slice (device_fill 4096 [7, 8, 9] (\<lambda>_. 0)) (the (set_buf_init 3 ?b)) = [7, 8, 9]"
    using buffer_checks_sufficient [OF ok, of 4 "\<lambda>_. 0", THEN conjunct1]
    by (auto simp: buf_mut_ptr_def Let_def dest!: spec [of _ "[7, 8, 9]"])
  then show ?thesis
    by (simp add: check_read_capacity_def check_write_initialized_def Let_def buf_capacity_def buf_len_def)
qed

end
