(* ===== verification/Ring_Ops.thy ===== *)
theory Ring_Ops
  imports Errors
begin

text \<open>
  Operation descriptions and their builders (\<open>io_ring/ops.rs\<close>).

  A builder collects optional fields; \<open>build\<close> fails with the first required field that was
  never set, and otherwise fills the defaults in and converts the references to the
  platform's form. The references of the platform are tagged unions (\<open>Kind\<close> and a payload),
  modelled by their two constructors.
\<close>

section \<open>References\<close>

datatype plat_handle_ref = PlatRawHandle handle | PlatRegHandle u32

datatype plat_buffer_ref = PlatRawBuffer usize | PlatRegBuffer u32 u32

datatype handle_ref = RawHandle handle | RegisteredHandle u32

datatype buffer_ref = RawBuffer usize | RegisteredBuffer u32 u32

fun handle_to_platform :: "handle_ref \<Rightarrow> plat_handle_ref" where
  "handle_to_platform (RawHandle h) = PlatRawHandle h"
| "handle_to_platform (RegisteredHandle index) = PlatRegHandle index"

fun buffer_to_platform :: "buffer_ref \<Rightarrow> plat_buffer_ref" where
  "buffer_to_platform (RawBuffer address) = PlatRawBuffer address"
| "buffer_to_platform (RegisteredBuffer index offset) = PlatRegBuffer index offset"

type_synonym sqe_flags = "32 word"

definition SQE_NONE :: sqe_flags where "SQE_NONE = 0"
definition SQE_DRAIN_PRECEDING_OPS :: sqe_flags where "SQE_DRAIN_PRECEDING_OPS = 1"

definition sqe_to_platform :: "sqe_flags \<Rightarrow> u32" where
  "sqe_to_platform f = f"

definition missing_display :: "missing_field \<Rightarrow> string" where
  "missing_display m = ''required field `'' @ mf_field m @ ''` was not set''"

definition ok_or :: "'a option \<Rightarrow> 'e \<Rightarrow> 'e + 'a" where
  "ok_or x e = (case x of Some v \<Rightarrow> Inr v | None \<Rightarrow> Inl e)"

definition unwrap_or :: "'a option \<Rightarrow> 'a \<Rightarrow> 'a" where
  "unwrap_or x d = (case x of Some v \<Rightarrow> v | None \<Rightarrow> d)"

section \<open>Reads\<close>

record read_op =
  rd_handle :: plat_handle_ref
  rd_data :: plat_buffer_ref
  rd_num :: u32
  rd_offset :: u64
  rd_userdata :: usize
  rd_flags :: u32

record read_builder =
  rb_handle :: "handle_ref option"
  rb_data :: "buffer_ref option"
  rb_num :: "u32 option"
  rb_offset :: "u64 option"
  rb_user :: "usize option"
  rb_flags :: "sqe_flags option"

definition read_builder_new :: read_builder where
  "read_builder_new = \<lparr>rb_handle = None, rb_data = None, rb_num = None, rb_offset = None,
     rb_user = None, rb_flags = None\<rparr>"

definition rb_with_raw_handle :: "handle \<Rightarrow> read_builder \<Rightarrow> read_builder" where
  "rb_with_raw_handle h b = b\<lparr>rb_handle := Some (RawHandle h)\<rparr>"
definition rb_with_registered_handle_index :: "u32 \<Rightarrow> read_builder \<Rightarrow> read_builder" where
  "rb_with_registered_handle_index i b = b\<lparr>rb_handle := Some (RegisteredHandle i)\<rparr>"
definition rb_with_raw_data_address :: "usize \<Rightarrow> read_builder \<Rightarrow> read_builder" where
  "rb_with_raw_data_address a b = b\<lparr>rb_data := Some (RawBuffer a)\<rparr>"
definition rb_with_registered_data :: "u32 \<Rightarrow> u32 \<Rightarrow> read_builder \<Rightarrow> read_builder" where
  "rb_with_registered_data i off b = b\<lparr>rb_data := Some (RegisteredBuffer i off)\<rparr>"
definition rb_with_num :: "u32 \<Rightarrow> read_builder \<Rightarrow> read_builder" where
  "rb_with_num n b = b\<lparr>rb_num := Some n\<rparr>"
definition rb_with_offset :: "u64 \<Rightarrow> read_builder \<Rightarrow> read_builder" where
  "rb_with_offset off b = b\<lparr>rb_offset := Some off\<rparr>"
definition rb_with_user_data :: "usize \<Rightarrow> read_builder \<Rightarrow> read_builder" where
  "rb_with_user_data u b = b\<lparr>rb_user := Some u\<rparr>"
definition rb_with_sqe_flags :: "sqe_flags \<Rightarrow> read_builder \<Rightarrow> read_builder" where
  "rb_with_sqe_flags f b = b\<lparr>rb_flags := Some f\<rparr>"

definition rb_build :: "read_builder \<Rightarrow> missing_field + read_op" where
  "rb_build b =
     (case ok_or (rb_handle b) (MissingField ''handle'') of
        Inl e \<Rightarrow> Inl e
      | Inr h \<Rightarrow>
          (case ok_or (rb_data b) (MissingField ''data'') of
             Inl e \<Rightarrow> Inl e
           | Inr d \<Rightarrow> Inr \<lparr>rd_handle = handle_to_platform h, rd_data = buffer_to_platform d,
               rd_num = unwrap_or (rb_num b) 0, rd_offset = unwrap_or (rb_offset b) 0,
               rd_userdata = unwrap_or (rb_user b) 0,
               rd_flags = sqe_to_platform (unwrap_or (rb_flags b) SQE_NONE)\<rparr>))"

section \<open>Writes\<close>

type_synonym write_flags = u32

record write_op =
  wr_handle :: plat_handle_ref
  wr_data :: plat_buffer_ref
  wr_num :: u32
  wr_offset :: u64
  wr_write_flags :: write_flags
  wr_userdata :: usize
  wr_flags :: u32

record write_builder =
  wb_handle :: "handle_ref option"
  wb_data :: "buffer_ref option"
  wb_num :: "u32 option"
  wb_offset :: "u64 option"
  wb_write_flags :: "write_flags option"
  wb_user :: "usize option"
  wb_flags :: "sqe_flags option"

definition FILE_WRITE_FLAGS_NONE :: write_flags where "FILE_WRITE_FLAGS_NONE = 0"

definition write_builder_new :: write_builder where
  "write_builder_new = \<lparr>wb_handle = None, wb_data = None, wb_num = None, wb_offset = None,
     wb_write_flags = None, wb_user = None, wb_flags = None\<rparr>"

definition wb_with_raw_handle :: "handle \<Rightarrow> write_builder \<Rightarrow> write_builder" where
  "wb_with_raw_handle h b = b\<lparr>wb_handle := Some (RawHandle h)\<rparr>"
definition wb_with_registered_handle_index :: "u32 \<Rightarrow> write_builder \<Rightarrow> write_builder" where
  "wb_with_registered_handle_index i b = b\<lparr>wb_handle := Some (RegisteredHandle i)\<rparr>"
definition wb_with_raw_data_address :: "usize \<Rightarrow> write_builder \<Rightarrow> write_builder" where
  "wb_with_raw_data_address a b = b\<lparr>wb_data := Some (RawBuffer a)\<rparr>"
definition wb_with_registered_data :: "u32 \<Rightarrow> u32 \<Rightarrow> write_builder \<Rightarrow> write_builder" where
  "wb_with_registered_data i off b = b\<lparr>wb_data := Some (RegisteredBuffer i off)\<rparr>"
definition wb_with_num :: "u32 \<Rightarrow> write_builder \<Rightarrow> write_builder" where
  "wb_with_num n b = b\<lparr>wb_num := Some n\<rparr>"
definition wb_with_offset :: "u64 \<Rightarrow> write_builder \<Rightarrow> write_builder" where
  "wb_with_offset off b = b\<lparr>wb_offset := Some off\<rparr>"
definition wb_with_write_flags :: "write_flags \<Rightarrow> write_builder \<Rightarrow> write_builder" where
  "wb_with_write_flags f b = b\<lparr>wb_write_flags := Some f\<rparr>"
definition wb_with_user_data :: "usize \<Rightarrow> write_builder \<Rightarrow> write_builder" where
  "wb_with_user_data u b = b\<lparr>wb_user := Some u\<rparr>"
definition wb_with_sqe_flags :: "sqe_flags \<Rightarrow> write_builder \<Rightarrow> write_builder" where
  "wb_with_sqe_flags f b = b\<lparr>wb_flags := Some f\<rparr>"

definition wb_build :: "write_builder \<Rightarrow> missing_field + write_op" where
  "wb_build b =
     (case ok_or (wb_handle b) (MissingField ''handle'') of
        Inl e \<Rightarrow> Inl e
      | Inr h \<Rightarrow>
          (case ok_or (wb_data b) (MissingField ''data'') of
             Inl e \<Rightarrow> Inl e
           | Inr d \<Rightarrow> Inr \<lparr>wr_handle = handle_to_platform h, wr_data = buffer_to_platform d,
               wr_num = unwrap_or (wb_num b) 0, wr_offset = unwrap_or (wb_offset b) 0,
               wr_write_flags = unwrap_or (wb_write_flags b) FILE_WRITE_FLAGS_NONE,
               wr_userdata = unwrap_or (wb_user b) 0,
               wr_flags = sqe_to_platform (unwrap_or (wb_flags b) SQE_NONE)\<rparr>))"

section \<open>Flushes\<close>

type_synonym flush_mode = u32

record flush_op =
  fl_handle :: plat_handle_ref
  fl_mode :: flush_mode
  fl_userdata :: usize
  fl_flags :: u32

record flush_builder =
  fb_handle :: "handle_ref option"
  fb_mode :: "flush_mode option"
  fb_user :: "usize option"
  fb_flags :: "sqe_flags option"

definition flush_builder_new :: flush_builder where
  "flush_builder_new = \<lparr>fb_handle = None, fb_mode = None, fb_user = None, fb_flags = None\<rparr>"

definition fb_with_raw_handle :: "handle \<Rightarrow> flush_builder \<Rightarrow> flush_builder" where
  "fb_with_raw_handle h b = b\<lparr>fb_handle := Some (RawHandle h)\<rparr>"
definition fb_with_registered_handle_index :: "u32 \<Rightarrow> flush_builder \<Rightarrow> flush_builder" where
  "fb_with_registered_handle_index i b = b\<lparr>fb_handle := Some (RegisteredHandle i)\<rparr>"
definition fb_with_flush_mode :: "flush_mode \<Rightarrow> flush_builder \<Rightarrow> flush_builder" where
  "fb_with_flush_mode m b = b\<lparr>fb_mode := Some m\<rparr>"
definition fb_with_user_data :: "usize \<Rightarrow> flush_builder \<Rightarrow> flush_builder" where
  "fb_with_user_data u b = b\<lparr>fb_user := Some u\<rparr>"
definition fb_with_sqe_flags :: "sqe_flags \<Rightarrow> flush_builder \<Rightarrow> flush_builder" where
  "fb_with_sqe_flags f b = b\<lparr>fb_flags := Some f\<rparr>"

definition fb_build :: "flush_builder \<Rightarrow> missing_field + flush_op" where
  "fb_build b =
     (case ok_or (fb_handle b) (MissingField ''handle'') of
        Inl e \<Rightarrow> Inl e
      | Inr h \<Rightarrow> Inr \<lparr>fl_handle = handle_to_platform h, fl_mode = unwrap_or (fb_mode b) 0,
          fl_userdata = unwrap_or (fb_user b) 0,
          fl_flags = sqe_to_platform (unwrap_or (fb_flags b) SQE_NONE)\<rparr>)"

section \<open>Cancellations\<close>

record cancel_op =
  ca_handle :: plat_handle_ref
  ca_target :: usize
  ca_userdata :: usize

record cancel_builder =
  cb_handle :: "handle_ref option"
  cb_target :: "usize option"
  cb_user :: "usize option"

definition cancel_builder_new :: cancel_builder where
  "cancel_builder_new = \<lparr>cb_handle = None, cb_target = None, cb_user = None\<rparr>"

definition cb_with_raw_handle :: "handle \<Rightarrow> cancel_builder \<Rightarrow> cancel_builder" where
  "cb_with_raw_handle h b = b\<lparr>cb_handle := Some (RawHandle h)\<rparr>"
definition cb_with_registered_handle_index :: "u32 \<Rightarrow> cancel_builder \<Rightarrow> cancel_builder" where
  "cb_with_registered_handle_index i b = b\<lparr>cb_handle := Some (RegisteredHandle i)\<rparr>"
definition cb_with_op_to_cancel :: "usize \<Rightarrow> cancel_builder \<Rightarrow> cancel_builder" where
  "cb_with_op_to_cancel u b = b\<lparr>cb_target := Some u\<rparr>"
definition cb_with_user_data :: "usize \<Rightarrow> cancel_builder \<Rightarrow> cancel_builder" where
  "cb_with_user_data u b = b\<lparr>cb_user := Some u\<rparr>"

definition cb_build :: "cancel_builder \<Rightarrow> missing_field + cancel_op" where
  "cb_build b =
     (case ok_or (cb_handle b) (MissingField ''handle'') of
        Inl e \<Rightarrow> Inl e
      | Inr h \<Rightarrow>
          (case ok_or (cb_target b) (MissingField ''op_to_cancel'') of
             Inl e \<Rightarrow> Inl e
           | Inr target \<Rightarrow> Inr \<lparr>ca_handle = handle_to_platform h, ca_target = target,
               ca_userdata = unwrap_or (cb_user b) 0\<rparr>))"

section \<open>Registrations\<close>

record buffer_info =
  bi_address :: usize
  bi_length :: u32

record register_buffers_op =
  rg_buffers :: "buffer_info list"
  rg_buffers_user :: usize

record register_files_op =
  rg_handles :: "handle list"
  rg_files_user :: usize

definition register_buffers_new :: "buffer_info list \<Rightarrow> usize \<Rightarrow> register_buffers_op" where
  "register_buffers_new bs u = \<lparr>rg_buffers = bs, rg_buffers_user = u\<rparr>"

definition register_files_new :: "handle list \<Rightarrow> usize \<Rightarrow> register_files_op" where
  "register_files_new hs u = \<lparr>rg_handles = hs, rg_files_user = u\<rparr>"

section \<open>What the builders produce\<close>

text \<open>
  A builder call sets one field, so the calls made on one field are read off the last of them
  and the calls on different fields commute. A list of settings is applied from the left.
\<close>

datatype read_setting =
    RSetRawHandle handle | RSetRegHandle u32 | RSetRawData usize | RSetRegData u32 u32
  | RSetNum u32 | RSetOffset u64 | RSetUser usize | RSetFlags sqe_flags

fun rb_set :: "read_setting \<Rightarrow> read_builder \<Rightarrow> read_builder" where
  "rb_set (RSetRawHandle h) = rb_with_raw_handle h"
| "rb_set (RSetRegHandle i) = rb_with_registered_handle_index i"
| "rb_set (RSetRawData a) = rb_with_raw_data_address a"
| "rb_set (RSetRegData i off) = rb_with_registered_data i off"
| "rb_set (RSetNum n) = rb_with_num n"
| "rb_set (RSetOffset off) = rb_with_offset off"
| "rb_set (RSetUser u) = rb_with_user_data u"
| "rb_set (RSetFlags f) = rb_with_sqe_flags f"

text \<open>The last value a setting gives to a field, if any does.\<close>

definition last_set :: "('s \<Rightarrow> 'a option) \<Rightarrow> 's list \<Rightarrow> 'a option" where
  "last_set f ss = fold (\<lambda>x acc. case f x of None \<Rightarrow> acc | Some v \<Rightarrow> Some v) ss None"

lemma last_set_snoc [simp]:
  "last_set f (ss @ [x]) = (case f x of None \<Rightarrow> last_set f ss | Some v \<Rightarrow> Some v)"
  unfolding last_set_def by simp

lemma last_set_Nil [simp]: "last_set f [] = None"
  by (simp add: last_set_def)

fun rset_handle :: "read_setting \<Rightarrow> handle_ref option" where
  "rset_handle (RSetRawHandle h) = Some (RawHandle h)"
| "rset_handle (RSetRegHandle i) = Some (RegisteredHandle i)"
| "rset_handle _ = None"

fun rset_data :: "read_setting \<Rightarrow> buffer_ref option" where
  "rset_data (RSetRawData a) = Some (RawBuffer a)"
| "rset_data (RSetRegData i off) = Some (RegisteredBuffer i off)"
| "rset_data _ = None"

definition rset_num :: "read_setting \<Rightarrow> u32 option" where
  "rset_num x = (case x of RSetNum n \<Rightarrow> Some n | _ \<Rightarrow> None)"
definition rset_offset :: "read_setting \<Rightarrow> u64 option" where
  "rset_offset x = (case x of RSetOffset n \<Rightarrow> Some n | _ \<Rightarrow> None)"
definition rset_user :: "read_setting \<Rightarrow> usize option" where
  "rset_user x = (case x of RSetUser n \<Rightarrow> Some n | _ \<Rightarrow> None)"
definition rset_flags :: "read_setting \<Rightarrow> sqe_flags option" where
  "rset_flags x = (case x of RSetFlags n \<Rightarrow> Some n | _ \<Rightarrow> None)"

lemmas rb_with_defs = rb_with_raw_handle_def rb_with_registered_handle_index_def
  rb_with_raw_data_address_def rb_with_registered_data_def rb_with_num_def rb_with_offset_def
  rb_with_user_data_def rb_with_sqe_flags_def

lemmas rset_defs = rset_num_def rset_offset_def rset_user_def rset_flags_def

lemma rb_fold_settings:
  "fold rb_set ss read_builder_new =
    \<lparr>rb_handle = last_set rset_handle ss, rb_data = last_set rset_data ss,
     rb_num = last_set rset_num ss, rb_offset = last_set rset_offset ss,
     rb_user = last_set rset_user ss, rb_flags = last_set rset_flags ss\<rparr>"
proof (induction ss rule: rev_induct)
  case (snoc x ss)
  then show ?case
    by (cases x) (simp_all add: rb_with_defs rset_defs)
qed (simp add: read_builder_new_def)

text \<open>
  A read builder fails in one way only, with the first required field that no call set
  (the handle before the data), and otherwise every field of the operation is the value of
  the last call that set it, or zero; the order of calls on different fields is irrelevant.
\<close>

theorem read_builder_last_wins:
  "rb_build (fold rb_set ss read_builder_new) =
    (case (last_set rset_handle ss, last_set rset_data ss) of
       (None, _) \<Rightarrow> Inl (MissingField ''handle'')
     | (Some h, None) \<Rightarrow> Inl (MissingField ''data'')
     | (Some h, Some d) \<Rightarrow> Inr
         \<lparr>rd_handle = handle_to_platform h, rd_data = buffer_to_platform d,
          rd_num = unwrap_or (last_set rset_num ss) 0,
          rd_offset = unwrap_or (last_set rset_offset ss) 0,
          rd_userdata = unwrap_or (last_set rset_user ss) 0,
          rd_flags = unwrap_or (last_set rset_flags ss) 0\<rparr>)"
  by (simp add: rb_fold_settings rb_build_def ok_or_def sqe_to_platform_def SQE_NONE_def
      split: option.split)

end
