(* ===== verification/Io_Ring.thy ===== *)
theory Io_Ring
  imports Ring_Ops
begin

text \<open>
  The raw ring (\<open>io_ring/api.rs\<close>).

  The platform's IoRing entry points are the parameter \<open>platform\<close>: a record of functions
  on a kernel state \<open>'k\<close>, which the model never looks into. Each method checks that the
  ring is open, calls one entry point and converts its result. A \<open>Result\<close> is a sum whose
  left side is the error.
\<close>

section \<open>The platform\<close>

record capabilities =
  max_version :: i32
  max_submission_queue_size :: u32
  max_completion_queue_size :: u32
  feature_flags :: i32

record ring_info =
  ri_version :: i32
  ri_flags :: "i32 \<times> i32"
  ri_submission_queue_size :: u32
  ri_completion_queue_size :: u32

record cqe =
  cqe_user_data :: usize
  cqe_result :: hresult
  cqe_information :: usize

text \<open>
  One field per imported entry point. A status with an out parameter is \<open>win_error + value\<close>;
  \<open>SubmitIoRing\<close> also reports how many entries it accepted when it fails, which the crate
  discards, and \<open>PopIoRingCompletion\<close> returns its \<open>HRESULT\<close> unclassified.
\<close>

record 'k platform =
  QueryIoRingCapabilities :: "'k \<Rightarrow> (win_error + capabilities) \<times> 'k"
  CreateIoRing :: "i32 \<Rightarrow> i32 \<times> i32 \<Rightarrow> u32 \<Rightarrow> u32 \<Rightarrow> 'k \<Rightarrow> (win_error + handle) \<times> 'k"
  GetIoRingInfo :: "handle \<Rightarrow> 'k \<Rightarrow> (win_error + ring_info) \<times> 'k"
  IsIoRingOpSupported :: "handle \<Rightarrow> i32 \<Rightarrow> 'k \<Rightarrow> bool"
  SetIoRingCompletionEvent :: "handle \<Rightarrow> handle \<Rightarrow> 'k \<Rightarrow> (win_error + unit) \<times> 'k"
  BuildIoRingReadFile :: "handle \<Rightarrow> plat_handle_ref \<Rightarrow> plat_buffer_ref \<Rightarrow> u32 \<Rightarrow> u64 \<Rightarrow> usize \<Rightarrow> u32 \<Rightarrow> 'k
    \<Rightarrow> (win_error + unit) \<times> 'k"
  BuildIoRingWriteFile :: "handle \<Rightarrow> plat_handle_ref \<Rightarrow> plat_buffer_ref \<Rightarrow> u32 \<Rightarrow> u64 \<Rightarrow> u32 \<Rightarrow> usize \<Rightarrow> u32
    \<Rightarrow> 'k \<Rightarrow> (win_error + unit) \<times> 'k"
  BuildIoRingFlushFile :: "handle \<Rightarrow> plat_handle_ref \<Rightarrow> u32 \<Rightarrow> usize \<Rightarrow> u32 \<Rightarrow> 'k \<Rightarrow> (win_error + unit) \<times> 'k"
  BuildIoRingCancelRequest :: "handle \<Rightarrow> plat_handle_ref \<Rightarrow> usize \<Rightarrow> usize \<Rightarrow> 'k \<Rightarrow> (win_error + unit) \<times> 'k"
  BuildIoRingRegisterFileHandles :: "handle \<Rightarrow> handle list \<Rightarrow> usize \<Rightarrow> 'k \<Rightarrow> (win_error + unit) \<times> 'k"
  BuildIoRingRegisterBuffers :: "handle \<Rightarrow> buffer_info list \<Rightarrow> usize \<Rightarrow> 'k \<Rightarrow> (win_error + unit) \<times> 'k"
  SubmitIoRing :: "handle \<Rightarrow> u32 \<Rightarrow> u32 \<Rightarrow> 'k \<Rightarrow> (win_error + u32) \<times> 'k"
  PopIoRingCompletion :: "handle \<Rightarrow> 'k \<Rightarrow> (hresult \<times> cqe) \<times> 'k"
  CloseIoRing :: "handle \<Rightarrow> 'k \<Rightarrow> (win_error + unit) \<times> 'k"

definition S_OK :: hresult where "S_OK = 0"
definition S_FALSE :: hresult where "S_FALSE = 1"
definition IORING_FEATURE_SET_COMPLETION_EVENT :: i32 where
  "IORING_FEATURE_SET_COMPLETION_EVENT = 2"

text \<open>\<open>?\<close> and \<open>map_err\<close> on the result of an entry point.\<close>

definition map_err :: "('e \<Rightarrow> 'f) \<Rightarrow> ('e + 'a) \<Rightarrow> 'f + 'a" where
  "map_err f r = map_sum f id r"

lemma map_err_simps [simp]:
  "map_err f (Inl e) = Inl (f e)" "map_err f (Inr v) = Inr v"
  by (simp_all add: map_err_def)

lemma map_err_Inr_iff [simp]: "map_err f r = Inr v \<longleftrightarrow> r = Inr v"
  by (cases r) simp_all

section \<open>Rings and their builder\<close>

record io_ring =
  ring_handle :: handle
  ring_closed :: bool

record ring_builder =
  bu_submission_queue_size :: "u32 option"
  bu_completion_queue_size :: "u32 option"
  bu_version :: "i32 option"
  bu_required_features :: i32

definition supports_features :: "capabilities \<Rightarrow> i32 \<Rightarrow> bool" where
  "supports_features c required \<longleftrightarrow> and (feature_flags c) required = required"

definition ring_builder_new :: ring_builder where
  "ring_builder_new = \<lparr>bu_submission_queue_size = None, bu_completion_queue_size = None,
     bu_version = None, bu_required_features = IORING_FEATURE_SET_COMPLETION_EVENT\<rparr>"

definition bu_with_submission_queue_size :: "u32 \<Rightarrow> ring_builder \<Rightarrow> ring_builder" where
  "bu_with_submission_queue_size n b = b\<lparr>bu_submission_queue_size := Some n\<rparr>"
definition bu_with_completion_queue_size :: "u32 \<Rightarrow> ring_builder \<Rightarrow> ring_builder" where
  "bu_with_completion_queue_size n b = b\<lparr>bu_completion_queue_size := Some n\<rparr>"
definition bu_with_version :: "i32 \<Rightarrow> ring_builder \<Rightarrow> ring_builder" where
  "bu_with_version v b = b\<lparr>bu_version := Some v\<rparr>"
definition bu_with_required_features :: "i32 \<Rightarrow> ring_builder \<Rightarrow> ring_builder" where
  "bu_with_required_features f b = b\<lparr>bu_required_features := f\<rparr>"

definition query_io_ring_capabilities :: "'k platform \<Rightarrow> 'k \<Rightarrow> (build_error + capabilities) \<times> 'k" where
  "query_io_ring_capabilities P k =
     (let (r, k') = QueryIoRingCapabilities P k in (map_err from_create_failure r, k'))"

definition ring_create :: "'k platform \<Rightarrow> i32 \<Rightarrow> u32 \<Rightarrow> u32 \<Rightarrow> 'k \<Rightarrow> (build_error + io_ring) \<times> 'k" where
  "ring_create P version sq cq k =
     (let (r, k') = CreateIoRing P version (0, 0) sq cq k
      in (case map_err from_create_failure r of
            Inl e \<Rightarrow> Inl e
          | Inr h \<Rightarrow> Inr \<lparr>ring_handle = h, ring_closed = False\<rparr>, k'))"

text \<open>The versions are compared as signed integers.\<close>

definition ring_build :: "'k platform \<Rightarrow> ring_builder \<Rightarrow> 'k \<Rightarrow> (build_error + io_ring) \<times> 'k" where
  "ring_build P b k =
     (let sq = unwrap_or (bu_submission_queue_size b) 20;
          cq = unwrap_or (bu_completion_queue_size b) 20
      in case query_io_ring_capabilities P k of
           (Inl e, k') \<Rightarrow> (Inl e, k')
         | (Inr caps, k') \<Rightarrow>
             if \<not> supports_features caps (bu_required_features b)
             then (Inl (UnsupportedFeature (bu_required_features b) (feature_flags caps)), k')
             else
               (case bu_version b of
                  Some v \<Rightarrow>
                    if sint v > sint (max_version caps)
                    then (Inl (unsupported_version v (max_version caps)), k')
                    else ring_create P v sq cq k'
                | None \<Rightarrow> ring_create P (max_version caps) sq cq k'))"

definition from_raw_parts :: "usize \<Rightarrow> u32 \<Rightarrow> buffer_info" where
  "from_raw_parts address len = \<lparr>bi_address = address, bi_length = len\<rparr>"

text \<open>\<open>raw_from_vec\<close> casts the length to 32 bits.\<close>

definition raw_from_vec :: "usize \<Rightarrow> usize \<Rightarrow> buffer_info" where
  "raw_from_vec address len = from_raw_parts address (ucast len)"

section \<open>Methods of an open ring\<close>

definition ensure_open :: "io_ring \<Rightarrow> ring_error + unit" where
  "ensure_open r = (if ring_closed r then Inl RingClosed else Inr ())"

text \<open>The shape of most methods: the guard, one entry point, the conversion of its error.\<close>

definition guarded :: "io_ring \<Rightarrow> ('k \<Rightarrow> (win_error + 'a) \<times> 'k) \<Rightarrow> 'k \<Rightarrow> (ring_error + 'a) \<times> 'k" where
  "guarded r call k =
     (case ensure_open r of
        Inl e \<Rightarrow> (Inl e, k)
      | Inr _ \<Rightarrow> (let (res, k') = call k in (map_err ring_from_win res, k')))"

definition ring_get_info :: "'k platform \<Rightarrow> io_ring \<Rightarrow> 'k \<Rightarrow> (ring_error + ring_info) \<times> 'k" where
  "ring_get_info P r = guarded r (GetIoRingInfo P (ring_handle r))"

definition is_op_supported :: "'k platform \<Rightarrow> io_ring \<Rightarrow> i32 \<Rightarrow> 'k \<Rightarrow> bool" where
  "is_op_supported P r op k = (if ring_closed r then False else IsIoRingOpSupported P (ring_handle r) op k)"

definition ensure_op_supported :: "'k platform \<Rightarrow> io_ring \<Rightarrow> i32 \<Rightarrow> 'k \<Rightarrow> ring_error + unit" where
  "ensure_op_supported P r op k = (if is_op_supported P r op k then Inr () else Inl (UnsupportedOp op))"

definition set_io_ring_completion_event ::
    "'k platform \<Rightarrow> io_ring \<Rightarrow> handle \<Rightarrow> 'k \<Rightarrow> (ring_error + unit) \<times> 'k" where
  "set_io_ring_completion_event P r h = guarded r (SetIoRingCompletionEvent P (ring_handle r) h)"

definition build_read_file :: "'k platform \<Rightarrow> io_ring \<Rightarrow> read_op \<Rightarrow> 'k \<Rightarrow> (ring_error + unit) \<times> 'k" where
  "build_read_file P r op = guarded r (BuildIoRingReadFile P (ring_handle r)
     (rd_handle op) (rd_data op) (rd_num op) (rd_offset op) (rd_userdata op) (rd_flags op))"

definition build_write_file :: "'k platform \<Rightarrow> io_ring \<Rightarrow> write_op \<Rightarrow> 'k \<Rightarrow> (ring_error + unit) \<times> 'k" where
  "build_write_file P r op = guarded r (BuildIoRingWriteFile P (ring_handle r)
     (wr_handle op) (wr_data op) (wr_num op) (wr_offset op) (wr_write_flags op) (wr_userdata op)
     (wr_flags op))"

definition build_flush_file :: "'k platform \<Rightarrow> io_ring \<Rightarrow> flush_op \<Rightarrow> 'k \<Rightarrow> (ring_error + unit) \<times> 'k" where
  "build_flush_file P r op = guarded r (BuildIoRingFlushFile P (ring_handle r)
     (fl_handle op) (fl_mode op) (fl_userdata op) (fl_flags op))"

definition build_cancel_request :: "'k platform \<Rightarrow> io_ring \<Rightarrow> cancel_op \<Rightarrow> 'k \<Rightarrow> (ring_error + unit) \<times> 'k" where
  "build_cancel_request P r op = guarded r (BuildIoRingCancelRequest P (ring_handle r)
     (ca_handle op) (ca_target op) (ca_userdata op))"

definition build_register_file_handles ::
    "'k platform \<Rightarrow> io_ring \<Rightarrow> handle list \<Rightarrow> usize \<Rightarrow> 'k \<Rightarrow> (ring_error + unit) \<times> 'k" where
  "build_register_file_handles P r hs u =
     guarded r (BuildIoRingRegisterFileHandles P (ring_handle r) hs u)"

definition build_register_buffers ::
    "'k platform \<Rightarrow> io_ring \<Rightarrow> buffer_info list \<Rightarrow> usize \<Rightarrow> 'k \<Rightarrow> (ring_error + unit) \<times> 'k" where
  "build_register_buffers P r bs u = guarded r (BuildIoRingRegisterBuffers P (ring_handle r) bs u)"

definition build_register_files ::
    "'k platform \<Rightarrow> io_ring \<Rightarrow> register_files_op \<Rightarrow> 'k \<Rightarrow> (ring_error + unit) \<times> 'k" where
  "build_register_files P r op = build_register_file_handles P r (rg_handles op) (rg_files_user op)"

definition build_register_buffers_op ::
    "'k platform \<Rightarrow> io_ring \<Rightarrow> register_buffers_op \<Rightarrow> 'k \<Rightarrow> (ring_error + unit) \<times> 'k" where
  "build_register_buffers_op P r op = build_register_buffers P r (rg_buffers op) (rg_buffers_user op)"

text \<open>The two arguments are cast to 32 bits.\<close>

definition ring_submit :: "'k platform \<Rightarrow> io_ring \<Rightarrow> usize \<Rightarrow> usize \<Rightarrow> 'k \<Rightarrow> (ring_error + u32) \<times> 'k" where
  "ring_submit P r wait_operations milliseconds =
     guarded r (SubmitIoRing P (ring_handle r) (ucast wait_operations) (ucast milliseconds))"

definition pop_completion :: "'k platform \<Rightarrow> io_ring \<Rightarrow> 'k \<Rightarrow> (ring_error + cqe option) \<times> 'k" where
  "pop_completion P r k =
     (case ensure_open r of
        Inl e \<Rightarrow> (Inl e, k)
      | Inr _ \<Rightarrow>
          (let ((hr, out), k') = PopIoRingCompletion P (ring_handle r) k
           in (if hr = S_OK then Inr (Some out)
               else if hr = S_FALSE then Inr None
               else Inl (RingOther (WinError hr)), k')))"

definition ring_close :: "'k platform \<Rightarrow> io_ring \<Rightarrow> 'k \<Rightarrow> (ring_error + unit) \<times> io_ring \<times> 'k" where
  "ring_close P r k =
     (if ring_closed r then (Inr (), r, k)
      else case CloseIoRing P (ring_handle r) k of
             (Inl e, k') \<Rightarrow> (Inl (ring_from_win e), r, k')
           | (Inr _, k') \<Rightarrow> (Inr (), r\<lparr>ring_closed := True\<rparr>, k'))"

definition ring_is_closed :: "io_ring \<Rightarrow> bool" where
  "ring_is_closed r = ring_closed r"

section \<open>A closed ring never reaches the platform\<close>

lemma guarded_closed: "ring_closed r \<Longrightarrow> guarded r call k = (Inl RingClosed, k)"
  by (simp add: guarded_def ensure_open_def)

lemma guarded_open:
  "\<not> ring_closed r \<Longrightarrow> guarded r call k = (case call k of (res, k') \<Rightarrow> (map_err ring_from_win res, k'))"
  by (simp add: guarded_def ensure_open_def)

lemmas ring_method_defs = ring_get_info_def set_io_ring_completion_event_def build_read_file_def
  build_write_file_def build_flush_file_def build_cancel_request_def
  build_register_file_handles_def build_register_buffers_def build_register_files_def
  build_register_buffers_op_def ring_submit_def

text \<open>
  Closing is final and idempotent. Once \<open>close\<close> has succeeded, every later method of
  the ring returns the closed error (or reports the operation unsupported) without calling the
  platform: the kernel state is untouched, for any platform. A second \<open>close\<close> succeeds
  and does nothing, so the handle is closed at most once; a \<open>close\<close> that the platform
  refuses leaves the ring open, with its handle, so that it can be retried.
\<close>

theorem closed_ring_is_inert:
  assumes "ring_close P r k = (res, r', k')"
  shows "(res = Inr () \<longrightarrow>
      ring_get_info P r' k2 = (Inl RingClosed, k2) \<and>
      set_io_ring_completion_event P r' h k2 = (Inl RingClosed, k2) \<and>
      build_read_file P r' rop k2 = (Inl RingClosed, k2) \<and>
      build_write_file P r' wop k2 = (Inl RingClosed, k2) \<and>
      build_flush_file P r' fop k2 = (Inl RingClosed, k2) \<and>
      build_cancel_request P r' cop k2 = (Inl RingClosed, k2) \<and>
      build_register_files P r' rf k2 = (Inl RingClosed, k2) \<and>
      build_register_buffers_op P r' rbs k2 = (Inl RingClosed, k2) \<and>
      ring_submit P r' w ms k2 = (Inl RingClosed, k2) \<and>
      pop_completion P r' k2 = (Inl RingClosed, k2) \<and>
      ensure_op_supported P r' oc k2 = Inl (UnsupportedOp oc) \<and>
      ring_close P r' k2 = (Inr (), r', k2)) \<and>
    (res \<noteq> Inr () \<longrightarrow> r' = r \<and> \<not> ring_closed r) \<and> ring_handle r' = ring_handle r"
proof -
  from assms have r': "res = Inr () \<Longrightarrow> ring_closed r'" "res \<noteq> Inr () \<Longrightarrow> r' = r \<and> \<not> ring_closed r"
    "ring_handle r' = ring_handle r"
    by (auto simp: ring_close_def split: if_splits prod.splits sum.splits)
  then show ?thesis
    by (simp add: ring_method_defs guarded_closed pop_completion_def ensure_open_def
        ensure_op_supported_def is_op_supported_def ring_close_def)
qed

text \<open>A platform on a counter, which counts the calls it receives.\<close>

definition counting_platform :: "nat platform" where
  "counting_platform = \<lparr>
     QueryIoRingCapabilities = \<lambda>k. (Inr \<lparr>max_version = 3, max_submission_queue_size = 65536,
       max_completion_queue_size = 131072, feature_flags = 2\<rparr>, k + 1),
     CreateIoRing = \<lambda>v f s c k. (Inr 77, k + 1),
     GetIoRingInfo = \<lambda>h k. (Inr \<lparr>ri_version = 3, ri_flags = (0, 0), ri_submission_queue_size = 32,
       ri_completion_queue_size = 64\<rparr>, k + 1),
     IsIoRingOpSupported = \<lambda>h op k. True,
     SetIoRingCompletionEvent = \<lambda>h e k. (Inr (), k + 1),
     BuildIoRingReadFile = \<lambda>h fr dr n off u fl k. (Inr (), k + 1),
     BuildIoRingWriteFile = \<lambda>h fr dr n off wf u fl k. (Inr (), k + 1),
     BuildIoRingFlushFile = \<lambda>h fr m u fl k. (Inr (), k + 1),
     BuildIoRingCancelRequest = \<lambda>h fr t u k. (Inr (), k + 1),
     BuildIoRingRegisterFileHandles = \<lambda>h hs u k. (Inr (), k + 1),
     BuildIoRingRegisterBuffers = \<lambda>h bs u k. (Inr (), k + 1),
     SubmitIoRing = \<lambda>h w ms k. (Inr 0, k + 1),
     PopIoRingCompletion = \<lambda>h k. ((S_FALSE, \<lparr>cqe_user_data = 0, cqe_result = 0, cqe_information = 0\<rparr>), k + 1),
     CloseIoRing = \<lambda>h k. (Inr (), k + 1)\<rparr>"

theorem closed_ring_is_inert_witness:
  "pop_completion counting_platform \<lparr>ring_handle = 77, ring_closed = True\<rparr> 1 = (Inl RingClosed, 1)"
proof -
  have "ring_close counting_platform \<lparr>ring_handle = 77, ring_closed = False\<rparr> 0
      = (Inr (), \<lparr>ring_handle = 77, ring_closed = True\<rparr>, 1)"
    by (simp add: ring_close_def counting_platform_def)
  from closed_ring_is_inert [OF this] show ?thesis by simp
qed

lemma ring_create_eq:
  "ring_create P v sq cq k = (case CreateIoRing P v (0, 0) sq cq k of
      (Inl e, k') \<Rightarrow> (Inl (if win_code e = E_NOTIMPL then Unsupported else BuildOther e), k')
    | (Inr h, k') \<Rightarrow> (Inr \<lparr>ring_handle = h, ring_closed = False\<rparr>, k'))"
  by (cases "CreateIoRing P v (0, 0) sq cq k"; cases "fst (CreateIoRing P v (0, 0) sq cq k)")
    (simp_all add: ring_create_def from_create_failure_def build_from_hresult_def)

text \<open>
  A ring is created only when the host has every required feature and its reported
  version ceiling is not exceeded, in the signed order; otherwise the error names what is
  missing, the feature check first, and the platform is not asked to create anything. The
  version requested is the caller's, or the ceiling, and the queue sizes default to 20.
\<close>

theorem ring_build_validates:
  assumes "QueryIoRingCapabilities P k = (Inr caps, k1)"
  shows "ring_build P b k =
    (if and (feature_flags caps) (bu_required_features b) \<noteq> bu_required_features b
     then (Inl (UnsupportedFeature (bu_required_features b) (feature_flags caps)), k1)
     else
       (let v = (case bu_version b of Some v \<Rightarrow> v | None \<Rightarrow> max_version caps) in
        if sint (max_version caps) < sint v then (Inl (UnsupportedVersion v (max_version caps)), k1)
        else (case CreateIoRing P v (0, 0) (unwrap_or (bu_submission_queue_size b) 20)
                     (unwrap_or (bu_completion_queue_size b) 20) k1 of
                (Inl e, k2) \<Rightarrow> (Inl (if win_code e = E_NOTIMPL then Unsupported else BuildOther e), k2)
              | (Inr h, k2) \<Rightarrow> (Inr \<lparr>ring_handle = h, ring_closed = False\<rparr>, k2))))"
  using assms
  by (cases "bu_version b")
    (simp_all add: ring_build_def query_io_ring_capabilities_def supports_features_def ring_create_eq
      unsupported_version_def Let_def)

theorem ring_build_validates_witness:
  "ring_build counting_platform (bu_with_version 4 ring_builder_new) 0 = (Inl (UnsupportedVersion 4 3), 1)"
  using ring_build_validates [of counting_platform 0 _ 1 "bu_with_version 4 ring_builder_new"]
  by (simp add: counting_platform_def ring_builder_new_def bu_with_version_def
      IORING_FEATURE_SET_COMPLETION_EVENT_def unsupported_version_def)

end
