(* ===== verification/Registry.thy ===== *)
theory Registry
  imports Buf Ring_Ops
begin

text \<open>
  Registered buffers (\<open>runtime/registry.rs\<close>), the part that does not consult the driver.

  A \<open>registry\<close> is a \<open>RegistryInner\<close>: the boxed buffers, their addresses, the
  descriptors, and one slot of bookkeeping per buffer. Handles name their registry by its
  cell in the heap, \<open>rid\<close>; a \<open>reg_buf\<close> is a \<open>RegisteredBuf\<close>. The bytes are in the
  shared memory.
\<close>

section \<open>Data\<close>

type_synonym rid = nat

record reg_slot =
  rs_extent :: usize
  rs_initialized :: usize
  rs_checked_out :: bool

record registry =
  rg_buffers_box :: "iobuf list"
  rg_pointers :: "usize list"
  rg_slots :: "reg_slot list"
  rg_descriptors :: "buffer_info list"

record reg_buf =
  rb_registry :: rid
  rb_index :: u32
  rb_ptr :: usize
  rb_extent :: usize
  rb_initialized :: usize

section \<open>The registration\<close>

definition new_reg_slot :: "usize \<times> usize \<Rightarrow> reg_slot" where
  "new_reg_slot p = \<lparr>rs_extent = fst p, rs_initialized = min (snd p) (fst p), rs_checked_out = False\<rparr>"

text \<open>\<open>None\<close> is a failed \<open>debug_assert_eq!\<close> on the lengths.\<close>

definition registry_new :: "iobuf list \<Rightarrow> usize list \<Rightarrow> usize list \<Rightarrow> usize list \<Rightarrow> buffer_info list
    \<Rightarrow> registry option" where
  "registry_new buffers pointers extents initialized descriptors =
     (if length buffers \<noteq> length pointers \<or> length buffers \<noteq> length extents \<or>
         length buffers \<noteq> length initialized then None
      else Some \<lparr>rg_buffers_box = buffers, rg_pointers = pointers,
             rg_slots = map new_reg_slot (zip extents initialized), rg_descriptors = descriptors\<rparr>)"

fun find_index :: "('a \<Rightarrow> bool) \<Rightarrow> 'a list \<Rightarrow> nat option" where
  "find_index P [] = None"
| "find_index P (x # xs) = (if P x then Some 0 else map_option Suc (find_index P xs))"

definition any_checked_out :: "registry \<Rightarrow> u32 option" where
  "any_checked_out r = map_option of_nat (find_index rs_checked_out (rg_slots r))"

definition registry_len :: "registry \<Rightarrow> nat" where
  "registry_len r = length (rg_pointers r)"

definition registry_extent :: "registry \<Rightarrow> u32 \<Rightarrow> usize option" where
  "registry_extent r index = map_option rs_extent (list_get (rg_slots r) (unat index))"

definition registry_initialized :: "registry \<Rightarrow> u32 \<Rightarrow> usize option" where
  "registry_initialized r index = map_option rs_initialized (list_get (rg_slots r) (unat index))"

definition raise_initialized :: "u32 \<Rightarrow> usize \<Rightarrow> usize \<Rightarrow> registry \<Rightarrow> registry" where
  "raise_initialized index start transferred r =
     (case list_get (rg_slots r) (unat index) of
        None \<Rightarrow> r
      | Some s \<Rightarrow>
          if start > rs_initialized s then r
          else
            let filled = min (saturating_add start transferred) (rs_extent s)
            in r\<lparr>rg_slots := (rg_slots r)[unat index := s\<lparr>rs_initialized := max (rs_initialized s) filled\<rparr>]\<rparr>)"

definition set_initialized :: "u32 \<Rightarrow> usize \<Rightarrow> registry \<Rightarrow> registry" where
  "set_initialized index n r =
     (case list_get (rg_slots r) (unat index) of
        None \<Rightarrow> r
      | Some s \<Rightarrow> r\<lparr>rg_slots := (rg_slots r)[unat index := s\<lparr>rs_initialized := min n (rs_extent s)\<rparr>]\<rparr>)"

text \<open>\<open>None\<close> is the out-of-range index of \<open>self.pointers[index]\<close>.\<close>

definition registry_claim :: "rid \<Rightarrow> u32 \<Rightarrow> registry \<Rightarrow> ((runtime_error + reg_buf) \<times> registry) option" where
  "registry_claim me index r =
     (case list_get (rg_slots r) (unat index) of
        None \<Rightarrow> Some (Inl (RtInvalidRegisteredIndex index), r)
      | Some s \<Rightarrow>
          if rs_checked_out s then Some (Inl (RtBufferCheckedOut index), r)
          else
            (let r' = r\<lparr>rg_slots := (rg_slots r)[unat index := s\<lparr>rs_checked_out := True\<rparr>]\<rparr>
             in case list_get (rg_pointers r) (unat index) of
                  None \<Rightarrow> None
                | Some p \<Rightarrow> Some (Inr \<lparr>rb_registry = me, rb_index = index, rb_ptr = p,
                     rb_extent = rs_extent s, rb_initialized = rs_initialized s\<rparr>, r')))"

definition registry_release :: "u32 \<Rightarrow> registry \<Rightarrow> registry" where
  "registry_release index r =
     (case list_get (rg_slots r) (unat index) of
        None \<Rightarrow> r
      | Some s \<Rightarrow> r\<lparr>rg_slots := (rg_slots r)[unat index := s\<lparr>rs_checked_out := False\<rparr>]\<rparr>)"

section \<open>A handle on one buffer\<close>

text \<open>\<open>Drop for RegisteredBuf\<close> releases the buffer.\<close>

definition reg_buf_drop :: "reg_buf \<Rightarrow> registry \<Rightarrow> registry" where
  "reg_buf_drop b r = registry_release (rb_index b) r"

definition reg_buf_refresh :: "registry \<Rightarrow> reg_buf \<Rightarrow> reg_buf" where
  "reg_buf_refresh r b =
     (case registry_initialized r (rb_index b) of
        Some n \<Rightarrow> b\<lparr>rb_initialized := n\<rparr>
      | None \<Rightarrow> b)"

text \<open>\<open>copy_nonoverlapping\<close> writes the bytes one after the other from the base address.\<close>

definition copy_to :: "u8 list \<Rightarrow> usize \<Rightarrow> memory \<Rightarrow> memory" where
  "copy_to src p mem =
     (\<lambda>a. let i = unat (a - p) in if i < length src then src ! i else mem a)"

definition reg_buf_fill :: "u8 list \<Rightarrow> reg_buf \<times> registry \<times> memory
    \<Rightarrow> (runtime_error + unit) \<times> reg_buf \<times> registry \<times> memory" where
  "reg_buf_fill src st =
     (case st of (b, r, mem) \<Rightarrow>
        if length src > unat (rb_extent b)
        then (Inl (RtBuf (TooSmall (of_nat (length src)) (rb_extent b))), b, r, mem)
        else
          (Inr (), b\<lparr>rb_initialized := of_nat (length src)\<rparr>,
           set_initialized (rb_index b) (of_nat (length src)) r,
           if src = [] then mem else copy_to src (rb_ptr b) mem))"

definition reg_buf_set_init :: "usize \<Rightarrow> reg_buf \<times> registry \<Rightarrow> reg_buf \<times> registry" where
  "reg_buf_set_init n st =
     (case st of (b, r) \<Rightarrow>
        let n' = min n (rb_extent b)
        in (b\<lparr>rb_initialized := n'\<rparr>, set_initialized (rb_index b) n' r))"

definition reg_buf_deref :: "memory \<Rightarrow> reg_buf \<Rightarrow> u8 list" where
  "reg_buf_deref mem b =
     (if rb_initialized b = 0 then []
      else map (\<lambda>i. mem (rb_ptr b + of_nat i)) [0..<unat (rb_initialized b)])"

section \<open>The invariant of a registration\<close>

definition registry_ok :: "registry \<Rightarrow> bool" where
  "registry_ok r \<longleftrightarrow> length (rg_slots r) = length (rg_pointers r) \<and>
     (\<forall>s \<in> set (rg_slots r). rs_initialized s \<le> rs_extent s)"

text \<open>All updates replace one slot.\<close>

lemma registry_ok_update:
  "\<lbrakk>registry_ok r; i < length (rg_slots r); rs_initialized s \<le> rs_extent s\<rbrakk>
    \<Longrightarrow> registry_ok (r\<lparr>rg_slots := (rg_slots r)[i := s]\<rparr>)"
  by (auto simp: registry_ok_def dest!: set_update_subset_insert [THEN subsetD])

lemma registry_ok_nth:
  "\<lbrakk>registry_ok r; i < length (rg_slots r)\<rbrakk> \<Longrightarrow> rs_initialized (rg_slots r ! i) \<le> rs_extent (rg_slots r ! i)"
  by (simp add: registry_ok_def)

lemma registry_new_ok [wf_intros]: "registry_new bs ps es is ds = Some r \<Longrightarrow> registry_ok r"
  by (auto simp: registry_new_def registry_ok_def new_reg_slot_def split: if_splits)

lemma raise_ok [wf_intros]: "registry_ok r \<Longrightarrow> registry_ok (raise_initialized i st n r)"
  by (auto simp: raise_initialized_def Let_def max_def dest: registry_ok_nth
      intro!: registry_ok_update split: option.splits)

lemma set_initialized_ok [wf_intros]: "registry_ok r \<Longrightarrow> registry_ok (set_initialized i n r)"
  by (auto simp: set_initialized_def intro!: registry_ok_update split: option.splits)

lemma release_ok [wf_intros]: "registry_ok r \<Longrightarrow> registry_ok (registry_release i r)"
  by (auto simp: registry_release_def dest: registry_ok_nth intro!: registry_ok_update split: option.splits)

lemma claim_ok [wf_intros]:
  "\<lbrakk>registry_ok r; registry_claim me i r = Some (res, r')\<rbrakk> \<Longrightarrow> registry_ok r'"
  by (auto simp: registry_claim_def Let_def dest: registry_ok_nth intro!: registry_ok_update
      split: option.splits if_splits)

lemma claim_no_panic: "registry_ok r \<Longrightarrow> registry_claim me i r \<noteq> None"
  by (auto simp: registry_claim_def registry_ok_def Let_def split: option.splits)

end
