(* ===== verification/Registry_Props.thy ===== *)
theory Registry_Props
  imports Registry
begin

text \<open>
  What a registration guarantees to the holders of its buffers.

  The locale \<open>exclusive_pool\<close> is the checkout contract alone: from it, at most one holder
  of each index exists along any run. The second part follows the initialized prefix: a byte
  the registry or a handle vouches for has been written.
\<close>

section \<open>Exclusive checkout\<close>

datatype 'c pool_event = PoolClaim u32 | PoolDrop nat | PoolOther 'c

text \<open>Dropping the \<open>n\<close>-th of the handles that exist.\<close>

definition remove_nth :: "nat \<Rightarrow> 'a list \<Rightarrow> 'a list" where
  "remove_nth n xs = take n xs @ drop (Suc n) xs"

lemma set_remove_nth: "\<lbrakk>distinct xs; n < length xs\<rbrakk> \<Longrightarrow> set (remove_nth n xs) = set xs - {xs ! n}"
proof -
  assume d: "distinct xs" and n: "n < length xs"
  have "xs = take n xs @ xs ! n # drop (Suc n) xs" using n by (rule id_take_nth_drop)
  with d have "xs ! n \<notin> set (take n xs)" "xs ! n \<notin> set (drop (Suc n) xs)"
    and s: "set xs = set (take n xs) \<union> {xs ! n} \<union> set (drop (Suc n) xs)"
    by (metis distinct.simps(2) distinct_append disjoint_iff list.set_intros(1),
        metis distinct.simps(2) distinct_append,
        metis Un_insert_right append.assoc list.simps(15) set_append sup_bot.right_neutral Un_insert_left)
  then show ?thesis by (auto simp: remove_nth_def)
qed

lemma distinct_remove_nth: "distinct xs \<Longrightarrow> distinct (remove_nth n xs)"
proof (cases "n < length xs")
  case True
  assume "distinct xs"
  then have "distinct (take n xs @ xs ! n # drop (Suc n) xs)"
    using id_take_nth_drop [OF True] by simp
  then show ?thesis by (auto simp: remove_nth_def)
qed (simp add: remove_nth_def)

lemma map_remove_nth: "map f (remove_nth n xs) = remove_nth n (map f xs)"
  by (simp add: remove_nth_def take_map drop_map)

lemma set_remove_nth_subset: "x \<in> set (remove_nth n xs) \<Longrightarrow> x \<in> set xs"
  by (auto simp: remove_nth_def dest: in_set_takeD in_set_dropD)

locale exclusive_pool =
  fixes ok :: "'s \<Rightarrow> bool" and busy :: "'s \<Rightarrow> u32 \<Rightarrow> bool"
    and claim :: "u32 \<Rightarrow> 's \<Rightarrow> ('e + 'h) \<times> 's" and release :: "u32 \<Rightarrow> 's \<Rightarrow> 's"
    and other :: "'c \<Rightarrow> 's \<Rightarrow> 's"
  assumes claim_granted: "\<lbrakk>ok s; claim i s = (Inr h, s')\<rbrakk> \<Longrightarrow>
      \<not> busy s i \<and> ok s' \<and> (\<forall>j. busy s' j \<longleftrightarrow> j = i \<or> busy s j)"
    and claim_refused: "\<lbrakk>ok s; claim i s = (Inl e, s')\<rbrakk> \<Longrightarrow> s' = s"
    and release_frees: "ok s \<Longrightarrow> ok (release i s) \<and> (\<forall>j. busy (release i s) j \<longleftrightarrow> j \<noteq> i \<and> busy s j)"
    and other_keeps: "ok s \<Longrightarrow> ok (other c s) \<and> busy (other c s) = busy s"
begin

fun pool_step :: "'c pool_event \<Rightarrow> 's \<times> u32 list \<Rightarrow> 's \<times> u32 list" where
  "pool_step (PoolClaim i) (s, held) =
     (case claim i s of (Inr _, s') \<Rightarrow> (s', held @ [i]) | (Inl _, s') \<Rightarrow> (s', held))"
| "pool_step (PoolDrop n) (s, held) =
     (if n < length held then (release (held ! n) s, remove_nth n held) else (s, held))"
| "pool_step (PoolOther c) (s, held) = (other c s, held)"

lemma step_exclusive:
  assumes "ok s" "distinct held" "\<forall>j. busy s j \<longleftrightarrow> j \<in> set held"
    and "pool_step ev (s, held) = (s', held')"
  shows "ok s' \<and> distinct held' \<and> (\<forall>j. busy s' j \<longleftrightarrow> j \<in> set held')"
proof (cases ev)
  case (PoolClaim i)
  show ?thesis
  proof (cases "claim i s")
    case (Pair r s1)
    show ?thesis
    proof (cases r)
      case (Inl e)
      with claim_refused [OF assms(1)] Pair PoolClaim assms show ?thesis by auto
    next
      case (Inr h)
      with claim_granted [OF assms(1)] Pair PoolClaim assms show ?thesis by auto
    qed
  qed
next
  case (PoolDrop n)
  with release_frees [OF assms(1)] assms show ?thesis
    by (auto simp: set_remove_nth distinct_remove_nth split: if_splits)
next
  case (PoolOther c)
  with other_keeps [OF assms(1)] assms show ?thesis by auto
qed

lemma run_exclusive:
  assumes "ok s" "distinct held" "\<forall>j. busy s j \<longleftrightarrow> j \<in> set held"
    and "fold pool_step evs (s, held) = (s', held')"
  shows "ok s' \<and> distinct held' \<and> (\<forall>j. busy s' j \<longleftrightarrow> j \<in> set held')"
  using assms
proof (induction evs arbitrary: s held)
  case (Cons ev evs)
  obtain s1 held1 where st: "pool_step ev (s, held) = (s1, held1)" by fastforce
  with Cons.prems(4) have "fold pool_step evs (s1, held1) = (s', held')" by simp
  with Cons.IH step_exclusive [OF Cons.prems(1-3) st] show ?case by blast
qed simp

end

section \<open>The registry as a pool\<close>

definition reg_busy :: "registry \<Rightarrow> u32 \<Rightarrow> bool" where
  "reg_busy r i = (case list_get (rg_slots r) (unat i) of Some s \<Rightarrow> rs_checked_out s | None \<Rightarrow> False)"

definition reg_claim :: "rid \<Rightarrow> u32 \<Rightarrow> registry \<Rightarrow> (runtime_error + reg_buf) \<times> registry" where
  "reg_claim me i r = the (registry_claim me i r)"

datatype reg_update = RegRaise u32 usize usize | RegSet u32 usize

fun reg_apply :: "reg_update \<Rightarrow> registry \<Rightarrow> registry" where
  "reg_apply (RegRaise i start n) = raise_initialized i start n"
| "reg_apply (RegSet i n) = set_initialized i n"

lemma unat_index_eq [simp]: "unat (i :: u32) = unat j \<longleftrightarrow> i = j"
  by (auto intro: unsigned_word_eqI [where ?'a = nat])

lemma reg_claim_granted:
  assumes "registry_ok r" "reg_claim me i r = (Inr h, r')"
  shows "\<not> reg_busy r i \<and> registry_ok r' \<and> (\<forall>j. reg_busy r' j \<longleftrightarrow> j = i \<or> reg_busy r j) \<and>
    rb_registry h = me \<and> rb_index h = i"
proof -
  have c: "registry_claim me i r = Some (Inr h, r')"
    using assms(2) option.collapse [OF claim_no_panic [OF assms(1), of me i]] by (simp add: reg_claim_def)
  from claim_ok [OF assms(1) c] c show ?thesis
    by (auto simp: registry_claim_def reg_busy_def Let_def list_get_def nth_list_update
        split: option.splits if_splits)
qed

lemma reg_claim_refused:
  assumes "registry_ok r" "reg_claim me i r = (Inl e, r')"
  shows "r' = r \<and> (e = RtBufferCheckedOut i \<and> reg_busy r i \<or>
    e = RtInvalidRegisteredIndex i \<and> length (rg_slots r) \<le> unat i)"
proof -
  have "registry_claim me i r = Some (Inl e, r')"
    using assms(2) option.collapse [OF claim_no_panic [OF assms(1), of me i]] by (simp add: reg_claim_def)
  then show ?thesis
    by (auto simp: registry_claim_def reg_busy_def Let_def list_get_def split: option.splits if_splits)
qed

lemma reg_update_keeps:
  assumes "registry_ok r"
  shows "registry_ok (reg_apply c r) \<and> reg_busy (reg_apply c r) = reg_busy r"
proof
  show "registry_ok (reg_apply c r)" using assms by (cases c) (simp_all add: wf_intros)
  show "reg_busy (reg_apply c r) = reg_busy r"
    by (cases c) (auto simp: reg_busy_def fun_eq_iff raise_initialized_def set_initialized_def Let_def
      list_get_def nth_list_update split: option.splits)
qed

interpretation reg_pool: exclusive_pool registry_ok reg_busy "reg_claim me" registry_release reg_apply
  for me
proof
  fix s s' :: registry and i h
  assume "registry_ok s" "reg_claim me i s = (Inr h, s')"
  then show "\<not> reg_busy s i \<and> registry_ok s' \<and> (\<forall>j. reg_busy s' j \<longleftrightarrow> j = i \<or> reg_busy s j)"
    using reg_claim_granted by blast
next
  fix s s' :: registry and i e
  assume "registry_ok s" "reg_claim me i s = (Inl e, s')"
  then show "s' = s" using reg_claim_refused by blast
next
  fix s :: registry and i
  assume "registry_ok s"
  moreover have "reg_busy (registry_release i s) j \<longleftrightarrow> j \<noteq> i \<and> reg_busy s j" for j
    by (auto simp: reg_busy_def registry_release_def list_get_def nth_list_update
        split: option.splits if_splits)
  ultimately show "registry_ok (registry_release i s) \<and>
      (\<forall>j. reg_busy (registry_release i s) j \<longleftrightarrow> j \<noteq> i \<and> reg_busy s j)"
    by (simp add: release_ok)
next
  fix s :: registry and c
  assume "registry_ok s"
  then show "registry_ok (reg_apply c s) \<and> reg_busy (reg_apply c s) = reg_busy s"
    by (rule reg_update_keeps)
qed

lemma new_not_busy: "registry_new bs ps es is ds = Some r \<Longrightarrow> \<not> reg_busy r i"
  by (auto simp: registry_new_def reg_busy_def new_reg_slot_def split: if_splits option.splits)

text \<open>A run of claims, drops of handles that exist, and updates of the initialized counts.\<close>

definition reg_run :: "rid \<Rightarrow> reg_update pool_event list \<Rightarrow> registry \<times> u32 list \<Rightarrow> registry \<times> u32 list" where
  "reg_run me evs st = fold (exclusive_pool.pool_step (reg_claim me) registry_release reg_apply) evs st"

text \<open>
  C24: A registered buffer is held by at most one handle. In every run of claims, drops and
  count updates from a new registration, the indices held are pairwise distinct and are
  exactly the ones marked as checked out; so a claim is granted precisely when the index
  exists and nobody holds it, and otherwise names which of the two failed and changes nothing.
  While any handle exists, \<open>any_checked_out\<close> finds one, so a new registration is refused.
\<close>

theorem checkout_exclusive:
  assumes "registry_new bs ps es is ds = Some r" and "reg_run me evs (r, []) = (r', held)"
  shows "distinct held \<and> (held \<noteq> [] \<longrightarrow> any_checked_out r' \<noteq> None) \<and>
    (case registry_claim me i r' of
       Some (Inr h, r'') \<Rightarrow> i \<notin> set held \<and> rb_index h = i \<and> rb_registry h = me
     | Some (Inl e, r'') \<Rightarrow> r'' = r' \<and>
         (e = RtBufferCheckedOut i \<and> i \<in> set held \<or>
          e = RtInvalidRegisteredIndex i \<and> length (rg_slots r') \<le> unat i)
     | None \<Rightarrow> False)"
proof -
  have "fold (reg_pool.pool_step me) evs (r, []) = (r', held)"
    using assms(2) by (simp add: reg_run_def)
  from reg_pool.run_exclusive [OF registry_new_ok [OF assms(1)] _ _ this] new_not_busy [OF assms(1)]
  have inv: "registry_ok r'" "distinct held" "\<And>j. reg_busy r' j \<longleftrightarrow> j \<in> set held" by auto
  have found: "find_index P xs = None \<longleftrightarrow> (\<forall>x \<in> set xs. \<not> P x)" for P and xs :: "reg_slot list"
    by (induction xs) auto
  obtain res r'' where c: "registry_claim me i r' = Some (res, r'')"
    using claim_no_panic [OF inv(1), of me i] by (metis option.exhaust prod.exhaust)
  then have c': "reg_claim me i r' = (res, r'')" by (simp add: reg_claim_def)
  have "case res of Inr h \<Rightarrow> i \<notin> set held \<and> rb_index h = i \<and> rb_registry h = me
     | Inl e \<Rightarrow> r'' = r' \<and> (e = RtBufferCheckedOut i \<and> i \<in> set held \<or>
          e = RtInvalidRegisteredIndex i \<and> length (rg_slots r') \<le> unat i)"
    using reg_claim_granted [OF inv(1)] reg_claim_refused [OF inv(1)] c' inv(3)
    by (cases res) auto
  moreover have "held \<noteq> [] \<longrightarrow> any_checked_out r' \<noteq> None"
  proof
    assume "held \<noteq> []"
    then obtain j where "reg_busy r' j" using inv(3) list.set_sel(1) by blast
    then show "any_checked_out r' \<noteq> None"
      by (auto simp: reg_busy_def any_checked_out_def found list_get_def split: if_splits)
  qed
  ultimately show ?thesis using inv(2) c by (auto split: sum.splits)
qed

definition reg_two :: registry where
  "reg_two = the (registry_new
     [\<lparr>ib_kind = VecBuf, ib_addr = 4096, ib_len = 0, ib_cap = 16\<rparr>,
      \<lparr>ib_kind = BoxedBuf, ib_addr = 8192, ib_len = 8, ib_cap = 8\<rparr>]
     [4096, 8192] [16, 8] [0, 8] [\<lparr>bi_address = 4096, bi_length = 16\<rparr>, \<lparr>bi_address = 8192, bi_length = 8\<rparr>])"

lemma reg_two_new:
  "registry_new [\<lparr>ib_kind = VecBuf, ib_addr = 4096, ib_len = 0, ib_cap = 16\<rparr>,
      \<lparr>ib_kind = BoxedBuf, ib_addr = 8192, ib_len = 8, ib_cap = 8\<rparr>]
     [4096, 8192] [16, 8] [0, 8] [\<lparr>bi_address = 4096, bi_length = 16\<rparr>, \<lparr>bi_address = 8192, bi_length = 8\<rparr>]
   = Some reg_two"
  by (simp add: reg_two_def registry_new_def)

theorem checkout_exclusive_witness:
  "fst (the (registry_claim 0 1 (fst (reg_run 0 [PoolClaim 1] (reg_two, []))))) = Inl (RtBufferCheckedOut 1)"
proof -
  have run: "reg_run 0 [PoolClaim 1] (reg_two, []) = (fst (reg_run 0 [PoolClaim 1] (reg_two, [])), [1])"
    by (simp add: reg_run_def reg_pool.pool_step.simps reg_claim_def registry_claim_def reg_two_def
        registry_new_def new_reg_slot_def list_get_def)
  from checkout_exclusive [OF reg_two_new run, of 1] show ?thesis
    by (auto simp: reg_run_def reg_pool.pool_step.simps reg_claim_def registry_claim_def reg_two_def
        registry_new_def new_reg_slot_def list_get_def split: option.splits sum.splits)
qed

section \<open>The initialized prefix\<close>

text \<open>
  A run with its handles and the set of bytes written so far, as pairs of buffer index and
  position. Filling and completed transfers write bytes; \<open>set_buf_init\<close> is unsafe, and its
  caller may only vouch for bytes that were written.
\<close>

record reg_world =
  rw_registry :: registry
  rw_handles :: "reg_buf list"
  rw_written :: "(u32 \<times> nat) set"

datatype reg_event =
    RevClaim u32
  | RevDrop nat
  | RevFill nat "u8 list"
  | RevTransfer u32 usize usize
  | RevSetInit nat usize
  | RevRefresh nat

definition byte_range :: "u32 \<Rightarrow> nat \<Rightarrow> nat \<Rightarrow> (u32 \<times> nat) set" where
  "byte_range i a n = {i} \<times> {a..<a + n}"

fun reg_event_step :: "rid \<Rightarrow> memory \<Rightarrow> reg_event \<Rightarrow> reg_world \<Rightarrow> reg_world" where
  "reg_event_step me mem (RevClaim i) w =
     (case registry_claim me i (rw_registry w) of
        Some (Inr h, r') \<Rightarrow> w\<lparr>rw_registry := r', rw_handles := rw_handles w @ [h]\<rparr>
      | _ \<Rightarrow> w)"
| "reg_event_step me mem (RevDrop n) w =
     (if n < length (rw_handles w)
      then w\<lparr>rw_registry := reg_buf_drop (rw_handles w ! n) (rw_registry w),
             rw_handles := remove_nth n (rw_handles w)\<rparr>
      else w)"
| "reg_event_step me mem (RevFill n src) w =
     (if n < length (rw_handles w)
      then (case reg_buf_fill src (rw_handles w ! n, rw_registry w, mem) of
              (Inr _, h', r', _) \<Rightarrow>
                w\<lparr>rw_registry := r', rw_handles := (rw_handles w)[n := h'],
                  rw_written := rw_written w \<union> byte_range (rb_index (rw_handles w ! n)) 0 (length src)\<rparr>
            | (Inl _, _) \<Rightarrow> w)
      else w)"
| "reg_event_step me mem (RevTransfer i start n) w =
     w\<lparr>rw_registry := raise_initialized i start n (rw_registry w),
       rw_written := rw_written w \<union> byte_range i (unat start) (unat n)\<rparr>"
| "reg_event_step me mem (RevSetInit n k) w =
     (if n < length (rw_handles w) \<and>
         byte_range (rb_index (rw_handles w ! n)) 0 (unat k) \<subseteq> rw_written w
      then (case reg_buf_set_init k (rw_handles w ! n, rw_registry w) of
              (h', r') \<Rightarrow> w\<lparr>rw_registry := r', rw_handles := (rw_handles w)[n := h']\<rparr>)
      else w)"
| "reg_event_step me mem (RevRefresh n) w =
     (if n < length (rw_handles w)
      then w\<lparr>rw_handles := (rw_handles w)[n := reg_buf_refresh (rw_registry w) (rw_handles w ! n)]\<rparr>
      else w)"

text \<open>What is vouched for has been written, and stays inside the extent.\<close>

definition slots_vouched :: "registry \<Rightarrow> (u32 \<times> nat) set \<Rightarrow> bool" where
  "slots_vouched r W \<longleftrightarrow> (\<forall>i s. list_get (rg_slots r) (unat i) = Some s \<longrightarrow>
     rs_initialized s \<le> rs_extent s \<and> byte_range i 0 (unat (rs_initialized s)) \<subseteq> W)"

definition handle_vouched :: "registry \<Rightarrow> (u32 \<times> nat) set \<Rightarrow> reg_buf \<Rightarrow> bool" where
  "handle_vouched r W h \<longleftrightarrow> rb_initialized h \<le> rb_extent h \<and>
     registry_extent r (rb_index h) = Some (rb_extent h) \<and>
     byte_range (rb_index h) 0 (unat (rb_initialized h)) \<subseteq> W"

definition prefix_ok :: "reg_world \<Rightarrow> bool" where
  "prefix_ok w \<longleftrightarrow> slots_vouched (rw_registry w) (rw_written w) \<and>
     (\<forall>h \<in> set (rw_handles w). handle_vouched (rw_registry w) (rw_written w) h)"

lemma byte_range_subset: "b \<le> a + n \<Longrightarrow> byte_range i 0 a \<subseteq> W \<Longrightarrow> byte_range i a n \<subseteq> W \<Longrightarrow> byte_range i 0 b \<subseteq> W"
proof -
  assume "b \<le> a + n" "byte_range i 0 a \<subseteq> W" "byte_range i a n \<subseteq> W"
  then have "byte_range i 0 b \<subseteq> byte_range i 0 a \<union> byte_range i a n"
    by (auto simp: byte_range_def)
  with \<open>byte_range i 0 a \<subseteq> W\<close> \<open>byte_range i a n \<subseteq> W\<close> show ?thesis by blast
qed

lemma byte_range_mono: "b \<le> a \<Longrightarrow> byte_range i 0 a \<subseteq> W \<Longrightarrow> byte_range i 0 b \<subseteq> W"
  by (rule order_trans [of _ "byte_range i 0 a"]) (auto simp: byte_range_def)

lemma slots_vouched_mono: "\<lbrakk>slots_vouched r W; W \<subseteq> W'\<rbrakk> \<Longrightarrow> slots_vouched r W'"
  unfolding slots_vouched_def by (meson order_trans)

lemma slots_vouched_update:
  assumes "slots_vouched r W" "unat i < length (rg_slots r)"
    and "rs_initialized s \<le> rs_extent s" "byte_range i 0 (unat (rs_initialized s)) \<subseteq> W"
  shows "slots_vouched (r\<lparr>rg_slots := (rg_slots r)[unat i := s]\<rparr>) W"
  using assms by (auto simp: slots_vouched_def nth_list_update)

lemma handle_vouched_mono:
  "\<lbrakk>handle_vouched r W h; W \<subseteq> W'; registry_extent r' (rb_index h) = registry_extent r (rb_index h)\<rbrakk>
    \<Longrightarrow> handle_vouched r' W' h"
  unfolding handle_vouched_def by (metis order_trans)

lemma slots_vouchedD:
  "\<lbrakk>slots_vouched r W; unat i < length (rg_slots r)\<rbrakk> \<Longrightarrow>
    rs_initialized (rg_slots r ! unat i) \<le> rs_extent (rg_slots r ! unat i) \<and>
    byte_range i 0 (unat (rs_initialized (rg_slots r ! unat i))) \<subseteq> W"
  by (simp add: slots_vouched_def)

text \<open>No operation changes an extent.\<close>

lemma extent_frame [frame_simps]:
  "registry_extent (raise_initialized i st n r) j = registry_extent r j"
  "registry_extent (set_initialized i n r) j = registry_extent r j"
  "registry_extent (registry_release i r) j = registry_extent r j"
  by (auto simp: registry_extent_def raise_initialized_def set_initialized_def registry_release_def
      list_get_def nth_list_update Let_def split: option.splits)

lemma claim_extent_frame:
  "registry_claim me i r = Some (res, r') \<Longrightarrow> registry_extent r' j = registry_extent r j"
  by (auto simp: registry_extent_def registry_claim_def list_get_def nth_list_update Let_def
      split: option.splits if_splits)

lemma raise_vouched:
  assumes "slots_vouched r W"
  shows "slots_vouched (raise_initialized i start n r) (W \<union> byte_range i (unat start) (unat n))"
proof (cases "unat i < length (rg_slots r) \<and> \<not> start > rs_initialized (rg_slots r ! unat i)")
  case True
  let ?s = "rg_slots r ! unat i" and ?W = "W \<union> byte_range i (unat start) (unat n)"
  let ?f = "min (saturating_add start n) (rs_extent ?s)"
  note v = slots_vouchedD [OF assms conjunct1 [OF True]]
  have "unat ?f \<le> unat start + unat n"
    using unat_saturating_add [of start n] by (simp add: min_def word_le_nat_alt)
  moreover have "byte_range i 0 (unat start) \<subseteq> ?W"
    by (rule byte_range_mono [of _ "unat (rs_initialized ?s)"]) (use True v in \<open>auto simp: word_le_nat_alt not_less\<close>)
  ultimately have "byte_range i 0 (unat ?f) \<subseteq> ?W"
    using byte_range_subset [of "unat ?f" "unat start" "unat n" i ?W] by simp
  then have m: "byte_range i 0 (unat (max (rs_initialized ?s) ?f)) \<subseteq> ?W"
    using v by (auto simp: max_def)
  have "slots_vouched (r\<lparr>rg_slots := (rg_slots r)[unat i := ?s\<lparr>rs_initialized := max (rs_initialized ?s) ?f\<rparr>]\<rparr>) ?W"
    by (rule slots_vouched_update [OF slots_vouched_mono [OF assms]]) (use True v m in auto)
  with True show ?thesis by (simp add: raise_initialized_def Let_def)
next
  case False
  then have "raise_initialized i start n r = r"
    by (auto simp: raise_initialized_def Let_def split: option.splits)
  with slots_vouched_mono [OF assms] show ?thesis by simp
qed

lemma set_vouched:
  assumes "slots_vouched r W" "byte_range i 0 (unat n) \<subseteq> W"
  shows "slots_vouched (set_initialized i n r) W"
proof (cases "unat i < length (rg_slots r)")
  case True
  have "byte_range i 0 (unat (min n (rs_extent (rg_slots r ! unat i)))) \<subseteq> W"
    by (rule byte_range_mono [OF _ assms(2)]) (simp add: min_def word_le_nat_alt)
  then show ?thesis
    using True slots_vouched_update [OF assms(1) True] by (simp add: set_initialized_def)
qed (use assms in \<open>simp add: set_initialized_def\<close>)

text \<open>Replacing one handle, and leaving the others over a changed registry.\<close>

lemma handles_update:
  assumes "\<forall>h \<in> set hs. handle_vouched r W h" "n < length hs" "W \<subseteq> W'"
    and "\<And>j. registry_extent r' j = registry_extent r j" and "handle_vouched r' W' h'"
  shows "\<forall>h \<in> set (hs[n := h']). handle_vouched r' W' h"
proof
  fix h assume "h \<in> set (hs[n := h'])"
  then have "h = h' \<or> h \<in> set hs" by (meson in_set_conv_nth in_mono set_update_subset_insert insert_iff)
  then show "handle_vouched r' W' h"
    using assms handle_vouched_mono [OF _ assms(3)] by blast
qed

lemma handles_mono:
  "\<lbrakk>\<forall>h \<in> set hs. handle_vouched r W h; W \<subseteq> W'; \<And>j. registry_extent r' j = registry_extent r j;
    set hs' \<subseteq> set hs\<rbrakk> \<Longrightarrow> \<forall>h \<in> set hs'. handle_vouched r' W' h"
  using handle_vouched_mono by blast

lemma release_vouched: "slots_vouched r W \<Longrightarrow> slots_vouched (registry_release i r) W"
proof (cases "unat i < length (rg_slots r)")
  case True
  assume v: "slots_vouched r W"
  show ?thesis
    using True slots_vouchedD [OF v True] slots_vouched_update [OF v True]
    by (simp add: registry_release_def)
qed (simp add: registry_release_def)

lemma claim_vouched:
  assumes v: "slots_vouched r W" and c: "registry_claim me i r = Some (Inr h, r')"
  shows "slots_vouched r' W \<and> handle_vouched r' W h"
proof -
  from c have i: "unat i < length (rg_slots r)"
    and r': "r' = r\<lparr>rg_slots := (rg_slots r)[unat i := (rg_slots r ! unat i)\<lparr>rs_checked_out := True\<rparr>]\<rparr>"
    and h: "rb_index h = i" "rb_extent h = rs_extent (rg_slots r ! unat i)"
      "rb_initialized h = rs_initialized (rg_slots r ! unat i)"
    by (auto simp: registry_claim_def Let_def split: option.splits if_splits)
  have "slots_vouched r' W"
    unfolding r' by (rule slots_vouched_update [OF v i]) (use slots_vouchedD [OF v i] in auto)
  moreover have "handle_vouched r' W h"
    using slots_vouchedD [OF v i] i by (simp add: handle_vouched_def h r' registry_extent_def)
  ultimately show ?thesis by simp
qed

lemma prefix_step:
  assumes ok: "prefix_ok w"
  shows "prefix_ok (reg_event_step me mem ev w)"
proof -
  from ok have sv: "slots_vouched (rw_registry w) (rw_written w)"
    and hv: "\<forall>h \<in> set (rw_handles w). handle_vouched (rw_registry w) (rw_written w) h"
    by (simp_all add: prefix_ok_def)
  show ?thesis
  proof (cases ev)
    case (RevClaim i)
    show ?thesis
    proof (cases "\<exists>h r'. registry_claim me i (rw_registry w) = Some (Inr h, r')")
      case True
      then obtain h r' where c: "registry_claim me i (rw_registry w) = Some (Inr h, r')" by blast
      with claim_vouched [OF sv c] handles_mono [OF hv subset_refl claim_extent_frame [OF c] subset_refl]
      show ?thesis by (simp add: RevClaim prefix_ok_def)
    next
      case False
      then have "reg_event_step me mem ev w = w"
        by (auto simp: RevClaim split: option.splits sum.splits)
      with ok show ?thesis by simp
    qed
  next
    case (RevDrop n)
    have "set (remove_nth n (rw_handles w)) \<subseteq> set (rw_handles w)" by (auto dest: set_remove_nth_subset)
    with release_vouched [OF sv] handles_mono [OF hv subset_refl frame_simps(3)] ok
    show ?thesis by (simp add: RevDrop prefix_ok_def reg_buf_drop_def)
  next
    case (RevFill n src)
    show ?thesis
    proof (cases "n < length (rw_handles w) \<and> length src \<le> unat (rb_extent (rw_handles w ! n))")
      case True
      let ?h = "rw_handles w ! n"
      let ?W = "rw_written w \<union> byte_range (rb_index ?h) 0 (length src)"
      let ?k = "of_nat (length src) :: usize"
      let ?r' = "set_initialized (rb_index ?h) ?k (rw_registry w)"
      have lt: "length src < 2 ^ 64"
        using True unsigned_less [of "rb_extent ?h", where ?'a = nat] by simp
      then have k: "unat ?k = length src" by (simp add: unat_of_nat take_bit_nat_eq_self_iff)
      have "slots_vouched ?r' ?W"
        by (rule set_vouched [OF slots_vouched_mono [OF sv]]) (auto simp: k)
      moreover have "handle_vouched ?r' ?W (?h\<lparr>rb_initialized := ?k\<rparr>)"
        using hv [rule_format, OF nth_mem] True
        by (auto simp: handle_vouched_def frame_simps k word_le_nat_alt)
      ultimately show ?thesis
        using True handles_update [OF hv conjunct1 [OF True] _ frame_simps(2), of ?W]
        by (simp add: RevFill prefix_ok_def reg_buf_fill_def)
    next
      case False
      then have "reg_event_step me mem ev w = w"
        by (auto simp: RevFill reg_buf_fill_def)
      with ok show ?thesis by simp
    qed
  next
    case (RevTransfer i start n)
    with raise_vouched [OF sv, of i start n] handles_mono [OF hv _ frame_simps(1) subset_refl]
    show ?thesis by (simp add: prefix_ok_def)
  next
    case (RevSetInit n k)
    show ?thesis
    proof (cases "n < length (rw_handles w) \<and> byte_range (rb_index (rw_handles w ! n)) 0 (unat k) \<subseteq> rw_written w")
      case True
      let ?h = "rw_handles w ! n"
      let ?k = "min k (rb_extent ?h)"
      let ?r' = "set_initialized (rb_index ?h) ?k (rw_registry w)"
      have b: "byte_range (rb_index ?h) 0 (unat ?k) \<subseteq> rw_written w"
        by (rule byte_range_mono [OF _ conjunct2 [OF True]]) (simp add: min_def word_le_nat_alt)
      have "handle_vouched ?r' (rw_written w) (?h\<lparr>rb_initialized := ?k\<rparr>)"
        using hv [rule_format, OF nth_mem] True b by (auto simp: handle_vouched_def frame_simps)
      with True set_vouched [OF sv b] handles_update [OF hv conjunct1 [OF True] subset_refl frame_simps(2)]
      show ?thesis by (simp add: RevSetInit prefix_ok_def reg_buf_set_init_def Let_def)
    next
      case False
      then have "reg_event_step me mem ev w = w" by (auto simp: RevSetInit)
      with ok show ?thesis by simp
    qed
  next
    case (RevRefresh n)
    show ?thesis
    proof (cases "n < length (rw_handles w)")
      case True
      let ?h = "rw_handles w ! n"
      have "handle_vouched (rw_registry w) (rw_written w) ?h" using hv True by simp
      then have "unat (rb_index ?h) < length (rg_slots (rw_registry w))"
        "rs_extent (rg_slots (rw_registry w) ! unat (rb_index ?h)) = rb_extent ?h"
        by (auto simp: handle_vouched_def registry_extent_def)
      with slots_vouchedD [OF sv, of "rb_index ?h"] \<open>handle_vouched _ _ ?h\<close>
      have "handle_vouched (rw_registry w) (rw_written w) (reg_buf_refresh (rw_registry w) ?h)"
        by (simp add: handle_vouched_def reg_buf_refresh_def registry_initialized_def)
      with True sv handles_update [OF hv True subset_refl refl]
      show ?thesis by (simp add: RevRefresh prefix_ok_def)
    qed (use ok in \<open>simp add: RevRefresh\<close>)
  qed
qed

lemma prefix_run: "prefix_ok w \<Longrightarrow> prefix_ok (fold (reg_event_step me mem) evs w)"
  by (induction evs arbitrary: w) (simp_all add: prefix_step)

text \<open>
  C25: The initialized count never vouches for a byte that was not written. From a
  registration whose buffers were initialized up to their watermarks, after any sequence of
  claims, drops, fills, completed transfers at any start and length (also ones that overflow
  or leave a gap), refreshes and permitted \<open>set_buf_init\<close> calls, every byte below a
  slot's or a live handle's initialized count has been written, and the count stays within
  the registered extent.
\<close>

theorem initialized_prefix_sound:
  assumes "registry_new bs ps es is ds = Some r"
    and "w = fold (reg_event_step me mem) evs \<lparr>rw_registry = r, rw_handles = [],
           rw_written = {(i, j). \<exists>s. list_get (rg_slots r) (unat i) = Some s \<and> j < unat (rs_initialized s)}\<rparr>"
  shows "(\<forall>i n. registry_initialized (rw_registry w) i = Some n \<longrightarrow>
      byte_range i 0 (unat n) \<subseteq> rw_written w \<and> (\<exists>e. registry_extent (rw_registry w) i = Some e \<and> n \<le> e)) \<and>
    (\<forall>h \<in> set (rw_handles w).
      byte_range (rb_index h) 0 (unat (rb_initialized h)) \<subseteq> rw_written w \<and> rb_initialized h \<le> rb_extent h)"
proof -
  have "prefix_ok \<lparr>rw_registry = r, rw_handles = [],
           rw_written = {(i, j). \<exists>s. list_get (rg_slots r) (unat i) = Some s \<and> j < unat (rs_initialized s)}\<rparr>"
    using registry_new_ok [OF assms(1)] registry_ok_nth [of r]
    by (auto simp: prefix_ok_def slots_vouched_def byte_range_def)
  from prefix_run [OF this] have "prefix_ok w" by (simp add: assms(2))
  then show ?thesis
    by (auto simp: prefix_ok_def slots_vouched_def handle_vouched_def registry_initialized_def
        registry_extent_def)
qed

theorem initialized_prefix_sound_witness:
  "let w = fold (reg_event_step 0 (\<lambda>_. 0))
      [RevClaim 0, RevTransfer 0 0 4, RevTransfer 0 8 2, RevRefresh 0]
      \<lparr>rw_registry = reg_two, rw_handles = [],
       rw_written = {(i, j). \<exists>s. list_get (rg_slots reg_two) (unat i) = Some s \<and> j < unat (rs_initialized s)}\<rparr>
   in registry_initialized (rw_registry w) 0 = Some 4 \<and> byte_range 0 0 4 \<subseteq> rw_written w"
proof -
  let ?w = "fold (reg_event_step 0 (\<lambda>_. 0))
      [RevClaim 0, RevTransfer 0 0 4, RevTransfer 0 8 2, RevRefresh 0]
      \<lparr>rw_registry = reg_two, rw_handles = [],
       rw_written = {(i, j). \<exists>s. list_get (rg_slots reg_two) (unat i) = Some s \<and> j < unat (rs_initialized s)}\<rparr>"
  have four: "registry_initialized (rw_registry ?w) 0 = Some 4"
    by (simp add: reg_two_def registry_new_def new_reg_slot_def registry_claim_def raise_initialized_def
        registry_initialized_def saturating_add_def list_get_def Let_def)
  with initialized_prefix_sound [OF reg_two_new refl, where evs = "[RevClaim 0, RevTransfer 0 0 4, RevTransfer 0 8 2, RevRefresh 0]" and me = 0 and mem = "\<lambda>_. 0"]
  have "byte_range 0 0 (unat (4 :: usize)) \<subseteq> rw_written ?w" by blast
  then have "byte_range 0 0 4 \<subseteq> rw_written ?w" by simp
  with four show ?thesis unfolding Let_def by blast
qed

end
