(* ===== verification/Event.thy ===== *)
theory Event
  imports Errors
begin

text \<open>
  Events (\<open>sys/event.rs\<close>).

  \<open>AsyncEvent\<close> wraps a platform event. \<open>ArmedEvent\<close> registers one with the thread pool
  once, for its whole life: a callback on a pool thread sets a flag and wakes the waker it
  finds, and the driver polls the flag. The flag and the waker are behind a mutex, so the
  callback and the polls are atomic and their interleavings are sequences. The platform's
  event functions are the parameter \<open>event_platform\<close>; a thread-pool callback is delivered
  through the raw reference that the registration holds, which is modelled by a count.
\<close>

section \<open>Plain events\<close>

record 'k event_platform =
  CreateEventW :: "bool \<Rightarrow> 'k \<Rightarrow> (win_error + handle) \<times> 'k"
  SetEvent :: "handle \<Rightarrow> 'k \<Rightarrow> (win_error + unit) \<times> 'k"
  ResetEvent :: "handle \<Rightarrow> 'k \<Rightarrow> (win_error + unit) \<times> 'k"
  WaitForSingleObject :: "handle \<Rightarrow> u32 \<Rightarrow> 'k \<Rightarrow> u32 \<times> 'k"
  GetLastError :: "'k \<Rightarrow> win_error"
  RegisterWait :: "handle \<Rightarrow> 'k \<Rightarrow> (win_error + handle) \<times> 'k"
  UnregisterWait :: "handle \<Rightarrow> 'k \<Rightarrow> (win_error + unit) \<times> 'k"
  CloseHandle :: "handle \<Rightarrow> 'k \<Rightarrow> (win_error + unit) \<times> 'k"

record async_event =
  ev_handle :: handle

definition WAIT_OBJECT_0 :: u32 where "WAIT_OBJECT_0 = 0"
definition INFINITE :: u32 where "INFINITE = 0xFFFFFFFF"

definition async_event_new :: "'k event_platform \<Rightarrow> 'k \<Rightarrow> (win_error + async_event) \<times> 'k" where
  "async_event_new P k =
     (case CreateEventW P False k of
        (Inl e, k') \<Rightarrow> (Inl e, k')
      | (Inr h, k') \<Rightarrow> (Inr \<lparr>ev_handle = h\<rparr>, k'))"

definition async_event_new_manual_reset :: "'k event_platform \<Rightarrow> 'k \<Rightarrow> (win_error + async_event) \<times> 'k" where
  "async_event_new_manual_reset P k =
     (case CreateEventW P True k of
        (Inl e, k') \<Rightarrow> (Inl e, k')
      | (Inr h, k') \<Rightarrow> (Inr \<lparr>ev_handle = h\<rparr>, k'))"

definition event_signal :: "'k event_platform \<Rightarrow> async_event \<Rightarrow> 'k \<Rightarrow> (win_error + unit) \<times> 'k" where
  "event_signal P e k = SetEvent P (ev_handle e) k"

definition event_reset :: "'k event_platform \<Rightarrow> async_event \<Rightarrow> 'k \<Rightarrow> (win_error + unit) \<times> 'k" where
  "event_reset P e k = ResetEvent P (ev_handle e) k"

text \<open>A timeout and every other outcome report the thread's last error.\<close>

definition event_wait_sync :: "'k event_platform \<Rightarrow> u32 option \<Rightarrow> async_event \<Rightarrow> 'k \<Rightarrow> (win_error + unit) \<times> 'k" where
  "event_wait_sync P timeout_ms e k =
     (let timeout = (case timeout_ms of Some t \<Rightarrow> t | None \<Rightarrow> INFINITE);
          (r, k') = WaitForSingleObject P (ev_handle e) timeout k
      in (if r = WAIT_OBJECT_0 then Inr () else Inl (GetLastError P k'), k'))"

definition event_wait_sync_infinite :: "'k event_platform \<Rightarrow> async_event \<Rightarrow> 'k \<Rightarrow> (win_error + unit) \<times> 'k" where
  "event_wait_sync_infinite P e k = event_wait_sync P None e k"

definition event_drop :: "'k event_platform \<Rightarrow> async_event \<Rightarrow> 'k \<Rightarrow> 'k" where
  "event_drop P e k = snd (CloseHandle P (ev_handle e) k)"

section \<open>The armed state\<close>

type_synonym wakerid = nat

record armed_state =
  as_signalled :: bool
  as_waker :: "wakerid option"

datatype poll_unit = PollReady | PollPending

definition armed_state_new :: armed_state where
  "armed_state_new = \<lparr>as_signalled = False, as_waker = None\<rparr>"

definition poll_signalled :: "wakerid \<Rightarrow> armed_state \<Rightarrow> poll_unit \<times> armed_state" where
  "poll_signalled w s =
     (if as_signalled s then (PollReady, \<lparr>as_signalled = False, as_waker = None\<rparr>)
      else (PollPending, s\<lparr>as_waker := Some w\<rparr>))"

definition release_waker :: "armed_state \<Rightarrow> armed_state" where
  "release_waker s = s\<lparr>as_waker := None\<rparr>"

text \<open>The callback: the flag is set, and the waker it finds is taken and woken.\<close>

definition armed_callback :: "armed_state \<Rightarrow> wakerid option \<times> armed_state" where
  "armed_callback s = (as_waker s, s\<lparr>as_signalled := True, as_waker := None\<rparr>)"

section \<open>Registration and teardown\<close>

datatype registration = RegLive | RegReleased | RegFailed

text \<open>
  \<open>ae_refs\<close> counts the references to the shared state: the event's own \<open>Arc\<close> and the one
  the registration holds; \<open>ae_open\<close> says whether the event's handle is still open.
\<close>

record armed_event =
  ae_event :: async_event
  ae_wait :: handle
  ae_registration :: registration
  ae_refs :: nat
  ae_open :: bool
  ae_state :: armed_state

definition armed_event_new :: "'k event_platform \<Rightarrow> 'k \<Rightarrow> (win_error + armed_event) \<times> 'k" where
  "armed_event_new P k =
     (case async_event_new P k of
        (Inl e, k1) \<Rightarrow> (Inl e, k1)
      | (Inr ev, k1) \<Rightarrow>
          (case RegisterWait P (ev_handle ev) k1 of
             (Inl e, k2) \<Rightarrow> (Inl e, event_drop P ev k2)
           | (Inr wait, k2) \<Rightarrow>
               (Inr \<lparr>ae_event = ev, ae_wait = wait, ae_registration = RegLive, ae_refs = 2,
                     ae_open = True, ae_state = armed_state_new\<rparr>, k2)))"

definition release_registration :: "'k event_platform \<Rightarrow> armed_event \<Rightarrow> 'k \<Rightarrow> registration \<times> armed_event \<times> 'k" where
  "release_registration P a k =
     (if ae_registration a \<noteq> RegLive then (ae_registration a, a, k)
      else case UnregisterWait P (ae_wait a) k of
        (r, k') \<Rightarrow>
          let reg = (case r of Inr _ \<Rightarrow> RegReleased | Inl _ \<Rightarrow> RegFailed)
          in (reg, a\<lparr>ae_registration := reg\<rparr>, k'))"

definition reclaim_count :: "armed_event \<Rightarrow> armed_event" where
  "reclaim_count a = a\<lparr>ae_refs := ae_refs a - 1\<rparr>"

definition close_event :: "'k event_platform \<Rightarrow> armed_event \<Rightarrow> 'k \<Rightarrow> armed_event \<times> 'k" where
  "close_event P a k = (a\<lparr>ae_open := False\<rparr>, event_drop P (ae_event a) k)"

text \<open>\<open>Drop for ArmedEvent\<close>, up to the drop of its own \<open>Arc\<close>.\<close>

definition armed_event_drop :: "'k event_platform \<Rightarrow> armed_event \<Rightarrow> 'k \<Rightarrow> armed_event \<times> 'k" where
  "armed_event_drop P a k =
     (case release_registration P a k of
        (reg, a1, k1) \<Rightarrow>
          if reg = RegFailed then (a1, k1)
          else close_event P (reclaim_count a1) k1)"

section \<open>No signal is lost\<close>

text \<open>A history of the shared state: polls, releases and callbacks in any order.\<close>

datatype armed_action = ActPoll wakerid | ActRelease | ActSignal

fun armed_act :: "armed_action \<Rightarrow> armed_state \<Rightarrow> armed_state" where
  "armed_act (ActPoll w) s = snd (poll_signalled w s)"
| "armed_act ActRelease s = release_waker s"
| "armed_act ActSignal s = snd (armed_callback s)"

lemma signal_pending:
  assumes "\<forall>a \<in> set as. \<forall>w. a \<noteq> ActPoll w" and "as_signalled s"
  shows "as_signalled (fold armed_act as s)"
  using assms
proof (induction as arbitrary: s)
  case (Cons a as)
  then have "as_signalled (armed_act a s)"
    by (cases a) (simp_all add: release_waker_def armed_callback_def)
  with Cons show ?case by simp
qed simp

lemma no_signal_not_signalled:
  assumes "ActSignal \<notin> set as" "\<not> as_signalled s"
  shows "\<not> as_signalled (fold armed_act as s)"
  using assms
proof (induction as arbitrary: s)
  case (Cons a as)
  then have "\<not> as_signalled (armed_act a s)"
    by (cases a) (simp_all add: release_waker_def poll_signalled_def)
  with Cons show ?case by simp
qed simp

text \<open>
  C26: A signal is never lost and never seen twice. Once the callback has run, the next poll
  is ready, whatever releases and further signals come between; that poll consumes the signal,
  so the polls after it are pending until another signal arrives; and a poll that returned
  pending has left its waker where the next signal takes and wakes it, unless it was released
  or replaced by a later poll.
\<close>

theorem signals_not_lost:
  assumes "\<forall>a \<in> set as. \<forall>w. a \<noteq> ActPoll w" and "ActSignal \<notin> set bs"
  shows "fst (poll_signalled w (fold armed_act as (snd (armed_callback s)))) = PollReady \<and>
    fst (poll_signalled w' (fold armed_act bs (snd (poll_signalled w (fold armed_act as (snd (armed_callback s)))))))
      = PollPending \<and>
    (fst (poll_signalled w s) = PollPending \<longrightarrow> fst (armed_callback (snd (poll_signalled w s))) = Some w)"
proof -
  have "as_signalled (snd (armed_callback s))" by (simp add: armed_callback_def)
  from signal_pending [OF assms(1) this]
  have 1: "as_signalled (fold armed_act as (snd (armed_callback s)))" .
  then have "\<not> as_signalled (snd (poll_signalled w (fold armed_act as (snd (armed_callback s)))))"
    by (simp add: poll_signalled_def)
  from no_signal_not_signalled [OF assms(2) this] 1 show ?thesis
    by (simp add: poll_signalled_def armed_callback_def)
qed

theorem signals_not_lost_witness:
  "fst (poll_signalled 5 (fold armed_act [ActRelease, ActSignal] (snd (armed_callback armed_state_new)))) = PollReady"
  using signals_not_lost [of "[ActRelease, ActSignal]" "[]" 5 armed_state_new 5] by simp

text \<open>
  C27: Teardown frees nothing the pool can still reach, and frees it once. An armed event that
  is still registered, whatever was signalled or polled on it since, holds two references and
  its handle. Dropping it unregisters that very wait first; only if the platform agreed are the
  registration's reference given back and the handle closed, the close coming after the
  unregistration; if it refused, both are leaked and nothing is closed. A registration
  released before the drop, or failed before it, is not released again: the second release
  and the drop call \<open>UnregisterWait\<close> no more, and the drop frees after a release that
  succeeded and leaks after one that failed.
\<close>

theorem armed_teardown_safe:
  assumes "armed_event_new P k = (Inr a0, k1)" and "a = a0\<lparr>ae_state := st\<rparr>"
    and "UnregisterWait P (ae_wait a) k2 = (answer, k3)"
  shows "ae_refs a = 2 \<and> ae_open a \<and>
    armed_event_drop P a k2 = (case answer of
      Inr _ \<Rightarrow> (a\<lparr>ae_registration := RegReleased, ae_refs := 1, ae_open := False\<rparr>,
                snd (CloseHandle P (ev_handle (ae_event a)) k3))
    | Inl _ \<Rightarrow> (a\<lparr>ae_registration := RegFailed\<rparr>, k3)) \<and>
    (let reg = (case answer of Inr _ \<Rightarrow> RegReleased | Inl _ \<Rightarrow> RegFailed);
         a' = a\<lparr>ae_registration := reg\<rparr>
     in release_registration P a k2 = (reg, a', k3) \<and>
        release_registration P a' k4 = (reg, a', k4) \<and>
        armed_event_drop P a' k4 = (case answer of
          Inr _ \<Rightarrow> (a'\<lparr>ae_refs := 1, ae_open := False\<rparr>, snd (CloseHandle P (ev_handle (ae_event a)) k4))
        | Inl _ \<Rightarrow> (a', k4)))"
proof -
  from assms(1,2) have "ae_registration a = RegLive" "ae_refs a = 2" "ae_open a"
    by (auto simp: armed_event_new_def split: prod.splits sum.splits)
  with assms(3) show ?thesis
    by (auto simp: armed_event_drop_def release_registration_def reclaim_count_def close_event_def
        event_drop_def Let_def split: sum.split prod.split)
qed

definition event_platform_of :: "win_error + unit \<Rightarrow> nat event_platform" where
  "event_platform_of unregistered = \<lparr>CreateEventW = \<lambda>m k. (Inr 40, k + 1), SetEvent = \<lambda>h k. (Inr (), k + 1),
     ResetEvent = \<lambda>h k. (Inr (), k + 1), WaitForSingleObject = \<lambda>h t k. (0, k + 1),
     GetLastError = \<lambda>k. WinError 0x80004005, RegisterWait = \<lambda>h k. (Inr 41, k + 1),
     UnregisterWait = \<lambda>h k. (unregistered, k + 1), CloseHandle = \<lambda>h k. (Inr (), k + 10)\<rparr>"

theorem armed_teardown_safe_witness:
  "let P = event_platform_of (Inl (WinError 0x80004005)); Q = event_platform_of (Inr ());
       a = projr (fst (armed_event_new P 0))\<lparr>ae_state := \<lparr>as_signalled = True, as_waker = None\<rparr>\<rparr>
   in armed_event_drop P a 2 = (a\<lparr>ae_registration := RegFailed\<rparr>, 3) \<and> ae_refs a = 2 \<and>
      armed_event_drop Q a 2 = (a\<lparr>ae_registration := RegReleased, ae_refs := 1, ae_open := False\<rparr>, 13)"
proof -
  let ?P = "event_platform_of (Inl (WinError 0x80004005))" and ?Q = "event_platform_of (Inr ())"
  let ?fresh = "\<lparr>ae_event = \<lparr>ev_handle = 40\<rparr>, ae_wait = 41, ae_registration = RegLive, ae_refs = 2,
     ae_open = True, ae_state = armed_state_new\<rparr>"
  let ?a = "?fresh\<lparr>ae_state := \<lparr>as_signalled = True, as_waker = None\<rparr>\<rparr>"
  have n: "armed_event_new ?P 0 = (Inr ?fresh, 2)" "armed_event_new ?Q 0 = (Inr ?fresh, 2)"
    by (simp_all add: armed_event_new_def async_event_new_def event_platform_of_def)
  have u: "UnregisterWait ?P (ae_wait ?a) 2 = (Inl (WinError 0x80004005), 3)"
    "UnregisterWait ?Q (ae_wait ?a) 2 = (Inr (), 3)"
    by (simp_all add: event_platform_of_def)
  have c: "snd (CloseHandle ?Q h 3) = 13" for h by (simp add: event_platform_of_def)
  have "ae_refs ?a = 2 \<and> armed_event_drop ?P ?a 2 = (?a\<lparr>ae_registration := RegFailed\<rparr>, 3)"
    using armed_teardown_safe [OF n(1) refl u(1), of 9] by simp
  moreover have "armed_event_drop ?Q ?a 2 =
      (?a\<lparr>ae_registration := RegReleased, ae_refs := 1, ae_open := False\<rparr>, 13)"
    using armed_teardown_safe [OF n(2) refl u(2), of 9] by (simp add: c)
  ultimately show ?thesis by (simp add: n(1))
qed

end
