(* ===== verification/Driver.thy ===== *)
theory Driver
  imports Slab_Props Io_Ring Registry
begin

text \<open>
  The driver's state and its inner methods (\<open>DriverInner\<close> in \<open>runtime/mod.rs\<close>).

  \<open>'k driver\<close> is \<open>DriverInner\<close> together with the cells it shares through \<open>Rc\<close>: the
  result slots (\<open>cells\<close>), the buffer registrations (\<open>regs\<close>) and the file states
  (\<open>files\<close>), each addressed by a number; and the kernel state \<open>'k\<close> behind the ring. A
  \<open>Waker\<close> is a number. The methods that only the crate's tests use (the \<open>cfg(test)\<close>
  seams) are left out. \<open>None\<close> as the result of a function is a panic or an abort.
\<close>

section \<open>Shared cells\<close>

type_synonym waker = nat
type_synonym fid = nat
type_synonym cid = nat

text \<open>\<open>FileState\<close>: a \<open>Cell\<close> per field; the handle is fixed.\<close>

record file_state =
  fs_handle :: handle
  fs_cursor :: u64
  fs_sequential :: bool
  fs_type :: "u32 option"

datatype pending_registration =
    PendBuffers "iobuf list" "usize list" "usize list" "usize list" "buffer_info list"
  | PendFiles "fid list"

text \<open>What a \<open>Box<dyn Any>\<close> holds: the four types the crate stores in one.\<close>

datatype any_buf =
    AnyBuf iobuf
  | AnyRegBuf reg_buf
  | AnyCollection rid
  | AnyPending pending_registration

type_synonym completed_op = "(runtime_error + u32) \<times> any_buf option"

text \<open>
  \<open>ResultSlot\<close>. The cell is shared by the payload and the future; \<open>rs_future\<close> says
  whether the future's half of the \<open>Rc\<close> is still alive, which decides when the contents are
  dropped.
\<close>

record result_slot =
  rs_completed :: "completed_op option"
  rs_waker :: "waker option"
  rs_future :: bool

definition result_slot_new :: result_slot where
  "result_slot_new = \<lparr>rs_completed = None, rs_waker = None, rs_future = True\<rparr>"

record op_payload =
  op_buffer :: "any_buf option"
  op_file :: "fid option"
  op_slot :: cid
  op_registered_buffer :: "(u32 \<times> u32) option"
  op_registered_file :: "u32 option"
  op_pending :: "pending_registration option"
  op_sequential :: "fid option"

record file_registration =
  fr_files :: "fid list"
  fr_count :: nat

datatype shutdown_mode = Running | Graceful | Immediate

section \<open>The driver\<close>

record 'k driver =
  ring :: io_ring
  slab :: "op_payload op_slab"
  buffer_registration :: "rid option"
  retired_buffer_registrations :: "rid list"
  registration_in_flight :: bool
  file_reg :: "file_registration option"
  retired_file_registrations :: "file_registration list"
  cancel_holds :: "(token \<times> fid) list"
  deferred_cancels :: "token list"
  nudged :: bool
  driver_waker :: "waker option"
  pending_submit :: bool
  shutdown :: shutdown_mode
  torn_down :: bool
  shutdown_waiters :: "(u64 \<times> waker) list"
  next_waiter_id :: u64
  deferred_reports :: "runtime_error list"
  submit_failures :: u32
  submissions :: u64
  submitted_entries :: u64
  cells :: "cid \<Rightarrow> result_slot"
  next_cell :: cid
  regs :: "rid \<Rightarrow> registry option"
  next_reg :: rid
  files :: "fid \<Rightarrow> file_state"
  kern :: 'k

text \<open>\<open>PartialOrd\<close> on \<open>ShutdownMode\<close> is the order of the variants.\<close>

instantiation shutdown_mode :: linorder
begin

definition mode_rank :: "shutdown_mode \<Rightarrow> nat" where
  "mode_rank m = (case m of Running \<Rightarrow> 0 | Graceful \<Rightarrow> 1 | Immediate \<Rightarrow> 2)"

definition less_eq_shutdown_mode :: "shutdown_mode \<Rightarrow> shutdown_mode \<Rightarrow> bool" where
  "less_eq_shutdown_mode a b \<longleftrightarrow> mode_rank a \<le> mode_rank b"

definition less_shutdown_mode :: "shutdown_mode \<Rightarrow> shutdown_mode \<Rightarrow> bool" where
  "less_shutdown_mode a b \<longleftrightarrow> mode_rank a < mode_rank b"

instance
  by standard (auto simp: less_eq_shutdown_mode_def less_shutdown_mode_def mode_rank_def
      split: shutdown_mode.splits)

end

lemma mode_order [simp]:
  "Running \<le> m" "m \<le> Immediate" "Graceful \<le> Graceful"
  "Immediate \<le> m \<longleftrightarrow> m = Immediate" "m \<le> Running \<longleftrightarrow> m = Running" "Graceful \<le> m \<longleftrightarrow> m \<noteq> Running"
  by (cases m; simp add: less_eq_shutdown_mode_def mode_rank_def)+

section \<open>Dropping\<close>

definition drop_reg_buf :: "reg_buf \<Rightarrow> 'k driver \<Rightarrow> 'k driver" where
  "drop_reg_buf h d = d\<lparr>regs := (regs d)(rb_registry h := map_option (reg_buf_drop h) (regs d (rb_registry h)))\<rparr>"

definition drop_any :: "any_buf option \<Rightarrow> 'k driver \<Rightarrow> 'k driver" where
  "drop_any b d = (case b of Some (AnyRegBuf h) \<Rightarrow> drop_reg_buf h d | _ \<Rightarrow> d)"

text \<open>\<open>Drop for SequentialGuard\<close>.\<close>

definition clear_sequential :: "fid option \<Rightarrow> 'k driver \<Rightarrow> 'k driver" where
  "clear_sequential g d =
     (case g of
        None \<Rightarrow> d
      | Some f \<Rightarrow> d\<lparr>files := (files d)(f := (files d f)\<lparr>fs_sequential := False\<rparr>)\<rparr>)"

text \<open>
  Dropping a payload drops its buffer and its guard, and its half of the result cell: when the
  future is gone too, whatever result lies in the cell is dropped with it.
\<close>

definition drop_cell_half :: "cid \<Rightarrow> 'k driver \<Rightarrow> 'k driver" where
  "drop_cell_half c d =
     (if rs_future (cells d c) then d
      else case rs_completed (cells d c) of
             None \<Rightarrow> d
           | Some (_, b) \<Rightarrow> drop_any b (d\<lparr>cells := (cells d)(c := (cells d c)\<lparr>rs_completed := None\<rparr>)\<rparr>))"

definition drop_payload :: "op_payload \<Rightarrow> 'k driver \<Rightarrow> 'k driver" where
  "drop_payload p d =
     clear_sequential (op_sequential p) (drop_cell_half (op_slot p) (drop_any (op_buffer p) d))"

section \<open>Reports and nudges\<close>

definition report :: "runtime_error \<Rightarrow> 'k driver \<Rightarrow> 'k driver" where
  "report e d = d\<lparr>deferred_reports := deferred_reports d @ [e]\<rparr>"

definition take_reports :: "'k driver \<Rightarrow> runtime_error list \<times> 'k driver" where
  "take_reports d = (deferred_reports d, d\<lparr>deferred_reports := []\<rparr>)"

definition mark_nudged :: "'k driver \<Rightarrow> 'k driver" where
  "mark_nudged d = d\<lparr>nudged := True\<rparr>"

definition take_driver_waker :: "'k driver \<Rightarrow> waker option \<times> 'k driver" where
  "take_driver_waker d = (driver_waker d, d\<lparr>driver_waker := None\<rparr>)"

definition nudge :: "'k driver \<Rightarrow> waker option \<times> 'k driver" where
  "nudge d = take_driver_waker (mark_nudged d)"

definition take_nudge :: "'k driver \<Rightarrow> bool \<times> 'k driver" where
  "take_nudge d = (nudged d, d\<lparr>nudged := False\<rparr>)"

section \<open>Registrations\<close>

definition adopt_registration :: "pending_registration \<Rightarrow> 'k driver \<Rightarrow> (rid option \<times> 'k driver) option" where
  "adopt_registration pending d =
     (case pending of
        PendBuffers buffers pointers extents watermarks descriptors \<Rightarrow>
          (case registry_new buffers pointers extents watermarks descriptors of
             None \<Rightarrow> None
           | Some r \<Rightarrow>
               let me = next_reg d;
                   d1 = d\<lparr>regs := (regs d)(me := Some r), next_reg := next_reg d + 1,
                          buffer_registration := Some me\<rparr>
               in Some (Some me,
                    (case buffer_registration d of
                       Some previous \<Rightarrow>
                         d1\<lparr>retired_buffer_registrations := retired_buffer_registrations d @ [previous]\<rparr>
                     | None \<Rightarrow> d1)))
      | PendFiles fs \<Rightarrow>
          let d1 = d\<lparr>file_reg := Some \<lparr>fr_files = fs, fr_count = length fs\<rparr>\<rparr>
          in Some (None,
               (case file_reg d of
                  Some previous \<Rightarrow>
                    d1\<lparr>retired_file_registrations := retired_file_registrations d @ [previous]\<rparr>
                | None \<Rightarrow> d1)))"

definition current_registry :: "'k driver \<Rightarrow> registry option" where
  "current_registry d = Option.bind (buffer_registration d) (regs d)"

definition check_registered_buffer :: "u32 \<Rightarrow> u32 \<Rightarrow> u32 \<Rightarrow> bool \<Rightarrow> 'k driver \<Rightarrow> runtime_error + unit" where
  "check_registered_buffer index offset len for_write d =
     (case current_registry d of
        None \<Rightarrow> Inl (RtInvalidRegisteredIndex index)
      | Some registration \<Rightarrow>
          (case registry_extent registration index of
             None \<Rightarrow> Inl (RtInvalidRegisteredIndex index)
           | Some extent \<Rightarrow>
               (case (if for_write then ok_or (registry_initialized registration index)
                                          (RtInvalidRegisteredIndex index)
                      else Inr extent) of
                  Inl e \<Rightarrow> Inl e
                | Inr bound \<Rightarrow>
                    let end = saturating_add (ucast offset :: u64) (ucast len)
                    in if end > bound
                       then Inl (RtRegisteredRangeOutOfBounds index (ucast offset) (ucast len) bound)
                       else Inr ())))"

definition check_registered_file :: "u32 \<Rightarrow> 'k driver \<Rightarrow> runtime_error + unit" where
  "check_registered_file index d =
     (case file_reg d of
        None \<Rightarrow> Inl (RtInvalidRegisteredIndex index)
      | Some r \<Rightarrow> if unat index < fr_count r then Inr () else Inl (RtInvalidRegisteredIndex index))"

section \<open>Submission and cancellation\<close>

definition note_submit_failure :: "runtime_error \<Rightarrow> 'k driver \<Rightarrow> 'k driver" where
  "note_submit_failure e d =
     (let d1 = d\<lparr>submit_failures := saturating_add (submit_failures d) 1\<rparr>
      in if submit_failures d1 = 1 \<or> submit_failures d1 mod 64 = 0 then report e d1 else d1)"

datatype cancel_target = CancelOwned fid | CancelRegistered u32

definition cancel_target_of :: "op_payload \<Rightarrow> cancel_target option" where
  "cancel_target_of p =
     (case (op_file p, op_registered_file p) of
        (Some f, _) \<Rightarrow> Some (CancelOwned f)
      | (None, Some index) \<Rightarrow> Some (CancelRegistered index)
      | (None, None) \<Rightarrow> None)"

definition cancel_op_for :: "token \<Rightarrow> token \<Rightarrow> cancel_target \<Rightarrow> 'k driver \<Rightarrow> missing_field + cancel_op" where
  "cancel_op_for t cancel_token target d =
     (let builder = cb_with_user_data (as_user_data cancel_token)
                      (cb_with_op_to_cancel (as_user_data t) cancel_builder_new)
      in cb_build
           (case target of
              CancelOwned f \<Rightarrow> cb_with_raw_handle (fs_handle (files d f)) builder
            | CancelRegistered index \<Rightarrow> cb_with_registered_handle_index index builder))"

text \<open>
  \<open>issue_cancel\<close>. A zero token declines, as in a release build; the tokens of the slab are
  never zero.
\<close>

definition issue_cancel :: "'k platform \<Rightarrow> token \<Rightarrow> 'k driver \<Rightarrow> 'k driver" where
  "issue_cancel P t d =
     (if torn_down d then d
      else if as_user_data t = 0 then d
      else if map_option fst (slab_state (slab d) t) \<noteq> Some Submitted then d
      else case Option.bind (slab_payload (slab d) t) cancel_target_of of
        None \<Rightarrow> d
      | Some target \<Rightarrow>
          (case slab_register_cancel t (slab d) of
             (None, _) \<Rightarrow> d
           | (Some cancel_token, s1) \<Rightarrow>
               let d1 = d\<lparr>slab := s1\<rparr> in
               (case cancel_op_for t cancel_token target d1 of
                  Inl _ \<Rightarrow> d1\<lparr>slab := snd (slab_cancel_request_not_enqueued cancel_token s1)\<rparr>
                | Inr op \<Rightarrow>
                    let d2 = (case target of
                          CancelOwned f \<Rightarrow> d1\<lparr>cancel_holds := cancel_holds d1 @ [(cancel_token, f)]\<rparr>
                        | CancelRegistered _ \<Rightarrow> d1)
                    in (case build_cancel_request P (ring d2) op (kern d2) of
                          (Inl _, k) \<Rightarrow>
                            d2\<lparr>kern := k,
                               cancel_holds := filter (\<lambda>(c, _). c \<noteq> cancel_token) (cancel_holds d2),
                               slab := snd (slab_cancel_request_not_enqueued cancel_token s1)\<rparr>
                        | (Inr _, k) \<Rightarrow> mark_nudged (d2\<lparr>kern := k, pending_submit := True\<rparr>)))))"

definition issue_cancels :: "'k platform \<Rightarrow> token list \<Rightarrow> 'k driver \<Rightarrow> 'k driver" where
  "issue_cancels P ts d = fold (issue_cancel P) ts d"

definition cancel_abandoned :: "'k platform \<Rightarrow> 'k driver \<Rightarrow> 'k driver" where
  "cancel_abandoned P d =
     (let d1 = issue_cancels P (deferred_cancels d) (d\<lparr>deferred_cancels := []\<rparr>)
      in issue_cancels P (slab_detached_submitted_uncancelled (slab d1)) d1)"

definition request_cancel :: "'k platform \<Rightarrow> token \<Rightarrow> 'k driver \<Rightarrow> 'k driver" where
  "request_cancel P t d =
     (if torn_down d then d
      else case map_option fst (slab_state (slab d) t) of
        Some Submitted \<Rightarrow> issue_cancel P t d
      | None \<Rightarrow> d
      | Some _ \<Rightarrow>
          if t \<notin> set (deferred_cancels d)
          then d\<lparr>deferred_cancels := deferred_cancels d @ [t]\<rparr> else d)"

definition submit_pending :: "'k platform \<Rightarrow> 'k driver \<Rightarrow> 'k driver" where
  "submit_pending P d =
     (if \<not> pending_submit d then d
      else case ring_submit P (ring d) 0 0 (kern d) of
        (Inr entries, k) \<Rightarrow>
          cancel_abandoned P
            (d\<lparr>kern := k, submissions := submissions d + 1,
               submitted_entries := submitted_entries d + ucast entries,
               pending_submit := False, submit_failures := 0,
               slab := slab_promote_built_to_submitted (slab d)\<rparr>)
      | (Inl e, k) \<Rightarrow> note_submit_failure (runtime_from_ring e) (d\<lparr>kern := k\<rparr>))"

end
