(* ===== verification/Driver_Reap.thy ===== *)
theory Driver_Reap
  imports Driver
begin

text \<open>
  Completions and teardown of the driver (\<open>runtime/mod.rs\<close>): \<open>reap_completions\<close>,
  \<open>drain_step\<close>, \<open>close_and_release\<close> and their helpers, and the construction of a driver.

  The reap loop runs for as long as the platform keeps delivering completions, so it is a
  \<open>partial_function\<close>; that it ends when the platform's queue is finite is proved in \<open>Driver_Total\<close>.
\<close>

section \<open>One completion\<close>

definition hresult_ok :: "hresult \<Rightarrow> win_error + unit" where
  "hresult_ok hr = (if 0 \<le> sint hr then Inr () else Inl (WinError hr))"

definition complete_result :: "cqe \<Rightarrow> runtime_error + u32" where
  "complete_result c =
     (case hresult_ok (cqe_result c) of
        Inr _ \<Rightarrow> Inr (ucast (cqe_information c))
      | Inl e \<Rightarrow> Inl (runtime_from_win e))"

text \<open>What becomes of a registration attempt, and of the buffer slot that carries it back.\<close>

definition settle_registration ::
    "(runtime_error + u32) \<Rightarrow> pending_registration option \<Rightarrow> any_buf option \<Rightarrow> 'k driver
      \<Rightarrow> (any_buf option \<times> 'k driver) option" where
  "settle_registration result pending buffer d =
     (case pending of
        None \<Rightarrow> Some (buffer, d)
      | Some p \<Rightarrow>
          let d1 = (case p of PendBuffers _ _ _ _ _ \<Rightarrow> d\<lparr>registration_in_flight := False\<rparr>
                            | PendFiles _ \<Rightarrow> d)
          in (case result of
                Inr _ \<Rightarrow>
                  (case adopt_registration p d1 of
                     None \<Rightarrow> None
                   | Some (Some registered, d2) \<Rightarrow> Some (Some (AnyCollection registered), d2)
                   | Some (None, d2) \<Rightarrow> Some (buffer, d2))
              | Inl _ \<Rightarrow> Some (Some (AnyPending p), d1)))"

definition raise_for :: "(runtime_error + u32) \<Rightarrow> (u32 \<times> u32) option \<Rightarrow> any_buf option \<Rightarrow> 'k driver \<Rightarrow> 'k driver" where
  "raise_for result registered_buffer buffer d =
     (case (registered_buffer, result, buffer) of
        (Some (index, offset), Inr transferred, Some (AnyRegBuf h)) \<Rightarrow>
          d\<lparr>regs := (regs d)(rb_registry h := map_option
              (raise_initialized index (ucast offset) (ucast transferred)) (regs d (rb_registry h)))\<rparr>
      | _ \<Rightarrow> d)"

definition refresh_for :: "any_buf option \<Rightarrow> 'k driver \<Rightarrow> any_buf option" where
  "refresh_for buffer d =
     (case buffer of
        Some (AnyRegBuf h) \<Rightarrow>
          (case regs d (rb_registry h) of
             Some r \<Rightarrow> Some (AnyRegBuf (reg_buf_refresh r h))
           | None \<Rightarrow> buffer)
      | _ \<Rightarrow> buffer)"

text \<open>Leaving a result in the cell: the waker found there is handed out to be woken later.\<close>

definition resolve_cell :: "cid \<Rightarrow> completed_op \<Rightarrow> 'k driver \<Rightarrow> waker list \<times> 'k driver" where
  "resolve_cell c r d =
     (let sl = cells d c in
      ((case rs_waker sl of Some w \<Rightarrow> [w] | None \<Rightarrow> []),
       d\<lparr>cells := (cells d)(c := sl\<lparr>rs_completed := Some r, rs_waker := None\<rparr>)\<rparr>))"

definition reap_cancel :: "token \<Rightarrow> 'k driver \<Rightarrow> 'k driver" where
  "reap_cancel t d =
     d\<lparr>slab := snd (slab_complete_cancel t (slab d)),
       cancel_holds := filter (\<lambda>(c, _). c \<noteq> t) (cancel_holds d)\<rparr>"

definition reap_operation :: "cqe \<Rightarrow> token \<Rightarrow> 'k driver \<Rightarrow> (waker list \<times> 'k driver) option" where
  "reap_operation c t d =
     (let result = complete_result c in
      case slab_complete t (slab d) of
        (None, s) \<Rightarrow> Some ([], d\<lparr>slab := s\<rparr>)
      | (Some payload, s) \<Rightarrow>
          let d0 = d\<lparr>slab := s\<rparr> in
          (case settle_registration result (op_pending payload) (op_buffer payload) d0 of
             None \<Rightarrow> None
           | Some (buffer, d1) \<Rightarrow>
               let d2 = raise_for result (op_registered_buffer payload) buffer d1;
                   buffer' = refresh_for buffer d2;
                   (ws, d3) = resolve_cell (op_slot payload) (result, buffer') d2
               in Some (ws, drop_payload (payload\<lparr>op_buffer := None, op_pending := None\<rparr>) d3)))"

definition reap_one :: "cqe \<Rightarrow> 'k driver \<Rightarrow> (waker list \<times> 'k driver) option" where
  "reap_one c d =
     (let t = from_user_data (cqe_user_data c)
      in if token_kind t = Cancel then Some ([], reap_cancel t d) else reap_operation c t d)"

section \<open>The reap loop\<close>

partial_function (option) reap_loop ::
    "'k platform \<Rightarrow> waker list \<Rightarrow> 'k driver \<Rightarrow> (waker list \<times> 'k driver) option" where
  "reap_loop P wakers d =
     (case pop_completion P (ring d) (kern d) of
        (Inr (Some c), k) \<Rightarrow>
          (case reap_one c (d\<lparr>kern := k\<rparr>) of
             None \<Rightarrow> None
           | Some (ws, d') \<Rightarrow> reap_loop P (wakers @ ws) d')
      | (Inr None, k) \<Rightarrow> Some (wakers, d\<lparr>kern := k\<rparr>)
      | (Inl e, k) \<Rightarrow> Some (wakers, report (runtime_from_ring e) (d\<lparr>kern := k\<rparr>)))"

definition reap_completions :: "'k platform \<Rightarrow> 'k driver \<Rightarrow> (waker list \<times> 'k driver) option" where
  "reap_completions P d = reap_loop P [] d"

section \<open>Abandoned operations\<close>

definition resolve_abandoned :: "op_payload \<Rightarrow> 'k driver \<Rightarrow> waker list \<times> 'k driver" where
  "resolve_abandoned payload d =
     (let resources = (case op_pending payload of
            Some p \<Rightarrow> Some (AnyPending p) | None \<Rightarrow> op_buffer payload);
          d0 = (case op_pending payload of Some _ \<Rightarrow> drop_any (op_buffer payload) d | None \<Rightarrow> d);
          (ws, d1) = resolve_cell (op_slot payload) (Inl RtAbandonedAtShutdown, resources) d0
      in (ws, drop_payload (payload\<lparr>op_buffer := None, op_pending := None\<rparr>) d1))"

definition resolve_unqueued_one :: "token \<Rightarrow> waker list \<times> 'k driver \<Rightarrow> waker list \<times> 'k driver" where
  "resolve_unqueued_one t st =
     (case st of (ws, d) \<Rightarrow>
        (case slab_complete t (slab d) of
           (None, s) \<Rightarrow> (ws, d\<lparr>slab := s\<rparr>)
         | (Some payload, s) \<Rightarrow>
             (case resolve_abandoned payload (d\<lparr>slab := s\<rparr>) of (ws', d') \<Rightarrow> (ws @ ws', d'))))"

definition resolve_unqueued :: "'k driver \<Rightarrow> waker list \<times> 'k driver" where
  "resolve_unqueued d = fold resolve_unqueued_one (slab_described (slab d)) ([], d)"

definition resolve_all :: "op_payload list \<Rightarrow> waker list \<times> 'k driver \<Rightarrow> waker list \<times> 'k driver" where
  "resolve_all ps st =
     fold (\<lambda>p (ws, d). case resolve_abandoned p d of (ws', d') \<Rightarrow> (ws @ ws', d')) ps st"

section \<open>Draining and closing\<close>

datatype step_outcome = Quiescent | Progressing | UnsubmittableResidue

definition RESIDUE_ATTEMPTS :: u32 where "RESIDUE_ATTEMPTS = 8"
definition CLOSE_ATTEMPTS :: nat where "CLOSE_ATTEMPTS = 3"
definition DRAIN_TIMEOUT_MS :: usize where "DRAIN_TIMEOUT_MS = 250"
definition SLOW_DRAIN_STEPS :: u32 where "SLOW_DRAIN_STEPS = 8"
definition SLOW_DRAIN_INTERVAL :: u32 where "SLOW_DRAIN_INTERVAL = 8"

definition drain_step :: "'k platform \<Rightarrow> 'k driver \<Rightarrow> (waker list \<times> step_outcome \<times> 'k driver) option" where
  "drain_step P d =
     (let (ws1, d1) = resolve_unqueued d;
          d2 = submit_pending P d1;
          d3 = (if shutdown d2 \<ge> Immediate
                then issue_cancels P (slab_submitted_uncancelled (slab d2)) d2 else d2);
          waiting = slab_outstanding (slab d3);
          d4 = (if slab_built (slab d3) = [] \<and> waiting > 0
                then d3\<lparr>kern := snd (ring_submit P (ring d3) (of_nat waiting) DRAIN_TIMEOUT_MS (kern d3))\<rparr>
                else d3)
      in case reap_completions P d4 of
           None \<Rightarrow> None
         | Some (ws2, d5) \<Rightarrow>
             Some (ws1 @ ws2,
               if slab_outstanding (slab d5) = 0 then Quiescent
               else if slab_awaiting_kernel (slab d5) = 0 \<and> submit_failures d5 \<ge> RESIDUE_ATTEMPTS
               then UnsubmittableResidue else Progressing,
               d5))"

text \<open>The loop that closes the ring: \<open>n\<close> more failures are tolerated. \<open>None\<close> is the abort.\<close>

fun close_loop :: "'k platform \<Rightarrow> nat \<Rightarrow> io_ring \<Rightarrow> 'k \<Rightarrow> (io_ring \<times> 'k) option" where
  "close_loop P 0 r k = None"
| "close_loop P (Suc n) r k =
     (case ring_close P r k of
        (Inr _, r', k') \<Rightarrow> Some (r', k')
      | (Inl _, r', k') \<Rightarrow> close_loop P n r' k')"

definition close_and_release :: "'k platform \<Rightarrow> 'k driver \<Rightarrow> (waker list \<times> 'k driver) option" where
  "close_and_release P d =
     (case close_loop P CLOSE_ATTEMPTS (ring d) (kern d) of
        None \<Rightarrow> None
      | Some (r, k) \<Rightarrow>
          let (payloads, s) = slab_drain (slab d);
              (ws, d1) = resolve_all payloads ([], d\<lparr>ring := r, kern := k, slab := s\<rparr>)
          in Some (ws @ map snd (shutdown_waiters d1),
               d1\<lparr>cancel_holds := [], buffer_registration := None,
                  retired_buffer_registrations := [], registration_in_flight := False,
                  file_reg := None, retired_file_registrations := [],
                  driver_waker := None, nudged := False, torn_down := True,
                  shutdown_waiters := []\<rparr>))"

definition report_slow_drain :: "u32 \<Rightarrow> 'k driver \<Rightarrow> 'k driver" where
  "report_slow_drain steps d =
     (if steps < SLOW_DRAIN_STEPS \<or> steps mod SLOW_DRAIN_INTERVAL \<noteq> 0 then d
      else
        let outstanding = slab_outstanding (slab d)
        in if outstanding = 0 then d
           else d\<lparr>deferred_reports := deferred_reports d @ [RtShutdownStalled outstanding]\<rparr>)"

text \<open>\<open>Drop for DriverInner\<close>: destroying a driver that is not torn down aborts.\<close>

definition driver_inner_drop :: "'k driver \<Rightarrow> unit option" where
  "driver_inner_drop d = (if \<not> torn_down d then None else Some ())"

section \<open>Construction\<close>

text \<open>
  \<open>with_error_observer\<close>. Creating the completion event and registering it with the thread
  pool (\<open>ArmedEvent::new\<close>) is the argument \<open>armed\<close>: its result and the event's handle. The
  observer itself plays no part in the state.
\<close>

definition driver_initial :: "io_ring \<Rightarrow> (fid \<Rightarrow> file_state) \<Rightarrow> 'k \<Rightarrow> 'k driver" where
  "driver_initial r fs k = \<lparr>ring = r, slab = slab_new, buffer_registration = None,
     retired_buffer_registrations = [], registration_in_flight = False, file_reg = None,
     retired_file_registrations = [], cancel_holds = [], deferred_cancels = [], nudged = False,
     driver_waker = None, pending_submit = False, shutdown = Running, torn_down = False,
     shutdown_waiters = [], next_waiter_id = 0, deferred_reports = [], submit_failures = 0,
     submissions = 0, submitted_entries = 0, cells = (\<lambda>_. result_slot_new), next_cell = 0,
     regs = (\<lambda>_. None), next_reg = 0, files = fs, kern = k\<rparr>"

definition with_error_observer ::
    "'k platform \<Rightarrow> io_ring \<Rightarrow> win_error + handle \<Rightarrow> (fid \<Rightarrow> file_state) \<Rightarrow> 'k
      \<Rightarrow> (runtime_error + 'k driver) \<times> io_ring \<times> 'k" where
  "with_error_observer P r armed fs k =
     (case armed of
        Inl e \<Rightarrow> (case ring_close P r k of (_, r', k') \<Rightarrow> (Inl (runtime_from_win e), r', k'))
      | Inr h \<Rightarrow>
          (case set_io_ring_completion_event P r h k of
             (Inl e, k1) \<Rightarrow> (case ring_close P r k1 of (_, r', k') \<Rightarrow> (Inl (runtime_from_ring e), r', k'))
           | (Inr _, k1) \<Rightarrow> (Inr (driver_initial r fs k1), r, k1)))"

definition driver_new ::
    "'k platform \<Rightarrow> io_ring \<Rightarrow> win_error + handle \<Rightarrow> (fid \<Rightarrow> file_state) \<Rightarrow> 'k
      \<Rightarrow> (runtime_error + 'k driver) \<times> io_ring \<times> 'k" where
  "driver_new P r armed fs k = with_error_observer P r armed fs k"

end
