(* ===== verification/Handle.thy ===== *)
theory Handle
  imports Driver_Reap
begin

text \<open>
  The handle's operations (\<open>impl Handle\<close> and the check-out of registered buffers).

  Each submitting operation checks the driver's state, puts a payload into the slab, builds
  one queue entry through the ring and, when anything fails, takes the payload out again and
  returns the caller's buffer with the error. The result is \<open>None\<close> for a panic, and
  otherwise the outcome, the wakers to wake once the borrow is gone, and the new driver. A
  buffer is described at the address it has in its box.
\<close>

section \<open>Futures as data\<close>

text \<open>\<open>OpFuture\<close>; its weak reference to the driver is looked at when it is dropped.\<close>

record op_future =
  of_token :: token
  of_cell :: cid
  of_finished :: bool

definition op_future_pending :: "token \<Rightarrow> cid \<Rightarrow> op_future" where
  "op_future_pending t c = \<lparr>of_token = t, of_cell = c, of_finished = False\<rparr>"

datatype file_target = TargetOwned fid | TargetRegistered u32

definition IORING_OP_READ :: i32 where "IORING_OP_READ = 1"
definition IORING_OP_REGISTER_FILES :: i32 where "IORING_OP_REGISTER_FILES = 2"
definition IORING_OP_REGISTER_BUFFERS :: i32 where "IORING_OP_REGISTER_BUFFERS = 3"
definition IORING_OP_WRITE :: i32 where "IORING_OP_WRITE = 5"
definition IORING_OP_FLUSH :: i32 where "IORING_OP_FLUSH = 6"

section \<open>Shared steps\<close>

definition option_list :: "'a option \<Rightarrow> 'a list" where
  "option_list x = (case x of Some v \<Rightarrow> [v] | None \<Rightarrow> [])"

definition alloc_cell :: "'k driver \<Rightarrow> cid \<times> 'k driver" where
  "alloc_cell d =
     (next_cell d, d\<lparr>cells := (cells d)(next_cell d := result_slot_new), next_cell := next_cell d + 1\<rparr>)"

text \<open>The payload of an operation on an owned file, before its buffer is put in.\<close>

definition file_payload :: "fid \<Rightarrow> cid \<Rightarrow> fid option \<Rightarrow> op_payload" where
  "file_payload f c sequential = \<lparr>op_buffer = None, op_file = Some f, op_slot = c,
     op_registered_buffer = None, op_registered_file = None, op_pending = None,
     op_sequential = sequential\<rparr>"

text \<open>The checks that come before any state changes.\<close>

definition check_running :: "'k platform \<Rightarrow> i32 \<Rightarrow> 'k driver \<Rightarrow> runtime_error + unit" where
  "check_running P op d =
     (if shutdown d \<noteq> Running then Inl RtShuttingDown
      else map_err runtime_from_ring (ensure_op_supported P (ring d) op (kern d)))"

text \<open>The tail of a successful build: mark it built, note that a submission is owed, nudge.\<close>

definition built_and_nudge :: "token \<Rightarrow> 'k driver \<Rightarrow> waker list \<times> 'k driver" where
  "built_and_nudge t d =
     (let (w, d') = nudge (d\<lparr>slab := snd (slab_set_lifecycle t Built (slab d)), pending_submit := True\<rparr>)
      in (option_list w, d'))"

text \<open>\<open>recover_buffer\<close>: the payload leaves the slab and the rest of it is dropped.\<close>

definition recover_any :: "token \<Rightarrow> 'k driver \<Rightarrow> (any_buf \<times> 'k driver) option" where
  "recover_any t d =
     (case slab_complete t (slab d) of
        (Some payload, s) \<Rightarrow>
          (case op_buffer payload of
             Some b \<Rightarrow> Some (b, drop_payload (payload\<lparr>op_buffer := None\<rparr>) (d\<lparr>slab := s\<rparr>))
           | None \<Rightarrow> None)
      | (None, _) \<Rightarrow> None)"

definition recover_buffer :: "token \<Rightarrow> 'k driver \<Rightarrow> (iobuf \<times> 'k driver) option" where
  "recover_buffer t d =
     (case recover_any t d of Some (AnyBuf b, d') \<Rightarrow> Some (b, d') | _ \<Rightarrow> None)"

definition recover_reg_buf :: "token \<Rightarrow> 'k driver \<Rightarrow> (reg_buf \<times> 'k driver) option" where
  "recover_reg_buf t d =
     (case recover_any t d of Some (AnyRegBuf h, d') \<Rightarrow> Some (h, d') | _ \<Rightarrow> None)"

text \<open>
  Dropping the result cell of an operation that never started: the future was not made, so
  its half of the cell goes with the local variable.
\<close>

definition drop_future_half :: "cid \<Rightarrow> 'k driver \<Rightarrow> 'k driver" where
  "drop_future_half c d = d\<lparr>cells := (cells d)(c := (cells d c)\<lparr>rs_future := False\<rparr>)\<rparr>"

definition put_buffer :: "token \<Rightarrow> any_buf \<Rightarrow> 'k driver \<Rightarrow> 'k driver option" where
  "put_buffer t b d =
     (case slab_payload (slab d) t of
        None \<Rightarrow> None
      | Some p \<Rightarrow> Some (d\<lparr>slab := slab_payload_write t (p\<lparr>op_buffer := Some b\<rparr>) (slab d)\<rparr>))"

section \<open>Reads and writes\<close>

text \<open>
  The part \<open>try_read\<close> and \<open>try_write\<close> share once the buffer has been checked: the
  payload goes into the slab, then the buffer into the payload, then the entry is built by
  \<open>call\<close>, which receives the token. On failure the buffer is recovered.
\<close>

definition start_buffer_op ::
    "fid \<Rightarrow> iobuf \<Rightarrow> fid option \<Rightarrow> (token \<Rightarrow> 'k driver \<Rightarrow> (runtime_error + unit) \<times> 'k) \<Rightarrow> 'k driver
      \<Rightarrow> ((runtime_error \<times> iobuf + op_future) \<times> waker list \<times> 'k driver) option" where
  "start_buffer_op f buf sequential call d =
     (let (c, d0) = alloc_cell d in
      case slab_insert (file_payload f c sequential) (slab d0) of
        None \<Rightarrow> None
      | Some (Inl p, s) \<Rightarrow>
          Some (Inl (RtTooManyOperations, buf), [], drop_future_half c (drop_payload p (d0\<lparr>slab := s\<rparr>)))
      | Some (Inr t, s) \<Rightarrow>
          (case put_buffer t (AnyBuf buf) (d0\<lparr>slab := s\<rparr>) of
             None \<Rightarrow> None
           | Some d1 \<Rightarrow>
               (case call t d1 of
                  (Inl e, k) \<Rightarrow>
                    (case recover_buffer t (d1\<lparr>kern := k\<rparr>) of
                       None \<Rightarrow> None
                     | Some (b, d2) \<Rightarrow> Some (Inl (e, b), [], drop_future_half c d2))
                | (Inr _, k) \<Rightarrow>
                    (case built_and_nudge t (d1\<lparr>kern := k\<rparr>) of
                       (ws, d2) \<Rightarrow> Some (Inr (op_future_pending t c), ws, d2)))))"

definition build_read_for ::
    "'k platform \<Rightarrow> fid \<Rightarrow> usize \<Rightarrow> u32 \<Rightarrow> u64 \<Rightarrow> sqe_flags \<Rightarrow> token \<Rightarrow> 'k driver
      \<Rightarrow> (runtime_error + unit) \<times> 'k" where
  "build_read_for P f ptr len offset flags t d =
     (case rb_build
             (rb_with_sqe_flags flags (rb_with_user_data (as_user_data t) (rb_with_offset offset
               (rb_with_num len (rb_with_raw_data_address ptr
                 (rb_with_raw_handle (fs_handle (files d f)) read_builder_new)))))) of
        Inl m \<Rightarrow> (Inl (runtime_from_missing m), kern d)
      | Inr op \<Rightarrow> (case build_read_file P (ring d) op (kern d) of (r, k) \<Rightarrow> (map_err runtime_from_ring r, k)))"

definition try_read ::
    "'k platform \<Rightarrow> fid \<Rightarrow> iobuf \<Rightarrow> u32 \<Rightarrow> u64 \<Rightarrow> sqe_flags \<Rightarrow> fid option \<Rightarrow> 'k driver
      \<Rightarrow> ((runtime_error \<times> iobuf + op_future) \<times> waker list \<times> 'k driver) option" where
  "try_read P f buf len offset flags sequential d =
     (case check_running P IORING_OP_READ d of
        Inl e \<Rightarrow> Some (Inl (e, buf), [], clear_sequential sequential d)
      | Inr _ \<Rightarrow>
          (case check_read_capacity buf (ucast len) of
             Inl e \<Rightarrow> Some (Inl (runtime_from_buf e, buf), [], clear_sequential sequential d)
           | Inr _ \<Rightarrow>
               start_buffer_op f buf sequential
                 (build_read_for P f (buf_mut_ptr buf) len offset flags) d))"

definition build_write_for ::
    "'k platform \<Rightarrow> fid \<Rightarrow> usize \<Rightarrow> u32 \<Rightarrow> u64 \<Rightarrow> write_flags \<Rightarrow> sqe_flags \<Rightarrow> token \<Rightarrow> 'k driver
      \<Rightarrow> (runtime_error + unit) \<times> 'k" where
  "build_write_for P f ptr len offset wflags flags t d =
     (case wb_build
             (wb_with_sqe_flags flags (wb_with_user_data (as_user_data t) (wb_with_write_flags wflags
               (wb_with_offset offset (wb_with_num len (wb_with_raw_data_address ptr
                 (wb_with_raw_handle (fs_handle (files d f)) write_builder_new))))))) of
        Inl m \<Rightarrow> (Inl (runtime_from_missing m), kern d)
      | Inr op \<Rightarrow> (case build_write_file P (ring d) op (kern d) of (r, k) \<Rightarrow> (map_err runtime_from_ring r, k)))"

definition try_write ::
    "'k platform \<Rightarrow> fid \<Rightarrow> iobuf \<Rightarrow> u32 \<Rightarrow> u64 \<Rightarrow> write_flags \<Rightarrow> sqe_flags \<Rightarrow> fid option \<Rightarrow> 'k driver
      \<Rightarrow> ((runtime_error \<times> iobuf + op_future) \<times> waker list \<times> 'k driver) option" where
  "try_write P f buf len offset wflags flags sequential d =
     (case check_running P IORING_OP_WRITE d of
        Inl e \<Rightarrow> Some (Inl (e, buf), [], clear_sequential sequential d)
      | Inr _ \<Rightarrow>
          (case check_write_initialized buf (ucast len) of
             Inl e \<Rightarrow> Some (Inl (runtime_from_buf e, buf), [], clear_sequential sequential d)
           | Inr _ \<Rightarrow>
               start_buffer_op f buf sequential
                 (build_write_for P f (buf_ptr buf) len offset wflags flags) d))"

section \<open>Flushes\<close>

definition build_flush_for ::
    "'k platform \<Rightarrow> fid \<Rightarrow> flush_mode \<Rightarrow> sqe_flags \<Rightarrow> token \<Rightarrow> 'k driver \<Rightarrow> (runtime_error + unit) \<times> 'k" where
  "build_flush_for P f mode flags t d =
     (case fb_build
             (fb_with_sqe_flags flags (fb_with_user_data (as_user_data t) (fb_with_flush_mode mode
               (fb_with_raw_handle (fs_handle (files d f)) flush_builder_new)))) of
        Inl m \<Rightarrow> (Inl (runtime_from_missing m), kern d)
      | Inr op \<Rightarrow> (case build_flush_file P (ring d) op (kern d) of (r, k) \<Rightarrow> (map_err runtime_from_ring r, k)))"

text \<open>A payload that is taken out again and dropped, after a build that failed.\<close>

definition discard_payload :: "token \<Rightarrow> 'k driver \<Rightarrow> 'k driver" where
  "discard_payload t d =
     (case slab_complete t (slab d) of
        (Some p, s) \<Rightarrow> drop_payload p (d\<lparr>slab := s\<rparr>)
      | (None, s) \<Rightarrow> d\<lparr>slab := s\<rparr>)"

definition try_flush ::
    "'k platform \<Rightarrow> fid \<Rightarrow> flush_mode \<Rightarrow> sqe_flags \<Rightarrow> 'k driver
      \<Rightarrow> ((runtime_error + op_future) \<times> waker list \<times> 'k driver) option" where
  "try_flush P f mode flags d =
     (case check_running P IORING_OP_FLUSH d of
        Inl e \<Rightarrow> Some (Inl e, [], d)
      | Inr _ \<Rightarrow>
          (let (c, d0) = alloc_cell d in
           case slab_insert (file_payload f c None) (slab d0) of
             None \<Rightarrow> None
           | Some (Inl p, s) \<Rightarrow>
               Some (Inl RtTooManyOperations, [], drop_future_half c (drop_payload p (d0\<lparr>slab := s\<rparr>)))
           | Some (Inr t, s) \<Rightarrow>
               (let d1 = d0\<lparr>slab := s\<rparr> in
                case build_flush_for P f mode flags t d1 of
                  (Inl e, k) \<Rightarrow> Some (Inl e, [], drop_future_half c (discard_payload t (d1\<lparr>kern := k\<rparr>)))
                | (Inr _, k) \<Rightarrow>
                    (case built_and_nudge t (d1\<lparr>kern := k\<rparr>) of
                       (ws, d2) \<Rightarrow> Some (Inr (op_future_pending t c), ws, d2)))))"

section \<open>Registrations\<close>

fun unbox_pending :: "pending_registration option \<Rightarrow> iobuf list" where
  "unbox_pending (Some (PendBuffers buffers _ _ _ _)) = buffers"
| "unbox_pending (Some (PendFiles _)) = []"
| "unbox_pending None = []"

definition unbox_payload :: "op_payload \<Rightarrow> iobuf list" where
  "unbox_payload p = unbox_pending (op_pending p)"

definition U32_MAX :: usize where "U32_MAX = 0xFFFFFFFF"

text \<open>The extent, the watermark and the address recorded for one buffer.\<close>

definition buffer_extent :: "iobuf \<Rightarrow> usize" where
  "buffer_extent b = min (buf_capacity b) U32_MAX"

definition buffer_watermark :: "iobuf \<Rightarrow> usize" where
  "buffer_watermark b = min (buf_len b) (buffer_extent b)"

definition describe_buffer :: "iobuf \<Rightarrow> buffer_info" where
  "describe_buffer b = from_raw_parts (buf_mut_ptr b) (ucast (buffer_extent b))"

definition registration_payload :: "cid \<Rightarrow> pending_registration \<Rightarrow> op_payload" where
  "registration_payload c pending = \<lparr>op_buffer = None, op_file = None, op_slot = c,
     op_registered_buffer = None, op_registered_file = None, op_pending = Some pending,
     op_sequential = None\<rparr>"

definition pend_buffers :: "iobuf list \<Rightarrow> pending_registration" where
  "pend_buffers buffers = PendBuffers buffers (map buf_mut_ptr buffers) (map buffer_extent buffers)
     (map buffer_watermark buffers) (map describe_buffer buffers)"

definition start_register_buffers ::
    "'k platform \<Rightarrow> iobuf list \<Rightarrow> 'k driver
      \<Rightarrow> ((runtime_error \<times> iobuf list + token \<times> cid) \<times> 'k driver) option" where
  "start_register_buffers P buffers d =
     (if buffers = [] then Some (Inl (RtMissingField ''buffers'', buffers), d)
      else if shutdown d \<noteq> Running then Some (Inl (RtShuttingDown, buffers), d)
      else if registration_in_flight d then Some (Inl (RtRegistrationPending, buffers), d)
      else case Option.bind (current_registry d) any_checked_out of
        Some index \<Rightarrow> Some (Inl (RtBufferCheckedOut index, buffers), d)
      | None \<Rightarrow>
          (case ensure_op_supported P (ring d) IORING_OP_REGISTER_BUFFERS (kern d) of
             Inl e \<Rightarrow> Some (Inl (runtime_from_ring e, buffers), d)
           | Inr _ \<Rightarrow>
               (let (c, d0) = alloc_cell d in
                case slab_insert (registration_payload c (pend_buffers buffers)) (slab d0) of
                  None \<Rightarrow> None
                | Some (Inl p, s) \<Rightarrow>
                    Some (Inl (RtTooManyOperations, unbox_payload p), drop_future_half c (d0\<lparr>slab := s\<rparr>))
                | Some (Inr t, s) \<Rightarrow>
                    (let d1 = d0\<lparr>slab := s\<rparr> in
                     case build_register_buffers P (ring d1) (map describe_buffer buffers)
                            (as_user_data t) (kern d1) of
                       (Inl e, k) \<Rightarrow>
                         (case slab_complete t (slab d1) of
                            (r, s') \<Rightarrow> Some (Inl (runtime_from_ring e,
                                case r of Some p \<Rightarrow> unbox_payload p | None \<Rightarrow> []),
                              drop_future_half c (d1\<lparr>kern := k, slab := s'\<rparr>)))
                     | (Inr _, k) \<Rightarrow>
                         Some (Inr (t, c),
                           d1\<lparr>kern := k, slab := snd (slab_set_lifecycle t Built (slab d1)),
                              pending_submit := True, registration_in_flight := True\<rparr>)))))"

definition start_register_files ::
    "'k platform \<Rightarrow> fid list \<Rightarrow> 'k driver \<Rightarrow> ((runtime_error + token \<times> cid) \<times> 'k driver) option" where
  "start_register_files P fs d =
     (if fs = [] then Some (Inl (RtMissingField ''files''), d)
      else if shutdown d \<noteq> Running then Some (Inl RtShuttingDown, d)
      else case ensure_op_supported P (ring d) IORING_OP_REGISTER_FILES (kern d) of
        Inl e \<Rightarrow> Some (Inl (runtime_from_ring e), d)
      | Inr _ \<Rightarrow>
          (let (c, d0) = alloc_cell d in
           case slab_insert (registration_payload c (PendFiles fs)) (slab d0) of
             None \<Rightarrow> None
           | Some (Inl p, s) \<Rightarrow> Some (Inl RtTooManyOperations, drop_future_half c (d0\<lparr>slab := s\<rparr>))
           | Some (Inr t, s) \<Rightarrow>
               (let d1 = d0\<lparr>slab := s\<rparr> in
                case build_register_file_handles P (ring d1) (map (\<lambda>f. fs_handle (files d1 f)) fs)
                       (as_user_data t) (kern d1) of
                  (Inl e, k) \<Rightarrow>
                    Some (Inl (runtime_from_ring e), drop_future_half c (discard_payload t (d1\<lparr>kern := k\<rparr>)))
                | (Inr _, k) \<Rightarrow>
                    Some (Inr (t, c),
                      d1\<lparr>kern := k, slab := snd (slab_set_lifecycle t Built (slab d1)),
                         pending_submit := True\<rparr>))))"

definition nudge_driver :: "'k driver \<Rightarrow> waker list \<times> 'k driver" where
  "nudge_driver d = (let (w, d') = nudge d in (option_list w, d'))"

text \<open>
  \<open>register_buffers\<close> and \<open>register_files\<close> up to their first suspension: the nudge follows
  the start without an await between them.
\<close>

definition register_buffers ::
    "'k platform \<Rightarrow> iobuf list \<Rightarrow> 'k driver
      \<Rightarrow> ((runtime_error \<times> iobuf list + op_future) \<times> waker list \<times> 'k driver) option" where
  "register_buffers P buffers d =
     (case start_register_buffers P buffers d of
        None \<Rightarrow> None
      | Some (Inl e, d') \<Rightarrow> Some (Inl e, [], d')
      | Some (Inr (t, c), d') \<Rightarrow>
          (case nudge_driver d' of (ws, d'') \<Rightarrow> Some (Inr (op_future_pending t c), ws, d'')))"

definition register_files ::
    "'k platform \<Rightarrow> fid list \<Rightarrow> 'k driver
      \<Rightarrow> ((runtime_error + op_future) \<times> waker list \<times> 'k driver) option" where
  "register_files P fs d =
     (case start_register_files P fs d of
        None \<Rightarrow> None
      | Some (Inl e, d') \<Rightarrow> Some (Inl e, [], d')
      | Some (Inr (t, c), d') \<Rightarrow>
          (case nudge_driver d' of (ws, d'') \<Rightarrow> Some (Inr (op_future_pending t c), ws, d'')))"

section \<open>Registered operations\<close>

definition registered_checks ::
    "'k platform \<Rightarrow> file_target \<Rightarrow> reg_buf \<Rightarrow> u32 \<Rightarrow> u32 \<Rightarrow> bool \<Rightarrow> 'k driver \<Rightarrow> runtime_error + unit" where
  "registered_checks P target h buffer_offset len is_write d =
     (case check_running P (if is_write then IORING_OP_WRITE else IORING_OP_READ) d of
        Inl e \<Rightarrow> Inl e
      | Inr _ \<Rightarrow>
          (case buffer_registration d of
             None \<Rightarrow> Inl (RtInvalidRegisteredIndex (rb_index h))
           | Some current \<Rightarrow>
               if current \<noteq> rb_registry h then Inl RtRegistrationSuperseded
               else
                 (case check_registered_buffer (rb_index h) buffer_offset len is_write d of
                    Inl e \<Rightarrow> Inl e
                  | Inr _ \<Rightarrow>
                      (case target of
                         TargetRegistered index \<Rightarrow> check_registered_file index d
                       | TargetOwned _ \<Rightarrow> Inr ()))))"

definition registered_payload :: "file_target \<Rightarrow> reg_buf \<Rightarrow> u32 \<Rightarrow> cid \<Rightarrow> op_payload" where
  "registered_payload target h buffer_offset c =
     \<lparr>op_buffer = Some (AnyRegBuf h),
      op_file = (case target of TargetOwned f \<Rightarrow> Some f | TargetRegistered _ \<Rightarrow> None),
      op_slot = c, op_registered_buffer = Some (rb_index h, buffer_offset),
      op_registered_file = (case target of TargetOwned _ \<Rightarrow> None | TargetRegistered index \<Rightarrow> Some index),
      op_pending = None, op_sequential = None\<rparr>"

definition build_registered ::
    "'k platform \<Rightarrow> file_target \<Rightarrow> u32 \<Rightarrow> u32 \<Rightarrow> u32 \<Rightarrow> u64 \<Rightarrow> bool \<Rightarrow> token \<Rightarrow> 'k driver
      \<Rightarrow> (runtime_error + unit) \<times> 'k" where
  "build_registered P target index buffer_offset len file_offset is_write t d =
     (if is_write then
        (let builder = wb_with_user_data (as_user_data t) (wb_with_offset file_offset
                         (wb_with_num len (wb_with_registered_data index buffer_offset write_builder_new)));
             builder = (case target of
                          TargetOwned f \<Rightarrow> wb_with_raw_handle (fs_handle (files d f)) builder
                        | TargetRegistered i \<Rightarrow> wb_with_registered_handle_index i builder)
         in case wb_build builder of
              Inl m \<Rightarrow> (Inl (runtime_from_missing m), kern d)
            | Inr op \<Rightarrow> (case build_write_file P (ring d) op (kern d) of (r, k) \<Rightarrow> (map_err runtime_from_ring r, k)))
      else
        (let builder = rb_with_user_data (as_user_data t) (rb_with_offset file_offset
                         (rb_with_num len (rb_with_registered_data index buffer_offset read_builder_new)));
             builder = (case target of
                          TargetOwned f \<Rightarrow> rb_with_raw_handle (fs_handle (files d f)) builder
                        | TargetRegistered i \<Rightarrow> rb_with_registered_handle_index i builder)
         in case rb_build builder of
              Inl m \<Rightarrow> (Inl (runtime_from_missing m), kern d)
            | Inr op \<Rightarrow> (case build_read_file P (ring d) op (kern d) of (r, k) \<Rightarrow> (map_err runtime_from_ring r, k))))"

definition try_registered_op ::
    "'k platform \<Rightarrow> file_target \<Rightarrow> reg_buf \<Rightarrow> u32 \<Rightarrow> u32 \<Rightarrow> u64 \<Rightarrow> bool \<Rightarrow> 'k driver
      \<Rightarrow> ((runtime_error \<times> reg_buf + op_future) \<times> waker list \<times> 'k driver) option" where
  "try_registered_op P target h buffer_offset len file_offset is_write d =
     (case registered_checks P target h buffer_offset len is_write d of
        Inl e \<Rightarrow> Some (Inl (e, h), [], d)
      | Inr _ \<Rightarrow>
          (let (c, d0) = alloc_cell d in
           case slab_insert (registered_payload target h buffer_offset c) (slab d0) of
             None \<Rightarrow> None
           | Some (Inl p, s) \<Rightarrow>
               (case op_buffer p of
                  Some (AnyRegBuf h') \<Rightarrow>
                    Some (Inl (RtTooManyOperations, h'), [], drop_future_half c (d0\<lparr>slab := s\<rparr>))
                | _ \<Rightarrow> None)
           | Some (Inr t, s) \<Rightarrow>
               (let d1 = d0\<lparr>slab := s\<rparr> in
                case build_registered P target (rb_index h) buffer_offset len file_offset is_write t d1 of
                  (Inl e, k) \<Rightarrow>
                    (case recover_reg_buf t (d1\<lparr>kern := k\<rparr>) of
                       None \<Rightarrow> None
                     | Some (h', d2) \<Rightarrow> Some (Inl (e, h'), [], drop_future_half c d2))
                | (Inr _, k) \<Rightarrow>
                    (case built_and_nudge t (d1\<lparr>kern := k\<rparr>) of
                       (ws, d2) \<Rightarrow> Some (Inr (op_future_pending t c), ws, d2)))))"

text \<open>
  \<open>RegisteredBuffers::check_out\<close>. \<open>alive\<close> says whether the registry's weak reference to
  the driver can be upgraded.
\<close>

definition check_out :: "bool \<Rightarrow> rid \<Rightarrow> u32 \<Rightarrow> 'k driver \<Rightarrow> ((runtime_error + reg_buf) \<times> 'k driver) option" where
  "check_out alive me index d =
     (if \<not> alive then Some (Inl RtShuttingDown, d)
      else if torn_down d \<or> shutdown d \<noteq> Running then Some (Inl RtShuttingDown, d)
      else if registration_in_flight d then Some (Inl RtRegistrationPending, d)
      else if buffer_registration d \<noteq> Some me then Some (Inl RtRegistrationSuperseded, d)
      else case regs d me of
        None \<Rightarrow> None
      | Some r \<Rightarrow>
          (case registry_claim me index r of
             None \<Rightarrow> None
           | Some (res, r') \<Rightarrow> Some (res, d\<lparr>regs := (regs d)(me := Some r')\<rparr>)))"

section \<open>Cancelling and shutting down\<close>

definition handle_cancel :: "'k platform \<Rightarrow> token \<Rightarrow> 'k driver \<Rightarrow> waker list \<times> 'k driver" where
  "handle_cancel P t d =
     (let (w, d') = take_driver_waker (request_cancel P t d) in (option_list w, d'))"

definition escalate :: "shutdown_mode \<Rightarrow> 'k driver \<Rightarrow> waker list \<times> 'k driver" where
  "escalate mode d =
     (if shutdown d \<ge> mode then ([], d)
      else let (w, d') = nudge (d\<lparr>shutdown := mode\<rparr>) in (option_list w, d'))"

definition handle_shutdown :: "'k driver \<Rightarrow> waker list \<times> 'k driver" where
  "handle_shutdown d = escalate Graceful d"

definition handle_shutdown_now :: "'k driver \<Rightarrow> waker list \<times> 'k driver" where
  "handle_shutdown_now d = escalate Immediate d"

definition is_shutting_down :: "'k driver \<Rightarrow> bool" where
  "is_shutting_down d = (shutdown d \<noteq> Running)"

definition handle_outstanding :: "'k driver \<Rightarrow> nat" where
  "handle_outstanding d = slab_outstanding (slab d)"

definition submission_counts :: "'k driver \<Rightarrow> u64 \<times> u64" where
  "submission_counts d = (submissions d, submitted_entries d)"

end
