(* ===== verification/Futures.thy ===== *)
theory Futures
  imports Handle Event
begin

text \<open>
  The futures of \<open>runtime/mod.rs\<close>: \<open>OpFuture\<close> and the futures that wrap it, with their
  drops, and \<open>ShutdownComplete\<close>.

  A poll takes the waker of its context and returns the outcome, the future's new state and
  the new driver; \<open>None\<close> is a panic (\<open>polled after completion\<close>, a lost buffer). Dropping
  a future takes two facts of its surroundings: whether the driver is still alive, and whether
  it is mutably borrowed at that moment.
\<close>

section \<open>Operation futures\<close>

datatype 'a poll = Ready 'a | NotReady

type_synonym resolution = "(runtime_error + u32) \<times> any_buf option"

definition poll_resolution :: "waker \<Rightarrow> op_future \<Rightarrow> 'k driver \<Rightarrow> resolution poll \<times> op_future \<times> 'k driver" where
  "poll_resolution w f d =
     (case rs_completed (cells d (of_cell f)) of
        Some (result, buffer) \<Rightarrow>
          (Ready (result, buffer), f\<lparr>of_finished := True\<rparr>,
           d\<lparr>cells := (cells d)(of_cell f := (cells d (of_cell f))\<lparr>rs_completed := None\<rparr>)\<rparr>)
      | None \<Rightarrow>
          (NotReady, f,
           d\<lparr>cells := (cells d)(of_cell f := (cells d (of_cell f))\<lparr>rs_waker := Some w\<rparr>)\<rparr>))"

text \<open>The future's half of the cell; a result nobody collected is dropped with it.\<close>

definition drop_future_cell :: "cid \<Rightarrow> 'k driver \<Rightarrow> 'k driver" where
  "drop_future_cell c d =
     (let sl = cells d c;
          d1 = d\<lparr>cells := (cells d)(c := sl\<lparr>rs_completed := None, rs_future := False\<rparr>)\<rparr>
      in case rs_completed sl of Some (_, b) \<Rightarrow> drop_any b d1 | None \<Rightarrow> d1)"

definition op_future_drop ::
    "'k platform \<Rightarrow> bool \<Rightarrow> bool \<Rightarrow> op_future \<Rightarrow> 'k driver \<Rightarrow> waker list \<times> 'k driver" where
  "op_future_drop P alive borrowed f d =
     (if of_finished f \<or> \<not> alive \<or> borrowed then ([], drop_future_cell (of_cell f) d)
      else
        (let (reached, s) = slab_detach (of_token f) (slab d);
             d1 = d\<lparr>slab := s\<rparr>;
             (w, d2) = (case reached of
                Some Described \<Rightarrow> (None, discard_payload (of_token f) d1)
              | Some Built \<Rightarrow> (None, d1)
              | Some Submitted \<Rightarrow> take_driver_waker (request_cancel P (of_token f) d1)
              | None \<Rightarrow> (None, d1))
         in (option_list w, drop_future_cell (of_cell f) d2)))"

section \<open>Outcomes\<close>

type_synonym 'b outcome = "(u32, 'b, runtime_error) buf_result"

definition into_outcome :: "resolution \<Rightarrow> iobuf outcome option" where
  "into_outcome r =
     (case r of
        (result, Some (AnyBuf b)) \<Rightarrow> Some (buf_result_new result b)
      | _ \<Rightarrow> None)"

definition into_outcome_reg :: "resolution \<Rightarrow> reg_buf outcome option" where
  "into_outcome_reg r =
     (case r of
        (result, Some (AnyRegBuf h)) \<Rightarrow> Some (buf_result_new result h)
      | _ \<Rightarrow> None)"

datatype 'b buf_op_state = BufFailed "(runtime_error \<times> 'b) option" | BufWaiting op_future | BufDone

definition operation_id :: "'b buf_op_state \<Rightarrow> token option" where
  "operation_id st = (case st of BufWaiting f \<Rightarrow> Some (of_token f) | _ \<Rightarrow> None)"

section \<open>Reads\<close>

definition read_future_poll ::
    "waker \<Rightarrow> iobuf buf_op_state \<Rightarrow> 'k driver
      \<Rightarrow> (iobuf outcome poll \<times> iobuf buf_op_state \<times> 'k driver) option" where
  "read_future_poll w st d =
     (case st of
        BufFailed None \<Rightarrow> None
      | BufFailed (Some (e, b)) \<Rightarrow> Some (Ready (buf_result_new (Inl e) b), BufDone, d)
      | BufDone \<Rightarrow> None
      | BufWaiting f \<Rightarrow>
          (case poll_resolution w f d of
             (NotReady, f', d') \<Rightarrow> Some (NotReady, BufWaiting f', d')
           | (Ready r, f', d') \<Rightarrow>
               (case into_outcome r of
                  None \<Rightarrow> None
                | Some out \<Rightarrow>
                    (case br_result out of
                       Inl _ \<Rightarrow> Some (Ready out, BufDone, d')
                     | Inr transferred \<Rightarrow>
                         (case set_buf_init (ucast transferred) (br_buffer out) of
                            None \<Rightarrow> None
                          | Some b \<Rightarrow> Some (Ready (out\<lparr>br_buffer := b\<rparr>), BufDone, d'))))))"

definition handle_read ::
    "'k platform \<Rightarrow> fid \<Rightarrow> iobuf \<Rightarrow> u32 \<Rightarrow> u64 \<Rightarrow> sqe_flags \<Rightarrow> fid option \<Rightarrow> 'k driver
      \<Rightarrow> (iobuf buf_op_state \<times> waker list \<times> 'k driver) option" where
  "handle_read P f b len offset flags sequential d =
     (case try_read P f b len offset flags sequential d of
        None \<Rightarrow> None
      | Some (Inr fut, ws, d') \<Rightarrow> Some (BufWaiting fut, ws, d')
      | Some (Inl (e, b'), ws, d') \<Rightarrow> Some (BufFailed (Some (e, b')), ws, d'))"

section \<open>Writes\<close>

record write_future =
  wf_inner :: op_future
  wf_done :: bool

text \<open>\<open>WriteFuture::failed\<close>: a future over a cell that already holds the outcome.\<close>

definition write_future_failed :: "runtime_error \<Rightarrow> iobuf \<Rightarrow> 'k driver \<Rightarrow> write_future \<times> 'k driver" where
  "write_future_failed e b d =
     (let (c, d1) = alloc_cell d in
      (\<lparr>wf_inner = \<lparr>of_token = from_user_data 0, of_cell = c, of_finished = True\<rparr>, wf_done = False\<rparr>,
       d1\<lparr>cells := (cells d1)(c := (cells d1 c)\<lparr>rs_completed := Some (Inl e, Some (AnyBuf b))\<rparr>)\<rparr>))"

definition handle_write ::
    "'k platform \<Rightarrow> fid \<Rightarrow> iobuf \<Rightarrow> u32 \<Rightarrow> u64 \<Rightarrow> write_flags \<Rightarrow> sqe_flags \<Rightarrow> fid option \<Rightarrow> 'k driver
      \<Rightarrow> (write_future \<times> waker list \<times> 'k driver) option" where
  "handle_write P f b len offset wflags flags sequential d =
     (case try_write P f b len offset wflags flags sequential d of
        None \<Rightarrow> None
      | Some (Inr fut, ws, d') \<Rightarrow> Some (\<lparr>wf_inner = fut, wf_done = False\<rparr>, ws, d')
      | Some (Inl (e, b'), ws, d') \<Rightarrow>
          (case write_future_failed e b' d' of (fut, d'') \<Rightarrow> Some (fut, ws, d'')))"

definition write_operation_id :: "write_future \<Rightarrow> token option" where
  "write_operation_id fut = (if of_finished (wf_inner fut) then None else Some (of_token (wf_inner fut)))"

definition write_future_poll ::
    "waker \<Rightarrow> write_future \<Rightarrow> 'k driver \<Rightarrow> (iobuf outcome poll \<times> write_future \<times> 'k driver) option" where
  "write_future_poll w fut d =
     (if wf_done fut then None
      else case poll_resolution w (wf_inner fut) d of
        (NotReady, f', d') \<Rightarrow> Some (NotReady, fut\<lparr>wf_inner := f'\<rparr>, d')
      | (Ready r, f', d') \<Rightarrow>
          (case into_outcome r of
             None \<Rightarrow> None
           | Some out \<Rightarrow> Some (Ready out, fut\<lparr>wf_inner := f', wf_done := True\<rparr>, d')))"

section \<open>Flushes\<close>

datatype flush_state = FlushFailed "runtime_error option" | FlushWaiting op_future | FlushDone

definition handle_flush ::
    "'k platform \<Rightarrow> fid \<Rightarrow> flush_mode \<Rightarrow> sqe_flags \<Rightarrow> 'k driver \<Rightarrow> (flush_state \<times> waker list \<times> 'k driver) option" where
  "handle_flush P f mode flags d =
     (case try_flush P f mode flags d of
        None \<Rightarrow> None
      | Some (Inr fut, ws, d') \<Rightarrow> Some (FlushWaiting fut, ws, d')
      | Some (Inl e, ws, d') \<Rightarrow> Some (FlushFailed (Some e), ws, d'))"

definition flush_future_poll ::
    "waker \<Rightarrow> flush_state \<Rightarrow> 'k driver \<Rightarrow> ((runtime_error + unit) poll \<times> flush_state \<times> 'k driver) option" where
  "flush_future_poll w st d =
     (case st of
        FlushFailed None \<Rightarrow> None
      | FlushFailed (Some e) \<Rightarrow> Some (Ready (Inl e), FlushDone, d)
      | FlushDone \<Rightarrow> None
      | FlushWaiting f \<Rightarrow>
          (case poll_resolution w f d of
             (NotReady, f', d') \<Rightarrow> Some (NotReady, FlushWaiting f', d')
           | (Ready (result, _), f', d') \<Rightarrow> Some (Ready (map_sum id (\<lambda>_. ()) result), FlushDone, d')))"

section \<open>Registered operations and registrations\<close>

definition registered_op ::
    "'k platform \<Rightarrow> file_target \<Rightarrow> reg_buf \<Rightarrow> u32 \<Rightarrow> u32 \<Rightarrow> u64 \<Rightarrow> bool \<Rightarrow> 'k driver
      \<Rightarrow> (reg_buf buf_op_state \<times> waker list \<times> 'k driver) option" where
  "registered_op P target h buffer_offset len file_offset is_write d =
     (case try_registered_op P target h buffer_offset len file_offset is_write d of
        None \<Rightarrow> None
      | Some (Inr fut, ws, d') \<Rightarrow> Some (BufWaiting fut, ws, d')
      | Some (Inl (e, h'), ws, d') \<Rightarrow> Some (BufFailed (Some (e, h')), ws, d'))"

definition registered_future_poll ::
    "waker \<Rightarrow> reg_buf buf_op_state \<Rightarrow> 'k driver
      \<Rightarrow> (reg_buf outcome poll \<times> reg_buf buf_op_state \<times> 'k driver) option" where
  "registered_future_poll w st d =
     (case st of
        BufFailed None \<Rightarrow> None
      | BufFailed (Some (e, h)) \<Rightarrow> Some (Ready (buf_result_new (Inl e) h), BufDone, d)
      | BufDone \<Rightarrow> None
      | BufWaiting f \<Rightarrow>
          (case poll_resolution w f d of
             (NotReady, f', d') \<Rightarrow> Some (NotReady, BufWaiting f', d')
           | (Ready r, f', d') \<Rightarrow>
               (case into_outcome_reg r of
                  None \<Rightarrow> None
                | Some out \<Rightarrow> Some (Ready out, BufDone, d'))))"

definition registration_poll ::
    "waker \<Rightarrow> op_future \<Rightarrow> 'k driver
      \<Rightarrow> (runtime_error \<times> pending_registration option + rid option) poll \<times> op_future \<times> 'k driver" where
  "registration_poll w f d =
     (case poll_resolution w f d of
        (NotReady, f', d') \<Rightarrow> (NotReady, f', d')
      | (Ready (result, returned), f', d') \<Rightarrow>
          (Ready (case result of
             Inr _ \<Rightarrow> Inr (case returned of Some (AnyCollection r) \<Rightarrow> Some r | _ \<Rightarrow> None)
           | Inl e \<Rightarrow> Inl (e, case returned of Some (AnyPending p) \<Rightarrow> Some p | _ \<Rightarrow> None)), f', d'))"

text \<open>\<open>Registered<T>\<close>, and the end of \<open>register_buffers\<close> once its future is ready.\<close>

datatype registered = RegisteredOk rid | RegisteredFailed runtime_error "iobuf list"

definition registered_is_ok :: "registered \<Rightarrow> bool" where
  "registered_is_ok r = (case r of RegisteredOk _ \<Rightarrow> True | _ \<Rightarrow> False)"

definition registered_err :: "registered \<Rightarrow> runtime_error option" where
  "registered_err r = (case r of RegisteredOk _ \<Rightarrow> None | RegisteredFailed e _ \<Rightarrow> Some e)"

definition registered_unwrap :: "registered \<Rightarrow> rid option" where
  "registered_unwrap r = (case r of RegisteredOk c \<Rightarrow> Some c | RegisteredFailed _ _ \<Rightarrow> None)"

definition finish_register_buffers ::
    "runtime_error \<times> pending_registration option + rid option \<Rightarrow> registered option" where
  "finish_register_buffers r =
     (case r of
        Inr (Some c) \<Rightarrow> Some (RegisteredOk c)
      | Inr None \<Rightarrow> None
      | Inl (e, returned) \<Rightarrow> Some (RegisteredFailed e (unbox_pending returned)))"

definition finish_register_files ::
    "runtime_error \<times> pending_registration option + rid option \<Rightarrow> runtime_error + unit" where
  "finish_register_files r = (case r of Inr _ \<Rightarrow> Inr () | Inl (e, _) \<Rightarrow> Inl e)"

section \<open>Awaiting the end of teardown\<close>

record shutdown_future =
  sf_id :: "u64 option"

definition shutdown_complete_poll :: "waker \<Rightarrow> shutdown_future \<Rightarrow> 'k driver \<Rightarrow> bool \<times> shutdown_future \<times> 'k driver" where
  "shutdown_complete_poll w f d =
     (if torn_down d then (True, f, d)
      else
        (let (i, f1, d1) = (case sf_id f of
               Some i \<Rightarrow> (i, f, d)
             | None \<Rightarrow> (next_waiter_id d, f\<lparr>sf_id := Some (next_waiter_id d)\<rparr>,
                          d\<lparr>next_waiter_id := next_waiter_id d + 1\<rparr>))
         in (False, f1,
             d1\<lparr>shutdown_waiters :=
                 (case find_index (\<lambda>(j, _). j = i) (shutdown_waiters d1) of
                    Some n \<Rightarrow> (shutdown_waiters d1)[n := (fst (shutdown_waiters d1 ! n), w)]
                  | None \<Rightarrow> shutdown_waiters d1 @ [(i, w)])\<rparr>)))"

definition shutdown_complete_drop :: "bool \<Rightarrow> shutdown_future \<Rightarrow> 'k driver \<Rightarrow> 'k driver" where
  "shutdown_complete_drop borrowed f d =
     (case sf_id f of
        None \<Rightarrow> d
      | Some i \<Rightarrow>
          if borrowed then d
          else d\<lparr>shutdown_waiters := filter (\<lambda>(j, _). j \<noteq> i) (shutdown_waiters d)\<rparr>)"

end
