(* ===== verification/Drive.thy ===== *)
theory Drive
  imports Futures
begin

text \<open>
  Driving: \<open>Driver::drive\<close>, the park, the asynchronous teardown and \<open>Drop for Driver\<close>.

  \<open>drive\<close> is a coroutine; its suspension points are the constructors of \<open>drive_pc\<close>. Between
  two suspension points it runs without interference except at the places where it calls
  back into caller code (wakers and the observer), which come after the borrow is released;
  those calls are transitions of their own in \<open>World\<close>.
\<close>

section \<open>One pass\<close>

record pass_result =
  pr_shutting_down :: bool
  pr_retry_owed :: bool
  pr_wakers :: "waker list"
  pr_reports :: "runtime_error list"

definition drive_pass :: "'k platform \<Rightarrow> 'k driver \<Rightarrow> (pass_result \<times> 'k driver) option" where
  "drive_pass P d =
     (case reap_completions P (submit_pending P d) of
        None \<Rightarrow> None
      | Some (ws, d1) \<Rightarrow>
          (case take_reports d1 of
             (rs, d2) \<Rightarrow>
               Some (\<lparr>pr_shutting_down = (shutdown d2 \<noteq> Running), pr_retry_owed = pending_submit d2,
                      pr_wakers = ws, pr_reports = rs\<rparr>, d2)))"

section \<open>Parking\<close>

definition park_poll :: "waker \<Rightarrow> 'k driver \<times> armed_state \<Rightarrow> poll_unit \<times> 'k driver \<times> armed_state" where
  "park_poll w st =
     (case st of (d, s) \<Rightarrow>
        (case take_nudge d of
           (True, d1) \<Rightarrow> (PollReady, snd (take_driver_waker d1), release_waker s)
         | (False, d1) \<Rightarrow>
             (case poll_signalled w s of
                (PollReady, s') \<Rightarrow> (PollReady, snd (take_driver_waker (d1\<lparr>driver_waker := Some w\<rparr>)), s')
              | (PollPending, s') \<Rightarrow> (PollPending, d1\<lparr>driver_waker := Some w\<rparr>, s'))))"

definition park_drop :: "bool \<Rightarrow> 'k driver \<times> armed_state \<Rightarrow> 'k driver \<times> armed_state" where
  "park_drop borrowed st =
     (case st of (d, s) \<Rightarrow>
        (if borrowed then d else snd (take_driver_waker d), release_waker s))"

section \<open>Teardown\<close>

text \<open>One step of the drain, with the throttled report of a slow one.\<close>

definition teardown_step ::
    "'k platform \<Rightarrow> u32 \<Rightarrow> 'k driver \<Rightarrow> (step_outcome \<times> u32 \<times> waker list \<times> runtime_error list \<times> 'k driver) option" where
  "teardown_step P steps d =
     (case drain_step P d of
        None \<Rightarrow> None
      | Some (ws, outcome, d1) \<Rightarrow>
          (let steps' = saturating_add steps 1 in
           case take_reports (report_slow_drain steps' d1) of
             (rs, d2) \<Rightarrow> Some (outcome, steps', ws, rs, d2)))"

definition teardown_finish ::
    "'k platform \<Rightarrow> 'k driver \<Rightarrow> (waker list \<times> runtime_error list \<times> 'k driver) option" where
  "teardown_finish P d =
     (case close_and_release P d of
        None \<Rightarrow> None
      | Some (ws, d1) \<Rightarrow> (case take_reports d1 of (rs, d2) \<Rightarrow> Some (ws, rs, d2)))"

text \<open>
  \<open>Drop for Driver\<close>: the same steps in a blocking loop, after raising the shutdown mode. The
  loop waits for the kernel, so it is partial.
\<close>

partial_function (option) driver_drop_loop ::
    "'k platform \<Rightarrow> u32 \<Rightarrow> waker list \<Rightarrow> runtime_error list \<Rightarrow> 'k driver
      \<Rightarrow> (waker list \<times> runtime_error list \<times> 'k driver) option" where
  "driver_drop_loop P steps wakers reports d =
     (case teardown_step P steps d of
        None \<Rightarrow> None
      | Some (outcome, steps', ws, rs, d1) \<Rightarrow>
          (if outcome \<noteq> Progressing then
             (case teardown_finish P d1 of
                None \<Rightarrow> None
              | Some (ws', rs', d2) \<Rightarrow> Some (wakers @ ws @ ws', reports @ rs @ rs', d2))
           else driver_drop_loop P steps' (wakers @ ws) (reports @ rs) d1))"

definition driver_drop ::
    "'k platform \<Rightarrow> 'k driver \<Rightarrow> (waker list \<times> runtime_error list \<times> 'k driver) option" where
  "driver_drop P d =
     (if torn_down d then Some ([], [], d)
      else driver_drop_loop P 0 [] [] (d\<lparr>shutdown := max (shutdown d) Immediate\<rparr>))"

section \<open>The coroutine\<close>

text \<open>
  Where the task that drives stands: not driving, about to run a pass, yielding because a
  retry is owed, about to park, parked, draining after a number of steps, about to close the
  ring, or done.
\<close>

datatype drive_pc =
    PcIdle | PcPass | PcYield | PcPark | PcParked | PcDrain u32 | PcDrainYield u32 | PcClose | PcDone

text \<open>
  One resumption step of \<open>drive\<close>, from one place to the next, with the wakers to wake and the
  reports to deliver. The waker is the one of the driving task.
\<close>

definition drive_resume ::
    "'k platform \<Rightarrow> waker \<Rightarrow> drive_pc \<Rightarrow> 'k driver \<times> armed_state
      \<Rightarrow> (drive_pc \<times> waker list \<times> runtime_error list \<times> 'k driver \<times> armed_state) option" where
  "drive_resume P w pc st =
     (case st of (d, s) \<Rightarrow>
        (case pc of
           PcPass \<Rightarrow>
             (case drive_pass P d of
                None \<Rightarrow> None
              | Some (r, d') \<Rightarrow>
                  Some (if pr_shutting_down r then PcDrain 0
                        else if pr_retry_owed r then PcYield else PcPark,
                        pr_wakers r, pr_reports r, d', s))
         | PcYield \<Rightarrow> Some (PcPass, [], [], d, s)
         | PcPark \<Rightarrow>
             (case park_poll w (d, s) of
                (PollReady, d', s') \<Rightarrow> (case park_drop False (d', s') of (d'', s'') \<Rightarrow> Some (PcPass, [], [], d'', s''))
              | (PollPending, d', s') \<Rightarrow> Some (PcParked, [], [], d', s'))
         | PcParked \<Rightarrow>
             (case park_poll w (d, s) of
                (PollReady, d', s') \<Rightarrow> (case park_drop False (d', s') of (d'', s'') \<Rightarrow> Some (PcPass, [], [], d'', s''))
              | (PollPending, d', s') \<Rightarrow> Some (PcParked, [], [], d', s'))
         | PcDrain steps \<Rightarrow>
             (if torn_down d then Some (PcDone, [], [], d, s)
              else
                (case teardown_step P steps d of
                   None \<Rightarrow> None
                 | Some (outcome, steps', ws, rs, d') \<Rightarrow>
                     Some (if outcome = Progressing then PcDrainYield steps' else PcClose, ws, rs, d', s)))
         | PcClose \<Rightarrow>
             (case teardown_finish P d of
                None \<Rightarrow> None
              | Some (ws, rs, d') \<Rightarrow> Some (PcDone, ws, rs, d', s))
         | PcDrainYield steps \<Rightarrow> Some (PcDrain steps, [], [], d, s)
         | PcIdle \<Rightarrow> Some (PcPass, [], [], d, s)
         | PcDone \<Rightarrow> Some (PcDone, [], [], d, s)))"

text \<open>Dropping the future of \<open>drive\<close>: a park it holds is dropped with it.\<close>

definition drive_drop :: "bool \<Rightarrow> drive_pc \<Rightarrow> 'k driver \<times> armed_state \<Rightarrow> drive_pc \<times> 'k driver \<times> armed_state" where
  "drive_drop borrowed pc st =
     (PcIdle, (if pc = PcParked then park_drop borrowed st else st))"

end
