(* ===== verification/File.thy ===== *)
theory File
  imports Futures
begin

text \<open>
  Files (\<open>file.rs\<close>).

  A \<open>File\<close> shares its \<open>FileState\<close> with the operations naming it, so here a file is the
  number of its state in the driver. Positional operations pass the caller's offset on;
  sequential ones claim the file's sequential slot, take the offset from the cursor and advance
  the cursor when their future sees the completion. The slot is released by the drop of the
  guard, which lives in the operation's payload. \<open>GetFileType\<close> is the parameter \<open>ft\<close>;
  the standard library's opening of a file and \<open>NtQueryInformationFile\<close> are arguments too.
\<close>

section \<open>Making a file\<close>

definition FILE_FLAG_OVERLAPPED :: u32 where "FILE_FLAG_OVERLAPPED = 0x40000000"

definition file_state_new :: "handle \<Rightarrow> file_state" where
  "file_state_new h = \<lparr>fs_handle = h, fs_cursor = 0, fs_sequential = False, fs_type = None\<rparr>"

definition file_from_std :: "handle \<Rightarrow> file_state" where
  "file_from_std h = file_state_new h"

definition file_from_raw_handle :: "handle \<Rightarrow> file_state" where
  "file_from_raw_handle h = file_state_new h"

text \<open>The standard library's \<open>OpenOptions\<close>, as far as the crate sets them.\<close>

record open_options =
  oo_read :: bool
  oo_write :: bool
  oo_create :: bool
  oo_truncate :: bool
  oo_custom_flags :: u32

definition open_options_new :: open_options where
  "open_options_new = \<lparr>oo_read = False, oo_write = False, oo_create = False, oo_truncate = False,
     oo_custom_flags = 0\<rparr>"

definition file_open :: "(open_options \<Rightarrow> string \<Rightarrow> win_error + handle) \<Rightarrow> string \<Rightarrow> win_error + file_state" where
  "file_open std_open path =
     map_sum id file_from_std
       (std_open (open_options_new\<lparr>oo_read := True, oo_custom_flags := FILE_FLAG_OVERLAPPED\<rparr>) path)"

definition file_create :: "(open_options \<Rightarrow> string \<Rightarrow> win_error + handle) \<Rightarrow> string \<Rightarrow> win_error + file_state" where
  "file_create std_open path =
     map_sum id file_from_std
       (std_open (open_options_new\<lparr>oo_write := True, oo_create := True, oo_truncate := True,
          oo_custom_flags := FILE_FLAG_OVERLAPPED\<rparr>) path)"

definition FILE_SYNCHRONOUS_IO_NONALERT :: u32 where "FILE_SYNCHRONOUS_IO_NONALERT = 0x20"

text \<open>\<open>is_synchronous\<close>: the query yields a status and the mode; a failed status is an error.\<close>

definition is_synchronous :: "(handle \<Rightarrow> i32 \<times> u32) \<Rightarrow> file_state \<Rightarrow> i32 + bool" where
  "is_synchronous query st =
     (case query (fs_handle st) of
        (status, mode) \<Rightarrow>
          if sint status < 0 then Inl status
          else Inr (and mode FILE_SYNCHRONOUS_IO_NONALERT \<noteq> 0))"

section \<open>The cursor and the sequential slot\<close>

definition raw_handle :: "fid \<Rightarrow> 'k driver \<Rightarrow> handle" where
  "raw_handle f d = fs_handle (files d f)"

definition set_file :: "fid \<Rightarrow> file_state \<Rightarrow> 'k driver \<Rightarrow> 'k driver" where
  "set_file f st d = d\<lparr>files := (files d)(f := st)\<rparr>"

definition file_cursor :: "fid \<Rightarrow> 'k driver \<Rightarrow> u64" where
  "file_cursor f d = fs_cursor (files d f)"

definition set_cursor :: "fid \<Rightarrow> u64 \<Rightarrow> 'k driver \<Rightarrow> 'k driver" where
  "set_cursor f position d = set_file f ((files d f)\<lparr>fs_cursor := position\<rparr>) d"

definition sequential_outstanding :: "fid \<Rightarrow> 'k driver \<Rightarrow> bool" where
  "sequential_outstanding f d = fs_sequential (files d f)"

definition FILE_TYPE_UNKNOWN :: u32 where "FILE_TYPE_UNKNOWN = 0"
definition FILE_TYPE_DISK :: u32 where "FILE_TYPE_DISK = 1"
definition FILE_TYPE_CHAR :: u32 where "FILE_TYPE_CHAR = 2"
definition FILE_TYPE_PIPE :: u32 where "FILE_TYPE_PIPE = 3"

definition check_has_file_offset ::
    "(handle \<Rightarrow> u32) \<Rightarrow> fid \<Rightarrow> 'k driver \<Rightarrow> (file_error + unit) \<times> 'k driver" where
  "check_has_file_offset ft f d =
     (let (file_type, d1) = (case fs_type (files d f) of
            Some cached \<Rightarrow> (cached, d)
          | None \<Rightarrow> (let queried = ft (raw_handle f d)
                    in (queried, set_file f ((files d f)\<lparr>fs_type := Some queried\<rparr>) d)))
      in (if file_type = FILE_TYPE_PIPE \<or> file_type = FILE_TYPE_CHAR
          then Inl (FiNotSeekable file_type) else Inr (), d1))"

text \<open>\<open>SequentialGuard::claim\<close>: the flag is replaced by true whether or not it was set.\<close>

definition sequential_claim :: "fid \<Rightarrow> 'k driver \<Rightarrow> fid option \<times> 'k driver" where
  "sequential_claim f d =
     (if fs_sequential (files d f) then None else Some f,
      set_file f ((files d f)\<lparr>fs_sequential := True\<rparr>) d)"

type_synonym file_outcome = "(u32, iobuf, file_error) buf_result"

definition file_outcome :: "iobuf outcome \<Rightarrow> file_outcome" where
  "file_outcome out = buf_result_new (map_sum file_from_runtime id (br_result out)) (br_buffer out)"

definition advance_on_success :: "fid \<Rightarrow> file_outcome \<Rightarrow> 'k driver \<Rightarrow> 'k driver" where
  "advance_on_success f out d =
     (case br_result out of
        Inr transferred \<Rightarrow> set_cursor f (saturating_add (file_cursor f d) (ucast transferred)) d
      | Inl _ \<Rightarrow> d)"

section \<open>Positional operations\<close>

definition file_read_at ::
    "'k platform \<Rightarrow> fid \<Rightarrow> iobuf \<Rightarrow> u32 \<Rightarrow> u64 \<Rightarrow> 'k driver
      \<Rightarrow> (iobuf buf_op_state \<times> waker list \<times> 'k driver) option" where
  "file_read_at P f b len offset d = handle_read P f b len offset SQE_NONE None d"

definition file_write_at ::
    "'k platform \<Rightarrow> fid \<Rightarrow> iobuf \<Rightarrow> u32 \<Rightarrow> u64 \<Rightarrow> 'k driver
      \<Rightarrow> (write_future \<times> waker list \<times> 'k driver) option" where
  "file_write_at P f b len offset d = handle_write P f b len offset FILE_WRITE_FLAGS_NONE SQE_NONE None d"

definition FILE_FLUSH_DEFAULT :: flush_mode where "FILE_FLUSH_DEFAULT = 0"

definition file_flush ::
    "'k platform \<Rightarrow> fid \<Rightarrow> 'k driver \<Rightarrow> (flush_state \<times> waker list \<times> 'k driver) option" where
  "file_flush P f d = handle_flush P f FILE_FLUSH_DEFAULT SQE_NONE d"

definition file_flush_with_mode ::
    "'k platform \<Rightarrow> fid \<Rightarrow> flush_mode \<Rightarrow> 'k driver \<Rightarrow> (flush_state \<times> waker list \<times> 'k driver) option" where
  "file_flush_with_mode P f mode d = handle_flush P f mode SQE_NONE d"

definition positional_read_poll ::
    "waker \<Rightarrow> iobuf buf_op_state \<Rightarrow> 'k driver
      \<Rightarrow> (file_outcome poll \<times> iobuf buf_op_state \<times> 'k driver) option" where
  "positional_read_poll w st d =
     (case read_future_poll w st d of
        None \<Rightarrow> None
      | Some (NotReady, st', d') \<Rightarrow> Some (NotReady, st', d')
      | Some (Ready out, st', d') \<Rightarrow> Some (Ready (file_outcome out), st', d'))"

definition positional_write_poll ::
    "waker \<Rightarrow> write_future \<Rightarrow> 'k driver \<Rightarrow> (file_outcome poll \<times> write_future \<times> 'k driver) option" where
  "positional_write_poll w fut d =
     (case write_future_poll w fut d of
        None \<Rightarrow> None
      | Some (NotReady, fut', d') \<Rightarrow> Some (NotReady, fut', d')
      | Some (Ready out, fut', d') \<Rightarrow> Some (Ready (file_outcome out), fut', d'))"

definition file_flush_poll ::
    "waker \<Rightarrow> flush_state \<Rightarrow> 'k driver \<Rightarrow> ((file_error + unit) poll \<times> flush_state \<times> 'k driver) option" where
  "file_flush_poll w st d =
     (case flush_future_poll w st d of
        None \<Rightarrow> None
      | Some (NotReady, st', d') \<Rightarrow> Some (NotReady, st', d')
      | Some (Ready r, st', d') \<Rightarrow> Some (Ready (map_sum file_from_runtime id r), st', d'))"

section \<open>Sequential operations\<close>

text \<open>\<open>SequentialRead\<close> and \<open>SequentialWrite\<close>, over the state of the driver's own future.\<close>

record 's sequential_op =
  so_inner :: "'s option"
  so_rejected :: "(file_error \<times> iobuf) option"
  so_state :: fid

definition sequential_rejected :: "fid \<Rightarrow> file_error \<Rightarrow> iobuf \<Rightarrow> 's sequential_op" where
  "sequential_rejected f e b = \<lparr>so_inner = None, so_rejected = Some (e, b), so_state = f\<rparr>"

text \<open>
  What \<open>read\<close> and \<open>write\<close> share: the check, the offset, the claim, and then the driver's
  operation, which is given the offset and the guard.
\<close>

definition start_sequential ::
    "(handle \<Rightarrow> u32) \<Rightarrow> fid \<Rightarrow> iobuf
      \<Rightarrow> (u64 \<Rightarrow> fid option \<Rightarrow> 'k driver \<Rightarrow> ('s \<times> waker list \<times> 'k driver) option) \<Rightarrow> 'k driver
      \<Rightarrow> ('s sequential_op \<times> waker list \<times> 'k driver) option" where
  "start_sequential ft f b start d =
     (case check_has_file_offset ft f d of
        (Inl e, d1) \<Rightarrow> Some (sequential_rejected f e b, [], d1)
      | (Inr _, d1) \<Rightarrow>
          (let offset = file_cursor f d1 in
           case sequential_claim f d1 of
             (None, d2) \<Rightarrow> Some (sequential_rejected f FiOperationOutstanding b, [], d2)
           | (Some guard, d2) \<Rightarrow>
               (case start offset (Some guard) d2 of
                  None \<Rightarrow> None
                | Some (fut, ws, d3) \<Rightarrow>
                    Some (\<lparr>so_inner = Some fut, so_rejected = None, so_state = f\<rparr>, ws, d3))))"

definition file_read ::
    "'k platform \<Rightarrow> (handle \<Rightarrow> u32) \<Rightarrow> fid \<Rightarrow> iobuf \<Rightarrow> u32 \<Rightarrow> 'k driver
      \<Rightarrow> (iobuf buf_op_state sequential_op \<times> waker list \<times> 'k driver) option" where
  "file_read P ft f b len d =
     start_sequential ft f b (\<lambda>offset guard. handle_read P f b len offset SQE_NONE guard) d"

definition file_write ::
    "'k platform \<Rightarrow> (handle \<Rightarrow> u32) \<Rightarrow> fid \<Rightarrow> iobuf \<Rightarrow> u32 \<Rightarrow> 'k driver
      \<Rightarrow> (write_future sequential_op \<times> waker list \<times> 'k driver) option" where
  "file_write P ft f b len d =
     start_sequential ft f b (\<lambda>offset guard. handle_write P f b len offset FILE_WRITE_FLAGS_NONE SQE_NONE guard) d"

text \<open>
  The poll. \<open>None\<close> is the panic of the \<open>expect\<close> when a rejected operation is polled again,
  or of the inner future.
\<close>

definition sequential_poll ::
    "('s \<Rightarrow> 'k driver \<Rightarrow> (iobuf outcome poll \<times> 's \<times> 'k driver) option) \<Rightarrow> 's sequential_op \<Rightarrow> 'k driver
      \<Rightarrow> (file_outcome poll \<times> 's sequential_op \<times> 'k driver) option" where
  "sequential_poll inner_poll so d =
     (case so_rejected so of
        Some (e, b) \<Rightarrow> Some (Ready (buf_result_new (Inl e) b), so\<lparr>so_rejected := None\<rparr>, d)
      | None \<Rightarrow>
          (case so_inner so of
             None \<Rightarrow> None
           | Some inner \<Rightarrow>
               (case inner_poll inner d of
                  None \<Rightarrow> None
                | Some (NotReady, inner', d') \<Rightarrow> Some (NotReady, so\<lparr>so_inner := Some inner'\<rparr>, d')
                | Some (Ready out, inner', d') \<Rightarrow>
                    Some (Ready (file_outcome out), so\<lparr>so_inner := Some inner'\<rparr>,
                          advance_on_success (so_state so) (file_outcome out) d'))))"

definition sequential_read_poll ::
    "waker \<Rightarrow> iobuf buf_op_state sequential_op \<Rightarrow> 'k driver
      \<Rightarrow> (file_outcome poll \<times> iobuf buf_op_state sequential_op \<times> 'k driver) option" where
  "sequential_read_poll w so d = sequential_poll (read_future_poll w) so d"

definition sequential_write_poll ::
    "waker \<Rightarrow> write_future sequential_op \<Rightarrow> 'k driver
      \<Rightarrow> (file_outcome poll \<times> write_future sequential_op \<times> 'k driver) option" where
  "sequential_write_poll w so d = sequential_poll (write_future_poll w) so d"

definition sequential_read_id :: "iobuf buf_op_state sequential_op \<Rightarrow> token option" where
  "sequential_read_id so = Option.bind (so_inner so) operation_id"

definition sequential_write_id :: "write_future sequential_op \<Rightarrow> token option" where
  "sequential_write_id so = Option.bind (so_inner so) write_operation_id"

section \<open>The cursor follows the completions\<close>

lemma cursor_advanced [simp]:
  "file_cursor f (advance_on_success g out d) =
     (case br_result out of
        Inr n \<Rightarrow> if f = g then saturating_add (file_cursor f d) (ucast n) else file_cursor f d
      | Inl _ \<Rightarrow> file_cursor f d)"
  by (auto simp: advance_on_success_def set_cursor_def set_file_def file_cursor_def split: sum.split)

lemma poll_resolution_frame:
  "poll_resolution w f d = (r, f', d') \<Longrightarrow> files d' = files d \<and> slab d' = slab d"
  by (auto simp: poll_resolution_def split: option.splits prod.splits)

lemma read_future_poll_frame:
  "read_future_poll w st d = Some (r, st', d') \<Longrightarrow>
     d' = d \<or> (\<exists>f. d' = snd (snd (poll_resolution w f d)))"
  by (auto simp: read_future_poll_def
      split: buf_op_state.splits option.splits prod.splits poll.splits sum.splits) (metis snd_conv)+

lemma write_future_poll_frame:
  "write_future_poll w st d = Some (r, st', d') \<Longrightarrow> \<exists>f. d' = snd (snd (poll_resolution w f d))"
  by (auto simp: write_future_poll_def split: option.splits prod.splits poll.splits if_splits) (metis snd_conv)+

lemma polled_files:
  "read_future_poll w st d = Some (r, st', d') \<Longrightarrow> files d' = files d"
  "write_future_poll w fut d = Some (r', fut', d') \<Longrightarrow> files d' = files d"
  using read_future_poll_frame [of w st d r st' d'] write_future_poll_frame [of w fut d r' fut' d']
  by (auto dest: poll_resolution_frame split: prod.splits) (metis poll_resolution_frame prod.collapse)+

end
