(* ===== verification/Driver_Slab.thy ===== *)
theory Driver_Slab
  imports Drive File
begin

text \<open>
  What the driver does to its slab.

  The first section records which fields each helper leaves alone. Then every operation of the
  driver is described by its effect on the abstract map of the slab and by the slab commands
  it issues: an operation \<open>keeps\<close> a key when none of its commands can remove the payload
  stored under it.
\<close>

section \<open>Frames\<close>

lemma drop_reg_buf_frame [simp]:
  "ring (drop_reg_buf h d) = ring d" "slab (drop_reg_buf h d) = slab d"
  "buffer_registration (drop_reg_buf h d) = buffer_registration d" "retired_buffer_registrations (drop_reg_buf h d) = retired_buffer_registrations d"
  "registration_in_flight (drop_reg_buf h d) = registration_in_flight d" "file_reg (drop_reg_buf h d) = file_reg d"
  "retired_file_registrations (drop_reg_buf h d) = retired_file_registrations d" "cancel_holds (drop_reg_buf h d) = cancel_holds d"
  "deferred_cancels (drop_reg_buf h d) = deferred_cancels d" "nudged (drop_reg_buf h d) = nudged d"
  "driver_waker (drop_reg_buf h d) = driver_waker d" "pending_submit (drop_reg_buf h d) = pending_submit d"
  "shutdown (drop_reg_buf h d) = shutdown d" "torn_down (drop_reg_buf h d) = torn_down d"
  "shutdown_waiters (drop_reg_buf h d) = shutdown_waiters d" "next_waiter_id (drop_reg_buf h d) = next_waiter_id d"
  "deferred_reports (drop_reg_buf h d) = deferred_reports d" "submit_failures (drop_reg_buf h d) = submit_failures d"
  "submissions (drop_reg_buf h d) = submissions d" "submitted_entries (drop_reg_buf h d) = submitted_entries d"
  "next_reg (drop_reg_buf h d) = next_reg d" "kern (drop_reg_buf h d) = kern d"
  "next_cell (drop_reg_buf h d) = next_cell d" "cells (drop_reg_buf h d) = cells d"
  "files (drop_reg_buf h d) = files d"
  by (simp_all add: drop_reg_buf_def)

lemma drop_any_frame [simp]:
  "ring (drop_any b d) = ring d" "slab (drop_any b d) = slab d"
  "buffer_registration (drop_any b d) = buffer_registration d" "retired_buffer_registrations (drop_any b d) = retired_buffer_registrations d"
  "registration_in_flight (drop_any b d) = registration_in_flight d" "file_reg (drop_any b d) = file_reg d"
  "retired_file_registrations (drop_any b d) = retired_file_registrations d" "cancel_holds (drop_any b d) = cancel_holds d"
  "deferred_cancels (drop_any b d) = deferred_cancels d" "nudged (drop_any b d) = nudged d"
  "driver_waker (drop_any b d) = driver_waker d" "pending_submit (drop_any b d) = pending_submit d"
  "shutdown (drop_any b d) = shutdown d" "torn_down (drop_any b d) = torn_down d"
  "shutdown_waiters (drop_any b d) = shutdown_waiters d" "next_waiter_id (drop_any b d) = next_waiter_id d"
  "deferred_reports (drop_any b d) = deferred_reports d" "submit_failures (drop_any b d) = submit_failures d"
  "submissions (drop_any b d) = submissions d" "submitted_entries (drop_any b d) = submitted_entries d"
  "next_reg (drop_any b d) = next_reg d" "kern (drop_any b d) = kern d"
  "next_cell (drop_any b d) = next_cell d" "cells (drop_any b d) = cells d"
  "files (drop_any b d) = files d"
  by (cases b; cases "the b"; simp add: drop_any_def)+

lemma clear_sequential_frame [simp]:
  "ring (clear_sequential g d) = ring d" "slab (clear_sequential g d) = slab d"
  "buffer_registration (clear_sequential g d) = buffer_registration d" "retired_buffer_registrations (clear_sequential g d) = retired_buffer_registrations d"
  "registration_in_flight (clear_sequential g d) = registration_in_flight d" "file_reg (clear_sequential g d) = file_reg d"
  "retired_file_registrations (clear_sequential g d) = retired_file_registrations d" "cancel_holds (clear_sequential g d) = cancel_holds d"
  "deferred_cancels (clear_sequential g d) = deferred_cancels d" "nudged (clear_sequential g d) = nudged d"
  "driver_waker (clear_sequential g d) = driver_waker d" "pending_submit (clear_sequential g d) = pending_submit d"
  "shutdown (clear_sequential g d) = shutdown d" "torn_down (clear_sequential g d) = torn_down d"
  "shutdown_waiters (clear_sequential g d) = shutdown_waiters d" "next_waiter_id (clear_sequential g d) = next_waiter_id d"
  "deferred_reports (clear_sequential g d) = deferred_reports d" "submit_failures (clear_sequential g d) = submit_failures d"
  "submissions (clear_sequential g d) = submissions d" "submitted_entries (clear_sequential g d) = submitted_entries d"
  "next_reg (clear_sequential g d) = next_reg d" "kern (clear_sequential g d) = kern d"
  "next_cell (clear_sequential g d) = next_cell d" "cells (clear_sequential g d) = cells d"
  "regs (clear_sequential g d) = regs d"
  by (cases g; simp add: clear_sequential_def)+

lemma drop_cell_half_frame [simp]:
  "ring (drop_cell_half c d) = ring d" "slab (drop_cell_half c d) = slab d"
  "buffer_registration (drop_cell_half c d) = buffer_registration d" "retired_buffer_registrations (drop_cell_half c d) = retired_buffer_registrations d"
  "registration_in_flight (drop_cell_half c d) = registration_in_flight d" "file_reg (drop_cell_half c d) = file_reg d"
  "retired_file_registrations (drop_cell_half c d) = retired_file_registrations d" "cancel_holds (drop_cell_half c d) = cancel_holds d"
  "deferred_cancels (drop_cell_half c d) = deferred_cancels d" "nudged (drop_cell_half c d) = nudged d"
  "driver_waker (drop_cell_half c d) = driver_waker d" "pending_submit (drop_cell_half c d) = pending_submit d"
  "shutdown (drop_cell_half c d) = shutdown d" "torn_down (drop_cell_half c d) = torn_down d"
  "shutdown_waiters (drop_cell_half c d) = shutdown_waiters d" "next_waiter_id (drop_cell_half c d) = next_waiter_id d"
  "deferred_reports (drop_cell_half c d) = deferred_reports d" "submit_failures (drop_cell_half c d) = submit_failures d"
  "submissions (drop_cell_half c d) = submissions d" "submitted_entries (drop_cell_half c d) = submitted_entries d"
  "next_reg (drop_cell_half c d) = next_reg d" "kern (drop_cell_half c d) = kern d"
  "next_cell (drop_cell_half c d) = next_cell d" "files (drop_cell_half c d) = files d"
  by (cases "rs_completed (cells d c)"; simp add: drop_cell_half_def split_def)+

lemma drop_payload_frame [simp]:
  "ring (drop_payload p d) = ring d" "slab (drop_payload p d) = slab d"
  "buffer_registration (drop_payload p d) = buffer_registration d" "retired_buffer_registrations (drop_payload p d) = retired_buffer_registrations d"
  "registration_in_flight (drop_payload p d) = registration_in_flight d" "file_reg (drop_payload p d) = file_reg d"
  "retired_file_registrations (drop_payload p d) = retired_file_registrations d" "cancel_holds (drop_payload p d) = cancel_holds d"
  "deferred_cancels (drop_payload p d) = deferred_cancels d" "nudged (drop_payload p d) = nudged d"
  "driver_waker (drop_payload p d) = driver_waker d" "pending_submit (drop_payload p d) = pending_submit d"
  "shutdown (drop_payload p d) = shutdown d" "torn_down (drop_payload p d) = torn_down d"
  "shutdown_waiters (drop_payload p d) = shutdown_waiters d" "next_waiter_id (drop_payload p d) = next_waiter_id d"
  "deferred_reports (drop_payload p d) = deferred_reports d" "submit_failures (drop_payload p d) = submit_failures d"
  "submissions (drop_payload p d) = submissions d" "submitted_entries (drop_payload p d) = submitted_entries d"
  "next_reg (drop_payload p d) = next_reg d" "kern (drop_payload p d) = kern d"
  "next_cell (drop_payload p d) = next_cell d"
  by (simp_all add: drop_payload_def)

lemma resolve_cell_frame [simp]:
  "ring (snd (resolve_cell c r d)) = ring d" "slab (snd (resolve_cell c r d)) = slab d"
  "buffer_registration (snd (resolve_cell c r d)) = buffer_registration d" "retired_buffer_registrations (snd (resolve_cell c r d)) = retired_buffer_registrations d"
  "registration_in_flight (snd (resolve_cell c r d)) = registration_in_flight d" "file_reg (snd (resolve_cell c r d)) = file_reg d"
  "retired_file_registrations (snd (resolve_cell c r d)) = retired_file_registrations d" "cancel_holds (snd (resolve_cell c r d)) = cancel_holds d"
  "deferred_cancels (snd (resolve_cell c r d)) = deferred_cancels d" "nudged (snd (resolve_cell c r d)) = nudged d"
  "driver_waker (snd (resolve_cell c r d)) = driver_waker d" "pending_submit (snd (resolve_cell c r d)) = pending_submit d"
  "shutdown (snd (resolve_cell c r d)) = shutdown d" "torn_down (snd (resolve_cell c r d)) = torn_down d"
  "shutdown_waiters (snd (resolve_cell c r d)) = shutdown_waiters d" "next_waiter_id (snd (resolve_cell c r d)) = next_waiter_id d"
  "deferred_reports (snd (resolve_cell c r d)) = deferred_reports d" "submit_failures (snd (resolve_cell c r d)) = submit_failures d"
  "submissions (snd (resolve_cell c r d)) = submissions d" "submitted_entries (snd (resolve_cell c r d)) = submitted_entries d"
  "next_reg (snd (resolve_cell c r d)) = next_reg d" "kern (snd (resolve_cell c r d)) = kern d"
  "next_cell (snd (resolve_cell c r d)) = next_cell d" "regs (snd (resolve_cell c r d)) = regs d"
  "files (snd (resolve_cell c r d)) = files d"
  by (simp_all add: resolve_cell_def Let_def)

lemma raise_for_frame [simp]:
  "ring (raise_for r rb b d) = ring d" "slab (raise_for r rb b d) = slab d"
  "buffer_registration (raise_for r rb b d) = buffer_registration d" "retired_buffer_registrations (raise_for r rb b d) = retired_buffer_registrations d"
  "registration_in_flight (raise_for r rb b d) = registration_in_flight d" "file_reg (raise_for r rb b d) = file_reg d"
  "retired_file_registrations (raise_for r rb b d) = retired_file_registrations d" "cancel_holds (raise_for r rb b d) = cancel_holds d"
  "deferred_cancels (raise_for r rb b d) = deferred_cancels d" "nudged (raise_for r rb b d) = nudged d"
  "driver_waker (raise_for r rb b d) = driver_waker d" "pending_submit (raise_for r rb b d) = pending_submit d"
  "shutdown (raise_for r rb b d) = shutdown d" "torn_down (raise_for r rb b d) = torn_down d"
  "shutdown_waiters (raise_for r rb b d) = shutdown_waiters d" "next_waiter_id (raise_for r rb b d) = next_waiter_id d"
  "deferred_reports (raise_for r rb b d) = deferred_reports d" "submit_failures (raise_for r rb b d) = submit_failures d"
  "submissions (raise_for r rb b d) = submissions d" "submitted_entries (raise_for r rb b d) = submitted_entries d"
  "next_reg (raise_for r rb b d) = next_reg d" "kern (raise_for r rb b d) = kern d"
  "next_cell (raise_for r rb b d) = next_cell d" "cells (raise_for r rb b d) = cells d"
  "files (raise_for r rb b d) = files d"
  by (simp_all add: raise_for_def split: option.split sum.split any_buf.split)

lemma drop_future_half_frame [simp]:
  "ring (drop_future_half c d) = ring d" "slab (drop_future_half c d) = slab d"
  "buffer_registration (drop_future_half c d) = buffer_registration d" "retired_buffer_registrations (drop_future_half c d) = retired_buffer_registrations d"
  "registration_in_flight (drop_future_half c d) = registration_in_flight d" "file_reg (drop_future_half c d) = file_reg d"
  "retired_file_registrations (drop_future_half c d) = retired_file_registrations d" "cancel_holds (drop_future_half c d) = cancel_holds d"
  "deferred_cancels (drop_future_half c d) = deferred_cancels d" "nudged (drop_future_half c d) = nudged d"
  "driver_waker (drop_future_half c d) = driver_waker d" "pending_submit (drop_future_half c d) = pending_submit d"
  "shutdown (drop_future_half c d) = shutdown d" "torn_down (drop_future_half c d) = torn_down d"
  "shutdown_waiters (drop_future_half c d) = shutdown_waiters d" "next_waiter_id (drop_future_half c d) = next_waiter_id d"
  "deferred_reports (drop_future_half c d) = deferred_reports d" "submit_failures (drop_future_half c d) = submit_failures d"
  "submissions (drop_future_half c d) = submissions d" "submitted_entries (drop_future_half c d) = submitted_entries d"
  "next_reg (drop_future_half c d) = next_reg d" "kern (drop_future_half c d) = kern d"
  "next_cell (drop_future_half c d) = next_cell d" "regs (drop_future_half c d) = regs d"
  "files (drop_future_half c d) = files d"
  by (simp_all add: drop_future_half_def)

lemma drop_future_cell_frame [simp]:
  "ring (drop_future_cell c d) = ring d" "slab (drop_future_cell c d) = slab d"
  "buffer_registration (drop_future_cell c d) = buffer_registration d" "retired_buffer_registrations (drop_future_cell c d) = retired_buffer_registrations d"
  "registration_in_flight (drop_future_cell c d) = registration_in_flight d" "file_reg (drop_future_cell c d) = file_reg d"
  "retired_file_registrations (drop_future_cell c d) = retired_file_registrations d" "cancel_holds (drop_future_cell c d) = cancel_holds d"
  "deferred_cancels (drop_future_cell c d) = deferred_cancels d" "nudged (drop_future_cell c d) = nudged d"
  "driver_waker (drop_future_cell c d) = driver_waker d" "pending_submit (drop_future_cell c d) = pending_submit d"
  "shutdown (drop_future_cell c d) = shutdown d" "torn_down (drop_future_cell c d) = torn_down d"
  "shutdown_waiters (drop_future_cell c d) = shutdown_waiters d" "next_waiter_id (drop_future_cell c d) = next_waiter_id d"
  "deferred_reports (drop_future_cell c d) = deferred_reports d" "submit_failures (drop_future_cell c d) = submit_failures d"
  "submissions (drop_future_cell c d) = submissions d" "submitted_entries (drop_future_cell c d) = submitted_entries d"
  "next_reg (drop_future_cell c d) = next_reg d" "kern (drop_future_cell c d) = kern d"
  "next_cell (drop_future_cell c d) = next_cell d" "files (drop_future_cell c d) = files d"
  by (cases "rs_completed (cells d c)"; simp add: drop_future_cell_def split_def)+

lemma report_frame [simp]:
  "ring (report e d) = ring d" "slab (report e d) = slab d"
  "buffer_registration (report e d) = buffer_registration d" "retired_buffer_registrations (report e d) = retired_buffer_registrations d"
  "registration_in_flight (report e d) = registration_in_flight d" "file_reg (report e d) = file_reg d"
  "retired_file_registrations (report e d) = retired_file_registrations d" "cancel_holds (report e d) = cancel_holds d"
  "deferred_cancels (report e d) = deferred_cancels d" "nudged (report e d) = nudged d"
  "driver_waker (report e d) = driver_waker d" "pending_submit (report e d) = pending_submit d"
  "shutdown (report e d) = shutdown d" "torn_down (report e d) = torn_down d"
  "shutdown_waiters (report e d) = shutdown_waiters d" "next_waiter_id (report e d) = next_waiter_id d"
  "submit_failures (report e d) = submit_failures d" "submissions (report e d) = submissions d"
  "submitted_entries (report e d) = submitted_entries d" "next_reg (report e d) = next_reg d"
  "kern (report e d) = kern d" "next_cell (report e d) = next_cell d"
  "cells (report e d) = cells d" "regs (report e d) = regs d"
  "files (report e d) = files d"
  by (simp_all add: report_def)

lemma alloc_cell_frame [simp]:
  "ring (snd (alloc_cell d)) = ring d" "slab (snd (alloc_cell d)) = slab d"
  "buffer_registration (snd (alloc_cell d)) = buffer_registration d" "retired_buffer_registrations (snd (alloc_cell d)) = retired_buffer_registrations d"
  "registration_in_flight (snd (alloc_cell d)) = registration_in_flight d" "file_reg (snd (alloc_cell d)) = file_reg d"
  "retired_file_registrations (snd (alloc_cell d)) = retired_file_registrations d" "cancel_holds (snd (alloc_cell d)) = cancel_holds d"
  "deferred_cancels (snd (alloc_cell d)) = deferred_cancels d" "nudged (snd (alloc_cell d)) = nudged d"
  "driver_waker (snd (alloc_cell d)) = driver_waker d" "pending_submit (snd (alloc_cell d)) = pending_submit d"
  "shutdown (snd (alloc_cell d)) = shutdown d" "torn_down (snd (alloc_cell d)) = torn_down d"
  "shutdown_waiters (snd (alloc_cell d)) = shutdown_waiters d" "next_waiter_id (snd (alloc_cell d)) = next_waiter_id d"
  "deferred_reports (snd (alloc_cell d)) = deferred_reports d" "submit_failures (snd (alloc_cell d)) = submit_failures d"
  "submissions (snd (alloc_cell d)) = submissions d" "submitted_entries (snd (alloc_cell d)) = submitted_entries d"
  "next_reg (snd (alloc_cell d)) = next_reg d" "kern (snd (alloc_cell d)) = kern d"
  "regs (snd (alloc_cell d)) = regs d" "files (snd (alloc_cell d)) = files d"
  by (simp_all add: alloc_cell_def)

section \<open>The sequential slots of the files\<close>

text \<open>Dropping a guard releases the slot of its file.\<close>

definition released :: "fid option \<Rightarrow> (fid \<Rightarrow> file_state) \<Rightarrow> fid \<Rightarrow> file_state" where
  "released g fs = (case g of None \<Rightarrow> fs | Some f \<Rightarrow> fs(f := (fs f)\<lparr>fs_sequential := False\<rparr>))"

lemma released_None [simp]: "released None fs = fs"
  by (simp add: released_def)

lemma files_clear_sequential [simp]: "files (clear_sequential g d) = released g (files d)"
  by (simp add: clear_sequential_def released_def split: option.split)

lemma files_drop_payload [simp]: "files (drop_payload p d) = released (op_sequential p) (files d)"
  by (simp add: drop_payload_def)

end
