(* ===== verification/Driver_Cancel.thy ===== *)
theory Driver_Cancel
  imports Driver_Slab
begin

text \<open>
  Cancellation and submission: what \<open>issue_cancel\<close>, \<open>request_cancel\<close>,
  \<open>cancel_abandoned\<close> and \<open>submit_pending\<close> do to the slab, to the handle holds and to the
  submission flag, and the cancel request that reaches the platform.
\<close>

section \<open>Issuing one cancellation\<close>

lemma set_slot_state_undo:
  "\<lbrakk>i < length (slots s); slot_state (slots s ! i) = st\<rbrakk> \<Longrightarrow> set_slot_state i st s = s"
proof -
  assume a: "i < length (slots s)" "slot_state (slots s ! i) = st"
  then have "(slots s)[i := (slots s ! i)\<lparr>slot_state := st\<rparr>] = slots s"
    by (auto intro: nth_equalityI simp: nth_list_update)
  then show ?thesis by (simp add: set_slot_state_def)
qed

text \<open>Withdrawing a cancellation that was just registered restores the slab.\<close>

lemma not_enqueued_undoes_register:
  assumes wf: "slab_wf s" and r: "slab_register_cancel t s = (Some ct, s1)"
  shows "ct = to_cancel t" "token_kind t = Operation"
    "snd (slab_cancel_request_not_enqueued ct s1) = s"
    "\<exists>l ob p. slab_view s (token_key t) = Some (Entry l ob p NeverRequested) \<and>
       slab_view s1 = (slab_view s)(token_key t \<mapsto> Entry l ob p Pending)"
proof -
  from r obtain i sl where sf: "slot_for s t = Some (i, sl)" and k: "token_kind t = Operation"
    by (auto simp: slab_register_cancel_def split: if_splits option.splits)
  from r k sf obtain l ob p where st: "slot_state sl = Occupied l ob p NeverRequested"
    and ct: "ct = to_cancel t" and s1: "s1 = set_slot_state i (Occupied l ob p Pending) s"
    by (auto simp: slab_register_cancel_def split: slot_state.splits cancel_state.splits)
  note d = slot_for_SomeD [OF sf]
  have key: "token_index ct = token_index t" "token_generation ct = token_generation t"
    using token_key_to_cancel [of t] by (simp_all add: ct token_key_def)
  have sf1: "slot_for s1 ct = Some (i, (slots s ! i)\<lparr>slot_state := Occupied l ob p Pending\<rparr>)"
    using d by (simp add: slot_for_def key s1 set_slot_state_def list_get_def)
  then have "snd (slab_cancel_request_not_enqueued ct s1) = set_slot_state i (Occupied l ob p NeverRequested) s1"
    by (simp add: slab_cancel_request_not_enqueued_def ct)
  also have "\<dots> = s"
    unfolding s1 set_slot_state_twice [OF d(2)] by (rule set_slot_state_undo) (use d st in simp_all)
  finally show "snd (slab_cancel_request_not_enqueued ct s1) = s" .
  show "ct = to_cancel t" "token_kind t = Operation" by (fact ct, fact k)
  have "slab_view s (token_key t) = Some (Entry l ob p NeverRequested)"
    by (simp add: slab_view_token sf st)
  with register_cancel_spec [OF wf r] k ct show
    "\<exists>l ob p. slab_view s (token_key t) = Some (Entry l ob p NeverRequested) \<and>
       slab_view s1 = (slab_view s)(token_key t \<mapsto> Entry l ob p Pending)"
    by auto
qed

text \<open>The cancel request that is built for a token and a target.\<close>

definition cancel_request :: "token \<Rightarrow> cancel_target \<Rightarrow> 'k driver \<Rightarrow> cancel_op" where
  "cancel_request t target d =
     \<lparr>ca_handle = (case target of CancelOwned f \<Rightarrow> PlatRawHandle (fs_handle (files d f))
                                | CancelRegistered index \<Rightarrow> PlatRegHandle index),
      ca_target = as_user_data t, ca_userdata = as_user_data (to_cancel t)\<rparr>"

lemma cancel_op_for_eq: "cancel_op_for t (to_cancel t) target d = Inr (cancel_request t target d)"
  by (cases target) (simp_all add: cancel_op_for_def cancel_request_def cb_build_def ok_or_def
      cb_with_user_data_def cb_with_op_to_cancel_def cb_with_raw_handle_def
      cb_with_registered_handle_index_def cancel_builder_new_def unwrap_or_def)

definition hold_of :: "token \<Rightarrow> cancel_target \<Rightarrow> (token \<times> fid) list" where
  "hold_of t target = (case target of CancelOwned f \<Rightarrow> [(to_cancel t, f)] | CancelRegistered _ \<Rightarrow> [])"

text \<open>
  \<open>issue_cancel\<close> either declines and changes nothing; or asks the platform, is refused, and
  is as if it had not asked; or the request is queued and the entry is pending.
\<close>

definition without_hold :: "token \<Rightarrow> (token \<times> fid) list \<Rightarrow> (token \<times> fid) list" where
  "without_hold t hs = filter (\<lambda>(c, _). c \<noteq> t) hs"

definition cancellable :: "'k driver \<Rightarrow> token \<Rightarrow> cancel_target \<Rightarrow> bool" where
  "cancellable d t target \<longleftrightarrow> \<not> torn_down d \<and> token_kind t = Operation \<and> as_user_data t \<noteq> 0 \<and>
     (\<exists>ob p. slab_view (slab d) (token_key t) = Some (Entry Submitted ob p NeverRequested) \<and>
        cancel_target_of p = Some target)"

lemma filter_hold_of [simp]: "filter (\<lambda>(c, _). c \<noteq> to_cancel t) (hold_of t target) = []"
  by (cases target) (simp_all add: hold_of_def)

lemma issue_cancel_cases:
  assumes wf: "slab_wf (slab d)"
  obtains (declined) "issue_cancel P t d = d" "\<And>target. \<not> cancellable d t target"
    | (refused) target e k where "cancellable d t target"
        "build_cancel_request P (ring d) (cancel_request t target d) (kern d) = (Inl e, k)"
        "issue_cancel P t d = d\<lparr>kern := k, cancel_holds := without_hold (to_cancel t) (cancel_holds d)\<rparr>"
    | (queued) target k s1 ob p where "cancellable d t target"
        "build_cancel_request P (ring d) (cancel_request t target d) (kern d) = (Inr (), k)"
        "slab_wf s1" "slab_register_cancel t (slab d) = (Some (to_cancel t), s1)"
        "slab_view (slab d) (token_key t) = Some (Entry Submitted ob p NeverRequested)"
        "cancel_target_of p = Some target"
        "slab_view s1 = (slab_view (slab d))(token_key t \<mapsto> Entry Submitted ob p Pending)"
        "issue_cancel P t d = d\<lparr>slab := s1, cancel_holds := cancel_holds d @ hold_of t target,
           kern := k, pending_submit := True, nudged := True\<rparr>"
proof (cases "\<exists>target. cancellable d t target")
  case False
  have "issue_cancel P t d = d"
  proof (rule ccontr)
    assume n: "issue_cancel P t d \<noteq> d"
    then have a: "\<not> torn_down d" "as_user_data t \<noteq> 0"
      "map_option fst (slab_state (slab d) t) = Some Submitted"
      by (auto simp: issue_cancel_def split: if_splits)
    from n a obtain target where b: "Option.bind (slab_payload (slab d) t) cancel_target_of = Some target"
      by (cases "Option.bind (slab_payload (slab d) t) cancel_target_of")
        (simp_all add: issue_cancel_def)
    from n a b obtain ct s1 where c: "slab_register_cancel t (slab d) = (Some ct, s1)"
      by (cases "slab_register_cancel t (slab d)"; cases "fst (slab_register_cancel t (slab d))")
        (simp_all add: issue_cancel_def)
    from not_enqueued_undoes_register [OF wf c] obtain l ob p where
      v: "slab_view (slab d) (token_key t) = Some (Entry l ob p NeverRequested)" "token_kind t = Operation"
      by auto
    from a(3) b v have "cancellable d t target"
      by (auto simp: cancellable_def a slab_state_view slab_payload_view)
    with False show False by blast
  qed
  with False declined show thesis by blast
next
  case True
  then obtain target ob p where c: "cancellable d t target"
    and v: "slab_view (slab d) (token_key t) = Some (Entry Submitted ob p NeverRequested)"
    and tg: "cancel_target_of p = Some target" "\<not> torn_down d" "token_kind t = Operation" "as_user_data t \<noteq> 0"
    by (auto simp: cancellable_def)
  from register_cancel_spec [OF wf, of t] v tg(3) obtain s1 where
    r: "slab_register_cancel t (slab d) = (Some (to_cancel t), s1)" and w1: "slab_wf s1"
    and v1: "slab_view s1 = (slab_view (slab d))(token_key t \<mapsto> Entry Submitted ob p Pending)"
    by (cases "slab_register_cancel t (slab d)") auto
  have undo: "snd (slab_cancel_request_not_enqueued (to_cancel t) s1) = slab d"
    by (rule not_enqueued_undoes_register(3) [OF wf r])
  have st: "map_option fst (slab_state (slab d) t) = Some Submitted"
    "Option.bind (slab_payload (slab d) t) cancel_target_of = Some target"
    using v tg by (simp_all add: slab_state_view slab_payload_view)
  let ?d2 = "d\<lparr>slab := s1, cancel_holds := cancel_holds d @ hold_of t target\<rparr>"
  have req: "cancel_request t g (d\<lparr>slab := s1\<rparr>) = cancel_request t g d" for g
    by (cases g) (simp_all add: cancel_request_def)
  have eq: "issue_cancel P t d = (case build_cancel_request P (ring d) (cancel_request t target d) (kern d) of
      (Inl _, k) \<Rightarrow> ?d2\<lparr>kern := k, cancel_holds := without_hold (to_cancel t) (cancel_holds ?d2), slab := slab d\<rparr>
    | (Inr _, k) \<Rightarrow> ?d2\<lparr>kern := k, pending_submit := True, nudged := True\<rparr>)"
    using tg st by (cases target) (simp_all add: issue_cancel_def r cancel_op_for_eq undo mark_nudged_def
        hold_of_def without_hold_def req Let_def split: prod.split sum.split)
  show thesis
  proof (cases "build_cancel_request P (ring d) (cancel_request t target d) (kern d)")
    case (Pair res k)
    show thesis
    proof (cases res)
      case (Inl e)
      show thesis
        by (rule refused [OF c]) (use Pair Inl eq in \<open>simp_all add: without_hold_def\<close>)
    next
      case (Inr u)
      show thesis
        by (rule queued [OF c _ w1 r v tg(1) v1]) (use Pair Inr eq in simp_all)
    qed
  qed
qed

lemma cancellable_unique: "\<lbrakk>cancellable d t g; cancellable d t g'\<rbrakk> \<Longrightarrow> g = g'"
  by (auto simp: cancellable_def)

text \<open>
  C17: A cancellation names exactly the operation it is for, once, and keeps the file it
  names. \<open>issue_cancel\<close> reaches the platform only for a live operation the kernel has accepted
  and whose cancellation was never requested; the request then carries that operation's token
  as its target, the token's cancellation twin as its own identity, and the handle (or the
  registered index) the operation was submitted on. If the platform takes it, the entry is
  marked, the file is held open under the cancellation's token, a submission is owed and the
  driver is nudged, and asking again changes nothing. If the platform refuses, the slab is as
  before, so the request can be made again. In every other case nothing happens at all.
\<close>

theorem cancel_request_exact:
  assumes wf: "slab_wf (slab d)" and d': "d' = issue_cancel P t d"
  shows "(cancellable d t target \<longrightarrow>
      (case build_cancel_request P (ring d) (cancel_request t target d) (kern d) of
         (Inl e, k) \<Rightarrow>
           slab d' = slab d \<and> kern d' = k \<and> pending_submit d' = pending_submit d
       | (Inr _, k) \<Rightarrow>
           (\<exists>ob p. slab_view (slab d) (token_key t) = Some (Entry Submitted ob p NeverRequested) \<and>
              slab_view (slab d') = (slab_view (slab d))(token_key t \<mapsto> Entry Submitted ob p Pending)) \<and>
           kern d' = k \<and> pending_submit d' \<and> nudged d' \<and>
           (\<forall>f. target = CancelOwned f \<longrightarrow> (to_cancel t, f) \<in> set (cancel_holds d')) \<and>
           issue_cancel P t d' = d')) \<and>
    ((\<forall>g. \<not> cancellable d t g) \<longrightarrow> d' = d)"
  using wf
proof (cases rule: issue_cancel_cases [where P = P and t = t])
  case declined
  with d' show ?thesis by simp
next
  case (refused g e k)
  show ?thesis
  proof (cases "cancellable d t target")
    case True
    with refused cancellable_unique [of d t g target] d' show ?thesis by auto
  next
    case False
    with refused show ?thesis by blast
  qed
next
  case (queued g k s1 ob p)
  have nc: "\<not> cancellable d' t g'" for g' using queued(7,8) d' by (simp add: cancellable_def)
  have "slab_wf (slab d')" using queued(3,8) d' by simp
  then have again: "issue_cancel P t d' = d'"
    by (cases rule: issue_cancel_cases [where P = P and t = t]) (use nc in blast)+
  show ?thesis
  proof (cases "cancellable d t target")
    case True
    then have "g = target" using queued(1) by (rule cancellable_unique [THEN sym])
    with again queued show ?thesis by (auto simp: d' hold_of_def)
  next
    case False
    with queued(1) show ?thesis by blast
  qed
qed

section \<open>Cancellations change nothing else\<close>

definition cancel_change :: "op_payload entry option \<Rightarrow> op_payload entry option \<Rightarrow> bool" where
  "cancel_change e e' \<longleftrightarrow> e' = e \<or>
     (\<exists>ob p. e = Some (Entry Submitted ob p NeverRequested) \<and> e' = Some (Entry Submitted ob p Pending))"

definition cancels_only :: "'k driver \<Rightarrow> 'k driver \<Rightarrow> bool" where
  "cancels_only d d' \<longleftrightarrow>
     (\<exists>s h n b k. d' = d\<lparr>slab := s, cancel_holds := h, nudged := n, pending_submit := b, kern := k\<rparr>) \<and>
     slab_wf (slab d') \<and> advances (slab d) (slab d') \<and>
     (pending_submit d \<longrightarrow> pending_submit d') \<and> (nudged d \<longrightarrow> nudged d') \<and>
     (pending_submit d' \<longrightarrow> pending_submit d \<or> nudged d') \<and>
     (\<forall>k. cancel_change (slab_view (slab d) k) (slab_view (slab d') k))"

lemma cancel_change_trans: "\<lbrakk>cancel_change a b; cancel_change b c\<rbrakk> \<Longrightarrow> cancel_change a c"
  by (auto simp: cancel_change_def)

lemma driver_same_update:
  "\<exists>s h n b k. d = d\<lparr>slab := s, cancel_holds := h, nudged := n, pending_submit := b, kern := k\<rparr>"
  by (intro exI [of _ "slab d"] exI [of _ "cancel_holds d"] exI [of _ "nudged d"]
      exI [of _ "pending_submit d"] exI [of _ "kern d"]) (cases d, simp)

text \<open>The fields a cancellation may write, set one after the other.\<close>

lemma driver_written:
  "\<exists>s' h' n' b' k'. d\<lparr>kern := k, cancel_holds := h\<rparr>
     = d\<lparr>slab := s', cancel_holds := h', nudged := n', pending_submit := b', kern := k'\<rparr>"
  "\<exists>s' h' n' b' k'. d\<lparr>slab := s, cancel_holds := h, kern := k, pending_submit := b, nudged := n\<rparr>
     = d\<lparr>slab := s', cancel_holds := h', nudged := n', pending_submit := b', kern := k'\<rparr>"
proof -
  show "\<exists>s' h' n' b' k'. d\<lparr>kern := k, cancel_holds := h\<rparr>
     = d\<lparr>slab := s', cancel_holds := h', nudged := n', pending_submit := b', kern := k'\<rparr>"
    by (intro exI [of _ "slab d"] exI [of _ h] exI [of _ "nudged d"] exI [of _ "pending_submit d"]
        exI [of _ k]) (cases d, simp)
  show "\<exists>s' h' n' b' k'. d\<lparr>slab := s, cancel_holds := h, kern := k, pending_submit := b, nudged := n\<rparr>
     = d\<lparr>slab := s', cancel_holds := h', nudged := n', pending_submit := b', kern := k'\<rparr>"
    by (intro exI [of _ s] exI [of _ h] exI [of _ n] exI [of _ b] exI [of _ k]) (cases d, simp)
qed

lemma cancels_only_refl: "slab_wf (slab d) \<Longrightarrow> cancels_only d d"
  by (simp add: cancels_only_def cancel_change_def driver_same_update)

lemma cancels_only_trans: "\<lbrakk>cancels_only a b; cancels_only b c\<rbrakk> \<Longrightarrow> cancels_only a c"
proof -
  assume ab: "cancels_only a b" and bc: "cancels_only b c"
  from ab obtain s h n p k where b: "b = a\<lparr>slab := s, cancel_holds := h, nudged := n, pending_submit := p, kern := k\<rparr>"
    by (auto simp: cancels_only_def)
  from bc obtain s' h' n' p' k' where c: "c = b\<lparr>slab := s', cancel_holds := h', nudged := n', pending_submit := p', kern := k'\<rparr>"
    by (auto simp: cancels_only_def)
  have "c = a\<lparr>slab := s', cancel_holds := h', nudged := n', pending_submit := p', kern := k'\<rparr>"
    by (simp add: c b)
  moreover have "cancel_change (slab_view (slab a) x) (slab_view (slab c) x)" for x
    using ab bc cancel_change_trans unfolding cancels_only_def by blast
  moreover have "advances (slab a) (slab c)"
    using ab bc advances_trans unfolding cancels_only_def by blast
  ultimately show ?thesis
    using ab bc unfolding cancels_only_def by blast
qed

lemma issue_cancel_only:
  assumes wf: "slab_wf (slab d)" shows "cancels_only d (issue_cancel P t d)"
  using wf
proof (cases rule: issue_cancel_cases [where P = P and t = t])
  case declined
  with wf show ?thesis by (simp add: cancels_only_refl)
next
  case (refused target e k)
  with wf show ?thesis
    by (simp add: cancels_only_def cancel_change_def driver_written)
next
  case (queued target k s1 ob p)
  have "advances (slab d) s1"
    using exec_advances [OF wf, of "CmdRegisterCancel t"] queued(4) by simp
  with queued show ?thesis
    by (simp add: cancels_only_def cancel_change_def driver_written)
qed

lemma cancels_only_wf: "cancels_only d d' \<Longrightarrow> slab_wf (slab d')"
  by (simp add: cancels_only_def)

lemma issue_cancels_only: "slab_wf (slab d) \<Longrightarrow> cancels_only d (issue_cancels P ts d)"
proof (induction ts arbitrary: d)
  case Nil
  then show ?case by (simp add: issue_cancels_def cancels_only_refl)
next
  case (Cons t ts)
  from issue_cancel_only [OF Cons.prems, of P t] Cons.IH [of "issue_cancel P t d"] show ?case
    by (auto simp: issue_cancels_def intro: cancels_only_trans cancels_only_wf)
qed

end
