(* ===== verification/Driver_Inv.thy ===== *)
theory Driver_Inv
  imports Driver_Cancel
begin

text \<open>
  The invariant of the driver and how it is kept.

  Between two calls no operation is half described, a built operation implies that a
  submission is owed, every live operation has a result cell of its own that nobody has filled
  yet, a torn-down driver has a closed ring and no live operation, and the flag of a
  registration in flight says exactly whether one is. Three generic lemmas cover what the
  operations of the driver do to the slab: they change entries in place, add one, or take one
  out.
\<close>

declare split_paired_All [simp del] split_paired_Ex [simp del]

section \<open>Payloads\<close>

definition pends_buffers :: "op_payload \<Rightarrow> bool" where
  "pends_buffers p = (case op_pending p of Some (PendBuffers _ _ _ _ _) \<Rightarrow> True | _ \<Rightarrow> False)"

definition pending_ok :: "pending_registration option \<Rightarrow> bool" where
  "pending_ok q = (case q of
     Some (PendBuffers bs ps es ws ds) \<Rightarrow>
       length ps = length bs \<and> length es = length bs \<and> length ws = length bs
   | _ \<Rightarrow> True)"

definition live_payloads :: "'k driver \<Rightarrow> key \<Rightarrow> op_payload option" where
  "live_payloads d k = (case slab_view (slab d) k of Some (Entry l ob p c) \<Rightarrow> Some p | _ \<Rightarrow> None)"

text \<open>Nobody has a buffer of the current registration.\<close>

definition none_out :: "'k driver \<Rightarrow> bool" where
  "none_out d \<longleftrightarrow> Option.bind (current_registry d) any_checked_out = None"

definition cell_open :: "'k driver \<Rightarrow> cid \<Rightarrow> bool" where
  "cell_open d c \<longleftrightarrow> c < next_cell d \<and> rs_completed (cells d c) = None"

definition reg_sound :: "'k driver \<Rightarrow> bool" where
  "reg_sound d \<longleftrightarrow> (\<forall>me. buffer_registration d = Some me \<longrightarrow>
     (\<exists>r. regs d me = Some r \<and> length (rg_slots r) = length (rg_pointers r)))"

definition payload_ok :: "'k driver \<Rightarrow> op_payload \<Rightarrow> bool" where
  "payload_ok d p \<longleftrightarrow> cell_open d (op_slot p) \<and> pending_ok (op_pending p)"

section \<open>The invariant\<close>

definition no_described :: "'k driver \<Rightarrow> bool" where
  "no_described d \<longleftrightarrow> (\<forall>k ob p c. slab_view (slab d) k \<noteq> Some (Entry Described ob p c))"

definition built_owed :: "'k driver \<Rightarrow> bool" where
  "built_owed d \<longleftrightarrow> (\<forall>k ob p c. slab_view (slab d) k = Some (Entry Built ob p c) \<longrightarrow> pending_submit d)"

definition cells_apart :: "'k driver \<Rightarrow> bool" where
  "cells_apart d \<longleftrightarrow> (\<forall>k k' p p'. live_payloads d k = Some p \<longrightarrow> live_payloads d k' = Some p' \<longrightarrow>
     op_slot p = op_slot p' \<longrightarrow> k = k')"

definition flight_flag :: "'k driver \<Rightarrow> bool" where
  "flight_flag d \<longleftrightarrow> (registration_in_flight d \<longleftrightarrow> (\<exists>k p. live_payloads d k = Some p \<and> pends_buffers p)) \<and>
     (\<forall>k k' p p'. live_payloads d k = Some p \<longrightarrow> live_payloads d k' = Some p' \<longrightarrow>
        pends_buffers p \<longrightarrow> pends_buffers p' \<longrightarrow> k = k')"

definition driver_inv :: "'k driver \<Rightarrow> bool" where
  "driver_inv d \<longleftrightarrow> slab_wf (slab d) \<and> no_described d \<and> built_owed d \<and> cells_apart d \<and> flight_flag d \<and>
     (\<forall>k p. live_payloads d k = Some p \<longrightarrow> payload_ok d p) \<and> reg_sound d \<and>
     (registration_in_flight d \<longrightarrow> none_out d) \<and>
     (torn_down d \<longleftrightarrow> ring_closed (ring d)) \<and>
     (torn_down d \<longrightarrow> live_payloads d = Map.empty \<and> shutdown d \<noteq> Running)"

lemma driver_invD:
  assumes "driver_inv d"
  shows "slab_wf (slab d)" "no_described d" "built_owed d" "cells_apart d" "flight_flag d"
    "live_payloads d k = Some p \<Longrightarrow> payload_ok d p" "reg_sound d"
    "registration_in_flight d \<Longrightarrow> none_out d" "torn_down d \<longleftrightarrow> ring_closed (ring d)"
    "torn_down d \<Longrightarrow> live_payloads d = Map.empty" "torn_down d \<Longrightarrow> shutdown d \<noteq> Running"
  using assms by (simp_all add: driver_inv_def)

lemma live_payloads_Some:
  "live_payloads d k = Some p \<longleftrightarrow> (\<exists>l ob c. slab_view (slab d) k = Some (Entry l ob p c))"
  by (auto simp: live_payloads_def split: option.splits entry.splits)

lemma live_payloads_cong:
  "slab_view (slab d') = slab_view (slab d) \<Longrightarrow> live_payloads d' = live_payloads d"
  by (rule ext) (simp add: live_payloads_def)

text \<open>The parts of the state the invariant does not read may change freely.\<close>

definition same_core :: "'k driver \<Rightarrow> 'k driver \<Rightarrow> bool" where
  "same_core d d' \<longleftrightarrow> torn_down d' = torn_down d \<and> ring d' = ring d \<and>
     (torn_down d \<longrightarrow> shutdown d' \<noteq> Running) \<and> next_cell d \<le> next_cell d' \<and>
     (reg_sound d \<longrightarrow> reg_sound d')"

lemma same_core_refl: "(torn_down d \<Longrightarrow> shutdown d \<noteq> Running) \<Longrightarrow> same_core d d"
  by (simp add: same_core_def)

section \<open>Entries that change in place\<close>

definition entry_step :: "op_payload entry option \<Rightarrow> op_payload entry option \<Rightarrow> bool" where
  "entry_step e e' \<longleftrightarrow> e' = e \<or> e = Some Tomb \<and> e' = None \<or>
     (\<exists>l ob p c l' ob' c'. e = Some (Entry l ob p c) \<and> e' = Some (Entry l' ob' p c') \<and>
        (l' = l \<or> l' = Submitted))"

lemma entry_step_refl [simp]: "entry_step e e"
  by (simp add: entry_step_def)

lemma entry_step_trans: "\<lbrakk>entry_step a b; entry_step b c\<rbrakk> \<Longrightarrow> entry_step a c"
  unfolding entry_step_def by auto

lemma entry_step_payload: "entry_step e e' \<Longrightarrow>
    (case e' of Some (Entry l ob p c) \<Rightarrow> Some p | _ \<Rightarrow> None) =
    (case e of Some (Entry l ob p c) \<Rightarrow> Some p | _ \<Rightarrow> None)"
  by (auto simp: entry_step_def)

lemma cancel_change_step: "cancel_change e e' \<Longrightarrow> entry_step e e'"
  by (auto simp: cancel_change_def entry_step_def)

lemma inv_in_place:
  assumes inv: "driver_inv d" and wf: "slab_wf (slab d')" and core: "same_core d d'"
    and step: "\<And>k. entry_step (slab_view (slab d) k) (slab_view (slab d') k)"
    and cells: "\<And>c. cell_open d c \<Longrightarrow> cell_open d' c"
    and owed: "pending_submit d \<Longrightarrow> pending_submit d' \<or>
        (\<forall>k ob p c. slab_view (slab d') k \<noteq> Some (Entry Built ob p c))"
    and flight: "registration_in_flight d' = registration_in_flight d"
    and out: "\<lbrakk>registration_in_flight d; none_out d\<rbrakk> \<Longrightarrow> none_out d'"
  shows "driver_inv d'"
proof -
  note i = driver_invD [OF inv]
  have live: "live_payloads d' = live_payloads d"
  proof
    fix k show "live_payloads d' k = live_payloads d k"
      using entry_step_payload [OF step [of k]] by (simp add: live_payloads_def)
  qed
  have "no_described d'"
  proof -
    have "slab_view (slab d') k \<noteq> Some (Entry Described ob p c)" for k ob p c
      using step [of k] i(2) by (auto simp: entry_step_def no_described_def)
    then show ?thesis by (simp add: no_described_def)
  qed
  moreover have "built_owed d'"
  proof -
    have "pending_submit d'" if v: "slab_view (slab d') k = Some (Entry Built ob p c)" for k ob p c
    proof -
      from step [of k] v obtain ob0 c0 where "slab_view (slab d) k = Some (Entry Built ob0 p c0)"
        by (auto simp: entry_step_def dest: sym)
      with i(3) have "pending_submit d" by (auto simp: built_owed_def)
      with owed v show ?thesis by blast
    qed
    then show ?thesis by (auto simp: built_owed_def)
  qed
  moreover have "payload_ok d' p" if "live_payloads d' k = Some p" for k p
    using i(6) [of k p] that cells by (simp add: live payload_ok_def)
  ultimately show ?thesis
    using i core flight out wf
    by (simp add: driver_inv_def cells_apart_def flight_flag_def live same_core_def)
qed

section \<open>A new entry\<close>

lemma inv_added:
  assumes inv: "driver_inv d" and wf: "slab_wf (slab d')" and core: "same_core d d'"
    and view: "slab_view (slab d') = (slab_view (slab d))(k \<mapsto> Entry Built Live p NeverRequested)"
    and fresh: "slab_view (slab d) k = None" "next_cell d \<le> op_slot p" "payload_ok d' p"
    and cells: "\<And>c. cell_open d c \<Longrightarrow> cell_open d' c"
    and owed: "pending_submit d'" and up: "\<not> torn_down d"
    and flight: "registration_in_flight d' \<longleftrightarrow> registration_in_flight d \<or> pends_buffers p"
    and one: "pends_buffers p \<Longrightarrow> \<not> registration_in_flight d"
    and out: "registration_in_flight d \<or> pends_buffers p \<Longrightarrow> none_out d'"
  shows "driver_inv d'"
proof -
  note i = driver_invD [OF inv]
  have live: "live_payloads d' = (live_payloads d)(k \<mapsto> p)"
    by (rule ext) (simp add: live_payloads_def view)
  have old: "live_payloads d k = None" by (simp add: live_payloads_def fresh)
  have lt: "op_slot q < next_cell d" if "live_payloads d j = Some q" for j q
    using i(6) [OF that] by (simp add: payload_ok_def cell_open_def)
  have apart: "op_slot q \<noteq> op_slot p" if "live_payloads d j = Some q" for j q
    using lt [OF that] fresh(2) by simp
  have split: "j = k \<and> q = p \<or> live_payloads d j = Some q" if "live_payloads d' j = Some q" for j q
    using that by (auto simp: live split: if_splits)
  have "j = j'" if a: "live_payloads d' j = Some q" "live_payloads d' j' = Some q'" "op_slot q = op_slot q'"
    for j j' q q'
  proof -
    have old2: "j = j'" if "live_payloads d j = Some q" "live_payloads d j' = Some q'"
      using i(4) that a(3) unfolding cells_apart_def by blast
    show ?thesis using split [OF a(1)] split [OF a(2)] a(3) old2 apart by metis
  qed
  then have "cells_apart d'" unfolding cells_apart_def by blast
  moreover have flag: "registration_in_flight d' \<longleftrightarrow> (\<exists>j q. live_payloads d' j = Some q \<and> pends_buffers q)"
  proof -
    have "(\<exists>j q. live_payloads d' j = Some q \<and> pends_buffers q) \<longleftrightarrow>
        pends_buffers p \<or> (\<exists>j q. live_payloads d j = Some q \<and> pends_buffers q)"
      unfolding live fun_upd_apply using old by (metis option.discI option.inject)
    with i(5) flight show ?thesis unfolding flight_flag_def by blast
  qed
  moreover have uniq: "j = j'" if a: "live_payloads d' j = Some q" "live_payloads d' j' = Some q'"
      "pends_buffers q" "pends_buffers q'" for j j' q q'
  proof -
    have no: "\<not> pends_buffers r" if "live_payloads d m = Some r" "pends_buffers p" for m r
      using i(5) one that unfolding flight_flag_def by blast
    have uniq: "j = j'" if "live_payloads d j = Some q" "live_payloads d j' = Some q'"
      using i(5) a(3,4) that unfolding flight_flag_def by blast
    show ?thesis using split [OF a(1)] split [OF a(2)] a(3,4) uniq no by metis
  qed
  moreover have "payload_ok d' q" if "live_payloads d' j = Some q" for j q
    using i(6) [of j q] that cells fresh(3) by (auto simp: live payload_ok_def split: if_splits)
  moreover have "built_owed d'" using owed by (simp add: built_owed_def)
  moreover have "no_described d'"
    using i(2) by (simp add: no_described_def view)
  moreover have "flight_flag d'"
    unfolding flight_flag_def using flag uniq by blast
  moreover have "reg_sound d'" "torn_down d' \<longleftrightarrow> ring_closed (ring d')" "\<not> torn_down d'"
    using core i(7,9) up by (simp_all add: same_core_def)
  ultimately show ?thesis
    unfolding driver_inv_def using flight out wf by blast
qed

section \<open>An entry that is taken out\<close>

lemma inv_removed:
  assumes inv: "driver_inv d" and wf: "slab_wf (slab d')" and core: "same_core d d'"
    and gone: "live_payloads d k = Some p"
    and view: "slab_view (slab d') = (slab_view (slab d))(k := e)" "e = None \<or> e = Some Tomb"
    and cells: "\<And>c. \<lbrakk>cell_open d c; c \<noteq> op_slot p\<rbrakk> \<Longrightarrow> cell_open d' c"
    and owed: "pending_submit d' = pending_submit d"
    and flight: "registration_in_flight d' \<longleftrightarrow> registration_in_flight d \<and> \<not> pends_buffers p"
    and out: "\<lbrakk>registration_in_flight d'; none_out d\<rbrakk> \<Longrightarrow> none_out d'"
  shows "driver_inv d'"
proof -
  note i = driver_invD [OF inv]
  have live: "live_payloads d' = (live_payloads d)(k := None)"
    using view(2) by (intro ext) (auto simp: live_payloads_def view(1))
  have apart: "op_slot q \<noteq> op_slot p" if "live_payloads d j = Some q" "j \<noteq> k" for j q
    using i(4) gone that unfolding cells_apart_def by blast
  have "no_described d'"
    using i(2) view(2) by (auto simp: no_described_def view(1))
  moreover have sub: "live_payloads d j = Some q \<and> j \<noteq> k" if "live_payloads d' j = Some q" for j q
    using that by (auto simp: live split: if_splits)
  moreover have "cells_apart d'"
    using i(4) sub unfolding cells_apart_def by blast
  moreover have "flight_flag d'"
  proof -
    have other: "registration_in_flight d'" if "live_payloads d' j = Some q" "pends_buffers q" for j q
      using i(5) gone flight sub [OF that(1)] that(2) unfolding flight_flag_def by blast
    have some: "\<exists>j q. live_payloads d' j = Some q \<and> pends_buffers q" if "registration_in_flight d'"
    proof -
      from that flight i(5) obtain j q where j: "live_payloads d j = Some q" "pends_buffers q"
        "\<not> pends_buffers p"
        unfolding flight_flag_def by blast
      with gone have "j \<noteq> k" by auto
      with j show ?thesis by (auto simp: live)
    qed
    from i(5) sub other some show ?thesis unfolding flight_flag_def by blast
  qed
  moreover have "payload_ok d' q" if "live_payloads d' j = Some q" for j q
    using i(6) [of j q] that cells apart [of j q] by (auto simp: live payload_ok_def split: if_splits)
  moreover have "built_owed d'"
    using i(3) view(2) by (auto simp: built_owed_def view(1) owed)
  moreover have "live_payloads d' = Map.empty" if "torn_down d'"
    using i(10) that core by (auto simp: same_core_def live)
  moreover have "reg_sound d'" "torn_down d' \<longleftrightarrow> ring_closed (ring d')"
      "torn_down d' \<Longrightarrow> shutdown d' \<noteq> Running"
    using core i(7,9) by (simp_all add: same_core_def)
  moreover have "registration_in_flight d' \<Longrightarrow> none_out d'"
    using flight out i(8) by blast
  ultimately show ?thesis
    unfolding driver_inv_def using wf by blast
qed

end
