(* ===== verification/Driver_Steps.thy ===== *)
theory Driver_Steps
  imports Driver_Inv
begin

text \<open>
  Every operation of the driver keeps the invariant, and none but a completion, an
  unaccepted description or the teardown takes a payload out of the slab.
\<close>

section \<open>Registrations under small changes\<close>

definition keeps_reg :: "(registry \<Rightarrow> registry) \<Rightarrow> bool" where
  "keeps_reg f \<longleftrightarrow> (\<forall>r. length (rg_slots (f r)) = length (rg_slots r) \<and>
     length (rg_pointers (f r)) = length (rg_pointers r) \<and>
     (any_checked_out r = None \<longrightarrow> any_checked_out (f r) = None))"

lemma find_index_None: "find_index Q xs = None \<longleftrightarrow> (\<forall>x \<in> set xs. \<not> Q x)"
  by (induction xs) auto

lemma any_checked_out_None: "any_checked_out r = None \<longleftrightarrow> (\<forall>s \<in> set (rg_slots r). \<not> rs_checked_out s)"
  by (simp add: any_checked_out_def find_index_None)

lemma keeps_reg_drop: "keeps_reg (reg_buf_drop h)"
  by (auto simp: keeps_reg_def reg_buf_drop_def registry_release_def any_checked_out_None
      dest!: set_update_subset_insert [THEN subsetD] split: option.split)

lemma keeps_reg_raise: "keeps_reg (raise_initialized i a b)"
  by (auto simp: keeps_reg_def raise_initialized_def any_checked_out_None Let_def
      dest!: set_update_subset_insert [THEN subsetD] split: option.split)

definition regs_kept :: "'k driver \<Rightarrow> 'k driver \<Rightarrow> bool" where
  "regs_kept d d' \<longleftrightarrow> (reg_sound d \<longrightarrow> reg_sound d') \<and> (none_out d \<longrightarrow> none_out d')"

lemma regs_kept_same:
  "\<lbrakk>buffer_registration d' = buffer_registration d; regs d' = regs d\<rbrakk> \<Longrightarrow> regs_kept d d'"
  by (simp add: regs_kept_def reg_sound_def none_out_def current_registry_def)

lemma regs_kept_trans: "\<lbrakk>regs_kept a b; regs_kept b c\<rbrakk> \<Longrightarrow> regs_kept a c"
  by (simp add: regs_kept_def)

lemma regs_kept_update:
  assumes "keeps_reg f" "regs d' = (regs d)(i := map_option f (regs d i))"
    and "buffer_registration d' = buffer_registration d"
  shows "regs_kept d d'"
  using assms by (auto simp: regs_kept_def reg_sound_def none_out_def current_registry_def keeps_reg_def
      split: bind_splits if_splits)

lemma regs_kept_drop_reg_buf: "regs_kept d (drop_reg_buf h d)"
  by (rule regs_kept_update [OF keeps_reg_drop]) (simp_all add: drop_reg_buf_def)

lemma regs_kept_drop_any: "regs_kept d (drop_any b d)"
  by (auto simp: drop_any_def regs_kept_drop_reg_buf regs_kept_same split: option.split any_buf.split)

lemma regs_kept_cell_half: "regs_kept d (drop_cell_half c d)"
proof -
  have "regs_kept d (drop_any b (d\<lparr>cells := x\<rparr>))" for b x
    by (rule regs_kept_trans [OF _ regs_kept_drop_any]) (simp add: regs_kept_same)
  then show ?thesis
    by (auto simp: drop_cell_half_def regs_kept_same split: option.split)
qed

lemma regs_kept_drop_payload: "regs_kept d (drop_payload p d)"
proof -
  have "regs_kept d (drop_cell_half (op_slot p) (drop_any (op_buffer p) d))"
    by (rule regs_kept_trans [OF regs_kept_drop_any regs_kept_cell_half])
  then show ?thesis unfolding drop_payload_def
    by (rule regs_kept_trans) (simp add: regs_kept_same)
qed

lemma regs_kept_future_cell: "regs_kept d (drop_future_cell c d)"
proof -
  have "regs_kept d (drop_any b (d\<lparr>cells := x\<rparr>))" for b x
    by (rule regs_kept_trans [OF _ regs_kept_drop_any]) (simp add: regs_kept_same)
  then show ?thesis
    by (auto simp: drop_future_cell_def Let_def regs_kept_same split: option.split)
qed

lemma regs_kept_raise_for: "regs_kept d (raise_for res rb b d)"
proof (cases "\<exists>i off n h. rb = Some (i, off) \<and> res = Inr n \<and> b = Some (AnyRegBuf h)")
  case True
  then obtain i off n h where "rb = Some (i, off)" "res = Inr n" "b = Some (AnyRegBuf h)" by blast
  then show ?thesis
    by (intro regs_kept_update [OF keeps_reg_raise]) (simp_all add: raise_for_def)
next
  case False
  then have "raise_for res rb b d = d"
    by (auto simp: raise_for_def split: option.split sum.split any_buf.split)
  then show ?thesis by (simp add: regs_kept_same)
qed

section \<open>Cells that stay open\<close>

definition cells_kept :: "'k driver \<Rightarrow> 'k driver \<Rightarrow> bool" where
  "cells_kept d d' \<longleftrightarrow> next_cell d \<le> next_cell d' \<and> (\<forall>c. cell_open d c \<longrightarrow> cell_open d' c)"

lemma cells_kept_same: "\<lbrakk>cells d' = cells d; next_cell d' = next_cell d\<rbrakk> \<Longrightarrow> cells_kept d d'"
  by (simp add: cells_kept_def cell_open_def)

lemma cells_kept_trans: "\<lbrakk>cells_kept a b; cells_kept b c\<rbrakk> \<Longrightarrow> cells_kept a c"
  by (auto simp: cells_kept_def)

lemma cells_kept_cell_half: "cells_kept d (drop_cell_half c d)"
  by (auto simp: drop_cell_half_def cells_kept_def cell_open_def split: option.split)

lemma cells_kept_drop_payload: "cells_kept d (drop_payload p d)"
proof -
  have "cells_kept d (drop_cell_half (op_slot p) (drop_any (op_buffer p) d))"
    by (rule cells_kept_trans [OF _ cells_kept_cell_half]) (simp add: cells_kept_same)
  then show ?thesis unfolding drop_payload_def
    by (rule cells_kept_trans) (simp add: cells_kept_same)
qed

lemma cells_kept_future_cell: "cells_kept d (drop_future_cell c d)"
  by (auto simp: drop_future_cell_def cells_kept_def cell_open_def Let_def split: option.split)

lemma cells_kept_future_half: "cells_kept d (drop_future_half c d)"
  by (simp add: drop_future_half_def cells_kept_def cell_open_def)

lemma cells_kept_alloc: "cells_kept d (snd (alloc_cell d))"
  by (simp add: alloc_cell_def cells_kept_def cell_open_def)

section \<open>Steps that leave the slab alone\<close>

definition retains :: "'k driver \<Rightarrow> 'k driver \<Rightarrow> bool" where
  "retains d d' \<longleftrightarrow> advances (slab d) (slab d') \<and>
     live_payloads d' = live_payloads d"

lemma retains_refl [simp]: "retains d d"
  by (simp add: retains_def)

lemma retains_trans: "\<lbrakk>retains a b; retains b c\<rbrakk> \<Longrightarrow> retains a c"
  unfolding retains_def using advances_trans by metis

lemma retains_slab: "slab d' = slab d \<Longrightarrow> retains d d'"
  by (simp add: retains_def live_payloads_def fun_eq_iff)

text \<open>The record of what a step keeps: the shape of every preservation lemma below.\<close>

definition keeps :: "'k driver \<Rightarrow> 'k driver \<Rightarrow> bool" where
  "keeps d d' \<longleftrightarrow> driver_inv d' \<and> retains d d' \<and> cells_kept d d' \<and>
     (torn_down d' \<longleftrightarrow> torn_down d) \<and> shutdown d \<le> shutdown d'"

lemma keeps_refl: "driver_inv d \<Longrightarrow> keeps d d"
  by (simp add: keeps_def cells_kept_same)

lemma keeps_trans: "\<lbrakk>keeps a b; keeps b c\<rbrakk> \<Longrightarrow> keeps a c"
  unfolding keeps_def using retains_trans cells_kept_trans order_trans by metis

lemma keeps_inv: "keeps d d' \<Longrightarrow> driver_inv d'"
  by (simp add: keeps_def)

lemma keeps_in_place:
  assumes inv: "driver_inv d" and wf: "slab_wf (slab d')" and adv: "advances (slab d) (slab d')"
    and step: "\<And>k. entry_step (slab_view (slab d) k) (slab_view (slab d') k)"
    and same: "torn_down d' = torn_down d" "ring d' = ring d" "shutdown d \<le> shutdown d'"
      "registration_in_flight d' = registration_in_flight d"
    and kept: "cells_kept d d'" "regs_kept d d'"
    and owed: "pending_submit d \<Longrightarrow> pending_submit d' \<or>
        (\<forall>k ob p c. slab_view (slab d') k \<noteq> Some (Entry Built ob p c))"
  shows "keeps d d'"
proof -
  have live: "live_payloads d' = live_payloads d"
    using entry_step_payload [OF step] by (intro ext) (simp add: live_payloads_def)
  have "shutdown d' \<noteq> Running" if "torn_down d"
    using driver_invD(11) [OF inv that] same(3) by (cases "shutdown d") auto
  then have core: "same_core d d'"
    using same kept by (simp add: same_core_def cells_kept_def regs_kept_def)
  have "driver_inv d'"
    by (rule inv_in_place [OF inv wf core step])
      (use kept same owed in \<open>auto simp: cells_kept_def regs_kept_def\<close>)
  with live adv same kept(1) show ?thesis by (simp add: keeps_def retains_def)
qed

lemma keeps_quiet:
  assumes inv: "driver_inv d" and slab: "slab d' = slab d"
    and same: "torn_down d' = torn_down d" "ring d' = ring d" "shutdown d \<le> shutdown d'"
      "registration_in_flight d' = registration_in_flight d" "pending_submit d \<longrightarrow> pending_submit d'"
    and kept: "cells_kept d d'" "regs_kept d d'"
  shows "keeps d d'"
  by (rule keeps_in_place [OF inv _ _ _ same(1-4) kept])
    (use driver_invD(1) [OF inv] slab same(5) in simp_all)

section \<open>Cancellation and submission\<close>

lemma keeps_cancels_only:
  assumes inv: "driver_inv d" and c: "cancels_only d d'" shows "keeps d d'"
proof -
  from c obtain s h n b k where
    d': "d' = d\<lparr>slab := s, cancel_holds := h, nudged := n, pending_submit := b, kern := k\<rparr>"
    unfolding cancels_only_def by blast
  show ?thesis
  proof (rule keeps_in_place [OF inv])
    show "slab_wf (slab d')" "advances (slab d) (slab d')"
      using c by (simp_all add: cancels_only_def)
    show "entry_step (slab_view (slab d) k) (slab_view (slab d') k)" for k
      using c by (simp add: cancels_only_def cancel_change_step)
    show "pending_submit d \<Longrightarrow> pending_submit d' \<or>
        (\<forall>k ob p c. slab_view (slab d') k \<noteq> Some (Entry Built ob p c))"
      using c by (simp add: cancels_only_def)
  qed (simp_all add: d' cells_kept_same regs_kept_same)
qed

lemma keeps_issue_cancel: "driver_inv d \<Longrightarrow> keeps d (issue_cancel P t d)"
  by (simp add: keeps_cancels_only issue_cancel_only driver_invD(1))

lemma keeps_issue_cancels: "driver_inv d \<Longrightarrow> keeps d (issue_cancels P ts d)"
  by (simp add: keeps_cancels_only issue_cancels_only driver_invD(1))

lemma keeps_cancel_abandoned:
  assumes inv: "driver_inv d" shows "keeps d (cancel_abandoned P d)"
proof -
  have 1: "keeps d (d\<lparr>deferred_cancels := []\<rparr>)"
    by (rule keeps_quiet [OF inv]) (simp_all add: cells_kept_same regs_kept_same)
  have 2: "keeps (d\<lparr>deferred_cancels := []\<rparr>)
      (issue_cancels P (deferred_cancels d) (d\<lparr>deferred_cancels := []\<rparr>))"
    by (rule keeps_issue_cancels [OF keeps_inv [OF 1]])
  show ?thesis unfolding cancel_abandoned_def Let_def
    by (rule keeps_trans [OF keeps_trans [OF 1 2] keeps_issue_cancels])
      (rule keeps_inv [OF 2])
qed

lemma keeps_request_cancel:
  assumes inv: "driver_inv d" shows "keeps d (request_cancel P t d)"
proof -
  have "keeps d (d\<lparr>deferred_cancels := xs\<rparr>)" for xs
    by (rule keeps_quiet [OF inv]) (simp_all add: cells_kept_same regs_kept_same)
  then show ?thesis
    using keeps_issue_cancel [OF inv] keeps_refl [OF inv]
    by (simp add: request_cancel_def split: option.split lifecycle.split)
qed

lemma promote_entry_step: "entry_step e (map_option promote_entry e)"
  by (cases e rule: option.exhaust; cases "the e")
    (auto simp: entry_step_def split: lifecycle.split)

lemma promote_no_built: "map_option promote_entry e \<noteq> Some (Entry Built ob p c)"
  by (cases e rule: option.exhaust; cases "the e") (auto split: lifecycle.splits if_splits)

text \<open>The driver after a submission the platform accepted, before the cancellations it owes.\<close>

definition submitted :: "u32 \<Rightarrow> 'k \<Rightarrow> 'k driver \<Rightarrow> 'k driver" where
  "submitted entries k d = d\<lparr>kern := k, submissions := submissions d + 1,
     submitted_entries := submitted_entries d + ucast entries, pending_submit := False,
     submit_failures := 0, slab := slab_promote_built_to_submitted (slab d)\<rparr>"

lemma submit_pending_cases:
  obtains (idle) "\<not> pending_submit d" "submit_pending P d = d"
    | (accepted) entries k where "pending_submit d" "ring_submit P (ring d) 0 0 (kern d) = (Inr entries, k)"
        "submit_pending P d = cancel_abandoned P (submitted entries k d)"
    | (refused) e k where "pending_submit d" "ring_submit P (ring d) 0 0 (kern d) = (Inl e, k)"
        "submit_pending P d = note_submit_failure (runtime_from_ring e) (d\<lparr>kern := k\<rparr>)"
  by (cases "pending_submit d"; cases "ring_submit P (ring d) 0 0 (kern d)";
      cases "fst (ring_submit P (ring d) 0 0 (kern d))")
    (auto simp: submit_pending_def submitted_def)

lemma keeps_submitted:
  assumes inv: "driver_inv d" shows "keeps d (submitted entries k d)"
proof (rule keeps_in_place [OF inv])
  note wf = driver_invD(1) [OF inv]
  show "slab_wf (slab (submitted entries k d))" by (simp add: submitted_def promote_spec(1) [OF wf])
  show "advances (slab d) (slab (submitted entries k d))"
    by (simp add: submitted_def promote_advances)
  show "entry_step (slab_view (slab d) j) (slab_view (slab (submitted entries k d)) j)" for j
    by (simp add: submitted_def promote_spec(2) [OF wf] promote_entry_step)
  show "pending_submit (submitted entries k d) \<or>
      (\<forall>j ob p c. slab_view (slab (submitted entries k d)) j \<noteq> Some (Entry Built ob p c))"
    by (simp add: submitted_def promote_spec(2) [OF wf] promote_no_built del: map_option_eq_Some)
qed (simp_all add: submitted_def cells_kept_same regs_kept_same)

lemma keeps_note_submit_failure:
  assumes inv: "driver_inv d" shows "keeps d (note_submit_failure e d)"
  by (rule keeps_quiet [OF inv])
    (simp_all add: note_submit_failure_def Let_def report_def cells_kept_same regs_kept_same)

lemma keeps_kern: "driver_inv d \<Longrightarrow> keeps d (d\<lparr>kern := k\<rparr>)"
  by (rule keeps_quiet) (simp_all add: cells_kept_same regs_kept_same)

lemma keeps_submit_pending:
  assumes inv: "driver_inv d" shows "keeps d (submit_pending P d)"
proof (cases rule: submit_pending_cases [of d P])
  case idle
  with inv show ?thesis by (simp add: keeps_refl)
next
  case (accepted entries k)
  note s = keeps_submitted [OF inv, of entries k]
  from keeps_trans [OF s keeps_cancel_abandoned [OF keeps_inv [OF s]]] accepted(3)
  show ?thesis by simp
next
  case (refused e k)
  note s = keeps_kern [OF inv, of k]
  from keeps_trans [OF s keeps_note_submit_failure [OF keeps_inv [OF s]]] refused(3)
  show ?thesis by simp
qed

lemma keeps_report: "driver_inv d \<Longrightarrow> keeps d (report e d)"
  by (rule keeps_quiet) (simp_all add: report_def cells_kept_same regs_kept_same)

lemma keeps_take_reports: "driver_inv d \<Longrightarrow> keeps d (snd (take_reports d))"
  by (rule keeps_quiet) (simp_all add: take_reports_def cells_kept_same regs_kept_same)

end
