(* ===== verification/Driver_Complete.thy ===== *)
theory Driver_Complete
  imports Driver_Steps
begin

text \<open>
  Completions: what reaping one does to the slab, to the result cells and to the
  registrations, and the log of a whole reap.
\<close>

section \<open>Settling a registration\<close>

definition pends :: "pending_registration option \<Rightarrow> bool" where
  "pends q = (case q of Some (PendBuffers _ _ _ _ _) \<Rightarrow> True | _ \<Rightarrow> False)"

lemma pends_buffers_pends: "pends_buffers p = pends (op_pending p)"
  by (simp add: pends_buffers_def pends_def)

text \<open>The registration in force and the buffers each collection holds, as one driver left them.\<close>

definition boxed :: "'k driver \<Rightarrow> rid \<Rightarrow> iobuf list option" where
  "boxed d r = map_option rg_buffers_box (regs d r)"

definition same_registration :: "'k driver \<Rightarrow> 'k driver \<Rightarrow> bool" where
  "same_registration d d' \<longleftrightarrow> buffer_registration d' = buffer_registration d \<and> boxed d' = boxed d"

lemma same_registration_refl [simp]: "same_registration d d"
  by (simp add: same_registration_def)

lemma same_registration_trans:
  "\<lbrakk>same_registration a b; same_registration b c\<rbrakk> \<Longrightarrow> same_registration a c"
  by (simp add: same_registration_def)

lemma same_registration_regs:
  "\<lbrakk>buffer_registration d' = buffer_registration d; regs d' = regs d\<rbrakk> \<Longrightarrow> same_registration d d'"
  by (simp add: same_registration_def boxed_def fun_eq_iff)

lemma same_registration_update:
  assumes "\<And>r. rg_buffers_box (f r) = rg_buffers_box r" "regs d' = (regs d)(i := map_option f (regs d i))"
    and "buffer_registration d' = buffer_registration d"
  shows "same_registration d d'"
  using assms by (auto simp: same_registration_def boxed_def fun_eq_iff option.map_comp comp_def)

lemma same_registration_drop_any: "same_registration d (drop_any b d)"
proof -
  have "same_registration d (drop_reg_buf h d)" for h
    by (rule same_registration_update [where f = "reg_buf_drop h" and i = "rb_registry h"])
      (simp_all add: drop_reg_buf_def reg_buf_drop_def registry_release_def split: option.split)
  then show ?thesis by (simp add: drop_any_def split: option.split any_buf.split)
qed

lemma same_registration_drop_payload: "same_registration d (drop_payload p d)"
proof -
  have "same_registration d (drop_cell_half c d)" for c and d :: "'a driver"
    by (auto simp: drop_cell_half_def split: option.split
        intro: same_registration_trans [OF same_registration_regs same_registration_drop_any])
  then have "same_registration d (drop_cell_half (op_slot p) (drop_any (op_buffer p) d))"
    using same_registration_drop_any same_registration_trans by blast
  then show ?thesis unfolding drop_payload_def
    by (rule same_registration_trans)
      (auto simp: clear_sequential_def split: option.split intro: same_registration_regs)
qed

lemma same_registration_raise_for: "same_registration d (raise_for res rb b d)"
proof (cases "\<exists>i off n h. rb = Some (i, off) \<and> res = Inr n \<and> b = Some (AnyRegBuf h)")
  case True
  then obtain i off n h where "rb = Some (i, off)" "res = Inr n" "b = Some (AnyRegBuf h)" by blast
  then show ?thesis
    by (intro same_registration_update [where f = "raise_initialized i (ucast off) (ucast n)" and i = "rb_registry h"])
      (simp_all add: raise_for_def raise_initialized_def Let_def split: option.split)
next
  case False
  then have "raise_for res rb b d = d"
    by (auto simp: raise_for_def split: option.split sum.split any_buf.split)
  then show ?thesis by simp
qed

text \<open>
  What an operation gives back with its result. An ordinary buffer comes back as it is; a handle
  on a registered buffer is the same handle, of which only the count of initialized bytes may
  have moved; a registration that failed returns the resources it was to register, and one that
  succeeded the collection that now holds exactly those buffers and is in force.
\<close>

definition same_buffer :: "any_buf option \<Rightarrow> any_buf option \<Rightarrow> bool" where
  "same_buffer given b = (case given of
     Some (AnyRegBuf h) \<Rightarrow> (case b of
         Some (AnyRegBuf h') \<Rightarrow> h' = h\<lparr>rb_initialized := rb_initialized h'\<rparr>
       | _ \<Rightarrow> False)
   | _ \<Rightarrow> b = given)"

definition collects :: "'k driver \<Rightarrow> iobuf list \<Rightarrow> any_buf option \<Rightarrow> bool" where
  "collects d bs b = (case b of
     Some (AnyCollection r) \<Rightarrow> buffer_registration d = Some r \<and> boxed d r = Some bs
   | _ \<Rightarrow> False)"

definition gives_back ::
    "'k driver \<Rightarrow> pending_registration option \<Rightarrow> any_buf option \<Rightarrow> (runtime_error + u32) \<Rightarrow> any_buf option \<Rightarrow> bool" where
  "gives_back d q given res b = (case q of
     None \<Rightarrow> same_buffer given b
   | Some p \<Rightarrow> (case res of
         Inl _ \<Rightarrow> b = Some (AnyPending p)
       | Inr _ \<Rightarrow> (case p of
             PendBuffers bs _ _ _ _ \<Rightarrow> collects d bs b
           | PendFiles _ \<Rightarrow> same_buffer given b)))"

lemma same_buffer_refl [simp]: "same_buffer b b"
  by (simp add: same_buffer_def split: option.split any_buf.split)

lemma same_buffer_handle:
  "same_buffer (Some (AnyRegBuf h)) b \<longleftrightarrow> (\<exists>n. b = Some (AnyRegBuf (h\<lparr>rb_initialized := n\<rparr>)))"
proof
  assume "same_buffer (Some (AnyRegBuf h)) b"
  then obtain h' where "b = Some (AnyRegBuf h')" "h' = h\<lparr>rb_initialized := rb_initialized h'\<rparr>"
    by (auto simp: same_buffer_def split: option.splits any_buf.splits)
  then show "\<exists>n. b = Some (AnyRegBuf (h\<lparr>rb_initialized := n\<rparr>))" by metis
qed (auto simp: same_buffer_def)

lemma same_buffer_refresh: "same_buffer given b \<Longrightarrow> same_buffer given (refresh_for b d)"
proof (cases "\<exists>h. given = Some (AnyRegBuf h)")
  case True
  assume "same_buffer given b"
  with True obtain h n where "given = Some (AnyRegBuf h)" "b = Some (AnyRegBuf (h\<lparr>rb_initialized := n\<rparr>))"
    by (auto simp: same_buffer_handle)
  then show ?thesis
    by (auto simp: same_buffer_handle refresh_for_def reg_buf_refresh_def split: option.split
        intro: exI [of _ n] exI)
next
  case False
  assume "same_buffer given b"
  with False show ?thesis
    by (auto simp: same_buffer_def refresh_for_def split: option.splits any_buf.splits)
qed

lemma gives_back_same:
  "\<lbrakk>gives_back d q given res b; same_registration d d'\<rbrakk> \<Longrightarrow> gives_back d' q given res b"
  by (auto simp: gives_back_def collects_def same_registration_def
      split: option.splits sum.splits pending_registration.splits any_buf.splits)

lemma gives_back_refresh:
  assumes "gives_back d q given res b" shows "gives_back d q given res (refresh_for b d')"
proof -
  have c: "collects d bs (refresh_for b d')" if "collects d bs b" for bs
    using that by (auto simp: collects_def refresh_for_def split: option.splits any_buf.splits)
  have p: "refresh_for (Some (AnyPending p)) d' = Some (AnyPending p)" for p
    by (simp add: refresh_for_def)
  show ?thesis using assms
    by (auto simp: gives_back_def p intro: same_buffer_refresh c
        split: option.splits sum.splits pending_registration.splits)
qed

lemma adopt_total:
  assumes "pending_ok (Some q)"
  obtains r d1 where "adopt_registration q d = Some (r, d1)"
    "ring d1 = ring d" "slab d1 = slab d" "torn_down d1 = torn_down d" "shutdown d1 = shutdown d"
    "pending_submit d1 = pending_submit d" "cells d1 = cells d" "next_cell d1 = next_cell d"
    "files d1 = files d" "cancel_holds d1 = cancel_holds d"
    "registration_in_flight d1 = registration_in_flight d" "reg_sound d \<longrightarrow> reg_sound d1"
    "\<not> pends (Some q) \<longrightarrow> regs d1 = regs d \<and> buffer_registration d1 = buffer_registration d"
    "r = (if pends (Some q) then Some (next_reg d) else None)"
    "\<And>b0. gives_back d1 (Some q) b0 (Inr n) (case r of Some i \<Rightarrow> Some (AnyCollection i) | None \<Rightarrow> b0)"
proof (cases q)
  case (PendBuffers bs ps es ws ds)
  with assms have len: "length ps = length bs" "length es = length bs" "length ws = length bs"
    by (simp_all add: pending_ok_def)
  obtain d1 where "adopt_registration q d = Some (Some (next_reg d), d1)"
    "ring d1 = ring d" "slab d1 = slab d" "torn_down d1 = torn_down d" "shutdown d1 = shutdown d"
    "pending_submit d1 = pending_submit d" "cells d1 = cells d" "next_cell d1 = next_cell d"
    "files d1 = files d" "cancel_holds d1 = cancel_holds d"
    "registration_in_flight d1 = registration_in_flight d"
    "buffer_registration d1 = Some (next_reg d)"
    "regs d1 (next_reg d) = Some \<lparr>rg_buffers_box = bs, rg_pointers = ps,
             rg_slots = map new_reg_slot (zip es ws), rg_descriptors = ds\<rparr>"
    using PendBuffers len
    by (cases "buffer_registration d") (simp_all add: adopt_registration_def registry_new_def Let_def)
  then show thesis
    by (intro that [of "Some (next_reg d)" d1]) (simp_all add: PendBuffers pends_def reg_sound_def len gives_back_def collects_def boxed_def)
next
  case (PendFiles fs)
  define d1 where "d1 = (case file_reg d of
      Some previous \<Rightarrow> d\<lparr>file_reg := Some \<lparr>fr_files = fs, fr_count = length fs\<rparr>,
        retired_file_registrations := retired_file_registrations d @ [previous]\<rparr>
    | None \<Rightarrow> d\<lparr>file_reg := Some \<lparr>fr_files = fs, fr_count = length fs\<rparr>\<rparr>)"
  have "adopt_registration q d = Some (None, d1)"
    by (cases "file_reg d") (simp_all add: PendFiles adopt_registration_def d1_def Let_def)
  then show thesis
    by (rule that) (cases "file_reg d"; simp add: d1_def PendFiles pends_def reg_sound_def gives_back_def)+
qed

lemma settle_total:
  assumes "pending_ok q"
  obtains b d1 where "settle_registration res q b0 d = Some (b, d1)"
    "ring d1 = ring d" "slab d1 = slab d" "torn_down d1 = torn_down d" "shutdown d1 = shutdown d"
    "pending_submit d1 = pending_submit d" "cells d1 = cells d" "next_cell d1 = next_cell d"
    "files d1 = files d" "cancel_holds d1 = cancel_holds d"
    "registration_in_flight d1 \<longleftrightarrow> registration_in_flight d \<and> \<not> pends q" "reg_sound d \<Longrightarrow> reg_sound d1"
    "\<not> pends q \<Longrightarrow> regs_kept d d1"
    "\<not> pends q \<Longrightarrow> same_registration d d1" "gives_back d1 q b0 res b"
proof (cases q)
  case None
  then show thesis
    by (intro that [of b0 d]) (simp_all add: settle_registration_def pends_def regs_kept_same gives_back_def)
next
  case (Some p)
  define d0 where "d0 = (case p of PendBuffers _ _ _ _ _ \<Rightarrow> d\<lparr>registration_in_flight := False\<rparr> | PendFiles _ \<Rightarrow> d)"
  have d0: "ring d0 = ring d" "slab d0 = slab d" "torn_down d0 = torn_down d" "shutdown d0 = shutdown d"
    "pending_submit d0 = pending_submit d" "cells d0 = cells d" "next_cell d0 = next_cell d"
    "files d0 = files d" "cancel_holds d0 = cancel_holds d" "regs d0 = regs d"
    "buffer_registration d0 = buffer_registration d" "next_reg d0 = next_reg d"
    "registration_in_flight d0 \<longleftrightarrow> registration_in_flight d \<and> \<not> pends q"
    by (cases p; simp add: d0_def Some pends_def)+
  have eq: "settle_registration res q b0 d = (case res of
      Inr _ \<Rightarrow> (case adopt_registration p d0 of
          None \<Rightarrow> None
        | Some (Some registered, d2) \<Rightarrow> Some (Some (AnyCollection registered), d2)
        | Some (None, d2) \<Rightarrow> Some (b0, d2))
    | Inl _ \<Rightarrow> Some (Some (AnyPending p), d0))"
    unfolding settle_registration_def Some d0_def Let_def by simp
  have sound: "reg_sound d0 = reg_sound d" by (simp add: reg_sound_def d0)
  show thesis
  proof (cases res)
    case (Inl e)
    then have "settle_registration res q b0 d = Some (Some (AnyPending p), d0)" unfolding eq by simp
    then show thesis by (rule that) (use Inl Some in \<open>simp_all add: d0 sound regs_kept_same same_registration_regs gives_back_def\<close>)
  next
    case (Inr n)
    from assms Some have ok: "pending_ok (Some p)" by simp
    obtain r d1 where a: "adopt_registration p d0 = Some (r, d1)"
      "ring d1 = ring d0" "slab d1 = slab d0" "torn_down d1 = torn_down d0" "shutdown d1 = shutdown d0"
      "pending_submit d1 = pending_submit d0" "cells d1 = cells d0" "next_cell d1 = next_cell d0"
      "files d1 = files d0" "cancel_holds d1 = cancel_holds d0"
      "registration_in_flight d1 = registration_in_flight d0" "reg_sound d0 \<longrightarrow> reg_sound d1"
      "\<not> pends (Some p) \<longrightarrow> regs d1 = regs d0 \<and> buffer_registration d1 = buffer_registration d0"
      "gives_back d1 (Some p) b0 (Inr n) (case r of Some i \<Rightarrow> Some (AnyCollection i) | None \<Rightarrow> b0)"
      by (rule adopt_total [OF ok, where d = d0 and n = n]) blast
    have s: "settle_registration res q b0 d =
        Some (case r of Some i \<Rightarrow> Some (AnyCollection i) | None \<Rightarrow> b0, d1)"
      unfolding eq using a(1) Inr by (cases r) simp_all
    show thesis
      by (rule that [OF s]) (use a d0 Some Inr in \<open>simp_all add: sound regs_kept_same same_registration_regs\<close>)
  qed
qed

section \<open>Reaping one completion\<close>

text \<open>The driver once the payload is out, its registration settled and the watermark raised.\<close>

lemma complete_live:
  assumes inv: "driver_inv d" and k: "token_kind t = Operation"
    and live: "live_payloads d (token_key t) = Some p"
  obtains s e where "slab_complete t (slab d) = (Some p, s)" "slab_wf s" "advances (slab d) s"
    "slab_view s = (slab_view (slab d))(token_key t := e)" "e = None \<or> e = Some Tomb"
proof -
  note wf = driver_invD(1) [OF inv]
  obtain res s where r: "slab_complete t (slab d) = (res, s)" by (cases "slab_complete t (slab d)")
  from live obtain l ob c where v: "slab_view (slab d) (token_key t) = Some (Entry l ob p c)"
    by (auto simp: live_payloads_Some)
  from complete_spec [OF wf r] v k have "slab_wf s" "res = Some p"
    "slab_view s = (slab_view (slab d))(token_key t := (if c = Pending then Some Tomb else None))"
    by simp_all
  moreover have "advances (slab d) s"
    using exec_advances [OF wf, of "CmdComplete t"] r by simp
  ultimately show thesis
    by (intro that [of s "if c = Pending then Some Tomb else None"]) (simp_all add: r)
qed

lemma complete_dead:
  assumes inv: "driver_inv d" and "token_kind t = Operation" "live_payloads d (token_key t) = None"
  shows "slab_complete t (slab d) = (None, slab d)"
proof -
  obtain res s where r: "slab_complete t (slab d) = (res, s)" by (cases "slab_complete t (slab d)")
  from complete_spec [OF driver_invD(1) [OF inv] r] assms(3) r show ?thesis
    by (auto simp: live_payloads_def split: option.splits entry.splits if_splits)
qed

lemma resolve_cell_eq:
  "resolve_cell c r d = (option_list (rs_waker (cells d c)),
     d\<lparr>cells := (cells d)(c := (cells d c)\<lparr>rs_completed := Some r, rs_waker := None\<rparr>)\<rparr>)"
  by (simp add: resolve_cell_def Let_def option_list_def split: option.split)

text \<open>
  Reaping the completion of a live operation: the payload leaves the slab, its cell gets the
  result and the buffer unless the future is gone, and every other cell is left alone.
\<close>

lemma reap_live:
  assumes inv: "driver_inv d" and k: "token_kind t = Operation"
    and live: "live_payloads d (token_key t) = Some p"
  obtains d' b e where
    "reap_operation c t d = Some (option_list (rs_waker (cells d (op_slot p))), d')"
    "driver_inv d'" "live_payloads d' = (live_payloads d)(token_key t := None)"
    "advances (slab d) (slab d')" "cells_kept (d\<lparr>cells := (cells d)(op_slot p := cells d' (op_slot p))\<rparr>) d'"
    "torn_down d' = torn_down d" "shutdown d' = shutdown d"
    "\<And>j. j \<noteq> op_slot p \<Longrightarrow> cells d' j = cells d j"
    "cells d' (op_slot p) = (cells d (op_slot p))\<lparr>rs_waker := None, rs_completed :=
        (if rs_future (cells d (op_slot p)) then Some (complete_result c, b) else None)\<rparr>"
    "gives_back d' (op_pending p) (op_buffer p) (complete_result c) b"
    "\<not> pends_buffers p \<Longrightarrow> same_registration d d'"
    "cancel_holds d' = cancel_holds d" "slab_view (slab d') = (slab_view (slab d))(token_key t := e)"
proof -
  note i = driver_invD [OF inv]
  have ok: "cell_open d (op_slot p)" "pending_ok (op_pending p)"
    using i(6) [OF live] by (simp_all add: payload_ok_def)
  obtain s e where s: "slab_complete t (slab d) = (Some p, s)" "slab_wf s" "advances (slab d) s"
    "slab_view s = (slab_view (slab d))(token_key t := e)" "e = None \<or> e = Some Tomb"
    using complete_live [OF inv k live] .
  let ?d0 = "d\<lparr>slab := s\<rparr>" and ?res = "complete_result c"
  obtain b0 d1 where d1: "settle_registration ?res (op_pending p) (op_buffer p) ?d0 = Some (b0, d1)"
    "ring d1 = ring d" "slab d1 = s" "torn_down d1 = torn_down d" "shutdown d1 = shutdown d"
    "pending_submit d1 = pending_submit d" "cells d1 = cells d" "next_cell d1 = next_cell d"
    "cancel_holds d1 = cancel_holds d"
    "registration_in_flight d1 \<longleftrightarrow> registration_in_flight d \<and> \<not> pends_buffers p"
    "reg_sound d \<longrightarrow> reg_sound d1" "\<not> pends_buffers p \<longrightarrow> none_out d \<longrightarrow> none_out d1"
    "\<not> pends_buffers p \<longrightarrow> same_registration ?d0 d1" "gives_back d1 (op_pending p) (op_buffer p) ?res b0"
  proof (rule settle_total [OF ok(2), where res = ?res and d = ?d0 and ?b0.0 = "op_buffer p"], goal_cases)
    case (1 b d1)
    have "reg_sound ?d0 = reg_sound d" "none_out ?d0 = none_out d"
      by (simp_all add: reg_sound_def none_out_def current_registry_def)
    with 1(2-) show ?case
      by (intro 1(1) [of b d1]) (simp_all add: pends_buffers_pends regs_kept_def)
  qed
  define d2 where "d2 = raise_for ?res (op_registered_buffer p) b0 d1"
  define b where "b = refresh_for b0 d2"
  define d3 where "d3 = snd (resolve_cell (op_slot p) (?res, b) d2)"
  define d' where "d' = drop_payload (p\<lparr>op_buffer := None, op_pending := None\<rparr>) d3"
  have cells2: "cells d2 = cells d" "next_cell d2 = next_cell d" by (simp_all add: d2_def d1)
  have red: "reap_operation c t d = Some (option_list (rs_waker (cells d (op_slot p))), d')"
    by (simp add: reap_operation_def s(1) d1(1) Let_def d'_def d3_def b_def d2_def resolve_cell_eq d1(7))
  have cells3: "cells d3 = (cells d)(op_slot p := (cells d (op_slot p))
      \<lparr>rs_completed := Some (?res, b), rs_waker := None\<rparr>)"
    by (simp add: d3_def resolve_cell_eq cells2)
  have cells': "cells d' = (cells d)(op_slot p := (cells d (op_slot p))\<lparr>rs_waker := None,
      rs_completed := (if rs_future (cells d (op_slot p)) then Some (?res, b) else None)\<rparr>)"
    by (cases "op_sequential p")
      (auto simp: d'_def drop_payload_def drop_any_def [of None] drop_cell_half_def cells3
        clear_sequential_def)
  have regs: "regs_kept d1 d'"
  proof -
    have "regs_kept d2 d3" by (simp add: regs_kept_same d3_def resolve_cell_eq)
    then show ?thesis
      unfolding d'_def by (intro regs_kept_trans [OF regs_kept_trans [OF _ _] regs_kept_drop_payload])
        (auto simp: d2_def regs_kept_raise_for)
  qed
  have frame: "ring d' = ring d" "slab d' = s" "torn_down d' = torn_down d" "shutdown d' = shutdown d"
    "pending_submit d' = pending_submit d" "next_cell d' = next_cell d" "cancel_holds d' = cancel_holds d"
    "registration_in_flight d' \<longleftrightarrow> registration_in_flight d \<and> \<not> pends_buffers p"
    by (simp_all add: d'_def d3_def d2_def d1)
  have inv': "driver_inv d'"
  proof (rule inv_removed [OF inv _ _ live _ s(5)])
    show "same_core d d'"
      using frame regs d1(11) i(11) by (simp add: same_core_def regs_kept_def)
    show "registration_in_flight d' \<Longrightarrow> none_out d \<Longrightarrow> none_out d'"
      using frame(8) regs d1(12) by (simp add: regs_kept_def)
    show "cell_open d j \<Longrightarrow> j \<noteq> op_slot p \<Longrightarrow> cell_open d' j" for j
      by (simp add: cell_open_def frame cells')
  qed (simp_all add: frame s)
  have live': "live_payloads d' = (live_payloads d)(token_key t := None)"
    using s(5) by (intro ext) (auto simp: live_payloads_def frame s(4))
  have same: "same_registration d1 d'"
  proof -
    have "same_registration d1 d2" unfolding d2_def by (rule same_registration_raise_for)
    moreover have "same_registration d2 d3" by (simp add: same_registration_regs d3_def resolve_cell_eq)
    ultimately show ?thesis
      unfolding d'_def using same_registration_drop_payload same_registration_trans by blast
  qed
  have given: "gives_back d' (op_pending p) (op_buffer p) ?res b"
    unfolding b_def using d1(14) same by (intro gives_back_refresh) (rule gives_back_same)
  have kept: "same_registration d d'" if "\<not> pends_buffers p"
    using d1(13) same that same_registration_regs [of ?d0 d] same_registration_trans
    by (auto simp: same_registration_def)
  show thesis
    by (rule that [OF red inv' live', of b e])
      (use s given kept in \<open>simp_all add: frame cells' cells_kept_def cell_open_def\<close>)
qed

lemma reap_dead:
  assumes "driver_inv d" "token_kind t = Operation" "live_payloads d (token_key t) = None"
  shows "reap_operation c t d = Some ([], d)"
  using complete_dead [OF assms] by (simp add: reap_operation_def)

lemma keeps_reap_cancel:
  assumes inv: "driver_inv d" shows "keeps d (reap_cancel t d)"
proof (rule keeps_in_place [OF inv])
  note wf = driver_invD(1) [OF inv]
  obtain b s where r: "slab_complete_cancel t (slab d) = (b, s)" by (cases "slab_complete_cancel t (slab d)")
  have s: "slab (reap_cancel t d) = s" by (simp add: reap_cancel_def r)
  note sp = complete_cancel_spec [OF wf r]
  show "slab_wf (slab (reap_cancel t d))" using sp by (simp add: s)
  show "advances (slab d) (slab (reap_cancel t d))"
    using exec_advances [OF wf, of "CmdCompleteCancel t"] r by (simp add: s)
  show step: "entry_step (slab_view (slab d) k) (slab_view (slab (reap_cancel t d)) k)" for k
    using sp by (auto simp: s entry_step_def split: option.splits entry.splits if_splits cancel_state.splits)
  show "pending_submit d \<Longrightarrow> pending_submit (reap_cancel t d) \<or>
      (\<forall>k ob p c. slab_view (slab (reap_cancel t d)) k \<noteq> Some (Entry Built ob p c))"
    by (simp add: reap_cancel_def)
qed (simp_all add: reap_cancel_def cells_kept_same regs_kept_same)

section \<open>The log of a reap\<close>

text \<open>
  \<open>reaps P d cs ws d'\<close>: the reap loop pops exactly the completions \<open>cs\<close>, in that order,
  collects the wakers \<open>ws\<close> and leaves the driver \<open>d'\<close>.
\<close>

inductive reaps :: "'k platform \<Rightarrow> 'k driver \<Rightarrow> cqe list \<Rightarrow> waker list \<Rightarrow> 'k driver \<Rightarrow> bool"
  for P :: "'k platform" where
  reaps_empty: "pop_completion P (ring d) (kern d) = (Inr None, k) \<Longrightarrow> reaps P d [] [] (d\<lparr>kern := k\<rparr>)"
| reaps_error: "pop_completion P (ring d) (kern d) = (Inl e, k)
    \<Longrightarrow> reaps P d [] [] (report (runtime_from_ring e) (d\<lparr>kern := k\<rparr>))"
| reaps_next: "\<lbrakk>pop_completion P (ring d) (kern d) = (Inr (Some c), k);
     reap_one c (d\<lparr>kern := k\<rparr>) = Some (ws, d1); reaps P d1 cs ws' d'\<rbrakk>
    \<Longrightarrow> reaps P d (c # cs) (ws @ ws') d'"

lemma reaps_reap_loop: "reaps P d cs ws d' \<Longrightarrow> reap_loop P acc d = Some (acc @ ws, d')"
proof (induction arbitrary: acc rule: reaps.induct)
  case (reaps_empty d k)
  then show ?case by (subst reap_loop.simps) simp
next
  case (reaps_error d e k)
  then show ?case by (subst reap_loop.simps) simp
next
  case (reaps_next d c k ws d1 cs ws' d')
  then show ?case by (subst reap_loop.simps) simp
qed

lemma reap_loop_reaps:
  assumes "reap_loop P acc d = Some r"
  shows "\<exists>cs ws. fst r = acc @ ws \<and> reaps P d cs ws (snd r)"
proof -
  define Q where "Q = (\<lambda>((P :: 'a platform, acc), d) (r :: waker list \<times> 'a driver).
    \<exists>cs ws. fst r = acc @ ws \<and> reaps P d cs ws (snd r))"
  have "Q ((P, acc), d) r"
  proof (rule reap_loop.raw_induct [OF _ assms])
    fix loop :: "'a platform \<Rightarrow> waker list \<Rightarrow> 'a driver \<Rightarrow> (waker list \<times> 'a driver) option" and P acc d r
    assume ih: "\<And>P acc d r. loop P acc d = Some r \<Longrightarrow> Q ((P, acc), d) r"
      and r: "(case pop_completion P (ring d) (kern d) of
        (Inl e, k) \<Rightarrow> Some (acc, report (runtime_from_ring e) (d\<lparr>kern := k\<rparr>))
      | (Inr None, k) \<Rightarrow> Some (acc, d\<lparr>kern := k\<rparr>)
      | (Inr (Some c), k) \<Rightarrow>
          case reap_one c (d\<lparr>kern := k\<rparr>) of None \<Rightarrow> None
          | Some (ws, d') \<Rightarrow> loop P (acc @ ws) d') = Some r"
    show "Q ((P, acc), d) r"
    proof (cases "pop_completion P (ring d) (kern d)")
      case (Pair res k)
      consider (err) e where "res = Inl e" | (none) "res = Inr None" | (one) c where "res = Inr (Some c)"
        by (cases res; cases "projr res") auto
      then show ?thesis
      proof cases
        case err
        with r Pair have "r = (acc, report (runtime_from_ring e) (d\<lparr>kern := k\<rparr>))" by simp
        with reaps_error [of P d e k] Pair err show ?thesis by (auto simp: Q_def)
      next
        case none
        with r Pair have "r = (acc, d\<lparr>kern := k\<rparr>)" by simp
        with reaps_empty [of P d k] Pair none show ?thesis by (auto simp: Q_def)
      next
        case one
        from r Pair one obtain ws d1 where
          o: "reap_one c (d\<lparr>kern := k\<rparr>) = Some (ws, d1)" "loop P (acc @ ws) d1 = Some r"
          by (auto split: option.splits)
        from ih [OF o(2)] obtain cs ws' where
          w: "fst r = (acc @ ws) @ ws'" "reaps P d1 cs ws' (snd r)" by (auto simp: Q_def)
        have "reaps P d (c # cs) (ws @ ws') (snd r)"
          by (rule reaps_next [OF _ o(1) w(2)]) (simp add: Pair one)
        moreover have "fst r = acc @ (ws @ ws')" using w(1) by simp
        ultimately have "\<exists>cs ws. fst r = acc @ ws \<and> reaps P d cs ws (snd r)" by blast
        then show ?thesis by (simp add: Q_def)
      qed
    qed
  qed
  then show ?thesis by (simp add: Q_def)
qed

lemma reap_completions_reaps:
  "reap_completions P d = Some (ws, d') \<longleftrightarrow> (\<exists>cs. reaps P d cs ws d')"
  using reap_loop_reaps [of P "[]" d "(ws, d')"] reaps_reap_loop [of P d _ ws d' "[]"]
  by (auto simp: reap_completions_def)

text \<open>The completion of the operation under a key.\<close>

definition names :: "key \<Rightarrow> cqe \<Rightarrow> bool" where
  "names k c \<longleftrightarrow> token_kind (from_user_data (cqe_user_data c)) = Operation \<and>
     token_key (from_user_data (cqe_user_data c)) = k"

text \<open>What holds of one completion, whatever it is.\<close>

lemma reap_one_step:
  assumes inv: "driver_inv d" and r: "reap_one c d = Some (ws, d')"
  shows "driver_inv d'" "advances (slab d) (slab d')"
    "live_payloads d' = (\<lambda>k. if names k c then None else live_payloads d k)"
    "\<forall>j. (\<forall>k p. live_payloads d k = Some p \<longrightarrow> names k c \<longrightarrow> op_slot p \<noteq> j) \<longrightarrow> cells d' j = cells d j"
    "torn_down d' = torn_down d" "shutdown d' = shutdown d"
proof -
  let ?t = "from_user_data (cqe_user_data c)"
  have "driver_inv d' \<and> advances (slab d) (slab d') \<and>
    live_payloads d' = (\<lambda>k. if names k c then None else live_payloads d k) \<and>
    (\<forall>j. (\<forall>k p. live_payloads d k = Some p \<longrightarrow> names k c \<longrightarrow> op_slot p \<noteq> j) \<longrightarrow> cells d' j = cells d j) \<and>
    torn_down d' = torn_down d \<and> shutdown d' = shutdown d"
  proof (cases "token_kind ?t = Cancel")
    case True
    with r have d': "d' = reap_cancel ?t d" by (simp add: reap_one_def)
    have "keeps d d'" using keeps_reap_cancel [OF inv] by (simp add: d')
    moreover have "live_payloads d' = live_payloads d"
    proof
      fix k
      obtain b s where rc: "slab_complete_cancel ?t (slab d) = (b, s)"
        by (cases "slab_complete_cancel ?t (slab d)")
      from complete_cancel_spec [OF driver_invD(1) [OF inv] rc]
      show "live_payloads d' k = live_payloads d k"
        by (auto simp: d' reap_cancel_def rc live_payloads_def
            split: option.splits entry.splits if_splits cancel_state.splits)
    qed
    ultimately show ?thesis
      using True by (simp add: keeps_def retains_def names_def d' reap_cancel_def)
  next
    case False
    then have k: "token_kind ?t = Operation" by (cases "token_kind ?t") simp_all
    with False r have ro: "reap_operation c ?t d = Some (ws, d')" by (simp add: reap_one_def)
    show ?thesis
    proof (cases "live_payloads d (token_key ?t)")
      case None
      with reap_dead [OF inv k None, of c] ro inv show ?thesis
        by (auto simp: names_def fun_eq_iff)
    next
      case (Some p)
      from inv k Some show ?thesis
        by (rule reap_live [where c = c]) (use ro k Some in \<open>auto simp: names_def fun_eq_iff\<close>)
    qed
  qed
  then show "driver_inv d'" "advances (slab d) (slab d')"
    "live_payloads d' = (\<lambda>k. if names k c then None else live_payloads d k)"
    "\<forall>j. (\<forall>k p. live_payloads d k = Some p \<longrightarrow> names k c \<longrightarrow> op_slot p \<noteq> j) \<longrightarrow> cells d' j = cells d j"
    "torn_down d' = torn_down d" "shutdown d' = shutdown d"
    by blast+
qed

text \<open>A popped completion that is the first for a live operation delivers its result.\<close>

lemma reap_one_delivers:
  assumes inv: "driver_inv d" and r: "reap_one c d = Some (ws, d')"
    and live: "live_payloads d k = Some p" and n: "names k c"
  obtains b where
    "cells d' (op_slot p) = (cells d (op_slot p))\<lparr>rs_waker := None, rs_completed :=
        (if rs_future (cells d (op_slot p)) then Some (complete_result c, b) else None)\<rparr>"
    "gives_back d' (op_pending p) (op_buffer p) (complete_result c) b"
    "set (option_list (rs_waker (cells d (op_slot p)))) \<subseteq> set ws"
proof -
  let ?t = "from_user_data (cqe_user_data c)"
  from n have t: "token_kind ?t = Operation" "token_key ?t = k" by (simp_all add: names_def)
  with r have ro: "reap_operation c ?t d = Some (ws, d')" by (simp add: reap_one_def)
  from live t have l: "live_payloads d (token_key ?t) = Some p" by simp
  from inv t(1) l show thesis
  proof (rule reap_live [where c = c], goal_cases)
    case (1 d'' b e)
    with ro show ?thesis by (intro that [of b]) simp_all
  qed
qed

lemma keeps_report_kern: "driver_inv d \<Longrightarrow> keeps d (report e (d\<lparr>kern := k\<rparr>))"
  by (rule keeps_quiet) (simp_all add: report_def cells_kept_same regs_kept_same)

lemma live_payloads_kern [simp]:
  "live_payloads (d\<lparr>kern := k\<rparr>) = live_payloads d" "live_payloads (report e d) = live_payloads d"
  by (simp_all add: live_payloads_def fun_eq_iff report_def)

text \<open>A reap takes out exactly the operations whose completions it pops.\<close>

lemma reaps_keeps:
  assumes "reaps P d cs ws d'" "driver_inv d"
  shows "driver_inv d' \<and> advances (slab d) (slab d') \<and>
    live_payloads d' = (\<lambda>k. if \<exists>c \<in> set cs. names k c then None else live_payloads d k) \<and>
    torn_down d' = torn_down d \<and> shutdown d' = shutdown d"
  using assms
proof (induction rule: reaps.induct)
  case (reaps_empty d k)
  then show ?case using keeps_kern [OF reaps_empty.prems, of k] by (simp add: keeps_def)
next
  case (reaps_error d e k)
  then show ?case
    using keeps_report_kern [OF reaps_error.prems, of "runtime_from_ring e" k] by (simp add: keeps_def)
next
  case (reaps_next d c k ws d1 cs ws' d')
  have inv: "driver_inv (d\<lparr>kern := k\<rparr>)"
    using keeps_kern [OF reaps_next.prems] by (simp add: keeps_def)
  note o = reap_one_step [OF inv reaps_next.hyps(2)]
  from reaps_next.IH [OF o(1)] o show ?case
    by (auto simp: fun_eq_iff intro: advances_trans)
qed

text \<open>Only the completion of a buffer registration changes the collection in force.\<close>

lemma reap_one_same_registration:
  assumes inv: "driver_inv d" and r: "reap_one c d = Some (ws, d')"
    and np: "\<And>k p. live_payloads d k = Some p \<Longrightarrow> \<not> pends_buffers p"
  shows "same_registration d d'"
proof (cases "token_kind (from_user_data (cqe_user_data c))")
  case Cancel
  then show ?thesis using r by (auto simp: reap_one_def Let_def reap_cancel_def intro: same_registration_regs)
next
  case Operation
  let ?t = "from_user_data (cqe_user_data c)"
  have ro: "reap_operation c ?t d = Some (ws, d')" using r Operation by (simp add: reap_one_def)
  show ?thesis
  proof (cases "live_payloads d (token_key ?t)")
    case None
    then show ?thesis using ro reap_dead [OF inv Operation None, of c] by simp
  next
    case (Some p)
    from inv Operation Some show ?thesis
      by (rule reap_live [where c = c]) (use ro np [OF Some] in simp)
  qed
qed

lemma reaps_same_registration:
  assumes "reaps P d cs ws d'" "driver_inv d" "\<And>k p. live_payloads d k = Some p \<Longrightarrow> \<not> pends_buffers p"
  shows "same_registration d d'"
  using assms
proof (induction rule: reaps.induct)
  case (reaps_next d c k ws d1 cs ws' d')
  have inv: "driver_inv (d\<lparr>kern := k\<rparr>)"
    using keeps_kern [OF reaps_next.prems(1)] by (simp add: keeps_def)
  note o = reap_one_step [OF inv reaps_next.hyps(2)]
  have "same_registration (d\<lparr>kern := k\<rparr>) d1"
    by (rule reap_one_same_registration [OF inv reaps_next.hyps(2)]) (use reaps_next.prems(2) in simp)
  moreover have "same_registration d1 d'"
    by (rule reaps_next.IH [OF o(1)]) (use o(3) reaps_next.prems(2) in \<open>auto split: if_splits\<close>)
  ultimately have "same_registration (d\<lparr>kern := k\<rparr>) d'" by (rule same_registration_trans)
  then show ?case by (simp add: same_registration_def boxed_def fun_eq_iff)
qed (simp_all add: same_registration_regs report_def)

lemma gives_back_not_pending:
  "\<not> pends q \<Longrightarrow> gives_back d q given res b \<longleftrightarrow> gives_back d' q given res b"
  by (auto simp: gives_back_def pends_def split: option.split sum.split pending_registration.split)

lemma reaps_other_cells:
  assumes "reaps P d cs ws d'" "driver_inv d"
    and "\<And>k p c. \<lbrakk>live_payloads d k = Some p; c \<in> set cs; names k c\<rbrakk> \<Longrightarrow> op_slot p \<noteq> j"
  shows "cells d' j = cells d j"
  using assms
proof (induction rule: reaps.induct)
  case (reaps_next d c k ws d1 cs ws' d')
  have inv: "driver_inv (d\<lparr>kern := k\<rparr>)"
    using keeps_kern [OF reaps_next.prems(1)] by (simp add: keeps_def)
  note o = reap_one_step [OF inv reaps_next.hyps(2)]
  have "op_slot p \<noteq> j" if "live_payloads d k = Some p" "names k c" for k p
    using reaps_next.prems(2) [OF that(1) _ that(2)] by simp
  then have "cells d1 j = cells d j" using o(4) by simp
  moreover have "cells d' j = cells d1 j"
    by (rule reaps_next.IH [OF o(1)]) (use o(3) reaps_next.prems(2) in \<open>auto split: if_splits\<close>)
  ultimately show ?case by simp
qed simp_all

text \<open>What a reap does to one live operation: nothing, or the first completion naming it delivers.\<close>

lemma reaps_deliver:
  assumes "reaps P d cs ws d'" "driver_inv d" "live_payloads d k = Some p"
  shows "case find (names k) cs of
         None \<Rightarrow> live_payloads d' k = Some p \<and> cells d' (op_slot p) = cells d (op_slot p)
       | Some c \<Rightarrow> live_payloads d' k = None \<and>
           set (option_list (rs_waker (cells d (op_slot p)))) \<subseteq> set ws \<and>
           (\<exists>b. cells d' (op_slot p) = (cells d (op_slot p))\<lparr>rs_waker := None, rs_completed :=
                  (if rs_future (cells d (op_slot p)) then Some (complete_result c, b) else None)\<rparr> \<and>
                gives_back d' (op_pending p) (op_buffer p) (complete_result c) b)"
  using assms
proof (induction rule: reaps.induct)
  case (reaps_next d c kk ws d1 cs ws' d')
  have inv: "driver_inv (d\<lparr>kern := kk\<rparr>)"
    using keeps_kern [OF reaps_next.prems(1)] by (simp add: keeps_def)
  note o = reap_one_step [OF inv reaps_next.hyps(2)]
  note apart = driver_invD(4) [OF reaps_next.prems(1), unfolded cells_apart_def]
  show ?case
  proof (cases "names k c")
    case True
    obtain b where b: "cells d1 (op_slot p) = (cells d (op_slot p))\<lparr>rs_waker := None, rs_completed :=
        (if rs_future (cells d (op_slot p)) then Some (complete_result c, b) else None)\<rparr>"
      "gives_back d1 (op_pending p) (op_buffer p) (complete_result c) b"
      "set (option_list (rs_waker (cells d (op_slot p)))) \<subseteq> set ws"
      using reap_one_delivers [OF inv reaps_next.hyps(2) _ True, of p] reaps_next.prems(2) by auto
    have "cells d' (op_slot p) = cells d1 (op_slot p)"
    proof (rule reaps_other_cells [OF reaps_next.hyps(3) o(1)])
      fix k' p' c' assume "live_payloads d1 k' = Some p'"
      then have "live_payloads d k' = Some p'" "k' \<noteq> k" using o(3) True by (auto split: if_splits)
      with apart reaps_next.prems(2) show "op_slot p' \<noteq> op_slot p" by blast
    qed
    moreover have "live_payloads d' k = None"
      using reaps_keeps [OF reaps_next.hyps(3) o(1)] o(3) True by simp
    moreover have "gives_back d' (op_pending p) (op_buffer p) (complete_result c) b"
    proof (cases "pends_buffers p")
      case True
      have "\<not> pends_buffers p'" if "live_payloads d1 k' = Some p'" for k' p'
      proof
        assume "pends_buffers p'"
        from that o(3) \<open>names k c\<close> have "live_payloads d k' = Some p'" "k' \<noteq> k" by (auto split: if_splits)
        with \<open>pends_buffers p'\<close> True reaps_next.prems(2) driver_invD(5) [OF reaps_next.prems(1)]
        show False unfolding flight_flag_def by blast
      qed
      with b(2) show ?thesis
        using reaps_same_registration [OF reaps_next.hyps(3) o(1)] gives_back_same by blast
    next
      case False
      then show ?thesis
        using b(2) gives_back_not_pending [of "op_pending p" d' "op_buffer p" "complete_result c" b d1]
        by (simp add: pends_buffers_pends)
    qed
    ultimately show ?thesis using True b by auto
  next
    case False
    have "live_payloads d1 k = Some p" using o(3) False reaps_next.prems(2) by simp
    moreover have "cells d1 (op_slot p) = cells d (op_slot p)"
    proof -
      have "op_slot q \<noteq> op_slot p" if "live_payloads d k' = Some q" "names k' c" for k' q
        using apart reaps_next.prems(2) that False by blast
      then show ?thesis using o(4) by auto
    qed
    ultimately show ?thesis
      using reaps_next.IH [OF o(1)] False by (auto split: option.splits)
  qed
qed simp_all

text \<open>
  C4: Each completion resolves its own operation, with its own buffer, exactly once.
  Take any reap of a driver whose invariant holds, and let \<open>cs\<close> be the completions it popped.
  A live operation none of them names stays live and its result cell is untouched, whatever
  else arrived. An operation that one of them names leaves the slab, and its cell holds the
  result of the first completion that names it (later ones with the same token change
  nothing) together with what the operation gives back, and the waker found in the cell is among
  those handed out to be woken; if the future was already dropped, the result and the buffer are
  dropped instead of being left behind. What is given back is fixed for every kind of operation
  (\<open>gives_back\<close>): the very buffer it was started with; for an operation on a registered buffer,
  the same handle, of which only the count of initialized bytes may have moved; for a
  registration that failed, the buffers or files it was to register; and for a registration of
  buffers that succeeded, the collection, which holds exactly those buffers and is the one in
  force when the reap is over.
\<close>

theorem completion_delivered:
  assumes "driver_inv d" "reap_completions P d = Some (ws, d')"
  shows "\<exists>cs. reaps P d cs ws d' \<and>
    (\<forall>k p. live_payloads d k = Some p \<longrightarrow>
      (case find (names k) cs of
         None \<Rightarrow> live_payloads d' k = Some p \<and> cells d' (op_slot p) = cells d (op_slot p)
       | Some c \<Rightarrow> live_payloads d' k = None \<and>
           set (option_list (rs_waker (cells d (op_slot p)))) \<subseteq> set ws \<and>
           (\<exists>b. cells d' (op_slot p) = (cells d (op_slot p))\<lparr>rs_waker := None, rs_completed :=
                  (if rs_future (cells d (op_slot p)) then Some (complete_result c, b) else None)\<rparr> \<and>
                gives_back d' (op_pending p) (op_buffer p) (complete_result c) b)))"
proof -
  from assms(2) obtain cs where cs: "reaps P d cs ws d'" by (auto simp: reap_completions_reaps)
  from reaps_deliver [OF cs assms(1)] cs show ?thesis by blast
qed

end
