(* ===== verification/Driver_Teardown.thy ===== *)
theory Driver_Teardown
  imports Driver_Complete
begin

text \<open>
  Draining and closing: the drain leaves nothing with the kernel before the ring is closed,
  and closing resolves every operation that is left.
\<close>

section \<open>One step of the drain\<close>

lemma no_described_tokens:
  assumes inv: "driver_inv d" shows "slab_described (slab d) = []"
proof -
  have "t \<notin> set (slab_described (slab d))" for t
  proof
    assume t: "t \<in> set (slab_described (slab d))"
    have "t \<in> set (slab_described (slab d)) \<longleftrightarrow> token_kind t = Operation \<and>
        (\<exists>e. slab_view (slab d) (token_key t) = Some e \<and> (\<exists>ob p c. e = Entry Described ob p c))"
      unfolding slab_described_def
    proof (rule tokens_where_mem [OF driver_invD(1) [OF inv]])
      fix st :: "op_payload slot_state" and e
      show "(case st of Occupied Described _ _ _ \<Rightarrow> True | _ \<Rightarrow> False) \<Longrightarrow> entry_of st \<noteq> None"
        by (cases st) simp_all
      show "entry_of st = Some e \<Longrightarrow>
          (case st of Occupied Described _ _ _ \<Rightarrow> True | _ \<Rightarrow> False) = (\<exists>ob p c. e = Entry Described ob p c)"
        by (cases st) (auto split: lifecycle.splits)
    qed
    with t
      driver_invD(2) [OF inv] show False by (auto simp: no_described_def)
  qed
  then show ?thesis by (cases "slab_described (slab d)") auto
qed

lemma resolve_unqueued_idle: "driver_inv d \<Longrightarrow> resolve_unqueued d = ([], d)"
  by (simp add: resolve_unqueued_def no_described_tokens)

text \<open>The driver at the point where the drain starts to reap.\<close>

definition drain_prepared :: "'k platform \<Rightarrow> 'k driver \<Rightarrow> 'k driver" where
  "drain_prepared P d =
     (let d2 = submit_pending P d;
          d3 = (if shutdown d2 \<ge> Immediate then issue_cancels P (slab_submitted_uncancelled (slab d2)) d2 else d2);
          waiting = slab_outstanding (slab d3)
      in if slab_built (slab d3) = [] \<and> waiting > 0
         then d3\<lparr>kern := snd (ring_submit P (ring d3) (of_nat waiting) DRAIN_TIMEOUT_MS (kern d3))\<rparr> else d3)"

definition step_verdict :: "'k driver \<Rightarrow> step_outcome" where
  "step_verdict d = (if slab_outstanding (slab d) = 0 then Quiescent
     else if slab_awaiting_kernel (slab d) = 0 \<and> submit_failures d \<ge> RESIDUE_ATTEMPTS
     then UnsubmittableResidue else Progressing)"

lemma drain_step_eq:
  assumes "driver_inv d"
  shows "drain_step P d = (case reap_completions P (drain_prepared P d) of
     None \<Rightarrow> None | Some (ws, d') \<Rightarrow> Some (ws, step_verdict d', d'))"
  by (simp add: drain_step_def drain_prepared_def resolve_unqueued_idle [OF assms] step_verdict_def Let_def
      split: option.split)

lemma keeps_drain_prepared:
  assumes inv: "driver_inv d" shows "keeps d (drain_prepared P d)"
proof -
  define d2 where "d2 = submit_pending P d"
  define d3 where "d3 = (if shutdown d2 \<ge> Immediate
    then issue_cancels P (slab_submitted_uncancelled (slab d2)) d2 else d2)"
  have k2: "keeps d d2" unfolding d2_def by (rule keeps_submit_pending [OF inv])
  have "keeps d2 d3"
    unfolding d3_def using keeps_issue_cancels [OF keeps_inv [OF k2]] keeps_refl [OF keeps_inv [OF k2]]
    by simp
  with k2 have k3: "keeps d d3" by (rule keeps_trans)
  have "keeps d (d3\<lparr>kern := k\<rparr>)" for k
    by (rule keeps_trans [OF k3 keeps_kern]) (rule keeps_inv [OF k3])
  moreover have "drain_prepared P d = (if slab_built (slab d3) = [] \<and> slab_outstanding (slab d3) > 0
      then d3\<lparr>kern := snd (ring_submit P (ring d3) (of_nat (slab_outstanding (slab d3)))
             DRAIN_TIMEOUT_MS (kern d3))\<rparr> else d3)"
    unfolding drain_prepared_def Let_def d3_def d2_def by (rule refl)
  ultimately show ?thesis using k3 by presburger
qed

text \<open>Nothing is left with the kernel: what remains was never accepted.\<close>

definition kernel_idle :: "'k driver \<Rightarrow> bool" where
  "kernel_idle d \<longleftrightarrow> (\<forall>k e. slab_view (slab d) k = Some e \<longrightarrow> (\<exists>ob p c. e = Entry Built ob p c))"

lemma awaiting_zero:
  assumes inv: "driver_inv d" and z: "slab_awaiting_kernel (slab d) = 0"
  shows "kernel_idle d"
proof -
  note wf = driver_invD(1) [OF inv]
  have "finite {k. \<exists>e. slab_view (slab d) k = Some e \<and> entry_awaits_kernel e}"
    by (rule finite_subset [OF _ finite_dom_view [OF wf]]) auto
  with z awaiting_card [OF wf] have none: "\<not> entry_awaits_kernel e" if "slab_view (slab d) k = Some e" for k e
    using that by auto
  have "\<exists>ob p c. e = Entry Built ob p c" if v: "slab_view (slab d) k = Some e" for k e
  proof (cases e)
    case (Entry l ob p c)
    with none [OF v] v driver_invD(2) [OF inv] show ?thesis
      by (cases l) (auto simp: no_described_def)
  qed (use none [OF v] in simp)
  then show ?thesis by (simp add: kernel_idle_def)
qed

lemma verdict_idle:
  assumes inv: "driver_inv d" and v: "step_verdict d \<noteq> Progressing" shows "kernel_idle d"
proof (cases "slab_outstanding (slab d) = 0")
  case True
  with outstanding_zero [OF driver_invD(1) [OF inv]] show ?thesis by (simp add: kernel_idle_def)
next
  case False
  with v have "slab_awaiting_kernel (slab d) = 0" by (auto simp: step_verdict_def split: if_splits)
  with inv show ?thesis by (rule awaiting_zero)
qed

lemma drain_step_keeps:
  assumes inv: "driver_inv d" and r: "drain_step P d = Some (ws, out, d')"
  obtains cs where "reaps P (drain_prepared P d) cs ws d'" "driver_inv d'" "advances (slab d) (slab d')"
    "live_payloads d' = (\<lambda>k. if \<exists>c \<in> set cs. names k c then None else live_payloads (drain_prepared P d) k)"
    "torn_down d' = torn_down d" "shutdown d \<le> shutdown d'" "out = step_verdict d'"
proof -
  note k = keeps_drain_prepared [OF inv, of P]
  from r obtain cs where cs: "reaps P (drain_prepared P d) cs ws d'" and o: "out = step_verdict d'"
    by (auto simp: drain_step_eq [OF inv] reap_completions_reaps split: option.splits)
  have adv: "advances (slab d) (slab (drain_prepared P d))" using k by (simp add: keeps_def retains_def)
  from reaps_keeps [OF cs keeps_inv [OF k]] o k show thesis
    by (intro that [OF cs]) (auto simp: keeps_def intro: advances_trans [OF adv])
qed

lemma report_slow_drain_frame [simp]:
  "slab (report_slow_drain n d) = slab d" "cells (report_slow_drain n d) = cells d"
  "next_cell (report_slow_drain n d) = next_cell d" "ring (report_slow_drain n d) = ring d"
  "torn_down (report_slow_drain n d) = torn_down d" "shutdown (report_slow_drain n d) = shutdown d"
  "registration_in_flight (report_slow_drain n d) = registration_in_flight d"
  "pending_submit (report_slow_drain n d) = pending_submit d"
  "regs (report_slow_drain n d) = regs d" "buffer_registration (report_slow_drain n d) = buffer_registration d"
  "kern (report_slow_drain n d) = kern d" "shutdown_waiters (report_slow_drain n d) = shutdown_waiters d"
  by (simp_all add: report_slow_drain_def Let_def)

lemma take_reports_frame [simp]:
  "slab (snd (take_reports d)) = slab d" "cells (snd (take_reports d)) = cells d"
  "next_cell (snd (take_reports d)) = next_cell d" "ring (snd (take_reports d)) = ring d"
  "torn_down (snd (take_reports d)) = torn_down d" "shutdown (snd (take_reports d)) = shutdown d"
  "kern (snd (take_reports d)) = kern d" "shutdown_waiters (snd (take_reports d)) = shutdown_waiters d"
  "nudged (snd (take_reports d)) = nudged d" "driver_waker (snd (take_reports d)) = driver_waker d"
  "pending_submit (snd (take_reports d)) = pending_submit d"
  "buffer_registration (snd (take_reports d)) = buffer_registration d"
  "cancel_holds (snd (take_reports d)) = cancel_holds d"
  by (simp_all add: take_reports_def)

lemma keeps_slow_reports:
  "driver_inv d \<Longrightarrow> keeps d (snd (take_reports (report_slow_drain n d)))"
  by (rule keeps_quiet) (simp_all add: take_reports_def cells_kept_same regs_kept_same)

lemma kernel_idle_slab: "slab d' = slab d \<Longrightarrow> kernel_idle d' = kernel_idle d"
  by (simp add: kernel_idle_def)

lemma teardown_step_keeps:
  assumes inv: "driver_inv d" and r: "teardown_step P n d = Some (out, n', ws, rs, d')"
  obtains cs d1 where "reaps P (drain_prepared P d) cs ws d1" "slab d' = slab d1" "cells d' = cells d1"
    "driver_inv d'" "advances (slab d) (slab d')"
    "live_payloads d' = (\<lambda>k. if \<exists>c \<in> set cs. names k c then None else live_payloads d k)"
    "torn_down d' = torn_down d" "shutdown d \<le> shutdown d'" "out \<noteq> Progressing \<longrightarrow> kernel_idle d'"
proof -
  from r obtain d1 where d1: "drain_step P d = Some (ws, out, d1)"
    and d': "d' = snd (take_reports (report_slow_drain n' d1))"
    by (auto simp: teardown_step_def Let_def split: option.splits prod.splits)
  obtain cs where cs: "reaps P (drain_prepared P d) cs ws d1" "driver_inv d1" "advances (slab d) (slab d1)"
    "live_payloads d1 = (\<lambda>k. if \<exists>c \<in> set cs. names k c then None else live_payloads (drain_prepared P d) k)"
    "torn_down d1 = torn_down d" "shutdown d \<le> shutdown d1" "out = step_verdict d1"
    using drain_step_keeps [OF inv d1] .
  have same: "live_payloads (drain_prepared P d) = live_payloads d"
    using keeps_drain_prepared [OF inv, of P] by (simp add: keeps_def retains_def)
  have s: "slab d' = slab d1" "cells d' = cells d1" by (simp_all add: d')
  have "live_payloads d' = live_payloads d1" by (simp add: live_payloads_def s fun_eq_iff)
  then have "live_payloads d' = (\<lambda>k. if \<exists>c \<in> set cs. names k c then None else live_payloads d k)"
    using cs(4) unfolding same by simp
  moreover have "kernel_idle d' = kernel_idle d1" by (rule kernel_idle_slab [OF s(1)])
  moreover have "torn_down d' = torn_down d1" "shutdown d' = shutdown d1" by (simp_all add: d')
  moreover have "driver_inv d'" using keeps_slow_reports [OF cs(2), of n'] by (simp add: d' keeps_def)
  ultimately show thesis
    using cs(1,3,5,6,7) s verdict_idle [OF cs(2)] by (intro that [of cs d1]) simp_all
qed

section \<open>Resolving what is left\<close>

definition abandoned_resources :: "op_payload \<Rightarrow> any_buf option" where
  "abandoned_resources p = (case op_pending p of Some q \<Rightarrow> Some (AnyPending q) | None \<Rightarrow> op_buffer p)"

definition abandoned_cell :: "op_payload \<Rightarrow> result_slot \<Rightarrow> result_slot" where
  "abandoned_cell p sl = sl\<lparr>rs_waker := None, rs_completed :=
     (if rs_future sl then Some (Inl RtAbandonedAtShutdown, abandoned_resources p) else None)\<rparr>"

lemma resolve_abandoned_spec:
  "fst (resolve_abandoned p d) = option_list (rs_waker (cells d (op_slot p)))"
  "cells (snd (resolve_abandoned p d)) = (cells d)(op_slot p := abandoned_cell p (cells d (op_slot p)))"
  "ring (snd (resolve_abandoned p d)) = ring d" "slab (snd (resolve_abandoned p d)) = slab d"
  "shutdown (snd (resolve_abandoned p d)) = shutdown d"
  "next_cell (snd (resolve_abandoned p d)) = next_cell d"
  "shutdown_waiters (snd (resolve_abandoned p d)) = shutdown_waiters d"
  "pending_submit (snd (resolve_abandoned p d)) = pending_submit d"
proof -
  define d0 where "d0 = (case op_pending p of Some _ \<Rightarrow> drop_any (op_buffer p) d | None \<Rightarrow> d)"
  have d0: "cells d0 = cells d" "ring d0 = ring d" "slab d0 = slab d" "shutdown d0 = shutdown d"
    "next_cell d0 = next_cell d" "shutdown_waiters d0 = shutdown_waiters d" "pending_submit d0 = pending_submit d"
    by (cases "op_pending p"; simp add: d0_def)+
  define d1 where "d1 = d0\<lparr>cells := (cells d)(op_slot p := (cells d (op_slot p))
      \<lparr>rs_completed := Some (Inl RtAbandonedAtShutdown, abandoned_resources p), rs_waker := None\<rparr>)\<rparr>"
  have eq: "resolve_abandoned p d = (option_list (rs_waker (cells d (op_slot p))),
      drop_payload (p\<lparr>op_buffer := None, op_pending := None\<rparr>) d1)"
    unfolding resolve_abandoned_def Let_def resolve_cell_eq abandoned_resources_def [symmetric]
      d0_def [symmetric] d1_def
    by (simp add: d0)
  have "cells (drop_payload (p\<lparr>op_buffer := None, op_pending := None\<rparr>) d1)
      = (cells d)(op_slot p := abandoned_cell p (cells d (op_slot p)))"
    by (cases "op_sequential p")
      (auto simp: drop_payload_def drop_any_def [of None] drop_cell_half_def d1_def clear_sequential_def
        abandoned_cell_def)
  then show "cells (snd (resolve_abandoned p d)) = (cells d)(op_slot p := abandoned_cell p (cells d (op_slot p)))"
    by (simp add: eq)
  show "fst (resolve_abandoned p d) = option_list (rs_waker (cells d (op_slot p)))"
    "ring (snd (resolve_abandoned p d)) = ring d" "slab (snd (resolve_abandoned p d)) = slab d"
    "shutdown (snd (resolve_abandoned p d)) = shutdown d"
    "next_cell (snd (resolve_abandoned p d)) = next_cell d"
    "shutdown_waiters (snd (resolve_abandoned p d)) = shutdown_waiters d"
    "pending_submit (snd (resolve_abandoned p d)) = pending_submit d"
    by (simp_all add: eq d1_def d0)
qed

lemma resolve_all_Cons:
  "resolve_all (p # ps) (ws, d) =
     resolve_all ps (ws @ fst (resolve_abandoned p d), snd (resolve_abandoned p d))"
  by (simp add: resolve_all_def split_def)

lemma resolve_all_spec:
  assumes "resolve_all ps (ws, d) = (ws', d')"
  shows "ring d' = ring d \<and> slab d' = slab d \<and> shutdown d' = shutdown d \<and> next_cell d' = next_cell d \<and>
    shutdown_waiters d' = shutdown_waiters d \<and> pending_submit d' = pending_submit d \<and> set ws \<subseteq> set ws' \<and>
    (\<forall>c. c \<notin> op_slot ` set ps \<longrightarrow> cells d' c = cells d c) \<and>
    (distinct (map op_slot ps) \<longrightarrow> (\<forall>p \<in> set ps. cells d' (op_slot p) = abandoned_cell p (cells d (op_slot p)) \<and>
       set (option_list (rs_waker (cells d (op_slot p)))) \<subseteq> set ws'))"
  using assms
proof (induction ps arbitrary: ws d)
  case Nil
  then show ?case by (simp add: resolve_all_def)
next
  case (Cons p ps)
  let ?r = "resolve_abandoned p d"
  from Cons.prems have "resolve_all ps (ws @ fst ?r, snd ?r) = (ws', d')" by (simp add: resolve_all_Cons)
  note ih = Cons.IH [OF this]
  have "cells d' (op_slot q) = abandoned_cell q (cells d (op_slot q)) \<and>
      set (option_list (rs_waker (cells d (op_slot q)))) \<subseteq> set ws'"
    if "distinct (map op_slot (p # ps))" "q \<in> set (p # ps)" for q
  proof (cases "q = p")
    case True
    with that ih show ?thesis by (auto simp: resolve_abandoned_spec)
  next
    case False
    with that have q: "q \<in> set ps" "op_slot q \<noteq> op_slot p" by (auto simp: image_iff)
    from that ih have "\<forall>p' \<in> set ps.
        cells d' (op_slot p') = abandoned_cell p' (cells (snd ?r) (op_slot p')) \<and>
        set (option_list (rs_waker (cells (snd ?r) (op_slot p')))) \<subseteq> set ws'"
      by (simp only: list.map distinct.simps) blast
    from bspec [OF this q(1)] q(2) show ?thesis by (simp add: resolve_abandoned_spec)
  qed
  with ih show ?case by (auto simp: resolve_abandoned_spec)
qed

text \<open>The drain of the slab hands out the payloads of distinct cells.\<close>

lemma distinct_concat_map:
  assumes "\<And>i j p q. \<lbrakk>i < length xs; j < length xs; p \<in> set (h (xs ! i)); q \<in> set (h (xs ! j));
      g p = g q\<rbrakk> \<Longrightarrow> i = j"
    and "\<And>x. x \<in> set xs \<Longrightarrow> distinct (map g (h x))"
  shows "distinct (map g (concat (map h xs)))"
  using assms
proof (induction xs)
  case (Cons x xs)
  have rest: "distinct (map g (concat (map h xs)))"
  proof (rule Cons.IH)
    fix i j p q
    assume "i < length xs" "j < length xs" "p \<in> set (h (xs ! i))" "q \<in> set (h (xs ! j))" "g p = g q"
    then show "i = j" using Cons.prems(1) [of "Suc i" "Suc j" p q] by simp
  next
    fix y assume "y \<in> set xs"
    then show "distinct (map g (h y))" using Cons.prems(2) by simp
  qed
  have "g p \<noteq> g q" if "p \<in> set (h x)" "q \<in> set (h y)" "y \<in> set xs" for p q y
  proof
    assume "g p = g q"
    from that(3) obtain j where "j < length xs" "xs ! j = y" by (auto simp: in_set_conv_nth)
    with that \<open>g p = g q\<close> show False using Cons.prems(1) [of 0 "Suc j" p q] by simp
  qed
  with rest Cons.prems(2) [of x] show ?case by (auto simp: image_iff)
qed simp

lemma live_payload_view:
  assumes wf: "slab_wf (slab d)" and i: "i < length (slots (slab d))"
  shows "p \<in> set (live_payload (slot_state (slots (slab d) ! i))) \<longleftrightarrow>
    live_payloads d (of_nat i, slot_generation (slots (slab d) ! i)) = Some p"
  using view_at [OF wf i]
  by (cases "slot_state (slots (slab d) ! i)") (auto simp: live_payloads_def live_payload_def)

lemma drained_payloads:
  assumes inv: "driver_inv d" and r: "slab_drain (slab d) = (ps, s)"
  shows "slab_wf s" "distinct (map op_slot ps)" "\<And>k p. live_payloads d k = Some p \<Longrightarrow> p \<in> set ps"
    "\<And>k l ob p c. slab_view s k \<noteq> Some (Entry l ob p c)"
proof -
  note wf = driver_invD(1) [OF inv]
  note dr = drain_spec [OF wf r]
  show "slab_wf s" by (rule dr(1))
  show "slab_view s k \<noteq> Some (Entry l ob p c)" for k l ob p c by (simp add: dr(3))
  have small: "unat (of_nat i :: usize) = i" if "i < length (slots (slab d))" for i
    using that slab_wfD(1) [OF wf] by simp
  show "distinct (map op_slot ps)" unfolding dr(2)
  proof (rule distinct_concat_map)
    fix i j p q
    assume i: "i < length (slots (slab d))" "j < length (slots (slab d))"
      and p: "p \<in> set (live_payload (slot_state (slots (slab d) ! i)))"
      "q \<in> set (live_payload (slot_state (slots (slab d) ! j)))" "op_slot p = op_slot q"
    then have "live_payloads d (of_nat i, slot_generation (slots (slab d) ! i)) = Some p"
      "live_payloads d (of_nat j, slot_generation (slots (slab d) ! j)) = Some q"
      using live_payload_view [OF wf] by blast+
    with driver_invD(4) [OF inv] p(3) have "(of_nat i :: usize) = of_nat j"
      unfolding cells_apart_def by (metis prod.inject)
    then show "i = j" using small i by metis
  qed (simp add: live_payload_def split: slot_state.split)
  show "p \<in> set ps" if v: "live_payloads d k = Some p" for k p
  proof -
    from v obtain l ob c where "slab_view (slab d) k = Some (Entry l ob p c)"
      by (auto simp: live_payloads_Some)
    then obtain i where "i < length (slots (slab d))"
      "entry_of (slot_state (slots (slab d) ! i)) = Some (Entry l ob p c)" by (rule view_SomeD)
    then show ?thesis
      by (cases "slot_state (slots (slab d) ! i)")
        (auto simp: dr(2) live_payload_def intro!: bexI [of _ "slots (slab d) ! i"])
  qed
qed

section \<open>Closing\<close>

lemma close_loop_closed: "close_loop P n r k = Some (r', k') \<Longrightarrow> ring_closed r'"
proof (induction n arbitrary: r k)
  case (Suc n)
  then show ?case
    by (auto simp: ring_close_def split: prod.splits sum.splits if_splits)
qed simp

text \<open>What closing leaves behind.\<close>

lemma close_resolves:
  assumes inv: "driver_inv d" and sd: "shutdown d \<noteq> Running"
    and r: "close_and_release P d = Some (ws, d')"
  shows "driver_inv d' \<and> torn_down d' \<and> ring_closed (ring d') \<and> live_payloads d' = Map.empty \<and>
    cancel_holds d' = [] \<and> buffer_registration d' = None \<and> shutdown_waiters d' = [] \<and>
    snd ` set (shutdown_waiters d) \<subseteq> set ws \<and>
    (\<forall>k p. live_payloads d k = Some p \<longrightarrow>
       set (option_list (rs_waker (cells d (op_slot p)))) \<subseteq> set ws \<and>
       cells d' (op_slot p) = (cells d (op_slot p))\<lparr>rs_waker := None, rs_completed :=
         (if rs_future (cells d (op_slot p))
          then Some (Inl RtAbandonedAtShutdown,
                 case op_pending p of Some q \<Rightarrow> Some (AnyPending q) | None \<Rightarrow> op_buffer p)
          else None)\<rparr>)"
proof -
  from r obtain ri k where cl: "close_loop P CLOSE_ATTEMPTS (ring d) (kern d) = Some (ri, k)"
    by (cases "close_loop P CLOSE_ATTEMPTS (ring d) (kern d)") (auto simp: close_and_release_def)
  obtain ps s where ps: "slab_drain (slab d) = (ps, s)" by (cases "slab_drain (slab d)")
  obtain ws1 d1 where ra: "resolve_all ps ([], d\<lparr>ring := ri, kern := k, slab := s\<rparr>) = (ws1, d1)"
    by (cases "resolve_all ps ([], d\<lparr>ring := ri, kern := k, slab := s\<rparr>)")
  note dp = drained_payloads [OF inv ps] and rs = resolve_all_spec [OF ra]
  have ws: "ws = ws1 @ map snd (shutdown_waiters d)"
    and d': "d' = d1\<lparr>cancel_holds := [], buffer_registration := None,
        retired_buffer_registrations := [], registration_in_flight := False, file_reg := None,
        retired_file_registrations := [], driver_waker := None, nudged := False, torn_down := True,
        shutdown_waiters := []\<rparr>"
    using r rs by (simp_all add: close_and_release_def cl ps ra)
  have slab: "slab d' = s" and rc: "ring_closed (ring d')" and sd': "shutdown d' \<noteq> Running"
    using rs close_loop_closed [OF cl] sd by (simp_all add: d')
  have empty: "live_payloads d' = Map.empty"
    using dp(4) by (auto simp: live_payloads_def slab fun_eq_iff split: option.split entry.split)
  have "driver_inv d'"
    using dp(1,4) empty rc sd'
    by (simp add: driver_inv_def slab no_described_def built_owed_def cells_apart_def flight_flag_def
        reg_sound_def) (simp add: d')
  moreover have "set (option_list (rs_waker (cells d (op_slot p)))) \<subseteq> set ws \<and>
      cells d' (op_slot p) = abandoned_cell p (cells d (op_slot p))"
    if "live_payloads d j = Some p" for j p
    using rs dp(2) dp(3) [OF that] by (auto simp: d' ws)
  ultimately show ?thesis
    using empty rc by (auto simp: d' ws abandoned_cell_def abandoned_resources_def)
qed

section \<open>The blocking teardown\<close>

lemma teardown_finish_closes:
  assumes "driver_inv d" "shutdown d \<noteq> Running" "teardown_finish P d = Some (ws, rs, d')"
  shows "driver_inv d'" "torn_down d'" "live_payloads d' = Map.empty"
proof -
  from assms(3) obtain d1 where d1: "close_and_release P d = Some (ws, d1)" "d' = snd (take_reports d1)"
    by (auto simp: teardown_finish_def split: option.splits prod.splits)
  note c = close_resolves [OF assms(1,2) d1(1)]
  have "keeps d1 d'" using keeps_take_reports [of d1] c by (simp add: d1(2))
  with c show "driver_inv d'" "torn_down d'" "live_payloads d' = Map.empty"
    by (simp_all add: keeps_def retains_def)
qed

text \<open>
  Every run of the blocking loop ends in a close of a driver with nothing left at the kernel;
  on the way there operations only leave.
\<close>

definition drop_outcome :: "'k platform \<Rightarrow> 'k driver \<Rightarrow> 'k driver \<Rightarrow> bool" where
  "drop_outcome P d d' \<longleftrightarrow> (\<exists>d1 ws rs. driver_inv d1 \<and> kernel_idle d1 \<and> shutdown d1 \<noteq> Running \<and>
     live_payloads d1 \<subseteq>\<^sub>m live_payloads d \<and> teardown_finish P d1 = Some (ws, rs, d'))"

lemma drop_loop_outcome:
  assumes "driver_drop_loop P n ws rs d = Some r" "driver_inv d" "shutdown d \<noteq> Running"
  shows "drop_outcome P d (snd (snd r))"
proof -
  define Q where "Q = (\<lambda>((((P :: 'a platform, n :: u32), ws :: waker list), rs :: runtime_error list), d)
    (r :: waker list \<times> runtime_error list \<times> 'a driver).
    driver_inv d \<longrightarrow> shutdown d \<noteq> Running \<longrightarrow> drop_outcome P d (snd (snd r)))"
  have "Q ((((P, n), ws), rs), d) r"
  proof (rule driver_drop_loop.raw_induct [OF _ assms(1)])
    fix loop :: "'a platform \<Rightarrow> u32 \<Rightarrow> waker list \<Rightarrow> runtime_error list \<Rightarrow> 'a driver
        \<Rightarrow> (waker list \<times> runtime_error list \<times> 'a driver) option" and P n ws rs d r
    assume ih: "\<And>P n ws rs d r. loop P n ws rs d = Some r \<Longrightarrow> Q ((((P, n), ws), rs), d) r"
      and r: "(case teardown_step P n d of None \<Rightarrow> None
        | Some (outcome, n', ws1, rs1, d1) \<Rightarrow>
            if outcome \<noteq> Progressing then
              (case teardown_finish P d1 of None \<Rightarrow> None
               | Some (ws', rs', d2) \<Rightarrow> Some (ws @ ws1 @ ws', rs @ rs1 @ rs', d2))
            else loop P n' (ws @ ws1) (rs @ rs1) d1) = Some r"
    show "Q ((((P, n), ws), rs), d) r"
      unfolding Q_def prod.case
    proof (intro impI)
      assume inv: "driver_inv d" and sd: "shutdown d \<noteq> Running"
      from r obtain out n' ws1 rs1 d1 where ts: "teardown_step P n d = Some (out, n', ws1, rs1, d1)"
        by (cases "teardown_step P n d") auto
      from teardown_step_keeps [OF inv ts] obtain cs where
        k: "driver_inv d1" "live_payloads d1 = (\<lambda>k. if \<exists>c \<in> set cs. names k c then None else live_payloads d k)"
        "shutdown d \<le> shutdown d1" "out \<noteq> Progressing \<longrightarrow> kernel_idle d1"
        by metis
      have sd1: "shutdown d1 \<noteq> Running" using k(3) sd by (cases "shutdown d1") auto
      have sub: "live_payloads d1 \<subseteq>\<^sub>m live_payloads d"
        by (auto simp: map_le_def k(2) split: if_splits)
      show "drop_outcome P d (snd (snd r))"
      proof (cases "out = Progressing")
        case True
        with r ts have "loop P n' (ws @ ws1) (rs @ rs1) d1 = Some r" by simp
        from ih [OF this] k(1) sd1 have "drop_outcome P d1 (snd (snd r))" by (simp add: Q_def)
        with sub show ?thesis unfolding drop_outcome_def using map_le_trans by blast
      next
        case False
        with r ts obtain ws' rs' where "teardown_finish P d1 = Some (ws', rs', snd (snd r))"
          by (auto split: option.splits)
        with False k sd1 sub show ?thesis unfolding drop_outcome_def by blast
      qed
    qed
  qed
  with assms(2,3) show ?thesis by (simp add: Q_def)
qed

text \<open>
  The ring is closed only once the kernel has nothing left. Both teardowns decide on
  closing by the verdict of a drain step, and a step whose verdict is anything but
  ``progressing'' leaves a driver in which every remaining entry is a built operation the
  platform never accepted: no submitted operation and no tombstone. So when the driver is
  dropped and its blocking teardown returns at all, it has closed the ring in such a state;
  no operation was taken out of the slab on the way except by its own completion, and the
  driver that remains is torn down with no live operation.
\<close>

theorem closes_only_when_idle:
  assumes inv: "driver_inv d"
  shows "(teardown_step P n d = Some (out, n', ws, rs, d1) \<and> out \<noteq> Progressing \<longrightarrow>
      driver_inv d1 \<and> (\<forall>k e. slab_view (slab d1) k = Some e \<longrightarrow> (\<exists>ob p c. e = Entry Built ob p c))) \<and>
    (driver_drop P d = Some (ws, rs, d') \<and> \<not> torn_down d \<longrightarrow>
      torn_down d' \<and> live_payloads d' = Map.empty \<and>
      (\<exists>d1 ws1 rs1. driver_inv d1 \<and> live_payloads d1 \<subseteq>\<^sub>m live_payloads d \<and>
         (\<forall>k e. slab_view (slab d1) k = Some e \<longrightarrow> (\<exists>ob p c. e = Entry Built ob p c)) \<and>
         teardown_finish P d1 = Some (ws1, rs1, d')))"
proof (rule conjI; rule impI; elim conjE)
  assume "teardown_step P n d = Some (out, n', ws, rs, d1)" "out \<noteq> Progressing"
  with teardown_step_keeps [OF inv this(1)]
  show "driver_inv d1 \<and> (\<forall>k e. slab_view (slab d1) k = Some e \<longrightarrow> (\<exists>ob p c. e = Entry Built ob p c))"
    unfolding kernel_idle_def by metis
next
  assume r: "driver_drop P d = Some (ws, rs, d')" and up: "\<not> torn_down d"
  let ?d0 = "d\<lparr>shutdown := max (shutdown d) Immediate\<rparr>"
  have "keeps d ?d0"
    by (rule keeps_quiet [OF inv]) (simp_all add: cells_kept_same regs_kept_same max_def)
  then have i0: "driver_inv ?d0" "live_payloads ?d0 = live_payloads d"
    by (simp_all add: keeps_def retains_def)
  from r up have "driver_drop_loop P 0 [] [] ?d0 = Some (ws, rs, d')" by (simp add: driver_drop_def)
  from drop_loop_outcome [OF this i0(1)] obtain d1 ws1 rs1 where
    d1: "driver_inv d1" "kernel_idle d1" "shutdown d1 \<noteq> Running" "live_payloads d1 \<subseteq>\<^sub>m live_payloads d"
    "teardown_finish P d1 = Some (ws1, rs1, d')"
    unfolding drop_outcome_def i0(2) by (auto simp: max_def split: if_splits)
  with teardown_finish_closes [OF d1(1,3,5)] show "torn_down d' \<and> live_payloads d' = Map.empty \<and>
      (\<exists>d1 ws1 rs1. driver_inv d1 \<and> live_payloads d1 \<subseteq>\<^sub>m live_payloads d \<and>
         (\<forall>k e. slab_view (slab d1) k = Some e \<longrightarrow> (\<exists>ob p c. e = Entry Built ob p c)) \<and>
         teardown_finish P d1 = Some (ws1, rs1, d'))"
    unfolding kernel_idle_def by blast
qed

end
