(* ===== verification/Driver_Start.thy ===== *)
theory Driver_Start
  imports Driver_Teardown
begin

text \<open>
  Starting operations: on every branch the invariant holds afterwards; a success adds exactly
  one built operation that owns the caller's buffer, and a failure leaves the live operations
  alone and gives the buffer back.
\<close>

section \<open>An entry that is inserted, written, and built or withdrawn\<close>

lemma set_built:
  assumes wf: "slab_wf s" and v: "slab_view s (token_key t) = Some (Entry Described Live p NeverRequested)"
  shows "slab_wf (snd (slab_set_lifecycle t Built s))"
    "slab_view (snd (slab_set_lifecycle t Built s)) = (slab_view s)(token_key t \<mapsto> Entry Built Live p NeverRequested)"
    "advances s (snd (slab_set_lifecycle t Built s))"
proof -
  obtain b s' where r: "slab_set_lifecycle t Built s = (b, s')" by (cases "slab_set_lifecycle t Built s")
  from set_lifecycle_spec [OF wf r] v exec_advances [OF wf, of "CmdSetLifecycle t Built"] r
  show "slab_wf (snd (slab_set_lifecycle t Built s))"
    "slab_view (snd (slab_set_lifecycle t Built s)) = (slab_view s)(token_key t \<mapsto> Entry Built Live p NeverRequested)"
    "advances s (snd (slab_set_lifecycle t Built s))"
    by simp_all
qed

lemma write_described:
  assumes wf: "slab_wf s" and v: "slab_view s (token_key t) = Some (Entry Described Live p NeverRequested)"
  shows "slab_wf (slab_payload_write t q s)"
    "slab_view (slab_payload_write t q s) = (slab_view s)(token_key t \<mapsto> Entry Described Live q NeverRequested)"
    "advances s (slab_payload_write t q s)"
  using payload_write_spec [OF wf, of t q] v exec_advances [OF wf, of "CmdWrite t q"]
  by simp_all

lemma described_payload:
  "slab_view s (token_key t) = Some (Entry l ob p c) \<Longrightarrow> slab_payload s t = Some p"
  by (simp add: slab_payload_view)

lemma withdraw_described:
  assumes wf: "slab_wf s" and v: "slab_view s (token_key t) = Some (Entry Described Live p NeverRequested)"
    and k: "token_kind t = Operation"
  obtains s' where "slab_complete t s = (Some p, s')" "slab_wf s'" "advances s s'"
    "slab_view s' = (slab_view s)(token_key t := None)"
proof -
  obtain r s' where r: "slab_complete t s = (r, s')" by (cases "slab_complete t s")
  from complete_spec [OF wf r] v k exec_advances [OF wf, of "CmdComplete t"] r show thesis
    by (intro that [of s']) simp_all
qed

text \<open>A new built entry over a driver that differs from the old one in what the handle writes.\<close>

lemma inv_started:
  fixes d d' :: "'k driver"
  assumes inv: "driver_inv d" and run: "shutdown d = Running"
    and slab: "slab_wf (slab d')" "advances (slab d) (slab d')"
    and view: "slab_view (slab d') = (slab_view (slab d))(k \<mapsto> Entry Built Live p NeverRequested)"
      "slab_view (slab d) k = None"
    and cell: "op_slot p = next_cell d" "next_cell d' = next_cell d + 1"
      "cells d' = (cells d)(next_cell d := result_slot_new)" "pending_ok (op_pending p)"
    and same: "ring d' = ring d" "torn_down d' = torn_down d" "shutdown d' = shutdown d"
      "regs d' = regs d" "buffer_registration d' = buffer_registration d" "pending_submit d'"
    and flight: "registration_in_flight d' \<longleftrightarrow> registration_in_flight d \<or> pends_buffers p"
      "pends_buffers p \<Longrightarrow> \<not> registration_in_flight d \<and> none_out d"
  shows "driver_inv d'" "live_payloads d' = (live_payloads d)(k \<mapsto> p)" "live_payloads d k = None"
proof -
  have up: "\<not> torn_down d" using driver_invD(11) [OF inv] run by blast
  have rk: "regs_kept d d'" by (simp add: regs_kept_same same)
  show "driver_inv d'"
  proof (rule inv_added [OF inv slab(1) _ view _ _ _ same(6) up flight(1)])
    show "same_core d d'" using same rk up by (simp add: same_core_def cell regs_kept_def)
    show "registration_in_flight d \<or> pends_buffers p \<Longrightarrow> none_out d'"
      using driver_invD(8) [OF inv] flight(2) rk by (auto simp: regs_kept_def)
    show "payload_ok d' p" by (simp add: payload_ok_def cell_open_def cell result_slot_new_def)
    show "cell_open d c \<Longrightarrow> cell_open d' c" for c by (simp add: cell_open_def cell)
    show "pends_buffers p \<Longrightarrow> \<not> registration_in_flight d" using flight(2) by blast
  qed (simp add: cell)
  show "live_payloads d' = (live_payloads d)(k \<mapsto> p)" by (simp add: live_payloads_def fun_eq_iff view(1))
  show "live_payloads d k = None" by (simp add: live_payloads_def view)
qed

section \<open>Reads and writes\<close>

lemma alloc_cell_eq [simp]:
  "fst (alloc_cell d) = next_cell d" "next_cell (snd (alloc_cell d)) = next_cell d + 1"
  "cells (snd (alloc_cell d)) = (cells d)(next_cell d := result_slot_new)"
  by (simp_all add: alloc_cell_def)

lemma built_and_nudge_eq:
  "built_and_nudge t d = (option_list (driver_waker d),
     d\<lparr>slab := snd (slab_set_lifecycle t Built (slab d)), nudged := True, driver_waker := None,
       pending_submit := True\<rparr>)"
  by (simp add: built_and_nudge_def nudge_def take_driver_waker_def mark_nudged_def)

text \<open>Giving up after the cell was made: the slab is as before but for generations.\<close>

lemma keeps_discarded:
  assumes inv: "driver_inv d" and s: "slab_wf s" "advances (slab d) s" "slab_view s = slab_view (slab d)"
  defines "d0 \<equiv> snd (alloc_cell d)"
  shows "keeps d (drop_future_half c (drop_payload r (d0\<lparr>kern := k, slab := s\<rparr>)))"
    and "keeps d (drop_future_half c (d0\<lparr>kern := k, slab := s\<rparr>))"
proof -
  note [simp] = alloc_cell_frame [of d, folded d0_def] alloc_cell_eq(2,3) [of d, folded d0_def]
  let ?d1 = "d0\<lparr>kern := k, slab := s\<rparr>"
  have c1: "cells_kept d ?d1" by (simp add: cells_kept_def cell_open_def)
  have r1: "regs_kept d ?d1" by (simp add: regs_kept_same)
  have gone: "keeps d (drop_future_half c d2)"
    if d2: "slab d2 = s" "torn_down d2 = torn_down d" "ring d2 = ring d" "shutdown d2 = shutdown d"
      "registration_in_flight d2 = registration_in_flight d" "pending_submit d2 = pending_submit d"
      and k2: "cells_kept d d2" "regs_kept d d2" for d2 :: "'a driver"
  proof (rule keeps_in_place [OF inv])
    show "cells_kept d (drop_future_half c d2)"
      by (rule cells_kept_trans [OF k2(1) cells_kept_future_half])
    show "regs_kept d (drop_future_half c d2)"
      by (rule regs_kept_trans [OF k2(2)]) (simp add: regs_kept_same)
    show "slab_wf (slab (drop_future_half c d2))" "advances (slab d) (slab (drop_future_half c d2))"
      using s(1,2) by (simp_all add: d2)
    show "entry_step (slab_view (slab d) j) (slab_view (slab (drop_future_half c d2)) j)" for j
      by (simp add: d2 s(3))
  qed (simp_all add: d2)
  show "keeps d (drop_future_half c ?d1)" by (rule gone) (simp_all add: c1 r1)
  show "keeps d (drop_future_half c (drop_payload r ?d1))"
    by (rule gone [OF _ _ _ _ _ _ cells_kept_trans [OF c1 cells_kept_drop_payload]
          regs_kept_trans [OF r1 regs_kept_drop_payload]]) simp_all
qed

text \<open>
  What inserting a payload leads to: the slab is full, or there is a token, and then the entry
  can be withdrawn, which restores the view, or built.
\<close>

lemma insert_phase:
  assumes inv: "driver_inv d"
  obtains (full) "slab_insert p (slab d) = Some (Inl p, slab d)"
    | (token) t s s2 where "slab_insert p (slab d) = Some (Inr t, s)" "token_kind t = Operation"
        "valid_key (token_key t)" "slab_view (slab d) (token_key t) = None"
        "slab_wf s" "slab_view s = (slab_view (slab d))(token_key t \<mapsto> Entry Described Live p NeverRequested)"
        "slab_complete t s = (Some p, s2)" "slab_wf s2" "advances (slab d) s2"
        "slab_view s2 = slab_view (slab d)"
        "slab_wf (snd (slab_set_lifecycle t Built s))"
        "advances (slab d) (snd (slab_set_lifecycle t Built s))"
        "slab_view (snd (slab_set_lifecycle t Built s)) =
           (slab_view (slab d))(token_key t \<mapsto> Entry Built Live p NeverRequested)"
proof -
  note wf = driver_invD(1) [OF inv]
  from wf show thesis
  proof (cases rule: insert_cases [where p = p])
    case full
    then show thesis by (intro that(1))
  next
    case (token t s)
    have pay: "slab_view s (token_key t) = Some (Entry Described Live p NeverRequested)"
      by (simp add: token(6))
    obtain s2 where s2: "slab_complete t s = (Some p, s2)" "slab_wf s2" "advances s s2"
      "slab_view s2 = (slab_view s)(token_key t := None)"
      using withdraw_described [OF token(2) pay token(3)] .
    have view2: "slab_view s2 = slab_view (slab d)" using token(5) by (auto simp: s2(4) token(6) fun_eq_iff)
    note b = set_built [OF token(2) pay]
    have adv: "advances (slab d) s" by (rule insert_advances [OF wf token(1)])
    show thesis
      by (rule that(2) [OF token(1,3,4,5,2,6) s2(1,2) advances_trans [OF adv s2(3)] view2
            b(1) advances_trans [OF adv b(3)]]) (simp add: b(2) token(6))
  qed
qed

text \<open>The payload a started operation on an owned file leaves in the slab.\<close>

definition buffer_payload :: "fid \<Rightarrow> cid \<Rightarrow> fid option \<Rightarrow> iobuf \<Rightarrow> op_payload" where
  "buffer_payload f c g b = (file_payload f c g)\<lparr>op_buffer := Some (AnyBuf b)\<rparr>"

definition started :: "op_payload \<Rightarrow> token \<Rightarrow> 'k driver \<Rightarrow> 'k driver \<Rightarrow> bool" where
  "started p t d d' \<longleftrightarrow> driver_inv d' \<and> token_kind t = Operation \<and> valid_key (token_key t) \<and>
     slab_view (slab d) (token_key t) = None \<and> advances (slab d) (slab d') \<and>
     slab_view (slab d') = (slab_view (slab d))(token_key t \<mapsto> Entry Built Live p NeverRequested) \<and>
     cells d' = (cells d)(next_cell d := result_slot_new) \<and> op_slot p = next_cell d \<and>
     next_cell d' = next_cell d + 1 \<and>
     pending_submit d' \<and> shutdown d' = shutdown d \<and> torn_down d' = torn_down d \<and> ring d' = ring d \<and>
     files d' = files d"

lemma start_buffer_op_cases:
  assumes inv: "driver_inv d" and run: "shutdown d = Running"
  obtains (failed) e d' where "start_buffer_op f b g call d = Some (Inl (e, b), [], d')" "keeps d d'"
      "slab_view (slab d') = slab_view (slab d)" "files d' = released g (files d)"
    | (started) t d' where
        "start_buffer_op f b g call d =
           Some (Inr (op_future_pending t (next_cell d)), option_list (driver_waker d), d')"
        "started (buffer_payload f (next_cell d) g b) t d d'" "nudged d'" "driver_waker d' = None"
proof -
  note i = driver_invD [OF inv]
  define d0 where "d0 = snd (alloc_cell d)"
  let ?c = "next_cell d" and ?p = "file_payload f (next_cell d) g"
  let ?q = "buffer_payload f ?c g b"
  have alloc: "alloc_cell d = (?c, d0)" by (simp add: d0_def alloc_cell_def)
  note d0 [simp] = alloc_cell_frame [of d, folded d0_def] alloc_cell_eq(2,3) [of d, folded d0_def]
  have wf0: "slab_wf (slab d0)" using i(1) by simp
  have k0: "keeps d d0"
    by (rule keeps_quiet [OF inv]) (simp_all add: d0_def cells_kept_alloc regs_kept_same)
  note drop = keeps_discarded(1) [OF inv, folded d0_def]
  from wf0 show thesis
  proof (cases rule: insert_cases [where p = ?p])
    case full
    let ?d1 = "drop_future_half ?c (drop_payload ?p (d0\<lparr>slab := slab d\<rparr>))"
    have "d0\<lparr>slab := slab d\<rparr> = d0\<lparr>kern := kern d, slab := slab d\<rparr>"
      by (simp add: d0_def alloc_cell_def)
    then have k1: "keeps d ?d1"
      using drop [where s = "slab d" and r = ?p and k = "kern d" and c = ?c] i(1) by (simp only: advances_refl)
    have "start_buffer_op f b g call d = Some (Inl (RtTooManyOperations, b), [], ?d1)"
      using full(1) by (simp add: start_buffer_op_def alloc)
    then show thesis by (rule failed [OF _ k1]) (simp_all add: file_payload_def)
  next
    case (token t s)
    note v = token(6)
    have pay: "slab_view s (token_key t) = Some (Entry Described Live ?p NeverRequested)" by (simp add: v)
    note w = write_described [OF token(2) pay, where q = ?q]
    have put: "put_buffer t (AnyBuf b) (d0\<lparr>slab := s\<rparr>) = Some (d0\<lparr>slab := slab_payload_write t ?q s\<rparr>)"
      by (simp add: put_buffer_def described_payload [OF pay] buffer_payload_def)
    let ?s1 = "slab_payload_write t ?q s" and ?d1 = "d0\<lparr>slab := slab_payload_write t ?q s\<rparr>"
    have adv0: "advances (slab d) s" using insert_advances [OF wf0 token(1)] by simp
    then have adv1: "advances (slab d) ?s1" using w(3) by (rule advances_trans)
    have v1: "slab_view ?s1 (token_key t) = Some (Entry Described Live ?q NeverRequested)"
      by (simp add: w(2))
    have old: "slab_view (slab d) (token_key t) = None" using token(5) by simp
    obtain res k where call: "call t ?d1 = (res, k)" by (cases "call t ?d1")
    show thesis
    proof (cases res)
      case (Inl e)
      obtain s2 where s2: "slab_complete t ?s1 = (Some ?q, s2)" "slab_wf s2" "advances ?s1 s2"
        "slab_view s2 = (slab_view ?s1)(token_key t := None)"
        using withdraw_described [OF w(1) v1 token(3)] .
      have view2: "slab_view s2 = slab_view (slab d)" using old by (auto simp: s2(4) w(2) v fun_eq_iff)
      have "recover_buffer t (?d1\<lparr>kern := k\<rparr>)
          = Some (b, drop_payload (?q\<lparr>op_buffer := None\<rparr>) (d0\<lparr>kern := k, slab := s2\<rparr>))"
        by (simp add: recover_buffer_def recover_any_def s2(1)) (simp add: buffer_payload_def)
      then have "start_buffer_op f b g call d = Some (Inl (e, b), [],
          drop_future_half ?c (drop_payload (?q\<lparr>op_buffer := None\<rparr>) (d0\<lparr>kern := k, slab := s2\<rparr>)))"
        by (simp add: start_buffer_op_def alloc token(1) [unfolded d0] put call Inl)
      then show thesis
        by (rule failed [OF _ drop [OF s2(2) advances_trans [OF adv1 s2(3)] view2]]) (simp_all add: view2 buffer_payload_def file_payload_def)
    next
      case (Inr u)
      note sb = set_built [OF w(1) v1]
      let ?d2 = "?d1\<lparr>slab := snd (slab_set_lifecycle t Built ?s1), nudged := True, driver_waker := None,
          kern := k, pending_submit := True\<rparr>"
      have bn: "built_and_nudge t (?d1\<lparr>kern := k\<rparr>) = (option_list (driver_waker d), ?d2)"
        by (simp add: built_and_nudge_eq)
      have view2: "slab_view (slab ?d2) = (slab_view (slab d))(token_key t \<mapsto> Entry Built Live ?q NeverRequested)"
        by (simp add: sb(2) w(2) v)
      have slot: "op_slot ?q = ?c" "pending_ok (op_pending ?q)" "\<not> pends_buffers ?q"
        by (simp_all add: buffer_payload_def file_payload_def pending_ok_def pends_buffers_def)
      have adv: "advances (slab d) (slab ?d2)" using advances_trans [OF adv1 sb(3)] by simp
      have "driver_inv ?d2"
        by (rule inv_started(1) [OF inv run _ adv view2 old slot(1)])
          (use sb(1) slot in simp_all)
      then have "started ?q t d ?d2"
        using token(3,4) old adv view2 slot(1) by (simp add: started_def)
      moreover have "start_buffer_op f b g call d =
          Some (Inr (op_future_pending t ?c), option_list (driver_waker d), ?d2)"
        by (simp add: start_buffer_op_def alloc token(1) [unfolded d0] put call Inr bn)
      ultimately show thesis by (intro started [of t ?d2]) simp_all
    qed
  qed
qed

lemma keeps_clear_sequential: "driver_inv d \<Longrightarrow> keeps d (clear_sequential g d)"
  by (rule keeps_quiet) (simp_all add: cells_kept_def cell_open_def regs_kept_same)

lemma check_running_Inr: "check_running P op d = Inr u \<Longrightarrow> shutdown d = Running"
  by (simp add: check_running_def split: if_splits)

lemma try_read_cases:
  assumes inv: "driver_inv d"
  obtains (failed) e d' where "try_read P f b len off fl g d = Some (Inl (e, b), [], d')" "keeps d d'"
      "slab_view (slab d') = slab_view (slab d)" "files d' = released g (files d)"
    | (started) t d' where "shutdown d = Running" "check_read_capacity b (ucast len) = Inr ()"
        "try_read P f b len off fl g d =
           Some (Inr (op_future_pending t (next_cell d)), option_list (driver_waker d), d')"
        "started (buffer_payload f (next_cell d) g b) t d d'" "nudged d'" "driver_waker d' = None"
proof (cases "check_running P IORING_OP_READ d")
  case (Inl e)
  then show thesis
    by (intro failed [of e "clear_sequential g d"]) (simp_all add: try_read_def keeps_clear_sequential [OF inv])
next
  case (Inr u)
  note run = check_running_Inr [OF Inr]
  show thesis
  proof (cases "check_read_capacity b (ucast len)")
    case (Inl e)
    with Inr show thesis
      by (intro failed [of "runtime_from_buf e" "clear_sequential g d"]) (simp_all add: try_read_def keeps_clear_sequential [OF inv])
  next
    case cap: (Inr u)
    have "try_read P f b len off fl g d
        = start_buffer_op f b g (build_read_for P f (buf_mut_ptr b) len off fl) d"
      using Inr cap by (simp add: try_read_def)
    then show thesis
      by (cases rule: start_buffer_op_cases [OF inv run, of f b g "build_read_for P f (buf_mut_ptr b) len off fl"])
        (use failed started run cap in \<open>simp_all\<close>)
  qed
qed

lemma try_write_cases:
  assumes inv: "driver_inv d"
  obtains (failed) e d' where "try_write P f b len off wfl fl g d = Some (Inl (e, b), [], d')" "keeps d d'"
      "slab_view (slab d') = slab_view (slab d)" "files d' = released g (files d)"
    | (started) t d' where "shutdown d = Running" "check_write_initialized b (ucast len) = Inr ()"
        "try_write P f b len off wfl fl g d =
           Some (Inr (op_future_pending t (next_cell d)), option_list (driver_waker d), d')"
        "started (buffer_payload f (next_cell d) g b) t d d'" "nudged d'" "driver_waker d' = None"
proof (cases "check_running P IORING_OP_WRITE d")
  case (Inl e)
  then show thesis
    by (intro failed [of e "clear_sequential g d"]) (simp_all add: try_write_def keeps_clear_sequential [OF inv])
next
  case (Inr u)
  note run = check_running_Inr [OF Inr]
  show thesis
  proof (cases "check_write_initialized b (ucast len)")
    case (Inl e)
    with Inr show thesis
      by (intro failed [of "runtime_from_buf e" "clear_sequential g d"]) (simp_all add: try_write_def keeps_clear_sequential [OF inv])
  next
    case cap: (Inr u)
    have "try_write P f b len off wfl fl g d
        = start_buffer_op f b g (build_write_for P f (buf_ptr b) len off wfl fl) d"
      using Inr cap by (simp add: try_write_def)
    then show thesis
      by (cases rule: start_buffer_op_cases [OF inv run, of f b g "build_write_for P f (buf_ptr b) len off wfl fl"])
        (use failed started run cap in \<open>simp_all\<close>)
  qed
qed

section \<open>Flushes, registrations and registered operations\<close>

lemma started_intro:
  fixes d d' :: "'k driver"
  assumes inv: "driver_inv d" and run: "shutdown d = Running"
    and tok: "token_kind t = Operation" "valid_key (token_key t)" "slab_view (slab d) (token_key t) = None"
    and slab: "slab_wf (slab d')" "advances (slab d) (slab d')"
      "slab_view (slab d') = (slab_view (slab d))(token_key t \<mapsto> Entry Built Live p NeverRequested)"
    and cell: "op_slot p = next_cell d" "next_cell d' = next_cell d + 1"
      "cells d' = (cells d)(next_cell d := result_slot_new)" "pending_ok (op_pending p)"
    and same: "ring d' = ring d" "torn_down d' = torn_down d" "shutdown d' = shutdown d"
      "regs d' = regs d" "buffer_registration d' = buffer_registration d" "pending_submit d'"
    and flight: "registration_in_flight d' \<longleftrightarrow> registration_in_flight d \<or> pends_buffers p"
      "pends_buffers p \<Longrightarrow> \<not> registration_in_flight d \<and> none_out d"
    and files: "files d' = files d"
  shows "started p t d d'"
  using inv_started(1) [OF inv run slab(1,2,3) tok(3) cell same flight] tok slab(2,3) cell(1-3) same(1-3,6) files
  by (simp add: started_def)

lemma try_flush_cases:
  assumes inv: "driver_inv d"
  obtains (failed) e d' where "try_flush P f m fl d = Some (Inl e, [], d')" "keeps d d'"
      "slab_view (slab d') = slab_view (slab d)" "files d' = files d"
    | (started) t d' where "shutdown d = Running"
        "try_flush P f m fl d =
           Some (Inr (op_future_pending t (next_cell d)), option_list (driver_waker d), d')"
        "started (file_payload f (next_cell d) None) t d d'" "nudged d'" "driver_waker d' = None"
proof (cases "check_running P IORING_OP_FLUSH d")
  case (Inl e)
  then show thesis by (intro failed [of e d]) (simp_all add: try_flush_def keeps_refl [OF inv])
next
  case (Inr u)
  note run = check_running_Inr [OF Inr]
  define d0 where "d0 = snd (alloc_cell d)"
  let ?c = "next_cell d" and ?p = "file_payload f (next_cell d) None"
  have alloc: "alloc_cell d = (?c, d0)" by (simp add: d0_def alloc_cell_def)
  note d0 [simp] = alloc_cell_frame [of d, folded d0_def] alloc_cell_eq(2,3) [of d, folded d0_def]
  note drop = keeps_discarded [OF inv, folded d0_def]
  from inv show thesis
  proof (cases rule: insert_phase [where p = ?p])
    case full
    have same: "d0\<lparr>slab := slab d\<rparr> = d0\<lparr>kern := kern d, slab := slab d\<rparr>"
      by (simp add: d0_def alloc_cell_def)
    have "try_flush P f m fl d = Some (Inl RtTooManyOperations, [],
        drop_future_half ?c (drop_payload ?p (d0\<lparr>kern := kern d, slab := slab d\<rparr>)))"
      using full by (simp add: try_flush_def Inr alloc flip: same)
    then show thesis
      by (rule failed [OF _ drop(1)]) (simp_all add: driver_invD(1) [OF inv] file_payload_def)
  next
    case (token t s s2)
    let ?d1 = "d0\<lparr>slab := s\<rparr>"
    obtain res k where call: "build_flush_for P f m fl t ?d1 = (res, k)"
      by (cases "build_flush_for P f m fl t ?d1")
    show thesis
    proof (cases res)
      case (Inl e)
      have "try_flush P f m fl d = Some (Inl e, [],
          drop_future_half ?c (drop_payload ?p (d0\<lparr>kern := k, slab := s2\<rparr>)))"
        using token(1,7) Inl Inr call by (simp add: try_flush_def alloc discard_payload_def)
      then show thesis
        by (rule failed [OF _ drop(1) [OF token(8,9,10)]]) (simp_all add: token(10) file_payload_def registration_payload_def registered_payload_def)
    next
      case ok: (Inr u)
      let ?d2 = "?d1\<lparr>slab := snd (slab_set_lifecycle t Built s), nudged := True, driver_waker := None,
          kern := k, pending_submit := True\<rparr>"
      have bn: "built_and_nudge t (?d1\<lparr>kern := k\<rparr>) = (option_list (driver_waker d), ?d2)"
        by (simp add: built_and_nudge_eq)
      have "try_flush P f m fl d =
          Some (Inr (op_future_pending t ?c), option_list (driver_waker d), ?d2)"
        using token(1) ok Inr call bn by (simp add: try_flush_def alloc)
      moreover have "started ?p t d ?d2"
        by (rule started_intro [OF inv run token(2,3,4)])
          (simp_all add: token(11-13) file_payload_def pending_ok_def pends_buffers_def)
      ultimately show thesis by (intro started [of t ?d2] run) simp_all
    qed
  qed
qed

lemma nudge_driver_eq:
  "nudge_driver d = (option_list (driver_waker d), d\<lparr>nudged := True, driver_waker := None\<rparr>)"
  by (simp add: nudge_driver_def nudge_def take_driver_waker_def mark_nudged_def)

lemma pend_buffers_ok: "pending_ok (Some (pend_buffers bs))" "pends (Some (pend_buffers bs))"
  by (simp_all add: pending_ok_def pend_buffers_def pends_def)

text \<open>What is checked before a registration of buffers begins.\<close>

lemma start_register_buffers_checked:
  assumes "bs \<noteq> []" "shutdown d = Running" "\<not> registration_in_flight d" "none_out d"
    "ensure_op_supported P (ring d) IORING_OP_REGISTER_BUFFERS (kern d) = Inr ()"
  shows "start_register_buffers P bs d =
     (let (c, d0) = alloc_cell d in
      case slab_insert (registration_payload c (pend_buffers bs)) (slab d0) of
        None \<Rightarrow> None
      | Some (Inl p, s) \<Rightarrow>
          Some (Inl (RtTooManyOperations, unbox_payload p), drop_future_half c (d0\<lparr>slab := s\<rparr>))
      | Some (Inr t, s) \<Rightarrow>
          (let d1 = d0\<lparr>slab := s\<rparr> in
           case build_register_buffers P (ring d1) (map describe_buffer bs) (as_user_data t) (kern d1) of
             (Inl e, k) \<Rightarrow>
               (case slab_complete t (slab d1) of
                  (r, s') \<Rightarrow> Some (Inl (runtime_from_ring e,
                      case r of Some p \<Rightarrow> unbox_payload p | None \<Rightarrow> []),
                    drop_future_half c (d1\<lparr>kern := k, slab := s'\<rparr>)))
           | (Inr _, k) \<Rightarrow>
               Some (Inr (t, c),
                 d1\<lparr>kern := k, slab := snd (slab_set_lifecycle t Built (slab d1)),
                    pending_submit := True, registration_in_flight := True\<rparr>)))"
  using assms by (simp add: start_register_buffers_def none_out_def)

lemma register_buffers_cases:
  assumes inv: "driver_inv d"
  obtains (failed) e d' where "register_buffers P bs d = Some (Inl (e, bs), [], d')" "keeps d d'"
      "slab_view (slab d') = slab_view (slab d)" "files d' = files d"
    | (started) t d' where "shutdown d = Running" "none_out d" "\<not> registration_in_flight d"
        "register_buffers P bs d =
           Some (Inr (op_future_pending t (next_cell d)), option_list (driver_waker d), d')"
        "started (registration_payload (next_cell d) (pend_buffers bs)) t d d'"
        "registration_in_flight d'" "nudged d'" "driver_waker d' = None"
proof (cases "bs \<noteq> [] \<and> shutdown d = Running \<and> \<not> registration_in_flight d \<and> none_out d \<and>
    ensure_op_supported P (ring d) IORING_OP_REGISTER_BUFFERS (kern d) = Inr ()")
  case False
  then have "\<exists>e. register_buffers P bs d = Some (Inl (e, bs), [], d)"
    by (auto simp: register_buffers_def start_register_buffers_def none_out_def split: option.split sum.split)
  then show thesis using failed keeps_refl [OF inv] by blast
next
  case True
  then have run: "shutdown d = Running" and free: "\<not> registration_in_flight d" "none_out d" by simp_all
  define d0 where "d0 = snd (alloc_cell d)"
  let ?c = "next_cell d" and ?p = "registration_payload (next_cell d) (pend_buffers bs)"
  have alloc: "alloc_cell d = (?c, d0)" by (simp add: d0_def alloc_cell_def)
  note d0 [simp] = alloc_cell_frame [of d, folded d0_def] alloc_cell_eq(2,3) [of d, folded d0_def]
  note drop = keeps_discarded(2) [OF inv, folded d0_def]
  have unbox: "unbox_payload ?p = bs"
    by (simp add: unbox_payload_def registration_payload_def pend_buffers_def)
  have st: "start_register_buffers P bs d =
     (case slab_insert ?p (slab d) of
        None \<Rightarrow> None
      | Some (Inl p, s) \<Rightarrow> Some (Inl (RtTooManyOperations, unbox_payload p), drop_future_half ?c (d0\<lparr>slab := s\<rparr>))
      | Some (Inr t, s) \<Rightarrow>
          (case build_register_buffers P (ring d) (map describe_buffer bs) (as_user_data t) (kern d) of
             (Inl e, k) \<Rightarrow>
               (case slab_complete t s of
                  (r, s') \<Rightarrow> Some (Inl (runtime_from_ring e,
                      case r of Some p \<Rightarrow> unbox_payload p | None \<Rightarrow> []),
                    drop_future_half ?c (d0\<lparr>kern := k, slab := s'\<rparr>)))
           | (Inr _, k) \<Rightarrow>
               Some (Inr (t, ?c),
                 d0\<lparr>kern := k, slab := snd (slab_set_lifecycle t Built s),
                    pending_submit := True, registration_in_flight := True\<rparr>)))"
    using True by (subst start_register_buffers_checked)
      (simp_all add: alloc Let_def split: option.split sum.split prod.split)
  from inv show thesis
  proof (cases rule: insert_phase [where p = ?p])
    case full
    have same: "d0\<lparr>slab := slab d\<rparr> = d0\<lparr>kern := kern d, slab := slab d\<rparr>"
      by (simp add: d0_def alloc_cell_def)
    have "register_buffers P bs d = Some (Inl (RtTooManyOperations, bs), [],
        drop_future_half ?c (d0\<lparr>kern := kern d, slab := slab d\<rparr>))"
      by (simp add: register_buffers_def st full unbox flip: same)
    then show thesis by (rule failed [OF _ drop]) (simp_all add: driver_invD(1) [OF inv] file_payload_def)
  next
    case (token t s s2)
    obtain res k where call: "build_register_buffers P (ring d) (map describe_buffer bs)
        (as_user_data t) (kern d) = (res, k)"
      by (cases "build_register_buffers P (ring d) (map describe_buffer bs) (as_user_data t) (kern d)")
    show thesis
    proof (cases res)
      case (Inl e)
      have "register_buffers P bs d = Some (Inl (runtime_from_ring e, bs), [],
          drop_future_half ?c (d0\<lparr>kern := k, slab := s2\<rparr>))"
        by (simp add: register_buffers_def st token(1,7) call Inl unbox)
      then show thesis by (rule failed [OF _ drop [OF token(8,9,10)]]) (simp_all add: token(10) file_payload_def registration_payload_def registered_payload_def)
    next
      case (Inr u)
      let ?d2 = "d0\<lparr>kern := k, slab := snd (slab_set_lifecycle t Built s), pending_submit := True,
          registration_in_flight := True, nudged := True, driver_waker := None\<rparr>"
      have "register_buffers P bs d =
          Some (Inr (op_future_pending t ?c), option_list (driver_waker d), ?d2)"
        by (simp add: register_buffers_def st token(1) call Inr nudge_driver_eq)
      moreover have "started ?p t d ?d2"
        by (rule started_intro [OF inv run token(2,3,4)])
          (simp_all add: token(11-13) free registration_payload_def pend_buffers_ok pends_buffers_pends)
      ultimately show thesis using free run by (intro started [of t ?d2]) simp_all
    qed
  qed
qed

lemma register_files_cases:
  assumes inv: "driver_inv d"
  obtains (failed) e d' where "register_files P fs d = Some (Inl e, [], d')" "keeps d d'"
      "slab_view (slab d') = slab_view (slab d)" "files d' = files d"
    | (started) t d' where "shutdown d = Running"
        "register_files P fs d =
           Some (Inr (op_future_pending t (next_cell d)), option_list (driver_waker d), d')"
        "started (registration_payload (next_cell d) (PendFiles fs)) t d d'"
        "nudged d'" "driver_waker d' = None"
proof (cases "fs \<noteq> [] \<and> shutdown d = Running \<and>
    ensure_op_supported P (ring d) IORING_OP_REGISTER_FILES (kern d) = Inr ()")
  case False
  then have "\<exists>e. register_files P fs d = Some (Inl e, [], d)"
    by (auto simp: register_files_def start_register_files_def split: option.split sum.split)
  then show thesis using failed keeps_refl [OF inv] by blast
next
  case True
  then have run: "shutdown d = Running" by simp
  define d0 where "d0 = snd (alloc_cell d)"
  let ?c = "next_cell d" and ?p = "registration_payload (next_cell d) (PendFiles fs)"
  have alloc: "alloc_cell d = (?c, d0)" by (simp add: d0_def alloc_cell_def)
  note d0 [simp] = alloc_cell_frame [of d, folded d0_def] alloc_cell_eq(2,3) [of d, folded d0_def]
  note drop = keeps_discarded [OF inv, folded d0_def]
  from inv show thesis
  proof (cases rule: insert_phase [where p = ?p])
    case full
    have same: "d0\<lparr>slab := slab d\<rparr> = d0\<lparr>kern := kern d, slab := slab d\<rparr>"
      by (simp add: d0_def alloc_cell_def)
    have "register_files P fs d = Some (Inl RtTooManyOperations, [],
        drop_future_half ?c (d0\<lparr>kern := kern d, slab := slab d\<rparr>))"
      using True full by (simp add: register_files_def start_register_files_def alloc flip: same)
    then show thesis by (rule failed [OF _ drop(2)]) (simp_all add: driver_invD(1) [OF inv] file_payload_def)
  next
    case (token t s s2)
    let ?call = "build_register_file_handles P (ring d) (map (\<lambda>f. fs_handle (files d f)) fs)
      (as_user_data t) (kern d)"
    obtain res k where call: "?call = (res, k)" by (cases ?call)
    show thesis
    proof (cases res)
      case (Inl e)
      have "register_files P fs d = Some (Inl (runtime_from_ring e), [],
          drop_future_half ?c (drop_payload ?p (d0\<lparr>kern := k, slab := s2\<rparr>)))"
        using True token(1,7) call Inl
        by (simp add: register_files_def start_register_files_def alloc discard_payload_def)
      then show thesis by (rule failed [OF _ drop(1) [OF token(8,9,10)]]) (simp_all add: token(10) file_payload_def registration_payload_def registered_payload_def)
    next
      case (Inr u)
      let ?d2 = "d0\<lparr>kern := k, slab := snd (slab_set_lifecycle t Built s), pending_submit := True,
          nudged := True, driver_waker := None\<rparr>"
      have "register_files P fs d =
          Some (Inr (op_future_pending t ?c), option_list (driver_waker d), ?d2)"
        using True token(1) call Inr
        by (simp add: register_files_def start_register_files_def alloc nudge_driver_eq)
      moreover have "started ?p t d ?d2"
        by (rule started_intro [OF inv run token(2,3,4)])
          (simp_all add: token(11-13) registration_payload_def pending_ok_def pends_buffers_def)
      ultimately show thesis using run by (intro started [of t ?d2]) simp_all
    qed
  qed
qed

lemma registered_checks_Inr:
  assumes "registered_checks P tg h off len w d = Inr u"
  shows "shutdown d = Running" "buffer_registration d = Some (rb_registry h)"
    "check_registered_buffer (rb_index h) off len w d = Inr ()"
    "\<And>i. tg = TargetRegistered i \<Longrightarrow> check_registered_file i d = Inr ()"
  using assms by (auto simp: registered_checks_def dest: check_running_Inr
      split: sum.splits option.splits if_splits)

lemma try_registered_op_cases:
  assumes inv: "driver_inv d"
  obtains (failed) e d' where "try_registered_op P tg h off len fo w d = Some (Inl (e, h), [], d')" "keeps d d'"
      "slab_view (slab d') = slab_view (slab d)" "files d' = files d"
    | (started) t d' where "registered_checks P tg h off len w d = Inr ()"
        "try_registered_op P tg h off len fo w d =
           Some (Inr (op_future_pending t (next_cell d)), option_list (driver_waker d), d')"
        "started (registered_payload tg h off (next_cell d)) t d d'"
        "nudged d'" "driver_waker d' = None"
proof (cases "registered_checks P tg h off len w d")
  case (Inl e)
  then show thesis by (intro failed [of e d]) (simp_all add: try_registered_op_def keeps_refl [OF inv])
next
  case chk: (Inr u)
  note run = registered_checks_Inr(1) [OF chk]
  define d0 where "d0 = snd (alloc_cell d)"
  let ?c = "next_cell d" and ?p = "registered_payload tg h off (next_cell d)"
  have alloc: "alloc_cell d = (?c, d0)" by (simp add: d0_def alloc_cell_def)
  note d0 [simp] = alloc_cell_frame [of d, folded d0_def] alloc_cell_eq(2,3) [of d, folded d0_def]
  note drop = keeps_discarded [OF inv, folded d0_def]
  have buf: "op_buffer ?p = Some (AnyRegBuf h)" by (simp add: registered_payload_def)
  from inv show thesis
  proof (cases rule: insert_phase [where p = ?p])
    case full
    have same: "d0\<lparr>slab := slab d\<rparr> = d0\<lparr>kern := kern d, slab := slab d\<rparr>"
      by (simp add: d0_def alloc_cell_def)
    have "try_registered_op P tg h off len fo w d = Some (Inl (RtTooManyOperations, h), [],
        drop_future_half ?c (d0\<lparr>kern := kern d, slab := slab d\<rparr>))"
      using chk full by (simp add: try_registered_op_def alloc buf flip: same)
    then show thesis by (rule failed [OF _ drop(2)]) (simp_all add: driver_invD(1) [OF inv] file_payload_def)
  next
    case (token t s s2)
    let ?d1 = "d0\<lparr>slab := s\<rparr>"
    let ?call = "build_registered P tg (rb_index h) off len fo w t ?d1"
    obtain res k where call: "?call = (res, k)" by (cases ?call)
    show thesis
    proof (cases res)
      case (Inl e)
      have "try_registered_op P tg h off len fo w d = Some (Inl (e, h), [],
          drop_future_half ?c (drop_payload (?p\<lparr>op_buffer := None\<rparr>) (d0\<lparr>kern := k, slab := s2\<rparr>)))"
        using chk token(1,7) call Inl
        by (simp add: try_registered_op_def alloc recover_reg_buf_def recover_any_def buf)
      then show thesis by (rule failed [OF _ drop(1) [OF token(8,9,10)]]) (simp_all add: token(10) file_payload_def registration_payload_def registered_payload_def)
    next
      case (Inr u)
      let ?d2 = "?d1\<lparr>slab := snd (slab_set_lifecycle t Built s), nudged := True, driver_waker := None,
          kern := k, pending_submit := True\<rparr>"
      have bn: "built_and_nudge t (?d1\<lparr>kern := k\<rparr>) = (option_list (driver_waker d), ?d2)"
        by (simp add: built_and_nudge_eq)
      have "try_registered_op P tg h off len fo w d =
          Some (Inr (op_future_pending t ?c), option_list (driver_waker d), ?d2)"
        using chk token(1) call Inr bn by (simp add: try_registered_op_def alloc)
      moreover have "started ?p t d ?d2"
        by (rule started_intro [OF inv run token(2,3,4)])
          (simp_all add: token(11-13) registered_payload_def pending_ok_def pends_buffers_def)
      ultimately show thesis using chk by (intro started [of t ?d2]) simp_all
    qed
  qed
qed

end
