(* ===== verification/Driver_Run.thy ===== *)
theory Driver_Run
  imports Driver_Start
begin

text \<open>
  Runs: the driver, its armed wait, its clients and the kernel, interleaved.

  A client step is one call of a handle, a future or a registered buffer. A world adds the
  coroutine of \<open>drive\<close> and the armed wait. Between any two of its places the clients, the
  thread pool and the kernel may act, in any order and any number of times. The invariant of
  the driver holds in every world a run reaches; the buffers stay where the kernel may still
  reach them, and a parked driver that has something to do has been woken.
\<close>

section \<open>What clients do\<close>

inductive client_step :: "'k platform \<Rightarrow> 'k driver \<Rightarrow> waker list \<Rightarrow> 'k driver \<Rightarrow> bool"
  for P :: "'k platform" where
  cs_read: "handle_read P f b len off fl None d = Some (st, ws, d') \<Longrightarrow> client_step P d ws d'"
| cs_write: "handle_write P f b len off wfl fl None d = Some (fut, ws, d') \<Longrightarrow> client_step P d ws d'"
| cs_flush: "handle_flush P f m fl d = Some (st, ws, d') \<Longrightarrow> client_step P d ws d'"
| cs_register_buffers: "register_buffers P bs d = Some (r, ws, d') \<Longrightarrow> client_step P d ws d'"
| cs_register_files: "register_files P fs d = Some (r', ws, d') \<Longrightarrow> client_step P d ws d'"
| cs_registered_op: "registered_op P tg h bo len fo w d = Some (rst, ws, d') \<Longrightarrow> client_step P d ws d'"
| cs_check_out: "check_out alive me index d = Some (res, d') \<Longrightarrow> client_step P d [] d'"
| cs_check_in: "client_step P d [] (drop_reg_buf h d)"
| cs_fill: "client_step P d [] (d\<lparr>regs := (regs d)(r := map_option (set_initialized i n) (regs d r))\<rparr>)"
| cs_file_read: "file_read P ft f b len d = Some (so, ws, d') \<Longrightarrow> client_step P d ws d'"
| cs_file_write: "file_write P ft f b len d = Some (wso, ws, d') \<Longrightarrow> client_step P d ws d'"
| cs_set_cursor: "client_step P d [] (set_cursor f n d)"
| cs_seq_read_poll: "sequential_read_poll w so d = Some (r, so', d') \<Longrightarrow> client_step P d [] d'"
| cs_seq_write_poll: "sequential_write_poll w wso d = Some (r, wso', d') \<Longrightarrow> client_step P d [] d'"
| cs_cancel: "client_step P d (fst (handle_cancel P t d)) (snd (handle_cancel P t d))"
| cs_shutdown: "client_step P d (fst (handle_shutdown d)) (snd (handle_shutdown d))"
| cs_shutdown_now: "client_step P d (fst (handle_shutdown_now d)) (snd (handle_shutdown_now d))"
| cs_poll: "client_step P d [] (snd (snd (poll_resolution w f d)))"
| cs_drop: "client_step P d (fst (op_future_drop P alive borrowed f d)) (snd (op_future_drop P alive borrowed f d))"
| cs_shutdown_poll: "client_step P d [] (snd (snd (shutdown_complete_poll w sf d)))"
| cs_shutdown_drop: "client_step P d [] (shutdown_complete_drop borrowed sf d)"
| cs_kernel: "client_step P d [] (d\<lparr>kern := k\<rparr>)"

section \<open>Clients keep the invariant\<close>

text \<open>
  What a client call may do: the invariant stays, the live operations stay, the closing state
  stays, and while shutting down no new operation appears and the kernel gets nothing new.
\<close>

definition client_ok :: "'k driver \<Rightarrow> waker list \<Rightarrow> 'k driver \<Rightarrow> bool" where
  "client_ok d ws d' \<longleftrightarrow> driver_inv d' \<and> advances (slab d) (slab d') \<and>
     live_payloads d \<subseteq>\<^sub>m live_payloads d' \<and> torn_down d' = torn_down d \<and>
     shutdown d \<le> shutdown d' \<and>
     (shutdown d \<noteq> Running \<longrightarrow> live_payloads d' = live_payloads d) \<and>
     (shutdown d \<noteq> Running \<and> kernel_idle d \<longrightarrow> kernel_idle d')"

lemma client_ok_keeps:
  assumes "keeps d d'" "slab_view (slab d') = slab_view (slab d)"
  shows "client_ok d ws d'"
  using assms by (simp add: client_ok_def keeps_def retains_def map_le_def kernel_idle_def)

lemma client_ok_quiet:
  assumes "driver_inv d" "slab d' = slab d" "torn_down d' = torn_down d" "ring d' = ring d"
    "shutdown d \<le> shutdown d'" "registration_in_flight d' = registration_in_flight d"
    "pending_submit d \<longrightarrow> pending_submit d'" "cells_kept d d'" "regs_kept d d'"
  shows "client_ok d ws d'"
  by (rule client_ok_keeps [OF keeps_quiet]) (use assms in simp_all)

lemma client_ok_started:
  assumes "started p t d d'" "shutdown d = Running" shows "client_ok d ws d'"
  using assms
  by (auto simp: client_ok_def started_def live_payloads_def map_le_def split: option.splits entry.splits)

lemma client_ok_trans:
  "\<lbrakk>client_ok a ws b; client_ok b ws' c\<rbrakk> \<Longrightarrow> client_ok a ws'' c"
proof -
  assume ab: "client_ok a ws b" and bc: "client_ok b ws' c"
  have "shutdown b \<noteq> Running" if "shutdown a \<noteq> Running"
    using ab that by (cases "shutdown a"; cases "shutdown b") (auto simp: client_ok_def)
  with ab bc show "client_ok a ws'' c"
    unfolding client_ok_def using advances_trans map_le_trans order_trans by (metis (no_types, lifting))
qed

lemma cancel_change_idle:
  assumes "kernel_idle d" "cancels_only d d'" shows "slab_view (slab d') = slab_view (slab d)"
proof
  fix k
  from assms(2) have "cancel_change (slab_view (slab d) k) (slab_view (slab d') k)"
    by (simp add: cancels_only_def)
  with assms(1) show "slab_view (slab d') k = slab_view (slab d) k"
    by (fastforce simp: cancel_change_def kernel_idle_def)
qed

lemma client_ok_cancels:
  assumes inv: "driver_inv d" and c: "cancels_only d d'" shows "client_ok d ws d'"
proof -
  have "kernel_idle d \<longrightarrow> kernel_idle d'"
    using cancel_change_idle [OF _ c] by (simp add: kernel_idle_def)
  then show ?thesis
    using keeps_cancels_only [OF inv c] by (simp add: client_ok_def keeps_def retains_def)
qed

lemma client_ok_request_cancel:
  assumes inv: "driver_inv d" shows "client_ok d ws (request_cancel P t d)"
proof -
  have "client_ok d ws (d\<lparr>deferred_cancels := xs\<rparr>)" for xs
    by (rule client_ok_quiet [OF inv]) (simp_all add: cells_kept_same regs_kept_same)
  moreover have "client_ok d ws d"
    by (rule client_ok_quiet [OF inv]) (simp_all add: cells_kept_same regs_kept_same)
  ultimately show ?thesis
    using client_ok_cancels [OF inv issue_cancel_only [OF driver_invD(1) [OF inv]]]
    by (simp add: request_cancel_def split: option.split lifecycle.split)
qed

lemma client_ok_take_waker:
  "driver_inv d \<Longrightarrow> client_ok d ws (snd (take_driver_waker d))"
  by (rule client_ok_quiet) (simp_all add: take_driver_waker_def cells_kept_same regs_kept_same)

lemma client_ok_inv: "client_ok d ws d' \<Longrightarrow> driver_inv d'"
  by (simp add: client_ok_def)

lemma client_ok_escalate: "driver_inv d \<Longrightarrow> client_ok d ws (snd (escalate m d))"
  by (rule client_ok_quiet)
    (auto simp: escalate_def nudge_def take_driver_waker_def mark_nudged_def Let_def cells_kept_same regs_kept_same)

lemma client_ok_poll: "driver_inv d \<Longrightarrow> client_ok d ws (snd (snd (poll_resolution w f d)))"
  by (rule client_ok_quiet)
    (simp_all add: poll_resolution_def cells_kept_def cell_open_def regs_kept_same split: option.split prod.split)

lemma client_ok_detach:
  assumes inv: "driver_inv d" shows "client_ok d ws (d\<lparr>slab := snd (slab_detach t (slab d))\<rparr>)"
proof -
  note wf = driver_invD(1) [OF inv]
  obtain r s where rs: "slab_detach t (slab d) = (r, s)" by (cases "slab_detach t (slab d)")
  note sp = detach_spec [OF wf rs]
  let ?d = "d\<lparr>slab := s\<rparr>"
  have step: "entry_step (slab_view (slab d) k) (slab_view s k)" for k
    using sp by (auto simp: entry_step_def split: option.splits entry.splits)
  have "keeps d ?d"
  proof (rule keeps_in_place [OF inv])
    show "slab_wf (slab ?d)" using sp by simp
    show "advances (slab d) (slab ?d)" using exec_advances [OF wf, of "CmdDetach t"] rs by simp
    show "entry_step (slab_view (slab d) k) (slab_view (slab ?d) k)" for k using step by simp
  qed (simp_all add: cells_kept_same regs_kept_same)
  moreover have "kernel_idle ?d" if "kernel_idle d"
    using sp that by (auto simp: kernel_idle_def split: option.splits entry.splits if_splits)
  ultimately show ?thesis by (simp add: rs client_ok_def keeps_def retains_def)
qed

lemma op_future_drop_eq:
  assumes "driver_inv d" "\<not> of_finished f" "alive" "\<not> borrowed"
  shows "op_future_drop P alive borrowed f d =
    (let d1 = d\<lparr>slab := snd (slab_detach (of_token f) (slab d))\<rparr> in
     if fst (slab_detach (of_token f) (slab d)) = Some Submitted
     then (option_list (driver_waker (request_cancel P (of_token f) d1)),
           drop_future_cell (of_cell f) (snd (take_driver_waker (request_cancel P (of_token f) d1))))
     else ([], drop_future_cell (of_cell f) d1))"
proof -
  obtain r s where rs: "slab_detach (of_token f) (slab d) = (r, s)" by (cases "slab_detach (of_token f) (slab d)")
  have "r \<noteq> Some Described"
  proof
    assume "r = Some Described"
    with detach_spec [OF driver_invD(1) [OF assms(1)] rs] rs
    have "\<exists>ob p c. slab_view (slab d) (token_key (of_token f)) = Some (Entry Described ob p c)"
      by (auto split: option.splits entry.splits)
    with driver_invD(2) [OF assms(1)] show False by (auto simp: no_described_def)
  qed
  then show ?thesis using assms(2-4)
    by (cases r rule: option.exhaust; cases "the r")
      (simp_all add: op_future_drop_def rs Let_def take_driver_waker_def option_list_def)
qed

lemma client_ok_future_cell: "driver_inv d \<Longrightarrow> client_ok d ws (drop_future_cell c d)"
  by (rule client_ok_quiet) (simp_all add: cells_kept_future_cell regs_kept_future_cell)

lemma client_ok_drop:
  assumes inv: "driver_inv d" shows "client_ok d ws (snd (op_future_drop P alive borrowed f d))"
proof (cases "of_finished f \<or> \<not> alive \<or> borrowed")
  case True
  then show ?thesis by (simp add: op_future_drop_def client_ok_future_cell [OF inv])
next
  case False
  let ?d1 = "d\<lparr>slab := snd (slab_detach (of_token f) (slab d))\<rparr>"
  note d1 = client_ok_detach [OF inv, of _ "of_token f"]
  note d2 = client_ok_request_cancel [OF client_ok_inv [OF d1], of _ P "of_token f"]
  note d3 = client_ok_take_waker [OF client_ok_inv [OF d2]]
  have "client_ok d ws (drop_future_cell (of_cell f) ?d1)"
    by (rule client_ok_trans [OF d1 client_ok_future_cell [OF client_ok_inv [OF d1]]])
  moreover have "client_ok d ws (drop_future_cell (of_cell f)
      (snd (take_driver_waker (request_cancel P (of_token f) ?d1))))"
    by (rule client_ok_trans [OF client_ok_trans [OF client_ok_trans [OF d1 d2] d3]
          client_ok_future_cell [OF client_ok_inv [OF d3]]])
  ultimately show ?thesis
    using op_future_drop_eq [OF inv, of f alive borrowed P] False by (simp add: Let_def)
qed

lemma client_ok_read:
  assumes inv: "driver_inv d" and r: "handle_read P f b len off fl g d = Some (st, ws, d')"
  shows "client_ok d ws d'"
  using inv
proof (cases rule: try_read_cases [where P = P and f = f and b = b and len = len and off = off and fl = fl and g = g])
  case (failed e d1)
  with r have "d' = d1" by (simp add: handle_read_def)
  with failed show ?thesis by (simp add: client_ok_keeps)
next
  case (started t d1)
  with r have "d' = d1" by (simp add: handle_read_def)
  with started show ?thesis by (simp add: client_ok_started)
qed

lemma client_ok_write:
  assumes inv: "driver_inv d" and r: "handle_write P f b len off wfl fl g d = Some (fut, ws, d')"
  shows "client_ok d ws d'"
  using inv
proof (cases rule: try_write_cases [where P = P and f = f and b = b and len = len and off = off
      and wfl = wfl and fl = fl and g = g])
  case (failed e d1)
  with r have d': "d' = snd (write_future_failed e b d1)" by (simp add: handle_write_def split_def)
  have "client_ok d1 ws d'"
    by (rule client_ok_quiet)
      (use keeps_inv [OF failed(2)] in \<open>simp_all add: d' write_future_failed_def alloc_cell_def
         cells_kept_def cell_open_def regs_kept_same\<close>)
  then show ?thesis
    by (rule client_ok_trans [OF client_ok_keeps [OF failed(2,3)]])
next
  case (started t d1)
  with r have "d' = d1" by (simp add: handle_write_def)
  with started show ?thesis by (simp add: client_ok_started)
qed

lemma client_ok_flush:
  assumes inv: "driver_inv d" and r: "handle_flush P f m fl d = Some (st, ws, d')"
  shows "client_ok d ws d'"
  using inv
proof (cases rule: try_flush_cases [where P = P and f = f and m = m and fl = fl])
  case (failed e d1)
  with r have "d' = d1" by (simp add: handle_flush_def)
  with failed show ?thesis by (simp add: client_ok_keeps)
next
  case (started t d1)
  with r have "d' = d1" by (simp add: handle_flush_def)
  with started show ?thesis by (simp add: client_ok_started)
qed

lemma client_ok_register_buffers:
  assumes inv: "driver_inv d" and r: "register_buffers P bs d = Some (res, ws, d')"
  shows "client_ok d ws d'"
  using inv
proof (cases rule: register_buffers_cases [where P = P and bs = bs])
  case (failed e d1)
  with r show ?thesis by (simp add: client_ok_keeps)
next
  case (started t d1)
  with r show ?thesis by (simp add: client_ok_started)
qed

lemma client_ok_register_files:
  assumes inv: "driver_inv d" and r: "register_files P fs d = Some (res, ws, d')"
  shows "client_ok d ws d'"
  using inv
proof (cases rule: register_files_cases [where P = P and fs = fs])
  case (failed e d1)
  with r show ?thesis by (simp add: client_ok_keeps)
next
  case (started t d1)
  with r show ?thesis by (simp add: client_ok_started)
qed

lemma client_ok_registered_op:
  assumes inv: "driver_inv d" and r: "registered_op P tg h bo len fo w d = Some (st, ws, d')"
  shows "client_ok d ws d'"
  using inv
proof (cases rule: try_registered_op_cases [where P = P and tg = tg and h = h and off = bo and len = len
      and fo = fo and w = w])
  case (failed e d1)
  with r have "d' = d1" by (simp add: registered_op_def)
  with failed show ?thesis by (simp add: client_ok_keeps)
next
  case (started t d1)
  with r have "d' = d1" by (simp add: registered_op_def)
  with started registered_checks_Inr(1) [OF started(1)] show ?thesis by (simp add: client_ok_started)
qed

lemma registry_claim_total:
  assumes "length (rg_slots r) = length (rg_pointers r)"
  shows "\<exists>res r'. registry_claim me i r = Some (res, r') \<and> length (rg_slots r') = length (rg_pointers r')"
  using assms by (auto simp: registry_claim_def Let_def split: option.split)

lemma client_ok_check_out:
  assumes inv: "driver_inv d" and r: "check_out alive me index d = Some (res, d')"
  shows "client_ok d ws d'"
proof (cases "d' = d")
  case True
  then show ?thesis by (simp add: client_ok_quiet [OF inv] cells_kept_same regs_kept_same)
next
  case False
  with r obtain rg rg' where free: "\<not> registration_in_flight d" and cur: "buffer_registration d = Some me"
    and rg: "regs d me = Some rg" "registry_claim me index rg = Some (res, rg')"
    and d': "d' = d\<lparr>regs := (regs d)(me := Some rg')\<rparr>"
    by (auto simp: check_out_def split: if_splits option.splits)
  have sound: "reg_sound d'"
  proof -
    from driver_invD(7) [OF inv] cur rg(1) have "length (rg_slots rg) = length (rg_pointers rg)"
      by (simp add: reg_sound_def)
    from registry_claim_total [OF this, of me index] rg(2) show ?thesis
      by (auto simp: reg_sound_def d' cur)
  qed
  have "driver_inv d'"
  proof (rule inv_in_place [OF inv])
    show "same_core d d'" using sound driver_invD(11) [OF inv] by (simp add: same_core_def d')
  qed (use driver_invD(1) [OF inv] free in \<open>simp_all add: d' cell_open_def\<close>)
  then show ?thesis
    by (simp add: client_ok_def d' live_payloads_def kernel_idle_def map_le_def fun_eq_iff)
qed

lemma keeps_reg_fill: "keeps_reg (set_initialized i n)"
  by (auto simp: keeps_reg_def set_initialized_def any_checked_out_None
      dest!: set_update_subset_insert [THEN subsetD] split: option.split)

lemma client_ok_handle_cancel:
  assumes inv: "driver_inv d" shows "client_ok d ws (snd (handle_cancel P t d))"
proof -
  note c = client_ok_request_cancel [OF inv, of _ P t]
  show ?thesis
    using client_ok_trans [OF c client_ok_take_waker [OF client_ok_inv [OF c]]]
    by (simp add: handle_cancel_def split_def Let_def)
qed

lemma client_ok_files: "driver_inv d \<Longrightarrow> client_ok d ws (d\<lparr>files := fls\<rparr>)"
  by (rule client_ok_quiet) (simp_all add: cells_kept_same regs_kept_same)

text \<open>Before the operation itself, a sequential start writes the state of its file only.\<close>

lemma start_sequential_cases:
  assumes "start_sequential ft f b start d = Some (so, ws, d')"
  obtains (refused) st e where "d' = set_file f st d" "ws = []" "so = sequential_rejected f e b"
      "e = FiOperationOutstanding \<longrightarrow> fs_sequential (files d f)"
      "st = (files d f)\<lparr>fs_type := fs_type st\<rparr>"
    | (passed) st fut where "start (fs_cursor (files d f)) (Some f) (set_file f st d) = Some (fut, ws, d')"
      "\<not> fs_sequential (files d f)" "so = \<lparr>so_inner = Some fut, so_rejected = None, so_state = f\<rparr>"
      "st = (files d f)\<lparr>fs_type := fs_type st, fs_sequential := True\<rparr>"
proof -
  obtain r d1 where ck: "check_has_file_offset ft f d = (r, d1)" by (cases "check_has_file_offset ft f d")
  have same: "set_file f ((files d f)\<lparr>fs_type := fs_type (files d f)\<rparr>) d = d"
    by (simp add: set_file_def)
  have "d1 = d \<or> (\<exists>y. d1 = set_file f ((files d f)\<lparr>fs_type := y\<rparr>) d)"
    using ck by (auto simp: check_has_file_offset_def Let_def split: option.splits)
  with same obtain y where d1: "d1 = set_file f ((files d f)\<lparr>fs_type := y\<rparr>) d" by metis
  have e: "e \<noteq> FiOperationOutstanding" if "r = Inl e" for e
    using ck that by (auto simp: check_has_file_offset_def Let_def split: if_splits option.splits)
  show thesis
  proof (cases r)
    case (Inl e)
    with assms ck e d1 show thesis
      by (intro refused [of "(files d f)\<lparr>fs_type := y\<rparr>" e]) (auto simp: start_sequential_def)
  next
    case (Inr u)
    show thesis
    proof (cases "fs_sequential (files d f)")
      case True
      then have eq: "(files d f)\<lparr>fs_type := y, fs_sequential := True\<rparr> = (files d f)\<lparr>fs_type := y\<rparr>"
        by (cases "files d f") simp
      with assms ck Inr True show thesis
        by (intro refused [of "(files d f)\<lparr>fs_type := y\<rparr>" FiOperationOutstanding])
          (simp_all add: start_sequential_def d1 sequential_claim_def set_file_def Let_def)
    next
      case False
      with assms ck Inr show thesis
        by (intro passed [of "(files d f)\<lparr>fs_type := y, fs_sequential := True\<rparr>" "the (so_inner so)"])
          (auto simp: start_sequential_def d1 sequential_claim_def set_file_def file_cursor_def Let_def
            split: option.splits)
    qed
  qed
qed

lemma client_ok_sequential:
  assumes inv: "driver_inv d" and r: "start_sequential ft f b start d = Some (so, ws, d')"
    and start: "\<And>n g d1 fut ws d2. \<lbrakk>driver_inv d1; start n g d1 = Some (fut, ws, d2)\<rbrakk> \<Longrightarrow> client_ok d1 ws d2"
  shows "client_ok d ws d'"
  using r
proof (cases rule: start_sequential_cases)
  case (refused st e)
  then show ?thesis by (simp add: set_file_def client_ok_files [OF inv])
next
  case (passed st fut)
  have 1: "client_ok d ws (set_file f st d)" by (simp add: set_file_def client_ok_files [OF inv])
  from client_ok_trans [OF 1 start [OF client_ok_inv [OF 1] passed(1)]] show ?thesis .
qed

lemma client_ok_file_read: "\<lbrakk>driver_inv d; file_read P ft f b len d = Some (so, ws, d')\<rbrakk> \<Longrightarrow> client_ok d ws d'"
  unfolding file_read_def by (erule client_ok_sequential) (auto intro: client_ok_read)

lemma client_ok_file_write: "\<lbrakk>driver_inv d; file_write P ft f b len d = Some (so, ws, d')\<rbrakk> \<Longrightarrow> client_ok d ws d'"
  unfolding file_write_def by (erule client_ok_sequential) (auto intro: client_ok_write)

text \<open>A sequential poll resolves the inner future and moves the cursor.\<close>

definition polled_to :: "'k driver \<Rightarrow> 'k driver \<Rightarrow> bool" where
  "polled_to d d' \<longleftrightarrow> (\<exists>d1 g c. (d1 = d \<or> (\<exists>w f. d1 = snd (snd (poll_resolution w f d)))) \<and>
     (d' = d1 \<or> d' = set_cursor g c d1))"

lemma sequential_poll_to:
  assumes "sequential_poll ip so d = Some (r, so', d')"
    and "\<And>st r st' d1. ip st d = Some (r, st', d1) \<Longrightarrow> d1 = d \<or> (\<exists>w f. d1 = snd (snd (poll_resolution w f d)))"
  shows "polled_to d d'"
  using assms(1)
  by (auto simp: sequential_poll_def polled_to_def advance_on_success_def
      dest!: assms(2) split: option.splits prod.splits poll.splits sum.splits)

lemma sequential_read_poll_to: "sequential_read_poll w so d = Some (r, so', d') \<Longrightarrow> polled_to d d'"
  unfolding sequential_read_poll_def by (erule sequential_poll_to) (use read_future_poll_frame in blast)

lemma sequential_write_poll_to: "sequential_write_poll w so d = Some (r, so', d') \<Longrightarrow> polled_to d d'"
  unfolding sequential_write_poll_def by (erule sequential_poll_to) (use write_future_poll_frame in blast)

lemma client_ok_polled:
  assumes inv: "driver_inv d" and p: "polled_to d d'" shows "client_ok d ws d'"
proof -
  from p obtain d1 g c where d1: "d1 = d \<or> (\<exists>w f. d1 = snd (snd (poll_resolution w f d)))"
    "d' = d1 \<or> d' = set_cursor g c d1"
    unfolding polled_to_def by blast
  have 1: "client_ok d ws d1"
    using d1(1) client_ok_poll [OF inv] client_ok_quiet [OF inv, of d] by (auto simp: cells_kept_same regs_kept_same)
  from d1(2) client_ok_trans [OF 1 client_ok_files [OF client_ok_inv [OF 1]]] 1 show ?thesis
    by (auto simp: set_cursor_def set_file_def)
qed

lemma client_step_ok:
  assumes "client_step P d ws d'" "driver_inv d" shows "client_ok d ws d'"
  using assms
proof (induction rule: client_step.induct)
  case (cs_check_in d h)
  show ?case
    by (rule client_ok_quiet [OF cs_check_in])
      (simp_all add: cells_kept_same regs_kept_drop_reg_buf)
next
  case (cs_fill d r i n)
  show ?case
    by (rule client_ok_quiet [OF cs_fill])
      (simp_all add: cells_kept_same regs_kept_update [OF keeps_reg_fill])
next
  case (cs_cancel d t)
  then show ?case by (rule client_ok_handle_cancel)
next
  case (cs_shutdown_poll d w sf)
  show ?case
    by (rule client_ok_quiet [OF cs_shutdown_poll])
      (simp_all add: shutdown_complete_poll_def Let_def split_def cells_kept_same regs_kept_same
        split: option.split)
next
  case (cs_shutdown_drop d borrowed sf)
  show ?case
    by (rule client_ok_quiet [OF cs_shutdown_drop])
      (simp_all add: shutdown_complete_drop_def cells_kept_same regs_kept_same split: option.split)
next
  case (cs_seq_read_poll w so d r so' d')
  then show ?case using client_ok_polled sequential_read_poll_to by blast
next
  case (cs_seq_write_poll w wso d r wso' d')
  then show ?case using client_ok_polled sequential_write_poll_to by blast
next
  case (cs_set_cursor d f n)
  then show ?case by (simp add: set_cursor_def set_file_def client_ok_files)
qed (simp_all add: client_ok_read client_ok_write client_ok_file_read client_ok_file_write
      client_ok_flush client_ok_register_buffers
      client_ok_register_files client_ok_registered_op client_ok_check_out handle_shutdown_def
      handle_shutdown_now_def client_ok_escalate client_ok_poll client_ok_drop
      client_ok_quiet cells_kept_same regs_kept_same)

end
