(* ===== verification/Wakeups.thy ===== *)
theory Wakeups
  imports Driver_Run
begin

text \<open>
  What clients tell the driver: a client that leaves something for the driver to do also nudges
  it, and hands out the waker the driver left, if any. An operation that fails tells nothing.
\<close>

section \<open>The contract\<close>

definition tells :: "'k driver \<Rightarrow> waker list \<Rightarrow> 'k driver \<Rightarrow> bool" where
  "tells d ws d' \<longleftrightarrow> (pending_submit d' \<longrightarrow> pending_submit d \<or> nudged d') \<and> (nudged d \<longrightarrow> nudged d') \<and>
     (shutdown d' = shutdown d \<or> nudged d') \<and>
     (driver_waker d' = driver_waker d \<and> nudged d' = nudged d \<or>
      driver_waker d' = None \<and> set (option_list (driver_waker d)) \<subseteq> set ws)"

text \<open>Nothing of what the driver is told has changed.\<close>

definition silent :: "'k driver \<Rightarrow> 'k driver \<Rightarrow> bool" where
  "silent d d' \<longleftrightarrow> pending_submit d' = pending_submit d \<and> nudged d' = nudged d \<and>
     shutdown d' = shutdown d \<and> driver_waker d' = driver_waker d"

lemma silent_tells: "silent d d' \<Longrightarrow> tells d ws d'"
  by (simp add: silent_def tells_def)

lemma silent_refl [simp]: "silent d d"
  by (simp add: silent_def)

lemma silent_frame [simp]:
  "silent d (d'\<lparr>slab := s\<rparr>) = silent d d'" "silent d (d'\<lparr>kern := k\<rparr>) = silent d d'"
  "silent d (d'\<lparr>cells := x\<rparr>) = silent d d'" "silent d (d'\<lparr>files := fls\<rparr>) = silent d d'"
  "silent d (d'\<lparr>regs := r\<rparr>) = silent d d'" "silent d (d'\<lparr>deferred_cancels := ts\<rparr>) = silent d d'"
  "silent d (snd (alloc_cell d')) = silent d d'" "silent d (drop_payload p d') = silent d d'"
  "silent d (drop_future_half c d') = silent d d'" "silent d (drop_future_cell c d') = silent d d'"
  "silent d (clear_sequential g d') = silent d d'" "silent d (drop_reg_buf h d') = silent d d'"
  by (simp_all add: silent_def)

lemma silent_discard [simp]: "silent d (discard_payload t d') = silent d d'"
  by (simp add: discard_payload_def split: option.split prod.split)

lemma recover_any_silent: "recover_any t d' = Some (b, d'') \<Longrightarrow> silent d d'' = silent d d'"
  by (auto simp: recover_any_def split: option.splits prod.splits)

lemma recover_buffer_silent: "recover_buffer t d' = Some (b, d'') \<Longrightarrow> silent d d'' = silent d d'"
  by (auto simp: recover_buffer_def recover_any_silent split: option.splits any_buf.splits)

lemma recover_reg_buf_silent: "recover_reg_buf t d' = Some (b, d'') \<Longrightarrow> silent d d'' = silent d d'"
  by (auto simp: recover_reg_buf_def recover_any_silent split: option.splits any_buf.splits)

section \<open>Failures are silent\<close>

lemma alloc_silent:
  obtains d0 where "alloc_cell d = (next_cell d, d0)" "silent d d0"
proof
  show "alloc_cell d = (next_cell d, snd (alloc_cell d))" by (simp add: alloc_cell_def)
qed simp

lemma start_buffer_op_silent:
  assumes "start_buffer_op f b g call d = Some (Inl r, ws, d')"
  shows "silent d d'"
proof -
  obtain d0 where a: "alloc_cell d = (next_cell d, d0)" and d0: "silent d d0" by (rule alloc_silent)
  show ?thesis
    using assms d0 unfolding start_buffer_op_def
    by (auto simp: a Let_def put_buffer_def built_and_nudge_def nudge_def
        dest!: recover_buffer_silent [of _ _ _ _ d] split: option.splits sum.splits prod.splits)
qed

lemma try_read_silent: "try_read P f b len off fl g d = Some (Inl r, ws, d') \<Longrightarrow> silent d d'"
  by (auto simp: try_read_def dest: start_buffer_op_silent split: sum.splits)

lemma try_write_silent: "try_write P f b len off wfl fl g d = Some (Inl r, ws, d') \<Longrightarrow> silent d d'"
  by (auto simp: try_write_def dest: start_buffer_op_silent split: sum.splits)

lemma try_flush_silent:
  assumes "try_flush P f m fl d = Some (Inl e, ws, d')" shows "silent d d'"
proof -
  obtain d0 where a: "alloc_cell d = (next_cell d, d0)" and d0: "silent d d0" by (rule alloc_silent)
  show ?thesis
    using assms d0 unfolding try_flush_def
    by (auto simp: a Let_def built_and_nudge_def nudge_def
        split: option.splits sum.splits prod.splits)
qed

lemma try_registered_op_silent:
  assumes "try_registered_op P tg h bo len fo w d = Some (Inl e, ws, d')" shows "silent d d'"
proof -
  obtain d0 where a: "alloc_cell d = (next_cell d, d0)" and d0: "silent d d0" by (rule alloc_silent)
  show ?thesis
    using assms d0 unfolding try_registered_op_def
    by (auto simp: a Let_def built_and_nudge_def nudge_def
        dest!: recover_reg_buf_silent [of _ _ _ _ d] split: option.splits sum.splits prod.splits any_buf.splits)
qed

lemma register_buffers_silent:
  assumes "register_buffers P bs d = Some (Inl e, ws, d')" shows "silent d d'"
proof -
  obtain d0 where a: "alloc_cell d = (next_cell d, d0)" and d0: "silent d d0" by (rule alloc_silent)
  have "start_register_buffers P bs d = Some (Inl e, d')"
    using assms by (auto simp: register_buffers_def split: option.splits sum.splits prod.splits)
  with d0 show ?thesis
    unfolding start_register_buffers_def
    by (auto simp: a Let_def split: option.splits sum.splits prod.splits if_splits)
qed

lemma register_files_silent:
  assumes "register_files P fs d = Some (Inl e, ws, d')" shows "silent d d'"
proof -
  obtain d0 where a: "alloc_cell d = (next_cell d, d0)" and d0: "silent d d0" by (rule alloc_silent)
  have "start_register_files P fs d = Some (Inl e, d')"
    using assms by (auto simp: register_files_def split: option.splits sum.splits prod.splits)
  with d0 show ?thesis
    unfolding start_register_files_def
    by (auto simp: a Let_def split: option.splits sum.splits prod.splits if_splits)
qed

section \<open>Every client tells the driver\<close>

lemma tells_nudged: "\<lbrakk>nudged d'; driver_waker d' = None\<rbrakk> \<Longrightarrow> tells d (option_list (driver_waker d)) d'"
  by (simp add: tells_def)

lemma tells_read:
  assumes inv: "driver_inv d" and r: "handle_read P f b len off fl g d = Some (st, ws, d')"
  shows "tells d ws d'"
  using inv
proof (cases rule: try_read_cases [where P = P and f = f and b = b and len = len and off = off and fl = fl and g = g])
  case (failed e d1)
  with r try_read_silent [OF failed(1)] show ?thesis by (simp add: handle_read_def silent_tells)
next
  case (started t d1)
  with r show ?thesis by (auto simp: handle_read_def intro: tells_nudged)
qed

lemma tells_write:
  assumes inv: "driver_inv d" and r: "handle_write P f b len off wfl fl g d = Some (fut, ws, d')"
  shows "tells d ws d'"
  using inv
proof (cases rule: try_write_cases [where P = P and f = f and b = b and len = len and off = off
      and wfl = wfl and fl = fl and g = g])
  case (failed e d1)
  with r have "d' = snd (write_future_failed e b d1)" by (simp add: handle_write_def split_def)
  moreover have "silent d (snd (write_future_failed e b d1)) = silent d d1"
    by (simp add: write_future_failed_def split_def)
  ultimately show ?thesis using try_write_silent [OF failed(1)] by (simp add: silent_tells)
next
  case (started t d1)
  with r show ?thesis by (auto simp: handle_write_def intro: tells_nudged)
qed

lemma tells_flush:
  assumes inv: "driver_inv d" and r: "handle_flush P f m fl d = Some (st, ws, d')"
  shows "tells d ws d'"
  using inv
proof (cases rule: try_flush_cases [where P = P and f = f and m = m and fl = fl])
  case (failed e d1)
  with r try_flush_silent [OF failed(1)] show ?thesis by (simp add: handle_flush_def silent_tells)
next
  case (started t d1)
  with r show ?thesis by (auto simp: handle_flush_def intro: tells_nudged)
qed

lemma tells_register_buffers:
  assumes inv: "driver_inv d" and r: "register_buffers P bs d = Some (res, ws, d')"
  shows "tells d ws d'"
  using inv
proof (cases rule: register_buffers_cases [where P = P and bs = bs])
  case (failed e d1)
  with r register_buffers_silent [OF failed(1)] show ?thesis by (simp add: silent_tells)
next
  case (started t d1)
  with r show ?thesis by (auto intro: tells_nudged)
qed

lemma tells_register_files:
  assumes inv: "driver_inv d" and r: "register_files P fs d = Some (res, ws, d')"
  shows "tells d ws d'"
  using inv
proof (cases rule: register_files_cases [where P = P and fs = fs])
  case (failed e d1)
  with r register_files_silent [OF failed(1)] show ?thesis by (simp add: silent_tells)
next
  case (started t d1)
  with r show ?thesis by (auto intro: tells_nudged)
qed

lemma tells_registered_op:
  assumes inv: "driver_inv d" and r: "registered_op P tg h bo len fo w d = Some (st, ws, d')"
  shows "tells d ws d'"
  using inv
proof (cases rule: try_registered_op_cases [where P = P and tg = tg and h = h and off = bo and len = len
      and fo = fo and w = w])
  case (failed e d1)
  with r try_registered_op_silent [OF failed(1)] show ?thesis by (simp add: registered_op_def silent_tells)
next
  case (started t d1)
  with r show ?thesis by (auto simp: registered_op_def intro: tells_nudged)
qed

lemma tells_request_cancel:
  assumes inv: "driver_inv d" and d1: "silent d d1" "slab_wf (slab d1)"
  shows "tells d (option_list (driver_waker (request_cancel P t d1))) (snd (take_driver_waker (request_cancel P t d1)))"
proof -
  have "cancels_only d1 (issue_cancel P t d1)" by (rule issue_cancel_only [OF d1(2)])
  then have "driver_waker (issue_cancel P t d1) = driver_waker d1"
    "shutdown (issue_cancel P t d1) = shutdown d1"
    "pending_submit (issue_cancel P t d1) \<longrightarrow> pending_submit d1 \<or> nudged (issue_cancel P t d1)"
    "nudged d1 \<longrightarrow> nudged (issue_cancel P t d1)"
    by (auto simp: cancels_only_def)
  with d1(1) show ?thesis
    by (auto simp: request_cancel_def tells_def silent_def take_driver_waker_def
        split: option.split lifecycle.split)
qed

lemma tells_drop:
  assumes inv: "driver_inv d"
  shows "tells d (fst (op_future_drop P alive borrowed f d)) (snd (op_future_drop P alive borrowed f d))"
proof (cases "of_finished f \<or> \<not> alive \<or> borrowed")
  case True
  then show ?thesis by (simp add: op_future_drop_def silent_tells)
next
  case False
  let ?d1 = "d\<lparr>slab := snd (slab_detach (of_token f) (slab d))\<rparr>"
  have wf: "slab_wf (slab ?d1)"
    using driver_invD(1) [OF client_ok_inv [OF client_ok_detach [OF inv, of "[]" "of_token f"]]] by simp
  have "tells d ws (drop_future_cell c d2) = tells d ws d2" for ws c d2
    by (simp add: tells_def)
  then show ?thesis
    using op_future_drop_eq [OF inv, of f alive borrowed P] False tells_request_cancel [OF inv _ wf, of P "of_token f"]
    by (simp add: Let_def silent_tells)
qed

lemma tells_escalate: "tells d (fst (escalate m d)) (snd (escalate m d))"
  by (auto simp: escalate_def nudge_def take_driver_waker_def mark_nudged_def Let_def tells_def)

lemma silent_files [simp]: "silent (set_file f st d) d' = silent d d'"
  by (simp add: set_file_def silent_def)

lemma tells_set_file [simp]: "tells (set_file f st d) ws d' = tells d ws d'"
  by (simp add: set_file_def tells_def)

lemma tells_sequential:
  assumes inv: "driver_inv d" and r: "start_sequential ft f b start d = Some (so, ws, d')"
    and start: "\<And>n g d1 fut ws d2. \<lbrakk>driver_inv d1; start n g d1 = Some (fut, ws, d2)\<rbrakk> \<Longrightarrow> tells d1 ws d2"
  shows "tells d ws d'"
  using r
proof (cases rule: start_sequential_cases)
  case (refused st e)
  then show ?thesis by (simp add: set_file_def silent_tells)
next
  case (passed st fut)
  have "driver_inv (set_file f st d)"
    using client_ok_inv [OF client_ok_files [OF inv]] by (simp add: set_file_def)
  from start [OF this passed(1)] show ?thesis by simp
qed

lemma tells_file_read: "\<lbrakk>driver_inv d; file_read P ft f b len d = Some (so, ws, d')\<rbrakk> \<Longrightarrow> tells d ws d'"
  unfolding file_read_def by (erule tells_sequential) (auto intro: tells_read)

lemma tells_file_write: "\<lbrakk>driver_inv d; file_write P ft f b len d = Some (so, ws, d')\<rbrakk> \<Longrightarrow> tells d ws d'"
  unfolding file_write_def by (erule tells_sequential) (auto intro: tells_write)

lemma tells_polled: "polled_to d d' \<Longrightarrow> tells d ws d'"
proof (rule silent_tells)
  have "silent d (snd (snd (poll_resolution w f d)))" for w f
    by (simp add: silent_def poll_resolution_def split: option.split prod.split)
  then show "polled_to d d' \<Longrightarrow> silent d d'"
    by (auto simp: polled_to_def set_cursor_def set_file_def)
qed

lemma client_step_tells:
  assumes "client_step P d ws d'" "driver_inv d" shows "tells d ws d'"
  using assms
proof (induction rule: client_step.induct)
  case (cs_cancel d t)
  then show ?case using tells_request_cancel [OF cs_cancel, of d P t]
    by (simp add: handle_cancel_def split_def Let_def take_driver_waker_def driver_invD(1))
next
  case (cs_check_out alive me index d res d')
  then show ?case
    by (auto simp: check_out_def intro!: silent_tells split: if_splits option.splits)
next
  case (cs_shutdown_poll d w sf)
  show ?case
    by (rule silent_tells)
      (simp add: silent_def shutdown_complete_poll_def Let_def split_def split: option.split)
next
  case (cs_shutdown_drop d borrowed sf)
  show ?case
    by (rule silent_tells) (simp add: silent_def shutdown_complete_drop_def split: option.split)
next
  case (cs_poll d w f)
  show ?case
    by (rule silent_tells) (simp add: silent_def poll_resolution_def split: option.split prod.split)
next
  case (cs_seq_read_poll w so d r so' d')
  then show ?case using tells_polled sequential_read_poll_to by blast
next
  case (cs_seq_write_poll w wso d r wso' d')
  then show ?case using tells_polled sequential_write_poll_to by blast
next
  case (cs_set_cursor d f n)
  then show ?case by (simp add: set_cursor_def set_file_def silent_tells)
qed (simp_all add: tells_read tells_write tells_file_read tells_file_write tells_flush tells_register_buffers tells_register_files
      tells_registered_op tells_drop handle_shutdown_def handle_shutdown_now_def tells_escalate silent_tells)

end
