(* ===== verification/World.thy ===== *)
theory World
  imports Wakeups
begin

text \<open>
  The driver in its world: the coroutine of \<open>drive\<close>, the task that polls it, the armed wait on
  the completion event, the clients and the kernel, one step at a time and in any order.

  Every call of a client, every callback of the thread pool and every resumption of the
  coroutine runs under the borrow of the driver and is one step. The blocking teardown of
  \<open>Drop for Driver\<close> is the same drain and close, entered with the immediate shutdown mode.
\<close>

section \<open>Worlds and their steps\<close>

text \<open>
  \<open>w_task\<close> is the waker of the task that polled \<open>drive\<close> last, and \<open>w_woken\<close> says whether
  it was woken since. The log of a step holds the completions it popped.
\<close>

record 'k world =
  w_driver :: "'k driver"
  w_armed :: armed_state
  w_pc :: drive_pc
  w_task :: waker
  w_woken :: bool

definition resume_log :: "'k platform \<Rightarrow> drive_pc \<Rightarrow> 'k driver \<Rightarrow> cqe list \<Rightarrow> bool" where
  "resume_log P pc d cs \<longleftrightarrow>
     (case pc of
        PcPass \<Rightarrow> \<exists>ws d'. reaps P (submit_pending P d) cs ws d'
      | PcDrain n \<Rightarrow> if torn_down d then cs = [] else \<exists>ws d'. reaps P (drain_prepared P d) cs ws d'
      | _ \<Rightarrow> cs = [])"

inductive world_step :: "'k platform \<Rightarrow> 'k world \<Rightarrow> cqe list \<Rightarrow> 'k world \<Rightarrow> bool"
  for P :: "'k platform" where
  ws_client: "client_step P (w_driver w) ws d'
    \<Longrightarrow> world_step P w [] (w\<lparr>w_driver := d', w_woken := w_woken w \<or> w_task w \<in> set ws\<rparr>)"
| ws_signal: "armed_callback (w_armed w) = (wk, s')
    \<Longrightarrow> world_step P w [] (w\<lparr>w_armed := s', w_woken := w_woken w \<or> wk = Some (w_task w)\<rparr>)"
| ws_resume: "\<lbrakk>drive_resume P t (w_pc w) (w_driver w, w_armed w) = Some (pc', ws, rs, d', s');
     resume_log P (w_pc w) (w_driver w) cs\<rbrakk>
    \<Longrightarrow> world_step P w cs \<lparr>w_driver = d', w_armed = s', w_pc = pc', w_task = t, w_woken = (t \<in> set ws)\<rparr>"
| ws_drive_drop: "drive_drop borrowed (w_pc w) (w_driver w, w_armed w) = (pc', d', s')
    \<Longrightarrow> world_step P w [] (w\<lparr>w_driver := d', w_armed := s', w_pc := pc'\<rparr>)"
| ws_driver_drop: "w_pc w = PcIdle
    \<Longrightarrow> world_step P w [] (w\<lparr>w_driver := (w_driver w)\<lparr>shutdown := max (shutdown (w_driver w)) Immediate\<rparr>,
                              w_pc := PcDrain 0\<rparr>)"

inductive world_run :: "'k platform \<Rightarrow> 'k world \<Rightarrow> cqe list \<Rightarrow> 'k world \<Rightarrow> bool"
  for P :: "'k platform" where
  run_refl: "world_run P w [] w"
| run_step: "\<lbrakk>world_step P w cs w1; world_run P w1 cs' w'\<rbrakk> \<Longrightarrow> world_run P w (cs @ cs') w'"

inductive_cases world_run_nilE: "world_run P w [] w'"

definition world_initial :: "'k driver \<Rightarrow> waker \<Rightarrow> 'k world" where
  "world_initial d t = \<lparr>w_driver = d, w_armed = armed_state_new, w_pc = PcIdle, w_task = t, w_woken = False\<rparr>"

section \<open>The invariant\<close>

text \<open>Whatever the driver still has to do, it has been nudged about.\<close>

definition nudge_owed :: "'k driver \<Rightarrow> bool" where
  "nudge_owed d \<longleftrightarrow> (pending_submit d \<longrightarrow> nudged d) \<and> (shutdown d \<noteq> Running \<longrightarrow> nudged d)"

text \<open>The driving task sleeps with its waker in both places that can wake it.\<close>

definition asleep :: "'k world \<Rightarrow> bool" where
  "asleep w \<longleftrightarrow> \<not> nudged (w_driver w) \<and> driver_waker (w_driver w) = Some (w_task w) \<and>
     \<not> as_signalled (w_armed w) \<and> as_waker (w_armed w) = Some (w_task w)"

definition pc_ok :: "'k world \<Rightarrow> bool" where
  "pc_ok w \<longleftrightarrow>
     (case w_pc w of
        PcPark \<Rightarrow> nudge_owed (w_driver w)
      | PcParked \<Rightarrow> nudge_owed (w_driver w) \<and> (w_woken w \<or> asleep w)
      | PcDrain n \<Rightarrow> shutdown (w_driver w) \<noteq> Running
      | PcDrainYield n \<Rightarrow> shutdown (w_driver w) \<noteq> Running
      | PcClose \<Rightarrow> shutdown (w_driver w) \<noteq> Running \<and> kernel_idle (w_driver w)
      | PcDone \<Rightarrow> torn_down (w_driver w)
      | _ \<Rightarrow> True)"

definition world_inv :: "'k world \<Rightarrow> bool" where
  "world_inv w \<longleftrightarrow> driver_inv (w_driver w) \<and> pc_ok w"

lemma tells_owed:
  assumes t: "tells d ws d'" and o: "nudge_owed d" shows "nudge_owed d'"
proof -
  have "nudged d'" if "shutdown d' \<noteq> Running"
    using t o that by (cases "shutdown d' = shutdown d") (auto simp: tells_def nudge_owed_def)
  with t o show ?thesis by (auto simp: tells_def nudge_owed_def)
qed

lemma mode_up: "\<lbrakk>(m :: shutdown_mode) \<le> m'; m \<noteq> Running\<rbrakk> \<Longrightarrow> m' \<noteq> Running"
  by (cases m; cases m') auto

lemma client_world_inv:
  assumes inv: "world_inv w" and c: "client_step P (w_driver w) ws d'"
  shows "world_inv (w\<lparr>w_driver := d', w_woken := w_woken w \<or> w_task w \<in> set ws\<rparr>)"
proof -
  from inv have d: "driver_inv (w_driver w)" by (simp add: world_inv_def)
  note ok = client_step_ok [OF c d] and t = client_step_tells [OF c d]
  have sd: "shutdown d' \<noteq> Running" if "shutdown (w_driver w) \<noteq> Running"
    using ok that mode_up by (auto simp: client_ok_def)
  have "\<not> nudged d' \<and> driver_waker d' = Some (w_task w)"
    if "asleep w" "w_task w \<notin> set ws"
    using that t by (auto simp: asleep_def tells_def option_list_def)
  then show ?thesis
    using inv ok sd tells_owed [OF t]
    by (auto simp: world_inv_def pc_ok_def client_ok_def asleep_def split: drive_pc.splits)
qed

lemma signal_world_inv:
  assumes "world_inv w" "armed_callback (w_armed w) = (wk, s')"
  shows "world_inv (w\<lparr>w_armed := s', w_woken := w_woken w \<or> wk = Some (w_task w)\<rparr>)"
  using assms by (auto simp: world_inv_def pc_ok_def asleep_def armed_callback_def split: drive_pc.splits)

section \<open>Resuming the coroutine\<close>

lemma keeps_nudge: "driver_inv d \<Longrightarrow> keeps d (d\<lparr>nudged := b, driver_waker := x\<rparr>)"
  by (rule keeps_quiet) (simp_all add: cells_kept_same regs_kept_same)

lemma park_poll_spec:
  assumes "park_poll w (d, s) = (p, d', s')"
  shows "\<exists>x. d' = d\<lparr>nudged := False, driver_waker := x\<rparr>"
    "p = PollPending \<Longrightarrow> \<not> nudged d \<and> \<not> as_signalled s' \<and> as_waker s' = Some w \<and> driver_waker d' = Some w"
  using assms
  by (cases "nudged d"; cases "as_signalled s";
      force simp: park_poll_def take_nudge_def take_driver_waker_def poll_signalled_def)+

inductive_cases reaps_popE: "reaps P d cs ws d'"

lemma reaps_det:
  "\<lbrakk>reaps P d cs ws d'; reaps P d cs2 ws2 d2\<rbrakk> \<Longrightarrow> cs2 = cs \<and> ws2 = ws \<and> d2 = d'"
proof (induction arbitrary: cs2 ws2 d2 rule: reaps.induct)
  case (reaps_next d c k ws d1 cs ws' d')
  from reaps_next.prems reaps_next.hyps(1,2) obtain cs3 ws3 where
    "cs2 = c # cs3" "ws2 = ws @ ws3" "reaps P d1 cs3 ws3 d2"
    by (auto elim: reaps_popE)
  with reaps_next.IH show ?case by blast
qed (auto elim: reaps_popE)

text \<open>What a resumption does to the operations: it takes out those whose completions it pops.\<close>

definition resumed :: "'k driver \<Rightarrow> cqe list \<Rightarrow> 'k driver \<Rightarrow> bool" where
  "resumed d cs d' \<longleftrightarrow> driver_inv d' \<and> shutdown d \<le> shutdown d' \<and> torn_down d' = torn_down d \<and>
     live_payloads d' = (\<lambda>k. if \<exists>c \<in> set cs. names k c then None else live_payloads d k)"

lemma resumed_keeps: "keeps d d' \<Longrightarrow> resumed d [] d'"
  by (simp add: resumed_def keeps_def retains_def)

lemma drive_pass_resumed:
  assumes inv: "driver_inv d" and r: "drive_pass P d = Some (pr, d')"
    and l: "reaps P (submit_pending P d) cs ws1 d1"
  shows "resumed d cs d'" "pr_shutting_down pr = (shutdown d' \<noteq> Running)"
    "pr_retry_owed pr = pending_submit d'"
proof -
  have "reap_completions P (submit_pending P d) = Some (ws1, d1)"
    using l by (auto simp: reap_completions_reaps)
  with r have d': "d' = snd (take_reports d1)" "pr_shutting_down pr = (shutdown d' \<noteq> Running)"
      "pr_retry_owed pr = pending_submit d'"
    by (auto simp: drive_pass_def split: prod.splits)
  note k = keeps_submit_pending [OF inv, of P]
  note rk = reaps_keeps [OF l keeps_inv [OF k]]
  have t: "keeps d1 d'" using rk by (simp add: d'(1) keeps_take_reports)
  have "shutdown d \<le> shutdown d1" using k rk by (simp add: keeps_def)
  moreover have "shutdown d1 \<le> shutdown d'" using t by (simp add: keeps_def)
  ultimately have "shutdown d \<le> shutdown d'" by (rule order_trans)
  moreover have "live_payloads (submit_pending P d) = live_payloads d"
    using k by (simp add: keeps_def retains_def)
  note live = this
  have "live_payloads d' = (\<lambda>k. if \<exists>c \<in> set cs. names k c then None else live_payloads d k)"
    using rk t unfolding live by (simp add: keeps_def retains_def)
  ultimately show "resumed d cs d'"
    using k rk t unfolding resumed_def keeps_def by simp
  show "pr_shutting_down pr = (shutdown d' \<noteq> Running)" "pr_retry_owed pr = pending_submit d'"
    by (rule d'(2,3))+
qed

lemma teardown_step_resumed:
  assumes inv: "driver_inv d" and r: "teardown_step P n d = Some (out, n', ws, rs, d')"
    and l: "reaps P (drain_prepared P d) cs ws1 d1"
  shows "resumed d cs d'" "out \<noteq> Progressing \<Longrightarrow> kernel_idle d'"
proof -
  have "resumed d cs d' \<and> (out \<noteq> Progressing \<longrightarrow> kernel_idle d')"
  proof (rule teardown_step_keeps [OF inv r])
    fix cs2 d2
    assume k: "reaps P (drain_prepared P d) cs2 ws d2" "driver_inv d'"
      "live_payloads d' = (\<lambda>k. if \<exists>c \<in> set cs2. names k c then None else live_payloads d k)"
      "torn_down d' = torn_down d" "shutdown d \<le> shutdown d'" "out \<noteq> Progressing \<longrightarrow> kernel_idle d'"
    have "cs2 = cs" using reaps_det [OF l k(1)] by blast
    with k(2-6) show ?thesis unfolding resumed_def by blast
  qed
  then show "resumed d cs d'" "out \<noteq> Progressing \<Longrightarrow> kernel_idle d'" by blast+
qed

lemma park_resumed:
  assumes inv: "driver_inv d" and p: "park_poll t (d, s) = (r, d1, s1)"
  shows "keeps d d1" "park_drop False (d1, s1) = (d2, s2) \<Longrightarrow> keeps d d2"
proof -
  from park_poll_spec(1) [OF p] obtain x where d1: "d1 = d\<lparr>nudged := False, driver_waker := x\<rparr>" ..
  show "keeps d d1" unfolding d1 by (rule keeps_nudge [OF inv])
  show "keeps d d2" if "park_drop False (d1, s1) = (d2, s2)"
  proof -
    have "d2 = d\<lparr>nudged := False, driver_waker := None\<rparr>"
      using that by (auto simp: park_drop_def take_driver_waker_def d1)
    then show ?thesis by (simp add: keeps_nudge [OF inv])
  qed
qed

text \<open>One resumption, whatever the coroutine was at.\<close>

lemma drive_resume_cases:
  assumes inv: "world_inv w"
    and r: "drive_resume P t (w_pc w) (w_driver w, w_armed w) = Some (pc', ws, rs, d', s')"
    and l: "resume_log P (w_pc w) (w_driver w) cs"
  obtains (run) "w_pc w \<noteq> PcClose" "resumed (w_driver w) cs d'"
      "pc_ok \<lparr>w_driver = d', w_armed = s', w_pc = pc', w_task = t, w_woken = (t \<in> set ws)\<rparr>"
    | (close) "w_pc w = PcClose" "cs = []" "pc' = PcDone" "driver_inv d'" "torn_down d'"
        "live_payloads d' = Map.empty" "kernel_idle (w_driver w)"
proof -
  let ?d = "w_driver w" and ?s = "w_armed w"
  let ?w' = "\<lparr>w_driver = d', w_armed = s', w_pc = pc', w_task = t, w_woken = (t \<in> set ws)\<rparr>"
  from inv have d: "driver_inv ?d" and ok: "pc_ok w" by (simp_all add: world_inv_def)
  have stay: "resumed ?d [] ?d" by (rule resumed_keeps [OF keeps_refl [OF d]])
  have park: "resumed ?d [] d' \<and> pc_ok ?w'"
    if p: "(case park_poll t (?d, ?s) of
        (PollReady, d', s') \<Rightarrow> (case park_drop False (d', s') of (d'', s'') \<Rightarrow> Some (PcPass, [], [], d'', s''))
      | (PollPending, d', s') \<Rightarrow> Some (PcParked, [], [], d', s')) = Some (pc', ws, rs, d', s')"
      and o: "nudge_owed ?d"
  proof -
    obtain res d1 s1 where pp: "park_poll t (?d, ?s) = (res, d1, s1)" by (cases "park_poll t (?d, ?s)")
    note k = park_resumed [OF d pp]
    show ?thesis
    proof (cases res)
      case PollReady
      with p pp obtain d2 s2 where "park_drop False (d1, s1) = (d2, s2)" "d' = d2" "pc' = PcPass"
        by (auto split: prod.splits)
      with k(2) show ?thesis by (simp add: resumed_keeps pc_ok_def)
    next
      case PollPending
      with p pp have e: "d' = d1" "s' = s1" "pc' = PcParked" by auto
      from park_poll_spec [OF pp] PollPending obtain x where
        "d1 = ?d\<lparr>nudged := False, driver_waker := x\<rparr>" "\<not> nudged ?d" "\<not> as_signalled s1"
        "as_waker s1 = Some t" "driver_waker d1 = Some t" by blast
      with o have "pc_ok ?w'" by (simp add: e pc_ok_def asleep_def nudge_owed_def)
      with k(1) show ?thesis by (simp add: e resumed_keeps)
    qed
  qed
  show thesis
  proof (cases "w_pc w")
    case PcPass
    with l obtain ws1 d1 where l1: "reaps P (submit_pending P ?d) cs ws1 d1" by (auto simp: resume_log_def)
    from r PcPass obtain pr where pr: "drive_pass P ?d = Some (pr, d')"
      "pc' = (if pr_shutting_down pr then PcDrain 0 else if pr_retry_owed pr then PcYield else PcPark)"
      by (auto simp: drive_resume_def split: option.splits)
    note p = drive_pass_resumed [OF d pr(1) l1]
    have "pc_ok ?w'" using p(2,3) by (simp add: pc_ok_def pr(2) nudge_owed_def)
    with PcPass p(1) show thesis by (intro run) simp_all
  next
    case PcPark
    with r l ok park show thesis by (intro run) (simp_all add: drive_resume_def resume_log_def pc_ok_def)
  next
    case PcParked
    with r l ok park show thesis by (intro run) (simp_all add: drive_resume_def resume_log_def pc_ok_def)
  next
    case (PcDrain n)
    show thesis
    proof (cases "torn_down ?d")
      case True
      with PcDrain r l have "cs = []" "d' = ?d" "pc' = PcDone"
        by (simp_all add: drive_resume_def resume_log_def)
      with True PcDrain stay show thesis by (intro run) (simp_all add: pc_ok_def)
    next
      case False
      with PcDrain l obtain ws1 d1 where l1: "reaps P (drain_prepared P ?d) cs ws1 d1"
        by (auto simp: resume_log_def)
      from r PcDrain False obtain out n' where ts: "teardown_step P n ?d = Some (out, n', ws, rs, d')"
        "pc' = (if out = Progressing then PcDrainYield n' else PcClose)"
        by (auto simp: drive_resume_def split: option.splits)
      note t = teardown_step_resumed [OF d ts(1) l1]
      have "shutdown d' \<noteq> Running"
        using t(1) ok PcDrain mode_up by (auto simp: resumed_def pc_ok_def)
      with t ts(2) have "pc_ok ?w'" by (simp add: pc_ok_def)
      with PcDrain t(1) show thesis by (intro run) simp_all
    qed
  next
    case PcClose
    with r have tf: "teardown_finish P ?d = Some (ws, rs, d')" and pc': "pc' = PcDone"
      by (auto simp: drive_resume_def split: option.splits)
    from ok PcClose have sd: "shutdown ?d \<noteq> Running" "kernel_idle ?d" by (simp_all add: pc_ok_def)
    from teardown_finish_closes [OF d sd(1) tf] PcClose pc' sd(2) l show thesis
      by (intro close) (simp_all add: resume_log_def)
  next
    case (PcDrainYield n)
    with r l ok stay show thesis by (intro run) (auto simp: drive_resume_def resume_log_def pc_ok_def)
  next
    case PcDone
    with r l ok stay show thesis by (intro run) (auto simp: drive_resume_def resume_log_def pc_ok_def)
  qed (use r l stay in \<open>auto intro!: run simp: drive_resume_def resume_log_def pc_ok_def\<close>)
qed

section \<open>Every step keeps the invariant\<close>

lemma keeps_drop_mode:
  "driver_inv d \<Longrightarrow> keeps d (d\<lparr>shutdown := max (shutdown d) Immediate\<rparr>)"
  by (rule keeps_quiet) (simp_all add: cells_kept_same regs_kept_same max_def)

lemma keeps_drive_drop:
  assumes "driver_inv d" "drive_drop borrowed pc (d, s) = (pc', d', s')" shows "keeps d d'" "pc' = PcIdle"
proof -
  have "d' = d \<or> d' = snd (take_driver_waker d)"
    using assms(2) by (auto simp: drive_drop_def park_drop_def split: if_splits)
  moreover have "keeps d (snd (take_driver_waker d))"
    by (rule keeps_quiet [OF assms(1)]) (simp_all add: take_driver_waker_def cells_kept_same regs_kept_same)
  ultimately show "keeps d d'" using keeps_refl [OF assms(1)] by blast
  show "pc' = PcIdle" using assms(2) by (simp add: drive_drop_def)
qed

lemma world_step_inv:
  assumes "world_step P w cs w'" "world_inv w" shows "world_inv w'"
  using assms
proof (cases rule: world_step.cases)
  case (ws_client ws d')
  with assms(2) client_world_inv show ?thesis by simp
next
  case (ws_signal wk s')
  with assms(2) signal_world_inv show ?thesis by simp
next
  case (ws_resume t pc' ws rs d' s')
  from assms(2) ws_resume(2,3) show ?thesis
    by (cases rule: drive_resume_cases) (simp_all add: ws_resume(1) world_inv_def resumed_def pc_ok_def)
next
  case (ws_drive_drop borrowed pc' d' s')
  with assms(2) keeps_drive_drop [OF _ ws_drive_drop(3)] show ?thesis
    by (simp add: world_inv_def pc_ok_def keeps_def)
next
  case ws_driver_drop
  with assms(2) keeps_drop_mode [of "w_driver w"] show ?thesis
    by (simp add: world_inv_def pc_ok_def keeps_def max_def)
qed

lemma world_run_inv: "\<lbrakk>world_run P w cs w'; world_inv w\<rbrakk> \<Longrightarrow> world_inv w'"
  by (induction rule: world_run.induct) (auto intro: world_step_inv)

end
