(* ===== verification/Driver_Total.thy ===== *)
theory Driver_Total
  imports World
begin

text \<open>
  The loops of the driver end, and its two teardowns are one.

  The reap loop ends when the platform's completion queue is finite, so a pass and a drain
  step always return. The blocking loop of \<open>Drop for Driver\<close> and the steps the coroutine of
  \<open>drive\<close> takes once it is draining do the same work in the same order.
\<close>

section \<open>Reaping ends\<close>

lemma adopt_registration_kern: "adopt_registration q d = Some (r, d') \<Longrightarrow> kern d' = kern d"
  by (auto simp: adopt_registration_def Let_def split: pending_registration.splits option.splits)

lemma settle_registration_kern: "settle_registration res q b d = Some (b', d') \<Longrightarrow> kern d' = kern d"
  by (auto simp: settle_registration_def Let_def dest!: adopt_registration_kern
      split: option.splits pending_registration.splits sum.splits)

lemma reap_one_kern:
  assumes "reap_one c d = Some (ws, d')" shows "kern d' = kern d"
proof -
  have "kern d' = kern d" if "reap_operation c t d = Some (ws, d')" for t
    using that
    by (auto simp: reap_operation_def Let_def split_def dest!: settle_registration_kern
        split: option.splits prod.splits)
  with assms show ?thesis by (auto simp: reap_one_def reap_cancel_def Let_def split: if_splits)
qed

text \<open>No completion makes the driver panic, whatever it names.\<close>

lemma reap_one_total:
  assumes inv: "driver_inv d" obtains ws d' where "reap_one c d = Some (ws, d')"
proof (cases "token_kind (from_user_data (cqe_user_data c))")
  case Cancel
  then show thesis by (intro that) (simp add: reap_one_def)
next
  case Operation
  let ?t = "from_user_data (cqe_user_data c)"
  have eq: "reap_one c d = reap_operation c ?t d" by (simp add: reap_one_def Operation)
  show thesis
  proof (cases "live_payloads d (token_key ?t)")
    case None
    with reap_dead [OF inv Operation None, of c] show thesis by (intro that) (simp add: eq)
  next
    case (Some p)
    from inv Operation Some show thesis
      by (rule reap_live [where c = c]) (use that eq in auto)
  qed
qed

text \<open>The platform's queue of completions is finite: each one popped leaves fewer.\<close>

definition finite_queue :: "'k platform \<Rightarrow> ('k \<Rightarrow> nat) \<Rightarrow> bool" where
  "finite_queue P queue \<longleftrightarrow> (\<forall>h k. fst (fst (PopIoRingCompletion P h k)) = S_OK \<longrightarrow>
     queue (snd (PopIoRingCompletion P h k)) < queue k)"

lemma pop_completion_queue:
  assumes "finite_queue P queue" "pop_completion P r k = (Inr (Some c), k')"
  shows "queue k' < queue k"
proof -
  obtain hr out k2 where p: "PopIoRingCompletion P (ring_handle r) k = ((hr, out), k2)"
    by (cases "PopIoRingCompletion P (ring_handle r) k") auto
  with assms(2) have "hr = S_OK" "k' = k2"
    by (auto simp: pop_completion_def ensure_open_def split: if_splits)
  with assms(1) p show ?thesis unfolding finite_queue_def by (metis fst_conv snd_conv)
qed

lemma reaps_exists:
  assumes q: "finite_queue P queue" and inv: "driver_inv d"
  shows "\<exists>cs ws d'. reaps P d cs ws d' \<and> length cs \<le> queue (kern d)"
  using inv
proof (induction "queue (kern d)" arbitrary: d rule: less_induct)
  case less
  obtain res k where pop: "pop_completion P (ring d) (kern d) = (res, k)"
    by (cases "pop_completion P (ring d) (kern d)")
  consider (err) e where "res = Inl e" | (none) "res = Inr None" | (one) c where "res = Inr (Some c)"
    by (cases res; cases "projr res") auto
  then show ?case
  proof cases
    case err
    with reaps_error [of P d e k] pop show ?thesis by fastforce
  next
    case none
    with reaps_empty [of P d k] pop show ?thesis by fastforce
  next
    case (one c)
    let ?d = "d\<lparr>kern := k\<rparr>"
    have inv1: "driver_inv ?d" using keeps_inv [OF keeps_kern [OF less.prems]] .
    obtain ws d1 where o: "reap_one c ?d = Some (ws, d1)" using reap_one_total [OF inv1] .
    have k1: "kern d1 = k" using reap_one_kern [OF o] by simp
    have lt: "queue k < queue (kern d)" using pop_completion_queue [OF q] pop one by simp
    obtain cs ws' d' where "reaps P d1 cs ws' d'" "length cs \<le> queue k"
      using less.hyps [of d1] lt k1 reap_one_step(1) [OF inv1 o] by auto
    with reaps_next [of P d c k ws d1 cs ws' d'] pop one o lt show ?thesis
      by (intro exI [of _ "c # cs"]) auto
  qed
qed

lemma reap_completions_total:
  assumes "finite_queue P queue" "driver_inv d" shows "reap_completions P d \<noteq> None"
proof -
  from reaps_exists [OF assms] obtain cs ws d' where "reaps P d cs ws d'" by blast
  then have "reap_completions P d = Some (ws, d')" by (auto simp: reap_completions_reaps)
  then show ?thesis by simp
qed

section \<open>One teardown\<close>

text \<open>The coroutine resumed again and again, with nothing else in between.\<close>

fun drive_iterate ::
    "'k platform \<Rightarrow> waker \<Rightarrow> nat \<Rightarrow> drive_pc \<Rightarrow> 'k driver \<times> armed_state
      \<Rightarrow> (drive_pc \<times> waker list \<times> runtime_error list \<times> 'k driver \<times> armed_state) option" where
  "drive_iterate P t 0 pc st = Some (pc, [], [], st)"
| "drive_iterate P t (Suc m) pc st =
     (case drive_resume P t pc st of
        None \<Rightarrow> None
      | Some (pc1, ws1, rs1, st1) \<Rightarrow>
          (case drive_iterate P t m pc1 st1 of
             None \<Rightarrow> None
           | Some (pc2, ws2, rs2, st2) \<Rightarrow> Some (pc2, ws1 @ ws2, rs1 @ rs2, st2)))"

lemma drive_iterate_done: "drive_iterate P t m PcDone (d, s) = Some (PcDone, [], [], d, s)"
  by (induction m) (simp_all add: drive_resume_def)

lemma teardown_step_up:
  assumes "driver_inv d" "teardown_step P n d = Some (out, n', ws, rs, d')"
  shows "driver_inv d'" "torn_down d' = torn_down d"
  by (rule teardown_step_keeps [OF assms]; simp)+

lemma drop_loop_iterates:
  assumes "driver_drop_loop P n ws0 rs0 d = Some r" "driver_inv d" "\<not> torn_down d"
  shows "\<exists>m ws rs d'. r = (ws0 @ ws, rs0 @ rs, d') \<and>
    drive_iterate P t m (PcDrain n) (d, s) = Some (PcDone, ws, rs, d', s)"
proof -
  define Q where "Q = (\<lambda>((((P :: 'a platform, n :: u32), ws0 :: waker list), rs0 :: runtime_error list), d)
    (r :: waker list \<times> runtime_error list \<times> 'a driver).
    driver_inv d \<longrightarrow> \<not> torn_down d \<longrightarrow> (\<exists>m ws rs d'. r = (ws0 @ ws, rs0 @ rs, d') \<and>
      drive_iterate P t m (PcDrain n) (d, s) = Some (PcDone, ws, rs, d', s)))"
  have "Q ((((P, n), ws0), rs0), d) r"
  proof (rule driver_drop_loop.raw_induct [OF _ assms(1)])
    fix loop :: "'a platform \<Rightarrow> u32 \<Rightarrow> waker list \<Rightarrow> runtime_error list \<Rightarrow> 'a driver
        \<Rightarrow> (waker list \<times> runtime_error list \<times> 'a driver) option" and P n ws0 rs0 d r
    assume ih: "\<And>P n ws rs d r. loop P n ws rs d = Some r \<Longrightarrow> Q ((((P, n), ws), rs), d) r"
      and r: "(case teardown_step P n d of None \<Rightarrow> None
        | Some (outcome, n', ws1, rs1, d1) \<Rightarrow>
            if outcome \<noteq> Progressing then
              (case teardown_finish P d1 of None \<Rightarrow> None
               | Some (ws', rs', d2) \<Rightarrow> Some (ws0 @ ws1 @ ws', rs0 @ rs1 @ rs', d2))
            else loop P n' (ws0 @ ws1) (rs0 @ rs1) d1) = Some r"
    show "Q ((((P, n), ws0), rs0), d) r"
      unfolding Q_def prod.case
    proof (intro impI)
      assume inv: "driver_inv d" and up: "\<not> torn_down d"
      from r obtain out n' ws1 rs1 d1 where ts: "teardown_step P n d = Some (out, n', ws1, rs1, d1)"
        by (cases "teardown_step P n d") auto
      note k = teardown_step_up [OF inv ts]
      show "\<exists>m ws rs d'. r = (ws0 @ ws, rs0 @ rs, d') \<and>
        drive_iterate P t m (PcDrain n) (d, s) = Some (PcDone, ws, rs, d', s)"
      proof (cases "out = Progressing")
        case True
        with r ts have "loop P n' (ws0 @ ws1) (rs0 @ rs1) d1 = Some r" by simp
        from ih [OF this] k up obtain m ws rs d' where
          m: "r = ((ws0 @ ws1) @ ws, (rs0 @ rs1) @ rs, d')"
          "drive_iterate P t m (PcDrain n') (d1, s) = Some (PcDone, ws, rs, d', s)"
          by (auto simp: Q_def)
        have "drive_iterate P t (Suc (Suc m)) (PcDrain n) (d, s) = Some (PcDone, ws1 @ ws, rs1 @ rs, d', s)"
          using up ts True m(2) by (simp add: drive_resume_def)
        with m(1) show ?thesis by (intro exI [of _ "Suc (Suc m)"]) simp
      next
        case False
        with r ts obtain ws' rs' d2 where f: "teardown_finish P d1 = Some (ws', rs', d2)"
          "r = (ws0 @ ws1 @ ws', rs0 @ rs1 @ rs', d2)"
          by (auto split: option.splits)
        have "drive_iterate P t (Suc (Suc 0)) (PcDrain n) (d, s) = Some (PcDone, ws1 @ ws', rs1 @ rs', d2, s)"
          using up ts False f(1) by (simp add: drive_resume_def)
        with f(2) show ?thesis by (intro exI [of _ "Suc (Suc 0)"]) simp
      qed
    qed
  qed
  with assms(2,3) show ?thesis by (simp add: Q_def)
qed

lemma iterates_drop_loop:
  assumes "drive_iterate P t m (PcDrain n) (d, s) = Some (PcDone, ws, rs, d', s')"
    "driver_inv d" "\<not> torn_down d"
  shows "driver_drop_loop P n ws0 rs0 d = Some (ws0 @ ws, rs0 @ rs, d') \<and> s' = s"
  using assms
proof (induction m arbitrary: n ws0 rs0 d ws rs rule: less_induct)
  case (less m)
  show ?case
  proof (cases m)
    case 0
    with less.prems(1) show ?thesis by simp
  next
    case (Suc m1)
    from less.prems(1,3) Suc obtain out n' ws1 rs1 d1 where ts: "teardown_step P n d = Some (out, n', ws1, rs1, d1)"
      by (cases "teardown_step P n d") (auto simp: drive_resume_def)
    note k = teardown_step_up [OF less.prems(2) ts]
    show ?thesis
    proof (cases "out = Progressing")
      case True
      with less.prems(1,3) Suc ts obtain m2 ws2 rs2 where m2: "m1 = Suc m2"
        "drive_iterate P t m2 (PcDrain n') (d1, s) = Some (PcDone, ws2, rs2, d', s')"
        "ws = ws1 @ ws2" "rs = rs1 @ rs2"
        by (cases m1) (auto simp: drive_resume_def split: option.splits)
      from less.IH [OF _ m2(2) k(1), of "ws0 @ ws1" "rs0 @ rs1"] k(2) less.prems(3) Suc m2(1)
      have "driver_drop_loop P n' (ws0 @ ws1) (rs0 @ rs1) d1 = Some ((ws0 @ ws1) @ ws2, (rs0 @ rs1) @ rs2, d') \<and> s' = s"
        by simp
      with True ts m2(3,4) show ?thesis by (subst driver_drop_loop.simps) simp
    next
      case False
      with less.prems(1,3) Suc ts obtain m2 ws2 rs2 d2 where m2: "m1 = Suc m2"
        "teardown_finish P d1 = Some (ws2, rs2, d2)"
        by (cases m1; cases "teardown_finish P d1") (auto simp: drive_resume_def split: option.splits)
      with False less.prems(1,3) Suc ts have "ws = ws1 @ ws2" "rs = rs1 @ rs2" "d' = d2" "s' = s"
        by (auto simp: drive_resume_def drive_iterate_done)
      with False ts m2(2) show ?thesis by (subst driver_drop_loop.simps) simp
    qed
  qed
qed

end
