(* ===== verification/Driver_Props.thy ===== *)
theory Driver_Props
  imports Driver_Total
begin

text \<open>
  What the driver promises, over every run: the properties of the runtime as a whole, each a
  few steps over the lemmas of the theories below, with the runs that show they are not empty.
\<close>

section \<open>Reachable worlds\<close>

text \<open>A world is reachable when a run leads to it from a driver over an open ring and files just opened.\<close>

definition reachable :: "'k platform \<Rightarrow> 'k world \<Rightarrow> bool" where
  "reachable P w \<longleftrightarrow> (\<exists>r h k t cs. \<not> ring_closed r \<and>
     world_run P (world_initial (driver_initial r (\<lambda>f. file_state_new (h f)) k) t) cs w)"

lemma new_slab_view [simp]: "slab_view slab_new = Map.empty"
  by (simp add: fun_eq_iff slab_view_def slab_new_def)

lemma initial_inv: "\<not> ring_closed r \<Longrightarrow> driver_inv (driver_initial r fs k)"
  by (simp add: driver_inv_def driver_initial_def no_described_def built_owed_def cells_apart_def
      flight_flag_def live_payloads_def reg_sound_def run_new_wf [of "[]"])

lemma reachable_inv: "reachable P w \<Longrightarrow> world_inv w"
  unfolding reachable_def
  by (auto elim!: world_run_inv) (simp add: world_initial_def world_inv_def pc_ok_def initial_inv)

lemma world_run_trans: "\<lbrakk>world_run P a cs b; world_run P b cs' c\<rbrakk> \<Longrightarrow> world_run P a (cs @ cs') c"
  by (induction rule: world_run.induct) (auto intro: run_step)

lemma reachable_run: "\<lbrakk>reachable P w; world_run P w cs w'\<rbrakk> \<Longrightarrow> reachable P w'"
  unfolding reachable_def using world_run_trans by blast

section \<open>What a step does to the operations\<close>

definition survives :: "'k driver \<Rightarrow> cqe list \<Rightarrow> 'k driver \<Rightarrow> bool" where
  "survives d cs d' \<longleftrightarrow> shutdown d \<le> shutdown d' \<and> (torn_down d \<longrightarrow> torn_down d') \<and>
     (\<not> torn_down d' \<longrightarrow> (\<forall>k p. live_payloads d k = Some p \<longrightarrow> (\<forall>c \<in> set cs. \<not> names k c) \<longrightarrow>
        live_payloads d' k = Some p)) \<and>
     (shutdown d \<noteq> Running \<longrightarrow> live_payloads d' \<subseteq>\<^sub>m live_payloads d)"

lemma survives_keeps: "keeps d d' \<Longrightarrow> survives d [] d'"
  by (simp add: survives_def keeps_def retains_def)

lemma survivesD:
  assumes "survives d cs d'"
  shows "shutdown d \<le> shutdown d'" "torn_down d \<Longrightarrow> torn_down d'"
    "\<lbrakk>\<not> torn_down d'; live_payloads d k = Some p; \<forall>c \<in> set cs. \<not> names k c\<rbrakk> \<Longrightarrow> live_payloads d' k = Some p"
    "shutdown d \<noteq> Running \<Longrightarrow> live_payloads d' \<subseteq>\<^sub>m live_payloads d"
  using assms by (simp_all add: survives_def)

lemma survives_trans:
  assumes ab: "survives a cs b" and bc: "survives b cs' c" shows "survives a (cs @ cs') c"
  unfolding survives_def
proof (intro conjI impI allI)
  note ab = survivesD [OF ab] and bc = survivesD [OF bc]
  show "shutdown a \<le> shutdown c" using ab(1) bc(1) by (rule order_trans)
  show "torn_down c" if "torn_down a" using bc(2) [OF ab(2) [OF that]] .
  show "live_payloads c k = Some p"
    if "\<not> torn_down c" "live_payloads a k = Some p" "\<forall>x \<in> set (cs @ cs'). \<not> names k x" for k p
  proof (rule bc(3) [OF that(1)])
    show "live_payloads b k = Some p" by (rule ab(3)) (use that bc(2) in auto)
  qed (use that(3) in simp)
  show "live_payloads c \<subseteq>\<^sub>m live_payloads a" if sd: "shutdown a \<noteq> Running"
    using map_le_trans [OF bc(4) [OF mode_up [OF ab(1) sd]] ab(4) [OF sd]] .
qed

lemma restricted_le: "(\<lambda>k. if Q k then None else f k) \<subseteq>\<^sub>m f"
  by (simp add: map_le_def dom_def)

lemma map_leD: "\<lbrakk>f \<subseteq>\<^sub>m g; f k = Some p\<rbrakk> \<Longrightarrow> g k = Some p"
  unfolding map_le_def by (metis domI)

lemma teardown_finish_mode:
  assumes "teardown_finish P d = Some (ws, rs, d')" shows "shutdown d' = shutdown d"
proof -
  from assms obtain d1 where d1: "close_and_release P d = Some (ws, d1)" "d' = snd (take_reports d1)"
    by (auto simp: teardown_finish_def split: option.splits prod.splits)
  from d1(1) obtain ps ri k s ws1 d2 where "resolve_all ps ([], d\<lparr>ring := ri, kern := k, slab := s\<rparr>) = (ws1, d2)"
    "shutdown d1 = shutdown d2"
    by (auto simp: close_and_release_def Let_def split: option.splits prod.splits)
  from resolve_all_spec [OF this(1)] this(2) show ?thesis by (simp add: d1(2))
qed

lemma world_step_survives:
  assumes "world_step P w cs w'" "world_inv w"
  shows "survives (w_driver w) cs (w_driver w')"
  using assms
proof (cases rule: world_step.cases)
  case (ws_client ws d')
  from assms(2) have "client_ok (w_driver w) ws d'"
    by (intro client_step_ok [OF ws_client(3)]) (simp add: world_inv_def)
  then show ?thesis
    by (auto simp: ws_client(1,2) client_ok_def survives_def dest: map_leD)
next
  case (ws_signal wk s')
  then show ?thesis by (simp add: survives_def)
next
  case (ws_resume t pc' ws rs d' s')
  from assms(2) ws_resume(2,3) show ?thesis
  proof (cases rule: drive_resume_cases)
    case run
    then show ?thesis
      by (simp add: ws_resume(1) survives_def resumed_def restricted_le)
  next
    case close
    then have "shutdown (w_driver w) \<le> shutdown d'"
      using ws_resume(2) by (auto simp: drive_resume_def dest: teardown_finish_mode split: option.splits)
    with close show ?thesis by (simp add: ws_resume(1) survives_def)
  qed
next
  case (ws_drive_drop borrowed pc' d' s')
  with assms(2) keeps_drive_drop [OF _ ws_drive_drop(3)] show ?thesis
    by (simp add: world_inv_def survives_keeps)
next
  case ws_driver_drop
  with assms(2) keeps_drop_mode [of "w_driver w"] show ?thesis
    by (simp add: world_inv_def survives_keeps)
qed

lemma world_run_survives:
  "\<lbrakk>world_run P w cs w'; world_inv w\<rbrakk> \<Longrightarrow> survives (w_driver w) cs (w_driver w')"
proof (induction rule: world_run.induct)
  case (run_step w cs w1 cs' w')
  then show ?case
    using survives_trans [OF world_step_survives [OF run_step.hyps(1)]] world_step_inv by blast
qed (simp add: survives_def)

section \<open>The properties\<close>

text \<open>
  C1: An operation's buffer stays put for as long as the kernel may use it. In every run from
  a reachable world, whatever clients, wakers, the thread pool and the kernel do in between, a
  live operation keeps its payload, with its buffer, its file and its result cell, under the
  same key, until a completion that names it is popped or the ring is closed.
\<close>

theorem buffers_stay_put:
  assumes "reachable P w" "world_run P w cs w'" "live_payloads (w_driver w) k = Some p"
    and "\<not> (\<exists>c \<in> set cs. names k c)" "\<not> ring_closed (ring (w_driver w'))"
  shows "live_payloads (w_driver w') k = Some p"
proof -
  note inv = reachable_inv [OF assms(1)] and inv' = reachable_inv [OF reachable_run [OF assms(1,2)]]
  have "\<not> torn_down (w_driver w')" using inv' assms(5) by (simp add: world_inv_def driver_invD(9))
  with survivesD(3) [OF world_run_survives [OF assms(2) inv]] assms(3,4) show ?thesis by blast
qed

text \<open>
  C2: The ring is closed only when the kernel has nothing left. A step that closes the ring of
  a reachable world starts from a driver that is shutting down and whose slab holds only built
  operations the platform never accepted; after it the driver is torn down and no operation is
  live. And a driver is torn down exactly when its ring is closed.
\<close>

theorem ring_closed_when_idle:
  assumes "reachable P w" "world_step P w cs w'"
  shows "(ring_closed (ring (w_driver w')) \<longleftrightarrow> torn_down (w_driver w')) \<and>
    (\<not> ring_closed (ring (w_driver w)) \<and> ring_closed (ring (w_driver w')) \<longrightarrow>
       w_pc w = PcClose \<and> shutdown (w_driver w) \<noteq> Running \<and>
       (\<forall>k e. slab_view (slab (w_driver w)) k = Some e \<longrightarrow> (\<exists>ob p c. e = Entry Built ob p c)) \<and>
       live_payloads (w_driver w') = Map.empty)"
proof -
  note inv = reachable_inv [OF assms(1)] and inv' = world_step_inv [OF assms(2) reachable_inv [OF assms(1)]]
  have tr: "ring_closed (ring (w_driver v)) \<longleftrightarrow> torn_down (w_driver v)" if "world_inv v" for v :: "'a world"
    using that by (simp add: world_inv_def driver_invD(9))
  have "w_pc w = PcClose" if up: "\<not> torn_down (w_driver w)" "torn_down (w_driver w')"
    using assms(2)
  proof (cases rule: world_step.cases)
    case (ws_client ws d')
    with client_step_ok [OF ws_client(3)] inv up show ?thesis by (simp add: world_inv_def client_ok_def)
  next
    case (ws_resume t pc' ws rs d' s')
    from inv ws_resume(2,3) show ?thesis
      by (cases rule: drive_resume_cases) (use up in \<open>simp_all add: ws_resume(1) resumed_def\<close>)
  next
    case (ws_drive_drop borrowed pc' d' s')
    with keeps_drive_drop(1) [OF _ ws_drive_drop(3)] inv up show ?thesis
      by (simp add: world_inv_def keeps_def)
  qed (use up in simp_all)
  with tr [OF inv] tr [OF inv'] inv inv' show ?thesis
    by (auto simp: world_inv_def pc_ok_def kernel_idle_def driver_invD(10))
qed

text \<open>
  C3: No wake-up is lost. When the driving task is parked in a reachable world and nobody has
  woken it, there is nothing it should be doing: no submission is owed, no shutdown was asked
  for, no nudge is pending and the completion event has not been signalled; every operation
  still live has been accepted by the kernel; and the task's waker is in both places from which
  the next nudge and the next signal take it.
\<close>

theorem no_lost_wakeup:
  assumes "reachable P w" "w_pc w = PcParked" "\<not> w_woken w"
  shows "\<not> pending_submit (w_driver w) \<and> shutdown (w_driver w) = Running \<and> \<not> nudged (w_driver w) \<and>
    \<not> as_signalled (w_armed w) \<and>
    (\<forall>k l ob p c. slab_view (slab (w_driver w)) k = Some (Entry l ob p c) \<longrightarrow> l = Submitted) \<and>
    driver_waker (w_driver w) = Some (w_task w) \<and>
    fst (nudge (w_driver w)) = Some (w_task w) \<and> fst (armed_callback (w_armed w)) = Some (w_task w)"
proof -
  from reachable_inv [OF assms(1)] assms(2,3) have i: "driver_inv (w_driver w)" "nudge_owed (w_driver w)" "asleep w"
    by (simp_all add: world_inv_def pc_ok_def)
  then have quiet: "\<not> pending_submit (w_driver w)" "shutdown (w_driver w) = Running"
    by (auto simp: nudge_owed_def asleep_def)
  have "l = Submitted" if "slab_view (slab (w_driver w)) k = Some (Entry l ob p c)" for k l ob p c
    using that driver_invD(2,3) [OF i(1)] quiet(1)
    by (cases l) (auto simp: no_described_def built_owed_def)
  with i(3) quiet show ?thesis
    by (auto simp: asleep_def nudge_def take_driver_waker_def mark_nudged_def armed_callback_def)
qed

text \<open>
  C9: Shutting down is one way, and only drains. Once a shutdown was asked for, its mode never
  goes back in any run, no new operation ever becomes live, and a driver that is torn down
  stays so.
\<close>

theorem shutdown_only_drains:
  assumes "reachable P w" "world_run P w cs w'" "shutdown (w_driver w) \<noteq> Running"
  shows "shutdown (w_driver w) \<le> shutdown (w_driver w') \<and>
    live_payloads (w_driver w') \<subseteq>\<^sub>m live_payloads (w_driver w) \<and>
    (torn_down (w_driver w) \<longrightarrow> torn_down (w_driver w'))"
  using survivesD [OF world_run_survives [OF assms(2) reachable_inv [OF assms(1)]]] assms(3) by blast

text \<open>
  C10: A registration is exclusive. In every reachable world at most one registration of buffers
  is under way, and the flag says exactly whether one is; while it is, no buffer of the current
  registration is checked out, checking one out is refused, and so is starting another
  registration, which gives the buffers back.
\<close>

theorem registration_exclusive:
  assumes "reachable P w"
  defines "d \<equiv> w_driver w"
  shows "(registration_in_flight d \<longleftrightarrow> (\<exists>k p. live_payloads d k = Some p \<and> pends_buffers p)) \<and>
    (\<forall>k k' p p'. live_payloads d k = Some p \<and> live_payloads d k' = Some p' \<and>
       pends_buffers p \<and> pends_buffers p' \<longrightarrow> k = k') \<and>
    (registration_in_flight d \<longrightarrow>
       Option.bind (current_registry d) any_checked_out = None \<and>
       (shutdown d = Running \<and> \<not> torn_down d \<and> alive \<longrightarrow>
          check_out alive me i d = Some (Inl RtRegistrationPending, d)) \<and>
       (shutdown d = Running \<and> bs \<noteq> [] \<longrightarrow>
          start_register_buffers P bs d = Some (Inl (RtRegistrationPending, bs), d)))"
proof -
  have inv: "driver_inv d" using reachable_inv [OF assms(1)] by (simp add: world_inv_def d_def)
  then show ?thesis
    using driver_invD(5,8) [OF inv]
    unfolding flight_flag_def none_out_def
    by (auto simp: check_out_def start_register_buffers_def)
qed

text \<open>
  C5: A read or a write never loses the caller's buffer. Starting one in a driver whose
  invariant holds never panics. If it fails, the buffer comes back with the error, no task is
  woken and no operation was added or removed. If it starts, the driver was running and the
  buffer passed its check; exactly one operation was added, under a key that was free, and its
  payload owns that very buffer, the file and a fresh result cell; the driver has been nudged,
  and its waker handed out.
\<close>

theorem start_owns_buffer:
  assumes "driver_inv d"
    and "call = try_read P f b len off fl g d \<and> checked = check_read_capacity b (ucast len) \<or>
      call = try_write P f b len off wfl fl g d \<and> checked = check_write_initialized b (ucast len)"
  shows "\<exists>res ws d'. call = Some (res, ws, d') \<and> driver_inv d' \<and>
    (case res of
       Inl (e, b') \<Rightarrow> b' = b \<and> ws = [] \<and> live_payloads d' = live_payloads d
     | Inr fut \<Rightarrow> shutdown d = Running \<and> checked = Inr () \<and> of_cell fut = next_cell d \<and>
         live_payloads d (token_key (of_token fut)) = None \<and>
         live_payloads d' = (live_payloads d)(token_key (of_token fut) \<mapsto>
           \<lparr>op_buffer = Some (AnyBuf b), op_file = Some f, op_slot = next_cell d, op_registered_buffer = None,
            op_registered_file = None, op_pending = None, op_sequential = g\<rparr>) \<and>
         pending_submit d' \<and> nudged d' \<and> set (option_list (driver_waker d)) \<subseteq> set ws)"
proof -
  have fin: ?thesis
    if "call = Some (Inl (e, b), [], d') \<and> keeps d d'" for e d'
    using that by (auto simp: keeps_def retains_def)
  have ok: ?thesis
    if "call = Some (Inr (op_future_pending t (next_cell d)), option_list (driver_waker d), d')"
      "started (buffer_payload f (next_cell d) g b) t d d'" "nudged d'" "shutdown d = Running" "checked = Inr ()"
    for t d'
  proof -
    from that(2) have "live_payloads d (token_key t) = None"
      "live_payloads d' = (live_payloads d)(token_key t \<mapsto> buffer_payload f (next_cell d) g b)"
      by (simp_all add: started_def live_payloads_def fun_eq_iff)
    with that show ?thesis
      by (auto simp: started_def op_future_pending_def buffer_payload_def file_payload_def)
  qed
  from assms(2) show ?thesis
  proof
    assume c: "call = try_read P f b len off fl g d \<and> checked = check_read_capacity b (ucast len)"
    show ?thesis
      by (cases rule: try_read_cases [OF assms(1), of P f b len off fl g]) (use c fin ok in auto)
  next
    assume c: "call = try_write P f b len off wfl fl g d \<and> checked = check_write_initialized b (ucast len)"
    show ?thesis
      by (cases rule: try_write_cases [OF assms(1), of P f b len off wfl fl g]) (use c fin ok in auto)
  qed
qed

text \<open>
  C8: Every turn of the driver comes back. If the platform's queue of completions is finite at
  every moment, a reap ends after at most as many completions as were queued, so a pass of
  \<open>drive\<close> and a step of the drain return, without a panic, whatever the completions name.
\<close>

theorem turns_return:
  assumes "driver_inv d" "finite_queue P queue"
  shows "(\<exists>cs ws d'. reap_completions P d = Some (ws, d') \<and> reaps P d cs ws d' \<and> length cs \<le> queue (kern d)) \<and>
    (\<exists>r d'. drive_pass P d = Some (r, d')) \<and>
    (\<exists>out n' ws rs d'. teardown_step P n d = Some (out, n', ws, rs, d'))"
proof (intro conjI)
  from reaps_exists [OF assms(2,1)]
  show "\<exists>cs ws d'. reap_completions P d = Some (ws, d') \<and> reaps P d cs ws d' \<and> length cs \<le> queue (kern d)"
    unfolding reap_completions_reaps by blast
  from reap_completions_total [OF assms(2) keeps_inv [OF keeps_submit_pending [OF assms(1)]]]
  obtain r where "reap_completions P (submit_pending P d) = Some r" by blast
  then show "\<exists>r d'. drive_pass P d = Some (r, d')"
    by (simp add: drive_pass_def split_def)
  from reap_completions_total [OF assms(2) keeps_inv [OF keeps_drain_prepared [OF assms(1)]]]
  obtain r where "reap_completions P (drain_prepared P d) = Some r" by blast
  then show "\<exists>out n' ws rs d'. teardown_step P n d = Some (out, n', ws, rs, d')"
    by (simp add: teardown_step_def drain_step_eq [OF assms(1)] Let_def split_def)
qed

text \<open>
  C7: The two teardowns are one. Dropping a driver that is not torn down returns exactly when
  the coroutine of \<open>drive\<close>, resumed from the start of its drain on the same driver with the
  shutdown mode raised to immediate and with nothing in between, reaches its end; and then
  they have woken the same tasks and delivered the same reports, in the same order, and left
  the same driver.
\<close>

theorem blocking_teardown_is_drive:
  assumes "driver_inv d" "\<not> torn_down d"
  shows "driver_drop P d = Some (ws, rs, d') \<longleftrightarrow>
    (\<exists>m. drive_iterate P t m (PcDrain 0) (d\<lparr>shutdown := Immediate\<rparr>, s) = Some (PcDone, ws, rs, d', s))"
proof -
  let ?d = "d\<lparr>shutdown := Immediate\<rparr>"
  have m: "max (shutdown d) Immediate = Immediate" by (simp add: max_def)
  have inv: "driver_inv ?d" using keeps_inv [OF keeps_drop_mode [OF assms(1)]] by (simp only: m)
  have up: "\<not> torn_down ?d" using assms(2) by simp
  have "driver_drop P d = driver_drop_loop P 0 [] [] ?d" using assms(2) by (simp add: driver_drop_def m)
  note drop = this
  show ?thesis
  proof
    assume "driver_drop P d = Some (ws, rs, d')"
    from drop_loop_iterates [OF this [unfolded drop] inv up, of t s]
    show "\<exists>m. drive_iterate P t m (PcDrain 0) (?d, s) = Some (PcDone, ws, rs, d', s)" by simp
  next
    assume "\<exists>m. drive_iterate P t m (PcDrain 0) (?d, s) = Some (PcDone, ws, rs, d', s)"
    then obtain m where "drive_iterate P t m (PcDrain 0) (?d, s) = Some (PcDone, ws, rs, d', s)" ..
    from iterates_drop_loop [OF this inv up, of "[]" "[]"]
    show "driver_drop P d = Some (ws, rs, d')" by (simp add: drop)
  qed
qed

text \<open>
  C6: Closing resolves every operation that is left. When \<open>close_and_release\<close> returns, the
  ring is closed and the driver torn down, no live operation remains, and each operation that
  was live has been resolved as abandoned at shutdown, in its own cell and with the buffer (or
  the whole registration) it was started with, unless its future is already gone. Every waker
  found in those cells, and that of every task waiting for the shutdown to complete, is handed
  out; every file held for a cancellation is released.
\<close>

theorem teardown_resolves_all:
  assumes inv: "driver_inv d" and sd: "shutdown d \<noteq> Running"
    and r: "close_and_release P d = Some (ws, d')"
  shows "driver_inv d' \<and> torn_down d' \<and> ring_closed (ring d') \<and> live_payloads d' = Map.empty \<and>
    cancel_holds d' = [] \<and> buffer_registration d' = None \<and> shutdown_waiters d' = [] \<and>
    snd ` set (shutdown_waiters d) \<subseteq> set ws \<and>
    (\<forall>k p. live_payloads d k = Some p \<longrightarrow>
       set (option_list (rs_waker (cells d (op_slot p)))) \<subseteq> set ws \<and>
       cells d' (op_slot p) = (cells d (op_slot p))\<lparr>rs_waker := None, rs_completed :=
         (if rs_future (cells d (op_slot p))
          then Some (Inl RtAbandonedAtShutdown,
                 case op_pending p of Some q \<Rightarrow> Some (AnyPending q) | None \<Rightarrow> op_buffer p)
          else None)\<rparr>)"
  by (rule close_resolves [OF assms])

end
