(* ===== verification/Driver_Samples.thy ===== *)
theory Driver_Samples
  imports Driver_Props
begin

text \<open>
  Concrete runs of the driver over a platform that delivers the completions in a list: the
  inputs at which the driver's properties are applied.
\<close>

section \<open>A platform and a driver\<close>


definition queue_platform :: "cqe list platform" where
  "queue_platform = \<lparr>
     QueryIoRingCapabilities = \<lambda>k. (Inr \<lparr>max_version = 3, max_submission_queue_size = 65536,
       max_completion_queue_size = 131072, feature_flags = 2\<rparr>, k),
     CreateIoRing = \<lambda>v f s c k. (Inr 77, k),
     GetIoRingInfo = \<lambda>h k. (Inr \<lparr>ri_version = 3, ri_flags = (0, 0), ri_submission_queue_size = 32,
       ri_completion_queue_size = 64\<rparr>, k),
     IsIoRingOpSupported = \<lambda>h op k. True,
     SetIoRingCompletionEvent = \<lambda>h e k. (Inr (), k),
     BuildIoRingReadFile = \<lambda>h fr dr n off u fl k. (Inr (), k),
     BuildIoRingWriteFile = \<lambda>h fr dr n off wf u fl k. (Inr (), k),
     BuildIoRingFlushFile = \<lambda>h fr m u fl k. (Inr (), k),
     BuildIoRingCancelRequest = \<lambda>h fr t u k. (Inr (), k),
     BuildIoRingRegisterFileHandles = \<lambda>h hs u k. (Inr (), k),
     BuildIoRingRegisterBuffers = \<lambda>h bs u k. (Inr (), k),
     SubmitIoRing = \<lambda>h w ms k. (Inr 1, k),
     PopIoRingCompletion = \<lambda>h k. (case k of
         [] \<Rightarrow> ((S_FALSE, \<lparr>cqe_user_data = 0, cqe_result = 0, cqe_information = 0\<rparr>), [])
       | c # cs \<Rightarrow> ((S_OK, c), cs)),
     CloseIoRing = \<lambda>h k. (Inr (), k)\<rparr>"
lemma queue_platform_finite: "finite_queue queue_platform length"
  by (simp add: finite_queue_def queue_platform_def S_OK_def S_FALSE_def split: list.split)

definition sample_ring :: io_ring where
  "sample_ring = \<lparr>ring_handle = 77, ring_closed = False\<rparr>"

definition sample_file :: file_state where
  "sample_file = \<lparr>fs_handle = 5, fs_cursor = 0, fs_sequential = False, fs_type = None\<rparr>"

definition sample_driver :: "cqe list driver" where
  "sample_driver = driver_initial sample_ring (\<lambda>_. sample_file) []"

definition sample_buf :: iobuf where
  "sample_buf = \<lparr>ib_kind = VecBuf, ib_addr = 4096, ib_len = 4, ib_cap = 8\<rparr>"

definition sample_payload :: op_payload where
  "sample_payload = buffer_payload 0 0 None sample_buf"

definition sample_slab :: "lifecycle \<Rightarrow> cancel_state \<Rightarrow> op_payload op_slab" where
  "sample_slab l c = \<lparr>slots = [\<lparr>slot_generation = 1, slot_state = Occupied l Live sample_payload c\<rparr>],
     free_head = None, occupied = 1\<rparr>"

text \<open>The driver after a read was started.\<close>

definition reading :: "cqe list driver" where
  "reading = sample_driver\<lparr>slab := sample_slab Built NeverRequested, nudged := True, pending_submit := True,
     cells := (\<lambda>_. result_slot_new), next_cell := 1\<rparr>"

lemmas start_eval = try_read_def check_running_def check_read_capacity_def
  ensure_op_supported_def is_op_supported_def queue_platform_def buf_capacity_def
  start_buffer_op_def alloc_cell_def slab_eval put_buffer_def build_read_for_def build_read_file_def
  guarded_def ensure_open_def built_and_nudge_def nudge_def take_driver_waker_def option_list_def
  mark_nudged_def tok0_def read_builder_new_def rb_with_defs rb_build_def ok_or_def
  sqe_to_platform_def SQE_NONE_def

lemma reading_started:
  "try_read queue_platform 0 sample_buf 4 0 0 None sample_driver = Some (Inr (op_future_pending tok0 0), [], reading)"
  by (simp add: start_eval sample_driver_def sample_ring_def sample_file_def driver_initial_def sample_buf_def
      reading_def sample_slab_def sample_payload_def buffer_payload_def fun_eq_iff)

lemma sample_inv: "driver_inv sample_driver"
  by (simp add: sample_driver_def sample_ring_def initial_inv)

lemma sample_read: "client_step queue_platform sample_driver [] reading"
  by (rule cs_read [where f = 0 and b = sample_buf and len = 4 and off = 0 and fl = 0])
    (simp add: handle_read_def reading_started)

lemma reading_inv: "driver_inv reading"
  using client_step_ok [OF sample_read sample_inv] by (simp add: client_ok_def)

lemma sample_view [simp]:
  "slab_view (sample_slab l c) = [(0, 1) \<mapsto> Entry l Live sample_payload c]"
  by (auto simp: fun_eq_iff slab_view_def sample_slab_def split_paired_all list_get_def unat_eq_zero
      split: if_splits)

definition sample_world :: "cqe list driver \<Rightarrow> cqe list world" where
  "sample_world d = world_initial d 9"

lemma sample_reachable: "reachable queue_platform (sample_world sample_driver)"
  unfolding reachable_def sample_world_def sample_driver_def
  by (rule exI [of _ sample_ring], rule exI [of _ "\<lambda>_. 5"])
    (auto simp: sample_ring_def sample_file_def file_state_new_def intro!: run_refl)

lemma world_client_run:
  assumes "client_step P (w_driver w) ws d'" "w_pc w = PcIdle"
  shows "world_run P w [] (w\<lparr>w_driver := d', w_woken := w_woken w \<or> w_task w \<in> set ws\<rparr>)"
  using run_step [OF ws_client [OF assms(1)] run_refl] by simp

lemma reading_reachable: "reachable queue_platform (sample_world reading)"
proof (rule reachable_run [OF sample_reachable])
  show "world_run queue_platform (sample_world sample_driver) [] (sample_world reading)"
    using world_client_run [where w = "sample_world sample_driver", OF _ _] sample_read
    by (fastforce simp: sample_world_def world_initial_def)
qed

section \<open>Starting, completing, cancelling\<close>

theorem start_owns_buffer_witness:
  "\<exists>p. live_payloads reading (0, 1) = Some p \<and> op_buffer p = Some (AnyBuf sample_buf)"
  using start_owns_buffer [OF sample_inv, of "try_read queue_platform 0 sample_buf 4 0 0 None sample_driver"
      queue_platform 0 sample_buf 4 0 0 None "check_read_capacity sample_buf 4" 0]
  by (simp add: reading_started op_future_pending_def)

text \<open>The kernel has accepted the read, and then completed it with four bytes.\<close>

definition accepted :: "cqe list driver" where
  "accepted = reading\<lparr>slab := sample_slab Submitted NeverRequested\<rparr>"

definition sample_cqe :: cqe where
  "sample_cqe = \<lparr>cqe_user_data = as_user_data tok0, cqe_result = 0, cqe_information = 4\<rparr>"

lemma sample_names: "names (0, 1) sample_cqe"
  by (simp add: names_def sample_cqe_def from_user_data_def)


lemma reading_pass: "submit_pending queue_platform reading =
  accepted\<lparr>submissions := 1, submitted_entries := 1, pending_submit := False\<rparr>"
  by (simp add: submit_pending_def reading_def sample_driver_def driver_initial_def ring_submit_def sample_ring_def
      guarded_def ensure_open_def queue_platform_def cancel_abandoned_def issue_cancels_def accepted_def
      slab_promote_built_to_submitted_def promote_slot_def sample_slab_def slab_detached_submitted_uncancelled_def
      slab_tokens_where_def Let_def)

lemma accepted_inv: "driver_inv (accepted\<lparr>submissions := 1, submitted_entries := 1, pending_submit := False\<rparr>)"
  using keeps_inv [OF keeps_submit_pending [OF reading_inv, of queue_platform]] by (simp add: reading_pass)

definition completing :: "cqe list driver" where
  "completing = accepted\<lparr>submissions := 1, submitted_entries := 1, pending_submit := False, kern := [sample_cqe]\<rparr>"

lemma completing_inv: "driver_inv completing"
  using keeps_inv [OF keeps_kern [OF accepted_inv, of "[sample_cqe]"]] by (simp add: completing_def)

lemma completing_live: "live_payloads completing (0, 1) = Some sample_payload"
  by (simp add: live_payloads_def completing_def accepted_def)

theorem turns_return_witness:
  "\<exists>r d'. drive_pass queue_platform completing = Some (r, d')"
  using turns_return [OF completing_inv queue_platform_finite, of 0] by blast

lemma completing_pop:
  "pop_completion queue_platform (ring completing) (kern completing) = (Inr (Some sample_cqe), [])"
  by (simp add: pop_completion_def completing_def accepted_def reading_def sample_driver_def driver_initial_def
      sample_ring_def ensure_open_def queue_platform_def)

lemma queue_pop_empty:
  "\<not> ring_closed r \<Longrightarrow> pop_completion queue_platform r [] = (Inr None, [])"
  by (simp add: pop_completion_def ensure_open_def queue_platform_def S_OK_def S_FALSE_def)

theorem completion_delivered_witness:
  "\<exists>ws d'. reap_completions queue_platform completing = Some (ws, d') \<and>
     rs_completed (cells d' 0) = Some (Inr 4, Some (AnyBuf sample_buf))"
proof -
  obtain cs ws d' where r: "reap_completions queue_platform completing = Some (ws, d')"
    "reaps queue_platform completing cs ws d'" "length cs \<le> length (kern completing)"
    using reaps_exists [OF queue_platform_finite completing_inv] by (auto simp: reap_completions_reaps)
  from r(2) obtain cs' where "cs = sample_cqe # cs'"
    by (cases rule: reaps.cases) (simp_all add: completing_pop)
  moreover have "kern completing = [sample_cqe]" by (simp add: completing_def)
  ultimately have cs: "cs = [sample_cqe]" using r(3) by simp
  from completion_delivered [OF completing_inv r(1)] obtain cs2 where
    "reaps queue_platform completing cs2 ws d'" and
    d: "\<forall>k p. live_payloads completing k = Some p \<longrightarrow>
      (case find (names k) cs2 of
         None \<Rightarrow> live_payloads d' k = Some p \<and> cells d' (op_slot p) = cells completing (op_slot p)
       | Some c \<Rightarrow> live_payloads d' k = None \<and>
           set (option_list (rs_waker (cells completing (op_slot p)))) \<subseteq> set ws \<and>
           (\<exists>b. cells d' (op_slot p) = (cells completing (op_slot p))\<lparr>rs_waker := None, rs_completed :=
                  (if rs_future (cells completing (op_slot p)) then Some (complete_result c, b) else None)\<rparr> \<and>
                gives_back d' (op_pending p) (op_buffer p) (complete_result c) b))"
    by blast
  with reaps_det [OF r(2)] cs have "cs2 = [sample_cqe]" by blast
  with d completing_live sample_names r(1) show ?thesis
    by (fastforce simp: gives_back_def same_buffer_def sample_payload_def buffer_payload_def file_payload_def completing_def accepted_def
        reading_def result_slot_new_def complete_result_def hresult_ok_def sample_cqe_def)
qed

lemma tok0_nonzero: "as_user_data tok0 \<noteq> 0"
  by code_simp

theorem cancel_request_exact_witness:
  "slab_view (slab (issue_cancel queue_platform tok0 completing)) (0, 1)
     = Some (Entry Submitted Live sample_payload Pending)"
proof -
  have "cancellable completing tok0 (CancelOwned 0)"
    by (simp add: cancellable_def completing_def accepted_def reading_def sample_driver_def driver_initial_def
        sample_payload_def buffer_payload_def file_payload_def cancel_target_of_def tok0_nonzero)
  with cancel_request_exact [OF driver_invD(1) [OF completing_inv] refl, where P = queue_platform and t = tok0 and target = "CancelOwned 0"]
  show ?thesis
    by (simp add: build_cancel_request_def guarded_def ensure_open_def queue_platform_def
        completing_def accepted_def reading_def sample_driver_def driver_initial_def sample_ring_def)
qed

section \<open>Parking, shutting down and closing\<close>

lemma resume_step:
  assumes "drive_resume P t (w_pc w) (w_driver w, w_armed w) = Some (pc', ws, rs, d', s')"
    "resume_log P (w_pc w) (w_driver w) cs"
    "world_run P \<lparr>w_driver = d', w_armed = s', w_pc = pc', w_task = t, w_woken = (t \<in> set ws)\<rparr> cs' w'"
  shows "world_run P w (cs @ cs') w'"
  by (rule run_step [OF ws_resume [OF assms(1,2)] assms(3)])

lemma sample_reaps: "\<lbrakk>\<not> ring_closed (ring d); kern d = []\<rbrakk> \<Longrightarrow> reaps queue_platform d [] [] d"
  using reaps_empty [of queue_platform d "[]"] by (cases d) (simp add: queue_pop_empty)

lemma sample_reap: "\<lbrakk>\<not> ring_closed (ring d); kern d = []\<rbrakk> \<Longrightarrow> reap_completions queue_platform d = Some ([], d)"
  using sample_reaps [of d] by (auto simp: reap_completions_reaps)

text \<open>The task drives an idle driver and parks.\<close>

definition parked_world :: "cqe list world" where
  "parked_world = \<lparr>w_driver = sample_driver\<lparr>driver_waker := Some 9\<rparr>,
     w_armed = \<lparr>as_signalled = False, as_waker = Some 9\<rparr>, w_pc = PcParked, w_task = 9, w_woken = False\<rparr>"

lemma sample_fields [simp]:
  "ring sample_driver = sample_ring" "kern sample_driver = []" "slab sample_driver = slab_new"
  "pending_submit sample_driver = False" "nudged sample_driver = False" "driver_waker sample_driver = None"
  "shutdown sample_driver = Running" "torn_down sample_driver = False" "deferred_reports sample_driver = []"
  "sample_driver\<lparr>deferred_reports := []\<rparr> = sample_driver" "sample_driver\<lparr>nudged := False\<rparr> = sample_driver"
  "ring_closed sample_ring = False" "ring_handle sample_ring = 77"
  by (simp_all add: sample_driver_def driver_initial_def sample_ring_def)

lemma sample_pass: "drive_pass queue_platform sample_driver =
  Some (\<lparr>pr_shutting_down = False, pr_retry_owed = False, pr_wakers = [], pr_reports = []\<rparr>, sample_driver)"
  by (simp add: drive_pass_def submit_pending_def sample_reap take_reports_def)

lemma parked_reachable: "reachable queue_platform parked_world"
proof (rule reachable_run [OF sample_reachable])
  let ?w = "\<lambda>pc. \<lparr>w_driver = sample_driver, w_armed = armed_state_new, w_pc = pc, w_task = 9, w_woken = False\<rparr>"
  have 1: "world_run queue_platform (?w PcPark) ([] @ []) parked_world"
    by (rule resume_step [of _ 9 _ PcParked "[]" "[]" "sample_driver\<lparr>driver_waker := Some 9\<rparr>"
          "\<lparr>as_signalled = False, as_waker = Some 9\<rparr>"])
      (simp_all add: drive_resume_def park_poll_def take_nudge_def poll_signalled_def armed_state_new_def
        resume_log_def parked_world_def run_refl)
  have "submit_pending queue_platform sample_driver = sample_driver" by (simp add: submit_pending_def)
  then have log: "resume_log queue_platform PcPass sample_driver []"
    using sample_reaps [of sample_driver] by (auto simp: resume_log_def)
  have 2: "world_run queue_platform (?w PcPass) ([] @ []) parked_world"
    by (rule resume_step [of _ 9 _ PcPark "[]" "[]" sample_driver armed_state_new])
      (use 1 in \<open>simp_all add: drive_resume_def sample_pass log\<close>)
  have "world_run queue_platform (?w PcIdle) ([] @ []) parked_world"
    by (rule resume_step [of _ 9 _ PcPass "[]" "[]" sample_driver armed_state_new])
      (use 2 in \<open>simp_all add: drive_resume_def resume_log_def\<close>)
  then show "world_run queue_platform (sample_world sample_driver) [] parked_world"
    by (simp add: sample_world_def world_initial_def)
qed

theorem no_lost_wakeup_witness: "fst (nudge (w_driver parked_world)) = Some 9"
  using no_lost_wakeup [OF parked_reachable] by (simp add: parked_world_def)

text \<open>The driver is dropped: one drain step, and the close.\<close>

definition dropped_world :: "drive_pc \<Rightarrow> cqe list world" where
  "dropped_world pc = (sample_world (sample_driver\<lparr>shutdown := Immediate\<rparr>))\<lparr>w_pc := pc\<rparr>"

lemma issue_no_cancels: "issue_cancels P [] d = d"
  by (simp add: issue_cancels_def)

lemma new_sweeps [simp]:
  "slab_described slab_new = []" "slab_submitted_uncancelled slab_new = []" "slab_outstanding slab_new = 0"
  "slab_built slab_new = []"
  by (simp_all add: slab_described_def slab_submitted_uncancelled_def slab_outstanding_def slab_built_def
      slab_tokens_where_def slab_new_def)

lemma dropped_prepared: "drain_prepared queue_platform (sample_driver\<lparr>shutdown := Immediate\<rparr>)
  = sample_driver\<lparr>shutdown := Immediate\<rparr>"
  by (simp add: drain_prepared_def submit_pending_def issue_no_cancels Let_def)

lemma dropped_drain: "teardown_step queue_platform 0 (sample_driver\<lparr>shutdown := Immediate\<rparr>)
  = Some (Quiescent, 1, [], [], sample_driver\<lparr>shutdown := Immediate\<rparr>)"
proof -
  have i: "driver_inv (sample_driver\<lparr>shutdown := Immediate\<rparr>)"
    using keeps_inv [OF keeps_drop_mode [OF sample_inv]] by (simp add: max_def)
  have s: "saturating_add (0 :: u32) 1 = 1" by (simp add: saturating_add_def)
  have d: "(sample_driver\<lparr>shutdown := Immediate\<rparr>)\<lparr>deferred_reports := []\<rparr> = sample_driver\<lparr>shutdown := Immediate\<rparr>"
    by (simp add: sample_driver_def driver_initial_def)
  have "reap_completions queue_platform (sample_driver\<lparr>shutdown := Immediate\<rparr>)
      = Some ([], sample_driver\<lparr>shutdown := Immediate\<rparr>)"
    by (rule sample_reap) simp_all
  then have "drain_step queue_platform (sample_driver\<lparr>shutdown := Immediate\<rparr>)
      = Some ([], Quiescent, sample_driver\<lparr>shutdown := Immediate\<rparr>)"
    by (simp only: drain_step_eq [OF i] dropped_prepared) (simp add: step_verdict_def)
  moreover have "report_slow_drain 1 (sample_driver\<lparr>shutdown := Immediate\<rparr>) = sample_driver\<lparr>shutdown := Immediate\<rparr>"
    by (simp add: report_slow_drain_def SLOW_DRAIN_STEPS_def)
  ultimately show ?thesis
    by (simp add: teardown_step_def s take_reports_def d Let_def)
qed

lemma dropped_reachable: "reachable queue_platform (dropped_world PcClose)"
proof (rule reachable_run [OF sample_reachable])
  let ?d = "sample_driver\<lparr>shutdown := Immediate\<rparr>"
  have log: "resume_log queue_platform (PcDrain 0) ?d []"
    using sample_reaps [of ?d] by (auto simp: resume_log_def dropped_prepared)
  have 1: "world_run queue_platform (dropped_world (PcDrain 0)) ([] @ []) (dropped_world PcClose)"
    by (rule resume_step [of _ 9 _ PcClose "[]" "[]" ?d armed_state_new])
      (simp_all add: dropped_world_def sample_world_def world_initial_def drive_resume_def dropped_drain log run_refl)
  have "world_step queue_platform (sample_world sample_driver) [] (dropped_world (PcDrain 0))"
    using ws_driver_drop [of "sample_world sample_driver" queue_platform]
    by (simp add: dropped_world_def sample_world_def world_initial_def max_def)
  from run_step [OF this 1]
  show "world_run queue_platform (sample_world sample_driver) [] (dropped_world PcClose)" by simp
qed

lemma closes: "close_loop queue_platform CLOSE_ATTEMPTS sample_ring []
  = Some (sample_ring\<lparr>ring_closed := True\<rparr>, [])"
  by (simp add: CLOSE_ATTEMPTS_def numeral_3_eq_3 ring_close_def queue_platform_def)

lemma dropped_finish: "\<exists>d'. teardown_finish queue_platform (sample_driver\<lparr>shutdown := Immediate\<rparr>) = Some ([], [], d')"
  by (simp add: teardown_finish_def close_and_release_def closes slab_drain_def resolve_all_def take_reports_def
      Let_def slab_new_def) (simp add: sample_driver_def driver_initial_def)

theorem ring_closed_when_idle_witness:
  "\<exists>w'. world_step queue_platform (dropped_world PcClose) [] w' \<and>
     (ring_closed (ring (w_driver w')) \<longleftrightarrow> torn_down (w_driver w'))"
proof -
  let ?w = "dropped_world PcClose"
  from dropped_finish obtain d' where
    f: "teardown_finish queue_platform (sample_driver\<lparr>shutdown := Immediate\<rparr>) = Some ([], [], d')" ..
  have "drive_resume queue_platform 9 (w_pc ?w) (w_driver ?w, w_armed ?w) = Some (PcDone, [], [], d', w_armed ?w)"
    by (simp add: dropped_world_def sample_world_def world_initial_def drive_resume_def f)
  from ws_resume [OF this, of "[]"]
  have st: "world_step queue_platform ?w []
      \<lparr>w_driver = d', w_armed = w_armed ?w, w_pc = PcDone, w_task = 9, w_woken = (9 \<in> set [])\<rparr>"
    by (simp add: resume_log_def dropped_world_def)
  with ring_closed_when_idle [OF dropped_reachable st] show ?thesis by blast
qed

theorem closes_only_when_idle_witness:
  "\<exists>d'. driver_drop queue_platform sample_driver = Some ([], [], d') \<and> torn_down d' \<and>
     live_payloads d' = Map.empty"
proof -
  from dropped_finish obtain d' where
    f: "teardown_finish queue_platform (sample_driver\<lparr>shutdown := Immediate\<rparr>) = Some ([], [], d')" ..
  have r: "driver_drop queue_platform sample_driver = Some ([], [], d')"
    by (simp add: driver_drop_def max_def) (subst driver_drop_loop.simps, simp add: dropped_drain f)
  with closes_only_when_idle [OF sample_inv, of queue_platform 0 Quiescent 0 "[]" "[]" sample_driver d']
  show ?thesis by simp
qed

theorem blocking_teardown_is_drive_witness:
  "\<exists>m d'. drive_iterate queue_platform 9 m (PcDrain 0) (sample_driver\<lparr>shutdown := Immediate\<rparr>, armed_state_new)
     = Some (PcDone, [], [], d', armed_state_new)"
proof -
  from dropped_finish obtain d' where
    f: "teardown_finish queue_platform (sample_driver\<lparr>shutdown := Immediate\<rparr>) = Some ([], [], d')" ..
  have r: "driver_drop queue_platform sample_driver = Some ([], [], d')"
    by (simp add: driver_drop_def max_def) (subst driver_drop_loop.simps, simp add: dropped_drain f)
  with blocking_teardown_is_drive [OF sample_inv, of queue_platform "[]" "[]" d' 9 armed_state_new]
  show ?thesis by auto
qed

text \<open>A read in flight while the driver is shut down: its payload stays.\<close>

definition reading_shut :: "cqe list driver" where
  "reading_shut = snd (handle_shutdown_now reading)"

lemma reading_fields [simp]:
  "ring reading = sample_ring" "shutdown reading = Running" "torn_down reading = False"
  "slab reading = sample_slab Built NeverRequested" "kern reading = []"
  by (simp_all add: reading_def)

lemma reading_shut_fields [simp]:
  "ring reading_shut = sample_ring" "shutdown reading_shut = Immediate" "slab reading_shut = slab reading"
  by (simp_all add: reading_shut_def handle_shutdown_now_def escalate_def nudge_def take_driver_waker_def
      mark_nudged_def Let_def less_eq_shutdown_mode_def mode_rank_def)

lemma reading_shut_run:
  "world_run queue_platform (sample_world reading) [] ((sample_world reading)\<lparr>w_driver := reading_shut,
     w_woken := False \<or> 9 \<in> set (fst (handle_shutdown_now reading))\<rparr>)"
  using world_client_run [of queue_platform "sample_world reading", OF cs_shutdown_now]
  by (simp add: sample_world_def world_initial_def reading_shut_def)

theorem buffers_stay_put_witness:
  "live_payloads reading_shut (0, 1) = Some sample_payload"
proof -
  have live: "live_payloads (w_driver (sample_world reading)) (0, 1) = Some sample_payload"
    by (simp add: sample_world_def world_initial_def live_payloads_def)
  from buffers_stay_put [OF reading_reachable reading_shut_run live] show ?thesis by simp
qed

theorem shutdown_only_drains_witness:
  "live_payloads (reading_shut\<lparr>kern := [sample_cqe]\<rparr>) \<subseteq>\<^sub>m live_payloads reading_shut"
proof -
  let ?w = "(sample_world reading)\<lparr>w_driver := reading_shut, w_woken := False \<or> 9 \<in> set (fst (handle_shutdown_now reading))\<rparr>"
  have r: "reachable queue_platform ?w" by (rule reachable_run [OF reading_reachable reading_shut_run])
  have "world_run queue_platform ?w [] (?w\<lparr>w_driver := (w_driver ?w)\<lparr>kern := [sample_cqe]\<rparr>,
      w_woken := w_woken ?w \<or> w_task ?w \<in> set []\<rparr>)"
    by (rule world_client_run [OF cs_kernel]) (simp add: sample_world_def world_initial_def)
  from shutdown_only_drains [OF r this] show ?thesis by simp
qed

theorem teardown_resolves_all_witness:
  "\<exists>ws d'. close_and_release queue_platform reading_shut = Some (ws, d') \<and>
     rs_completed (cells d' 0) = Some (Inl RtAbandonedAtShutdown, Some (AnyBuf sample_buf))"
proof -
  have inv: "driver_inv reading_shut"
    using client_step_ok [OF cs_shutdown_now reading_inv] by (simp add: client_ok_def reading_shut_def)
  have k: "kern reading_shut = []" "cells reading_shut = (\<lambda>_. result_slot_new)"
    by (simp_all add: reading_shut_def handle_shutdown_now_def escalate_def nudge_def take_driver_waker_def
      mark_nudged_def Let_def less_eq_shutdown_mode_def mode_rank_def reading_def)
  have cl: "close_loop queue_platform CLOSE_ATTEMPTS (ring reading_shut) (kern reading_shut)
      = Some (sample_ring\<lparr>ring_closed := True\<rparr>, [])"
    by (simp add: closes k)
  then obtain ws d' where r: "close_and_release queue_platform reading_shut = Some (ws, d')"
    by (simp add: close_and_release_def Let_def split_def)
  have live: "live_payloads reading_shut (0, 1) = Some sample_payload"
    by (simp add: live_payloads_def)
  have sd: "shutdown reading_shut \<noteq> Running" by simp
  from teardown_resolves_all [OF inv sd r]
  have "cells d' (op_slot p) = (cells reading_shut (op_slot p))\<lparr>rs_waker := None, rs_completed :=
         (if rs_future (cells reading_shut (op_slot p))
          then Some (Inl RtAbandonedAtShutdown,
                 case op_pending p of Some q \<Rightarrow> Some (AnyPending q) | None \<Rightarrow> op_buffer p)
          else None)\<rparr>" if "live_payloads reading_shut j = Some p" for j p
    using that by blast
  from this [OF live] have "rs_completed (cells d' 0) = Some (Inl RtAbandonedAtShutdown, Some (AnyBuf sample_buf))"
    by (simp add: k result_slot_new_def sample_payload_def buffer_payload_def file_payload_def)
  with r show ?thesis by simp
qed

text \<open>A registration under way.\<close>

definition registering :: "cqe list driver" where
  "registering = sample_driver\<lparr>slab := \<lparr>slots = [\<lparr>slot_generation = 1, slot_state =
       Occupied Built Live (registration_payload 0 (pend_buffers [sample_buf])) NeverRequested\<rparr>],
       free_head = None, occupied = 1\<rparr>, cells := (\<lambda>_. result_slot_new), next_cell := 1,
     pending_submit := True, registration_in_flight := True, nudged := True\<rparr>"

lemma registering_started: "register_buffers queue_platform [sample_buf] sample_driver
  = Some (Inr (op_future_pending tok0 0), [], registering)"
  by (simp add: register_buffers_def start_register_buffers_def start_eval build_register_buffers_def
      nudge_driver_eq sample_driver_def sample_ring_def driver_initial_def current_registry_def
      registering_def fun_eq_iff)

lemma registering_reachable: "reachable queue_platform (sample_world registering)"
proof (rule reachable_run [OF sample_reachable])
  have "client_step queue_platform sample_driver [] registering"
    by (rule cs_register_buffers) (rule registering_started)
  then show "world_run queue_platform (sample_world sample_driver) [] (sample_world registering)"
    using world_client_run [where w = "sample_world sample_driver", OF _ _]
    by (fastforce simp: sample_world_def world_initial_def)
qed

theorem registration_exclusive_witness:
  "start_register_buffers queue_platform [sample_buf] registering
     = Some (Inl (RtRegistrationPending, [sample_buf]), registering)"
proof -
  have "registration_in_flight registering" "shutdown registering = Running"
    by (simp_all add: registering_def)
  then show ?thesis
    using registration_exclusive [OF registering_reachable, of True 0 0 "[sample_buf]"]
    by (simp add: sample_world_def world_initial_def)
qed

end
