(* ===== verification/File_Props.thy ===== *)
theory File_Props
  imports Driver_Samples
begin

text \<open>
  What files promise: at most one sequential operation per file is with the kernel, also after
  its future was dropped, and the cursor moves by what the completed operations transferred, or
  where its owner sets it, and by nothing else.
\<close>

section \<open>The invariant of the sequential slots\<close>

definition seq_of :: "'k driver \<Rightarrow> key \<Rightarrow> fid option" where
  "seq_of d k = Option.bind (live_payloads d k) op_sequential"

definition seq_flag :: "'k driver \<Rightarrow> fid \<Rightarrow> bool" where
  "seq_flag d f = fs_sequential (files d f)"

definition seq_inv :: "'k driver \<Rightarrow> bool" where
  "seq_inv d \<longleftrightarrow> (\<forall>f. seq_flag d f \<longleftrightarrow> (\<exists>k. seq_of d k = Some f)) \<and>
     (\<forall>k k' f. seq_of d k = Some f \<longrightarrow> seq_of d k' = Some f \<longrightarrow> k = k')"

definition seq_same :: "'k driver \<Rightarrow> 'k driver \<Rightarrow> bool" where
  "seq_same d d' \<longleftrightarrow> live_payloads d' = live_payloads d \<and> seq_flag d' = seq_flag d"

lemma seq_same_inv: "\<lbrakk>seq_same d d'; seq_inv d\<rbrakk> \<Longrightarrow> seq_inv d'"
  by (simp add: seq_same_def seq_inv_def seq_of_def)

lemma seq_same_trans: "\<lbrakk>seq_same a b; seq_same b c\<rbrakk> \<Longrightarrow> seq_same a c"
  by (simp add: seq_same_def)

lemma seq_same_files: "\<lbrakk>live_payloads d' = live_payloads d; files d' = files d\<rbrakk> \<Longrightarrow> seq_same d d'"
  by (simp add: seq_same_def seq_flag_def fun_eq_iff)

lemma seq_same_slab: "\<lbrakk>slab d' = slab d; files d' = files d\<rbrakk> \<Longrightarrow> seq_same d d'"
  by (simp add: seq_same_files live_payloads_def fun_eq_iff)

lemma seq_added:
  assumes inv: "seq_inv d" and new: "live_payloads d' = (live_payloads d)(k \<mapsto> p)" "live_payloads d k = None"
    and flag: "seq_flag d' = (case op_sequential p of None \<Rightarrow> seq_flag d | Some f \<Rightarrow> (seq_flag d)(f := True))"
    and free: "\<And>f. op_sequential p = Some f \<Longrightarrow> \<not> seq_flag d f"
  shows "seq_inv d'"
proof -
  have s: "seq_of d' j = (if j = k then op_sequential p else seq_of d j)" for j
    by (simp add: seq_of_def new(1))
  have k: "seq_of d k = None" by (simp add: seq_of_def new(2))
  show ?thesis
  proof (cases "op_sequential p")
    case None
    with s k have "seq_of d' = seq_of d" by (auto simp: fun_eq_iff)
    with inv flag None show ?thesis by (simp add: seq_inv_def)
  next
    case (Some f)
    with free inv have no: "seq_of d j \<noteq> Some f" for j by (auto simp: seq_inv_def)
    have 1: "seq_flag d' g \<longleftrightarrow> (\<exists>j. seq_of d' j = Some g)" for g
    proof (cases "g = f")
      case True
      with Some flag show ?thesis by (auto simp: s)
    next
      case False
      with Some flag have "seq_flag d' g \<longleftrightarrow> (\<exists>j. seq_of d j = Some g)" using inv by (simp add: seq_inv_def)
      also have "\<dots> \<longleftrightarrow> (\<exists>j. seq_of d' j = Some g)" using False Some k by (metis option.distinct(1) option.inject s)
      finally show ?thesis .
    qed
    have 2: "i = j" if "seq_of d' i = Some g" "seq_of d' j = Some g" for i j g
      using that inv no Some unfolding seq_inv_def by (metis option.inject s)
    from 1 2 show ?thesis unfolding seq_inv_def by blast
  qed
qed

lemma seq_removed:
  assumes inv: "seq_inv d" and gone: "live_payloads d' = (live_payloads d)(k := None)" "live_payloads d k = Some p"
    and flag: "files d' = released (op_sequential p) (files d)"
  shows "seq_inv d'"
proof -
  have s: "seq_of d' j = (if j = k then None else seq_of d j)" for j
    by (simp add: seq_of_def gone(1))
  have k: "seq_of d k = op_sequential p" by (simp add: seq_of_def gone(2))
  have f: "seq_flag d' g \<longleftrightarrow> seq_flag d g \<and> op_sequential p \<noteq> Some g" for g
    by (auto simp: seq_flag_def flag released_def split: option.split)
  have 1: "seq_flag d' g \<longleftrightarrow> (\<exists>j. seq_of d' j = Some g)" for g
  proof -
    have "seq_flag d g \<longleftrightarrow> (\<exists>j. seq_of d j = Some g)"
      "\<And>i j. \<lbrakk>seq_of d i = Some g; seq_of d j = Some g\<rbrakk> \<Longrightarrow> i = j"
      using inv unfolding seq_inv_def by blast+
    then show ?thesis unfolding f by (metis k option.distinct(1) s)
  qed
  have 2: "i = j" if "seq_of d' i = Some g" "seq_of d' j = Some g" for i j g
    using that inv unfolding seq_inv_def by (metis option.distinct(1) s)
  from 1 2 show ?thesis unfolding seq_inv_def by blast
qed

section \<open>Clients\<close>

lemma seq_same_failed:
  assumes "keeps d d'" "files d' = files d" shows "seq_same d d'"
  using assms by (simp add: seq_same_files keeps_def retains_def)

lemma seq_started:
  assumes "started p t d d'" "op_sequential p = None" "seq_inv d" shows "seq_inv d'"
proof (rule seq_added [OF assms(3)])
  show "live_payloads d' = (live_payloads d)(token_key t \<mapsto> p)" "live_payloads d (token_key t) = None"
    using assms(1) by (auto simp: started_def live_payloads_def)
qed (use assms in \<open>simp_all add: started_def seq_flag_def fun_eq_iff\<close>)

text \<open>A start that carries a guard: before it, the slot was free and was just claimed.\<close>

lemma seq_claimed:
  assumes inv: "seq_inv d" and free: "\<not> fs_sequential (files d f)"
    and st: "st = (files d f)\<lparr>fs_type := y, fs_sequential := True\<rparr>"
    and out: "keeps (set_file f st d) d' \<and> files d' = released (Some f) (files (set_file f st d)) \<or>
      (\<exists>t p. started p t (set_file f st d) d' \<and> op_sequential p = Some f)"
  shows "seq_inv d'"
proof -
  let ?d1 = "set_file f st d"
  have live1: "live_payloads ?d1 = live_payloads d" by (simp add: live_payloads_def set_file_def fun_eq_iff)
  have flag1: "seq_flag ?d1 = (seq_flag d)(f := True)" by (simp add: seq_flag_def set_file_def st fun_eq_iff)
  from out show ?thesis
  proof
    assume a: "keeps ?d1 d' \<and> files d' = released (Some f) (files ?d1)"
    have "seq_same d d'"
      using a free live1 by (auto simp: seq_same_def keeps_def retains_def seq_flag_def released_def set_file_def st fun_eq_iff)
    with inv show ?thesis by (simp add: seq_same_inv)
  next
    assume "\<exists>t p. started p t ?d1 d' \<and> op_sequential p = Some f"
    then obtain t p where s: "started p t ?d1 d'" "op_sequential p = Some f" by blast
    show ?thesis
    proof (rule seq_added [OF inv])
      show "live_payloads d' = (live_payloads d)(token_key t \<mapsto> p)" "live_payloads d (token_key t) = None"
        using s(1) live1 by (auto simp: started_def live_payloads_def set_file_def)
      show "seq_flag d' = (case op_sequential p of None \<Rightarrow> seq_flag d | Some f \<Rightarrow> (seq_flag d)(f := True))"
        using s flag1 by (simp add: started_def seq_flag_def fun_eq_iff)
    qed (use s(2) free in \<open>simp add: seq_flag_def\<close>)
  qed
qed

text \<open>The three ends of a read or a write, with or without a guard.\<close>

lemma buffer_payload_sequential [simp]: "op_sequential (buffer_payload f c g b) = g"
  by (simp add: buffer_payload_def file_payload_def)

lemma handle_read_ends:
  assumes "driver_inv d" "handle_read P f b len off fl g d = Some (st, ws, d')"
  shows "keeps d d' \<and> files d' = released g (files d) \<or> (\<exists>t p. started p t d d' \<and> op_sequential p = g)"
  using assms(1)
proof (cases rule: try_read_cases [where P = P and f = f and b = b and len = len and off = off and fl = fl and g = g])
  case (failed e d1)
  with assms(2) show ?thesis by (simp add: handle_read_def)
next
  case (started t d1)
  with assms(2) have "d' = d1" by (simp add: handle_read_def)
  with started(4) show ?thesis using buffer_payload_sequential by blast
qed

lemma handle_write_ends:
  assumes "driver_inv d" "handle_write P f b len off wfl fl g d = Some (fut, ws, d')"
  shows "keeps d d' \<and> files d' = released g (files d) \<or> (\<exists>t p. started p t d d' \<and> op_sequential p = g)"
  using assms(1)
proof (cases rule: try_write_cases [where P = P and f = f and b = b and len = len and off = off
      and wfl = wfl and fl = fl and g = g])
  case (failed e d1)
  with assms(2) have d': "d' = snd (write_future_failed e b d1)" by (simp add: handle_write_def split_def)
  have "keeps d1 d'"
    by (rule keeps_quiet)
      (use keeps_inv [OF failed(2)] in \<open>simp_all add: d' write_future_failed_def alloc_cell_def
         cells_kept_def cell_open_def regs_kept_same\<close>)
  with failed have "keeps d d'" using keeps_trans by blast
  moreover have "files d' = files d1" by (simp add: d' write_future_failed_def split_def)
  ultimately show ?thesis using failed(4) by simp
next
  case (started t d1)
  with assms(2) have "d' = d1" by (simp add: handle_write_def)
  with started(4) show ?thesis using buffer_payload_sequential by blast
qed

lemma seq_ends:
  assumes "keeps d d' \<and> files d' = released None (files d) \<or> (\<exists>t p. started p t d d' \<and> op_sequential p = None)"
    and "seq_inv d"
  shows "seq_inv d'"
  using assms seq_started seq_same_failed [THEN seq_same_inv] by auto

lemma seq_sequential:
  assumes inv: "driver_inv d" "seq_inv d" and r: "start_sequential ft f b start d = Some (so, ws, d')"
    and start: "\<And>n g d1 fut ws d2. \<lbrakk>driver_inv d1; start n g d1 = Some (fut, ws, d2)\<rbrakk> \<Longrightarrow>
      keeps d1 d2 \<and> files d2 = released g (files d1) \<or> (\<exists>t p. started p t d1 d2 \<and> op_sequential p = g)"
  shows "seq_inv d'"
  using r
proof (cases rule: start_sequential_cases)
  case (refused st e)
  have "fs_sequential st = fs_sequential (files d f)" by (subst refused(5)) simp
  then have "seq_same d d'"
    by (simp add: refused(1) seq_same_def set_file_def live_payloads_def seq_flag_def fun_eq_iff)
  with inv show ?thesis by (simp add: seq_same_inv)
next
  case (passed st fut)
  have "driver_inv (set_file f st d)"
    using client_ok_inv [OF client_ok_files [OF inv(1)]] by (simp add: set_file_def)
  from seq_claimed [OF inv(2) passed(2,4) start [OF this passed(1)]] show ?thesis .
qed

lemma seq_file_read:
  "\<lbrakk>driver_inv d; seq_inv d; file_read P ft f b len d = Some (so, ws, d')\<rbrakk> \<Longrightarrow> seq_inv d'"
  unfolding file_read_def by (erule (2) seq_sequential) (rule handle_read_ends)

lemma seq_file_write:
  "\<lbrakk>driver_inv d; seq_inv d; file_write P ft f b len d = Some (so, ws, d')\<rbrakk> \<Longrightarrow> seq_inv d'"
  unfolding file_write_def by (erule (2) seq_sequential) (rule handle_write_ends)

lemma files_request_cancel:
  assumes "driver_inv d" shows "files (request_cancel P t d) = files d"
proof -
  have "files (issue_cancel P t d) = files d"
    using issue_cancel_only [OF driver_invD(1) [OF assms], of P t] by (auto simp: cancels_only_def)
  then show ?thesis by (simp add: request_cancel_def split: option.split lifecycle.split)
qed

lemma seq_request_cancel:
  assumes "driver_inv d" shows "seq_same d (request_cancel P t d)"
  using keeps_request_cancel [OF assms, of P t] files_request_cancel [OF assms]
  by (simp add: seq_same_files keeps_def retains_def)

lemma seq_take_waker: "seq_same d (snd (take_driver_waker d))"
  by (rule seq_same_slab) (simp_all add: take_driver_waker_def)

lemma seq_detach:
  assumes "driver_inv d" shows "seq_same d (d\<lparr>slab := snd (slab_detach t (slab d))\<rparr>)"
proof -
  obtain r s where rs: "slab_detach t (slab d) = (r, s)" by (cases "slab_detach t (slab d)")
  note sp = detach_spec [OF driver_invD(1) [OF assms] rs]
  have "live_payloads (d\<lparr>slab := s\<rparr>) = live_payloads d"
    using sp by (auto simp: live_payloads_def fun_eq_iff split: option.splits entry.splits)
  then show ?thesis by (simp add: rs seq_same_files)
qed

lemma files_drop_future_cell [simp]: "files (drop_future_cell c d) = files d"
  by (simp add: drop_future_cell_def Let_def split: option.split prod.split)

lemma seq_drop:
  assumes inv: "driver_inv d" shows "seq_same d (snd (op_future_drop P alive borrowed f d))"
proof (cases "of_finished f \<or> \<not> alive \<or> borrowed")
  case True
  then show ?thesis by (simp add: op_future_drop_def seq_same_slab)
next
  case False
  let ?d1 = "d\<lparr>slab := snd (slab_detach (of_token f) (slab d))\<rparr>"
  have c: "seq_same e (drop_future_cell (of_cell f) e)" for e :: "'a driver" by (simp add: seq_same_slab)
  note d1 = seq_detach [OF inv, of "of_token f"]
  note d2 = seq_request_cancel [OF client_ok_inv [OF client_ok_detach [OF inv]], of "of_token f" P]
  have "seq_same d (drop_future_cell (of_cell f) (snd (take_driver_waker (request_cancel P (of_token f) ?d1))))"
    by (rule seq_same_trans [OF seq_same_trans [OF seq_same_trans [OF d1 d2] seq_take_waker] c])
  with seq_same_trans [OF d1 c] show ?thesis
    using op_future_drop_eq [OF inv, of f alive borrowed P] False by (simp add: Let_def)
qed

lemma seq_polled: "polled_to d d' \<Longrightarrow> seq_same d d'"
proof -
  have p: "seq_same e (snd (snd (poll_resolution w f e)))" for e :: "'a driver" and w f
    using poll_resolution_frame [of w f e] by (intro seq_same_slab) (metis prod.collapse)+
  have c: "seq_same e (set_cursor g c e)" for e :: "'a driver" and g c
    by (simp add: seq_same_def set_cursor_def set_file_def live_payloads_def seq_flag_def fun_eq_iff)
  assume "polled_to d d'"
  then obtain d1 g c where "d1 = d \<or> (\<exists>w f. d1 = snd (snd (poll_resolution w f d)))"
    "d' = d1 \<or> d' = set_cursor g c d1"
    unfolding polled_to_def by blast
  then have "seq_same d d1" "seq_same d1 d'" using p c seq_same_slab [of d d] seq_same_slab [of d1 d1] by auto
  then show ?thesis by (rule seq_same_trans)
qed

lemma client_step_seq:
  assumes "client_step P d ws d'" "driver_inv d" "seq_inv d" shows "seq_inv d'"
  using assms
proof (induction rule: client_step.induct)
  case (cs_read f b len off fl d st ws d')
  then show ?case using seq_ends [OF handle_read_ends] by blast
next
  case (cs_write f b len off wfl fl d fut ws d')
  then show ?case using seq_ends [OF handle_write_ends] by blast
next
  case (cs_flush f m fl d st ws d')
  from cs_flush(2) show ?case
  proof (cases rule: try_flush_cases [where P = P and f = f and m = m and fl = fl])
    case (failed e d1)
    with cs_flush seq_same_inv [OF seq_same_failed] show ?thesis by (simp add: handle_flush_def)
  next
    case (started t d1)
    with cs_flush seq_started [OF started(3)] show ?thesis by (simp add: handle_flush_def file_payload_def)
  qed
next
  case (cs_register_buffers bs d r ws d')
  from cs_register_buffers(2) show ?case
  proof (cases rule: register_buffers_cases [where P = P and bs = bs])
    case (failed e d1)
    with cs_register_buffers seq_same_inv [OF seq_same_failed] show ?thesis by simp
  next
    case (started t d1)
    with cs_register_buffers seq_started [OF started(5)] show ?thesis by (simp add: registration_payload_def)
  qed
next
  case (cs_register_files fs d r ws d')
  from cs_register_files(2) show ?case
  proof (cases rule: register_files_cases [where P = P and fs = fs])
    case (failed e d1)
    with cs_register_files seq_same_inv [OF seq_same_failed] show ?thesis by simp
  next
    case (started t d1)
    with cs_register_files seq_started [OF started(3)] show ?thesis by (simp add: registration_payload_def)
  qed
next
  case (cs_registered_op tg h bo len fo w d rst ws d')
  from cs_registered_op(2) show ?case
  proof (cases rule: try_registered_op_cases [where P = P and tg = tg and h = h and off = bo and len = len
      and fo = fo and w = w])
    case (failed e d1)
    with cs_registered_op seq_same_inv [OF seq_same_failed] show ?thesis by (simp add: registered_op_def)
  next
    case (started t d1)
    with cs_registered_op seq_started [OF started(3)] show ?thesis
      by (simp add: registered_op_def registered_payload_def)
  qed
next
  case (cs_file_read ft f b len d so ws d')
  then show ?case using seq_file_read by blast
next
  case (cs_file_write ft f b len d wso ws d')
  then show ?case using seq_file_write by blast
next
  case (cs_seq_read_poll w so d r so' d')
  then show ?case using seq_same_inv [OF seq_polled] sequential_read_poll_to by blast
next
  case (cs_seq_write_poll w wso d r wso' d')
  then show ?case using seq_same_inv [OF seq_polled] sequential_write_poll_to by blast
next
  case (cs_poll d w f)
  have "polled_to d (snd (snd (poll_resolution w f d)))" by (auto simp: polled_to_def)
  with cs_poll show ?case using seq_same_inv [OF seq_polled] by blast
next
  case (cs_drop d alive borrowed f)
  then show ?case using seq_same_inv [OF seq_drop] by blast
next
  case (cs_cancel d t)
  from seq_same_inv [OF seq_same_trans [OF seq_request_cancel seq_take_waker]] cs_cancel
  show ?case by (simp add: handle_cancel_def Let_def split_def)
next
  case (cs_set_cursor d f n)
  have "polled_to d (set_cursor f n d)" by (auto simp: polled_to_def)
  with cs_set_cursor show ?case using seq_same_inv [OF seq_polled] by blast
next
  case (cs_check_out alive me index d res d')
  then have "seq_same d d'"
    by (intro seq_same_slab) (auto simp: check_out_def split: if_splits option.splits)
  with cs_check_out show ?case by (simp add: seq_same_inv)
next
  case (cs_shutdown d)
  then show ?case
    by (intro seq_same_inv [OF seq_same_slab cs_shutdown(2)])
      (simp_all add: handle_shutdown_def escalate_def nudge_def take_driver_waker_def mark_nudged_def Let_def)
next
  case (cs_shutdown_now d)
  then show ?case
    by (intro seq_same_inv [OF seq_same_slab cs_shutdown_now(2)])
      (simp_all add: handle_shutdown_now_def escalate_def nudge_def take_driver_waker_def mark_nudged_def Let_def)
next
  case (cs_shutdown_poll d w sf)
  then show ?case
    by (intro seq_same_inv [OF seq_same_slab cs_shutdown_poll(2)])
      (simp_all add: shutdown_complete_poll_def Let_def split_def split: option.split)
next
  case (cs_shutdown_drop d borrowed sf)
  then show ?case
    by (intro seq_same_inv [OF seq_same_slab cs_shutdown_drop(2)])
      (simp_all add: shutdown_complete_drop_def split: option.split)
qed (auto intro: seq_same_inv [OF seq_same_slab])

section \<open>The driver\<close>

lemma files_settle: "settle_registration res q b d = Some (b', d') \<Longrightarrow> files d' = files d"
  by (auto simp: settle_registration_def adopt_registration_def Let_def
      split: option.splits pending_registration.splits sum.splits prod.splits)

lemma reap_one_seq:
  assumes inv: "driver_inv d" "seq_inv d" and r: "reap_one c d = Some (ws, d')" shows "seq_inv d'"
proof (cases "token_kind (from_user_data (cqe_user_data c))")
  case Cancel
  with r have d': "d' = reap_cancel (from_user_data (cqe_user_data c)) d" by (simp add: reap_one_def)
  have "seq_same d d'"
    using reap_one_step(3) [OF inv(1) r] Cancel by (intro seq_same_files) (simp_all add: names_def d' reap_cancel_def)
  with inv(2) show ?thesis by (simp add: seq_same_inv)
next
  case Operation
  let ?t = "from_user_data (cqe_user_data c)"
  have eq: "reap_operation c ?t d = Some (ws, d')" using r by (simp add: reap_one_def Operation)
  show ?thesis
  proof (cases "live_payloads d (token_key ?t)")
    case None
    with reap_dead [OF inv(1) Operation None, of c] eq inv(2) show ?thesis by simp
  next
    case (Some p)
    obtain s where s: "slab_complete ?t (slab d) = (Some p, s)"
      using complete_live [OF inv(1) Operation Some] by metis
    have "files d' = released (op_sequential p) (files d)"
      using eq by (auto simp: reap_operation_def s Let_def split_def dest!: files_settle split: option.splits)
    moreover have "live_payloads d' = (live_payloads d)(token_key ?t := None)"
      using reap_one_step(3) [OF inv(1) r] Operation by (auto simp: names_def fun_eq_iff)
    ultimately show ?thesis using seq_removed [OF inv(2) _ Some] by blast
  qed
qed

lemma reaps_seq: "\<lbrakk>reaps P d cs ws d'; driver_inv d; seq_inv d\<rbrakk> \<Longrightarrow> seq_inv d'"
proof (induction rule: reaps.induct)
  case (reaps_next d c k ws d1 cs ws' d')
  have i: "driver_inv (d\<lparr>kern := k\<rparr>)" using keeps_inv [OF keeps_kern [OF reaps_next.prems(1)]] .
  have s: "seq_inv (d\<lparr>kern := k\<rparr>)" using reaps_next.prems(2) by (rule seq_same_inv [OF seq_same_slab, rotated 2]) simp_all
  from reaps_next.IH [OF reap_one_step(1) [OF i reaps_next.hyps(2)] reap_one_seq [OF i s reaps_next.hyps(2)]]
  show ?case .
qed (auto intro: seq_same_inv [OF seq_same_slab] simp: report_def)

lemma files_issue_cancels: "slab_wf (slab d) \<Longrightarrow> files (issue_cancels P ts d) = files d"
  using issue_cancels_only [of d P ts] by (auto simp: cancels_only_def)

lemma files_submit_pending:
  assumes inv: "driver_inv d" shows "files (submit_pending P d) = files d"
proof -
  have ca: "files (cancel_abandoned P e) = files e" if e: "driver_inv e" for e :: "'a driver"
  proof -
    have i: "driver_inv (e\<lparr>deferred_cancels := []\<rparr>)"
      by (rule keeps_inv [OF keeps_quiet [OF e]]) (simp_all add: cells_kept_same regs_kept_same)
    note j = keeps_inv [OF keeps_issue_cancels [OF i]]
    show ?thesis
      using files_issue_cancels [OF driver_invD(1) [OF i]] files_issue_cancels [OF driver_invD(1) [OF j]]
      by (simp add: cancel_abandoned_def Let_def)
  qed
  show ?thesis
  proof (cases rule: submit_pending_cases [of d P])
    case (accepted entries k)
    from ca [OF keeps_inv [OF keeps_submitted [OF inv]]] accepted(3) show ?thesis by (simp add: submitted_def)
  next
    case (refused e k)
    then show ?thesis by (simp add: note_submit_failure_def Let_def report_def)
  qed simp
qed

lemma seq_submit_pending:
  assumes inv: "driver_inv d" shows "seq_same d (submit_pending P d)"
  using keeps_submit_pending [OF inv, of P] files_submit_pending [OF inv]
  by (simp add: seq_same_files keeps_def retains_def)

lemma seq_drain_prepared:
  assumes inv: "driver_inv d" shows "seq_same d (drain_prepared P d)"
proof (rule seq_same_files)
  show "live_payloads (drain_prepared P d) = live_payloads d"
    using keeps_drain_prepared [OF inv] by (simp add: keeps_def retains_def)
  note i = keeps_inv [OF keeps_submit_pending [OF inv]]
  have "files (drain_prepared P d) = files (submit_pending P d)"
    using files_issue_cancels [OF driver_invD(1) [OF i]] by (simp add: drain_prepared_def Let_def)
  moreover have "files (submit_pending P d) = files d" by (rule files_submit_pending [OF inv])
  ultimately show "files (drain_prepared P d) = files d" by simp
qed

text \<open>Closing drops every payload, and with it every guard.\<close>

lemma files_resolve_abandoned:
  "files (snd (resolve_abandoned p d)) = released (op_sequential p) (files d)"
proof -
  define d0 where "d0 = (case op_pending p of Some _ \<Rightarrow> drop_any (op_buffer p) d | None \<Rightarrow> d)"
  have "files d0 = files d" by (cases "op_pending p") (simp_all add: d0_def)
  then show ?thesis
    unfolding resolve_abandoned_def Let_def resolve_cell_eq d0_def [symmetric] by simp
qed

lemma flag_resolve_all:
  assumes "resolve_all ps (ws, d) = (ws', d')"
  shows "seq_flag d' f \<longleftrightarrow> seq_flag d f \<and> (\<forall>p \<in> set ps. op_sequential p \<noteq> Some f)"
  using assms
proof (induction ps arbitrary: ws d)
  case Nil
  then show ?case by (simp add: resolve_all_def)
next
  case (Cons p ps)
  have "seq_flag (snd (resolve_abandoned p d)) f \<longleftrightarrow> seq_flag d f \<and> op_sequential p \<noteq> Some f"
    by (auto simp: seq_flag_def files_resolve_abandoned released_def split: option.split)
  with Cons.IH [of "ws @ fst (resolve_abandoned p d)" "snd (resolve_abandoned p d)"] Cons.prems
  show ?case by (auto simp: resolve_all_Cons)
qed

lemma teardown_finish_seq:
  assumes inv: "driver_inv d" "seq_inv d" and sd: "shutdown d \<noteq> Running"
    and r: "teardown_finish P d = Some (ws, rs, d')"
  shows "seq_inv d'"
proof -
  from r obtain d1 where d1: "close_and_release P d = Some (ws, d1)" "d' = snd (take_reports d1)"
    by (auto simp: teardown_finish_def split: option.splits prod.splits)
  obtain ps s where ps: "slab_drain (slab d) = (ps, s)" by (cases "slab_drain (slab d)")
  with d1(1) obtain ri k ws1 d2 where ra: "resolve_all ps ([], d\<lparr>ring := ri, kern := k, slab := s\<rparr>) = (ws1, d2)"
    and f: "files d1 = files d2"
    by (auto simp: close_and_release_def Let_def split: option.splits prod.splits)
  note live = teardown_finish_closes(3) [OF inv(1) sd r]
  have "files d' = files d2" by (simp add: d1(2) f take_reports_def)
  then have flag: "seq_flag d' = seq_flag d2" by (simp add: seq_flag_def fun_eq_iff)
  have "\<not> seq_flag d2 g" for g
  proof
    assume g: "seq_flag d2 g"
    have "seq_flag (d\<lparr>ring := ri, kern := k, slab := s\<rparr>) g = seq_flag d g" by (simp add: seq_flag_def)
    with flag_resolve_all [OF ra, of g] g have g: "seq_flag d g" "\<forall>p \<in> set ps. op_sequential p \<noteq> Some g" by simp_all
    with inv(2) obtain j where "seq_of d j = Some g" unfolding seq_inv_def by blast
    then obtain p where "live_payloads d j = Some p" "op_sequential p = Some g"
      by (auto simp: seq_of_def bind_eq_Some_conv)
    with drained_payloads(3) [OF inv(1) ps] g(2) show False by blast
  qed
  with live flag show ?thesis by (simp add: seq_inv_def seq_of_def)
qed

lemma park_files: "park_poll t (d, s) = (r, d1, s1) \<Longrightarrow> seq_same d d1"
  by (drule park_poll_spec(1)) (auto intro: seq_same_slab)

lemma drive_resume_seq:
  assumes inv: "world_inv w" "seq_inv (w_driver w)"
    and r: "drive_resume P t (w_pc w) (w_driver w, w_armed w) = Some (pc', ws, rs, d', s')"
  shows "seq_inv d'"
proof -
  let ?d = "w_driver w" and ?s = "w_armed w"
  have d: "driver_inv ?d" using inv(1) by (simp add: world_inv_def)
  have park: "seq_inv d'"
    if p: "(case park_poll t (?d, ?s) of
        (PollReady, d', s') \<Rightarrow> (case park_drop False (d', s') of (d'', s'') \<Rightarrow> Some (PcPass, [], [], d'', s''))
      | (PollPending, d', s') \<Rightarrow> Some (PcParked, [], [], d', s')) = Some (pc', ws, rs, d', s')"
  proof -
    obtain res d1 s1 where pp: "park_poll t (?d, ?s) = (res, d1, s1)" by (cases "park_poll t (?d, ?s)")
    have "d' = d1 \<or> d' = snd (take_driver_waker d1)"
      using p pp by (auto simp: park_drop_def split: poll_unit.splits)
    then show ?thesis
      using seq_same_inv [OF park_files [OF pp] inv(2)] seq_same_inv [OF seq_take_waker] by auto
  qed
  have reaped: "seq_inv d1" if "reap_completions P d0 = Some (ws0, d1)" "seq_same ?d d0" "driver_inv d0" for d0 ws0 d1
    using that reaps_seq seq_same_inv [OF that(2) inv(2)] unfolding reap_completions_reaps by blast
  have rep: "seq_inv (snd (take_reports d1))" if "seq_inv d1" for d1 :: "'a driver"
    by (rule seq_same_inv [OF seq_same_slab that]) (simp_all add: take_reports_def)
  show ?thesis
  proof (cases "w_pc w")
    case PcPass
    from r PcPass obtain ws0 d1 where "reap_completions P (submit_pending P ?d) = Some (ws0, d1)"
      "d' = snd (take_reports d1)"
      by (auto simp: drive_resume_def drive_pass_def split: option.splits prod.splits)
    with rep [OF reaped [OF _ seq_submit_pending [OF d] keeps_inv [OF keeps_submit_pending [OF d]]]]
    show ?thesis by blast
  next
    case (PcDrain n)
    show ?thesis
    proof (cases "torn_down ?d")
      case True
      with r PcDrain inv(2) show ?thesis by (simp add: drive_resume_def)
    next
      case False
      with r PcDrain obtain ws0 d1 n' where "reap_completions P (drain_prepared P ?d) = Some (ws0, d1)"
        "d' = snd (take_reports (report_slow_drain n' d1))"
        by (auto simp: drive_resume_def teardown_step_def drain_step_eq [OF d] Let_def
            split: option.splits prod.splits) (metis snd_conv)
      moreover have "seq_same e (report_slow_drain n' e)" for e :: "'a driver"
        by (rule seq_same_slab) (simp_all add: report_slow_drain_def Let_def)
      ultimately show ?thesis
        using rep seq_same_inv reaped [OF _ seq_drain_prepared [OF d] keeps_inv [OF keeps_drain_prepared [OF d]]]
        by blast
    qed
  next
    case PcClose
    with r have "teardown_finish P ?d = Some (ws, rs, d')"
      by (auto simp: drive_resume_def split: option.splits)
    with teardown_finish_seq [OF d inv(2)] inv(1) PcClose show ?thesis
      by (simp add: world_inv_def pc_ok_def)
  qed (use r park inv(2) in \<open>simp_all add: drive_resume_def\<close>)
qed

lemma world_step_seq:
  assumes "world_step P w cs w'" "world_inv w" "seq_inv (w_driver w)" shows "seq_inv (w_driver w')"
  using assms(1)
proof (cases rule: world_step.cases)
  case (ws_client ws d')
  with client_step_seq [OF ws_client(3)] assms(2,3) show ?thesis by (simp add: world_inv_def)
next
  case (ws_resume t pc' ws rs d' s')
  with drive_resume_seq [OF assms(2,3)] show ?thesis by simp
next
  case (ws_drive_drop borrowed pc' d' s')
  have "d' = w_driver w \<or> d' = snd (take_driver_waker (w_driver w))"
    using ws_drive_drop(3) by (auto simp: drive_drop_def park_drop_def split: if_splits)
  with assms(3) seq_same_inv [OF seq_take_waker] show ?thesis by (auto simp: ws_drive_drop(2))
next
  case ws_driver_drop
  with assms(3) show ?thesis by (auto intro: seq_same_inv [OF seq_same_slab])
qed (use assms(3) in simp)

lemma world_run_seq:
  "\<lbrakk>world_run P w cs w'; world_inv w; seq_inv (w_driver w)\<rbrakk> \<Longrightarrow> seq_inv (w_driver w')"
  by (induction rule: world_run.induct) (auto intro: world_step_seq world_step_inv)

lemma reachable_seq: "reachable P w \<Longrightarrow> seq_inv (w_driver w)"
  unfolding reachable_def
proof (elim exE conjE)
  fix r h k t cs
  assume r: "\<not> ring_closed r"
    and run: "world_run P (world_initial (driver_initial r (\<lambda>f. file_state_new (h f)) k) t) cs w"
  have "world_inv (world_initial (driver_initial r (\<lambda>f. file_state_new (h f)) k) t)"
    using initial_inv [OF r] by (simp add: world_initial_def world_inv_def pc_ok_def)
  moreover have "seq_inv (driver_initial r (\<lambda>f. file_state_new (h f)) k)"
    by (simp add: seq_inv_def seq_of_def seq_flag_def live_payloads_def driver_initial_def file_state_new_def)
  ultimately show "seq_inv (w_driver w)"
    using world_run_seq [OF run] by (simp add: world_initial_def)
qed

section \<open>What moves no cursor\<close>

definition same_cursors :: "'k driver \<Rightarrow> 'k driver \<Rightarrow> bool" where
  "same_cursors d d' \<longleftrightarrow> (\<forall>f. file_cursor f d' = file_cursor f d)"

lemma same_cursors_files: "files d' = files d \<Longrightarrow> same_cursors d d'"
  by (simp add: same_cursors_def file_cursor_def)

lemma same_cursors_released: "files d' = released x (files d) \<Longrightarrow> same_cursors d d'"
  by (auto simp: same_cursors_def file_cursor_def released_def split: option.split)

lemma same_cursors_trans [trans]: "\<lbrakk>same_cursors a b; same_cursors b c\<rbrakk> \<Longrightarrow> same_cursors a c"
  by (simp add: same_cursors_def)

lemma same_cursors_started: "started p t d d' \<Longrightarrow> same_cursors d d'"
  by (simp add: same_cursors_files started_def)

lemma same_cursors_ends:
  "keeps d d' \<and> files d' = released x (files d) \<or> (\<exists>t p. started p t d d' \<and> op_sequential p = x) \<Longrightarrow> same_cursors d d'"
  using same_cursors_released same_cursors_started by blast

lemmas read_same_cursors = handle_read_ends [THEN same_cursors_ends]
lemmas write_same_cursors = handle_write_ends [THEN same_cursors_ends]

lemma start_sequential_same_cursors:
  assumes inv: "driver_inv d" and r: "start_sequential ft f b start d = Some (so, ws, d')"
    and start: "\<And>n g d1 fut ws d2. \<lbrakk>driver_inv d1; start n g d1 = Some (fut, ws, d2)\<rbrakk> \<Longrightarrow> same_cursors d1 d2"
  shows "same_cursors d d'"
  using r
proof (cases rule: start_sequential_cases)
  case (refused st e)
  have "fs_cursor st = fs_cursor (files d f)" by (subst refused(5)) simp
  then show ?thesis by (simp add: refused(1) same_cursors_def set_file_def file_cursor_def)
next
  case (passed st fut)
  have "fs_cursor st = fs_cursor (files d f)" by (subst passed(4)) simp
  then have "same_cursors d (set_file f st d)" by (simp add: same_cursors_def set_file_def file_cursor_def)
  moreover have "driver_inv (set_file f st d)"
    using client_ok_inv [OF client_ok_files [OF inv]] by (simp add: set_file_def)
  from start [OF this passed(1)] have "same_cursors (set_file f st d) d'" .
  ultimately show ?thesis by (rule same_cursors_trans)
qed

lemma flush_same_cursors:
  assumes "driver_inv d" "handle_flush P f m fl d = Some (st, ws, d')" shows "same_cursors d d'"
  using assms(1)
proof (cases rule: try_flush_cases [where P = P and f = f and m = m and fl = fl])
  case (failed e d1)
  with assms(2) show ?thesis by (simp add: handle_flush_def same_cursors_files)
next
  case (started t d1)
  with assms(2) same_cursors_started [OF started(3)] show ?thesis by (simp add: handle_flush_def)
qed

lemma registered_op_same_cursors:
  assumes "driver_inv d" "registered_op P tg h bo len fo w d = Some (st, ws, d')" shows "same_cursors d d'"
  using assms(1)
proof (cases rule: try_registered_op_cases [where P = P and tg = tg and h = h and off = bo and len = len
      and fo = fo and w = w])
  case (failed e d1)
  with assms(2) show ?thesis by (simp add: registered_op_def same_cursors_files)
next
  case (started t d1)
  with assms(2) same_cursors_started [OF started(3)] show ?thesis by (simp add: registered_op_def)
qed

lemma register_buffers_same_cursors:
  assumes "driver_inv d" "register_buffers P bs d = Some (r, ws, d')" shows "same_cursors d d'"
  using assms(1)
proof (cases rule: register_buffers_cases [where P = P and bs = bs])
  case (failed e d1)
  with assms(2) show ?thesis by (simp add: same_cursors_files)
next
  case (started t d1)
  with assms(2) same_cursors_started [OF started(5)] show ?thesis by simp
qed

lemma register_files_same_cursors:
  assumes "driver_inv d" "register_files P fs d = Some (r, ws, d')" shows "same_cursors d d'"
  using assms(1)
proof (cases rule: register_files_cases [where P = P and fs = fs])
  case (failed e d1)
  with assms(2) show ?thesis by (simp add: same_cursors_files)
next
  case (started t d1)
  with assms(2) same_cursors_started [OF started(3)] show ?thesis by simp
qed

lemma poll_resolution_files [simp]: "files (snd (snd (poll_resolution w f d))) = files d"
  by (metis poll_resolution_frame prod.collapse)

text \<open>The polls that resolve a future and touch no file.\<close>

lemma polls_keep_files:
  "positional_read_poll w st d = Some (r1, st1, d') \<Longrightarrow> files d' = files d"
  "positional_write_poll w fut d = Some (r2, fut2, d') \<Longrightarrow> files d' = files d"
  "file_flush_poll w fs d = Some (r3, fs3, d') \<Longrightarrow> files d' = files d"
  "registered_future_poll w rst d = Some (r4, rst4, d') \<Longrightarrow> files d' = files d"
  "files (snd (snd (registration_poll w f d))) = files d"
proof -
  have flush: "files d' = files d" if "flush_future_poll w fs d = Some (r, fs', d')" for r fs'
    using that by (auto simp: flush_future_poll_def dest: poll_resolution_frame split: flush_state.splits option.splits prod.splits poll.splits)
  show "positional_read_poll w st d = Some (r1, st1, d') \<Longrightarrow> files d' = files d"
    by (auto simp: positional_read_poll_def dest: polled_files(1) split: option.splits prod.splits poll.splits)
  show "positional_write_poll w fut d = Some (r2, fut2, d') \<Longrightarrow> files d' = files d"
    by (auto simp: positional_write_poll_def dest: polled_files(2) split: option.splits prod.splits poll.splits)
  show "file_flush_poll w fs d = Some (r3, fs3, d') \<Longrightarrow> files d' = files d"
    by (auto simp: file_flush_poll_def dest: flush split: option.splits prod.splits poll.splits)
  show "registered_future_poll w rst d = Some (r4, rst4, d') \<Longrightarrow> files d' = files d"
    by (auto simp: registered_future_poll_def dest: poll_resolution_frame split: buf_op_state.splits option.splits prod.splits poll.splits)
  show "files (snd (snd (registration_poll w f d))) = files d"
    by (auto simp: registration_poll_def dest: poll_resolution_frame split: prod.splits poll.splits)
qed

lemma files_future_drop:
  assumes inv: "driver_inv d" shows "files (snd (op_future_drop P alive borrowed f d)) = files d"
proof (cases "of_finished f \<or> \<not> alive \<or> borrowed")
  case True
  then show ?thesis by (simp add: op_future_drop_def)
next
  case False
  have "files (request_cancel P t (d\<lparr>slab := snd (slab_detach t (slab d))\<rparr>)) = files d" for t
    using files_request_cancel [OF client_ok_inv [OF client_ok_detach [OF inv]]] by simp
  then show ?thesis
    using op_future_drop_eq [OF inv, of f alive borrowed P] False by (simp add: Let_def take_driver_waker_def)
qed

lemma reap_one_same_cursors:
  assumes inv: "driver_inv d" and r: "reap_one c d = Some (ws, d')" shows "same_cursors d d'"
proof (cases "token_kind (from_user_data (cqe_user_data c))")
  case Cancel
  with r show ?thesis by (auto simp: reap_one_def reap_cancel_def Let_def same_cursors_files)
next
  case Operation
  let ?t = "from_user_data (cqe_user_data c)"
  have eq: "reap_operation c ?t d = Some (ws, d')" using r by (simp add: reap_one_def Operation)
  show ?thesis
  proof (cases "live_payloads d (token_key ?t)")
    case None
    with reap_dead [OF inv Operation None, of c] eq show ?thesis by (simp add: same_cursors_files)
  next
    case (Some p)
    obtain s where s: "slab_complete ?t (slab d) = (Some p, s)"
      using complete_live [OF inv Operation Some] by metis
    have "files d' = released (op_sequential p) (files d)"
      using eq by (auto simp: reap_operation_def s Let_def split_def dest!: files_settle split: option.splits)
    then show ?thesis by (rule same_cursors_released)
  qed
qed

lemma reaps_same_cursors: "\<lbrakk>reaps P d cs ws d'; driver_inv d\<rbrakk> \<Longrightarrow> same_cursors d d'"
proof (induction rule: reaps.induct)
  case (reaps_next d c k ws d1 cs ws' d')
  have i: "driver_inv (d\<lparr>kern := k\<rparr>)" using keeps_inv [OF keeps_kern [OF reaps_next.prems(1)]] .
  have "same_cursors d (d\<lparr>kern := k\<rparr>)" by (simp add: same_cursors_files)
  also have "same_cursors (d\<lparr>kern := k\<rparr>) d1" by (rule reap_one_same_cursors [OF i reaps_next.hyps(2)])
  also have "same_cursors d1 d'" by (rule reaps_next.IH [OF reap_one_step(1) [OF i reaps_next.hyps(2)]])
  finally show ?case .
qed (auto simp: report_def same_cursors_files)

lemma resolve_all_same_cursors: "resolve_all ps (ws, d) = (ws', d') \<Longrightarrow> same_cursors d d'"
proof (induction ps arbitrary: ws d)
  case Nil
  then show ?case by (simp add: resolve_all_def same_cursors_files)
next
  case (Cons p ps)
  then have "resolve_all ps (ws @ fst (resolve_abandoned p d), snd (resolve_abandoned p d)) = (ws', d')"
    by (simp add: resolve_all_Cons)
  with same_cursors_released [OF files_resolve_abandoned] Cons.IH same_cursors_trans show ?case by blast
qed

lemma teardown_finish_same_cursors:
  assumes "teardown_finish P d = Some (ws, rs, d')" shows "same_cursors d d'"
proof -
  from assms obtain d1 where d1: "close_and_release P d = Some (ws, d1)" "d' = snd (take_reports d1)"
    by (auto simp: teardown_finish_def split: option.splits prod.splits)
  obtain ps s where ps: "slab_drain (slab d) = (ps, s)" by (cases "slab_drain (slab d)")
  with d1(1) obtain ri k ws1 d2 where ra: "resolve_all ps ([], d\<lparr>ring := ri, kern := k, slab := s\<rparr>) = (ws1, d2)"
    and f: "files d1 = files d2"
    by (auto simp: close_and_release_def Let_def split: option.splits prod.splits)
  have "same_cursors d (d\<lparr>ring := ri, kern := k, slab := s\<rparr>)" by (simp add: same_cursors_files)
  also have "same_cursors (d\<lparr>ring := ri, kern := k, slab := s\<rparr>) d2" by (rule resolve_all_same_cursors [OF ra])
  also have "same_cursors d2 d'" using f by (simp add: same_cursors_files d1(2) take_reports_def)
  finally show ?thesis .
qed

lemma files_drain_prepared:
  assumes inv: "driver_inv d" shows "files (drain_prepared P d) = files d"
proof -
  note i = keeps_inv [OF keeps_submit_pending [OF inv]]
  show ?thesis
    using files_issue_cancels [OF driver_invD(1) [OF i]] files_submit_pending [OF inv]
    by (simp add: drain_prepared_def Let_def)
qed

lemma drive_resume_same_cursors:
  assumes inv: "driver_inv d" and r: "drive_resume P t pc (d, s) = Some (pc', ws, rs, d', s')"
  shows "same_cursors d d'"
proof -
  have park: "same_cursors d d'"
    if p: "(case park_poll t (d, s) of
        (PollReady, d', s') \<Rightarrow> (case park_drop False (d', s') of (d'', s'') \<Rightarrow> Some (PcPass, [], [], d'', s''))
      | (PollPending, d', s') \<Rightarrow> Some (PcParked, [], [], d', s')) = Some (pc', ws, rs, d', s')"
  proof -
    obtain res d1 s1 where pp: "park_poll t (d, s) = (res, d1, s1)" by (cases "park_poll t (d, s)")
    have "d' = d1 \<or> d' = snd (take_driver_waker d1)"
      using p pp by (auto simp: park_drop_def split: poll_unit.splits)
    moreover have "files d1 = files d" using park_poll_spec(1) [OF pp] by auto
    ultimately show ?thesis by (auto simp: same_cursors_files take_driver_waker_def)
  qed
  have reaped: "same_cursors d d'"
    if "reap_completions P d0 = Some (ws0, d1)" "files d0 = files d" "driver_inv d0" "files d' = files d1" for d0 ws0 d1
  proof -
    have "same_cursors d0 d1" using that(1,3) reaps_same_cursors unfolding reap_completions_reaps by blast
    then show ?thesis using that(2,4) by (simp add: same_cursors_def file_cursor_def)
  qed
  show ?thesis
  proof (cases pc)
    case PcPass
    from r PcPass obtain ws0 d1 where "reap_completions P (submit_pending P d) = Some (ws0, d1)"
      "d' = snd (take_reports d1)"
      by (auto simp: drive_resume_def drive_pass_def split: option.splits prod.splits)
    then show ?thesis
      using reaped [OF _ files_submit_pending [OF inv] keeps_inv [OF keeps_submit_pending [OF inv]]]
      by (simp add: take_reports_def)
  next
    case (PcDrain n)
    show ?thesis
    proof (cases "torn_down d")
      case True
      with r PcDrain show ?thesis by (simp add: drive_resume_def same_cursors_files)
    next
      case False
      with r PcDrain obtain ws0 d1 n' where "reap_completions P (drain_prepared P d) = Some (ws0, d1)"
        "d' = snd (take_reports (report_slow_drain n' d1))"
        by (auto simp: drive_resume_def teardown_step_def drain_step_eq [OF inv] Let_def
            split: option.splits prod.splits) (metis snd_conv)
      then show ?thesis
        using reaped [OF _ files_drain_prepared [OF inv] keeps_inv [OF keeps_drain_prepared [OF inv]]]
        by (simp add: take_reports_def report_slow_drain_def Let_def)
    qed
  next
    case PcClose
    with r show ?thesis
      by (auto simp: drive_resume_def split: option.splits intro: teardown_finish_same_cursors)
  qed (use r park in \<open>simp_all add: drive_resume_def same_cursors_files\<close>)
qed

section \<open>The properties\<close>

text \<open>
  C11: One sequential operation per file is with the driver, even when its future is gone. In
  every reachable world a file's flag is set exactly while a live operation holds its guard,
  and no two live operations hold the guard of one file. While it is set, a sequential read or
  write is refused and gives its buffer back: nothing is woken, no operation is added, and of
  the file's state only the cached type may change.
\<close>

theorem sequential_exclusive:
  assumes "reachable P w"
  defines "d \<equiv> w_driver w"
  shows "(sequential_outstanding f d \<longleftrightarrow> (\<exists>k p. live_payloads d k = Some p \<and> op_sequential p = Some f)) \<and>
    (\<forall>k k' p p'. live_payloads d k = Some p \<and> live_payloads d k' = Some p' \<and>
       op_sequential p = Some f \<and> op_sequential p' = Some f \<longrightarrow> k = k') \<and>
    (sequential_outstanding f d \<longrightarrow>
       (\<exists>e d'. file_read P ft f b len d = Some (sequential_rejected f e b, [], d') \<and>
          file_write P ft f b len d = Some (sequential_rejected f e b, [], d') \<and>
          (e = FiOperationOutstanding \<or> (\<exists>ty. e = FiNotSeekable ty)) \<and>
          live_payloads d' = live_payloads d \<and> (\<forall>g. file_cursor g d' = file_cursor g d)))"
proof -
  have inv: "seq_inv d" using reachable_seq [OF assms(1)] by (simp add: d_def)
  have 1: "sequential_outstanding f d \<longleftrightarrow> (\<exists>k p. live_payloads d k = Some p \<and> op_sequential p = Some f)"
    using inv by (simp add: seq_inv_def seq_of_def seq_flag_def sequential_outstanding_def bind_eq_Some_conv)
  have 2: "k = k'" if "live_payloads d k = Some p" "live_payloads d k' = Some p'"
      "op_sequential p = Some f" "op_sequential p' = Some f" for k k' p p'
    using inv that by (auto simp: seq_inv_def seq_of_def)
  have 3: "\<exists>e d'. (\<forall>start :: _ \<Rightarrow> _ \<Rightarrow> _ \<Rightarrow> ('s \<times> _ \<times> _) option.
        start_sequential ft f b start d = Some (sequential_rejected f e b, [], d')) \<and>
      (\<forall>start :: _ \<Rightarrow> _ \<Rightarrow> _ \<Rightarrow> ('t \<times> _ \<times> _) option.
        start_sequential ft f b start d = Some (sequential_rejected f e b, [], d')) \<and>
      (e = FiOperationOutstanding \<or> (\<exists>ty. e = FiNotSeekable ty)) \<and>
      live_payloads d' = live_payloads d \<and> (\<forall>g. file_cursor g d' = file_cursor g d)"
    if out: "sequential_outstanding f d"
  proof -
    obtain r d1 where ck: "check_has_file_offset ft f d = (r, d1)" by (cases "check_has_file_offset ft f d")
    have d1: "d1 = d \<or> (\<exists>y. d1 = set_file f ((files d f)\<lparr>fs_type := y\<rparr>) d)"
      using ck by (auto simp: check_has_file_offset_def Let_def split: option.splits)
    have e: "\<exists>ty. e = FiNotSeekable ty" if "r = Inl e" for e
      using ck that by (auto simp: check_has_file_offset_def Let_def split: if_splits option.splits)
    have f1: "live_payloads d1 = live_payloads d" "file_cursor g d1 = file_cursor g d" "fs_sequential (files d1 f)" for g
      using d1 out by (auto simp: set_file_def live_payloads_def fun_eq_iff file_cursor_def sequential_outstanding_def)
    show ?thesis
    proof (cases r)
      case (Inl x)
      with ck e [OF Inl] f1 show ?thesis by (intro exI [of _ x] exI [of _ d1]) (simp add: start_sequential_def)
    next
      case (Inr u)
      let ?d2 = "snd (sequential_claim f d1)"
      have "live_payloads ?d2 = live_payloads d" "file_cursor g ?d2 = file_cursor g d" for g
        using f1 by (simp_all add: sequential_claim_def set_file_def live_payloads_def fun_eq_iff file_cursor_def)
      then show ?thesis using ck Inr f1(3)
        by (intro exI [of _ FiOperationOutstanding] exI [of _ ?d2])
          (simp add: start_sequential_def sequential_claim_def)
    qed
  qed
  show ?thesis
    using 1 2 3 unfolding file_read_def file_write_def by blast
qed

text \<open>A sequential read of a disk file, and a second one while the first is outstanding.\<close>

definition disk_type :: "handle \<Rightarrow> u32" where
  "disk_type h = FILE_TYPE_DISK"

definition seq_reading :: "cqe list driver" where
  "seq_reading = snd (snd (the (file_read queue_platform disk_type 0 sample_buf 4 sample_driver)))"

lemma seq_reading_started:
  "file_read queue_platform disk_type 0 sample_buf 4 sample_driver
     = Some (\<lparr>so_inner = Some (BufWaiting (op_future_pending tok0 0)), so_rejected = None, so_state = 0\<rparr>, [], seq_reading) \<and>
   sequential_outstanding 0 seq_reading"
  by (simp add: seq_reading_def file_read_def start_sequential_def check_has_file_offset_def disk_type_def
      raw_handle_def set_file_def sequential_claim_def sequential_outstanding_def handle_read_def start_eval sample_driver_def sample_ring_def
      sample_file_def driver_initial_def sample_buf_def FILE_TYPE_DISK_def FILE_TYPE_PIPE_def FILE_TYPE_CHAR_def
      file_cursor_def)

lemma seq_reading_reachable: "reachable queue_platform (sample_world seq_reading)"
proof (rule reachable_run [OF sample_reachable])
  have "client_step queue_platform sample_driver [] seq_reading"
    by (rule cs_file_read) (rule conjunct1 [OF seq_reading_started])
  then show "world_run queue_platform (sample_world sample_driver) [] (sample_world seq_reading)"
    using world_client_run [where w = "sample_world sample_driver", OF _ _]
    by (fastforce simp: sample_world_def world_initial_def)
qed

theorem sequential_exclusive_witness:
  "\<exists>e d'. file_write queue_platform disk_type 0 sample_buf 4 seq_reading
     = Some (sequential_rejected 0 e sample_buf, [], d') \<and> live_payloads d' = live_payloads seq_reading"
  using sequential_exclusive [OF seq_reading_reachable, where f = 0 and ft = disk_type and b = sample_buf and len = 4]
    conjunct2 [OF seq_reading_started]
  by (auto simp: sample_world_def world_initial_def)

text \<open>
  Every other call, by name, with the driver it leaves: the starts of operations of all kinds, the
  polls that are not of a sequential read or write, the drops, the registrations, shutting down, the
  kernel, and the driver's own coroutine.
\<close>

inductive elsewhere :: "'k platform \<Rightarrow> 'k world \<Rightarrow> 'k driver \<Rightarrow> bool" for P :: "'k platform" and w :: "'k world" where
  el_read: "file_read P ft f b len (w_driver w) = Some (so, ws, d') \<Longrightarrow> elsewhere P w d'"
| el_write: "file_write P ft f b len (w_driver w) = Some (wso, ws, d') \<Longrightarrow> elsewhere P w d'"
| el_read_at: "file_read_at P f b len off (w_driver w) = Some (st, ws, d') \<Longrightarrow> elsewhere P w d'"
| el_write_at: "file_write_at P f b len off (w_driver w) = Some (fut, ws, d') \<Longrightarrow> elsewhere P w d'"
| el_flush: "file_flush P f (w_driver w) = Some (fs, ws, d') \<Longrightarrow> elsewhere P w d'"
| el_flush_mode: "file_flush_with_mode P f m (w_driver w) = Some (fs, ws, d') \<Longrightarrow> elsewhere P w d'"
| el_handle_read: "handle_read P f b len off fl None (w_driver w) = Some (st, ws, d') \<Longrightarrow> elsewhere P w d'"
| el_handle_write: "handle_write P f b len off wfl fl None (w_driver w) = Some (fut, ws, d') \<Longrightarrow> elsewhere P w d'"
| el_handle_flush: "handle_flush P f m fl (w_driver w) = Some (fs, ws, d') \<Longrightarrow> elsewhere P w d'"
| el_registered: "registered_op P tg h bo len fo write (w_driver w) = Some (rst, ws, d') \<Longrightarrow> elsewhere P w d'"
| el_register_buffers: "register_buffers P bs (w_driver w) = Some (rb, ws, d') \<Longrightarrow> elsewhere P w d'"
| el_register_files: "register_files P fids (w_driver w) = Some (rf, ws, d') \<Longrightarrow> elsewhere P w d'"
| el_check_out: "check_out alive me index (w_driver w) = Some (res, d') \<Longrightarrow> elsewhere P w d'"
| el_check_in: "elsewhere P w (drop_reg_buf h (w_driver w))"
| el_fill: "elsewhere P w ((w_driver w)\<lparr>regs := (regs (w_driver w))(r := map_option (set_initialized i n) (regs (w_driver w) r))\<rparr>)"
| el_read_at_poll: "positional_read_poll wk st (w_driver w) = Some (r1, st1, d') \<Longrightarrow> elsewhere P w d'"
| el_write_at_poll: "positional_write_poll wk fut (w_driver w) = Some (r2, fut2, d') \<Longrightarrow> elsewhere P w d'"
| el_flush_poll: "file_flush_poll wk fs (w_driver w) = Some (r3, fs3, d') \<Longrightarrow> elsewhere P w d'"
| el_registered_poll: "registered_future_poll wk rst (w_driver w) = Some (r4, rst4, d') \<Longrightarrow> elsewhere P w d'"
| el_registration_poll: "elsewhere P w (snd (snd (registration_poll wk f (w_driver w))))"
| el_poll: "elsewhere P w (snd (snd (poll_resolution wk f (w_driver w))))"
| el_drop: "elsewhere P w (snd (op_future_drop P alive borrowed f (w_driver w)))"
| el_cancel: "elsewhere P w (snd (handle_cancel P t (w_driver w)))"
| el_shutdown: "elsewhere P w (snd (handle_shutdown (w_driver w)))"
| el_shutdown_now: "elsewhere P w (snd (handle_shutdown_now (w_driver w)))"
| el_shutdown_poll: "elsewhere P w (snd (snd (shutdown_complete_poll wk sf (w_driver w))))"
| el_shutdown_drop: "elsewhere P w (shutdown_complete_drop borrowed sf (w_driver w))"
| el_kernel: "elsewhere P w ((w_driver w)\<lparr>kern := k\<rparr>)"
| el_signal: "elsewhere P w (w_driver w)"
| el_resume: "drive_resume P t (w_pc w) (w_driver w, w_armed w) = Some (pc', ws, rs, d', s') \<Longrightarrow> elsewhere P w d'"
| el_drive_drop: "drive_drop borrowed (w_pc w) (w_driver w, w_armed w) = (pc', d', s') \<Longrightarrow> elsewhere P w d'"
| el_driver_drop: "elsewhere P w ((w_driver w)\<lparr>shutdown := max (shutdown (w_driver w)) Immediate\<rparr>)"

lemma elsewhere_same_cursors:
  assumes "elsewhere P w d'" "driver_inv (w_driver w)" shows "same_cursors (w_driver w) d'"
  using assms(1)
proof cases
  case (el_read ft f b len so ws)
  from start_sequential_same_cursors [OF assms(2) el_read [unfolded file_read_def] read_same_cursors] show ?thesis .
next
  case (el_write ft f b len so ws)
  from start_sequential_same_cursors [OF assms(2) el_write [unfolded file_write_def] write_same_cursors] show ?thesis .
next
  case (el_check_out alive me index res)
  then have "files d' = files (w_driver w)" by (auto simp: check_out_def split: if_splits option.splits)
  then show ?thesis by (rule same_cursors_files)
next
  case (el_cancel t)
  then show ?thesis
    using files_request_cancel [OF assms(2)]
    by (simp add: same_cursors_files handle_cancel_def Let_def split_def take_driver_waker_def)
next
  case (el_resume t pc' ws rs s')
  then show ?thesis using drive_resume_same_cursors [OF assms(2)] by blast
next
  case (el_drive_drop borrowed pc' s')
  then have "d' = w_driver w \<or> d' = snd (take_driver_waker (w_driver w))"
    by (auto simp: drive_drop_def park_drop_def split: if_splits)
  then show ?thesis by (auto simp: same_cursors_files take_driver_waker_def)
qed (use assms(2) in \<open>auto simp: file_read_at_def file_write_at_def file_flush_def file_flush_with_mode_def
      handle_shutdown_def handle_shutdown_now_def escalate_def nudge_def take_driver_waker_def mark_nudged_def Let_def
      shutdown_complete_poll_def shutdown_complete_drop_def files_future_drop polls_keep_files split_def
      split: option.split
      intro: same_cursors_files polls_keep_files read_same_cursors write_same_cursors flush_same_cursors
        registered_op_same_cursors register_buffers_same_cursors register_files_same_cursors\<close>)

text \<open>The cursor \<open>n\<close> of file \<open>g\<close> after a poll of a sequential operation on file \<open>f\<close>.\<close>

definition cursor_after :: "fid \<Rightarrow> file_outcome poll \<Rightarrow> fid \<Rightarrow> u64 \<Rightarrow> u64" where
  "cursor_after f r g n =
     (case r of
        Ready out \<Rightarrow> (case br_result out of
            Inr k \<Rightarrow> if g = f then saturating_add n (ucast k) else n
          | Inl _ \<Rightarrow> n)
      | NotReady \<Rightarrow> n)"

lemma sequential_poll_cursor:
  assumes "sequential_poll ip so d = Some (r, so', d')"
    and "\<And>st r st' d1. ip st d = Some (r, st', d1) \<Longrightarrow> files d1 = files d"
  shows "file_cursor g d' = cursor_after (so_state so) r g (file_cursor g d)"
proof -
  have c: "file_cursor h d1 = file_cursor h d" if "ip st d = Some (x, st', d1)" for st x st' d1 h
    using assms(2) [OF that] by (simp add: file_cursor_def)
  from assms(1) show ?thesis
    by (auto simp: sequential_poll_def cursor_after_def c buf_result_new_def split: option.splits prod.splits poll.splits sum.splits)
qed

text \<open>
  C12: The cursor moves by what a sequential operation is seen to have transferred, or where its
  owner sets it, and by nothing else. In every reachable world a step is a poll of a
  sequential read or write, a \<open>set_cursor\<close>, or one of the calls of \<open>elsewhere\<close>, and these leave every
  cursor where it is: starting any operation, sequential ones included, polling or dropping any
  other future, registering and using registered buffers, cancelling, shutting down, and every
  turn of the driver. A poll of a sequential read or write that is ready with \<open>n\<close> bytes moves
  its own file's cursor forward by \<open>n\<close>, stopping at the largest offset; a poll that fails or is
  pending moves nothing, and no other file's cursor changes. \<open>set_cursor\<close> sets the one cursor.
\<close>

theorem cursor_follows_transfers:
  assumes "reachable P w"
  shows "(\<forall>cs w'. world_step P w cs w' \<longrightarrow> elsewhere P w (w_driver w') \<or>
      (\<exists>f n. w_driver w' = set_cursor f n (w_driver w)) \<or>
      (\<exists>wk so r so'. sequential_read_poll wk so (w_driver w) = Some (r, so', w_driver w')) \<or>
      (\<exists>wk so r so'. sequential_write_poll wk so (w_driver w) = Some (r, so', w_driver w'))) \<and>
    (\<forall>d' g. elsewhere P w d' \<longrightarrow> file_cursor g d' = file_cursor g (w_driver w)) \<and>
    (\<forall>wk so r so' d' g. sequential_read_poll wk so (w_driver w) = Some (r, so', d') \<longrightarrow>
      file_cursor g d' = cursor_after (so_state so) r g (file_cursor g (w_driver w))) \<and>
    (\<forall>wk so r so' d' g. sequential_write_poll wk so (w_driver w) = Some (r, so', d') \<longrightarrow>
      file_cursor g d' = cursor_after (so_state so) r g (file_cursor g (w_driver w))) \<and>
    (\<forall>f n g. file_cursor g (set_cursor f n (w_driver w)) = (if g = f then n else file_cursor g (w_driver w)))"
proof (intro conjI allI impI)
  fix cs w' assume "world_step P w cs w'"
  then show "elsewhere P w (w_driver w') \<or> (\<exists>f n. w_driver w' = set_cursor f n (w_driver w)) \<or>
      (\<exists>wk so r so'. sequential_read_poll wk so (w_driver w) = Some (r, so', w_driver w')) \<or>
      (\<exists>wk so r so'. sequential_write_poll wk so (w_driver w) = Some (r, so', w_driver w'))"
  proof cases
    case (ws_client ws d')
    from ws_client(3) show ?thesis by cases (auto simp: ws_client(2) intro: elsewhere.intros)
  next
    case ws_driver_drop
    then show ?thesis using el_driver_drop [of P w] by simp
  qed (auto intro: elsewhere.intros)
next
  have inv: "driver_inv (w_driver w)" using reachable_inv [OF assms] by (simp add: world_inv_def)
  show "file_cursor g d' = file_cursor g (w_driver w)" if "elsewhere P w d'" for d' g
    using elsewhere_same_cursors [OF that inv] by (simp add: same_cursors_def)
next
  show "file_cursor g d' = cursor_after (so_state so) r g (file_cursor g (w_driver w))"
    if "sequential_read_poll wk so (w_driver w) = Some (r, so', d')" for wk so r so' d' g
    using that unfolding sequential_read_poll_def by (rule sequential_poll_cursor) (rule polled_files(1))
next
  show "file_cursor g d' = cursor_after (so_state so) r g (file_cursor g (w_driver w))"
    if "sequential_write_poll wk so (w_driver w) = Some (r, so', d')" for wk so r so' d' g
    using that unfolding sequential_write_poll_def by (rule sequential_poll_cursor) (rule polled_files(2))
next
  show "file_cursor g (set_cursor f n (w_driver w)) = (if g = f then n else file_cursor g (w_driver w))" for f n g
    by (simp add: set_cursor_def set_file_def file_cursor_def)
qed

theorem cursor_follows_transfers_witness:
  "file_cursor 0 seq_reading = file_cursor 0 sample_driver \<and>
   file_cursor 0 (set_cursor 0 7 seq_reading) = 7 \<and> file_cursor 1 (set_cursor 0 7 seq_reading) = file_cursor 1 seq_reading"
proof -
  have w: "w_driver (sample_world d) = d" for d by (simp add: sample_world_def world_initial_def)
  have "elsewhere queue_platform (sample_world sample_driver) seq_reading"
    by (rule el_read [where ws = "[]"]) (use conjunct1 [OF seq_reading_started] in \<open>simp add: w\<close>)
  with cursor_follows_transfers [OF sample_reachable]
  have "file_cursor 0 seq_reading = file_cursor 0 (w_driver (sample_world sample_driver))" by blast
  moreover have "file_cursor g (set_cursor 0 7 seq_reading) = (if g = 0 then 7 else file_cursor g seq_reading)" for g
    using cursor_follows_transfers [OF seq_reading_reachable] unfolding w by blast
  ultimately show ?thesis unfolding w by simp
qed

text \<open>
  A handle without a file offset is refused, and only such a handle. A sequential start on
  a pipe or a character device is rejected with the type and the caller's buffer, claims
  nothing and starts nothing; every other type passes, the unknown one included. The platform
  is asked for the type once: the second answer is the first one, whatever it would say.
\<close>

theorem not_seekable_refused:
  fixes d :: "'k driver" and ft :: "handle \<Rightarrow> u32" and f :: fid
  defines "ty \<equiv> (case fs_type (files d f) of Some t \<Rightarrow> t | None \<Rightarrow> ft (fs_handle (files d f)))"
  shows "(ty \<in> {FILE_TYPE_PIPE, FILE_TYPE_CHAR} \<longrightarrow>
       (\<exists>d'. file_read P ft f b len d = Some (sequential_rejected f (FiNotSeekable ty) b, [], d') \<and>
          file_write P ft f b len d = Some (sequential_rejected f (FiNotSeekable ty) b, [], d') \<and>
          slab d' = slab d \<and> kern d' = kern d \<and> sequential_outstanding f d' = sequential_outstanding f d)) \<and>
    (ty \<notin> {FILE_TYPE_PIPE, FILE_TYPE_CHAR} \<longrightarrow> fst (check_has_file_offset ft f d) = Inr ()) \<and>
    check_has_file_offset ft2 f (snd (check_has_file_offset ft f d)) =
      (fst (check_has_file_offset ft f d), snd (check_has_file_offset ft f d))"
proof -
  have ck: "check_has_file_offset ft f d = (if ty \<in> {FILE_TYPE_PIPE, FILE_TYPE_CHAR} then Inl (FiNotSeekable ty)
      else Inr (), set_file f ((files d f)\<lparr>fs_type := Some ty\<rparr>) d)"
  proof (cases "fs_type (files d f)")
    case None
    then show ?thesis by (simp add: check_has_file_offset_def ty_def raw_handle_def Let_def)
  next
    case (Some t)
    then have "(files d f)\<lparr>fs_type := Some ty\<rparr> = files d f" by (simp add: ty_def)
    then have "set_file f ((files d f)\<lparr>fs_type := Some ty\<rparr>) d = d" by (simp add: set_file_def)
    with Some show ?thesis by (simp add: check_has_file_offset_def ty_def Let_def)
  qed
  have again: "check_has_file_offset ft2 f (set_file f ((files d f)\<lparr>fs_type := Some ty\<rparr>) d) =
      (fst (check_has_file_offset ft f d), set_file f ((files d f)\<lparr>fs_type := Some ty\<rparr>) d)"
    unfolding ck by (simp add: check_has_file_offset_def set_file_def Let_def)
  have refused: "start_sequential ft f b start d =
      Some (sequential_rejected f (FiNotSeekable ty) b, [], set_file f ((files d f)\<lparr>fs_type := Some ty\<rparr>) d)"
    if "ty \<in> {FILE_TYPE_PIPE, FILE_TYPE_CHAR}"
    for start :: "u64 \<Rightarrow> fid option \<Rightarrow> 'k driver \<Rightarrow> ('s \<times> waker list \<times> 'k driver) option"
    using that by (simp add: start_sequential_def ck)
  have same: "slab (set_file f ((files d f)\<lparr>fs_type := Some ty\<rparr>) d) = slab d"
    "kern (set_file f ((files d f)\<lparr>fs_type := Some ty\<rparr>) d) = kern d"
    "sequential_outstanding f (set_file f ((files d f)\<lparr>fs_type := Some ty\<rparr>) d) = sequential_outstanding f d"
    by (simp_all add: set_file_def sequential_outstanding_def)
  show ?thesis
    unfolding file_read_def file_write_def using again
    by (simp add: refused same ck)
qed

theorem not_seekable_refused_witness:
  "\<exists>d'. file_read queue_platform (\<lambda>_. FILE_TYPE_PIPE) 0 sample_buf 4 sample_driver
     = Some (sequential_rejected 0 (FiNotSeekable FILE_TYPE_PIPE) sample_buf, [], d')"
  using not_seekable_refused [where d = sample_driver and f = 0 and ft = "\<lambda>_. FILE_TYPE_PIPE"
      and P = queue_platform and b = sample_buf and len = 4]
  by (auto simp: sample_driver_def driver_initial_def sample_file_def)

end
