(* ===== verification/Pipe_Io.thy ===== *)
theory Pipe_Io
  imports File
begin

text \<open>
  Pipe names, pipe reads and writes, and the client end of a pipe
  (\<open>pipe/mod.rs\<close>, \<open>pipe/io.rs\<close>, \<open>pipe/client.rs\<close>).

  A name is the list of its code points. As for files, an operation is given the number its
  file has in the driver's store. Opening a path is the parameter \<open>std_open\<close>; a failure is
  the operating system's code when there is one.
\<close>

section \<open>Names\<close>

type_synonym str = "u32 list"

definition str_of :: "string \<Rightarrow> str" where
  "str_of s = map of_char s"

definition BACKSLASH :: u32 where "BACKSLASH = 0x5C"

definition LOCAL_PREFIX :: str where
  "LOCAL_PREFIX = [BACKSLASH, BACKSLASH, 0x2E, BACKSLASH, 0x70, 0x69, 0x70, 0x65, BACKSLASH]"

definition starts_with :: "str \<Rightarrow> str \<Rightarrow> bool" where
  "starts_with p s \<longleftrightarrow> take (length p) s = p"

definition qualify :: "str \<Rightarrow> str" where
  "qualify name = (if starts_with [BACKSLASH, BACKSLASH] name then name else LOCAL_PREFIX @ name)"

lemma qualify_idem [simp]: "qualify (qualify name) = qualify name"
  by (simp add: qualify_def starts_with_def LOCAL_PREFIX_def)

text \<open>The standard library's UTF-16 encoding, and what the platform reads of a \<open>PCWSTR\<close>.\<close>

definition encode_utf16_char :: "u32 \<Rightarrow> 16 word list" where
  "encode_utf16_char c =
     (if c < 0x10000 then [ucast c]
      else [0xD800 OR ucast (drop_bit 10 (c - 0x10000)), 0xDC00 OR (ucast (c - 0x10000) AND 0x3FF)])"

definition encode_utf16 :: "str \<Rightarrow> 16 word list" where
  "encode_utf16 s = concat (map encode_utf16_char s)"

definition pcwstr :: "16 word list \<Rightarrow> 16 word list" where
  "pcwstr ws = takeWhile (\<lambda>c. c \<noteq> 0) ws"

section \<open>Reads and writes\<close>

type_synonym pipe_outcome = "(u32, iobuf, pipe_error) buf_result"

text \<open>\<open>PipeRead\<close> and \<open>PipeWrite\<close>, over the state of the driver's own future.\<close>

record 's pipe_op =
  pp_inner :: "'s option"
  pp_rejected :: "(pipe_error \<times> iobuf) option"

definition pipe_rejected :: "pipe_error \<Rightarrow> iobuf \<Rightarrow> 's pipe_op" where
  "pipe_rejected e b = \<lparr>pp_inner = None, pp_rejected = Some (e, b)\<rparr>"

definition pipe_issued :: "('s \<times> waker list \<times> 'k driver) option \<Rightarrow> ('s pipe_op \<times> waker list \<times> 'k driver) option" where
  "pipe_issued r =
     map_option (\<lambda>(fut, ws, d). (\<lparr>pp_inner = Some fut, pp_rejected = None\<rparr>, ws, d)) r"

definition pipe_read_issue ::
    "'k platform \<Rightarrow> fid \<Rightarrow> iobuf \<Rightarrow> u32 \<Rightarrow> u64 \<Rightarrow> 'k driver
      \<Rightarrow> (iobuf buf_op_state pipe_op \<times> waker list \<times> 'k driver) option" where
  "pipe_read_issue P f b len offset d = pipe_issued (handle_read P f b len offset SQE_NONE None d)"

definition pipe_write_issue ::
    "'k platform \<Rightarrow> fid \<Rightarrow> iobuf \<Rightarrow> u32 \<Rightarrow> u64 \<Rightarrow> 'k driver
      \<Rightarrow> (write_future pipe_op \<times> waker list \<times> 'k driver) option" where
  "pipe_write_issue P f b len offset d =
     pipe_issued (handle_write P f b len offset FILE_WRITE_FLAGS_NONE SQE_NONE None d)"

definition pipe_read_id :: "iobuf buf_op_state pipe_op \<Rightarrow> token option" where
  "pipe_read_id po = Option.bind (pp_inner po) operation_id"

definition pipe_write_id :: "write_future pipe_op \<Rightarrow> token option" where
  "pipe_write_id po = Option.bind (pp_inner po) write_operation_id"

definition pipe_outcome :: "iobuf outcome \<Rightarrow> pipe_outcome" where
  "pipe_outcome out = buf_result_new (map_sum pipe_from_runtime id (br_result out)) (br_buffer out)"

text \<open>
  The poll; \<open>None\<close> is the panic of the \<open>expect\<close> when a refused operation is polled again,
  or of the inner future.
\<close>

definition pipe_poll ::
    "('s \<Rightarrow> 'k driver \<Rightarrow> (iobuf outcome poll \<times> 's \<times> 'k driver) option) \<Rightarrow> 's pipe_op \<Rightarrow> 'k driver
      \<Rightarrow> (pipe_outcome poll \<times> 's pipe_op \<times> 'k driver) option" where
  "pipe_poll inner_poll po d =
     (case pp_rejected po of
        Some (e, b) \<Rightarrow> Some (Ready (buf_result_new (Inl e) b), po\<lparr>pp_rejected := None\<rparr>, d)
      | None \<Rightarrow>
          (case pp_inner po of
             None \<Rightarrow> None
           | Some inner \<Rightarrow>
               (case inner_poll inner d of
                  None \<Rightarrow> None
                | Some (NotReady, inner', d') \<Rightarrow> Some (NotReady, po\<lparr>pp_inner := Some inner'\<rparr>, d')
                | Some (Ready out, inner', d') \<Rightarrow>
                    Some (Ready (pipe_outcome out), po\<lparr>pp_inner := Some inner'\<rparr>, d'))))"

definition pipe_read_poll ::
    "waker \<Rightarrow> iobuf buf_op_state pipe_op \<Rightarrow> 'k driver
      \<Rightarrow> (pipe_outcome poll \<times> iobuf buf_op_state pipe_op \<times> 'k driver) option" where
  "pipe_read_poll w po d = pipe_poll (read_future_poll w) po d"

definition pipe_write_poll ::
    "waker \<Rightarrow> write_future pipe_op \<Rightarrow> 'k driver
      \<Rightarrow> (pipe_outcome poll \<times> write_future pipe_op \<times> 'k driver) option" where
  "pipe_write_poll w po d = pipe_poll (write_future_poll w) po d"

section \<open>The client\<close>

record client_options =
  co_read :: bool
  co_write :: bool

definition client_options_new :: client_options where
  "client_options_new = \<lparr>co_read = True, co_write = True\<rparr>"

definition client_options_read :: "bool \<Rightarrow> client_options \<Rightarrow> client_options" where
  "client_options_read r c = c\<lparr>co_read := r\<rparr>"

definition client_options_write :: "bool \<Rightarrow> client_options \<Rightarrow> client_options" where
  "client_options_write w c = c\<lparr>co_write := w\<rparr>"

definition E_FAIL :: hresult where "E_FAIL = 0x80004005"

definition classify_open_failure :: "32 word option \<Rightarrow> pipe_error" where
  "classify_open_failure raw_os_error =
     (case raw_os_error of
        Some code \<Rightarrow> pipe_from_hresult (hresult_from_win32 code)
      | None \<Rightarrow> PiOther (WinError E_FAIL))"

record client =
  cl_file :: file_state

definition client_open ::
    "(open_options \<Rightarrow> str \<Rightarrow> 32 word option + handle) \<Rightarrow> client_options \<Rightarrow> str \<Rightarrow> pipe_error + client" where
  "client_open std_open c name =
     (case std_open (open_options_new\<lparr>oo_read := co_read c, oo_write := co_write c,
                       oo_custom_flags := FILE_FLAG_OVERLAPPED\<rparr>) (qualify name) of
        Inr h \<Rightarrow> Inr \<lparr>cl_file = file_from_std h\<rparr>
      | Inl e \<Rightarrow> Inl (classify_open_failure e))"

definition client_connect ::
    "(open_options \<Rightarrow> str \<Rightarrow> 32 word option + handle) \<Rightarrow> str \<Rightarrow> pipe_error + client" where
  "client_connect std_open name = client_open std_open client_options_new name"

definition client_file :: "client \<Rightarrow> file_state" where
  "client_file c = cl_file c"

definition client_read_at ::
    "'k platform \<Rightarrow> fid \<Rightarrow> iobuf \<Rightarrow> u32 \<Rightarrow> u64 \<Rightarrow> 'k driver
      \<Rightarrow> (iobuf buf_op_state pipe_op \<times> waker list \<times> 'k driver) option" where
  "client_read_at P f b len offset d = pipe_read_issue P f b len offset d"

definition client_write_at ::
    "'k platform \<Rightarrow> fid \<Rightarrow> iobuf \<Rightarrow> u32 \<Rightarrow> u64 \<Rightarrow> 'k driver
      \<Rightarrow> (write_future pipe_op \<times> waker list \<times> 'k driver) option" where
  "client_write_at P f b len offset d = pipe_write_issue P f b len offset d"

section \<open>What the platform reads of a name\<close>

lemma encode_utf16_Nil [simp]: "encode_utf16 [] = []"
  by (simp add: encode_utf16_def)

lemma encode_utf16_Cons: "encode_utf16 (c # s) = encode_utf16_char c @ encode_utf16 s"
  by (simp add: encode_utf16_def)

end
