(* ===== verification/Pipe_Server.thy ===== *)
theory Pipe_Server
  imports Pipe_Io
begin

text \<open>
  The server end of a pipe (\<open>pipe/server.rs\<close>).

  An accept is an overlapped \<open>ConnectNamedPipe\<close>: the kernel keeps the address of an
  \<open>OVERLAPPED\<close> and writes its status word when the client arrives, at a time of its own.
  The memory of these structures is explicit here (\<open>os_mem\<close>; a freed address maps to
  nothing), so that a write into freed memory can be stated. The platform's functions are the
  parameters \<open>event_platform\<close> and \<open>pipe_platform\<close>; they may change that memory, because
  the kernel may act during any call. A raw event is armed as in \<open>Event\<close>.
\<close>

section \<open>The memory the kernel writes\<close>

type_synonym addr = nat

record overlapped =
  ov_internal :: usize
  ov_event :: handle

record 'k os =
  os_mem :: "addr \<Rightarrow> overlapped option"
  os_next :: addr
  os_kern :: 'k

definition box_new :: "overlapped \<Rightarrow> 'k os \<Rightarrow> addr \<times> 'k os" where
  "box_new ov m = (os_next m, m\<lparr>os_mem := (os_mem m)(os_next m \<mapsto> ov), os_next := os_next m + 1\<rparr>)"

definition box_free :: "addr \<Rightarrow> 'k os \<Rightarrow> 'k os" where
  "box_free a m = m\<lparr>os_mem := (os_mem m)(a := None)\<rparr>"

section \<open>The platform\<close>

record 'o pipe_platform =
  CreateNamedPipeW :: "16 word list \<Rightarrow> u32 \<Rightarrow> u32 \<Rightarrow> u32 \<Rightarrow> u32 \<Rightarrow> u32 \<Rightarrow> u32 \<Rightarrow> 'o \<Rightarrow> handle \<times> 'o"
  ConnectNamedPipe :: "handle \<Rightarrow> addr \<Rightarrow> 'o \<Rightarrow> (win_error + unit) \<times> 'o"
  DisconnectNamedPipe :: "handle \<Rightarrow> 'o \<Rightarrow> (win_error + unit) \<times> 'o"
  GetOverlappedResult :: "handle \<Rightarrow> addr \<Rightarrow> bool \<Rightarrow> 'o \<Rightarrow> (win_error + u32) \<times> 'o"
  CancelIoEx :: "handle \<Rightarrow> addr \<Rightarrow> 'o \<Rightarrow> (win_error + unit) \<times> 'o"

definition ERROR_PIPE_CONNECTED :: u32 where "ERROR_PIPE_CONNECTED = 535"
definition ERROR_IO_INCOMPLETE :: u32 where "ERROR_IO_INCOMPLETE = 996"
definition ERROR_IO_PENDING :: u32 where "ERROR_IO_PENDING = 997"
definition ERROR_NOT_FOUND :: u32 where "ERROR_NOT_FOUND = 1168"

definition is_error :: "win_error \<Rightarrow> u32 \<Rightarrow> bool" where
  "is_error e code \<longleftrightarrow> win_code e = hresult_from_win32 code"

lemma pipe_codes [simp]:
  "hresult_from_win32 ERROR_PIPE_CONNECTED = 0x80070217"
  "hresult_from_win32 ERROR_IO_INCOMPLETE = 0x800703E4"
  "hresult_from_win32 ERROR_IO_PENDING = 0x800703E5"
  "hresult_from_win32 ERROR_NOT_FOUND = 0x80070490"
  by (simp_all add: hresult_from_win32_def ERROR_PIPE_CONNECTED_def ERROR_IO_INCOMPLETE_def
      ERROR_IO_PENDING_def ERROR_NOT_FOUND_def)

lemma is_error_apart:
  "is_error e ERROR_IO_PENDING \<Longrightarrow> \<not> is_error e ERROR_PIPE_CONNECTED"
  "is_error e ERROR_IO_INCOMPLETE \<Longrightarrow> \<not> is_error e ERROR_PIPE_CONNECTED"
  by (simp_all add: is_error_def)

definition handle_is_invalid :: "handle \<Rightarrow> bool" where
  "handle_is_invalid h \<longleftrightarrow> h = -1 \<or> h = 0"

section \<open>Options\<close>

definition DEFAULT_BUFFER :: u32 where "DEFAULT_BUFFER = 4096"
definition PIPE_UNLIMITED_INSTANCES :: u32 where "PIPE_UNLIMITED_INSTANCES = 255"
definition PIPE_ACCESS_INBOUND :: u32 where "PIPE_ACCESS_INBOUND = 1"
definition PIPE_ACCESS_OUTBOUND :: u32 where "PIPE_ACCESS_OUTBOUND = 2"
definition PIPE_ACCESS_DUPLEX :: u32 where "PIPE_ACCESS_DUPLEX = 3"
definition FILE_FLAG_FIRST_PIPE_INSTANCE :: u32 where "FILE_FLAG_FIRST_PIPE_INSTANCE = 0x80000"
definition PIPE_BYTE_MODE_WAIT :: u32 where "PIPE_BYTE_MODE_WAIT = 0 OR 0 OR 0"

definition STATUS_PENDING_INTERNAL :: usize where "STATUS_PENDING_INTERNAL = 0x103"

record server_options =
  so_inbound :: bool
  so_outbound :: bool
  so_max_instances :: u32
  so_in_buffer :: u32
  so_out_buffer :: u32
  so_first_instance_only :: bool

definition server_options_new :: server_options where
  "server_options_new = \<lparr>so_inbound = True, so_outbound = True, so_max_instances = PIPE_UNLIMITED_INSTANCES,
     so_in_buffer = DEFAULT_BUFFER, so_out_buffer = DEFAULT_BUFFER, so_first_instance_only = False\<rparr>"

definition access_inbound :: "bool \<Rightarrow> server_options \<Rightarrow> server_options" where
  "access_inbound allow opts = opts\<lparr>so_inbound := allow\<rparr>"

definition access_outbound :: "bool \<Rightarrow> server_options \<Rightarrow> server_options" where
  "access_outbound allow opts = opts\<lparr>so_outbound := allow\<rparr>"

definition max_instances :: "u32 \<Rightarrow> server_options \<Rightarrow> server_options" where
  "max_instances n opts = opts\<lparr>so_max_instances := n\<rparr>"

definition in_buffer_size :: "u32 \<Rightarrow> server_options \<Rightarrow> server_options" where
  "in_buffer_size n opts = opts\<lparr>so_in_buffer := n\<rparr>"

definition out_buffer_size :: "u32 \<Rightarrow> server_options \<Rightarrow> server_options" where
  "out_buffer_size n opts = opts\<lparr>so_out_buffer := n\<rparr>"

definition first_instance_only :: "bool \<Rightarrow> server_options \<Rightarrow> server_options" where
  "first_instance_only b opts = opts\<lparr>so_first_instance_only := b\<rparr>"

section \<open>The server\<close>

record accept_slot =
  sl_overlapped :: addr
  sl_event :: armed_event

datatype accept_state = Fresh | IdleInstance | Accepting accept_slot | Connected

record server =
  sv_file :: file_state
  sv_accept :: accept_state
  sv_synchronous_accepts :: u64
  sv_connect_submissions :: u64

definition open_mode :: "server_options \<Rightarrow> u32" where
  "open_mode opts =
     (let access = (case (so_inbound opts, so_outbound opts) of
            (True, True) \<Rightarrow> PIPE_ACCESS_DUPLEX
          | (True, False) \<Rightarrow> PIPE_ACCESS_INBOUND
          | (False, True) \<Rightarrow> PIPE_ACCESS_OUTBOUND
          | (False, False) \<Rightarrow> 0);
          mode = access OR FILE_FLAG_OVERLAPPED
      in if so_first_instance_only opts then mode OR FILE_FLAG_FIRST_PIPE_INSTANCE else mode)"

definition server_options_create ::
    "'o event_platform \<Rightarrow> 'o pipe_platform \<Rightarrow> server_options \<Rightarrow> str \<Rightarrow> 'o \<Rightarrow> (pipe_error + server) \<times> 'o" where
  "server_options_create EP P opts name m =
     (let wide = encode_utf16 (qualify name) @ [0];
          (h, o1) = CreateNamedPipeW P (pcwstr wide) (open_mode opts) PIPE_BYTE_MODE_WAIT
            (so_max_instances opts) (so_out_buffer opts) (so_in_buffer opts) 0 m
      in if handle_is_invalid h then (Inl (pipe_from_hresult (win_code (GetLastError EP o1))), o1)
         else (Inr \<lparr>sv_file = file_from_raw_handle h, sv_accept = Fresh, sv_synchronous_accepts = 0,
                     sv_connect_submissions = 0\<rparr>, o1))"

definition server_create ::
    "'o event_platform \<Rightarrow> 'o pipe_platform \<Rightarrow> str \<Rightarrow> 'o \<Rightarrow> (pipe_error + server) \<times> 'o" where
  "server_create EP P name m = server_options_create EP P server_options_new name m"

definition server_raw_handle :: "server \<Rightarrow> handle" where
  "server_raw_handle s = fs_handle (sv_file s)"

text \<open>\<open>AcceptSlot::completed\<close>: a volatile read of the status word.\<close>

definition slot_completed :: "accept_slot \<Rightarrow> 'k os \<Rightarrow> bool" where
  "slot_completed slot m =
     (case os_mem m (sl_overlapped slot) of
        Some ov \<Rightarrow> ov_internal ov \<noteq> STATUS_PENDING_INTERNAL
      | None \<Rightarrow> False)"

definition accept_outstanding :: "server \<Rightarrow> 'k os \<Rightarrow> bool" where
  "accept_outstanding s m =
     (case sv_accept s of Accepting slot \<Rightarrow> \<not> slot_completed slot m | _ \<Rightarrow> False)"

definition is_connected :: "server \<Rightarrow> bool" where
  "is_connected s \<longleftrightarrow> sv_accept s = Connected"

definition accepts_clients :: "server \<Rightarrow> 'k os \<Rightarrow> bool" where
  "accepts_clients s m =
     (case sv_accept s of
        Fresh \<Rightarrow> True
      | Accepting slot \<Rightarrow> \<not> slot_completed slot m
      | IdleInstance \<Rightarrow> False
      | Connected \<Rightarrow> False)"

definition server_file :: "server \<Rightarrow> pipe_error + file_state" where
  "server_file s =
     (case sv_accept s of
        Connected \<Rightarrow> Inr (sv_file s)
      | Fresh \<Rightarrow> Inl PiListening
      | IdleInstance \<Rightarrow> Inl PiListening
      | Accepting _ \<Rightarrow> Inl PiAcceptOutstanding)"

definition server_read_at ::
    "'k platform \<Rightarrow> fid \<Rightarrow> server \<Rightarrow> iobuf \<Rightarrow> u32 \<Rightarrow> u64 \<Rightarrow> 'k driver
      \<Rightarrow> (iobuf buf_op_state pipe_op \<times> waker list \<times> 'k driver) option" where
  "server_read_at P f s b len offset d =
     (case server_file s of
        Inr _ \<Rightarrow> pipe_read_issue P f b len offset d
      | Inl e \<Rightarrow> Some (pipe_rejected e b, [], d))"

definition server_write_at ::
    "'k platform \<Rightarrow> fid \<Rightarrow> server \<Rightarrow> iobuf \<Rightarrow> u32 \<Rightarrow> u64 \<Rightarrow> 'k driver
      \<Rightarrow> (write_future pipe_op \<times> waker list \<times> 'k driver) option" where
  "server_write_at P f s b len offset d =
     (case server_file s of
        Inr _ \<Rightarrow> pipe_write_issue P f b len offset d
      | Inl e \<Rightarrow> Some (pipe_rejected e b, [], d))"

section \<open>Accepting\<close>

text \<open>Dropping a slot: the box first, then the armed event.\<close>

definition slot_drop :: "'k os event_platform \<Rightarrow> accept_slot \<Rightarrow> 'k os \<Rightarrow> 'k os" where
  "slot_drop EP slot m = snd (armed_event_drop EP (sl_event slot) (box_free (sl_overlapped slot) m))"

definition collect ::
    "'k os event_platform \<Rightarrow> 'k os pipe_platform \<Rightarrow> server \<Rightarrow> 'k os \<Rightarrow> (pipe_error + bool) \<times> server \<times> 'k os" where
  "collect EP P s m =
     (case sv_accept s of
        Accepting slot \<Rightarrow>
          (case GetOverlappedResult P (server_raw_handle s) (sl_overlapped slot) False m of
             (Inr _, o1) \<Rightarrow> (Inr True, s\<lparr>sv_accept := Connected\<rparr>, slot_drop EP slot o1)
           | (Inl e, o1) \<Rightarrow>
               if is_error e ERROR_PIPE_CONNECTED
               then (Inr True, s\<lparr>sv_accept := Connected\<rparr>, slot_drop EP slot o1)
               else if is_error e ERROR_IO_INCOMPLETE then (Inr False, s, o1)
               else (Inl (pipe_from_hresult (win_code e)), s, o1))
      | _ \<Rightarrow> (Inr True, s, m))"

text \<open>The part of \<open>begin_accept\<close> that submits, in a state with no operation outstanding.\<close>

definition submit_connect ::
    "'k os event_platform \<Rightarrow> 'k os pipe_platform \<Rightarrow> server \<Rightarrow> 'k os \<Rightarrow> (pipe_error + bool) \<times> server \<times> 'k os" where
  "submit_connect EP P s m =
     (case armed_event_new EP m of
        (Inl e, o1) \<Rightarrow> (Inl (pipe_from_win e), s, o1)
      | (Inr event, o1) \<Rightarrow>
          (let (a, o2) = box_new \<lparr>ov_internal = STATUS_PENDING_INTERNAL,
                                   ov_event = ev_handle (ae_event event)\<rparr> o1;
               s1 = s\<lparr>sv_connect_submissions := sv_connect_submissions s + 1\<rparr>;
               (issued, o3) = ConnectNamedPipe P (server_raw_handle s) a o2;
               slot = \<lparr>sl_overlapped = a, sl_event = event\<rparr>;
               connected = (Inr True,
                 s1\<lparr>sv_accept := Connected, sv_synchronous_accepts := sv_synchronous_accepts s + 1\<rparr>,
                 slot_drop EP slot o3)
           in case issued of
                Inr _ \<Rightarrow> connected
              | Inl e \<Rightarrow>
                  if is_error e ERROR_IO_PENDING then (Inr False, s1\<lparr>sv_accept := Accepting slot\<rparr>, o3)
                  else if is_error e ERROR_PIPE_CONNECTED then connected
                  else (Inl (pipe_from_hresult (win_code e)), s1, slot_drop EP slot o3)))"

definition begin_accept ::
    "'k os event_platform \<Rightarrow> 'k os pipe_platform \<Rightarrow> server \<Rightarrow> 'k os \<Rightarrow> (pipe_error + bool) \<times> server \<times> 'k os" where
  "begin_accept EP P s m =
     (case sv_accept s of
        Connected \<Rightarrow> (Inr True, s, m)
      | Accepting slot \<Rightarrow> if slot_completed slot m then collect EP P s m else (Inr False, s, m)
      | Fresh \<Rightarrow> submit_connect EP P s m
      | IdleInstance \<Rightarrow> submit_connect EP P s m)"

text \<open>\<open>AcceptFuture\<close>; a waiting future holds the server exclusively, so the server is passed beside it.\<close>

datatype accept_future = AfReady | AfWaiting | AfFailed pipe_error | AfDone

definition server_accept ::
    "'k os event_platform \<Rightarrow> 'k os pipe_platform \<Rightarrow> server \<Rightarrow> 'k os \<Rightarrow> accept_future \<times> server \<times> 'k os" where
  "server_accept EP P s m =
     (case begin_accept EP P s m of
        (Inr True, s', o') \<Rightarrow> (AfReady, s', o')
      | (Inr False, s', o') \<Rightarrow> (AfWaiting, s', o')
      | (Inl e, s', o') \<Rightarrow> (AfFailed e, s', o'))"

text \<open>\<open>poll_signalled\<close> on the event of the slot.\<close>

definition poll_slot :: "waker \<Rightarrow> accept_slot \<Rightarrow> poll_unit \<times> accept_slot" where
  "poll_slot w slot =
     (let (r, st) = poll_signalled w (ae_state (sl_event slot))
      in (r, slot\<lparr>sl_event := (sl_event slot)\<lparr>ae_state := st\<rparr>\<rparr>))"

text \<open>
  The second \<open>poll_signalled\<close>, after a collect that found the operation unfinished: it
  registers the waker again, or finds a new signal, takes it, and wakes the task at once.
\<close>

definition repark :: "waker \<Rightarrow> server \<Rightarrow> waker list \<times> server" where
  "repark w s =
     (case sv_accept s of
        Accepting slot \<Rightarrow>
          (case poll_slot w slot of
             (PollReady, slot') \<Rightarrow> ([w], s\<lparr>sv_accept := Accepting slot'\<rparr>)
           | (PollPending, slot') \<Rightarrow> ([], s\<lparr>sv_accept := Accepting slot'\<rparr>))
      | _ \<Rightarrow> ([], s))"

text \<open>The poll: outcome, wakers woken, future, server. \<open>None\<close> is the panic on a resolved future.\<close>

type_synonym 'k accept_polled = "(pipe_error + unit) poll \<times> waker list \<times> accept_future \<times> server \<times> 'k os"

definition collect_and_resolve ::
    "'k os event_platform \<Rightarrow> 'k os pipe_platform \<Rightarrow> waker \<Rightarrow> server \<Rightarrow> 'k os \<Rightarrow> 'k accept_polled" where
  "collect_and_resolve EP P w s m =
     (case collect EP P s m of
        (Inr True, s1, o1) \<Rightarrow> (Ready (Inr ()), [], AfDone, s1, o1)
      | (Inr False, s1, o1) \<Rightarrow>
          (let (ws, s2) = repark w s1 in (NotReady, ws, AfWaiting, s2, o1))
      | (Inl e, s1, o1) \<Rightarrow> (Ready (Inl e), [], AfDone, s1, o1))"

definition accept_poll ::
    "'k os event_platform \<Rightarrow> 'k os pipe_platform \<Rightarrow> waker \<Rightarrow> accept_future \<Rightarrow> server \<Rightarrow> 'k os
      \<Rightarrow> 'k accept_polled option" where
  "accept_poll EP P w fut s m =
     (case fut of
        AfDone \<Rightarrow> None
      | AfReady \<Rightarrow> Some (Ready (Inr ()), [], AfDone, s, m)
      | AfFailed e \<Rightarrow> Some (Ready (Inl e), [], AfDone, s, m)
      | AfWaiting \<Rightarrow>
          (case sv_accept s of
             Accepting slot \<Rightarrow>
               (case poll_slot w slot of
                  (PollPending, slot') \<Rightarrow> Some (NotReady, [], AfWaiting, s\<lparr>sv_accept := Accepting slot'\<rparr>, m)
                | (PollReady, slot') \<Rightarrow>
                    Some (collect_and_resolve EP P w (s\<lparr>sv_accept := Accepting slot'\<rparr>) m))
           | Connected \<Rightarrow> Some (collect_and_resolve EP P w s m)
           | Fresh \<Rightarrow> Some (Ready (Inl PiListening), [], AfDone, s, m)
           | IdleInstance \<Rightarrow> Some (Ready (Inl PiListening), [], AfDone, s, m)))"

definition disconnect ::
    "'o pipe_platform \<Rightarrow> server \<Rightarrow> 'o \<Rightarrow> (pipe_error + unit) \<times> server \<times> 'o" where
  "disconnect P s m =
     (case sv_accept s of
        Connected \<Rightarrow>
          (case DisconnectNamedPipe P (server_raw_handle s) m of
             (Inr _, o1) \<Rightarrow> (Inr (), s\<lparr>sv_accept := IdleInstance\<rparr>, o1)
           | (Inl e, o1) \<Rightarrow> (Inl (pipe_from_hresult (win_code e)), s, o1))
      | Fresh \<Rightarrow> (Inl PiListening, s, m)
      | IdleInstance \<Rightarrow> (Inl PiListening, s, m)
      | Accepting _ \<Rightarrow> (Inl PiAcceptOutstanding, s, m))"

section \<open>Teardown\<close>

datatype cancel_outcome = Located | NotFound | CancelFailed

datatype teardown =
    CollectThenFree
  | LeakNeverSubmitted
  | LeakCancelFailed
  | LeakUnregisterFailed
  | LeakCollectUnfinished

definition teardown_frees :: "teardown \<Rightarrow> bool" where
  "teardown_frees t \<longleftrightarrow> t = CollectThenFree"

definition teardown_action :: "cancel_outcome \<Rightarrow> bool \<Rightarrow> teardown" where
  "teardown_action cancel completed =
     (case (cancel, completed) of
        (CancelFailed, _) \<Rightarrow> LeakCancelFailed
      | (NotFound, False) \<Rightarrow> LeakNeverSubmitted
      | _ \<Rightarrow> CollectThenFree)"

definition release_permits_collect :: "registration \<Rightarrow> teardown option" where
  "release_permits_collect r =
     (case r of
        RegReleased \<Rightarrow> None
      | RegFailed \<Rightarrow> Some LeakUnregisterFailed
      | RegLive \<Rightarrow> Some LeakUnregisterFailed)"

definition collect_finished_it :: "bool \<Rightarrow> teardown" where
  "collect_finished_it still_pending = (if still_pending then LeakCollectUnfinished else CollectThenFree)"

definition issue_cancel :: "'o pipe_platform \<Rightarrow> handle \<Rightarrow> addr \<Rightarrow> 'o \<Rightarrow> cancel_outcome \<times> 'o" where
  "issue_cancel P h a m =
     (case CancelIoEx P h a m of
        (Inr _, o1) \<Rightarrow> (Located, o1)
      | (Inl e, o1) \<Rightarrow> (if is_error e ERROR_NOT_FOUND then NotFound else CancelFailed, o1))"

text \<open>
  The three decisions of \<open>Drop for Server\<close>, each taken only if the one before it permits:
  cancel, release the thread pool's registration, collect.
\<close>

definition teardown_cancel ::
    "'k os pipe_platform \<Rightarrow> handle \<Rightarrow> accept_slot \<Rightarrow> 'k os \<Rightarrow> teardown \<times> 'k os" where
  "teardown_cancel P h slot m =
     (let (cancel, o1) = (if slot_completed slot m then (Located, m)
                           else issue_cancel P h (sl_overlapped slot) m)
      in (teardown_action cancel (slot_completed slot o1), o1))"

definition teardown_release ::
    "'k os event_platform \<Rightarrow> teardown \<Rightarrow> accept_slot \<Rightarrow> 'k os \<Rightarrow> teardown \<times> accept_slot \<times> 'k os" where
  "teardown_release EP action slot m =
     (if teardown_frees action then
        (case release_registration EP (sl_event slot) m of
           (reg, event, o1) \<Rightarrow>
             (case release_permits_collect reg of Some leak \<Rightarrow> leak | None \<Rightarrow> action,
              slot\<lparr>sl_event := event\<rparr>, o1))
      else (action, slot, m))"

definition teardown_collect ::
    "'k os pipe_platform \<Rightarrow> handle \<Rightarrow> teardown \<Rightarrow> accept_slot \<Rightarrow> 'k os \<Rightarrow> teardown \<times> 'k os" where
  "teardown_collect P h action slot m =
     (if teardown_frees action then
        (case GetOverlappedResult P h (sl_overlapped slot) True m of
           (_, o1) \<Rightarrow> (collect_finished_it (\<not> slot_completed slot o1), o1))
      else (action, m))"

text \<open>
  The drop, and what it decided; nothing when no slot is held. A leaked slot stays allocated,
  and a reference to the server's file is leaked with it.
\<close>

definition server_drop ::
    "'k os event_platform \<Rightarrow> 'k os pipe_platform \<Rightarrow> server \<Rightarrow> 'k os \<Rightarrow> teardown option \<times> 'k os" where
  "server_drop EP P s m =
     (case sv_accept s of
        Accepting slot \<Rightarrow>
          (let h = server_raw_handle s;
               (a1, o1) = teardown_cancel P h slot m;
               (a2, slot2, o2) = teardown_release EP a1 slot o1;
               (a3, o3) = teardown_collect P h a2 slot2 o2
           in (Some a3, if teardown_frees a3 then slot_drop EP slot2 o3 else o3))
      | _ \<Rightarrow> (None, m))"

end
