(* ===== verification/Pipe_Safety.thy ===== *)
theory Pipe_Safety
  imports Pipe_Server
begin

text \<open>
  The server over a kernel that acts at any time.

  \<open>pipe_contract\<close> states what the platform documents: \<open>out\<close> is the set of addresses whose
  operation the kernel has not finished; a call may finish operations, and finishing one is
  the only write into its structure; only \<open>ConnectNamedPipe\<close> starts one, when it reports
  that it is pending, and a collected result means it is finished. A world is a server, the
  future that borrows it and the memory; its steps are the calls of the code, the thread
  pool's callback and the kernel.
\<close>

section \<open>What the platform promises\<close>

definition kernel_effect :: "('k \<Rightarrow> addr set) \<Rightarrow> addr set \<Rightarrow> 'k os \<Rightarrow> 'k os \<Rightarrow> bool" where
  "kernel_effect out A m m' \<longleftrightarrow>
     out (os_kern m') \<subseteq> A \<and> os_next m' = os_next m \<and>
     (\<forall>a. os_mem m' a \<noteq> os_mem m a \<longrightarrow> a \<in> A \<and> a \<notin> out (os_kern m')) \<and>
     dom (os_mem m') = dom (os_mem m)"

definition quiet :: "('k \<Rightarrow> addr set) \<Rightarrow> 'k os \<Rightarrow> 'k os \<Rightarrow> bool" where
  "quiet out m m' \<longleftrightarrow> kernel_effect out (out (os_kern m)) m m'"

definition event_contract :: "('k \<Rightarrow> addr set) \<Rightarrow> 'k os event_platform \<Rightarrow> bool" where
  "event_contract out EP \<longleftrightarrow>
     (\<forall>b m. quiet out m (snd (CreateEventW EP b m))) \<and>
     (\<forall>h m. quiet out m (snd (RegisterWait EP h m))) \<and>
     (\<forall>h m. quiet out m (snd (UnregisterWait EP h m))) \<and>
     (\<forall>h m. quiet out m (snd (CloseHandle EP h m)))"

definition connected_result :: "(win_error + 'a) \<Rightarrow> bool" where
  "connected_result r = (case r of Inr _ \<Rightarrow> True | Inl e \<Rightarrow> is_error e ERROR_PIPE_CONNECTED)"

definition pending_result :: "(win_error + 'a) \<Rightarrow> bool" where
  "pending_result r = (case r of Inr _ \<Rightarrow> False | Inl e \<Rightarrow> is_error e ERROR_IO_PENDING)"

definition pipe_contract ::
    "('k \<Rightarrow> addr set) \<Rightarrow> 'k os event_platform \<Rightarrow> 'k os pipe_platform \<Rightarrow> bool" where
  "pipe_contract out EP P \<longleftrightarrow>
     event_contract out EP \<and>
     (\<forall>n om pm i ob ib t m. quiet out m (snd (CreateNamedPipeW P n om pm i ob ib t m))) \<and>
     (\<forall>h m. quiet out m (snd (DisconnectNamedPipe P h m))) \<and>
     (\<forall>h a m. quiet out m (snd (CancelIoEx P h a m))) \<and>
     (\<forall>h a w m. quiet out m (snd (GetOverlappedResult P h a w m))) \<and>
     (\<forall>h a w m r m'. GetOverlappedResult P h a w m = (r, m') \<longrightarrow> connected_result r
        \<longrightarrow> a \<notin> out (os_kern m')) \<and>
     (\<forall>h a m r m'. ConnectNamedPipe P h a m = (r, m') \<longrightarrow>
        kernel_effect out (insert a (out (os_kern m))) m m' \<and>
        (\<not> pending_result r \<longrightarrow> a \<notin> out (os_kern m')))"

lemma contract_quiet:
  assumes "pipe_contract out EP P"
  shows "CreateEventW EP b m = (r1, m') \<Longrightarrow> quiet out m m'"
    "RegisterWait EP h m = (r1, m') \<Longrightarrow> quiet out m m'"
    "UnregisterWait EP h m = (r2, m') \<Longrightarrow> quiet out m m'"
    "CloseHandle EP h m = (r2, m') \<Longrightarrow> quiet out m m'"
    "CreateNamedPipeW P n om pm i ob ib t m = (r3, m') \<Longrightarrow> quiet out m m'"
    "DisconnectNamedPipe P h m = (r2, m') \<Longrightarrow> quiet out m m'"
    "CancelIoEx P h a m = (r2, m') \<Longrightarrow> quiet out m m'"
    "GetOverlappedResult P h a wt m = (r4, m') \<Longrightarrow> quiet out m m'"
  using assms unfolding pipe_contract_def event_contract_def by (metis snd_conv)+

lemma contract_connect:
  assumes "pipe_contract out EP P" "ConnectNamedPipe P h a m = (r, m')"
  shows "kernel_effect out (insert a (out (os_kern m))) m m'" "\<not> pending_result r \<Longrightarrow> a \<notin> out (os_kern m')"
  using assms unfolding pipe_contract_def by blast+

lemma contract_collected:
  assumes "pipe_contract out EP P" "GetOverlappedResult P h a w m = (r, m')" "connected_result r"
  shows "a \<notin> out (os_kern m')"
  using assms unfolding pipe_contract_def by blast

section \<open>Memory invariants\<close>

definition os_wf :: "('k \<Rightarrow> addr set) \<Rightarrow> 'k os \<Rightarrow> bool" where
  "os_wf out m \<longleftrightarrow> dom (os_mem m) \<subseteq> {..<os_next m} \<and>
     (\<forall>a \<in> out (os_kern m). \<exists>ov. os_mem m a = Some ov \<and> ov_internal ov = STATUS_PENDING_INTERNAL)"

lemma quiet_refl [simp]: "quiet out m m"
  by (simp add: quiet_def kernel_effect_def)

lemma quiet_trans: "\<lbrakk>quiet out m m'; quiet out m' m''\<rbrakk> \<Longrightarrow> quiet out m m''"
  unfolding quiet_def kernel_effect_def by (metis in_mono order_trans)

lemma effect_wf:
  assumes "kernel_effect out A m m'" and "dom (os_mem m) \<subseteq> {..<os_next m}"
    and "\<forall>a \<in> A. \<exists>ov. os_mem m a = Some ov \<and> ov_internal ov = STATUS_PENDING_INTERNAL"
  shows "os_wf out m'"
  using assms unfolding kernel_effect_def os_wf_def by (metis in_mono)

lemma quiet_wf: "\<lbrakk>quiet out m m'; os_wf out m\<rbrakk> \<Longrightarrow> os_wf out m'"
  unfolding quiet_def os_wf_def using effect_wf [unfolded os_wf_def] by blast

lemma quiet_out: "\<lbrakk>quiet out m m'; a \<notin> out (os_kern m)\<rbrakk> \<Longrightarrow> a \<notin> out (os_kern m')"
  by (auto simp: quiet_def kernel_effect_def)

lemma quiet_out_subset: "quiet out m m' \<Longrightarrow> out (os_kern m') \<subseteq> out (os_kern m)"
  by (simp add: quiet_def kernel_effect_def)

lemma quiet_dom: "quiet out m m' \<Longrightarrow> dom (os_mem m') = dom (os_mem m)"
  by (simp add: quiet_def kernel_effect_def)

lemma completed_finished:
  "\<lbrakk>os_wf out m; slot_completed slot m\<rbrakk> \<Longrightarrow> sl_overlapped slot \<notin> out (os_kern m)"
  by (auto simp: os_wf_def slot_completed_def)

lemma freed_wf:
  "\<lbrakk>os_wf out m; a \<notin> out (os_kern m)\<rbrakk> \<Longrightarrow> os_wf out (box_free a m)"
  by (auto simp: os_wf_def box_free_def) 

lemma freed_simps [simp]:
  "os_kern (box_free a m) = os_kern m" "os_next (box_free a m) = os_next m"
  "dom (os_mem (box_free a m)) = dom (os_mem m) - {a}"
  by (auto simp: box_free_def)

section \<open>Events and slots\<close>

lemma event_drop_quiet:
  assumes "pipe_contract out EP P"
  shows "quiet out m (event_drop EP ev m)"
  using contract_quiet(4) [OF assms] by (simp add: event_drop_def) (metis prod.collapse)

lemma release_quiet:
  assumes "pipe_contract out EP P" "release_registration EP ev m = (r, ev', m')"
  shows "quiet out m m'"
  using assms(2) contract_quiet(3) [OF assms(1)]
  by (auto simp: release_registration_def Let_def split: if_splits prod.splits)

lemma armed_drop_quiet:
  assumes "pipe_contract out EP P"
  shows "quiet out m (snd (armed_event_drop EP ev m))"
proof -
  obtain r ev' m' where r: "release_registration EP ev m = (r, ev', m')" by (cases "release_registration EP ev m")
  from release_quiet [OF assms r] have "quiet out m m'" .
  with event_drop_quiet [OF assms, of m' "ae_event (reclaim_count ev')"] show ?thesis
    by (auto simp: r armed_event_drop_def close_event_def intro: quiet_trans)
qed

lemma armed_new_quiet:
  assumes "pipe_contract out EP P" "armed_event_new EP m = (r, m')"
  shows "quiet out m m'"
proof -
  obtain r1 m1 where c: "CreateEventW EP False m = (r1, m1)" by (cases "CreateEventW EP False m")
  from contract_quiet(1) [OF assms(1) c] have q1: "quiet out m m1" .
  show ?thesis
  proof (cases r1)
    case (Inl e)
    with q1 assms(2) show ?thesis by (simp add: armed_event_new_def async_event_new_def c)
  next
    case (Inr h)
    obtain r2 m2 where w: "RegisterWait EP h m1 = (r2, m2)" by (cases "RegisterWait EP h m1")
    from quiet_trans [OF q1 contract_quiet(2) [OF assms(1) w]] have q2: "quiet out m m2" .
    with event_drop_quiet [OF assms(1), of m2 "\<lparr>ev_handle = h\<rparr>"] assms(2) Inr show ?thesis
      by (auto simp: armed_event_new_def async_event_new_def c w split: sum.splits intro: quiet_trans)
  qed
qed

lemma slot_dropped:
  assumes "pipe_contract out EP P" "os_wf out m" "sl_overlapped slot \<notin> out (os_kern m)"
  shows "os_wf out (slot_drop EP slot m)" "out (os_kern (slot_drop EP slot m)) \<subseteq> out (os_kern m)"
    "dom (os_mem (slot_drop EP slot m)) = dom (os_mem m) - {sl_overlapped slot}"
proof -
  let ?m = "box_free (sl_overlapped slot) m"
  have q: "quiet out ?m (slot_drop EP slot m)"
    using armed_drop_quiet [OF assms(1)] by (simp add: slot_drop_def)
  from quiet_wf [OF q freed_wf [OF assms(2,3)]] quiet_out_subset [OF q] quiet_dom [OF q]
  show "os_wf out (slot_drop EP slot m)" "out (os_kern (slot_drop EP slot m)) \<subseteq> out (os_kern m)"
    "dom (os_mem (slot_drop EP slot m)) = dom (os_mem m) - {sl_overlapped slot}"
    by simp_all
qed

section \<open>The invariant of a server\<close>

definition held :: "server \<Rightarrow> addr set" where
  "held s = (case sv_accept s of Accepting slot \<Rightarrow> {sl_overlapped slot} | _ \<Rightarrow> {})"

lemma held_simps [simp]:
  "sv_accept s = Accepting slot \<Longrightarrow> held s = {sl_overlapped slot}"
  "sv_accept s = Connected \<Longrightarrow> held s = {}"
  "sv_accept s = Fresh \<Longrightarrow> held s = {}"
  "sv_accept s = IdleInstance \<Longrightarrow> held s = {}"
  by (simp_all add: held_def)

definition pipe_inv :: "('k \<Rightarrow> addr set) \<Rightarrow> server \<Rightarrow> 'k os \<Rightarrow> bool" where
  "pipe_inv out s m \<longleftrightarrow> os_wf out m \<and> out (os_kern m) \<subseteq> held s \<and> held s \<subseteq> dom (os_mem m)"

lemma pipe_inv_quiet: "\<lbrakk>pipe_inv out s m; quiet out m m'; held s' = held s\<rbrakk> \<Longrightarrow> pipe_inv out s' m'"
  using quiet_wf quiet_out_subset quiet_dom unfolding pipe_inv_def by (metis order_trans)

lemma pipe_inv_dropped:
  assumes "pipe_contract out EP P" "os_wf out m" "a \<notin> out (os_kern m)" "out (os_kern m) \<subseteq> {a}"
    "a = sl_overlapped slot" "held s = {}"
  shows "pipe_inv out s (slot_drop EP slot m)"
  using slot_dropped [of out EP P m slot, OF assms(1,2)] assms(3-6) by (auto simp: pipe_inv_def)

text \<open>What an operation says of the server it leaves: connected exactly if it answered so.\<close>

definition answers :: "(pipe_error + bool) \<Rightarrow> server \<Rightarrow> server \<Rightarrow> bool" where
  "answers r s s' \<longleftrightarrow> sv_file s' = sv_file s \<and>
     (case r of
        Inr True \<Rightarrow> sv_accept s' = Connected
      | Inr False \<Rightarrow> \<exists>slot. sv_accept s' = Accepting slot
      | Inl _ \<Rightarrow> sv_accept s' = sv_accept s)"

lemma collect_cases:
  assumes "collect EP P s m = (r, s', m')" and "sv_accept s = Accepting slot"
  obtains (connected) g where "GetOverlappedResult P (server_raw_handle s) (sl_overlapped slot) False m = g"
      "connected_result (fst g)" "r = Inr True" "s' = s\<lparr>sv_accept := Connected\<rparr>" "m' = slot_drop EP slot (snd g)"
    | (unfinished) e where "GetOverlappedResult P (server_raw_handle s) (sl_overlapped slot) False m = (Inl e, m')"
      "is_error e ERROR_IO_INCOMPLETE" "r = Inr False" "s' = s"
    | (failed) e where "GetOverlappedResult P (server_raw_handle s) (sl_overlapped slot) False m = (Inl e, m')"
      "r = Inl (pipe_from_hresult (win_code e))" "s' = s"
  using assms by (auto simp: collect_def connected_result_def split: prod.splits sum.splits if_splits)

lemma collect_ok:
  assumes c: "pipe_contract out EP P" and inv: "pipe_inv out s m"
    and run: "collect EP P s m = (r, s', m')" and acc: "sv_accept s = Accepting slot"
  shows "pipe_inv out s' m' \<and> answers r s s' \<and> sv_connect_submissions s' = sv_connect_submissions s"
  using run acc
proof (cases rule: collect_cases)
  case (connected g)
  obtain r1 m1 where g: "g = (r1, m1)" by (cases g)
  have q: "quiet out m m1" using contract_quiet(8) [OF c] connected(1) g by simp
  have "sl_overlapped slot \<notin> out (os_kern m1)"
    using contract_collected [OF c] connected(1,2) g by simp
  moreover have "out (os_kern m1) \<subseteq> {sl_overlapped slot}"
    using inv quiet_out_subset [OF q] acc by (auto simp: pipe_inv_def)
  moreover have "os_wf out m1" using quiet_wf [OF q] inv by (simp add: pipe_inv_def)
  ultimately show ?thesis
    using pipe_inv_dropped [OF c, of m1 "sl_overlapped slot" slot s'] connected(3-5)
    by (simp add: answers_def g)
next
  case (unfinished e)
  from contract_quiet(8) [OF c unfinished(1)] pipe_inv_quiet [OF inv] unfinished acc
  show ?thesis by (auto simp: answers_def)
next
  case (failed e)
  from contract_quiet(8) [OF c failed(1)] pipe_inv_quiet [OF inv] failed
  show ?thesis by (auto simp: answers_def)
qed

lemma submit_cases:
  assumes "submit_connect EP P s m = (r, s', m')"
  obtains (no_event) e where "armed_event_new EP m = (Inl e, m')" "r = Inl (pipe_from_win e)" "s' = s"
    | (issued) event m1 a m2 res m3 slot where "armed_event_new EP m = (Inr event, m1)"
      "box_new \<lparr>ov_internal = STATUS_PENDING_INTERNAL, ov_event = ev_handle (ae_event event)\<rparr> m1 = (a, m2)"
      "ConnectNamedPipe P (server_raw_handle s) a m2 = (res, m3)"
      "slot = \<lparr>sl_overlapped = a, sl_event = event\<rparr>"
      "sv_file s' = sv_file s" "sv_connect_submissions s' = sv_connect_submissions s + 1"
      "if pending_result res then r = Inr False \<and> sv_accept s' = Accepting slot \<and> m' = m3
       else m' = slot_drop EP slot m3 \<and>
         (if connected_result res then r = Inr True \<and> sv_accept s' = Connected
          else (\<exists>e. res = Inl e \<and> r = Inl (pipe_from_hresult (win_code e))) \<and> sv_accept s' = sv_accept s)"
proof (cases "armed_event_new EP m")
  case (Pair r1 m1)
  show thesis
  proof (cases r1)
    case (Inl e)
    with Pair assms no_event show thesis by (simp add: submit_connect_def)
  next
    case (Inr event)
    obtain a m2 where b: "box_new \<lparr>ov_internal = STATUS_PENDING_INTERNAL, ov_event = ev_handle (ae_event event)\<rparr> m1 = (a, m2)"
      by (cases "box_new \<lparr>ov_internal = STATUS_PENDING_INTERNAL, ov_event = ev_handle (ae_event event)\<rparr> m1")
    obtain res m3 where i: "ConnectNamedPipe P (server_raw_handle s) a m2 = (res, m3)"
      by (cases "ConnectNamedPipe P (server_raw_handle s) a m2")
    from assms Pair Inr show thesis
      by (intro issued [OF _ b i refl])
        (auto simp: submit_connect_def b i Let_def pending_result_def connected_result_def
          dest: is_error_apart split: sum.splits if_splits)
  qed
qed

lemma submit_ok:
  assumes c: "pipe_contract out EP P" and inv: "pipe_inv out s m" and free: "held s = {}"
    and run: "submit_connect EP P s m = (r, s', m')"
  shows "pipe_inv out s' m' \<and> answers r s s'"
  using run
proof (cases rule: submit_cases)
  case (no_event e)
  from armed_new_quiet [OF c no_event(1)] pipe_inv_quiet [OF inv] no_event show ?thesis
    by (simp add: answers_def)
next
  case (issued event m1 a m2 res m3 slot)
  have inv1: "pipe_inv out s m1" by (rule pipe_inv_quiet [OF inv armed_new_quiet [OF c issued(1)] refl])
  have none: "out (os_kern m1) = {}" and wf1: "dom (os_mem m1) \<subseteq> {..<os_next m1}"
    using inv1 free by (auto simp: pipe_inv_def os_wf_def)
  have m2: "m2 = m1\<lparr>os_mem := (os_mem m1)(a \<mapsto> \<lparr>ov_internal = STATUS_PENDING_INTERNAL,
      ov_event = ev_handle (ae_event event)\<rparr>), os_next := a + 1\<rparr>" "a = os_next m1"
    using issued(2) by (auto simp: box_new_def)
  have eff: "kernel_effect out {a} m2 m3" and fin: "\<not> pending_result res \<Longrightarrow> a \<notin> out (os_kern m3)"
    using contract_connect [OF c issued(3)] none m2(1) by simp_all
  have wf3: "os_wf out m3"
  proof (rule effect_wf [OF eff])
    show "dom (os_mem m2) \<subseteq> {..<os_next m2}" using wf1 m2 by (fastforce simp: less_Suc_eq)
  qed (simp add: m2)
  have out3: "out (os_kern m3) \<subseteq> {a}" and dom3: "a \<in> dom (os_mem m3)"
  proof -
    have "dom (os_mem m3) = dom (os_mem m2)" using eff by (simp add: kernel_effect_def)
    then show "a \<in> dom (os_mem m3)" by (simp add: m2(1))
  qed (use eff in \<open>simp add: kernel_effect_def\<close>)
  show ?thesis
  proof (cases "pending_result res")
    case True
    with issued wf3 out3 dom3 show ?thesis by (auto simp: pipe_inv_def answers_def)
  next
    case False
    then have m': "m' = slot_drop EP slot m3" and sl: "sl_overlapped slot = a" using issued by auto
    have "held s' = {}" using False issued(7) free by (auto simp: held_def split: if_splits)
    from pipe_inv_dropped [OF c wf3 fin [OF False] out3 sl [symmetric] this] False issued(5,7) m'
    show ?thesis by (auto simp: answers_def split: if_splits)
  qed
qed

lemma answered:
  "collect EP P s m = (r, s', m') \<Longrightarrow> sv_accept s = Accepting slot
     \<Longrightarrow> answers r s s' \<and> sv_connect_submissions s' = sv_connect_submissions s"
  "submit_connect EP P s m = (r, s', m') \<Longrightarrow> answers r s s'"
  by (auto simp: answers_def elim!: collect_cases submit_cases split: if_splits)

lemma begin_accept_answers:
  "begin_accept EP P s m = (r, s', m') \<Longrightarrow> answers r s s'"
  using answered by (fastforce simp: begin_accept_def answers_def split: accept_state.splits if_splits)

lemma begin_accept_ok:
  assumes "pipe_contract out EP P" "pipe_inv out s m" "begin_accept EP P s m = (r, s', m')"
  shows "pipe_inv out s' m' \<and> answers r s s'"
  using assms(3) collect_ok [OF assms(1,2)] submit_ok [OF assms(1,2)] assms(2)
  by (cases "sv_accept s") (auto simp: begin_accept_def answers_def split: if_splits)

section \<open>Polling an accept\<close>

text \<open>What a future may assume of the server it borrows.\<close>

definition future_ok :: "accept_future \<Rightarrow> server \<Rightarrow> bool" where
  "future_ok fut s \<longleftrightarrow>
     (fut = AfReady \<longrightarrow> sv_accept s = Connected) \<and>
     (fut = AfWaiting \<longrightarrow> (\<exists>slot. sv_accept s = Accepting slot))"

definition slot_waker :: "server \<Rightarrow> waker option" where
  "slot_waker s = (case sv_accept s of Accepting slot \<Rightarrow> as_waker (ae_state (sl_event slot)) | _ \<Rightarrow> None)"

text \<open>What a poll by \<open>w\<close> may answer.\<close>

definition poll_answers :: "waker \<Rightarrow> (pipe_error + unit) poll \<Rightarrow> waker list \<Rightarrow> accept_future \<Rightarrow> server \<Rightarrow> server \<Rightarrow> bool" where
  "poll_answers w r ws fut' s s' \<longleftrightarrow> sv_file s' = sv_file s \<and> future_ok fut' s' \<and>
     (case r of
        Ready (Inr _) \<Rightarrow> fut' = AfDone \<and> sv_accept s' = Connected
      | Ready (Inl _) \<Rightarrow> fut' = AfDone
      | NotReady \<Rightarrow> fut' = AfWaiting \<and> (slot_waker s' = Some w \<or> ws = [w]))"

lemma poll_slot_cases:
  assumes "poll_slot w slot = (r, slot')"
  shows "sl_overlapped slot' = sl_overlapped slot"
    "r = PollPending \<Longrightarrow> as_waker (ae_state (sl_event slot')) = Some w"
  using assms by (auto simp: poll_slot_def poll_signalled_def Let_def split: if_splits)

lemma poll_slot_held:
  assumes "poll_slot w slot = (r, slot')" "sv_accept s = Accepting slot"
  shows "held (s\<lparr>sv_accept := Accepting slot'\<rparr>) = held s"
  using assms poll_slot_cases [OF assms(1)] by simp

lemma repark_ok:
  assumes "sv_accept s = Accepting slot" "repark w s = (ws, s')"
  shows "held s' = held s \<and> sv_file s' = sv_file s \<and> future_ok AfWaiting s' \<and> (slot_waker s' = Some w \<or> ws = [w])"
proof -
  obtain r slot' where p: "poll_slot w slot = (r, slot')" by (cases "poll_slot w slot")
  from assms poll_slot_cases [OF p] p show ?thesis
    by (cases r) (auto simp: repark_def future_ok_def slot_waker_def)
qed

lemma collect_and_resolve_ok:
  assumes c: "pipe_contract out EP P" and inv: "pipe_inv out s m" and acc: "sv_accept s = Accepting slot"
    and run: "collect_and_resolve EP P w s m = (r, ws, fut', s', m')"
  shows "pipe_inv out s' m' \<and> poll_answers w r ws fut' s s'"
proof -
  obtain r1 s1 m1 where col: "collect EP P s m = (r1, s1, m1)" by (cases "collect EP P s m")
  from collect_ok [OF c inv col acc] have ok: "pipe_inv out s1 m1" "answers r1 s s1" by simp_all
  show ?thesis
  proof (cases "r1 = Inr False")
    case True
    with ok obtain slot1 where acc1: "sv_accept s1 = Accepting slot1" by (auto simp: answers_def)
    obtain ws2 s2 where rp: "repark w s1 = (ws2, s2)" by (cases "repark w s1")
    from True run have "r = NotReady" "ws = ws2" "fut' = AfWaiting" "s' = s2" "m' = m1"
      by (simp_all add: collect_and_resolve_def col rp)
    with repark_ok [OF acc1 rp] ok True show ?thesis
      by (auto simp: poll_answers_def answers_def pipe_inv_def)
  next
    case False
    with run ok show ?thesis
      by (auto simp: collect_and_resolve_def col poll_answers_def answers_def future_ok_def
          split: sum.splits bool.splits)
  qed
qed

lemma accept_poll_ok:
  assumes c: "pipe_contract out EP P" and inv: "pipe_inv out s m" and fut: "future_ok fut s"
    and run: "accept_poll EP P w fut s m = Some (r, ws, fut', s', m')"
  shows "pipe_inv out s' m' \<and> poll_answers w r ws fut' s s'"
proof (cases fut)
  case AfWaiting
  with fut obtain slot where acc: "sv_accept s = Accepting slot" by (auto simp: future_ok_def)
  obtain p slot' where ps: "poll_slot w slot = (p, slot')" by (cases "poll_slot w slot")
  let ?s = "s\<lparr>sv_accept := Accepting slot'\<rparr>"
  have inv': "pipe_inv out ?s m"
    using inv poll_slot_held [OF ps acc] by (simp add: pipe_inv_def)
  show ?thesis
  proof (cases p)
    case PollReady
    with run AfWaiting acc ps have "collect_and_resolve EP P w ?s m = (r, ws, fut', s', m')"
      by (simp add: accept_poll_def)
    from collect_and_resolve_ok [OF c inv' _ this, of slot'] show ?thesis
      by (auto simp: poll_answers_def)
  next
    case PollPending
    with run AfWaiting acc ps poll_slot_cases(2) [OF ps] inv' show ?thesis
      by (auto simp: accept_poll_def poll_answers_def future_ok_def slot_waker_def)
  qed
qed (use fut run inv in \<open>auto simp: accept_poll_def poll_answers_def future_ok_def\<close>)

lemma accept_poll_panics: "future_ok fut s \<Longrightarrow> accept_poll EP P w fut s m = None \<longleftrightarrow> fut = AfDone"
  by (cases fut) (auto simp: accept_poll_def future_ok_def simp del: split_paired_Ex not_None_eq
      split: poll_unit.splits prod.splits)

lemma server_accept_ok:
  assumes "pipe_contract out EP P" "pipe_inv out s m" "server_accept EP P s m = (fut, s', m')"
  shows "pipe_inv out s' m' \<and> future_ok fut s' \<and> sv_file s' = sv_file s"
  using assms(3) begin_accept_ok [OF assms(1,2)]
  by (fastforce simp: server_accept_def future_ok_def answers_def split: prod.splits sum.splits bool.splits)

lemma disconnect_ok:
  assumes "pipe_contract out EP P" "pipe_inv out s m" "disconnect P s m = (r, s', m')"
  shows "pipe_inv out s' m'"
  using assms(3) pipe_inv_quiet [OF assms(2)] contract_quiet(6) [OF assms(1)] assms(2)
  by (fastforce simp: disconnect_def split: accept_state.splits prod.splits sum.splits)

section \<open>Dropping a server\<close>

lemma release_keeps_slot:
  "teardown_release EP a slot m = (a', slot', m') \<Longrightarrow> sl_overlapped slot' = sl_overlapped slot"
  by (auto simp: teardown_release_def split: if_splits prod.splits)

lemma teardown_quiet:
  assumes "pipe_contract out EP P"
  shows "teardown_cancel P h slot m = (a, m') \<Longrightarrow> quiet out m m'"
    "teardown_release EP a slot m = (a', slot', m') \<Longrightarrow> quiet out m m'"
    "teardown_collect P h a slot m = (a', m') \<Longrightarrow> quiet out m m'"
proof -
  show "teardown_cancel P h slot m = (a, m') \<Longrightarrow> quiet out m m'"
    using contract_quiet(7) [OF assms, of h "sl_overlapped slot" m]
    by (auto simp: teardown_cancel_def issue_cancel_def split: if_splits prod.splits sum.splits)
  show "teardown_release EP a slot m = (a', slot', m') \<Longrightarrow> quiet out m m'"
    using release_quiet [OF assms] by (auto simp: teardown_release_def split: if_splits prod.splits)
  show "teardown_collect P h a slot m = (a', m') \<Longrightarrow> quiet out m m'"
    using contract_quiet(8) [OF assms] by (auto simp: teardown_collect_def split: if_splits prod.splits)
qed

lemma collected_completed:
  "teardown_collect P h a slot m = (a', m') \<Longrightarrow> teardown_frees a' \<Longrightarrow> slot_completed slot m' \<and> teardown_frees a"
  by (auto simp: teardown_collect_def collect_finished_it_def teardown_frees_def split: if_splits prod.splits)

text \<open>
  After the drop: freed, and then the kernel is finished; or leaked, and then the memory is
  still there for it.
\<close>

lemma server_drop_ok:
  assumes c: "pipe_contract out EP P" and inv: "pipe_inv out s m" and run: "server_drop EP P s m = (t, m')"
  shows "os_wf out m' \<and> out (os_kern m') \<subseteq> held s \<and>
    dom (os_mem m') = (if \<exists>a. t = Some a \<and> teardown_frees a then dom (os_mem m) - held s else dom (os_mem m)) \<and>
    (\<forall>a. t = Some a \<longrightarrow> teardown_frees a \<longrightarrow> out (os_kern m') = {})"
proof (cases "sv_accept s")
  case (Accepting slot)
  let ?h = "server_raw_handle s"
  obtain a1 m1 where 1: "teardown_cancel P ?h slot m = (a1, m1)" by (cases "teardown_cancel P ?h slot m")
  obtain a2 slot2 m2 where 2: "teardown_release EP a1 slot m1 = (a2, slot2, m2)"
    by (cases "teardown_release EP a1 slot m1")
  obtain a3 m3 where 3: "teardown_collect P ?h a2 slot2 m2 = (a3, m3)" by (cases "teardown_collect P ?h a2 slot2 m2")
  from run Accepting 1 2 3 have r: "t = Some a3" "m' = (if teardown_frees a3 then slot_drop EP slot2 m3 else m3)"
    by (simp_all add: server_drop_def)
  have q: "quiet out m m3"
    by (rule quiet_trans [OF teardown_quiet(1) [OF c 1] quiet_trans [OF teardown_quiet(2) [OF c 2] teardown_quiet(3) [OF c 3]]])
  have wf3: "os_wf out m3" and out3: "out (os_kern m3) \<subseteq> {sl_overlapped slot}"
    using quiet_wf [OF q] quiet_out_subset [OF q] inv Accepting by (auto simp: pipe_inv_def)
  have same: "sl_overlapped slot2 = sl_overlapped slot" by (rule release_keeps_slot [OF 2])
  show ?thesis
  proof (cases "teardown_frees a3")
    case True
    from collected_completed [OF 3 True] completed_finished [OF wf3]
    have fin: "sl_overlapped slot2 \<notin> out (os_kern m3)" by simp
    from slot_dropped [OF c wf3 fin] fin out3 same r True quiet_dom [OF q] Accepting show ?thesis by auto
  next
    case False
    with r wf3 out3 quiet_dom [OF q] Accepting show ?thesis by simp
  qed
qed (use run inv in \<open>simp_all add: server_drop_def pipe_inv_def\<close>)

section \<open>Worlds\<close>

record 'k pipe_world =
  pw_server :: "server option"
  pw_future :: "accept_future option"
  pw_os :: "'k os"

definition signal_server :: "server \<Rightarrow> waker option \<times> server" where
  "signal_server s =
     (case sv_accept s of
        Accepting slot \<Rightarrow>
          (case armed_callback (ae_state (sl_event slot)) of
             (w, st) \<Rightarrow> (w, s\<lparr>sv_accept := Accepting (slot\<lparr>sl_event := (sl_event slot)\<lparr>ae_state := st\<rparr>\<rparr>)\<rparr>))
      | _ \<Rightarrow> (None, s))"

inductive pipe_step ::
    "('k \<Rightarrow> addr set) \<Rightarrow> 'k os event_platform \<Rightarrow> 'k os pipe_platform \<Rightarrow> 'k pipe_world \<Rightarrow> 'k pipe_world \<Rightarrow> bool"
  for out EP P where
  ps_accept: "server_accept EP P s m = (fut, s', m') \<Longrightarrow>
    pipe_step out EP P \<lparr>pw_server = Some s, pw_future = None, pw_os = m\<rparr>
      \<lparr>pw_server = Some s', pw_future = Some fut, pw_os = m'\<rparr>"
| ps_poll: "accept_poll EP P w fut s m = Some (r, ws, fut', s', m') \<Longrightarrow>
    pipe_step out EP P \<lparr>pw_server = Some s, pw_future = Some fut, pw_os = m\<rparr>
      \<lparr>pw_server = Some s', pw_future = Some fut', pw_os = m'\<rparr>"
| ps_forget: "pipe_step out EP P \<lparr>pw_server = Some s, pw_future = Some fut, pw_os = m\<rparr>
      \<lparr>pw_server = Some s, pw_future = None, pw_os = m\<rparr>"
| ps_disconnect: "disconnect P s m = (r', s', m') \<Longrightarrow>
    pipe_step out EP P \<lparr>pw_server = Some s, pw_future = None, pw_os = m\<rparr>
      \<lparr>pw_server = Some s', pw_future = None, pw_os = m'\<rparr>"
| ps_signal: "signal_server s = (wk, s') \<Longrightarrow>
    pipe_step out EP P \<lparr>pw_server = Some s, pw_future = f, pw_os = m\<rparr>
      \<lparr>pw_server = Some s', pw_future = f, pw_os = m\<rparr>"
| ps_kernel: "quiet out m m' \<Longrightarrow>
    pipe_step out EP P \<lparr>pw_server = sv, pw_future = f, pw_os = m\<rparr>
      \<lparr>pw_server = sv, pw_future = f, pw_os = m'\<rparr>"
| ps_drop: "server_drop EP P s m = (t, m') \<Longrightarrow>
    pipe_step out EP P \<lparr>pw_server = Some s, pw_future = None, pw_os = m\<rparr>
      \<lparr>pw_server = None, pw_future = None, pw_os = m'\<rparr>"

inductive pipe_reachable ::
    "('k \<Rightarrow> addr set) \<Rightarrow> 'k os event_platform \<Rightarrow> 'k os pipe_platform \<Rightarrow> 'k pipe_world \<Rightarrow> bool"
  for out EP P where
  pr_created: "\<lbrakk>server_options_create EP P opts name m = (Inr s, m'); os_wf out m; out (os_kern m) = {}\<rbrakk>
    \<Longrightarrow> pipe_reachable out EP P \<lparr>pw_server = Some s, pw_future = None, pw_os = m'\<rparr>"
| pr_step: "\<lbrakk>pipe_reachable out EP P w; pipe_step out EP P w w'\<rbrakk> \<Longrightarrow> pipe_reachable out EP P w'"

definition world_ok :: "('k \<Rightarrow> addr set) \<Rightarrow> 'k pipe_world \<Rightarrow> bool" where
  "world_ok out w \<longleftrightarrow>
     os_wf out (pw_os w) \<and>
     (\<exists>a. out (os_kern (pw_os w)) \<subseteq> {a}) \<and>
     (case pw_server w of
        Some s \<Rightarrow> pipe_inv out s (pw_os w) \<and> (\<forall>fut. pw_future w = Some fut \<longrightarrow> future_ok fut s)
      | None \<Rightarrow> pw_future w = None)"

lemma pipe_inv_single: "pipe_inv out s m \<Longrightarrow> os_wf out m \<and> (\<exists>a. out (os_kern m) \<subseteq> {a})"
  by (auto simp: pipe_inv_def held_def split: accept_state.splits)

lemma signal_keeps:
  "signal_server s = (wk, s') \<Longrightarrow> held s' = held s \<and> (future_ok fut s \<longrightarrow> future_ok fut s')"
  by (auto simp: signal_server_def future_ok_def held_def split: accept_state.splits prod.splits)

lemma pipe_step_ok:
  assumes "pipe_step out EP P w w'" and c: "pipe_contract out EP P" and "world_ok out w"
  shows "world_ok out w'"
  using assms(1,3)
proof cases
  case (ps_accept s m fut s' m')
  with assms(3) server_accept_ok [OF c _ ps_accept(3)] pipe_inv_single show ?thesis
    by (auto simp: world_ok_def)
next
  case (ps_poll wk fut s m r ws fut' s' m')
  with assms(3) accept_poll_ok [OF c _ _ ps_poll(3)] pipe_inv_single show ?thesis
    by (auto simp: world_ok_def poll_answers_def)
next
  case (ps_forget s fut m)
  with assms(3) show ?thesis by (simp add: world_ok_def)
next
  case (ps_disconnect s m r' s' m')
  with assms(3) disconnect_ok [OF c _ ps_disconnect(3)] pipe_inv_single show ?thesis
    by (auto simp: world_ok_def)
next
  case (ps_signal s wk s' f m)
  with assms(3) signal_keeps [OF ps_signal(3)] show ?thesis
    by (auto simp: world_ok_def pipe_inv_def)
next
  case (ps_kernel m m' sv f)
  from quiet_wf [OF ps_kernel(3)] quiet_out_subset [OF ps_kernel(3)] pipe_inv_quiet [OF _ ps_kernel(3) refl]
  show ?thesis using assms(3) ps_kernel
    by (auto simp: world_ok_def split: option.splits)
next
  case (ps_drop s m t m')
  with assms(3) have inv: "pipe_inv out s m" by (simp add: world_ok_def)
  from server_drop_ok [OF c inv ps_drop(3)] show ?thesis using ps_drop
    by (auto simp: world_ok_def held_def split: accept_state.splits)
qed

lemma created_ok:
  assumes "server_options_create EP P opts name m = (Inr s, m')" "os_wf out m" "out (os_kern m) = {}"
    "pipe_contract out EP P"
  shows "pipe_inv out s m'"
proof -
  have "sv_accept s = Fresh" "quiet out m m'"
    using assms(1) contract_quiet(5) [OF assms(4)]
    by (auto simp: server_options_create_def Let_def split: prod.splits if_splits)
  with quiet_wf quiet_out_subset assms show ?thesis by (fastforce simp: pipe_inv_def)
qed

lemma pipe_reachable_ok:
  "\<lbrakk>pipe_reachable out EP P w; pipe_contract out EP P\<rbrakk> \<Longrightarrow> world_ok out w"
proof (induction rule: pipe_reachable.induct)
  case (pr_created opts name m s m')
  from created_ok [OF pr_created] pipe_inv_single show ?case by (auto simp: world_ok_def)
qed (use pipe_step_ok in blast)

end
