(* ===== verification/Pipe_Props.thy ===== *)
theory Pipe_Props
  imports Pipe_Safety
begin

text \<open>
  Named pipes: the properties. A kernel that keeps one accept outstanding until it is
  cancelled is the platform of the concrete runs.
\<close>

section \<open>The properties\<close>

text \<open>
  C13: The kernel only writes memory the server still owns. In every state a server can reach,
  through accepts, polls, dropped futures, disconnects, signals, its own drop, and a kernel
  that completes operations whenever it likes, each structure the kernel has not finished with
  is still allocated and still reads as pending; there is at most one of them; whatever the
  kernel does next writes allocated memory only; and a slot the server holds is allocated.
\<close>

theorem kernel_writes_live_memory:
  assumes "pipe_contract out EP P" and "pipe_reachable out EP P w"
  shows "(\<forall>a \<in> out (os_kern (pw_os w)).
        \<exists>ov. os_mem (pw_os w) a = Some ov \<and> ov_internal ov = STATUS_PENDING_INTERNAL) \<and>
    (\<exists>a. out (os_kern (pw_os w)) \<subseteq> {a}) \<and>
    (\<forall>m' a. quiet out (pw_os w) m' \<longrightarrow> os_mem m' a \<noteq> os_mem (pw_os w) a \<longrightarrow> os_mem (pw_os w) a \<noteq> None) \<and>
    (\<forall>s slot. pw_server w = Some s \<longrightarrow> sv_accept s = Accepting slot \<longrightarrow>
        os_mem (pw_os w) (sl_overlapped slot) \<noteq> None)"
proof -
  have ok: "world_ok out w" by (rule pipe_reachable_ok [OF assms(2,1)])
  then have "os_wf out (pw_os w)" "\<exists>a. out (os_kern (pw_os w)) \<subseteq> {a}" by (simp_all add: world_ok_def)
  moreover have "os_mem (pw_os w) (sl_overlapped slot) \<noteq> None"
    if "pw_server w = Some s" "sv_accept s = Accepting slot" for s slot
    using ok that by (auto simp: world_ok_def pipe_inv_def)
  ultimately show ?thesis
    unfolding os_wf_def quiet_def kernel_effect_def by (metis option.distinct(1))
qed

text \<open>An error a poll answers is the one the accept failed with, or the platform's on the held accept.\<close>

lemma collect_error:
  assumes "collect EP P s m = (Inl e, s', m')" "sv_accept s = Accepting slot"
  obtains err where
    "GetOverlappedResult P (server_raw_handle s) (sl_overlapped slot) False m = (Inl err, m')"
    "\<not> is_error err ERROR_IO_INCOMPLETE" "\<not> is_error err ERROR_PIPE_CONNECTED"
    "e = pipe_from_hresult (win_code err)" "s' = s"
  using assms by (auto simp: collect_def split: prod.splits sum.splits if_splits)

definition poll_failed :: "'k os pipe_platform \<Rightarrow> accept_future \<Rightarrow> pipe_error \<Rightarrow> server \<Rightarrow> 'k os \<Rightarrow> server \<Rightarrow> 'k os \<Rightarrow> bool" where
  "poll_failed P fut e s m s' m' \<longleftrightarrow>
     fut = AfFailed e \<and> s' = s \<and> m' = m \<or>
     fut = AfWaiting \<and> (\<exists>slot slot' err. sv_accept s = Accepting slot \<and>
       s' = s\<lparr>sv_accept := Accepting slot'\<rparr> \<and> sl_overlapped slot' = sl_overlapped slot \<and>
       GetOverlappedResult P (server_raw_handle s) (sl_overlapped slot) False m = (Inl err, m') \<and>
       \<not> is_error err ERROR_IO_INCOMPLETE \<and> \<not> is_error err ERROR_PIPE_CONNECTED \<and>
       e = pipe_from_hresult (win_code err))"

lemma accept_poll_error:
  assumes fut: "future_ok fut s" and run: "accept_poll EP P w fut s m = Some (Ready (Inl e), ws, fut', s', m')"
  shows "poll_failed P fut e s m s' m'"
proof (cases fut)
  case AfWaiting
  with fut obtain slot where acc: "sv_accept s = Accepting slot" by (auto simp: future_ok_def)
  obtain p slot' where ps: "poll_slot w slot = (p, slot')" by (cases "poll_slot w slot")
  let ?s = "s\<lparr>sv_accept := Accepting slot'\<rparr>"
  have "collect_and_resolve EP P w ?s m = (Ready (Inl e), ws, fut', s', m')"
    using run AfWaiting acc ps by (auto simp: accept_poll_def split: poll_unit.splits)
  then have "collect EP P ?s m = (Inl e, s', m')"
    by (auto simp: collect_and_resolve_def split: prod.splits sum.splits bool.splits)
  then show ?thesis
    by (rule collect_error [where slot = slot'])
      (use AfWaiting acc poll_slot_cases(1) [OF ps] in \<open>auto simp: poll_failed_def server_raw_handle_def\<close>)
qed (use run in \<open>simp_all add: accept_poll_def poll_failed_def\<close>)

text \<open>
  C14: A poll answers what the server is. In a reachable state a waiting future always finds the
  server holding the accept it waits for, and a ready one finds it connected. Polling panics only
  after it has resolved; \<open>Ok\<close> means that the server is connected and lends its file; a pending
  answer leaves the future waiting on an accept that is still held, with the task's waker
  registered on its event or woken at once; and an error is either the one the accept
  failed with when it was begun, or what the platform answered for the held accept's own
  structure when asked for its result, the accept staying held; a poll reports no other error, so
  never that there is nothing to wait for.
\<close>

theorem accept_answers_truly:
  assumes "pipe_contract out EP P" and "pipe_reachable out EP P w"
    and "pw_server w = Some s" and "pw_future w = Some fut"
  shows "(fut = AfWaiting \<longrightarrow> (\<exists>slot. sv_accept s = Accepting slot)) \<and> (fut = AfReady \<longrightarrow> is_connected s) \<and>
    (case accept_poll EP P wk fut s (pw_os w) of
      None \<Rightarrow> fut = AfDone
    | Some (Ready (Inr _), ws, fut', s', m') \<Rightarrow>
        fut' = AfDone \<and> is_connected s' \<and> server_file s' = Inr (sv_file s)
    | Some (Ready (Inl e), ws, fut', s', m') \<Rightarrow> fut' = AfDone \<and> poll_failed P fut e s (pw_os w) s' m'
    | Some (NotReady, ws, fut', s', m') \<Rightarrow>
        fut = AfWaiting \<and> fut' = AfWaiting \<and> server_file s' = Inl PiAcceptOutstanding \<and>
        (slot_waker s' = Some wk \<or> ws = [wk]))"
proof -
  from pipe_reachable_ok [OF assms(2,1)] assms(3,4)
  have inv: "pipe_inv out s (pw_os w)" and fut: "future_ok fut s" by (simp_all add: world_ok_def)
  have start: "(fut = AfWaiting \<longrightarrow> (\<exists>slot. sv_accept s = Accepting slot)) \<and> (fut = AfReady \<longrightarrow> is_connected s)"
    using fut by (simp add: future_ok_def is_connected_def)
  show ?thesis
  proof (cases "accept_poll EP P wk fut s (pw_os w)")
    case None
    from accept_poll_panics [OF fut] None have "fut = AfDone" by blast
    with start show ?thesis unfolding None by simp
  next
    case (Some r)
    obtain a ws fut' s' m' where r: "r = (a, ws, fut', s', m')" by (cases r)
    from accept_poll_ok [OF assms(1) inv fut Some [unfolded r]] have p: "poll_answers wk a ws fut' s s'" by simp
    have "a = NotReady \<Longrightarrow> fut = AfWaiting"
      using Some unfolding r by (cases fut) (auto simp: accept_poll_def)
    moreover have "poll_failed P fut e s (pw_os w) s' m'" if "a = Ready (Inl e)" for e
      using accept_poll_error [OF fut] Some that unfolding r by blast
    ultimately show ?thesis using p start unfolding Some r
      by (auto simp: poll_answers_def future_ok_def is_connected_def server_file_def
          split: poll.split sum.split)
  qed
qed

text \<open>
  C15: An accept is resumed, not submitted again. Accepting while one is outstanding makes no
  connect: the count stays and the answer does not depend on what a connect would do. From a
  fresh or idle instance it makes one, unless the event could not be made. It answers that a
  client is there exactly if the server is connected afterwards, and an error leaves the state
  as it was; a connected server answers at once. A server that is not connected refuses to lend
  its file and to disconnect, and a refused read hands its buffer back when it is polled.
\<close>

theorem accept_resumes:
  assumes "begin_accept EP P s m = (r, s', m')"
  shows "(case sv_accept s of
        Accepting slot \<Rightarrow> sv_connect_submissions s' = sv_connect_submissions s \<and>
          begin_accept EP (P\<lparr>ConnectNamedPipe := connect\<rparr>) s m = (r, s', m')
      | Connected \<Rightarrow> r = Inr True \<and> s' = s \<and> m' = m
      | _ \<Rightarrow> sv_connect_submissions s' = sv_connect_submissions s +
              (case fst (armed_event_new EP m) of Inl _ \<Rightarrow> 0 | Inr _ \<Rightarrow> 1)) \<and>
    (is_connected s' \<longleftrightarrow> r = Inr True) \<and>
    (\<forall>e. r = Inl e \<longrightarrow> sv_accept s' = sv_accept s) \<and>
    (\<not> is_connected s' \<longrightarrow> (\<exists>e \<in> {PiListening, PiAcceptOutstanding}.
       server_file s' = Inl e \<and> disconnect P s' m' = (Inl e, s', m') \<and>
       (\<forall>Q f b n off d. \<exists>po. server_read_at Q f s' b n off d = Some (po, [], d) \<and>
          pipe_read_poll wk po d = Some (Ready (buf_result_new (Inl e) b), po\<lparr>pp_rejected := None\<rparr>, d))))"
proof -
  have ans: "answers r s s'" by (rule begin_accept_answers [OF assms])
  have conn: "is_connected s' \<longleftrightarrow> r = Inr True"
    using ans assms by (cases "sv_accept s")
      (auto simp: answers_def is_connected_def begin_accept_def split: sum.splits bool.splits)
  have kept: "sv_accept s' = sv_accept s" if "r = Inl e" for e using ans that by (simp add: answers_def)
  have refused: "\<exists>e \<in> {PiListening, PiAcceptOutstanding}. server_file s' = Inl e \<and>
      disconnect P s' m' = (Inl e, s', m')" if "\<not> is_connected s'"
    using that by (cases "sv_accept s'") (simp_all add: is_connected_def server_file_def disconnect_def)
  have returned: "\<exists>po. server_read_at Q f s' b n off d = Some (po, [], d) \<and>
      pipe_read_poll wk po d = Some (Ready (buf_result_new (Inl e) b), po\<lparr>pp_rejected := None\<rparr>, d)"
    if "server_file s' = Inl e" for Q f b n off d e
    using that by (simp add: server_read_at_def pipe_rejected_def pipe_read_poll_def pipe_poll_def)
  have counts: "case sv_accept s of
        Accepting slot \<Rightarrow> sv_connect_submissions s' = sv_connect_submissions s \<and>
          begin_accept EP (P\<lparr>ConnectNamedPipe := connect\<rparr>) s m = (r, s', m')
      | Connected \<Rightarrow> r = Inr True \<and> s' = s \<and> m' = m
      | _ \<Rightarrow> sv_connect_submissions s' = sv_connect_submissions s +
              (case fst (armed_event_new EP m) of Inl _ \<Rightarrow> 0 | Inr _ \<Rightarrow> 1)"
    using assms answered(1) [of EP P s m r s' m']
    by (cases "sv_accept s") (auto simp: begin_accept_def collect_def elim!: submit_cases split: if_splits)
  show ?thesis using counts conn kept refused returned by blast
qed

lemmas teardown_defs = teardown_cancel_def issue_cancel_def teardown_release_def
  teardown_collect_def teardown_action_def teardown_frees_def release_permits_collect_def
  collect_finished_it_def

text \<open>
  C16: The teardown leaks exactly when it must, and frees only what the kernel has finished
  with. The drop of a server that holds a slot cancels, then releases the thread pool's
  registration, then collects, each step only if the one before it allows: the first refusal
  is the reason it reports and nothing after it runs. It frees the slot, and nothing else,
  exactly if all three succeeded and the status word is terminal; otherwise all memory stays
  allocated. If it freed, the kernel has nothing outstanding.
\<close>

theorem teardown_exact:
  assumes "pipe_contract out EP P" and "pipe_inv out s m" and "sv_accept s = Accepting slot"
    and "(cancel, m1) = (if slot_completed slot m then (Inr (), m)
           else CancelIoEx P (server_raw_handle s) (sl_overlapped slot) m)"
    and "release_registration EP (sl_event slot) m1 = (reg, ev, m2)"
    and "GetOverlappedResult P (server_raw_handle s) (sl_overlapped slot) True m2 = (res, m3)"
    and "server_drop EP P s m = (t, m')"
  shows "(t, m') =
      (case cancel of
         Inl e \<Rightarrow>
           if \<not> is_error e ERROR_NOT_FOUND then (Some LeakCancelFailed, m1)
           else if \<not> slot_completed slot m1 then (Some LeakNeverSubmitted, m1)
           else if reg \<noteq> RegReleased then (Some LeakUnregisterFailed, m2)
           else if \<not> slot_completed slot m3 then (Some LeakCollectUnfinished, m3)
           else (Some CollectThenFree, slot_drop EP (slot\<lparr>sl_event := ev\<rparr>) m3)
       | Inr _ \<Rightarrow>
           if reg \<noteq> RegReleased then (Some LeakUnregisterFailed, m2)
           else if \<not> slot_completed slot m3 then (Some LeakCollectUnfinished, m3)
           else (Some CollectThenFree, slot_drop EP (slot\<lparr>sl_event := ev\<rparr>) m3)) \<and>
    dom (os_mem m') = dom (os_mem m) - (if t = Some CollectThenFree then {sl_overlapped slot} else {}) \<and>
    (t = Some CollectThenFree \<longrightarrow> out (os_kern m') = {})"
proof -
  have same [simp]: "slot_completed (slot\<lparr>sl_event := ev\<rparr>) m3 = slot_completed slot m3"
    by (simp add: slot_completed_def)
  have "(t, m') = (case cancel of
         Inl e \<Rightarrow>
           if \<not> is_error e ERROR_NOT_FOUND then (Some LeakCancelFailed, m1)
           else if \<not> slot_completed slot m1 then (Some LeakNeverSubmitted, m1)
           else if reg \<noteq> RegReleased then (Some LeakUnregisterFailed, m2)
           else if \<not> slot_completed slot m3 then (Some LeakCollectUnfinished, m3)
           else (Some CollectThenFree, slot_drop EP (slot\<lparr>sl_event := ev\<rparr>) m3)
       | Inr _ \<Rightarrow>
           if reg \<noteq> RegReleased then (Some LeakUnregisterFailed, m2)
           else if \<not> slot_completed slot m3 then (Some LeakCollectUnfinished, m3)
           else (Some CollectThenFree, slot_drop EP (slot\<lparr>sl_event := ev\<rparr>) m3))"
  proof (cases "slot_completed slot m")
    case True
    with assms(4) have "cancel = Inr ()" "m1 = m" by simp_all
    with True assms(3,5-7) show ?thesis
      by (cases reg) (auto simp: server_drop_def Let_def teardown_defs split: if_splits)
  next
    case False
    with assms(4) have "CancelIoEx P (server_raw_handle s) (sl_overlapped slot) m = (cancel, m1)" by simp
    with False assms(3,5-7) show ?thesis
      by (cases cancel; cases reg; cases "slot_completed slot m1"; cases "is_error (projl cancel) ERROR_NOT_FOUND")
        (auto simp: server_drop_def Let_def teardown_defs split: if_splits)
  qed
  moreover from server_drop_ok [OF assms(1,2,7)] assms(3)
  have "dom (os_mem m') = dom (os_mem m) - (if t = Some CollectThenFree then {sl_overlapped slot} else {})"
    "t = Some CollectThenFree \<longrightarrow> out (os_kern m') = {}"
    by (auto simp: teardown_frees_def)
  ultimately show ?thesis by simp
qed

section \<open>A client that left before the accept\<close>

text \<open>
  The platform reports that the previous client has left; the accept fails and the state stays,
  so the instance still claims to accept clients, and the disconnect that would recover it is
  refused.
\<close>

lemma departed_client_not_recoverable:
  assumes "sv_accept s = Fresh" and "armed_event_new EP m = (Inr ev, m1)"
    and "\<And>h a k. fst (ConnectNamedPipe P h a k) = Inl (WinError (hresult_from_win32 ERROR_NO_DATA))"
  shows "\<exists>s' m'. begin_accept EP P s m = (Inl PiNoPeer, s', m') \<and> accepts_clients s' m' \<and>
    disconnect P s' m' = (Inl PiListening, s', m')"
proof -
  obtain a m2 where b: "box_new \<lparr>ov_internal = STATUS_PENDING_INTERNAL, ov_event = ev_handle (ae_event ev)\<rparr> m1 = (a, m2)"
    by (cases "box_new \<lparr>ov_internal = STATUS_PENDING_INTERNAL, ov_event = ev_handle (ae_event ev)\<rparr> m1")
  obtain m3 where c: "ConnectNamedPipe P (server_raw_handle s) a m2 =
      (Inl (WinError (hresult_from_win32 ERROR_NO_DATA)), m3)"
    using assms(3) [of "server_raw_handle s" a m2] by (cases "ConnectNamedPipe P (server_raw_handle s) a m2") simp
  show ?thesis
    using assms(1,2)
    by (simp add: begin_accept_def submit_connect_def b c is_error_def pipe_from_hresult_def
        classify_pipe_def pipe_table_def accepts_clients_def disconnect_def)
qed

end
