(* ===== verification/Pipe_Samples.thy ===== *)
theory Pipe_Samples
  imports Pipe_Props
begin

text \<open>
  Concrete runs of a pipe server: a kernel that holds at most one connect, finishes it when it
  is cancelled or waited for, and never before.
\<close>

definition sample_events :: "addr option os event_platform" where
  "sample_events = \<lparr>CreateEventW = \<lambda>b m. (Inr 40, m), SetEvent = \<lambda>h m. (Inr (), m),
     ResetEvent = \<lambda>h m. (Inr (), m), WaitForSingleObject = \<lambda>h t m. (0, m),
     GetLastError = \<lambda>m. WinError 0x80004005, RegisterWait = \<lambda>h m. (Inr 41, m),
     UnregisterWait = \<lambda>h m. (Inr (), m), CloseHandle = \<lambda>h m. (Inr (), m)\<rparr>"

definition finish :: "addr \<Rightarrow> addr option os \<Rightarrow> addr option os" where
  "finish a m =
     (if os_kern m = Some a
      then m\<lparr>os_mem := (os_mem m)(a := map_option (ov_internal_update (\<lambda>_. 0xC0000120)) (os_mem m a)),
             os_kern := None\<rparr>
      else m)"

definition sample_pipes :: "addr option os pipe_platform" where
  "sample_pipes = \<lparr>
     CreateNamedPipeW = \<lambda>n om pm i ob ib t m. (9, m),
     ConnectNamedPipe = \<lambda>h a m. (Inl (WinError (hresult_from_win32 ERROR_IO_PENDING)), m\<lparr>os_kern := Some a\<rparr>),
     DisconnectNamedPipe = \<lambda>h m. (Inr (), m),
     GetOverlappedResult = \<lambda>h a w m.
       (if w \<or> os_kern m \<noteq> Some a then (Inr 0, finish a m)
        else (Inl (WinError (hresult_from_win32 ERROR_IO_INCOMPLETE)), m)),
     CancelIoEx = \<lambda>h a m. (Inr (), finish a m)\<rparr>"

lemma finish_quiet: "quiet set_option m (finish a m)"
  by (auto simp: quiet_def kernel_effect_def finish_def)

lemma finish_done: "os_kern (finish a m) \<noteq> Some a"
  by (simp add: finish_def)

lemma sample_contract: "pipe_contract set_option sample_events sample_pipes"
  using finish_quiet finish_done
  by (auto simp: pipe_contract_def event_contract_def sample_events_def sample_pipes_def
      connected_result_def pending_result_def is_error_def kernel_effect_def split: if_splits)

definition sample_os :: "addr option os" where
  "sample_os = \<lparr>os_mem = (\<lambda>_. None), os_next = 0, os_kern = None\<rparr>"

definition sample_server :: server where
  "sample_server = \<lparr>sv_file = file_state_new 9, sv_accept = Fresh, sv_synchronous_accepts = 0,
     sv_connect_submissions = 0\<rparr>"

definition sample_slot :: accept_slot where
  "sample_slot = \<lparr>sl_overlapped = 0, sl_event = \<lparr>ae_event = \<lparr>ev_handle = 40\<rparr>, ae_wait = 41,
     ae_registration = RegLive, ae_refs = 2, ae_open = True, ae_state = armed_state_new\<rparr>\<rparr>"

definition accepting_server :: server where
  "accepting_server = sample_server\<lparr>sv_connect_submissions := 1, sv_accept := Accepting sample_slot\<rparr>"

definition accepting_os :: "addr option os" where
  "accepting_os = \<lparr>os_mem = [0 \<mapsto> \<lparr>ov_internal = STATUS_PENDING_INTERNAL, ov_event = 40\<rparr>],
     os_next = 1, os_kern = Some 0\<rparr>"

definition accepting_world :: "addr option pipe_world" where
  "accepting_world = \<lparr>pw_server = Some accepting_server, pw_future = Some AfWaiting, pw_os = accepting_os\<rparr>"

lemma sample_created:
  "server_options_create sample_events sample_pipes server_options_new (str_of ''demo'') sample_os
     = (Inr sample_server, sample_os)"
  by (simp add: server_options_create_def sample_pipes_def handle_is_invalid_def file_from_raw_handle_def
      sample_server_def)

lemma sample_begin:
  "begin_accept sample_events sample_pipes sample_server sample_os = (Inr False, accepting_server, accepting_os)"
  by (simp add: begin_accept_def submit_connect_def sample_server_def sample_events_def sample_pipes_def
      armed_event_new_def async_event_new_def box_new_def sample_os_def accepting_server_def
      accepting_os_def sample_slot_def is_error_def)

lemma accepting_reachable: "pipe_reachable set_option sample_events sample_pipes accepting_world"
proof -
  let ?w = "\<lparr>pw_server = Some sample_server, pw_future = None, pw_os = sample_os\<rparr>"
  have "pipe_reachable set_option sample_events sample_pipes ?w"
    by (rule pr_created [OF sample_created]) (simp_all add: os_wf_def sample_os_def)
  moreover have "pipe_step set_option sample_events sample_pipes ?w accepting_world"
    unfolding accepting_world_def by (rule ps_accept) (simp add: server_accept_def sample_begin)
  ultimately show ?thesis by (rule pr_step)
qed

text \<open>The accept is in the kernel's hands, and its memory is there.\<close>

theorem kernel_writes_live_memory_witness:
  "0 \<in> set_option (os_kern accepting_os) \<and>
   (\<exists>ov. os_mem accepting_os 0 = Some ov \<and> ov_internal ov = STATUS_PENDING_INTERNAL)"
  using kernel_writes_live_memory [OF sample_contract accepting_reachable]
  by (simp add: accepting_world_def accepting_os_def)

text \<open>The task with waker 7 polls it and is registered.\<close>

theorem accept_answers_truly_witness:
  "\<exists>s'. accept_poll sample_events sample_pipes 7 AfWaiting accepting_server accepting_os
      = Some (NotReady, [], AfWaiting, s', accepting_os) \<and> slot_waker s' = Some 7"
proof -
  obtain s' where p: "accept_poll sample_events sample_pipes 7 AfWaiting accepting_server accepting_os
      = Some (NotReady, [], AfWaiting, s', accepting_os)"
    by (simp add: accept_poll_def accepting_server_def poll_slot_def sample_slot_def poll_signalled_def
        armed_state_new_def)
  from accept_answers_truly [OF sample_contract accepting_reachable, of accepting_server AfWaiting 7] p
  show ?thesis by (simp add: accepting_world_def)
qed

text \<open>A second accept finds the first one outstanding.\<close>

lemma accepting_again:
  "begin_accept sample_events sample_pipes accepting_server accepting_os = (Inr False, accepting_server, accepting_os)"
  by (simp add: begin_accept_def accepting_server_def slot_completed_def sample_slot_def accepting_os_def)

theorem accept_resumes_witness:
  "\<not> is_connected accepting_server \<and>
   begin_accept sample_events (sample_pipes\<lparr>ConnectNamedPipe := \<lambda>h a m. (Inr (), m)\<rparr>) accepting_server accepting_os
     = (Inr False, accepting_server, accepting_os)"
proof -
  have "sv_accept accepting_server = Accepting sample_slot" by (simp add: accepting_server_def)
  with accept_resumes [OF accepting_again, where connect = "\<lambda>h a m. (Inr (), m)" and wk = 0] show ?thesis
    by auto
qed

text \<open>Dropping the server cancels the accept, collects it and frees its memory.\<close>

lemma accepting_inv: "pipe_inv set_option accepting_server accepting_os"
  by (auto simp: pipe_inv_def os_wf_def accepting_server_def accepting_os_def sample_slot_def)

theorem teardown_exact_witness:
  "\<exists>m'. server_drop sample_events sample_pipes accepting_server accepting_os = (Some CollectThenFree, m') \<and>
     dom (os_mem m') = {} \<and> os_kern m' = None"
proof -
  let ?m1 = "finish 0 accepting_os"
  let ?ev = "(sl_event sample_slot)\<lparr>ae_registration := RegReleased\<rparr>"
  obtain t m' where d: "server_drop sample_events sample_pipes accepting_server accepting_os = (t, m')"
    by (cases "server_drop sample_events sample_pipes accepting_server accepting_os")
  have fin: "finish 0 ?m1 = ?m1" "slot_completed sample_slot ?m1"
    by (simp_all add: finish_def accepting_os_def slot_completed_def sample_slot_def STATUS_PENDING_INTERNAL_def)
  have acc: "sv_accept accepting_server = Accepting sample_slot" and slot: "sl_overlapped sample_slot = 0"
    by (simp_all add: accepting_server_def sample_slot_def)
  have cancel: "(Inr (), ?m1) = (if slot_completed sample_slot accepting_os then (Inr (), accepting_os)
      else CancelIoEx sample_pipes (server_raw_handle accepting_server) (sl_overlapped sample_slot) accepting_os)"
    by (simp add: slot_completed_def sample_slot_def accepting_os_def sample_pipes_def)
  have release: "release_registration sample_events (sl_event sample_slot) ?m1 = (RegReleased, ?ev, ?m1)"
    by (simp add: release_registration_def sample_slot_def sample_events_def)
  have collect: "GetOverlappedResult sample_pipes (server_raw_handle accepting_server)
      (sl_overlapped sample_slot) True ?m1 = (Inr 0, ?m1)"
    by (simp add: sample_pipes_def slot fin(1))
  note exact = teardown_exact [OF sample_contract accepting_inv acc cancel release collect d]
  from exact fin(2) have "t = Some CollectThenFree" by simp
  moreover from this exact have "dom (os_mem m') = dom (os_mem accepting_os) - {0}" "os_kern m' = None"
    by (simp_all only: slot) simp_all
  ultimately show ?thesis using d by (simp add: accepting_os_def)
qed

end
