(* ===== verification/Executor.thy ===== *)
theory Executor
  imports Prelude
begin

text \<open>
  The single-threaded executor of \<open>win-ioring-tests/src/rt.rs\<close>.

  Tasks are in one of four places: spawned and not yet seen, ready, being polled, or waiting for
  a wake. A waker names a task and the registry its wakes go to; the registry of thread-safe
  wakers is behind a lock that other threads take too. A future is what its poll may do: call the
  executor's operations any number of times and then end the poll; \<open>'f\<close> is its state, \<open>'v\<close> its
  output. The channel of the \<open>futures\<close> crate (\<open>'x\<close> its sender) and everything else the futures
  touch (\<open>'w\<close>) are arguments. A panic is \<open>None\<close>.
\<close>

section \<open>Wakers and their registries\<close>

type_synonym task_id = u64

datatype waker_type = SingleThreaded | ThreadSafe

datatype rt_waker = LocalWaker task_id | SafeWaker task_id

text \<open>The two registries have the same fields and the same methods.\<close>

record waker_registry =
  rg_wakers :: "task_id \<rightharpoonup> rt_waker"
  rg_woken :: "task_id list"

definition waker_registry_new :: waker_registry where
  "waker_registry_new = \<lparr>rg_wakers = Map.empty, rg_woken = []\<rparr>"

definition register_waker :: "task_id \<Rightarrow> rt_waker \<Rightarrow> waker_registry \<Rightarrow> waker_registry" where
  "register_waker i w r = r\<lparr>rg_wakers := (rg_wakers r)(i \<mapsto> w)\<rparr>"

definition remove_waker :: "task_id \<Rightarrow> waker_registry \<Rightarrow> waker_registry" where
  "remove_waker i r = r\<lparr>rg_wakers := (rg_wakers r)(i := None)\<rparr>"

definition wake_task :: "task_id \<Rightarrow> waker_registry \<Rightarrow> waker_registry" where
  "wake_task i r = (if rg_wakers r i \<noteq> None then r\<lparr>rg_woken := rg_woken r @ [i]\<rparr> else r)"

definition get_and_clear_woken_tasks :: "waker_registry \<Rightarrow> task_id list \<times> waker_registry" where
  "get_and_clear_woken_tasks r = (rg_woken r, r\<lparr>rg_woken := []\<rparr>)"

section \<open>Tasks, channels and what the futures share\<close>

text \<open>
  The wrappers a spawned future runs in: bare, sending its output into a channel of its join
  handle, into a thread-safe one, or storing it in the cell \<open>block_on\<close> reads.
\<close>

datatype ('f, 'x) body = Bare 'f | Sends nat 'f | SendsSafe 'x 'f | Stores nat 'f

record ('f, 'x) task =
  tk_id :: task_id
  tk_body :: "('f, 'x) body"
  tk_waker_type :: waker_type

datatype 'v channel_state = ChEmpty | ChData 'v | ChClosed

record 'v channel =
  ch_state :: "'v channel_state"
  ch_waker :: "rt_waker option"

record ('f, 'x, 'v, 'w) shared =
  sp_next_task_id :: task_id
  sp_pending_spawns :: "('f, 'x) task list"
  sh_local :: waker_registry
  sh_safe :: waker_registry
  sh_channels :: "'v channel list"
  sh_cells :: "'v option list"
  sh_world :: 'w

text \<open>The operations of the thread-safe channel: making one, and sending, which may wake.\<close>

record ('x, 'v, 'w) executor_env =
  safe_channel :: "'w \<Rightarrow> 'x \<times> 'w"
  safe_send :: "'x \<Rightarrow> 'v \<Rightarrow> 'w \<Rightarrow> rt_waker list \<times> 'w"

definition waker_wake :: "rt_waker \<Rightarrow> ('f, 'x, 'v, 'w) shared \<Rightarrow> ('f, 'x, 'v, 'w) shared" where
  "waker_wake w sh =
     (case w of
        LocalWaker i \<Rightarrow> sh\<lparr>sh_local := wake_task i (sh_local sh)\<rparr>
      | SafeWaker i \<Rightarrow> sh\<lparr>sh_safe := wake_task i (sh_safe sh)\<rparr>)"

fun wake_all :: "rt_waker list \<Rightarrow> ('f, 'x, 'v, 'w) shared \<Rightarrow> ('f, 'x, 'v, 'w) shared" where
  "wake_all [] sh = sh"
| "wake_all (w # ws) sh = wake_all ws (waker_wake w sh)"

text \<open>The task counter is a \<open>u64\<close>; counting past its end panics.\<close>

definition push_task ::
    "('f, 'x) body \<Rightarrow> waker_type \<Rightarrow> ('f, 'x, 'v, 'w) shared \<Rightarrow> (task_id \<times> ('f, 'x, 'v, 'w) shared) option" where
  "push_task bd k sh =
     (let i = sp_next_task_id sh
      in if i = -1 then None
         else Some (i, sh\<lparr>sp_next_task_id := i + 1,
           sp_pending_spawns := sp_pending_spawns sh @ [\<lparr>tk_id = i, tk_body = bd, tk_waker_type = k\<rparr>]\<rparr>))"

definition spawn :: "'f \<Rightarrow> ('f, 'x, 'v, 'w) shared \<Rightarrow> (task_id \<times> ('f, 'x, 'v, 'w) shared) option" where
  "spawn f sh = push_task (Bare f) SingleThreaded sh"

definition channel_new :: "('f, 'x, 'v, 'w) shared \<Rightarrow> nat \<times> ('f, 'x, 'v, 'w) shared" where
  "channel_new sh =
     (length (sh_channels sh), sh\<lparr>sh_channels := sh_channels sh @ [\<lparr>ch_state = ChEmpty, ch_waker = None\<rparr>]\<rparr>)"

definition spawn_with_handle ::
    "'f \<Rightarrow> ('f, 'x, 'v, 'w) shared \<Rightarrow> (task_id \<times> nat \<times> ('f, 'x, 'v, 'w) shared) option" where
  "spawn_with_handle f sh =
     (case channel_new sh of (c, sh1) \<Rightarrow>
        (case push_task (Sends c f) SingleThreaded sh1 of
           None \<Rightarrow> None
         | Some (i, sh2) \<Rightarrow> Some (i, c, sh2)))"

text \<open>The handle of a thread-safe task is its receiver and the waker that reaches the task.\<close>

definition spawn_thread_safe_with_handle ::
    "('x, 'v, 'w) executor_env \<Rightarrow> 'f \<Rightarrow> ('f, 'x, 'v, 'w) shared
      \<Rightarrow> (task_id \<times> 'x \<times> ('f, 'x, 'v, 'w) shared) option" where
  "spawn_thread_safe_with_handle E f sh =
     (case safe_channel E (sh_world sh) of (x, w) \<Rightarrow>
        (case push_task (SendsSafe x f) ThreadSafe (sh\<lparr>sh_world := w\<rparr>) of
           None \<Rightarrow> None
         | Some (i, sh1) \<Rightarrow> Some (i, x, sh1)))"

section \<open>The one-shot channel\<close>

text \<open>\<open>Inl\<close> gives the value back. The wakers woken are returned for the record.\<close>

definition sender_send ::
    "nat \<Rightarrow> 'v \<Rightarrow> ('f, 'x, 'v, 'w) shared \<Rightarrow> ('v + unit) \<times> rt_waker list \<times> ('f, 'x, 'v, 'w) shared" where
  "sender_send c v sh =
     (let ch = sh_channels sh ! c in
      case ch_state ch of
        ChEmpty \<Rightarrow>
          (let sh1 = sh\<lparr>sh_channels := (sh_channels sh)[c := ch\<lparr>ch_state := ChData v\<rparr>]\<rparr> in
           case ch_waker ch of
             Some w \<Rightarrow> (Inr (), [w], waker_wake w sh1)
           | None \<Rightarrow> (Inr (), [], sh1))
      | _ \<Rightarrow> (Inl v, [], sh))"

datatype recv_error = RecvError

text \<open>\<open>None\<close> is pending.\<close>

definition receiver_poll ::
    "nat \<Rightarrow> rt_waker \<Rightarrow> ('f, 'x, 'v, 'w) shared \<Rightarrow> (recv_error + 'v) option \<times> ('f, 'x, 'v, 'w) shared" where
  "receiver_poll c w sh =
     (let ch = sh_channels sh ! c in
      case ch_state ch of
        ChData v \<Rightarrow> (Some (Inr v), sh\<lparr>sh_channels := (sh_channels sh)[c := ch\<lparr>ch_state := ChClosed\<rparr>]\<rparr>)
      | ChClosed \<Rightarrow> (Some (Inl RecvError), sh)
      | ChEmpty \<Rightarrow> (None, sh\<lparr>sh_channels := (sh_channels sh)[c := ch\<lparr>ch_waker := Some w\<rparr>]\<rparr>))"

datatype join_error = TaskAborted

definition join_handle_poll ::
    "nat \<Rightarrow> rt_waker \<Rightarrow> ('f, 'x, 'v, 'w) shared \<Rightarrow> (join_error + 'v) option \<times> ('f, 'x, 'v, 'w) shared" where
  "join_handle_poll c w sh =
     (case receiver_poll c w sh of
        (Some (Inr v), sh') \<Rightarrow> (Some (Inr v), sh')
      | (Some (Inl _), sh') \<Rightarrow> (Some (Inl TaskAborted), sh')
      | (None, sh') \<Rightarrow> (None, sh'))"

text \<open>The thread-safe handle over what its receiver answered.\<close>

definition safe_join_handle_poll :: "('e + 'v) option \<Rightarrow> (join_error + 'v) option" where
  "safe_join_handle_poll r = map_option (map_sum (\<lambda>_. TaskAborted) id) r"

text \<open>\<open>yield_now\<close>: whether it yielded already; the first poll wakes its own task.\<close>

definition yield_now_poll ::
    "rt_waker \<Rightarrow> bool \<Rightarrow> ('f, 'x, 'v, 'w) shared \<Rightarrow> bool \<times> bool \<times> ('f, 'x, 'v, 'w) shared" where
  "yield_now_poll w yielded sh = (if yielded then (True, yielded, sh) else (False, True, waker_wake w sh))"

section \<open>The runtime\<close>

record ('f, 'x, 'v, 'w) rt =
  rt_ready :: "('f, 'x) task list"
  rt_waiting :: "('f, 'x) task list"
  rt_running :: bool
  rt_shared :: "('f, 'x, 'v, 'w) shared"

definition runtime_new :: "'w \<Rightarrow> ('f, 'x, 'v, 'w) rt" where
  "runtime_new w = \<lparr>rt_ready = [], rt_waiting = [], rt_running = False,
     rt_shared = \<lparr>sp_next_task_id = 0, sp_pending_spawns = [], sh_local = waker_registry_new,
       sh_safe = waker_registry_new, sh_channels = [], sh_cells = [], sh_world = w\<rparr>\<rparr>"

definition pending_tasks :: "('f, 'x, 'v, 'w) rt \<Rightarrow> nat" where
  "pending_tasks rt =
     length (rt_ready rt) + length (rt_waiting rt) + length (sp_pending_spawns (rt_shared rt))"

definition is_running :: "('f, 'x, 'v, 'w) rt \<Rightarrow> bool" where
  "is_running rt = rt_running rt"

definition stop :: "('f, 'x, 'v, 'w) rt \<Rightarrow> ('f, 'x, 'v, 'w) rt" where
  "stop rt = rt\<lparr>rt_running := False\<rparr>"

definition process_new_spawns :: "('f, 'x, 'v, 'w) rt \<Rightarrow> ('f, 'x, 'v, 'w) rt" where
  "process_new_spawns rt =
     rt\<lparr>rt_ready := rt_ready rt @ sp_pending_spawns (rt_shared rt),
        rt_shared := (rt_shared rt)\<lparr>sp_pending_spawns := []\<rparr>\<rparr>"

text \<open>The map of waiting tasks is keyed by their ids.\<close>

definition waiting_insert :: "('f, 'x) task \<Rightarrow> ('f, 'x) task list \<Rightarrow> ('f, 'x) task list" where
  "waiting_insert t ws = filter (\<lambda>u. tk_id u \<noteq> tk_id t) ws @ [t]"

fun move_woken :: "task_id list \<Rightarrow> ('f, 'x, 'v, 'w) rt \<Rightarrow> ('f, 'x, 'v, 'w) rt" where
  "move_woken [] rt = rt"
| "move_woken (i # is) rt =
     move_woken is
       (case find (\<lambda>u. tk_id u = i) (rt_waiting rt) of
          Some t \<Rightarrow> rt\<lparr>rt_waiting := filter (\<lambda>u. tk_id u \<noteq> i) (rt_waiting rt), rt_ready := rt_ready rt @ [t]\<rparr>
        | None \<Rightarrow> rt)"

definition process_woken_tasks :: "('f, 'x, 'v, 'w) rt \<Rightarrow> ('f, 'x, 'v, 'w) rt" where
  "process_woken_tasks rt =
     (case get_and_clear_woken_tasks (sh_local (rt_shared rt)) of (is, r) \<Rightarrow>
        move_woken is (rt\<lparr>rt_shared := (rt_shared rt)\<lparr>sh_local := r\<rparr>\<rparr>))"

definition process_thread_safe_woken_tasks :: "('f, 'x, 'v, 'w) rt \<Rightarrow> ('f, 'x, 'v, 'w) rt" where
  "process_thread_safe_woken_tasks rt =
     (case get_and_clear_woken_tasks (sh_safe (rt_shared rt)) of (is, r) \<Rightarrow>
        move_woken is (rt\<lparr>rt_shared := (rt_shared rt)\<lparr>sh_safe := r\<rparr>\<rparr>))"

definition create_task_waker :: "task_id \<Rightarrow> ('f, 'x, 'v, 'w) shared \<Rightarrow> rt_waker \<times> ('f, 'x, 'v, 'w) shared" where
  "create_task_waker i sh = (LocalWaker i, sh\<lparr>sh_local := register_waker i (LocalWaker i) (sh_local sh)\<rparr>)"

definition create_thread_safe_waker :: "task_id \<Rightarrow> ('f, 'x, 'v, 'w) shared \<Rightarrow> rt_waker \<times> ('f, 'x, 'v, 'w) shared" where
  "create_thread_safe_waker i sh = (SafeWaker i, sh\<lparr>sh_safe := register_waker i (SafeWaker i) (sh_safe sh)\<rparr>)"

definition get_thread_safe_waker :: "task_id \<Rightarrow> rt_waker" where
  "get_thread_safe_waker i = SafeWaker i"

end
