(* ===== verification/Executor_Run.thy ===== *)
theory Executor_Run
  imports Executor
begin

text \<open>
  The executor's loop and everything that can happen around it.

  \<open>run_until\<close> is a program with a counter: one value for each place between two accesses to the
  registries. While a task is polled it calls the executor's operations; at every point another
  thread may wake a task through the locked registry. The steps carry events, so a run says
  which wakers were woken, which polls began and which tasks ended.
\<close>

section \<open>The loop\<close>

text \<open>The two conditions the loop is run with: never stop (\<open>run\<close>), or a filled cell (\<open>block_on\<close>).\<close>

datatype stop_condition = Never | CellSet nat

definition should_stop :: "stop_condition \<Rightarrow> ('f, 'x, 'v, 'w) rt \<Rightarrow> bool" where
  "should_stop cond rt =
     (case cond of Never \<Rightarrow> False | CellSet c \<Rightarrow> sh_cells (rt_shared rt) ! c \<noteq> None)"

datatype ('f, 'x) exec_pc =
  AtTop | AtTask | Polling "('f, 'x) task" | AfterDrain | AtSafe | Finished

type_synonym ('f, 'x, 'v, 'w) config = "('f, 'x) exec_pc \<times> ('f, 'x, 'v, 'w) rt"

datatype 'v exec_event = Woke rt_waker | Began task_id | Ended task_id 'v

definition run_start :: "('f, 'x, 'v, 'w) rt \<Rightarrow> ('f, 'x, 'v, 'w) config" where
  "run_start rt = (AtTop, rt\<lparr>rt_running := True\<rparr>)"

definition finish_run :: "('f, 'x, 'v, 'w) rt \<Rightarrow> ('f, 'x, 'v, 'w) config" where
  "finish_run rt = (Finished, rt\<lparr>rt_running := False\<rparr>)"

definition task_waker :: "('f, 'x) task \<Rightarrow> ('f, 'x, 'v, 'w) shared \<Rightarrow> rt_waker \<times> ('f, 'x, 'v, 'w) shared" where
  "task_waker t sh =
     (case tk_waker_type t of
        SingleThreaded \<Rightarrow> create_task_waker (tk_id t) sh
      | ThreadSafe \<Rightarrow> create_thread_safe_waker (tk_id t) sh)"

text \<open>From one place to the next, up to the start of a poll; a poll is left by the steps below.\<close>

fun exec_advance ::
    "stop_condition \<Rightarrow> ('f, 'x, 'v, 'w) config \<Rightarrow> ('v exec_event list \<times> ('f, 'x, 'v, 'w) config) option" where
  "exec_advance cond (AtTop, rt) =
     Some ([],
       if \<not> rt_running rt \<or> should_stop cond rt then finish_run rt
       else let rt1 = process_new_spawns rt
         in if rt_ready rt1 = [] \<and> rt_waiting rt1 = [] then finish_run rt1 else (AtTask, rt1))"
| "exec_advance cond (AtTask, rt) =
     (case rt_ready rt of
        [] \<Rightarrow> Some ([], AfterDrain, rt)
      | t # ts \<Rightarrow>
          Some ([Began (tk_id t)], Polling t,
            rt\<lparr>rt_ready := ts, rt_shared := snd (task_waker t (rt_shared rt))\<rparr>))"
| "exec_advance cond (AfterDrain, rt) =
     Some ([], if should_stop cond rt then finish_run rt else (AtSafe, process_woken_tasks rt))"
| "exec_advance cond (AtSafe, rt) = Some ([], AtTop, process_thread_safe_woken_tasks rt)"
| "exec_advance cond (Polling t, rt) = None"
| "exec_advance cond (Finished, rt) = None"

text \<open>The end of a poll. The wrapper of a finished future delivers its output.\<close>

definition deliver_output ::
    "('x, 'v, 'w) executor_env \<Rightarrow> ('f, 'x) body \<Rightarrow> 'v \<Rightarrow> ('f, 'x, 'v, 'w) shared
      \<Rightarrow> rt_waker list \<times> ('f, 'x, 'v, 'w) shared" where
  "deliver_output E bd v sh =
     (case bd of
        Bare _ \<Rightarrow> ([], sh)
      | Sends c _ \<Rightarrow> snd (sender_send c v sh)
      | SendsSafe x _ \<Rightarrow>
          (case safe_send E x v (sh_world sh) of (ws, w) \<Rightarrow> (ws, wake_all ws (sh\<lparr>sh_world := w\<rparr>)))
      | Stores c _ \<Rightarrow> ([], sh\<lparr>sh_cells := (sh_cells sh)[c := Some v]\<rparr>))"

definition body_with :: "'f \<Rightarrow> ('f, 'x) body \<Rightarrow> ('f, 'x) body" where
  "body_with f bd =
     (case bd of Bare _ \<Rightarrow> Bare f | Sends c _ \<Rightarrow> Sends c f | SendsSafe x _ \<Rightarrow> SendsSafe x f
      | Stores c _ \<Rightarrow> Stores c f)"

definition unregister :: "task_id \<Rightarrow> ('f, 'x, 'v, 'w) shared \<Rightarrow> ('f, 'x, 'v, 'w) shared" where
  "unregister i sh = sh\<lparr>sh_local := remove_waker i (sh_local sh), sh_safe := remove_waker i (sh_safe sh)\<rparr>"

definition after_poll :: "stop_condition \<Rightarrow> ('f, 'x, 'v, 'w) rt \<Rightarrow> ('f, 'x, 'v, 'w) config" where
  "after_poll cond rt =
     (let rt1 = process_new_spawns rt
      in if should_stop cond rt1 then (AfterDrain, rt1) else (AtTask, rt1))"

definition poll_ready ::
    "('x, 'v, 'w) executor_env \<Rightarrow> ('f, 'x) task \<Rightarrow> 'v \<Rightarrow> ('f, 'x, 'v, 'w) rt
      \<Rightarrow> rt_waker list \<times> ('f, 'x, 'v, 'w) rt" where
  "poll_ready E t v rt =
     (case deliver_output E (tk_body t) v (rt_shared rt) of
        (ws, sh) \<Rightarrow> (ws, rt\<lparr>rt_shared := unregister (tk_id t) sh\<rparr>))"

definition poll_pending :: "('f, 'x) task \<Rightarrow> 'f \<Rightarrow> ('f, 'x, 'v, 'w) rt \<Rightarrow> ('f, 'x, 'v, 'w) rt" where
  "poll_pending t f rt =
     rt\<lparr>rt_waiting := waiting_insert (t\<lparr>tk_body := body_with f (tk_body t)\<rparr>) (rt_waiting rt)\<rparr>"

section \<open>\<open>block_on\<close>\<close>

definition block_on_start :: "'f \<Rightarrow> ('f, 'x, 'v, 'w) rt \<Rightarrow> (task_id \<times> nat \<times> ('f, 'x, 'v, 'w) config) option" where
  "block_on_start f rt =
     (let c = length (sh_cells (rt_shared rt));
          sh = (rt_shared rt)\<lparr>sh_cells := sh_cells (rt_shared rt) @ [None]\<rparr>
      in case push_task (Stores c f) SingleThreaded sh of
           None \<Rightarrow> None
         | Some (i, sh1) \<Rightarrow> Some (i, c, run_start (rt\<lparr>rt_shared := sh1\<rparr>)))"

text \<open>\<open>None\<close> is the failed \<open>expect\<close>.\<close>

definition block_on_take :: "nat \<Rightarrow> ('f, 'x, 'v, 'w) rt \<Rightarrow> ('v \<times> ('f, 'x, 'v, 'w) rt) option" where
  "block_on_take c rt =
     (case sh_cells (rt_shared rt) ! c of
        None \<Rightarrow> None
      | Some v \<Rightarrow> Some (v, rt\<lparr>rt_shared := (rt_shared rt)\<lparr>sh_cells := (sh_cells (rt_shared rt))[c := None]\<rparr>\<rparr>))"

section \<open>The steps\<close>

text \<open>What a future may do while it is polled.\<close>

inductive api_step ::
    "('x, 'v, 'w) executor_env \<Rightarrow> ('f, 'x, 'v, 'w) shared \<Rightarrow> rt_waker list \<Rightarrow> ('f, 'x, 'v, 'w) shared \<Rightarrow> bool"
  for E where
  api_wake: "api_step E sh [w] (waker_wake w sh)"
| api_spawn: "spawn f sh = Some (i, sh') \<Longrightarrow> api_step E sh [] sh'"
| api_spawn_handle: "spawn_with_handle f sh = Some (i, c, sh') \<Longrightarrow> api_step E sh [] sh'"
| api_spawn_safe: "spawn_thread_safe_with_handle E f sh = Some (i, x, sh') \<Longrightarrow> api_step E sh [] sh'"
| api_channel: "channel_new sh = (c, sh') \<Longrightarrow> api_step E sh [] sh'"
| api_send: "\<lbrakk>c < length (sh_channels sh); sender_send c v sh = (r, ws, sh')\<rbrakk> \<Longrightarrow> api_step E sh ws sh'"
| api_recv: "\<lbrakk>c < length (sh_channels sh); receiver_poll c w sh = (r, sh')\<rbrakk> \<Longrightarrow> api_step E sh [] sh'"
| api_world: "api_step E sh [] (sh\<lparr>sh_world := w\<rparr>)"

inductive exec_step ::
    "('x, 'v, 'w) executor_env \<Rightarrow> stop_condition \<Rightarrow> ('f, 'x, 'v, 'w) config \<Rightarrow> 'v exec_event list
      \<Rightarrow> ('f, 'x, 'v, 'w) config \<Rightarrow> bool"
  for E cond where
  step_advance: "exec_advance cond c = Some (evs, c') \<Longrightarrow> exec_step E cond c evs c'"
| step_call: "api_step E (rt_shared rt) ws sh \<Longrightarrow>
    exec_step E cond (Polling t, rt) (map Woke ws) (Polling t, rt\<lparr>rt_shared := sh\<rparr>)"
| step_thread: "exec_step E cond (pc, rt) [Woke (SafeWaker i)]
    (pc, rt\<lparr>rt_shared := waker_wake (SafeWaker i) (rt_shared rt)\<rparr>)"
| step_ready: "poll_ready E t v rt = (ws, rt') \<Longrightarrow>
    exec_step E cond (Polling t, rt) (map Woke ws @ [Ended (tk_id t) v]) (after_poll cond rt')"
| step_pending: "exec_step E cond (Polling t, rt) [] (after_poll cond (poll_pending t f rt))"

inductive exec_run ::
    "('x, 'v, 'w) executor_env \<Rightarrow> stop_condition \<Rightarrow> ('f, 'x, 'v, 'w) config \<Rightarrow> 'v exec_event list
      \<Rightarrow> ('f, 'x, 'v, 'w) config \<Rightarrow> bool"
  for E cond where
  run_nil: "exec_run E cond c [] c"
| run_step: "\<lbrakk>exec_run E cond c evs c'; exec_step E cond c' evs' c''\<rbrakk> \<Longrightarrow> exec_run E cond c (evs @ evs') c''"

text \<open>
  The runtimes a client can hold: between two runs it calls the same operations, stops the
  runtime, takes the output of \<open>block_on\<close>, and starts the next run.
\<close>

inductive exec_reach ::
    "('x, 'v, 'w) executor_env \<Rightarrow> stop_condition \<Rightarrow> ('f, 'x, 'v, 'w) config \<Rightarrow> bool"
  for E where
  reach_new: "exec_reach E Never (Finished, runtime_new w)"
| reach_step: "\<lbrakk>exec_reach E cond c; exec_step E cond c evs c'\<rbrakk> \<Longrightarrow> exec_reach E cond c'"
| reach_call: "\<lbrakk>exec_reach E cond (Finished, rt); api_step E (rt_shared rt) ws sh\<rbrakk> \<Longrightarrow>
    exec_reach E cond (Finished, rt\<lparr>rt_shared := sh\<rparr>)"
| reach_stop: "exec_reach E cond (Finished, rt) \<Longrightarrow> exec_reach E cond (Finished, stop rt)"
| reach_run: "exec_reach E cond (Finished, rt) \<Longrightarrow> exec_reach E Never (run_start rt)"
| reach_block_on: "\<lbrakk>exec_reach E cond (Finished, rt); block_on_start f rt = Some (i, c, c')\<rbrakk> \<Longrightarrow>
    exec_reach E (CellSet c) c'"
| reach_take: "\<lbrakk>exec_reach E cond (Finished, rt); block_on_take c rt = Some (v, rt')\<rbrakk> \<Longrightarrow>
    exec_reach E cond (Finished, rt')"

end
