(* ===== verification/Executor_Inv.thy ===== *)
theory Executor_Inv
  imports Executor_Run "HOL-Library.Multiset"
begin

text \<open>
  The executor's invariant: a task is in one place, its id is one the counter has passed, a task
  that waits or is being polled has its waker registered where its wakes go, and no other waker
  is registered. Every step keeps it.
\<close>

section \<open>Places and wakes\<close>

definition polled :: "('f, 'x) exec_pc \<Rightarrow> ('f, 'x) task list" where
  "polled pc = (case pc of Polling t \<Rightarrow> [t] | _ \<Rightarrow> [])"

lemma polled_simps [simp]:
  "polled AtTop = []" "polled AtTask = []" "polled (Polling t) = [t]" "polled AfterDrain = []"
  "polled AtSafe = []" "polled Finished = []"
  by (simp_all add: polled_def)

fun live :: "('f, 'x, 'v, 'w) config \<Rightarrow> ('f, 'x) task list" where
  "live (pc, rt) = sp_pending_spawns (rt_shared rt) @ rt_ready rt @ rt_waiting rt @ polled pc"

definition waker_registered :: "('f, 'x, 'v, 'w) shared \<Rightarrow> ('f, 'x) task \<Rightarrow> bool" where
  "waker_registered sh t =
     (case tk_waker_type t of
        SingleThreaded \<Rightarrow> rg_wakers (sh_local sh) (tk_id t) \<noteq> None
      | ThreadSafe \<Rightarrow> rg_wakers (sh_safe sh) (tk_id t) \<noteq> None)"

definition recorded :: "('f, 'x, 'v, 'w) shared \<Rightarrow> task_id \<Rightarrow> bool" where
  "recorded sh i \<longleftrightarrow> i \<in> set (rg_woken (sh_local sh)) \<or> i \<in> set (rg_woken (sh_safe sh))"

definition reaches :: "rt_waker \<Rightarrow> ('f, 'x) task \<Rightarrow> bool" where
  "reaches w t \<longleftrightarrow>
     w = (case tk_waker_type t of SingleThreaded \<Rightarrow> LocalWaker (tk_id t) | ThreadSafe \<Rightarrow> SafeWaker (tk_id t))"

definition body_ok :: "('f, 'x, 'v, 'w) shared \<Rightarrow> ('f, 'x) body \<Rightarrow> bool" where
  "body_ok sh bd =
     (case bd of Sends c _ \<Rightarrow> c < length (sh_channels sh) | Stores c _ \<Rightarrow> c < length (sh_cells sh) | _ \<Rightarrow> True)"

definition has_waker :: "('f, 'x, 'v, 'w) shared \<Rightarrow> task_id \<Rightarrow> bool" where
  "has_waker sh i \<longleftrightarrow> rg_wakers (sh_local sh) i \<noteq> None \<or> rg_wakers (sh_safe sh) i \<noteq> None"

fun exec_ok :: "('f, 'x, 'v, 'w) config \<Rightarrow> bool" where
  "exec_ok (pc, rt) \<longleftrightarrow>
     distinct (map tk_id (live (pc, rt))) \<and>
     (\<forall>t \<in> set (live (pc, rt)). tk_id t < sp_next_task_id (rt_shared rt) \<and> body_ok (rt_shared rt) (tk_body t)) \<and>
     (\<forall>t \<in> set (rt_waiting rt @ polled pc). waker_registered (rt_shared rt) t) \<and>
     (\<forall>i. has_waker (rt_shared rt) i \<longrightarrow> i \<in> tk_id ` set (rt_ready rt @ rt_waiting rt @ polled pc))"

declare exec_ok.simps [simp del]

lemma exec_okI:
  assumes "distinct (map tk_id (live (pc, rt)))"
    "\<And>t. t \<in> set (live (pc, rt)) \<Longrightarrow> tk_id t < sp_next_task_id (rt_shared rt) \<and> body_ok (rt_shared rt) (tk_body t)"
    "\<And>t. t \<in> set (rt_waiting rt @ polled pc) \<Longrightarrow> waker_registered (rt_shared rt) t"
    "\<And>i. has_waker (rt_shared rt) i \<Longrightarrow> i \<in> tk_id ` set (rt_ready rt @ rt_waiting rt @ polled pc)"
  shows "exec_ok (pc, rt)"
  unfolding exec_ok.simps using assms by blast

lemma exec_okD:
  assumes "exec_ok (pc, rt)"
  shows "distinct (map tk_id (live (pc, rt)))"
    "t \<in> set (live (pc, rt)) \<Longrightarrow> tk_id t < sp_next_task_id (rt_shared rt) \<and> body_ok (rt_shared rt) (tk_body t)"
    "t \<in> set (rt_waiting rt @ polled pc) \<Longrightarrow> waker_registered (rt_shared rt) t"
    "has_waker (rt_shared rt) i \<Longrightarrow> i \<in> tk_id ` set (rt_ready rt @ rt_waiting rt @ polled pc)"
  using assms unfolding exec_ok.simps by blast+

section \<open>What the shared part allows\<close>

text \<open>How the shared part may change while a task is polled, or between two steps of the loop.\<close>

definition spawned :: "('f, 'x, 'v, 'w) shared \<Rightarrow> ('f, 'x) task list \<Rightarrow> ('f, 'x, 'v, 'w) shared \<Rightarrow> bool" where
  "spawned sh new sh' \<longleftrightarrow>
     sp_pending_spawns sh' = sp_pending_spawns sh @ new \<and>
     (new = [] \<and> sp_next_task_id sh' = sp_next_task_id sh \<or>
      (\<exists>t. new = [t] \<and> tk_id t = sp_next_task_id sh \<and> sp_next_task_id sh \<noteq> -1 \<and>
         sp_next_task_id sh' = sp_next_task_id sh + 1 \<and> body_ok sh' (tk_body t)))"

definition grows :: "('f, 'x, 'v, 'w) shared \<Rightarrow> ('f, 'x, 'v, 'w) shared \<Rightarrow> bool" where
  "grows sh sh' \<longleftrightarrow>
     rg_wakers (sh_local sh') = rg_wakers (sh_local sh) \<and> rg_wakers (sh_safe sh') = rg_wakers (sh_safe sh) \<and>
     (\<forall>i. recorded sh i \<longrightarrow> recorded sh' i) \<and>
     length (sh_channels sh) \<le> length (sh_channels sh') \<and> length (sh_cells sh) \<le> length (sh_cells sh')"

lemma growsI:
  assumes "sh_local sh' = sh_local sh" "sh_safe sh' = sh_safe sh"
    "length (sh_channels sh) \<le> length (sh_channels sh')" "length (sh_cells sh) \<le> length (sh_cells sh')"
  shows "grows sh sh'"
  using assms by (simp add: grows_def recorded_def)

lemma grows_trans: "\<lbrakk>grows sh sh'; grows sh' sh''\<rbrakk> \<Longrightarrow> grows sh sh''"
  by (auto simp: grows_def)

lemma waker_wake_frame [simp]:
  "sp_pending_spawns (waker_wake w sh) = sp_pending_spawns sh"
  "sp_next_task_id (waker_wake w sh) = sp_next_task_id sh"
  "sh_channels (waker_wake w sh) = sh_channels sh" "sh_cells (waker_wake w sh) = sh_cells sh"
  by (cases w; simp add: waker_wake_def)+

lemma grows_wake: "grows sh (waker_wake w sh)"
  by (cases w) (auto simp: grows_def waker_wake_def wake_task_def recorded_def)

lemma wake_all_frame:
  "sp_pending_spawns (wake_all ws sh) = sp_pending_spawns sh \<and>
   sp_next_task_id (wake_all ws sh) = sp_next_task_id sh \<and>
   sh_channels (wake_all ws sh) = sh_channels sh \<and> sh_cells (wake_all ws sh) = sh_cells sh \<and>
   grows sh (wake_all ws sh)"
proof (induction ws sh rule: wake_all.induct)
  case (1 sh)
  show ?case by (simp add: growsI)
next
  case (2 w ws sh)
  then show ?case using grows_trans [OF grows_wake [of sh w]] by auto
qed

text \<open>A wake of a registered waker is recorded.\<close>

lemma wake_recorded:
  assumes "waker_registered sh t" "reaches w t"
  shows "recorded (waker_wake w sh) (tk_id t)"
  using assms
  by (cases "tk_waker_type t") (auto simp: waker_registered_def reaches_def recorded_def waker_wake_def wake_task_def)

lemma grows_registered: "grows sh sh' \<Longrightarrow> waker_registered sh' t = waker_registered sh t"
  by (cases "tk_waker_type t") (simp_all add: grows_def waker_registered_def)

lemma wake_all_recorded:
  assumes "waker_registered sh t" "reaches w t" "w \<in> set ws"
  shows "recorded (wake_all ws sh) (tk_id t)"
  using assms
proof (induction ws arbitrary: sh)
  case (Cons x ws)
  show ?case
  proof (cases "x = w")
    case True
    then have "recorded (waker_wake x sh) (tk_id t)" using wake_recorded Cons.prems by blast
    then show ?thesis using wake_all_frame [of ws "waker_wake x sh"] by (simp add: grows_def)
  next
    case False
    then show ?thesis
      using Cons.IH [of "waker_wake x sh"] Cons.prems grows_registered [OF grows_wake [of sh x], of t] by simp
  qed
qed simp

lemma push_task_spawned:
  assumes "push_task bd k sh = Some (i, sh')" "body_ok sh bd"
  shows "\<exists>t. spawned sh [t] sh' \<and> tk_id t = i \<and> tk_body t = bd" "grows sh sh'" "sh_cells sh' = sh_cells sh"
proof -
  let ?t = "\<lparr>tk_id = i, tk_body = bd, tk_waker_type = k\<rparr>"
  have sh': "sh' = sh\<lparr>sp_next_task_id := i + 1, sp_pending_spawns := sp_pending_spawns sh @ [?t]\<rparr>"
    "i = sp_next_task_id sh" "i \<noteq> -1"
    using assms(1) by (auto simp: push_task_def Let_def split: if_splits)
  then have "body_ok sh' bd" using assms(2) by (cases bd) (simp_all add: body_ok_def)
  then have "spawned sh [?t] sh'" using sh' by (simp add: spawned_def)
  then show "\<exists>t. spawned sh [t] sh' \<and> tk_id t = i \<and> tk_body t = bd" by (intro exI [of _ ?t]) simp
  show "grows sh sh'" "sh_cells sh' = sh_cells sh" using sh' by (simp_all add: growsI)
qed

lemma sender_send_frame:
  assumes "sender_send c v sh = (r, ws, sh')"
  shows "spawned sh [] sh'" "grows sh sh'" "sh_cells sh' = sh_cells sh"
    "\<lbrakk>w \<in> set ws; waker_registered sh t; reaches w t\<rbrakk> \<Longrightarrow> recorded sh' (tk_id t)"
proof -
  let ?ch = "sh_channels sh ! c"
  let ?sh1 = "\<lambda>x. sh\<lparr>sh_channels := (sh_channels sh)[c := ?ch\<lparr>ch_state := x\<rparr>]\<rparr>"
  have cases: "sh' = sh \<and> ws = [] \<or> sh' = ?sh1 (ChData v) \<and> ws = [] \<or>
      (\<exists>w. sh' = waker_wake w (?sh1 (ChData v)) \<and> ws = [w])"
    using assms by (auto simp: sender_send_def Let_def split: channel_state.splits option.splits)
  have g: "grows sh (?sh1 x)" for x by (rule growsI) simp_all
  have g': "grows sh (waker_wake w (?sh1 x))" for w x by (rule grows_trans [OF g grows_wake])
  show "spawned sh [] sh'" "sh_cells sh' = sh_cells sh" using cases by (auto simp: spawned_def)
  show "grows sh sh'" using cases g g' by (auto intro: growsI)
  show "\<lbrakk>w \<in> set ws; waker_registered sh t; reaches w t\<rbrakk> \<Longrightarrow> recorded sh' (tk_id t)"
    using cases wake_recorded [of "?sh1 (ChData v)" t w] grows_registered [OF g, of "ChData v" t] by auto
qed

lemma receiver_poll_frame:
  assumes "receiver_poll c w sh = (r, sh')"
  shows "spawned sh [] sh'" "grows sh sh'" "sh_cells sh' = sh_cells sh"
  using assms
  by (auto simp: receiver_poll_def Let_def spawned_def intro!: growsI split: channel_state.splits)

lemma api_step_effect:
  assumes "api_step E sh ws sh'"
  shows "(\<exists>new. spawned sh new sh' \<and> (\<forall>t \<in> set new. \<forall>c f. tk_body t \<noteq> Stores c f)) \<and> grows sh sh' \<and>
    sh_cells sh' = sh_cells sh \<and>
    (\<forall>w t. w \<in> set ws \<longrightarrow> waker_registered sh t \<longrightarrow> reaches w t \<longrightarrow> recorded sh' (tk_id t))"
  using assms
proof cases
  case (api_wake w)
  then show ?thesis using grows_wake [of sh w] wake_recorded [of sh _ w] by (auto simp: spawned_def)
next
  case (api_spawn f i)
  then show ?thesis using push_task_spawned [of "Bare f" SingleThreaded sh i sh']
    by (fastforce simp: spawn_def body_ok_def)
next
  case (api_spawn_handle f i c)
  define sh1 where "sh1 = sh\<lparr>sh_channels := sh_channels sh @ [\<lparr>ch_state = ChEmpty, ch_waker = None\<rparr>]\<rparr>"
  have "push_task (Sends c f) SingleThreaded sh1 = Some (i, sh')" "c = length (sh_channels sh)"
    using api_spawn_handle by (auto simp: spawn_with_handle_def channel_new_def sh1_def split: option.splits)
  moreover from this have "body_ok sh1 (Sends c f)" by (simp add: body_ok_def sh1_def)
  moreover have "grows sh sh1" by (rule growsI) (simp_all add: sh1_def)
  moreover have "spawned sh new sh'" if "spawned sh1 new sh'" for new using that by (simp add: spawned_def sh1_def)
  moreover have "sh_cells sh1 = sh_cells sh" by (simp add: sh1_def)
  ultimately show ?thesis using push_task_spawned [of "Sends c f" SingleThreaded sh1 i sh'] grows_trans
    using api_spawn_handle(1) by fastforce
next
  case (api_spawn_safe f i x)
  obtain w where "push_task (SendsSafe x f) ThreadSafe (sh\<lparr>sh_world := w\<rparr>) = Some (i, sh')"
    using api_spawn_safe by (auto simp: spawn_thread_safe_with_handle_def split: option.splits prod.splits)
  moreover have "body_ok (sh\<lparr>sh_world := w\<rparr>) (SendsSafe x f)" by (simp add: body_ok_def)
  moreover have "grows sh (sh\<lparr>sh_world := w\<rparr>)" by (rule growsI) simp_all
  moreover have "spawned sh new sh'" if "spawned (sh\<lparr>sh_world := w\<rparr>) new sh'" for new using that by (simp add: spawned_def)
  ultimately show ?thesis using push_task_spawned [of "SendsSafe x f" ThreadSafe "sh\<lparr>sh_world := w\<rparr>" i sh'] grows_trans
    using api_spawn_safe(1) by fastforce
next
  case (api_channel c)
  then show ?thesis by (auto simp: channel_new_def spawned_def intro!: growsI)
next
  case (api_send c v r)
  then show ?thesis using sender_send_frame [OF api_send(2)] by fastforce
next
  case (api_recv c w r)
  then show ?thesis using receiver_poll_frame [OF api_recv(3)] by fastforce
next
  case (api_world w)
  then show ?thesis by (auto simp: spawned_def intro!: growsI)
qed

section \<open>Moving tasks\<close>

lemma distinct_ids_split:
  assumes "distinct (map tk_id ts)" "t \<in> set ts"
  shows "mset ts = mset (filter (\<lambda>u. tk_id u \<noteq> tk_id t) ts) + {#t#}"
  using assms
proof (induction ts)
  case (Cons u ts)
  show ?case
  proof (cases "u = t")
    case True
    then have "\<forall>x \<in> set ts. tk_id x \<noteq> tk_id t" using Cons.prems(1) by (auto simp: image_iff)
    then show ?thesis using True by (simp cong: filter_cong)
  next
    case False
    then have "t \<in> set ts" "tk_id u \<noteq> tk_id t" using Cons.prems by (auto simp: rev_image_eqI)
    then show ?thesis using Cons by simp
  qed
qed simp

lemma move_woken_effect:
  assumes "distinct (map tk_id (rt_waiting rt))"
  shows "rt_shared (move_woken is rt) = rt_shared rt \<and> rt_running (move_woken is rt) = rt_running rt \<and>
    rt_waiting (move_woken is rt) = filter (\<lambda>u. tk_id u \<notin> set is) (rt_waiting rt) \<and>
    (\<exists>moved. rt_ready (move_woken is rt) = rt_ready rt @ moved \<and>
       mset (rt_waiting rt) = mset (filter (\<lambda>u. tk_id u \<notin> set is) (rt_waiting rt)) + mset moved)"
  using assms
proof (induction "is" rt rule: move_woken.induct)
  case (1 rt)
  show ?case by simp
next
  case (2 i "is" rt)
  show ?case
  proof (cases "find (\<lambda>u. tk_id u = i) (rt_waiting rt)")
    case None
    then have n: "\<forall>u \<in> set (rt_waiting rt). tk_id u \<noteq> i" by (auto simp: find_None_iff)
    then have "filter (\<lambda>u. tk_id u \<notin> set (i # is)) (rt_waiting rt) = filter (\<lambda>u. tk_id u \<notin> set is) (rt_waiting rt)"
      by (intro filter_cong) auto
    then show ?thesis using 2 None by simp
  next
    case (Some t)
    then have t: "t \<in> set (rt_waiting rt)" "tk_id t = i" by (auto simp: find_Some_iff)
    define rt1 where "rt1 = rt\<lparr>rt_waiting := filter (\<lambda>u. tk_id u \<noteq> i) (rt_waiting rt), rt_ready := rt_ready rt @ [t]\<rparr>"
    have d: "distinct (map tk_id (rt_waiting rt1))"
      using "2.prems" by (simp add: rt1_def distinct_map_filter)
    have f: "filter (\<lambda>u. tk_id u \<notin> set is) (rt_waiting rt1) = filter (\<lambda>u. tk_id u \<notin> set (i # is)) (rt_waiting rt)"
      by (simp add: rt1_def conj_commute cong: filter_cong)
    have m: "move_woken (i # is) rt = move_woken is rt1" by (simp add: Some rt1_def)
    have "mset (rt_waiting rt) = mset (rt_waiting rt1) + {#t#}"
      using distinct_ids_split [OF "2.prems" t(1)] t(2) by (simp add: rt1_def)
    moreover obtain moved where "rt_ready (move_woken is rt1) = rt_ready rt1 @ moved"
      "mset (rt_waiting rt1) = mset (filter (\<lambda>u. tk_id u \<notin> set is) (rt_waiting rt1)) + mset moved"
      "rt_shared (move_woken is rt1) = rt_shared rt1" "rt_running (move_woken is rt1) = rt_running rt1"
      "rt_waiting (move_woken is rt1) = filter (\<lambda>u. tk_id u \<notin> set is) (rt_waiting rt1)"
      using "2.IH" d Some by (auto simp: rt1_def)
    ultimately show ?thesis unfolding m f by (auto simp: rt1_def intro!: exI [of _ "t # moved"])
  qed
qed

text \<open>The invariant looks at the live tasks as a collection, and at who waits.\<close>

lemma exec_ok_mset:
  fixes rt rt' :: "('f, 'x, 'v, 'w) rt"
  assumes "exec_ok (pc, rt)" "mset (live (pc', rt')) = mset (live (pc, rt))"
    "sp_next_task_id (rt_shared rt') = sp_next_task_id (rt_shared rt)"
    "length (sh_channels (rt_shared rt')) = length (sh_channels (rt_shared rt))"
    "length (sh_cells (rt_shared rt')) = length (sh_cells (rt_shared rt))"
    "rg_wakers (sh_local (rt_shared rt')) = rg_wakers (sh_local (rt_shared rt))"
    "rg_wakers (sh_safe (rt_shared rt')) = rg_wakers (sh_safe (rt_shared rt))"
    "set (rt_waiting rt' @ polled pc') \<subseteq> set (rt_waiting rt @ polled pc)"
    "set (rt_ready rt @ rt_waiting rt @ polled pc) \<subseteq> set (rt_ready rt' @ rt_waiting rt' @ polled pc')"
  shows "exec_ok (pc', rt')"
proof -
  have "mset (map tk_id (live (pc', rt'))) = mset (map tk_id (live (pc, rt)))"
    using assms(2) by (simp only: mset_map)
  then have d: "distinct (map tk_id (live (pc', rt')))"
    using exec_okD(1) [OF assms(1)] by (metis mset_eq_imp_distinct_iff)
  have l: "set (live (pc', rt')) = set (live (pc, rt))" using assms(2) by (rule mset_eq_setD)
  have b: "body_ok (rt_shared rt') bd = body_ok (rt_shared rt) bd" for bd
    by (cases bd) (simp_all add: body_ok_def assms(4,5))
  have r: "waker_registered (rt_shared rt') t = waker_registered (rt_shared rt) t" for t
    by (cases "tk_waker_type t") (simp_all add: waker_registered_def assms(6,7))
  have h: "has_waker (rt_shared rt') i = has_waker (rt_shared rt) i" for i
    by (simp add: has_waker_def assms(6,7))
  show ?thesis
  proof (rule exec_okI [OF d])
    fix t assume "t \<in> set (live (pc', rt'))"
    then show "tk_id t < sp_next_task_id (rt_shared rt') \<and> body_ok (rt_shared rt') (tk_body t)"
      using exec_okD(2) [OF assms(1)] unfolding l assms(3) b by blast
  next
    fix t assume "t \<in> set (rt_waiting rt' @ polled pc')"
    then show "waker_registered (rt_shared rt') t" using exec_okD(3) [OF assms(1)] assms(8) unfolding r by blast
  next
    fix i assume "has_waker (rt_shared rt') i"
    then show "i \<in> tk_id ` set (rt_ready rt' @ rt_waiting rt' @ polled pc')"
      using exec_okD(4) [OF assms(1)] assms(9) unfolding h by blast
  qed
qed

lemma exec_ok_waiting: "exec_ok (pc, rt) \<Longrightarrow> distinct (map tk_id (rt_waiting rt))"
  using exec_okD(1) by fastforce

lemma process_new_spawns_ok: "exec_ok (pc, rt) \<Longrightarrow> exec_ok (pc, process_new_spawns rt)"
  by (erule exec_ok_mset) (simp_all add: process_new_spawns_def ac_simps subset_iff)

lemma running_ok: "exec_ok (pc, rt\<lparr>rt_running := b\<rparr>) = exec_ok (pc, rt)"
  by (simp add: exec_ok.simps)

lemma same_polled_ok: "polled pc' = polled pc \<Longrightarrow> exec_ok (pc', rt) = exec_ok (pc, rt)"
  by (simp add: exec_ok.simps)

lemma move_woken_ok:
  assumes "exec_ok (pc, rt)"
  shows "exec_ok (pc, move_woken is rt)"
proof -
  let ?rt = "move_woken is rt"
  obtain moved where m: "rt_shared ?rt = rt_shared rt"
    "rt_waiting ?rt = filter (\<lambda>u. tk_id u \<notin> set is) (rt_waiting rt)" "rt_ready ?rt = rt_ready rt @ moved"
    and split: "mset (rt_waiting rt) = mset (rt_waiting ?rt) + mset moved"
    using move_woken_effect [OF exec_ok_waiting [OF assms], of "is"] by metis
  have sub: "set (rt_waiting rt) \<subseteq> set (rt_waiting ?rt) \<union> set moved"
    using split by (metis equalityD1 mset_append mset_eq_setD set_append)
  show ?thesis
  proof (rule exec_ok_mset [OF assms])
    show "mset (live (pc, ?rt)) = mset (live (pc, rt))"
      unfolding live.simps mset_append m(1) m(3) split by (simp only: ac_simps)
    show "set (rt_ready rt @ rt_waiting rt @ polled pc) \<subseteq> set (rt_ready ?rt @ rt_waiting ?rt @ polled pc)"
      using sub unfolding m(3) set_append by blast
    show "set (rt_waiting ?rt @ polled pc) \<subseteq> set (rt_waiting rt @ polled pc)"
      unfolding m(2) by auto
  qed (simp_all only: m(1))
qed

lemma woken_cleared_ok:
  assumes "exec_ok (pc, rt)"
  shows "exec_ok (pc, rt\<lparr>rt_shared := (rt_shared rt)\<lparr>sh_local := (sh_local (rt_shared rt))\<lparr>rg_woken := is\<rparr>\<rparr>\<rparr>)"
    "exec_ok (pc, rt\<lparr>rt_shared := (rt_shared rt)\<lparr>sh_safe := (sh_safe (rt_shared rt))\<lparr>rg_woken := is\<rparr>\<rparr>\<rparr>)"
  by (rule exec_ok_mset [OF assms]; simp)+

lemma process_woken_ok:
  assumes "exec_ok (pc, rt)"
  shows "exec_ok (pc, process_woken_tasks rt)" "exec_ok (pc, process_thread_safe_woken_tasks rt)"
  using move_woken_ok [OF woken_cleared_ok(1) [OF assms]] move_woken_ok [OF woken_cleared_ok(2) [OF assms]]
  by (simp_all add: process_woken_tasks_def process_thread_safe_woken_tasks_def get_and_clear_woken_tasks_def)

text \<open>A poll begins: the task leaves the queue, and its waker is registered.\<close>

lemma begin_ok:
  assumes "exec_ok (AtTask, rt)" "rt_ready rt = t # ts"
  shows "exec_ok (Polling t, rt\<lparr>rt_ready := ts, rt_shared := snd (task_waker t (rt_shared rt))\<rparr>)"
proof -
  let ?sh = "rt_shared rt" and ?sh' = "snd (task_waker t (rt_shared rt))"
  have f: "sp_pending_spawns ?sh' = sp_pending_spawns ?sh" "sp_next_task_id ?sh' = sp_next_task_id ?sh"
    "sh_channels ?sh' = sh_channels ?sh" "sh_cells ?sh' = sh_cells ?sh"
    by (cases "tk_waker_type t"; simp add: task_waker_def create_task_waker_def create_thread_safe_waker_def)+
  have b: "body_ok ?sh' bd = body_ok ?sh bd" for bd by (cases bd) (simp_all add: body_ok_def f)
  have r: "waker_registered ?sh' u \<longleftrightarrow> waker_registered ?sh u \<or> tk_id u = tk_id t \<and> tk_waker_type u = tk_waker_type t" for u
    by (cases "tk_waker_type t"; cases "tk_waker_type u")
      (auto simp: waker_registered_def task_waker_def create_task_waker_def create_thread_safe_waker_def register_waker_def)
  have d: "has_waker ?sh' i \<longleftrightarrow> i = tk_id t \<or> has_waker ?sh i" for i
    by (cases "tk_waker_type t")
      (auto simp: has_waker_def task_waker_def create_task_waker_def create_thread_safe_waker_def register_waker_def)
  note ok = exec_okD [OF assms(1)]
  show ?thesis
  proof (rule exec_okI)
    show "distinct (map tk_id (live (Polling t, rt\<lparr>rt_ready := ts, rt_shared := ?sh'\<rparr>)))"
      using ok(1) assms(2) by (auto simp: f)
  next
    fix u assume "u \<in> set (live (Polling t, rt\<lparr>rt_ready := ts, rt_shared := ?sh'\<rparr>))"
    then show "tk_id u < sp_next_task_id (rt_shared (rt\<lparr>rt_ready := ts, rt_shared := ?sh'\<rparr>)) \<and>
        body_ok (rt_shared (rt\<lparr>rt_ready := ts, rt_shared := ?sh'\<rparr>)) (tk_body u)"
      using ok(2) [of u] assms(2) by (auto simp: f b)
  next
    fix u assume "u \<in> set (rt_waiting (rt\<lparr>rt_ready := ts, rt_shared := ?sh'\<rparr>) @ polled (Polling t))"
    then show "waker_registered (rt_shared (rt\<lparr>rt_ready := ts, rt_shared := ?sh'\<rparr>)) u"
      using ok(3) [of u] by (auto simp: r)
  next
    fix i assume "has_waker (rt_shared (rt\<lparr>rt_ready := ts, rt_shared := ?sh'\<rparr>)) i"
    then show "i \<in> tk_id ` set (rt_ready (rt\<lparr>rt_ready := ts, rt_shared := ?sh'\<rparr>) @
        rt_waiting (rt\<lparr>rt_ready := ts, rt_shared := ?sh'\<rparr>) @ polled (Polling t))"
      using ok(4) [of i] assms(2) by (auto simp: d)
  qed
qed

section \<open>The other steps\<close>

lemma body_ok_grows: "\<lbrakk>grows sh sh'; body_ok sh bd\<rbrakk> \<Longrightarrow> body_ok sh' bd"
  by (cases bd) (auto simp: grows_def body_ok_def)

lemma has_waker_grows: "grows sh sh' \<Longrightarrow> has_waker sh' i = has_waker sh i"
  by (simp add: grows_def has_waker_def)

lemma grow_ok:
  assumes "exec_ok (pc, rt)" "spawned (rt_shared rt) new sh'" "grows (rt_shared rt) sh'"
  shows "exec_ok (pc, rt\<lparr>rt_shared := sh'\<rparr>)"
proof -
  note ok = exec_okD [OF assms(1)] and s = assms(2) [unfolded spawned_def]
  let ?n = "sp_next_task_id (rt_shared rt)" and ?rt = "rt\<lparr>rt_shared := sh'\<rparr>"
  have step: "i < ?n + 1" if "i < ?n" "?n \<noteq> -1" for i
    using that unat_succ [of ?n] by (simp add: word_less_nat_alt)
  have live: "mset (live (pc, ?rt)) = mset (live (pc, rt)) + mset new"
    using s by (simp add: ac_simps)
  then have set_live: "set (live (pc, ?rt)) = set (live (pc, rt)) \<union> set new"
    by (metis mset_append mset_eq_setD set_append)
  have fresh: "distinct (map tk_id (live (pc, rt) @ new))"
  proof -
    have "sp_next_task_id (rt_shared rt) \<notin> tk_id ` set (live (pc, rt))"
      using ok(2) by (metis imageE order.irrefl)
    then have "\<forall>x \<in> set (live (pc, rt)). tk_id x \<noteq> sp_next_task_id (rt_shared rt)" by (metis image_eqI)
    then show ?thesis using ok(1) s by (auto simp del: live.simps)
  qed
  show ?thesis
  proof (rule exec_okI)
    have "mset (map tk_id (live (pc, ?rt))) = mset (map tk_id (live (pc, rt) @ new))"
      by (simp only: mset_map mset_append live)
    then show "distinct (map tk_id (live (pc, ?rt)))" using fresh by (metis mset_eq_imp_distinct_iff)
  next
    fix t assume "t \<in> set (live (pc, ?rt))"
    then consider "t \<in> set (live (pc, rt))" | "t \<in> set new" unfolding set_live by blast
    then show "tk_id t < sp_next_task_id (rt_shared ?rt) \<and> body_ok (rt_shared ?rt) (tk_body t)"
    proof cases
      case 1
      then show ?thesis using ok(2) [OF 1] s step [of "tk_id t"] body_ok_grows [OF assms(3)] by auto
    next
      case 2
      then show ?thesis using s unat_succ [of ?n] by (auto simp: word_less_nat_alt)
    qed
  next
    fix t assume "t \<in> set (rt_waiting ?rt @ polled pc)"
    then show "waker_registered (rt_shared ?rt) t" using ok(3) [of t] grows_registered [OF assms(3), of t] by simp
  next
    fix i assume "has_waker (rt_shared ?rt) i"
    then show "i \<in> tk_id ` set (rt_ready ?rt @ rt_waiting ?rt @ polled pc)"
      using ok(4) [of i] has_waker_grows [OF assms(3), of i] by simp
  qed
qed

lemma deliver_effect:
  assumes "deliver_output E bd v sh = (ws, sh')"
  shows "spawned sh [] sh'" "grows sh sh'"
    "sh_cells sh' = (case bd of Stores c _ \<Rightarrow> (sh_cells sh)[c := Some v] | _ \<Rightarrow> sh_cells sh)"
    "\<lbrakk>w \<in> set ws; waker_registered sh t; reaches w t\<rbrakk> \<Longrightarrow> recorded sh' (tk_id t)"
proof -
  have "spawned sh [] sh' \<and> grows sh sh' \<and>
    sh_cells sh' = (case bd of Stores c _ \<Rightarrow> (sh_cells sh)[c := Some v] | _ \<Rightarrow> sh_cells sh) \<and>
    (w \<in> set ws \<longrightarrow> waker_registered sh t \<longrightarrow> reaches w t \<longrightarrow> recorded sh' (tk_id t))"
  proof (cases bd)
    case (Sends c f)
    obtain r where "sender_send c v sh = (r, ws, sh')"
      using assms Sends by (cases "sender_send c v sh") (auto simp: deliver_output_def)
    from sender_send_frame [OF this] show ?thesis using Sends by auto
  next
    case (SendsSafe x f)
    obtain w' where sh': "sh' = wake_all ws (sh\<lparr>sh_world := w'\<rparr>)"
      using assms SendsSafe by (auto simp: deliver_output_def split: prod.splits)
    have g: "grows sh (sh\<lparr>sh_world := w'\<rparr>)" by (rule growsI) simp_all
    then have "waker_registered (sh\<lparr>sh_world := w'\<rparr>) t = waker_registered sh t" by (rule grows_registered)
    then show ?thesis
      using wake_all_frame [of ws "sh\<lparr>sh_world := w'\<rparr>"] wake_all_recorded [of "sh\<lparr>sh_world := w'\<rparr>" t w ws]
        grows_trans [OF g] SendsSafe
      by (auto simp: sh' spawned_def)
  qed (use assms in \<open>auto simp: deliver_output_def spawned_def intro!: growsI\<close>)
  then show "spawned sh [] sh'" "grows sh sh'"
    "sh_cells sh' = (case bd of Stores c _ \<Rightarrow> (sh_cells sh)[c := Some v] | _ \<Rightarrow> sh_cells sh)"
    "\<lbrakk>w \<in> set ws; waker_registered sh t; reaches w t\<rbrakk> \<Longrightarrow> recorded sh' (tk_id t)" by blast+
qed

lemma unregister_simps [simp]:
  "sp_pending_spawns (unregister i sh) = sp_pending_spawns sh"
  "sp_next_task_id (unregister i sh) = sp_next_task_id sh"
  "sh_cells (unregister i sh) = sh_cells sh"
  "body_ok (unregister i sh) bd = body_ok sh bd"
  "recorded (unregister i sh) j = recorded sh j"
  "has_waker (unregister i sh) j \<longleftrightarrow> j \<noteq> i \<and> has_waker sh j"
  by (auto simp: unregister_def body_ok_def recorded_def remove_waker_def has_waker_def split: body.splits)

lemma registered_unregister: "tk_id t \<noteq> i \<Longrightarrow> waker_registered (unregister i sh) t = waker_registered sh t"
  by (cases "tk_waker_type t") (simp_all add: waker_registered_def unregister_def remove_waker_def)

lemma poll_ready_ok:
  assumes "exec_ok (Polling t, rt)" "poll_ready E t v rt = (ws, rt')"
  shows "exec_ok (AtTask, rt')"
proof -
  obtain sh where d: "deliver_output E (tk_body t) v (rt_shared rt) = (ws, sh)" "rt' = rt\<lparr>rt_shared := unregister (tk_id t) sh\<rparr>"
    using assms(2) by (auto simp: poll_ready_def split: prod.splits)
  note ok = exec_okD [OF grow_ok [OF assms(1) deliver_effect(1,2) [OF d(1)]]]
  have other: "tk_id u \<noteq> tk_id t" if "u \<in> set (rt_waiting rt)" for u
    using ok(1) that by (auto simp: image_iff)
  show ?thesis unfolding d(2)
  proof (rule exec_okI)
    show "distinct (map tk_id (live (AtTask, rt\<lparr>rt_shared := unregister (tk_id t) sh\<rparr>)))"
      using ok(1) by auto
  next
    fix u assume "u \<in> set (live (AtTask, rt\<lparr>rt_shared := unregister (tk_id t) sh\<rparr>))"
    then show "tk_id u < sp_next_task_id (rt_shared (rt\<lparr>rt_shared := unregister (tk_id t) sh\<rparr>)) \<and>
        body_ok (rt_shared (rt\<lparr>rt_shared := unregister (tk_id t) sh\<rparr>)) (tk_body u)"
      using ok(2) [of u] by auto
  next
    fix u assume "u \<in> set (rt_waiting (rt\<lparr>rt_shared := unregister (tk_id t) sh\<rparr>) @ polled AtTask)"
    then show "waker_registered (rt_shared (rt\<lparr>rt_shared := unregister (tk_id t) sh\<rparr>)) u"
      using ok(3) [of u] other registered_unregister [of u] by auto
  next
    fix i assume "has_waker (rt_shared (rt\<lparr>rt_shared := unregister (tk_id t) sh\<rparr>)) i"
    then show "i \<in> tk_id ` set (rt_ready (rt\<lparr>rt_shared := unregister (tk_id t) sh\<rparr>) @
        rt_waiting (rt\<lparr>rt_shared := unregister (tk_id t) sh\<rparr>) @ polled AtTask)"
      using ok(4) [of i] by auto
  qed
qed

lemma waiting_insert_fresh:
  assumes "exec_ok (Polling t, rt)" "tk_id u = tk_id t"
  shows "waiting_insert u (rt_waiting rt) = rt_waiting rt @ [u]"
proof -
  have "tk_id x \<noteq> tk_id t" if "x \<in> set (rt_waiting rt)" for x
    using exec_okD(1) [OF assms(1)] that by (auto simp: image_iff)
  then show ?thesis by (simp add: waiting_insert_def assms(2) filter_id_conv)
qed

lemma poll_pending_ok:
  assumes "exec_ok (Polling t, rt)"
  shows "exec_ok (AtTask, poll_pending t f rt)"
proof -
  note ok = exec_okD [OF assms(1)]
  let ?t = "t\<lparr>tk_body := body_with f (tk_body t)\<rparr>"
  have b: "body_ok (rt_shared rt) (body_with f bd) = body_ok (rt_shared rt) bd" for bd
    by (cases bd) (simp_all add: body_ok_def body_with_def)
  have r: "waker_registered (rt_shared rt) ?t = waker_registered (rt_shared rt) t"
    by (cases "tk_waker_type t") (simp_all add: waker_registered_def)
  have p: "poll_pending t f rt = rt\<lparr>rt_waiting := rt_waiting rt @ [?t]\<rparr>"
    using waiting_insert_fresh [OF assms, of ?t] by (simp add: poll_pending_def)
  show ?thesis unfolding p
  proof (rule exec_okI)
    show "distinct (map tk_id (live (AtTask, rt\<lparr>rt_waiting := rt_waiting rt @ [?t]\<rparr>)))"
      using ok(1) by simp
  next
    fix u assume "u \<in> set (live (AtTask, rt\<lparr>rt_waiting := rt_waiting rt @ [?t]\<rparr>))"
    then show "tk_id u < sp_next_task_id (rt_shared (rt\<lparr>rt_waiting := rt_waiting rt @ [?t]\<rparr>)) \<and>
        body_ok (rt_shared (rt\<lparr>rt_waiting := rt_waiting rt @ [?t]\<rparr>)) (tk_body u)"
      using ok(2) [of u] ok(2) [of t] by (auto simp: b)
  next
    fix u assume "u \<in> set (rt_waiting (rt\<lparr>rt_waiting := rt_waiting rt @ [?t]\<rparr>) @ polled AtTask)"
    then show "waker_registered (rt_shared (rt\<lparr>rt_waiting := rt_waiting rt @ [?t]\<rparr>)) u"
      using ok(3) [of u] ok(3) [of t] r by auto
  next
    fix i assume "has_waker (rt_shared (rt\<lparr>rt_waiting := rt_waiting rt @ [?t]\<rparr>)) i"
    then show "i \<in> tk_id ` set (rt_ready (rt\<lparr>rt_waiting := rt_waiting rt @ [?t]\<rparr>) @
        rt_waiting (rt\<lparr>rt_waiting := rt_waiting rt @ [?t]\<rparr>) @ polled AtTask)"
      using ok(4) [of i] by auto
  qed
qed

lemma after_poll_ok: "exec_ok (AtTask, rt) \<Longrightarrow> exec_ok (after_poll cond rt)"
  using process_new_spawns_ok [of AtTask rt] same_polled_ok [of AfterDrain AtTask "process_new_spawns rt"]
  by (simp add: after_poll_def Let_def)

lemma finish_ok: "\<lbrakk>exec_ok (pc, rt); polled pc = []\<rbrakk> \<Longrightarrow> exec_ok (finish_run rt)"
  by (simp add: finish_run_def running_ok same_polled_ok [of Finished pc])

lemma exec_advance_ok:
  assumes "exec_ok c" "exec_advance cond c = Some (evs, c')"
  shows "exec_ok c'"
proof -
  obtain pc rt where c: "c = (pc, rt)" by (cases c)
  note ok = assms(1) [unfolded c]
  show ?thesis
  proof (cases pc)
    case AtTop
    then show ?thesis using assms(2) process_new_spawns_ok [OF ok] finish_ok [of AtTop] ok
        same_polled_ok [of AtTask AtTop "process_new_spawns rt"] by (auto simp: c Let_def split: if_splits)
  next
    case AtTask
    then show ?thesis using assms(2) begin_ok [of rt] same_polled_ok [of AfterDrain AtTask rt] ok
      by (auto simp: c split: list.splits)
  next
    case AfterDrain
    then show ?thesis using assms(2) process_woken_ok(1) [OF ok] finish_ok [OF ok]
        same_polled_ok [of AtSafe AfterDrain "process_woken_tasks rt"] by (auto simp: c split: if_splits)
  next
    case AtSafe
    then show ?thesis using assms(2) process_woken_ok(2) [OF ok]
        same_polled_ok [of AtTop AtSafe "process_thread_safe_woken_tasks rt"] by (auto simp: c)
  qed (use assms(2) in \<open>auto simp: c\<close>)
qed

lemma exec_step_ok:
  assumes "exec_step E cond c evs c'" "exec_ok c"
  shows "exec_ok c'"
  using assms
proof cases
  case (step_call rt ws sh t)
  then show ?thesis using api_step_effect [OF step_call(4)] grow_ok assms(2) by blast
next
  case (step_thread pc rt i)
  then show ?thesis using grow_ok [OF _ _ grows_wake, of pc rt "[]"] assms(2) by (simp add: spawned_def)
qed (use assms(2) in \<open>auto intro: exec_advance_ok after_poll_ok poll_ready_ok poll_pending_ok\<close>)

lemma runtime_new_ok: "exec_ok (Finished, runtime_new w)"
  by (simp add: exec_ok.simps runtime_new_def waker_registry_new_def has_waker_def)

lemma block_on_start_effect:
  assumes "block_on_start f rt = Some (i, c, c')"
  shows "\<exists>sh t. c' = run_start (rt\<lparr>rt_shared := sh\<rparr>) \<and> spawned (rt_shared rt) [t] sh \<and> grows (rt_shared rt) sh \<and>
    tk_id t = i \<and> tk_body t = Stores c f \<and> c = length (sh_cells (rt_shared rt)) \<and>
    sh_cells sh = sh_cells (rt_shared rt) @ [None]"
proof -
  define sh1 where "sh1 = (rt_shared rt)\<lparr>sh_cells := sh_cells (rt_shared rt) @ [None]\<rparr>"
  obtain sh where sh: "push_task (Stores c f) SingleThreaded sh1 = Some (i, sh)" "c' = run_start (rt\<lparr>rt_shared := sh\<rparr>)"
    "c = length (sh_cells (rt_shared rt))"
    using assms by (auto simp: block_on_start_def Let_def sh1_def split: option.splits)
  have "body_ok sh1 (Stores c f)" using sh(3) by (simp add: body_ok_def sh1_def)
  note p = push_task_spawned [OF sh(1) this]
  have "grows (rt_shared rt) sh1" by (rule growsI) (simp_all add: sh1_def)
  then have "grows (rt_shared rt) sh" by (rule grows_trans [OF _ p(2)])
  moreover obtain t where "spawned sh1 [t] sh" "tk_id t = i" "tk_body t = Stores c f" using p(1) by blast
  moreover from this have "spawned (rt_shared rt) [t] sh" by (simp add: spawned_def sh1_def)
  ultimately show ?thesis using sh p(3) by (intro exI [of _ sh] exI [of _ t]) (simp add: sh1_def)
qed

lemma run_start_ok: "exec_ok (Finished, rt) \<Longrightarrow> exec_ok (run_start rt)"
  by (simp add: run_start_def running_ok same_polled_ok [of AtTop Finished])

theorem exec_reach_ok:
  assumes "exec_reach E cond c"
  shows "exec_ok c"
  using assms
proof (induction rule: exec_reach.induct)
  case (reach_new w)
  show ?case by (rule runtime_new_ok)
next
  case (reach_step cond c evs c')
  then show ?case using exec_step_ok by blast
next
  case (reach_call cond rt ws sh)
  then show ?case using api_step_effect [OF reach_call(2)] grow_ok by blast
next
  case (reach_stop cond rt)
  then show ?case by (simp add: stop_def running_ok)
next
  case (reach_run cond rt)
  then show ?case using run_start_ok by blast
next
  case (reach_block_on cond rt f i c c')
  then show ?case using block_on_start_effect [OF reach_block_on(2)] grow_ok run_start_ok by blast
next
  case (reach_take cond rt c v rt')
  obtain sh where "rt' = rt\<lparr>rt_shared := sh\<rparr>" "sh = (rt_shared rt)\<lparr>sh_cells := (sh_cells (rt_shared rt))[c := None]\<rparr>"
    using reach_take(2) by (auto simp: block_on_take_def split: option.splits)
  moreover from this have "spawned (rt_shared rt) [] sh" "grows (rt_shared rt) sh"
    by (auto simp: spawned_def intro!: growsI)
  ultimately show ?case using grow_ok [OF reach_take(3)] by blast
qed

lemma exec_run_ok: "\<lbrakk>exec_run E cond c evs c'; exec_ok c\<rbrakk> \<Longrightarrow> exec_ok c'"
  by (induction rule: exec_run.induct) (auto intro: exec_step_ok)

end
