(* ===== verification/Executor_Props.thy ===== *)
theory Executor_Props
  imports Executor_Inv
begin

text \<open>
  What the executor promises: no wake of a task is lost, \<open>run\<close> returns only when nothing is
  left, \<open>block_on\<close> has its output, and a one-shot channel delivers once.
\<close>

section \<open>No wake is lost\<close>

text \<open>From the wake on, until its next poll begins or it ends, the task is due.\<close>

definition due :: "task_id \<Rightarrow> ('f, 'x, 'v, 'w) config \<Rightarrow> bool" where
  "due i c = (case c of (pc, rt) \<Rightarrow>
     i \<in> tk_id ` set (rt_ready rt) \<or> i \<in> tk_id ` set (rt_waiting rt @ polled pc) \<and> recorded (rt_shared rt) i)"

lemma due_pair: "due i (pc, rt) \<longleftrightarrow>
    i \<in> tk_id ` set (rt_ready rt) \<or> i \<in> tk_id ` set (rt_waiting rt @ polled pc) \<and> recorded (rt_shared rt) i"
  by (simp add: due_def)

lemma due_spawns: "due i (pc, process_new_spawns rt) \<longleftrightarrow>
    due i (pc, rt) \<or> i \<in> tk_id ` set (sp_pending_spawns (rt_shared rt))"
  by (auto simp: due_pair process_new_spawns_def recorded_def)

lemma due_moved:
  assumes "distinct (map tk_id (rt_waiting rt))" "i \<in> tk_id ` set (rt_waiting rt)" "i \<in> set is"
  shows "i \<in> tk_id ` set (rt_ready (move_woken is rt))"
proof -
  obtain moved where m: "rt_ready (move_woken is rt) = rt_ready rt @ moved"
    "mset (rt_waiting rt) = mset (filter (\<lambda>u. tk_id u \<notin> set is) (rt_waiting rt)) + mset moved"
    using move_woken_effect [OF assms(1), of "is"] by blast
  obtain t where t: "t \<in> set (rt_waiting rt)" "tk_id t = i" using assms(2) by blast
  have "set (rt_waiting rt) = set (filter (\<lambda>u. tk_id u \<notin> set is) (rt_waiting rt) @ moved)"
    using m(2) by (metis mset_append mset_eq_setD)
  then have "t \<in> set moved" using t assms(3) by fastforce
  then show ?thesis using t(2) m(1) by auto
qed

lemma move_woken_ready_mono:
  assumes "distinct (map tk_id (rt_waiting rt))"
  shows "set (rt_ready rt) \<subseteq> set (rt_ready (move_woken is rt))"
    "rt_shared (move_woken is rt) = rt_shared rt"
    "i \<in> tk_id ` set (rt_waiting rt) \<Longrightarrow> i \<notin> set is \<Longrightarrow> i \<in> tk_id ` set (rt_waiting (move_woken is rt))"
  using move_woken_effect [OF assms, of "is"] by (force simp: image_iff)+

lemma due_woken:
  assumes "distinct (map tk_id (rt_waiting rt))" "due i (pc, rt)" "polled pc = []"
  shows "due i (pc, process_woken_tasks rt)" "due i (pc, process_thread_safe_woken_tasks rt)"
    "i \<in> set (rg_woken (sh_local (rt_shared rt))) \<Longrightarrow> i \<in> tk_id ` set (rt_ready (process_woken_tasks rt))"
    "i \<in> set (rg_woken (sh_safe (rt_shared rt))) \<Longrightarrow> i \<in> tk_id ` set (rt_ready (process_thread_safe_woken_tasks rt))"
proof -
  let ?rt1 = "rt\<lparr>rt_shared := (rt_shared rt)\<lparr>sh_local := (sh_local (rt_shared rt))\<lparr>rg_woken := []\<rparr>\<rparr>\<rparr>"
  let ?rt2 = "rt\<lparr>rt_shared := (rt_shared rt)\<lparr>sh_safe := (sh_safe (rt_shared rt))\<lparr>rg_woken := []\<rparr>\<rparr>\<rparr>"
  let ?l = "rg_woken (sh_local (rt_shared rt))" and ?s = "rg_woken (sh_safe (rt_shared rt))"
  have p: "process_woken_tasks rt = move_woken ?l ?rt1" "process_thread_safe_woken_tasks rt = move_woken ?s ?rt2"
    by (simp_all add: process_woken_tasks_def process_thread_safe_woken_tasks_def get_and_clear_woken_tasks_def)
  have d: "distinct (map tk_id (rt_waiting ?rt1))" "distinct (map tk_id (rt_waiting ?rt2))"
    using assms(1) by simp_all
  have ready: "i \<in> tk_id ` set (rt_ready rt) \<Longrightarrow> i \<in> tk_id ` set (rt_ready (process_woken_tasks rt))"
    "i \<in> tk_id ` set (rt_ready rt) \<Longrightarrow> i \<in> tk_id ` set (rt_ready (process_thread_safe_woken_tasks rt))"
    unfolding p using move_woken_ready_mono(1) [OF d(1), of ?l] move_woken_ready_mono(1) [OF d(2), of ?s] by auto
  have cases: "i \<in> tk_id ` set (rt_ready rt) \<or> i \<in> tk_id ` set (rt_waiting rt)"
    using assms(2,3) by (auto simp: due_pair)
  show l: "i \<in> set ?l \<Longrightarrow> i \<in> tk_id ` set (rt_ready (process_woken_tasks rt))"
    using cases ready(1) due_moved [OF d(1), of i ?l] unfolding p by auto
  show s: "i \<in> set ?s \<Longrightarrow> i \<in> tk_id ` set (rt_ready (process_thread_safe_woken_tasks rt))"
    using cases ready(2) due_moved [OF d(2), of i ?s] unfolding p by auto
  show "due i (pc, process_woken_tasks rt)"
  proof (cases "i \<in> tk_id ` set (rt_ready rt) \<or> i \<in> set ?l")
    case True
    then show ?thesis using ready(1) l by (auto simp: due_pair)
  next
    case False
    then have "i \<in> tk_id ` set (rt_waiting ?rt1)" "i \<in> set ?s" using assms(2,3) by (auto simp: due_pair recorded_def)
    moreover from this have "i \<in> tk_id ` set (rt_waiting (process_woken_tasks rt))"
      unfolding p using False move_woken_ready_mono(3) [OF d(1), of i ?l] by blast
    ultimately show ?thesis using move_woken_ready_mono(2) [OF d(1), of ?l]
      unfolding due_pair recorded_def p by (simp add: image_Un)
  qed
  show "due i (pc, process_thread_safe_woken_tasks rt)"
  proof (cases "i \<in> tk_id ` set (rt_ready rt) \<or> i \<in> set ?s")
    case True
    then show ?thesis using ready(2) s by (auto simp: due_pair)
  next
    case False
    then have "i \<in> tk_id ` set (rt_waiting ?rt2)" "i \<in> set ?l" using assms(2,3) by (auto simp: due_pair recorded_def)
    moreover from this have "i \<in> tk_id ` set (rt_waiting (process_thread_safe_woken_tasks rt))"
      unfolding p using False move_woken_ready_mono(3) [OF d(2), of i ?s] by blast
    ultimately show ?thesis using move_woken_ready_mono(2) [OF d(2), of ?s]
      unfolding due_pair recorded_def p by (simp add: image_Un)
  qed
qed

lemma task_waker_recorded: "recorded (snd (task_waker t sh)) i = recorded sh i"
  by (cases "tk_waker_type t") (simp_all add: task_waker_def create_task_waker_def create_thread_safe_waker_def
      register_waker_def recorded_def)

lemma due_advance:
  assumes "exec_ok (pc, rt)" "due i (pc, rt)" "exec_advance cond (pc, rt) = Some (evs, c')"
    "Began i \<notin> set evs"
  shows "due i c'"
proof (cases pc)
  case AtTop
  have "due i (finish_run rt)" "due i (finish_run (process_new_spawns rt))" "due i (AtTask, process_new_spawns rt)"
    using assms(2) due_spawns [of i AtTop rt] by (auto simp: AtTop finish_run_def due_pair)
  then show ?thesis using assms(3) by (auto simp: AtTop Let_def split: if_splits)
next
  case AtTask
  then show ?thesis using assms(2,3,4) by (auto simp: AtTask due_pair task_waker_recorded split: list.splits)
next
  case AfterDrain
  have "due i (finish_run rt)" using assms(2) by (auto simp: AfterDrain finish_run_def due_pair)
  moreover have "due i (AtSafe, process_woken_tasks rt)"
    using due_woken(1) [OF exec_ok_waiting [OF assms(1)] assms(2)] by (simp add: AfterDrain due_pair)
  ultimately show ?thesis using assms(3) by (auto simp: AfterDrain split: if_splits)
next
  case AtSafe
  then show ?thesis
    using due_woken(2) [OF exec_ok_waiting [OF assms(1)] assms(2)] assms(3) by (auto simp: due_pair)
qed (use assms(3) in auto)

lemma due_grows: "\<lbrakk>due i (pc, rt); grows (rt_shared rt) sh\<rbrakk> \<Longrightarrow> due i (pc, rt\<lparr>rt_shared := sh\<rparr>)"
  by (auto simp: due_pair grows_def)

lemma due_after_poll: "due i (AtTask, rt) \<Longrightarrow> due i (after_poll cond rt)"
  using due_spawns [of i AtTask rt] by (auto simp: after_poll_def Let_def due_pair)

lemma poll_ready_effect:
  assumes "poll_ready E t v rt = (ws, rt')"
  shows "rt_ready rt' = rt_ready rt" "rt_waiting rt' = rt_waiting rt" "rt_running rt' = rt_running rt"
    "\<And>i. recorded (rt_shared rt) i \<Longrightarrow> recorded (rt_shared rt') i"
    "\<And>w u. \<lbrakk>w \<in> set ws; waker_registered (rt_shared rt) u; reaches w u\<rbrakk> \<Longrightarrow> recorded (rt_shared rt') (tk_id u)"
    "sp_pending_spawns (rt_shared rt') = sp_pending_spawns (rt_shared rt)"
    "sh_cells (rt_shared rt') = (case tk_body t of Stores c _ \<Rightarrow> (sh_cells (rt_shared rt))[c := Some v] | _ \<Rightarrow> sh_cells (rt_shared rt))"
proof -
  obtain sh where d: "deliver_output E (tk_body t) v (rt_shared rt) = (ws, sh)" "rt' = rt\<lparr>rt_shared := unregister (tk_id t) sh\<rparr>"
    using assms by (auto simp: poll_ready_def split: prod.splits)
  note e = deliver_effect [OF d(1)]
  show "rt_ready rt' = rt_ready rt" "rt_waiting rt' = rt_waiting rt" "rt_running rt' = rt_running rt"
    "sp_pending_spawns (rt_shared rt') = sp_pending_spawns (rt_shared rt)"
    "sh_cells (rt_shared rt') = (case tk_body t of Stores c _ \<Rightarrow> (sh_cells (rt_shared rt))[c := Some v] | _ \<Rightarrow> sh_cells (rt_shared rt))"
    using e(1,3) by (simp_all add: d(2) spawned_def)
  show "\<And>i. recorded (rt_shared rt) i \<Longrightarrow> recorded (rt_shared rt') i" using e(2) by (simp add: d(2) grows_def)
  show "\<And>w u. \<lbrakk>w \<in> set ws; waker_registered (rt_shared rt) u; reaches w u\<rbrakk> \<Longrightarrow> recorded (rt_shared rt') (tk_id u)"
    using e(4) by (simp add: d(2))
qed

lemma due_step:
  assumes "exec_ok c" "due i c" "exec_step E cond c evs c'" "Began i \<notin> set evs"
  shows "due i c' \<or> (\<exists>v. Ended i v \<in> set evs)"
  using assms(3)
proof cases
  case step_advance
  then show ?thesis using due_advance assms by (cases c) blast
next
  case (step_call rt ws sh t)
  then show ?thesis using due_grows [of i "Polling t" rt sh] api_step_effect [OF step_call(4)] assms(2) by blast
next
  case (step_thread pc rt j)
  then show ?thesis using due_grows [OF _ grows_wake, of i pc rt] assms(2) by blast
next
  case (step_ready t v rt ws rt')
  show ?thesis
  proof (cases "tk_id t = i")
    case True
    then show ?thesis using step_ready(2) by auto
  next
    case False
    then have "due i (AtTask, rt')"
      using assms(2) poll_ready_effect(1,2,4) [OF step_ready(4)] by (auto simp: step_ready(1) due_pair)
    then show ?thesis using due_after_poll step_ready(3) by blast
  qed
next
  case (step_pending t rt f)
  have "due i (AtTask, poll_pending t f rt)"
    using assms(2) waiting_insert_fresh [of t rt "t\<lparr>tk_body := body_with f (tk_body t)\<rparr>"] assms(1)
    by (auto simp: step_pending(1) due_pair poll_pending_def)
  then show ?thesis using due_after_poll step_pending(3) by blast
qed

lemma due_run:
  assumes "exec_run E cond c evs c'" "exec_ok c" "due i c" "Began i \<notin> set evs"
  shows "due i c' \<or> (\<exists>v. Ended i v \<in> set evs)"
  using assms
proof (induction rule: exec_run.induct)
  case (run_step c evs c' evs' c'')
  then show ?case using due_step [OF exec_run_ok [OF run_step(1) run_step(4)], of i E cond evs' c''] by auto
qed simp

text \<open>The step in which the wake happens.\<close>

lemma wake_makes_due:
  assumes "exec_ok (pc, rt)" "t \<in> set (rt_waiting rt @ polled pc)" "reaches w t"
    "exec_step E cond (pc, rt) evs c'" "Woke w \<in> set evs"
  shows "due (tk_id t) c' \<or> (\<exists>v. Ended (tk_id t) v \<in> set evs)"
  using assms(4)
proof cases
  case step_advance
  have "Woke w \<notin> set evs"
    using step_advance by (cases pc) (auto split: list.splits if_splits simp: Let_def)
  then show ?thesis using assms(5) by blast
next
  case (step_call ws sh u)
  have "recorded sh (tk_id t)"
    using api_step_effect [OF step_call(4)] assms(2,3,5) exec_okD(3) [OF assms(1)] step_call(2) by fastforce
  then show ?thesis using assms(2) by (auto simp: step_call(1,3) due_pair)
next
  case (step_thread i)
  have "recorded (waker_wake (SafeWaker i) (rt_shared rt)) (tk_id t)"
    using wake_recorded [OF exec_okD(3) [OF assms(1,2)] assms(3)] assms(5) step_thread by simp
  then show ?thesis using assms(2) by (auto simp: step_thread due_pair)
next
  case (step_ready u v ws rt')
  show ?thesis
  proof (cases "tk_id u = tk_id t")
    case True
    then show ?thesis using step_ready(2) by auto
  next
    case False
    have "w \<in> set ws" using assms(5) step_ready(2) by auto
    then have "recorded (rt_shared rt') (tk_id t)"
      using poll_ready_effect(5) [OF step_ready(4)] exec_okD(3) [OF assms(1,2)] assms(3) by blast
    then have "due (tk_id t) (AtTask, rt')"
      using assms(2) False poll_ready_effect(2) [OF step_ready(4)] by (auto simp: step_ready(1) due_pair)
    then show ?thesis using due_after_poll step_ready(3) by blast
  qed
qed (use assms(5) in auto)

section \<open>What a run has done when it returns\<close>

lemma move_woken_live:
  assumes "distinct (map tk_id (rt_waiting rt))"
  shows "mset (live (pc, move_woken is rt)) = mset (live (pc, rt))"
proof -
  let ?rt = "move_woken is rt"
  obtain moved where m: "rt_shared ?rt = rt_shared rt" "rt_ready ?rt = rt_ready rt @ moved"
    and split: "mset (rt_waiting rt) = mset (rt_waiting ?rt) + mset moved"
    using move_woken_effect [OF assms, of "is"] by metis
  show ?thesis unfolding live.simps mset_append m split by (simp only: ac_simps)
qed

lemma process_woken_frame:
  assumes "exec_ok (pc, rt)"
  shows "mset (live (pc, process_woken_tasks rt)) = mset (live (pc, rt)) \<and>
      rt_running (process_woken_tasks rt) = rt_running rt \<and>
      sh_cells (rt_shared (process_woken_tasks rt)) = sh_cells (rt_shared rt)"
    "mset (live (pc, process_thread_safe_woken_tasks rt)) = mset (live (pc, rt)) \<and>
      rt_running (process_thread_safe_woken_tasks rt) = rt_running rt \<and>
      sh_cells (rt_shared (process_thread_safe_woken_tasks rt)) = sh_cells (rt_shared rt)"
proof -
  define rt1 where "rt1 = rt\<lparr>rt_shared := (rt_shared rt)\<lparr>sh_local := (sh_local (rt_shared rt))\<lparr>rg_woken := []\<rparr>\<rparr>\<rparr>"
  define rt2 where "rt2 = rt\<lparr>rt_shared := (rt_shared rt)\<lparr>sh_safe := (sh_safe (rt_shared rt))\<lparr>rg_woken := []\<rparr>\<rparr>\<rparr>"
  have p: "process_woken_tasks rt = move_woken (rg_woken (sh_local (rt_shared rt))) rt1"
    "process_thread_safe_woken_tasks rt = move_woken (rg_woken (sh_safe (rt_shared rt))) rt2"
    by (simp_all add: process_woken_tasks_def process_thread_safe_woken_tasks_def get_and_clear_woken_tasks_def rt1_def rt2_def)
  have w: "distinct (map tk_id (rt_waiting rt1))" "distinct (map tk_id (rt_waiting rt2))"
    using exec_ok_waiting [OF assms] by (simp_all add: rt1_def rt2_def)
  have l: "live (pc, rt1) = live (pc, rt)" "live (pc, rt2) = live (pc, rt)"
    "rt_running rt1 = rt_running rt" "rt_running rt2 = rt_running rt"
    "sh_cells (rt_shared rt1) = sh_cells (rt_shared rt)" "sh_cells (rt_shared rt2) = sh_cells (rt_shared rt)"
    by (simp_all add: rt1_def rt2_def)
  show "mset (live (pc, process_woken_tasks rt)) = mset (live (pc, rt)) \<and>
      rt_running (process_woken_tasks rt) = rt_running rt \<and>
      sh_cells (rt_shared (process_woken_tasks rt)) = sh_cells (rt_shared rt)"
    unfolding p using move_woken_live [OF w(1)] move_woken_effect [OF w(1)] by (simp only: l)
  show "mset (live (pc, process_thread_safe_woken_tasks rt)) = mset (live (pc, rt)) \<and>
      rt_running (process_thread_safe_woken_tasks rt) = rt_running rt \<and>
      sh_cells (rt_shared (process_thread_safe_woken_tasks rt)) = sh_cells (rt_shared rt)"
    unfolding p using move_woken_live [OF w(2)] move_woken_effect [OF w(2)] by (simp only: l)
qed

lemma process_new_spawns_frame:
  "mset (live (pc, process_new_spawns rt)) = mset (live (pc, rt))"
  "rt_running (process_new_spawns rt) = rt_running rt"
  "sh_cells (rt_shared (process_new_spawns rt)) = sh_cells (rt_shared rt)"
  "sp_pending_spawns (rt_shared (process_new_spawns rt)) = []"
  "rt_waiting (process_new_spawns rt) = rt_waiting rt"
  by (simp_all add: process_new_spawns_def ac_simps)

lemma finish_frame:
  "finish_run rt = (Finished, rt\<lparr>rt_running := False\<rparr>)" "polled pc = [] \<Longrightarrow> live (finish_run rt) = live (pc, rt)"
  by (simp_all add: finish_run_def)

lemma task_waker_frame:
  "sp_pending_spawns (snd (task_waker t sh)) = sp_pending_spawns sh"
  "sh_cells (snd (task_waker t sh)) = sh_cells sh"
  by (cases "tk_waker_type t"; simp add: task_waker_def create_task_waker_def create_thread_safe_waker_def)+

text \<open>A step of the loop keeps the tasks and the cells, and it returns only when it may.\<close>

definition loop_kept :: "stop_condition \<Rightarrow> ('f, 'x, 'v, 'w) config \<Rightarrow> ('f, 'x, 'v, 'w) config \<Rightarrow> bool" where
  "loop_kept cond c c' \<longleftrightarrow>
     mset (live c') = mset (live c) \<and> sh_cells (rt_shared (snd c')) = sh_cells (rt_shared (snd c)) \<and>
     (if fst c' = Finished then should_stop cond (snd c') \<or> live c' = [] else rt_running (snd c'))"

lemma loop_keptI:
  assumes "mset (live (pc', rt')) = mset (live c)" "sh_cells (rt_shared rt') = sh_cells (rt_shared (snd c))"
    "pc' \<noteq> Finished" "rt_running rt'"
  shows "loop_kept cond c (pc', rt')"
  using assms by (simp add: loop_kept_def del: live.simps)

lemma loop_kept_finish:
  assumes "mset (live (pc, rt')) = mset (live c)" "sh_cells (rt_shared rt') = sh_cells (rt_shared (snd c))"
    "polled pc = []" "should_stop cond rt' \<or> live (pc, rt') = []"
  shows "loop_kept cond c (finish_run rt')"
proof -
  have "should_stop cond (rt'\<lparr>rt_running := False\<rparr>) = should_stop cond rt'"
    by (cases cond) (simp_all add: should_stop_def)
  then show ?thesis using assms finish_frame(2) [OF assms(3), of rt']
    by (simp add: loop_kept_def finish_frame(1) del: live.simps)
qed

lemma exec_advance_kept:
  assumes "exec_ok (pc, rt)" "exec_advance cond (pc, rt) = Some (evs, c')" "rt_running rt"
  shows "loop_kept cond (pc, rt) c' \<and> polled pc = [] \<and> pc \<noteq> Finished \<and> (\<forall>i v. Ended i v \<notin> set evs)"
proof (cases pc)
  case AtTop
  let ?rt1 = "process_new_spawns rt"
  note f = process_new_spawns_frame
  have "loop_kept cond (pc, rt) (finish_run rt)" if "should_stop cond rt"
    by (rule loop_kept_finish [of AtTop]) (simp_all add: that AtTop)
  moreover have "loop_kept cond (pc, rt) (finish_run ?rt1)" if "rt_ready ?rt1 = []" "rt_waiting ?rt1 = []"
  proof (rule loop_kept_finish [of AtTop])
    have "live (AtTop, ?rt1) = []" using that f(4) [of rt] by simp
    then show "should_stop cond ?rt1 \<or> live (AtTop, ?rt1) = []" by blast
    show "mset (live (AtTop, ?rt1)) = mset (live (pc, rt))" using f(1) [of AtTop rt] by (simp only: AtTop)
  qed (simp_all add: f)
  moreover have "loop_kept cond (pc, rt) (AtTask, ?rt1)"
    using f(1) [of AtTop rt] by (intro loop_keptI) (simp_all add: AtTop f assms(3))
  ultimately show ?thesis using assms(2,3) by (auto simp: AtTop Let_def split: if_splits)
next
  case AtTask
  have "loop_kept cond (pc, rt) (AfterDrain, rt)" by (intro loop_keptI) (simp_all add: AtTask assms(3))
  moreover have "loop_kept cond (pc, rt) (Polling t, rt\<lparr>rt_ready := ts, rt_shared := snd (task_waker t (rt_shared rt))\<rparr>)"
    if "rt_ready rt = t # ts" for t ts
    using that by (intro loop_keptI) (simp_all add: AtTask assms(3) task_waker_frame ac_simps)
  ultimately show ?thesis using assms(2) by (auto simp: AtTask split: list.splits)
next
  case AfterDrain
  have "loop_kept cond (pc, rt) (finish_run rt)" if "should_stop cond rt"
    by (rule loop_kept_finish [of AfterDrain]) (simp_all add: that AfterDrain)
  moreover have "loop_kept cond (pc, rt) (AtSafe, process_woken_tasks rt)"
    using process_woken_frame(1) [OF assms(1)] by (intro loop_keptI) (simp_all add: AfterDrain assms(3))
  ultimately show ?thesis using assms(2) by (auto simp: AfterDrain split: if_splits)
next
  case AtSafe
  have "loop_kept cond (pc, rt) (AtTop, process_thread_safe_woken_tasks rt)"
    using process_woken_frame(2) [OF assms(1)] by (intro loop_keptI) (simp_all add: AtSafe assms(3))
  then show ?thesis using assms(2) by (auto simp: AtSafe)
qed (use assms(2) in auto)

text \<open>
  While \<open>block_on\<close> runs, either its task is live and alone in writing the cell, or the cell holds
  the output with which that task ended.
\<close>

definition awaits :: "task_id \<Rightarrow> nat \<Rightarrow> ('f, 'x, 'v, 'w) config \<Rightarrow> 'v exec_event list \<Rightarrow> bool" where
  "awaits i c cf evs \<longleftrightarrow>
     c < length (sh_cells (rt_shared (snd cf))) \<and>
     (\<forall>t \<in> set (live cf). \<forall>g. tk_body t = Stores c g \<longrightarrow> tk_id t = i) \<and>
     (case sh_cells (rt_shared (snd cf)) ! c of
        None \<Rightarrow> \<exists>t \<in> set (live cf). tk_id t = i \<and> (\<exists>g. tk_body t = Stores c g)
      | Some v \<Rightarrow> Ended i v \<in> set evs)"

lemma awaits_kept:
  assumes "awaits i c cf evs" "mset (live cf') = mset (live cf)"
    "sh_cells (rt_shared (snd cf')) = sh_cells (rt_shared (snd cf))"
  shows "awaits i c cf' (evs @ evs')"
proof -
  have "set (live cf') = set (live cf)" using assms(2) by (rule mset_eq_setD)
  then show ?thesis using assms(1) unfolding awaits_def assms(3) by (auto split: option.splits)
qed

lemma awaits_shared:
  assumes "awaits i c (pc, rt) evs" "spawned (rt_shared rt) new sh"
    "\<forall>t \<in> set new. \<forall>d f. tk_body t \<noteq> Stores d f" "sh_cells sh = sh_cells (rt_shared rt)"
  shows "awaits i c (pc, rt\<lparr>rt_shared := sh\<rparr>) (evs @ evs')"
proof -
  have "set (live (pc, rt\<lparr>rt_shared := sh\<rparr>)) = set (live (pc, rt)) \<union> set new"
    using assms(2) by (auto simp: spawned_def)
  then show ?thesis using assms(1,3,4) unfolding awaits_def by (auto simp del: live.simps split: option.splits)
qed

lemma after_poll_frame:
  "mset (live (after_poll cond rt)) = mset (live (AtTask, rt))"
  "sh_cells (rt_shared (snd (after_poll cond rt))) = sh_cells (rt_shared rt)"
  "fst (after_poll cond rt) \<noteq> Finished" "rt_running (snd (after_poll cond rt)) = rt_running rt"
  using process_new_spawns_frame(1) [of AfterDrain rt] process_new_spawns_frame(1) [of AtTask rt]
  by (simp_all add: after_poll_def Let_def process_new_spawns_frame)

lemma awaits_pending:
  assumes "exec_ok (Polling t, rt)" "awaits i c (Polling t, rt) evs"
  shows "awaits i c (after_poll cond (poll_pending t f rt)) (evs @ evs')"
proof -
  let ?t = "t\<lparr>tk_body := body_with f (tk_body t)\<rparr>"
  have w: "rt_waiting (poll_pending t f rt) = rt_waiting rt @ [?t]"
    using waiting_insert_fresh [OF assms(1), of ?t] by (simp add: poll_pending_def)
  then have l: "set (live (AtTask, poll_pending t f rt)) = insert ?t (set (live (AtTask, rt)))"
    by (auto simp: poll_pending_def)
  have s: "(\<exists>g. body_with f bd = Stores c g) \<longleftrightarrow> (\<exists>g. bd = Stores c g)" for bd :: "('a, 'b) body"
    by (cases bd) (simp_all add: body_with_def)
  have "awaits i c (AtTask, poll_pending t f rt) evs"
    using assms(2) s [of "tk_body t"] unfolding awaits_def l
    by (auto simp: poll_pending_def split: option.splits)
  then show ?thesis using after_poll_frame(1,2) [of cond "poll_pending t f rt"] awaits_kept by fastforce
qed

lemma awaits_ready:
  assumes "exec_ok (Polling t, rt)" "awaits i c (Polling t, rt) evs" "poll_ready E t v rt = (ws, rt')"
  shows "awaits i c (after_poll cond rt') (evs @ map Woke ws @ [Ended (tk_id t) v])"
proof -
  note p = poll_ready_effect [OF assms(3)]
  have l: "set (live (Polling t, rt)) = insert t (set (live (AtTask, rt')))"
    by (auto simp: p)
  have c: "c < length (sh_cells (rt_shared rt))" using assms(2) by (simp add: awaits_def)
  have own: "tk_body t = Stores c g \<Longrightarrow> tk_id t = i" for g
    using assms(2) unfolding awaits_def l by auto
  have "awaits i c (AtTask, rt') (evs @ map Woke ws @ [Ended (tk_id t) v])"
  proof (cases "\<exists>g. tk_body t = Stores c g")
    case True
    then have "sh_cells (rt_shared rt') ! c = Some v" "tk_id t = i" using c own p(7) by auto
    then show ?thesis using assms(2) c True unfolding awaits_def l by (auto simp: p(7))
  next
    case False
    then have "sh_cells (rt_shared rt') ! c = sh_cells (rt_shared rt) ! c"
      "length (sh_cells (rt_shared rt')) = length (sh_cells (rt_shared rt))"
      using p(7) by (auto split: body.splits)
    then show ?thesis using assms(2) False unfolding awaits_def l by (auto split: option.splits)
  qed
  then show ?thesis using after_poll_frame(1,2) [of cond rt'] awaits_kept [of i c "(AtTask, rt')" _ "after_poll cond rt'" "[]"]
    by simp
qed

text \<open>The loop runs until it may return.\<close>

definition returns_rightly :: "stop_condition \<Rightarrow> ('f, 'x, 'v, 'w) config \<Rightarrow> bool" where
  "returns_rightly cond cf \<longleftrightarrow>
     (if fst cf = Finished then should_stop cond (snd cf) \<or> live cf = [] else rt_running (snd cf))"

lemma should_stop_cells: "sh_cells (rt_shared rt') = sh_cells (rt_shared rt) \<Longrightarrow> should_stop cond rt' = should_stop cond rt"
  by (simp add: should_stop_def split: stop_condition.splits)

lemma exec_step_rightly:
  assumes "exec_ok cf" "returns_rightly cond cf" "exec_step E cond cf evs cf'"
  shows "returns_rightly cond cf' \<and> (awaits i c cf evs0 \<longrightarrow> awaits i c cf' (evs0 @ evs))"
  using assms(3)
proof cases
  case step_advance
  obtain pc rt where cf: "cf = (pc, rt)" by (cases cf)
  have "pc \<noteq> Finished" using step_advance by (auto simp: cf)
  then have "rt_running rt" using assms(2) by (simp add: returns_rightly_def cf)
  from exec_advance_kept [OF assms(1) [unfolded cf] step_advance [unfolded cf] this]
  have k: "loop_kept cond (pc, rt) cf'" by blast
  then show ?thesis using awaits_kept [of i c cf evs0 cf' evs]
    unfolding returns_rightly_def cf loop_kept_def by (simp del: live.simps)
next
  case (step_call rt ws sh t)
  obtain new where n: "spawned (rt_shared rt) new sh" "\<forall>t \<in> set new. \<forall>d f. tk_body t \<noteq> Stores d f"
    "sh_cells sh = sh_cells (rt_shared rt)"
    using api_step_effect [OF step_call(4)] by blast
  show ?thesis using awaits_shared [OF _ n] assms(2) by (simp add: step_call returns_rightly_def)
next
  case (step_thread pc rt j)
  let ?sh = "waker_wake (SafeWaker j) (rt_shared rt)"
  have "awaits i c (pc, rt) evs0 \<Longrightarrow> awaits i c (pc, rt\<lparr>rt_shared := ?sh\<rparr>) (evs0 @ evs)"
    using awaits_shared [of i c pc rt evs0 "[]" ?sh evs] by (simp add: spawned_def)
  moreover have "should_stop cond (rt\<lparr>rt_shared := ?sh\<rparr>) = should_stop cond rt" by (rule should_stop_cells) simp
  ultimately show ?thesis using assms(2) by (auto simp: step_thread returns_rightly_def split: if_splits)
next
  case (step_ready t v rt ws rt')
  then show ?thesis using awaits_ready [OF _ _ step_ready(4)] assms(1,2) after_poll_frame(3,4) [of cond rt']
      poll_ready_effect(3) [OF step_ready(4)] by (simp add: returns_rightly_def)
next
  case (step_pending t rt f)
  then show ?thesis using awaits_pending [of t rt i c evs0 cond f "[]"] assms(1,2) after_poll_frame(3,4) [of cond "poll_pending t f rt"]
    by (simp add: returns_rightly_def poll_pending_def)
qed

lemma exec_run_rightly:
  assumes "exec_run E cond cf evs cf'" "exec_ok cf" "returns_rightly cond cf"
  shows "returns_rightly cond cf' \<and> (awaits i c cf [] \<longrightarrow> awaits i c cf' evs)"
  using assms
proof (induction rule: exec_run.induct)
  case (run_step cf evs cf' evs' cf'')
  then show ?case using exec_step_rightly [OF exec_run_ok [OF run_step(1) run_step(4)] _ run_step(2), of i c evs] by blast
qed simp

section \<open>The properties\<close>

text \<open>
  C28: No wake of a task is lost. When the waker of a task that waits or is being polled is woken, by
  a task, by itself or by another thread, then until its next poll begins the task is in the ready
  queue, or the wake is still recorded for it, or it has ended; and when the loop next looks at the
  two registries it moves the task to the ready queue.
\<close>

theorem wake_not_lost:
  assumes "exec_reach E cond (pc, rt)" "t \<in> set (rt_waiting rt @ polled pc)" "reaches w t"
    and "exec_step E cond (pc, rt) evs c1" "Woke w \<in> set evs"
    and "exec_run E cond c1 evs' (pc2, rt2)"
    and "Began (tk_id t) \<notin> set evs'" "\<forall>v. Ended (tk_id t) v \<notin> set (evs @ evs')"
  shows "(tk_id t \<in> tk_id ` set (rt_ready rt2) \<or>
      tk_id t \<in> tk_id ` set (rt_waiting rt2 @ polled pc2) \<and> recorded (rt_shared rt2) (tk_id t)) \<and>
    (pc2 = AfterDrain \<longrightarrow> \<not> should_stop cond rt2 \<longrightarrow>
      (\<exists>rt3 rt4. exec_advance cond (pc2, rt2) = Some ([], AtSafe, rt3) \<and>
         exec_advance cond (AtSafe, rt3) = Some ([], AtTop, rt4) \<and> tk_id t \<in> tk_id ` set (rt_ready rt4)))"
proof -
  let ?i = "tk_id t"
  note ok = exec_reach_ok [OF assms(1)]
  have ok1: "exec_ok c1" using exec_step_ok [OF assms(4) ok] .
  have ok2: "exec_ok (pc2, rt2)" using exec_run_ok [OF assms(6) ok1] .
  have "due ?i c1" using wake_makes_due [OF ok assms(2-5)] assms(8) by auto
  then have d: "due ?i (pc2, rt2)" using due_run [OF assms(6) ok1 _ assms(7)] assms(8) by auto
  have "?i \<in> tk_id ` set (rt_ready (process_thread_safe_woken_tasks (process_woken_tasks rt2)))" if pc: "pc2 = AfterDrain"
  proof -
    let ?rt3 = "process_woken_tasks rt2"
    have pol: "polled pc2 = []" by (simp add: pc)
    note w = due_woken [OF exec_ok_waiting [OF ok2] d pol]
    have ok3: "exec_ok (pc2, ?rt3)" using process_woken_ok(1) [OF ok2] .
    note w3 = due_woken [OF exec_ok_waiting [OF ok3] w(1) pol]
    have "?i \<in> tk_id ` set (rt_ready ?rt3) \<or> ?i \<in> set (rg_woken (sh_safe (rt_shared ?rt3)))"
    proof (rule ccontr)
      assume n: "\<not> ?thesis"
      then have "?i \<in> set (rg_woken (sh_local (rt_shared ?rt3)))" using w(1) pol by (auto simp: due_pair recorded_def)
      moreover have "rg_woken (sh_local (rt_shared ?rt3)) = []"
        using move_woken_ready_mono(2) [of "rt2\<lparr>rt_shared := (rt_shared rt2)\<lparr>sh_local := (sh_local (rt_shared rt2))\<lparr>rg_woken := []\<rparr>\<rparr>\<rparr>"]
          exec_ok_waiting [OF ok2] by (simp add: process_woken_tasks_def get_and_clear_woken_tasks_def)
      ultimately show False by simp
    qed
    then show ?thesis
    proof
      assume "?i \<in> tk_id ` set (rt_ready ?rt3)"
      moreover have "set (rt_ready ?rt3) \<subseteq> set (rt_ready (process_thread_safe_woken_tasks ?rt3))"
        using move_woken_ready_mono(1) [of "?rt3\<lparr>rt_shared := (rt_shared ?rt3)\<lparr>sh_safe := (sh_safe (rt_shared ?rt3))\<lparr>rg_woken := []\<rparr>\<rparr>\<rparr>"
            "rg_woken (sh_safe (rt_shared ?rt3))"] exec_ok_waiting [OF ok3]
        by (simp add: process_thread_safe_woken_tasks_def get_and_clear_woken_tasks_def)
      ultimately show ?thesis by blast
    qed (rule w3(4))
  qed
  then show ?thesis using d by (auto simp: due_pair)
qed

text \<open>
  C29: The two ways to run return with their work done. \<open>run\<close> returns only when no task is left
  anywhere and no waker is registered; \<open>block_on\<close>, whatever the tasks and other threads did
  meanwhile, has the output with which its own task ended, so that taking it never fails.
\<close>

theorem runs_return_complete:
  assumes "exec_reach E cond (Finished, rt)"
  shows "(\<forall>evs rt'. exec_run E Never (run_start rt) evs (Finished, rt') \<longrightarrow>
      pending_tasks rt' = 0 \<and> (\<forall>i. \<not> has_waker (rt_shared rt') i)) \<and>
    (\<forall>f i c c0 evs rt'. block_on_start f rt = Some (i, c, c0) \<longrightarrow>
      exec_run E (CellSet c) c0 evs (Finished, rt') \<longrightarrow>
      (\<exists>v rt''. Ended i v \<in> set evs \<and> block_on_take c rt' = Some (v, rt'')))"
proof (intro conjI allI impI)
  note ok = exec_reach_ok [OF assms]
  fix evs rt' assume run: "exec_run E Never (run_start rt) evs (Finished, rt')"
  have "returns_rightly Never (run_start rt)" by (simp add: returns_rightly_def run_start_def)
  then have "returns_rightly Never (Finished, rt')"
    using exec_run_rightly [OF run run_start_ok [OF ok]] by blast
  then have l: "live (Finished, rt') = []" by (simp add: returns_rightly_def should_stop_def)
  then show "pending_tasks rt' = 0" by (simp add: pending_tasks_def)
  show "\<not> has_waker (rt_shared rt') i" for i
    using exec_okD(4) [OF exec_run_ok [OF run run_start_ok [OF ok]], of i] l by auto
next
  note ok = exec_reach_ok [OF assms]
  fix f i c c0 evs rt'
  assume start: "block_on_start f rt = Some (i, c, c0)" and run: "exec_run E (CellSet c) c0 evs (Finished, rt')"
  obtain sh t where s: "c0 = run_start (rt\<lparr>rt_shared := sh\<rparr>)" "spawned (rt_shared rt) [t] sh" "grows (rt_shared rt) sh"
    "tk_id t = i" "tk_body t = Stores c f" "c = length (sh_cells (rt_shared rt))" "sh_cells sh = sh_cells (rt_shared rt) @ [None]"
    using block_on_start_effect [OF start] by blast
  have ok0: "exec_ok c0" using run_start_ok [OF grow_ok [OF ok s(2,3)]] by (simp only: s(1))
  have l: "set (live c0) = insert t (set (live (Finished, rt)))"
    using s(2) by (auto simp: s(1) run_start_def spawned_def)
  have old: "tk_body u \<noteq> Stores c g" if "u \<in> set (live (Finished, rt))" for u g
    using exec_okD(2) [OF ok that] s(6) by (auto simp: body_ok_def)
  have "awaits i c c0 []"
    unfolding awaits_def l using old s(4-7) by (auto simp del: live.simps simp: s(1) run_start_def)
  moreover have "returns_rightly (CellSet c) c0" by (simp add: s(1) returns_rightly_def run_start_def)
  ultimately have fin: "returns_rightly (CellSet c) (Finished, rt')" "awaits i c (Finished, rt') evs"
    using exec_run_rightly [OF run ok0, of i c] by blast+
  have "should_stop (CellSet c) rt'"
    using fin by (auto simp: returns_rightly_def awaits_def should_stop_def split: option.splits)
  then obtain v where v: "sh_cells (rt_shared rt') ! c = Some v" by (auto simp: should_stop_def)
  moreover from this have "Ended i v \<in> set evs" using fin(2) by (simp add: awaits_def)
  ultimately show "\<exists>v rt''. Ended i v \<in> set evs \<and> block_on_take c rt' = Some (v, rt'')"
    by (auto simp: block_on_take_def)
qed

text \<open>
  A one-shot channel delivers its value once. A value sent into an empty channel is accepted and
  wakes the receiver that waits; the next poll of the receiver, or of the join handle over it, yields
  that value; every poll after it reports that there is none, and every further send gives the value
  back. A poll before the value leaves a waker that the send then wakes.
\<close>

theorem oneshot_delivers_once:
  assumes "c < length (sh_channels sh)" "ch_state (sh_channels sh ! c) = ChEmpty"
  shows "\<exists>ws sh1 sh2. sender_send c v sh = (Inr (), ws, sh1) \<and>
    receiver_poll c w sh1 = (Some (Inr v), sh2) \<and> fst (join_handle_poll c w sh1) = Some (Inr v) \<and>
    receiver_poll c w' sh2 = (Some (Inl RecvError), sh2) \<and> fst (join_handle_poll c w' sh2) = Some (Inl TaskAborted) \<and>
    sender_send c v' sh1 = (Inl v', [], sh1) \<and> sender_send c v' sh2 = (Inl v', [], sh2) \<and>
    (\<exists>sh3. receiver_poll c w sh = (None, sh3) \<and> fst (snd (sender_send c v sh3)) = [w])"
  using assms
  by (auto simp: sender_send_def receiver_poll_def join_handle_poll_def Let_def split: option.splits)

end
