(* ===== verification/Executor_Samples.thy ===== *)
theory Executor_Samples
  imports Executor_Props
begin

text \<open>
  Two runs of the executor: a task that wakes itself and stays pending, and a \<open>block_on\<close> whose
  future is ready at its first poll.
\<close>

definition sample_env :: "(unit, nat, unit) executor_env" where
  "sample_env = \<lparr>safe_channel = \<lambda>w. ((), w), safe_send = \<lambda>_ _ w. ([], w)\<rparr>"

definition sample_task :: "(unit, unit) task" where
  "sample_task = \<lparr>tk_id = 0, tk_body = Bare (), tk_waker_type = SingleThreaded\<rparr>"

definition sample_shared :: "(unit, unit) task list \<Rightarrow> waker_registry \<Rightarrow> (unit, unit, nat, unit) shared" where
  "sample_shared spawns local = \<lparr>sp_next_task_id = 1, sp_pending_spawns = spawns, sh_local = local,
     sh_safe = waker_registry_new, sh_channels = [], sh_cells = [], sh_world = ()\<rparr>"

definition sample_rt :: "(unit, unit) task list \<Rightarrow> (unit, unit) task list \<Rightarrow> waker_registry \<Rightarrow> (unit, unit, nat, unit) rt" where
  "sample_rt ready waiting local = \<lparr>rt_ready = ready, rt_waiting = waiting, rt_running = True,
     rt_shared = sample_shared [] local\<rparr>"

definition sample_registry :: "task_id list \<Rightarrow> waker_registry" where
  "sample_registry woken = \<lparr>rg_wakers = [0 \<mapsto> LocalWaker 0], rg_woken = woken\<rparr>"

lemma sample_polling:
  "exec_reach sample_env Never (Polling sample_task, sample_rt [] [] (sample_registry []))"
proof -
  let ?new = "runtime_new () :: (unit, unit, nat, unit) rt"
  have "spawn () (rt_shared ?new) = Some (0, sample_shared [sample_task] waker_registry_new)"
    by (simp add: spawn_def push_task_def runtime_new_def sample_shared_def sample_task_def)
  from reach_run [OF reach_call [OF reach_new api_spawn [OF this]]]
  have "exec_reach sample_env Never (AtTop, \<lparr>rt_ready = [], rt_waiting = [], rt_running = True,
      rt_shared = sample_shared [sample_task] waker_registry_new\<rparr>)"
    by (simp add: run_start_def runtime_new_def)
  moreover have "exec_advance Never (AtTop, \<lparr>rt_ready = [], rt_waiting = [], rt_running = True,
      rt_shared = sample_shared [sample_task] waker_registry_new\<rparr>) = Some ([], AtTask, sample_rt [sample_task] [] waker_registry_new)"
    by (simp add: should_stop_def process_new_spawns_def sample_shared_def sample_rt_def)
  ultimately have "exec_reach sample_env Never (AtTask, sample_rt [sample_task] [] waker_registry_new)"
    using reach_step step_advance by blast
  moreover have "exec_advance Never (AtTask, sample_rt [sample_task] [] waker_registry_new) =
      Some ([Began 0], Polling sample_task, sample_rt [] [] (sample_registry []))"
    by (simp add: sample_rt_def sample_task_def sample_registry_def task_waker_def create_task_waker_def
        register_waker_def waker_registry_new_def sample_shared_def)
  ultimately show ?thesis using reach_step step_advance by blast
qed

theorem wake_not_lost_witness:
  "\<exists>rt3 rt4. exec_advance Never (AfterDrain, sample_rt [] [sample_task] (sample_registry [0])) = Some ([], AtSafe, rt3) \<and>
     exec_advance Never (AtSafe, rt3) = Some ([], AtTop, rt4) \<and> 0 \<in> tk_id ` set (rt_ready rt4)"
proof -
  let ?p = "Polling sample_task" and ?rt = "sample_rt [] [] (sample_registry [])"
    and ?rt1 = "sample_rt [] [] (sample_registry [0])" and ?rt2 = "sample_rt [] [sample_task] (sample_registry [0])"
  have w: "?rt\<lparr>rt_shared := waker_wake (LocalWaker 0) (rt_shared ?rt)\<rparr> = ?rt1"
    by (simp add: sample_rt_def sample_shared_def sample_registry_def waker_wake_def wake_task_def)
  have woke: "exec_step sample_env Never (?p, ?rt) [Woke (LocalWaker 0)] (?p, ?rt1)"
    using step_call [OF api_wake [of sample_env "rt_shared ?rt" "LocalWaker 0"], of Never sample_task]
    by (simp only: list.map w)
  have p: "after_poll Never (poll_pending sample_task () ?rt1) = (AtTask, ?rt2)"
    by (simp add: after_poll_def poll_pending_def process_new_spawns_def should_stop_def waiting_insert_def
        sample_rt_def sample_shared_def sample_task_def body_with_def)
  have a: "exec_advance Never (AtTask, ?rt2) = Some ([], AfterDrain, ?rt2)" by (simp add: sample_rt_def)
  have "exec_step sample_env Never (?p, ?rt1) [] (AtTask, ?rt2)"
    using step_pending [of sample_env Never sample_task ?rt1 "()"] by (simp only: p)
  from run_step [OF run_step [OF run_nil this] step_advance [OF a]]
  have "exec_run sample_env Never (?p, ?rt1) [] (AfterDrain, ?rt2)" by simp
  moreover have "reaches (LocalWaker 0) sample_task" by (simp add: reaches_def sample_task_def)
  ultimately show ?thesis
    using wake_not_lost [OF sample_polling _ _ woke, of sample_task "LocalWaker 0" "[]" AfterDrain ?rt2]
    by (simp add: should_stop_def sample_task_def del: exec_advance.simps)
qed

theorem runs_return_complete_witness:
  "\<exists>c0 evs rt' v rt''. block_on_start () (runtime_new () :: (unit, unit, nat, unit) rt) = Some (0, 0, c0) \<and>
     exec_run sample_env (CellSet 0) c0 evs (Finished, rt') \<and> Ended 0 v \<in> set evs \<and>
     block_on_take 0 rt' = Some (v, rt'')"
proof -
  let ?new = "runtime_new () :: (unit, unit, nat, unit) rt"
  define t :: "(unit, unit) task" where "t = \<lparr>tk_id = 0, tk_body = Stores 0 (), tk_waker_type = SingleThreaded\<rparr>"
  define sh :: "(unit, unit) task list \<Rightarrow> waker_registry \<Rightarrow> nat option \<Rightarrow> (unit, unit, nat, unit) shared" where
    "sh = (\<lambda>ts r v. \<lparr>sp_next_task_id = 1, sp_pending_spawns = ts, sh_local = r, sh_safe = waker_registry_new,
       sh_channels = [], sh_cells = [v], sh_world = ()\<rparr>)"
  define st :: "(unit, unit) task list \<Rightarrow> (unit, unit, nat, unit) shared \<Rightarrow> (unit, unit, nat, unit) rt" where
    "st = (\<lambda>ready s. \<lparr>rt_ready = ready, rt_waiting = [], rt_running = True, rt_shared = s\<rparr>)"
  have start: "block_on_start () ?new = Some (0, 0, AtTop, st [] (sh [t] waker_registry_new None))"
    by (simp add: block_on_start_def push_task_def runtime_new_def run_start_def t_def sh_def st_def)
  have "exec_advance (CellSet 0) (AtTop, st [] (sh [t] waker_registry_new None)) = Some ([], AtTask, st [t] (sh [] waker_registry_new None))"
    by (simp add: should_stop_def process_new_spawns_def st_def sh_def)
  moreover have "exec_advance (CellSet 0) (AtTask, st [t] (sh [] waker_registry_new None)) =
      Some ([Began 0], Polling t, st [] (sh [] (sample_registry []) None))"
    by (simp add: st_def t_def sh_def sample_registry_def task_waker_def create_task_waker_def register_waker_def waker_registry_new_def)
  moreover have "poll_ready sample_env t 7 (st [] (sh [] (sample_registry []) None)) =
      ([], st [] (sh [] waker_registry_new (Some 7)))"
    by (auto simp: poll_ready_def deliver_output_def t_def st_def sh_def unregister_def remove_waker_def sample_registry_def waker_registry_new_def)
  moreover have "after_poll (CellSet 0) (st [] (sh [] waker_registry_new (Some 7))) = (AfterDrain, st [] (sh [] waker_registry_new (Some 7)))"
    by (simp add: after_poll_def process_new_spawns_def should_stop_def st_def sh_def)
  moreover have "exec_advance (CellSet 0) (AfterDrain, st [] (sh [] waker_registry_new (Some 7))) =
      Some ([], finish_run (st [] (sh [] waker_registry_new (Some 7))))"
    by (simp add: should_stop_def st_def sh_def)
  ultimately have "\<exists>evs. exec_run sample_env (CellSet 0) (AtTop, st [] (sh [t] waker_registry_new None)) evs
      (finish_run (st [] (sh [] waker_registry_new (Some 7))))"
    using run_step [OF run_step [OF run_step [OF run_step [OF run_nil step_advance] step_advance] step_ready] step_advance]
    by metis
  then obtain evs rt' where run: "exec_run sample_env (CellSet 0) (AtTop, st [] (sh [t] waker_registry_new None)) evs (Finished, rt')"
    by (auto simp: finish_run_def)
  have "\<exists>v rt''. Ended 0 v \<in> set evs \<and> block_on_take 0 rt' = Some (v, rt'')"
    by (rule runs_return_complete [OF reach_new, THEN conjunct2, rule_format, OF start run])
  with start run show ?thesis by blast
qed

theorem oneshot_delivers_once_witness:
  "\<exists>ws sh1 sh2. sender_send 0 (5 :: nat) (snd (channel_new (sample_shared [] waker_registry_new))) = (Inr (), ws, sh1) \<and>
     receiver_poll 0 (LocalWaker 1) sh1 = (Some (Inr 5), sh2) \<and>
     receiver_poll 0 (LocalWaker 2) sh2 = (Some (Inl RecvError), sh2)"
  using oneshot_delivers_once [of 0 "snd (channel_new (sample_shared [] waker_registry_new))" 5 "LocalWaker 1" "LocalWaker 2" 6]
  by (auto simp: channel_new_def sample_shared_def)

end
