(* ===== verification/Bench_Trace.thy ===== *)
theory Bench_Trace
  imports Errors "HOL-Library.Multiset"
begin

text \<open>
  What a benchmark run did, and whether two runs did the same
  (\<open>verify.rs\<close> and \<open>fairness.rs\<close> of \<open>win-ioring-bench\<close>).

  A trace has the operations issued, in order, and a digest of what was delivered, folded so
  that the order of completions cannot matter. A ledger keeps the first trace of every
  combination of scenario and depth and compares every later one with it. The two keys are
  parameters of the ledger's type here; a mismatch carries what differed.
\<close>

section \<open>The hash\<close>

definition FNV_PRIME :: u64 where "FNV_PRIME = 0x100000001B3"
definition FNV_SEED :: u64 where "FNV_SEED = 0xcbf29ce484222325"

definition fnv_feed :: "u8 list \<Rightarrow> u64 \<Rightarrow> u64" where
  "fnv_feed bytes h = fold (\<lambda>b h. (h XOR ucast b) * FNV_PRIME) bytes h"

definition to_le_bytes :: "u64 \<Rightarrow> u8 list" where
  "to_le_bytes v = map (\<lambda>i. ucast (drop_bit (8 * i) v)) [0..<8]"

definition fnv_feed_u64 :: "u64 \<Rightarrow> u64 \<Rightarrow> u64" where
  "fnv_feed_u64 v h = fnv_feed (to_le_bytes v) h"

section \<open>Traces\<close>

datatype phase = PhaseRead | PhaseWrite

definition phase_code :: "phase \<Rightarrow> u64" where
  "phase_code p = (case p of PhaseRead \<Rightarrow> 1 | PhaseWrite \<Rightarrow> 2)"

record issued_op =
  io_offset :: u64
  io_len :: u32

record trace =
  tr_issued :: "issued_op list"
  tr_digest :: u64
  tr_delivered_bytes :: u64
  tr_completions :: nat

definition trace_new :: trace where
  "trace_new = \<lparr>tr_issued = [], tr_digest = 0, tr_delivered_bytes = 0, tr_completions = 0\<rparr>"

definition trace_issued :: "u64 \<Rightarrow> u32 \<Rightarrow> trace \<Rightarrow> trace" where
  "trace_issued offset len t = t\<lparr>tr_issued := tr_issued t @ [\<lparr>io_offset = offset, io_len = len\<rparr>]\<rparr>"

text \<open>The hash of one delivery, and the number of its bytes that count.\<close>

definition delivery_take :: "u32 \<Rightarrow> u8 list \<Rightarrow> nat" where
  "delivery_take transferred bytes = min (unat transferred) (length bytes)"

definition delivery_hash :: "phase \<Rightarrow> u64 \<Rightarrow> u32 \<Rightarrow> u8 list \<Rightarrow> u64" where
  "delivery_hash p offset transferred bytes =
     fnv_feed (take (delivery_take transferred bytes) bytes)
       (fnv_feed_u64 (ucast transferred) (fnv_feed_u64 offset (fnv_feed_u64 (phase_code p) FNV_SEED)))"

definition trace_delivered :: "phase \<Rightarrow> u64 \<Rightarrow> u32 \<Rightarrow> u8 list \<Rightarrow> trace \<Rightarrow> trace" where
  "trace_delivered p offset transferred bytes t =
     t\<lparr>tr_digest := tr_digest t + delivery_hash p offset transferred bytes,
       tr_delivered_bytes := tr_delivered_bytes t + of_nat (delivery_take transferred bytes),
       tr_completions := tr_completions t + 1\<rparr>"

definition trace_operations :: "trace \<Rightarrow> nat" where
  "trace_operations t = length (tr_issued t)"

definition trace_delivered_total :: "trace \<Rightarrow> u64" where
  "trace_delivered_total t = tr_delivered_bytes t"

datatype mismatch =
    OperationCount nat nat
  | IssueOrder nat string string
  | CompletionCount nat nat
  | DeliveredBytes u64 u64
  | Delivered u64 u64

definition show_issued :: "issued_op \<Rightarrow> string" where
  "show_issued a = show_unsigned (io_offset a) @ ''+'' @ show_unsigned (io_len a)"

text \<open>The loop over the pairs of operations, from index \<open>i\<close>.\<close>

fun first_difference :: "nat \<Rightarrow> issued_op list \<Rightarrow> issued_op list \<Rightarrow> mismatch option" where
  "first_difference i (a # as) (b # bs) =
     (if a \<noteq> b then Some (IssueOrder i (show_issued a) (show_issued b))
      else first_difference (i + 1) as bs)"
| "first_difference i _ _ = None"

definition agrees_with :: "trace \<Rightarrow> trace \<Rightarrow> mismatch + unit" where
  "agrees_with s t =
     (if length (tr_issued s) \<noteq> length (tr_issued t)
      then Inl (OperationCount (length (tr_issued s)) (length (tr_issued t)))
      else case first_difference 0 (tr_issued s) (tr_issued t) of
        Some m \<Rightarrow> Inl m
      | None \<Rightarrow>
          if tr_completions s \<noteq> tr_completions t then Inl (CompletionCount (tr_completions s) (tr_completions t))
          else if tr_delivered_bytes s \<noteq> tr_delivered_bytes t
          then Inl (DeliveredBytes (tr_delivered_bytes s) (tr_delivered_bytes t))
          else if tr_digest s \<noteq> tr_digest t then Inl (Delivered (tr_digest s) (tr_digest t))
          else Inr ())"

definition show_u64_hex :: "u64 \<Rightarrow> string" where
  "show_u64_hex w = ''0x'' @ show_base 16 (unat w)"

fun mismatch_display :: "mismatch \<Rightarrow> string" where
  "mismatch_display (OperationCount left right) =
     ''issued '' @ show_base 10 left @ '' operations against '' @ show_base 10 right"
| "mismatch_display (IssueOrder index left right) =
     ''operation '' @ show_base 10 index @ '' was '' @ left @ '' against '' @ right"
| "mismatch_display (CompletionCount left right) =
     ''completed '' @ show_base 10 left @ '' operations against '' @ show_base 10 right"
| "mismatch_display (DeliveredBytes left right) =
     ''delivered '' @ show_unsigned left @ '' readable bytes against '' @ show_unsigned right"
| "mismatch_display (Delivered left right) =
     ''delivered digest '' @ show_u64_hex left @ '' against '' @ show_u64_hex right"

section \<open>The ledger\<close>

record ('s, 'd) reference =
  rf_scenario :: 's
  rf_depth :: 'd
  rf_backend :: string
  rf_trace :: trace

record ('s, 'd) fairness_failure =
  ff_scenario :: 's
  ff_depth :: 'd
  ff_reference :: string
  ff_backend :: string
  ff_mismatch :: mismatch

type_synonym ('s, 'd) ledger = "('s, 'd) reference list"

definition ledger_new :: "('s, 'd) ledger" where
  "ledger_new = []"

definition ledger_find :: "'s \<Rightarrow> 'd \<Rightarrow> ('s, 'd) ledger \<Rightarrow> ('s, 'd) reference option" where
  "ledger_find s d l = find (\<lambda>r. rf_scenario r = s \<and> rf_depth r = d) l"

definition ledger_observe ::
    "'s \<Rightarrow> 'd \<Rightarrow> string \<Rightarrow> trace \<Rightarrow> ('s, 'd) ledger \<Rightarrow> (('s, 'd) fairness_failure + unit) \<times> ('s, 'd) ledger" where
  "ledger_observe s d backend t l =
     (case ledger_find s d l of
        Some r \<Rightarrow>
          (map_sum (\<lambda>m. \<lparr>ff_scenario = s, ff_depth = d, ff_reference = rf_backend r, ff_backend = backend,
                         ff_mismatch = m\<rparr>) id (agrees_with (rf_trace r) t), l)
      | None \<Rightarrow> (Inr (), l @ [\<lparr>rf_scenario = s, rf_depth = d, rf_backend = backend, rf_trace = t\<rparr>]))"

definition ledger_reference :: "'s \<Rightarrow> 'd \<Rightarrow> ('s, 'd) ledger \<Rightarrow> string option" where
  "ledger_reference s d l = map_option rf_backend (ledger_find s d l)"

definition failure_display :: "('s \<Rightarrow> string) \<Rightarrow> ('d \<Rightarrow> string) \<Rightarrow> ('s, 'd) fairness_failure \<Rightarrow> string" where
  "failure_display show_s show_d f =
     ''at '' @ show_s (ff_scenario f) @ '' depth '' @ show_d (ff_depth f) @ '': '' @ ff_backend f @
     '' did not do the same work as '' @ ff_reference f @ '': '' @ mismatch_display (ff_mismatch f)"

section \<open>Agreement\<close>

lemma first_difference_None:
  "length as = length bs \<Longrightarrow> first_difference i as bs = None \<longleftrightarrow> as = bs"
  by (induction i as bs rule: first_difference.induct) auto

text \<open>Two traces agree exactly when every field is the same.\<close>

lemma first_difference_same [simp]: "first_difference i as as = None"
  by (simp add: first_difference_None)

lemma agrees_iff: "agrees_with s t = Inr () \<longleftrightarrow> s = t"
proof
  assume "agrees_with s t = Inr ()"
  then have "tr_issued s = tr_issued t" "tr_completions s = tr_completions t"
    "tr_delivered_bytes s = tr_delivered_bytes t" "tr_digest s = tr_digest t"
    by (auto simp: agrees_with_def first_difference_None split: option.splits if_splits)
  then show "s = t" by simp
qed (simp add: agrees_with_def)

text \<open>The deliveries of a run, in the order of their completions.\<close>

type_synonym delivery = "phase \<times> u64 \<times> u32 \<times> u8 list"

definition deliver :: "delivery \<Rightarrow> trace \<Rightarrow> trace" where
  "deliver = (\<lambda>(p, offset, transferred, bytes). trace_delivered p offset transferred bytes)"

lemma deliver_commute: "deliver x (deliver y t) = deliver y (deliver x t)"
  by (simp add: deliver_def trace_delivered_def split: prod.split)

lemma deliveries_any_order:
  assumes "mset ds = mset ds'"
  shows "fold deliver ds t = fold deliver ds' t"
  by (rule fold_permuted_eq [where P = "\<lambda>_. True"]) (use assms deliver_commute in auto)

lemma deliver_simps [simp]:
  "tr_issued (fold deliver ds t) = tr_issued t"
  "tr_completions (fold deliver ds t) = tr_completions t + length ds"
  by (induction ds arbitrary: t) (auto simp: deliver_def trace_delivered_def split: prod.splits)

section \<open>What a ledger promises\<close>

type_synonym ('s, 'd) observation = "'s \<times> 'd \<times> string \<times> trace"

definition observe_one :: "('s, 'd) observation \<Rightarrow> ('s, 'd) ledger \<Rightarrow> ('s, 'd) ledger" where
  "observe_one = (\<lambda>(s, d, backend, t) l. snd (ledger_observe s d backend t l))"

definition first_observation :: "'s \<Rightarrow> 'd \<Rightarrow> ('s, 'd) observation list \<Rightarrow> ('s, 'd) observation option" where
  "first_observation s d obs = find (\<lambda>(s', d', _). s' = s \<and> d' = d) obs"

lemma find_append: "find P (xs @ ys) = (case find P xs of Some x \<Rightarrow> Some x | None \<Rightarrow> find P ys)"
  by (induction xs) auto

lemma ledger_finds_first:
  "ledger_find s d (fold observe_one obs ledger_new) =
     map_option (\<lambda>(s', d', backend, t). \<lparr>rf_scenario = s', rf_depth = d', rf_backend = backend, rf_trace = t\<rparr>)
       (first_observation s d obs)"
proof (induction obs rule: rev_induct)
  case (snoc ob obs)
  obtain s' d' backend t where ob: "ob = (s', d', backend, t)" by (cases ob)
  show ?case
  proof (cases "first_observation s' d' obs")
    case None
    with snoc show ?thesis
      by (cases "s' = s \<and> d' = d")
        (auto simp: ob observe_one_def ledger_observe_def ledger_find_def first_observation_def find_append
          split: option.splits)
  next
    case (Some x)
    with snoc show ?thesis
      by (cases "s' = s \<and> d' = d")
        (auto simp: ob observe_one_def ledger_observe_def ledger_find_def first_observation_def find_append
          split: option.splits)
  qed
qed (simp add: ledger_new_def ledger_find_def first_observation_def)

text \<open>
  C30: A comparison is fair or it is refused. After any observations, a run is accepted exactly
  if it is the first of its scenario and depth or its trace is that of the first, in every
  field; a refusal names the two backends. Two runs that issue the same operations and deliver
  the same contents have the same trace, in whatever order their operations completed.
\<close>

theorem comparison_fair:
  "(case first_observation s d obs of
      None \<Rightarrow> ledger_observe s d backend t (fold observe_one obs ledger_new) =
        (Inr (), fold observe_one (obs @ [(s, d, backend, t)]) ledger_new) \<and>
        ledger_reference s d (fold observe_one (obs @ [(s, d, backend, t)]) ledger_new) = Some backend
    | Some (_, _, backend0, t0) \<Rightarrow>
        ledger_reference s d (fold observe_one obs ledger_new) = Some backend0 \<and>
        (case fst (ledger_observe s d backend t (fold observe_one obs ledger_new)) of
           Inr _ \<Rightarrow> t = t0
         | Inl f \<Rightarrow> t \<noteq> t0 \<and> ff_reference f = backend0 \<and> ff_backend f = backend)) \<and>
   (\<forall>ds ds' u. mset ds = mset ds' \<longrightarrow> agrees_with (fold deliver ds u) (fold deliver ds' u) = Inr ())"
proof (rule conjI)
  show "case first_observation s d obs of
      None \<Rightarrow> ledger_observe s d backend t (fold observe_one obs ledger_new) =
        (Inr (), fold observe_one (obs @ [(s, d, backend, t)]) ledger_new) \<and>
        ledger_reference s d (fold observe_one (obs @ [(s, d, backend, t)]) ledger_new) = Some backend
    | Some (_, _, backend0, t0) \<Rightarrow>
        ledger_reference s d (fold observe_one obs ledger_new) = Some backend0 \<and>
        (case fst (ledger_observe s d backend t (fold observe_one obs ledger_new)) of
           Inr _ \<Rightarrow> t = t0
         | Inl f \<Rightarrow> t \<noteq> t0 \<and> ff_reference f = backend0 \<and> ff_backend f = backend)"
  proof (cases "first_observation s d obs")
    case None
    moreover from None have "first_observation s d (obs @ [(s, d, backend, t)]) = Some (s, d, backend, t)"
      by (simp add: first_observation_def find_append)
    ultimately show ?thesis
      using ledger_finds_first [of s d obs] ledger_finds_first [of s d "obs @ [(s, d, backend, t)]"]
      by (simp add: ledger_reference_def) (simp add: ledger_observe_def observe_one_def)
  next
    case (Some x)
    obtain s' d' backend0 t0 where x: "x = (s', d', backend0, t0)" by (cases x)
    show ?thesis
      using Some ledger_finds_first [of s d obs] agrees_iff [of t0 t]
      by (cases "agrees_with t0 t") (auto simp: x ledger_reference_def ledger_observe_def)
  qed
  show "\<forall>ds ds' u. mset ds = mset ds' \<longrightarrow> agrees_with (fold deliver ds u) (fold deliver ds' u) = Inr ()"
    unfolding agrees_iff by (intro allI impI deliveries_any_order)
qed

theorem comparison_fair_witness:
  "fst (ledger_observe 0 1 ''b'' (trace_issued 0 512 trace_new)
      (fold observe_one [(0 :: nat, 1 :: nat, ''a'', trace_new)] ledger_new)) \<noteq> Inr () \<and>
   agrees_with (fold deliver [(PhaseRead, 0, 1, [7]), (PhaseRead, 8, 1, [9])] trace_new)
      (fold deliver [(PhaseRead, 8, 1, [9]), (PhaseRead, 0, 1, [7])] trace_new) = Inr ()"
proof -
  note fair = comparison_fair [where s = 0 and d = 1 and obs = "[(0 :: nat, 1 :: nat, ''a'', trace_new)]" and
    backend = "''b''" and t = "trace_issued 0 512 trace_new"]
  have "trace_issued 0 512 trace_new \<noteq> trace_new" by (simp add: trace_issued_def trace_new_def)
  then have "fst (ledger_observe 0 1 ''b'' (trace_issued 0 512 trace_new)
      (fold observe_one [(0 :: nat, 1 :: nat, ''a'', trace_new)] ledger_new)) \<noteq> Inr ()"
    using fair [THEN conjunct1] by (auto simp: first_observation_def)
  moreover have "agrees_with (fold deliver [(PhaseRead, 0, 1, [7]), (PhaseRead, 8, 1, [9])] trace_new)
      (fold deliver [(PhaseRead, 8, 1, [9]), (PhaseRead, 0, 1, [7])] trace_new) = Inr ()"
    by (rule fair [THEN conjunct2, rule_format]) simp
  ultimately show ?thesis by simp
qed

end
