(* ===== verification/Bench_Runner.thy ===== *)
theory Bench_Runner
  imports Complex_Main Bench_Trace
begin

text \<open>
  Keeping a bounded number of operations in flight (\<open>concurrency.rs\<close> of
  \<open>win-ioring-bench\<close>).

  The backend is an argument: \<open>make_op\<close> starts the n-th operation, \<open>next\<close> says which of the
  pending ones completes and with what, over a state of its own; nothing says in which order.
  Not returning (an operation that never completes) is \<open>None\<close>. A mean is an exact fraction
  here where the code divides in \<open>f64\<close>; the tolerance of the comparison is kept.
\<close>

section \<open>Input and output errors\<close>

datatype io_kind = WouldBlock | InvalidInput | Unsupported | OutOfMemory | UnexpectedEof | OtherKind

datatype io_error = IoError (io_kind: io_kind) (io_message: string)

section \<open>Shapes\<close>

datatype shape = Rolling | Batched

definition may_refill :: "shape \<Rightarrow> bool \<Rightarrow> bool" where
  "may_refill sh nothing_outstanding = (case sh of Rolling \<Rightarrow> True | Batched \<Rightarrow> nothing_outstanding)"

definition drain :: "nat \<Rightarrow> nat" where
  "drain d = d * (d + 1) div 2"

definition predicted_weight :: "shape \<Rightarrow> nat \<Rightarrow> nat \<Rightarrow> nat" where
  "predicted_weight sh todo n =
     (case sh of
        Rolling \<Rightarrow> if n \<le> todo then (todo - n) * n + drain n else drain todo
      | Batched \<Rightarrow> todo div n * drain n + drain (todo mod n))"

definition predicted_mean_depth :: "shape \<Rightarrow> nat \<Rightarrow> nat \<Rightarrow> rat" where
  "predicted_mean_depth sh todo configured =
     (if todo = 0 then 0 else of_nat (predicted_weight sh todo (max configured 1)) / of_nat todo)"

datatype shape_check = Matched rat rat | PoolBound rat rat | Mismatched rat rat

definition is_failure :: "shape_check \<Rightarrow> bool" where
  "is_failure c = (case c of Mismatched _ _ \<Rightarrow> True | _ \<Rightarrow> False)"

definition check_predicted :: "shape_check \<Rightarrow> rat" where
  "check_predicted c = (case c of Matched p _ \<Rightarrow> p | PoolBound p _ \<Rightarrow> p | Mismatched p _ \<Rightarrow> p)"

definition check_measured :: "shape_check \<Rightarrow> rat" where
  "check_measured c = (case c of Matched _ m \<Rightarrow> m | PoolBound _ m \<Rightarrow> m | Mismatched _ m \<Rightarrow> m)"

definition DEPTH_TOLERANCE :: rat where "DEPTH_TOLERANCE = 1 / 1000000000"

datatype shortfall = NoShortfall | ExpectedShortfall | UnexpectedShortfall

record achieved =
  ac_peak :: nat
  ac_mean :: rat
  ac_shortfall :: shortfall

section \<open>The runner\<close>

record runner =
  ru_configured :: nat
  ru_shape :: shape
  ru_peak :: nat
  ru_weighted :: nat
  ru_samples :: nat
  ru_starved :: bool
  ru_pool_bound :: bool

definition runner_new :: "nat \<Rightarrow> shape \<Rightarrow> runner" where
  "runner_new depth sh = \<lparr>ru_configured = max depth 1, ru_shape = sh, ru_peak = 0, ru_weighted = 0,
     ru_samples = 0, ru_starved = False, ru_pool_bound = False\<rparr>"

text \<open>What the runner uses of a backend.\<close>

record ('f, 'buf, 'b) backend =
  make_op :: "nat \<Rightarrow> 'b \<Rightarrow> (io_error + 'f) \<times> 'b"
  next_completion :: "'f list \<Rightarrow> 'b \<Rightarrow> (nat \<times> u64 \<times> (io_error + u32 \<times> 'buf) \<times> 'b) option"
  put_buffer :: "'buf \<Rightarrow> 'b \<Rightarrow> 'b"
  buffer_bytes :: "'buf \<Rightarrow> u8 list"

text \<open>The inner loop: issue until the window is full or nothing is left to issue.\<close>

function refill ::
    "('f, 'buf, 'b) backend \<Rightarrow> nat \<Rightarrow> nat \<Rightarrow> 'f list \<Rightarrow> runner \<Rightarrow> 'b
      \<Rightarrow> (io_error + nat \<times> 'f list) \<times> runner \<times> 'b" where
  "refill B todo issued pending r b =
     (if issued < todo \<and> length pending < ru_configured r then
        (case make_op B issued b of
           (Inr fut, b') \<Rightarrow> refill B todo (issued + 1) (pending @ [fut]) r b'
         | (Inl e, b') \<Rightarrow>
             if io_kind e = WouldBlock \<and> pending \<noteq> [] then (Inr (issued, pending), r\<lparr>ru_pool_bound := True\<rparr>, b')
             else (Inl e, r, b'))
      else (Inr (issued, pending), r, b))"
  by pat_completeness auto
termination by (relation "measure (\<lambda>(B, todo, issued, pending, r, b). todo - issued)") auto

declare refill.simps [simp del]

definition drop_nth :: "nat \<Rightarrow> 'a list \<Rightarrow> 'a list" where
  "drop_nth i xs = take i xs @ drop (i + 1) xs"

definition note_outstanding :: "nat \<Rightarrow> nat \<Rightarrow> nat \<Rightarrow> runner \<Rightarrow> runner" where
  "note_outstanding todo issued outstanding r =
     (let r1 = r\<lparr>ru_peak := max (ru_peak r) outstanding\<rparr>
      in if todo \<le> issued \<and> outstanding < ru_configured r then r1\<lparr>ru_starved := True\<rparr> else r1)"

definition note_completion :: "nat \<Rightarrow> runner \<Rightarrow> runner" where
  "note_completion outstanding r =
     r\<lparr>ru_weighted := ru_weighted r + outstanding, ru_samples := ru_samples r + 1\<rparr>"

partial_function (option) run_loop ::
    "('f, 'buf, 'b) backend \<Rightarrow> nat \<Rightarrow> phase \<Rightarrow> nat \<Rightarrow> 'f list \<Rightarrow> trace \<Rightarrow> runner \<Rightarrow> 'b
      \<Rightarrow> ((io_error + unit) \<times> trace \<times> runner \<times> 'b) option" where
  "run_loop B todo p issued pending t r b =
     (case (if may_refill (ru_shape r) (pending = []) then refill B todo issued pending r b
            else (Inr (issued, pending), r, b)) of
        (Inl e, r1, b1) \<Rightarrow> Some (Inl e, t, r1, b1)
      | (Inr (issued1, pending1), r1, b1) \<Rightarrow>
          (if pending1 = [] then Some (Inr (), t, r1, b1)
           else let outstanding = length pending1; r2 = note_outstanding todo issued1 outstanding r1 in
             case next_completion B pending1 b1 of
               None \<Rightarrow> None
             | Some (i, offset, outcome, b2) \<Rightarrow>
                 let r3 = note_completion outstanding r2 in
                 (case outcome of
                    Inl e \<Rightarrow> Some (Inl e, t, r3, b2)
                  | Inr (transferred, buffer) \<Rightarrow>
                      run_loop B todo p issued1 (drop_nth i pending1)
                        (trace_delivered p offset transferred (buffer_bytes B buffer) t) r3
                        (put_buffer B buffer b2))))"

definition runner_run ::
    "('f, 'buf, 'b) backend \<Rightarrow> nat \<Rightarrow> phase \<Rightarrow> trace \<Rightarrow> runner \<Rightarrow> 'b
      \<Rightarrow> ((io_error + unit) \<times> trace \<times> runner \<times> 'b) option" where
  "runner_run B todo p t r b = run_loop B todo p 0 [] t r b"

definition runner_mean :: "runner \<Rightarrow> rat" where
  "runner_mean r = (if ru_samples r = 0 then 0 else of_nat (ru_weighted r) / of_nat (ru_samples r))"

definition runner_achieved :: "nat \<Rightarrow> runner \<Rightarrow> achieved" where
  "runner_achieved operations r =
     \<lparr>ac_peak = ru_peak r, ac_mean = runner_mean r,
      ac_shortfall =
        (if ru_configured r \<le> ru_peak r then NoShortfall
         else if ru_starved r \<or> ru_pool_bound r \<or> operations < ru_configured r then ExpectedShortfall
         else UnexpectedShortfall)\<rparr>"

definition runner_shape_check :: "nat \<Rightarrow> runner \<Rightarrow> shape_check" where
  "runner_shape_check todo r =
     (let predicted = predicted_mean_depth (ru_shape r) todo (ru_configured r);
          measured = runner_mean r
      in if \<bar>measured - predicted\<bar> \<le> DEPTH_TOLERANCE then Matched predicted measured
         else if ru_pool_bound r then PoolBound predicted measured
         else Mismatched predicted measured)"

section \<open>The weight of what is left\<close>

lemma drain_Suc: "drain (Suc d) = Suc d + drain d"
  by (simp add: drain_def algebra_simps)

lemma drain_0 [simp]: "drain 0 = 0"
  by (simp add: drain_def)

text \<open>What a run adds from a point with \<open>rem\<close> operations unfinished, \<open>p\<close> of them pending.\<close>

definition weight_left :: "shape \<Rightarrow> nat \<Rightarrow> nat \<Rightarrow> nat \<Rightarrow> nat" where
  "weight_left sh n rem p =
     (case sh of Rolling \<Rightarrow> predicted_weight Rolling rem n
      | Batched \<Rightarrow> drain p + predicted_weight Batched (rem - p) n)"

definition refilled :: "shape \<Rightarrow> nat \<Rightarrow> nat \<Rightarrow> nat \<Rightarrow> nat" where
  "refilled sh n rem p = (if may_refill sh (p = 0) then min n rem else p)"

lemma rolling_step:
  assumes "0 < n" "0 < rem"
  shows "predicted_weight Rolling rem n = min n rem + predicted_weight Rolling (rem - 1) n"
proof (cases "n < rem")
  case True
  then have "(rem - n) * n = n + (rem - 1 - n) * n"
    by (metis Suc_diff_Suc diff_Suc_eq_diff_pred mult_Suc)
  moreover from True have "n \<le> rem - 1" by simp
  ultimately show ?thesis using True by (simp add: predicted_weight_def)
next
  case False
  with assms show ?thesis
    by (cases rem) (auto simp: predicted_weight_def drain_Suc)
qed

lemma batched_step:
  assumes "0 < n"
  shows "predicted_weight Batched rem n = drain (min n rem) + predicted_weight Batched (rem - min n rem) n"
proof (cases "n \<le> rem")
  case True
  with assms have "rem div n = Suc ((rem - n) div n)" "rem mod n = (rem - n) mod n"
    by (simp_all add: le_div_geq le_mod_geq)
  with True show ?thesis by (simp add: predicted_weight_def)
qed (simp add: predicted_weight_def)

lemma weight_left_step:
  assumes "0 < n" "p \<le> n" "p \<le> rem" "0 < rem"
  shows "weight_left sh n rem p =
    refilled sh n rem p + weight_left sh n (rem - 1) (refilled sh n rem p - 1)"
proof (cases sh)
  case Rolling
  with rolling_step assms show ?thesis by (simp add: weight_left_def refilled_def may_refill_def)
next
  case Batched
  show ?thesis
  proof (cases p)
    case 0
    obtain m where m: "min n rem = Suc m" using assms by (cases "min n rem") auto
    with Batched 0 batched_step [OF assms(1), of rem] show ?thesis
      by (simp add: weight_left_def refilled_def may_refill_def drain_Suc)
  next
    case (Suc q)
    with Batched assms show ?thesis
      by (simp add: weight_left_def refilled_def may_refill_def drain_Suc)
  qed
qed

section \<open>A backend that always makes progress\<close>

text \<open>
  Every operation starts and completes: the pool never runs dry, and the completion reported is
  of a pending operation.
\<close>

definition steady :: "('f, 'buf, 'b) backend \<Rightarrow> bool" where
  "steady B \<longleftrightarrow>
     (\<forall>i b. \<exists>f b'. make_op B i b = (Inr f, b')) \<and>
     (\<forall>pending b. pending \<noteq> [] \<longrightarrow>
        (\<exists>i offset n buf b'. next_completion B pending b = Some (i, offset, Inr (n, buf), b') \<and> i < length pending))"

lemma refill_steady:
  assumes "steady B" "issued \<le> todo" "length pending \<le> ru_configured r"
  shows "\<exists>issued' pending' b'. refill B todo issued pending r b = (Inr (issued', pending'), r, b') \<and>
    length pending' = min (ru_configured r) (todo - issued + length pending) \<and>
    issued' + length pending = issued + length pending' \<and> issued' \<le> todo"
  using assms(2,3)
proof (induction "todo - issued" arbitrary: issued pending b)
  case 0
  then show ?case by (simp add: refill.simps)
next
  case (Suc k)
  show ?case
  proof (cases "length pending < ru_configured r")
    case True
    obtain f b1 where f: "make_op B issued b = (Inr f, b1)"
      using assms(1) unfolding steady_def by blast
    have "\<exists>issued' pending' b'. refill B todo (issued + 1) (pending @ [f]) r b1 = (Inr (issued', pending'), r, b') \<and>
        length pending' = min (ru_configured r) (todo - (issued + 1) + length (pending @ [f])) \<and>
        issued' + length (pending @ [f]) = (issued + 1) + length pending' \<and> issued' \<le> todo"
      using Suc.hyps(2) Suc.prems True by (intro Suc.hyps(1)) auto
    moreover have "issued < todo" using Suc.hyps(2) by simp
    ultimately show ?thesis
      using True f by (subst refill.simps) auto
  next
    case False
    with Suc.prems Suc.hyps(2) show ?thesis by (subst refill.simps) auto
  qed
qed

lemma drop_nth_length: "i < length xs \<Longrightarrow> length (drop_nth i xs) = length xs - 1"
  by (simp add: drop_nth_def)

lemma drop_nth_mset: "i < length xs \<Longrightarrow> mset xs = add_mset (xs ! i) (mset (drop_nth i xs))"
  by (metis drop_nth_def Cons_nth_drop_Suc Suc_eq_plus1 append_take_drop_id mset.simps(2) mset_append union_mset_add_mset_right)

lemma drop_nth_map: "drop_nth i (map f xs) = map f (drop_nth i xs)"
  by (simp add: drop_nth_def take_map drop_map)

lemma set_drop_nth: "set (drop_nth i xs) \<subseteq> set xs"
  by (auto simp: drop_nth_def dest: in_set_takeD in_set_dropD)

lemma noted [simp]:
  "ru_shape (note_completion k (note_outstanding todo issued k' r)) = ru_shape r"
  "ru_configured (note_completion k (note_outstanding todo issued k' r)) = ru_configured r"
  "ru_pool_bound (note_completion k (note_outstanding todo issued k' r)) = ru_pool_bound r"
  "ru_weighted (note_completion k (note_outstanding todo issued k' r)) = ru_weighted r + k"
  "ru_samples (note_completion k (note_outstanding todo issued k' r)) = ru_samples r + 1"
  "ru_peak (note_completion k (note_outstanding todo issued k' r)) = max (ru_peak r) k'"
  by (simp_all add: note_completion_def note_outstanding_def Let_def)

text \<open>One turn of the loop.\<close>

lemma steady_turn:
  assumes "steady B" "issued \<le> todo" "length pending \<le> ru_configured r" "0 < ru_configured r"
    and "0 < todo - issued + length pending"
  shows "\<exists>issued' pending' t' r' b'.
    run_loop B todo p issued pending t r b = run_loop B todo p issued' pending' t' r' b' \<and>
    issued' \<le> todo \<and>
    todo - issued' + length pending' + 1 = todo - issued + length pending \<and>
    length pending' + 1 = refilled (ru_shape r) (ru_configured r) (todo - issued + length pending) (length pending) \<and>
    ru_weighted r' = ru_weighted r + (length pending' + 1) \<and> ru_samples r' = ru_samples r + 1 \<and>
    ru_peak r' = max (ru_peak r) (length pending' + 1) \<and>
    ru_shape r' = ru_shape r \<and> ru_configured r' = ru_configured r \<and> ru_pool_bound r' = ru_pool_bound r \<and>
    tr_completions t' = tr_completions t + 1 \<and> tr_issued t' = tr_issued t"
proof -
  let ?refill = "may_refill (ru_shape r) (pending = [])"
  obtain issued1 pending1 b1 where fill:
    "(if ?refill then refill B todo issued pending r b else (Inr (issued, pending), r, b))
       = (Inr (issued1, pending1), r, b1)"
    and len: "length pending1 = refilled (ru_shape r) (ru_configured r) (todo - issued + length pending) (length pending)"
    and iss: "issued1 + length pending = issued + length pending1" "issued1 \<le> todo"
  proof (cases ?refill)
    case True
    with refill_steady [OF assms(1-3), of b] that show thesis by (auto simp: refilled_def)
  next
    case False
    with that assms(2) show thesis by (simp add: refilled_def)
  qed
  have ne: "pending1 \<noteq> []"
  proof (cases ?refill)
    case True
    have "0 < min (ru_configured r) (todo - issued + length pending)" by (rule min_less_iff_conj [THEN iffD2, OF conjI [OF assms(4,5)]])
    also from True have "min (ru_configured r) (todo - issued + length pending) = length pending1"
      by (simp add: len refilled_def)
    finally show ?thesis by simp
  next
    case False
    with fill show ?thesis by (auto simp: may_refill_def split: shape.splits)
  qed
  obtain i offset n buf b2 where nx: "next_completion B pending1 b1 = Some (i, offset, Inr (n, buf), b2)"
    "i < length pending1"
    using assms(1) ne unfolding steady_def by blast
  let ?r = "note_completion (length pending1) (note_outstanding todo issued1 (length pending1) r)"
  let ?pending = "drop_nth i pending1" and ?t = "trace_delivered p offset n (buffer_bytes B buf) t"
  have turn: "run_loop B todo p issued pending t r b =
      run_loop B todo p issued1 ?pending ?t ?r (put_buffer B buf b2)"
    by (subst run_loop.simps) (simp add: fill ne nx Let_def)
  have one: "length ?pending + 1 = length pending1"
    using drop_nth_length [OF nx(2)] nx(2) by simp
  have "tr_completions ?t = tr_completions t + 1" "tr_issued ?t = tr_issued t"
    by (simp_all add: trace_delivered_def)
  moreover have "todo - issued1 + length ?pending + 1 = todo - issued + length pending"
    using one iss assms(2) by arith
  ultimately show ?thesis
    using turn one len iss(2) by (intro exI [of _ issued1] exI [of _ ?pending] exI [of _ ?t] exI [of _ ?r]
        exI [of _ "put_buffer B buf b2"]) simp
qed

lemma refilled_bounds:
  "\<lbrakk>p \<le> n; p \<le> rem\<rbrakk> \<Longrightarrow> refilled sh n rem p \<le> min n rem"
  by (auto simp: refilled_def)

text \<open>A whole run, from any point of it.\<close>

lemma steady_run:
  assumes "steady B" "issued \<le> todo" "length pending \<le> ru_configured r" "0 < ru_configured r"
  shows "\<exists>t' r' b'. run_loop B todo p issued pending t r b = Some (Inr (), t', r', b') \<and>
    ru_weighted r' = ru_weighted r +
      weight_left (ru_shape r) (ru_configured r) (todo - issued + length pending) (length pending) \<and>
    ru_samples r' = ru_samples r + (todo - issued + length pending) \<and>
    max (ru_peak r) (refilled (ru_shape r) (ru_configured r) (todo - issued + length pending) (length pending)) \<le> ru_peak r' \<and>
    ru_peak r' \<le> max (ru_peak r) (min (ru_configured r) (todo - issued + length pending)) \<and>
    ru_shape r' = ru_shape r \<and> ru_configured r' = ru_configured r \<and> ru_pool_bound r' = ru_pool_bound r \<and>
    tr_completions t' = tr_completions t + (todo - issued + length pending) \<and> tr_issued t' = tr_issued t"
  using assms(2-4)
proof (induction "todo - issued + length pending" arbitrary: issued pending t r b)
  case 0
  then have "length pending = 0" "issued = todo" by linarith+
  then show ?case
    by (subst run_loop.simps) (auto simp: refill.simps weight_left_def predicted_weight_def refilled_def
        may_refill_def split: shape.split)
next
  case (Suc k)
  note todo_left = Suc.hyps(2) [symmetric]
  obtain issued' pending' t' r' b' where turn:
    "run_loop B todo p issued pending t r b = run_loop B todo p issued' pending' t' r' b'"
    "issued' \<le> todo" "todo - issued' + length pending' = k"
    and len: "length pending' + 1 = refilled (ru_shape r) (ru_configured r) (Suc k) (length pending)"
    and r': "ru_weighted r' = ru_weighted r + (length pending' + 1)" "ru_samples r' = ru_samples r + 1"
      "ru_peak r' = max (ru_peak r) (length pending' + 1)"
      "ru_shape r' = ru_shape r" "ru_configured r' = ru_configured r" "ru_pool_bound r' = ru_pool_bound r"
    and t': "tr_completions t' = tr_completions t + 1" "tr_issued t' = tr_issued t"
    using steady_turn [OF assms(1) Suc.prems, of p t b] unfolding todo_left by auto
  have "refilled (ru_shape r) (ru_configured r) (Suc k) (length pending) \<le> min (ru_configured r) (Suc k)"
    using refilled_bounds Suc.prems(2) todo_left by (metis le_add2)
  then have bound: "length pending' + 1 \<le> min (ru_configured r) (Suc k)" by (simp add: len [symmetric])
  have weight: "weight_left (ru_shape r) (ru_configured r) (Suc k) (length pending) =
      (length pending' + 1) + weight_left (ru_shape r) (ru_configured r) k (length pending')"
  proof -
    have "length pending \<le> Suc k" using todo_left by linarith
    from weight_left_step [OF Suc.prems(3,2) this, of "ru_shape r"] len [symmetric] show ?thesis by simp
  qed
  obtain t'' r'' b'' where run: "run_loop B todo p issued' pending' t' r' b' = Some (Inr (), t'', r'', b'')"
    "ru_weighted r'' = ru_weighted r' + weight_left (ru_shape r') (ru_configured r') k (length pending')"
    "ru_samples r'' = ru_samples r' + k"
    "max (ru_peak r') (refilled (ru_shape r') (ru_configured r') k (length pending')) \<le> ru_peak r''"
    "ru_peak r'' \<le> max (ru_peak r') (min (ru_configured r') k)"
    "ru_shape r'' = ru_shape r'" "ru_configured r'' = ru_configured r'" "ru_pool_bound r'' = ru_pool_bound r'"
    "tr_completions t'' = tr_completions t' + k" "tr_issued t'' = tr_issued t'"
    using Suc.hyps(1) [OF turn(3) [symmetric] turn(2), of r' t' b'] bound Suc.prems(3) r'(5)
    unfolding turn(3) by auto
  have "max (ru_peak r) (length pending' + 1) \<le> ru_peak r''" using run(4) r'(3) by simp
  moreover have "ru_peak r'' \<le> max (ru_peak r) (min (ru_configured r) (Suc k))"
    using run(5) r'(3,5) bound by (auto simp: max_def min_def split: if_splits)
  ultimately show ?case
    unfolding todo_left turn(1) run(1) using run r' t' weight len by simp
qed

text \<open>The window is never exceeded, whatever the backend does.\<close>

lemma refill_window:
  assumes "refill B todo issued pending r b = (res, r', b')" "length pending \<le> ru_configured r"
  shows "ru_configured r' = ru_configured r \<and> ru_shape r' = ru_shape r \<and> ru_peak r' = ru_peak r \<and>
    (\<forall>issued' pending'. res = Inr (issued', pending') \<longrightarrow> length pending' \<le> ru_configured r)"
  using assms
proof (induction B todo issued pending r b rule: refill.induct)
  case (1 B todo issued pending r b)
  obtain x b1 where m: "make_op B issued b = (x, b1)" by (cases "make_op B issued b")
  show ?case
  proof (cases "issued < todo \<and> length pending < ru_configured r")
    case True
    show ?thesis
    proof (cases x)
      case (Inl e)
      with True m 1(2,3) show ?thesis by (subst (asm) refill.simps) (auto split: if_splits)
    next
      case (Inr f)
      with True m 1(2) have "refill B todo (issued + 1) (pending @ [f]) r b1 = (res, r', b')"
        by (subst (asm) refill.simps) simp
      from 1(1) [OF True m [symmetric] Inr this] True show ?thesis by simp
    qed
  next
    case False
    with 1(2,3) show ?thesis by (subst (asm) refill.simps) (auto split: if_splits)
  qed
qed

text \<open>
  An invariant of the loop: what holds between its turns and every completed operation keeps. It
  still holds before the turn that ended the loop.
\<close>

definition fill_phase ::
    "('f, 'buf, 'b) backend \<Rightarrow> nat \<Rightarrow> nat \<Rightarrow> 'f list \<Rightarrow> runner \<Rightarrow> 'b \<Rightarrow> (io_error + nat \<times> 'f list) \<times> runner \<times> 'b" where
  "fill_phase B todo issued pending r b =
     (if may_refill (ru_shape r) (pending = []) then refill B todo issued pending r b
      else (Inr (issued, pending), r, b))"

definition turn_ends ::
    "('f, 'buf, 'b) backend \<Rightarrow> nat \<Rightarrow> nat \<Rightarrow> 'f list \<Rightarrow> runner \<Rightarrow> 'b \<Rightarrow> io_error + unit \<Rightarrow> runner \<Rightarrow> 'b \<Rightarrow> bool" where
  "turn_ends B todo issued pending r b res r' b' \<longleftrightarrow>
     (case fill_phase B todo issued pending r b of
        (Inl e, r1, b1) \<Rightarrow> res = Inl e \<and> r' = r1 \<and> b' = b1
      | (Inr (issued1, pending1), r1, b1) \<Rightarrow>
          if pending1 = [] then res = Inr () \<and> r' = r1 \<and> b' = b1
          else \<exists>i offset e. next_completion B pending1 b1 = Some (i, offset, Inl e, b') \<and> res = Inl e \<and>
            r' = note_completion (length pending1) (note_outstanding todo issued1 (length pending1) r1))"

lemma run_loop_invariant [consumes 2, case_names turn]:
  fixes B :: "('f, 'buf, 'b) backend"
  assumes run: "run_loop B todo p issued pending t r b = Some (res, t', r', b')"
    and start: "I issued pending t r b"
    and turn: "\<And>issued pending t r b issued1 pending1 r1 b1 i offset n buf b2. \<lbrakk>I issued pending t r b;
      fill_phase B todo issued pending r b = (Inr (issued1, pending1), r1, b1);
      pending1 \<noteq> []; next_completion B pending1 b1 = Some (i, offset, Inr (n, buf), b2)\<rbrakk> \<Longrightarrow>
      I issued1 (drop_nth i pending1) (trace_delivered p offset n (buffer_bytes B buf) t)
        (note_completion (length pending1) (note_outstanding todo issued1 (length pending1) r1))
        (put_buffer B buf b2)"
  shows "\<exists>issued pending r b. I issued pending t' r b \<and> turn_ends B todo issued pending r b res r' b'"
proof -
  define Q where "Q = (\<lambda>(B' :: ('f, 'buf, 'b) backend) todo' (p' :: phase) issued (pending :: 'f list) (t :: trace) (r :: runner) (b :: 'b)
      (out :: (io_error + unit) \<times> trace \<times> runner \<times> 'b).
    B' = B \<longrightarrow> todo' = todo \<longrightarrow> p' = p \<longrightarrow> I issued pending t r b \<longrightarrow>
    (case out of (res, t', r', b') \<Rightarrow>
      \<exists>issued pending r b. I issued pending t' r b \<and> turn_ends B todo issued pending r b res r' b'))"
  have "Q B todo p issued pending t r b (res, t', r', b')"
  proof (rule run_loop.raw_induct [OF _ run, folded fill_phase_def])
    fix rec :: "('f, 'buf, 'b) backend \<Rightarrow> nat \<Rightarrow> phase \<Rightarrow> nat \<Rightarrow> 'f list \<Rightarrow> trace \<Rightarrow> runner \<Rightarrow> 'b
      \<Rightarrow> ((io_error + unit) \<times> trace \<times> runner \<times> 'b) option"
      and B' todo' p' issued pending t r b out
    assume IH: "\<And>B todo p issued pending t r b out. rec B todo p issued pending t r b = Some out \<Longrightarrow>
        Q B todo p issued pending t r b out"
      and step: "(case fill_phase B' todo' issued pending r b of
        (Inl e, r1, b1) \<Rightarrow> Some (Inl e, t, r1, b1)
      | (Inr (issued1, pending1), r1, b1) \<Rightarrow>
          (if pending1 = [] then Some (Inr (), t, r1, b1)
           else let outstanding = length pending1; r2 = note_outstanding todo' issued1 outstanding r1 in
             case next_completion B' pending1 b1 of
               None \<Rightarrow> None
             | Some (i, offset, outcome, b2) \<Rightarrow>
                 let r3 = note_completion outstanding r2 in
                 (case outcome of
                    Inl e \<Rightarrow> Some (Inl e, t, r3, b2)
                  | Inr (transferred, buffer) \<Rightarrow>
                      rec B' todo' p' issued1 (drop_nth i pending1)
                        (trace_delivered p' offset transferred (buffer_bytes B' buffer) t) r3
                        (put_buffer B' buffer b2)))) = Some out"
    show "Q B' todo' p' issued pending t r b out"
      unfolding Q_def
    proof (intro impI)
      assume eqs: "B' = B" "todo' = todo" "p' = p" and I: "I issued pending t r b"
      obtain x r1 b1 where fill: "fill_phase B todo issued pending r b = (x, r1, b1)"
        by (cases "fill_phase B todo issued pending r b")
      show "case out of (res, t', r', b') \<Rightarrow>
          \<exists>issued pending r b. I issued pending t' r b \<and> turn_ends B todo issued pending r b res r' b'"
      proof (cases "\<exists>issued1 pending1 i offset n buf b2. x = Inr (issued1, pending1) \<and> pending1 \<noteq> [] \<and>
          next_completion B pending1 b1 = Some (i, offset, Inr (n, buf), b2)")
        case True
        then obtain issued1 pending1 i offset n buf b2 where t: "x = Inr (issued1, pending1)" "pending1 \<noteq> []"
          "next_completion B pending1 b1 = Some (i, offset, Inr (n, buf), b2)" by blast
        from step have "rec B todo p issued1 (drop_nth i pending1) (trace_delivered p offset n (buffer_bytes B buf) t)
            (note_completion (length pending1) (note_outstanding todo issued1 (length pending1) r1)) (put_buffer B buf b2) = Some out"
          unfolding eqs fill t(1) by (simp add: t(2,3) Let_def)
        from IH [OF this] turn [OF I fill [unfolded t(1)] t(2,3)] show ?thesis unfolding Q_def by blast
      next
        case False
        with step have "case out of (res, t', r', b') \<Rightarrow> t' = t \<and> turn_ends B todo issued pending r b res r' b'"
          unfolding eqs turn_ends_def fill by (auto simp: Let_def split: sum.splits prod.splits if_splits option.splits)
        then show ?thesis using I by (cases out) blast
      qed
    qed
  qed
  then show ?thesis using start by (simp add: Q_def)
qed

lemma fill_window:
  assumes "fill_phase B todo issued pending r b = (x, r1, b1)" "length pending \<le> ru_configured r"
  shows "ru_configured r1 = ru_configured r \<and> ru_shape r1 = ru_shape r \<and> ru_peak r1 = ru_peak r \<and>
    (\<forall>issued' pending'. x = Inr (issued', pending') \<longrightarrow> length pending' \<le> ru_configured r)"
  using assms refill_window [of B todo issued pending r b x r1 b1] by (auto simp: fill_phase_def split: if_splits)

lemma run_window:
  fixes B :: "('f, 'buf, 'b) backend"
  assumes "run_loop B todo p issued pending t r b = Some (res, t', r', b')"
    and "length pending \<le> ru_configured r" "ru_peak r \<le> ru_configured r"
  shows "ru_configured r' = ru_configured r \<and> ru_shape r' = ru_shape r \<and> ru_peak r' \<le> ru_configured r"
proof -
  let ?I = "\<lambda>issued pending (t :: trace) r1 (b :: 'b). length pending \<le> ru_configured r \<and> ru_peak r1 \<le> ru_configured r \<and>
    ru_configured r1 = ru_configured r \<and> ru_shape r1 = ru_shape r"
  have start: "?I issued pending t r b" using assms(2,3) by simp
  have "\<exists>issued pending r1 b. ?I issued pending t' r1 b \<and> turn_ends B todo issued pending r1 b res r' b'"
    using assms(1) start
  proof (rule run_loop_invariant)
    fix issued pending t r1 b issued1 pending1 r2 b1 i offset n buf b2
    assume "?I issued pending t r1 b" "fill_phase B todo issued pending r1 b = (Inr (issued1, pending1), r2, b1)"
    then show "?I issued1 (drop_nth i pending1) (trace_delivered p offset n (buffer_bytes B buf) t)
        (note_completion (length pending1) (note_outstanding todo issued1 (length pending1) r2)) (put_buffer B buf b2)"
      using fill_window by (fastforce simp: drop_nth_def)
  qed
  then obtain issued1 pending1 r1 b1 where i: "?I issued1 pending1 t' r1 b1"
    and ends: "turn_ends B todo issued1 pending1 r1 b1 res r' b'" by blast
  obtain x r2 b2 where fill: "fill_phase B todo issued1 pending1 r1 b1 = (x, r2, b2)"
    by (cases "fill_phase B todo issued1 pending1 r1 b1")
  show ?thesis using i ends fill_window [OF fill] unfolding turn_ends_def fill
    by (auto split: sum.splits if_splits)
qed

section \<open>The two shapes are told apart\<close>

lemma batched_Suc:
  assumes "0 < n"
  shows "predicted_weight Batched (Suc k) n = Suc (k mod n) + predicted_weight Batched k n"
proof (cases "Suc (k mod n) = n")
  case True
  then have "Suc k mod n = 0" "Suc k div n = Suc (k div n)"
    by (simp_all add: mod_Suc div_Suc)
  moreover have "drain n = n + drain (k mod n)" using drain_Suc [of "k mod n"] True by simp
  ultimately show ?thesis using True by (simp add: predicted_weight_def)
next
  case False
  then have "Suc k mod n = Suc (k mod n)" "Suc k div n = k div n"
    using assms by (simp_all add: mod_Suc div_Suc)
  then show ?thesis by (simp add: predicted_weight_def drain_Suc)
qed

lemma batched_below_rolling:
  assumes "0 < n"
  shows "predicted_weight Batched k n \<le> predicted_weight Rolling k n \<and>
    (2 \<le> n \<longrightarrow> n < k \<longrightarrow> predicted_weight Batched k n < predicted_weight Rolling k n)"
proof (induction k)
  case (Suc k)
  have r: "predicted_weight Rolling (Suc k) n = min n (Suc k) + predicted_weight Rolling k n"
    using rolling_step [OF assms, of "Suc k"] by simp
  have "Suc (k mod n) \<le> min n (Suc k)" using assms by (simp add: Suc_leI)
  moreover have "Suc (k mod n) < min n (Suc k)" if "2 \<le> n" "k = n"
    using that by simp
  ultimately show ?case
    using Suc r batched_Suc [OF assms, of k] by (cases "n < k"; cases "k = n") auto
qed (simp add: predicted_weight_def)

definition other_shape :: "shape \<Rightarrow> shape" where
  "other_shape sh = (case sh of Rolling \<Rightarrow> Batched | Batched \<Rightarrow> Rolling)"

lemma shapes_apart:
  assumes "2 \<le> depth" "depth < todo" "todo < 1000000000"
  shows "DEPTH_TOLERANCE < \<bar>predicted_mean_depth sh todo depth - predicted_mean_depth (other_shape sh) todo depth\<bar>"
proof -
  let ?b = "predicted_weight Batched todo depth" and ?r = "predicted_weight Rolling todo depth"
  have m: "max depth 1 = depth" and pos: "0 < todo" using assms by simp_all
  have "?b < ?r" using batched_below_rolling [of depth todo] assms by simp
  then have "(1 :: rat) \<le> of_nat ?r - of_nat ?b"
    by (metis Suc_leI diff_ge_0_iff_ge le_diff_eq of_nat_Suc of_nat_le_iff add.commute)
  then have "1 / of_nat todo \<le> (of_nat ?r - of_nat ?b) / (of_nat todo :: rat)"
    by (rule divide_right_mono) simp
  moreover have "DEPTH_TOLERANCE < 1 / of_nat todo"
    unfolding DEPTH_TOLERANCE_def using assms(3) pos by (simp add: frac_less2)
  moreover have "\<bar>predicted_mean_depth sh todo depth - predicted_mean_depth (other_shape sh) todo depth\<bar>
      = (of_nat ?r - of_nat ?b) / of_nat todo"
  proof -
    have "predicted_mean_depth x todo depth = of_nat (predicted_weight x todo depth) / of_nat todo" for x
      unfolding predicted_mean_depth_def m using pos by simp
    moreover have "\<bar>of_nat ?r / of_nat todo - of_nat ?b / of_nat todo :: rat\<bar> = (of_nat ?r - of_nat ?b) / of_nat todo"
      using \<open>?b < ?r\<close> by (simp add: diff_divide_distrib [symmetric])
    ultimately show ?thesis
      by (cases sh) (simp_all add: other_shape_def abs_minus_commute)
  qed
  ultimately show ?thesis by linarith
qed

lemma steady_run_new:
  assumes "steady B"
  shows "\<exists>t' r' b'. runner_run B todo p t (runner_new depth sh) b = Some (Inr (), t', r', b') \<and>
      ru_samples r' = todo \<and> ru_weighted r' = predicted_weight sh todo (max depth 1) \<and>
      tr_completions t' = tr_completions t + todo \<and> tr_issued t' = tr_issued t \<and>
      runner_achieved todo r' = \<lparr>ac_peak = min (max depth 1) todo, ac_mean = predicted_mean_depth sh todo depth,
        ac_shortfall = if max depth 1 \<le> todo then NoShortfall else ExpectedShortfall\<rparr> \<and>
      runner_shape_check todo r' = Matched (predicted_mean_depth sh todo depth) (predicted_mean_depth sh todo depth) \<and>
      (2 \<le> depth \<longrightarrow> depth < todo \<longrightarrow> todo < 1000000000 \<longrightarrow>
        is_failure (runner_shape_check todo (r'\<lparr>ru_shape := other_shape sh\<rparr>)))"
proof -
  let ?r = "runner_new depth sh"
  have new: "ru_configured ?r = max depth 1" "ru_shape ?r = sh" "ru_peak ?r = 0" "ru_weighted ?r = 0"
    "ru_samples ?r = 0" "\<not> ru_pool_bound ?r"
    by (simp_all add: runner_new_def)
  have pos: "0 < ru_configured ?r" by (simp add: new)
  obtain t' r' b' where run: "runner_run B todo p t ?r b = Some (Inr (), t', r', b')"
    "ru_weighted r' = weight_left sh (max depth 1) todo 0" "ru_samples r' = todo"
    "refilled sh (max depth 1) todo 0 \<le> ru_peak r'" "ru_peak r' \<le> min (max depth 1) todo"
    "ru_shape r' = sh" "ru_configured r' = max depth 1" "\<not> ru_pool_bound r'"
    "tr_completions t' = tr_completions t + todo" "tr_issued t' = tr_issued t"
    using steady_run [OF assms, of 0 todo "[]" ?r p t b] pos new by (auto simp: runner_run_def)
  have weight: "ru_weighted r' = predicted_weight sh todo (max depth 1)"
    by (cases sh) (simp_all add: run(2) weight_left_def)
  have peak: "ru_peak r' = min (max depth 1) todo"
  proof (rule antisym [OF run(5)])
    have "refilled sh (max depth 1) todo 0 = min (max depth 1) todo"
      by (cases sh) (simp_all add: refilled_def may_refill_def)
    then show "min (max depth 1) todo \<le> ru_peak r'" using run(4) by simp
  qed
  have mean: "runner_mean r' = predicted_mean_depth sh todo depth"
    by (simp add: runner_mean_def predicted_mean_depth_def run(3) weight)
  have same: "predicted_mean_depth x todo (max depth 1) = predicted_mean_depth x todo depth" for x
    by (simp add: predicted_mean_depth_def)
  have matched: "runner_shape_check todo r' = Matched (predicted_mean_depth sh todo depth) (predicted_mean_depth sh todo depth)"
    unfolding runner_shape_check_def run(6,7) mean same by (simp add: DEPTH_TOLERANCE_def Let_def)
  have achieved: "runner_achieved todo r' = \<lparr>ac_peak = min (max depth 1) todo, ac_mean = predicted_mean_depth sh todo depth,
      ac_shortfall = if max depth 1 \<le> todo then NoShortfall else ExpectedShortfall\<rparr>"
    unfolding runner_achieved_def peak run(7) mean by (cases "max depth 1 \<le> todo") (simp_all add: not_le del: One_nat_def max.bounded_iff)
  have caught: "is_failure (runner_shape_check todo (r'\<lparr>ru_shape := other_shape sh\<rparr>))"
    if "2 \<le> depth" "depth < todo" "todo < 1000000000"
  proof -
    have "runner_mean (r'\<lparr>ru_shape := other_shape sh\<rparr>) = predicted_mean_depth sh todo depth"
      by (simp add: mean [symmetric] runner_mean_def)
    then show ?thesis
      unfolding runner_shape_check_def using shapes_apart [OF that, of sh] run(7,8)
      by (simp add: Let_def is_failure_def same del: One_nat_def)
  qed
  show ?thesis
    using run(1,3,9,10) weight matched caught achieved by (intro exI [of _ t'] exI [of _ r'] exI [of _ b']) simp
qed

lemma window_new:
  assumes "runner_run B todo p t (runner_new depth sh) b = Some (res, t', r', b')"
  shows "ru_peak r' \<le> max depth 1"
  using run_window [of _ _ p 0 "[]" t "runner_new depth sh" b] assms by (fastforce simp: runner_run_def runner_new_def)

text \<open>
  C31: A run sustains exactly the depth its shape predicts, and a run of the other shape is
  caught. With a backend that starts and completes every operation, in any order, the runner
  returns; it has awaited each operation once, its samples add up to the closed form, its peak
  is the depth or the number of operations, and the check reports a match. If the shape it
  declares is not the one it drove, and there were more operations than the depth, at least two
  at a time, the check reports the mismatch. Whatever the backend does, a run that returns
  never had more than the configured number outstanding.
\<close>

theorem runner_drives_its_shape:
  assumes "steady B"
  shows "(\<exists>t' r' b'. runner_run B todo p t (runner_new depth sh) b = Some (Inr (), t', r', b') \<and>
      ru_samples r' = todo \<and> ru_weighted r' = predicted_weight sh todo (max depth 1) \<and>
      tr_completions t' = tr_completions t + todo \<and> tr_issued t' = tr_issued t \<and>
      runner_achieved todo r' = \<lparr>ac_peak = min (max depth 1) todo, ac_mean = predicted_mean_depth sh todo depth,
        ac_shortfall = if max depth 1 \<le> todo then NoShortfall else ExpectedShortfall\<rparr> \<and>
      runner_shape_check todo r' = Matched (predicted_mean_depth sh todo depth) (predicted_mean_depth sh todo depth) \<and>
      (2 \<le> depth \<longrightarrow> depth < todo \<longrightarrow> todo < 1000000000 \<longrightarrow>
        is_failure (runner_shape_check todo (r'\<lparr>ru_shape := other_shape sh\<rparr>)))) \<and>
    (\<forall>C m res t' r' b'. runner_run (C :: ('f, 'buf, 'b) backend) m p t (runner_new depth sh) b = Some (res, t', r', b') \<longrightarrow>
      ru_peak r' \<le> max depth 1)"
  by (intro conjI allI impI steady_run_new [OF assms] window_new)

definition sample_backend :: "(nat, unit, unit) backend" where
  "sample_backend = \<lparr>make_op = \<lambda>i b. (Inr i, b), next_completion = \<lambda>pending b. Some (0, 0, Inr (1, ()), b),
     put_buffer = \<lambda>_ b. b, buffer_bytes = \<lambda>_. [7]\<rparr>"

theorem runner_drives_its_shape_witness:
  "\<exists>t' r'. runner_run sample_backend 5 PhaseRead trace_new (runner_new 2 Batched) () = Some (Inr (), t', r', ()) \<and>
     tr_completions t' = 5 \<and> ru_weighted r' = 7 \<and> is_failure (runner_shape_check 5 (r'\<lparr>ru_shape := Rolling\<rparr>))"
proof -
  have "steady sample_backend" by (auto simp: steady_def sample_backend_def)
  from runner_drives_its_shape [OF this, of 5 PhaseRead trace_new 2 Batched "()", THEN conjunct1]
  obtain t' r' b' where run: "runner_run sample_backend 5 PhaseRead trace_new (runner_new 2 Batched) () = Some (Inr (), t', r', b')"
    "ru_weighted r' = predicted_weight Batched 5 (max 2 1)" "tr_completions t' = tr_completions trace_new + 5"
    "is_failure (runner_shape_check 5 (r'\<lparr>ru_shape := other_shape Batched\<rparr>))"
    by auto
  have "predicted_weight Batched 5 (max 2 1) = 7" by code_simp
  with run show ?thesis by (simp add: trace_new_def other_shape_def)
qed

end
