(* ===== verification/Bench_Align.thy ===== *)
theory Bench_Align
  imports Buf Errors Bench_Runner
begin

text \<open>
  Alignment for unbuffered reads (\<open>align.rs\<close> and \<open>aligned.rs\<close> of \<open>win-ioring-bench\<close>).

  What the host answered about a volume, the granularity derived from it, and the buffer whose
  base satisfies it. The system's answers and the allocator are arguments. An aligned buffer is
  a buffer in the sense of the library's traits: the locale \<open>io_buf\<close> is interpreted on it.
\<close>

section \<open>Powers of two\<close>

definition count_ones :: "'a::len word \<Rightarrow> nat" where
  "count_ones w = length (filter (bit w) [0..<LENGTH('a)])"

definition is_power_of_two :: "'a::len word \<Rightarrow> bool" where
  "is_power_of_two w \<longleftrightarrow> count_ones w = 1"

lemma power_of_two_iff: "is_power_of_two w \<longleftrightarrow> (\<exists>k < LENGTH('a). w = 2 ^ k)" for w :: "'a::len word"
proof
  assume "is_power_of_two w"
  then obtain k where k: "filter (bit w) [0..<LENGTH('a)] = [k]"
    by (auto simp: is_power_of_two_def count_ones_def length_Suc_conv)
  then have "set (filter (bit w) [0..<LENGTH('a)]) = {k}" by simp
  then have "k < LENGTH('a)" "\<And>i. i < LENGTH('a) \<Longrightarrow> bit w i \<longleftrightarrow> i = k" by auto
  then have "w = 2 ^ k" by (intro bit_word_eqI) (auto simp: bit_simps)
  with \<open>k < LENGTH('a)\<close> show "\<exists>k < LENGTH('a). w = 2 ^ k" by blast
next
  assume "\<exists>k < LENGTH('a). w = 2 ^ k"
  then obtain k where k: "k < LENGTH('a)" "w = 2 ^ k" by blast
  have "filter (bit w) [0..<LENGTH('a)] = filter ((=) k) [0..<LENGTH('a)]"
    by (rule filter_cong) (auto simp: k bit_simps)
  moreover have "length (filter ((=) k) [0..<n]) = (if k < n then 1 else 0)" for n
    by (induction n) auto
  ultimately show "is_power_of_two w" using k(1) by (simp add: is_power_of_two_def count_ones_def)
qed

lemma unat_two_power:
  assumes "k < LENGTH('a)"
  shows "unat (2 ^ k :: 'a::len word) = 2 ^ k"
proof -
  have "unat (of_nat (2 ^ k) :: 'a word) = 2 ^ k mod 2 ^ LENGTH('a)" by (simp only: unat_of_nat)
  then show ?thesis using assms by simp
qed

lemma power_of_two_unat:
  fixes w :: "'a::len word"
  assumes "is_power_of_two w"
  shows "\<exists>k. unat w = 2 ^ k"
proof -
  from assms obtain k where "k < LENGTH('a)" "w = 2 ^ k" by (auto simp: power_of_two_iff)
  then show ?thesis using unat_two_power by blast
qed

text \<open>\<open>checked_next_multiple_of\<close> of the standard library.\<close>

definition checked_next_multiple_of :: "usize \<Rightarrow> usize \<Rightarrow> usize option" where
  "checked_next_multiple_of n g =
     (if g = 0 then None
      else if n mod g = 0 then Some n
      else if unat n + unat (g - n mod g) < 2 ^ 64 then Some (n + (g - n mod g)) else None)"

lemma next_multiple:
  assumes "checked_next_multiple_of n g = Some m"
  shows "unat g dvd unat m" "unat n \<le> unat m" "unat m < unat n + unat g"
proof -
  from assms have g: "0 < unat g" by (auto simp: checked_next_multiple_of_def unat_gt_0 split: if_splits)
  have r: "unat (n mod g) = unat n mod unat g" by (simp add: unat_mod)
  have lt: "unat n mod unat g < unat g" using g by simp
  then have s: "unat (g - n mod g) = unat g - unat n mod unat g"
    by (simp add: unat_sub_if_size word_le_nat_alt r) 
  have "unat g dvd unat m \<and> unat n \<le> unat m \<and> unat m < unat n + unat g"
  proof (cases "n mod g = 0")
    case True
    with assms g have "m = n" "unat n mod unat g = 0"
      by (auto simp: checked_next_multiple_of_def r [symmetric] split: if_splits)
    then show ?thesis using g by auto
  next
    case False
    with assms have m: "unat m = unat n + (unat g - unat n mod unat g)"
      by (auto simp: checked_next_multiple_of_def unat_word_ariths s split: if_splits)
    have "unat n mod unat g \<noteq> 0" using False r by (metis unat_eq_zero)
    moreover have "unat g dvd unat m"
    proof -
      have split: "unat m = (unat n - unat n mod unat g) + unat g"
        using m lt mod_less_eq_dividend [of "unat n" "unat g"] by linarith
      show ?thesis unfolding split by (rule dvd_add [OF dvd_minus_mod dvd_refl])
    qed
    ultimately show ?thesis using m lt by auto
  qed
  then show "unat g dvd unat m" "unat n \<le> unat m" "unat m < unat n + unat g" by simp_all
qed

section \<open>What the host answered\<close>

record alignment =
  al_requirement :: u32
  al_logical_sector :: u32
  al_physical_atomicity :: u32
  al_physical_performance :: u32
  al_byte_offset :: u32
  al_disk_bytes_per_sector :: u32

record storage_info =
  si_logical :: u32
  si_atomicity :: u32
  si_performance :: u32
  si_byte_offset :: u32

definition not_a_power :: "string \<Rightarrow> u32 \<Rightarrow> io_error" where
  "not_a_power name value = IoError Unsupported
     (''host reported '' @ name @ '' = '' @ show_unsigned value @ '', which is not a power of two'')"

fun validate_sources :: "(string \<times> u32) list \<Rightarrow> io_error + unit" where
  "validate_sources [] = Inr ()"
| "validate_sources ((name, value) # rest) =
     (if value \<noteq> 0 \<and> \<not> is_power_of_two value then Inl (not_a_power name value) else validate_sources rest)"

definition alignment_validate :: "alignment \<Rightarrow> io_error + unit" where
  "alignment_validate a =
     (if al_logical_sector a = 0 \<or> \<not> is_power_of_two (al_logical_sector a)
      then Inl (not_a_power ''LogicalBytesPerSector'' (al_logical_sector a))
      else validate_sources
        [(''PhysicalBytesPerSectorForAtomicity'', al_physical_atomicity a),
         (''PhysicalBytesPerSectorForPerformance'', al_physical_performance a),
         (''AlignmentRequirement'', al_requirement a),
         (''BytesPerSector'', al_disk_bytes_per_sector a)])"

text \<open>The arguments: the two answers the system must give, and the one it may decline.\<close>

definition alignment_query ::
    "(io_error + storage_info) \<Rightarrow> (io_error + u32) \<Rightarrow> u32 option \<Rightarrow> io_error + alignment" where
  "alignment_query storage required disk =
     (case storage of
        Inl e \<Rightarrow> Inl e
      | Inr si \<Rightarrow>
          (case required of
             Inl e \<Rightarrow> Inl e
           | Inr m \<Rightarrow>
               (let a = \<lparr>al_requirement = saturating_add m 1, al_logical_sector = si_logical si,
                         al_physical_atomicity = si_atomicity si, al_physical_performance = si_performance si,
                         al_byte_offset = si_byte_offset si,
                         al_disk_bytes_per_sector = (case disk of Some d \<Rightarrow> d | None \<Rightarrow> 0)\<rparr>
                in case alignment_validate a of Inl e \<Rightarrow> Inl e | Inr _ \<Rightarrow> Inr a)))"

definition granularity :: "alignment \<Rightarrow> usize" where
  "granularity a =
     ucast (max (max (max (max (al_logical_sector a) (al_physical_atomicity a)) (al_physical_performance a))
       (al_requirement a)) (al_disk_bytes_per_sector a))"

definition round_up :: "alignment \<Rightarrow> usize \<Rightarrow> io_error + usize" where
  "round_up a n =
     (case checked_next_multiple_of n (granularity a) of
        Some m \<Rightarrow> Inr m
      | None \<Rightarrow> Inl (IoError InvalidInput
          (''rounding '' @ show_unsigned n @ '' up to a multiple of '' @ show_unsigned (granularity a) @ '' overflows'')))"

definition alignment_is_aligned :: "alignment \<Rightarrow> u64 \<Rightarrow> bool" where
  "alignment_is_aligned a n \<longleftrightarrow> (if granularity a = 0 then n = 0 else n mod granularity a = 0)"

definition alignment_describe :: "alignment \<Rightarrow> string" where
  "alignment_describe a =
     (let offset = (if al_byte_offset a = -1 then ''not aligned to the physical sector size''
                    else show_unsigned (al_byte_offset a) @ '' B'')
      in ''AlignmentRequirement '' @ show_unsigned (al_requirement a) @ '' B, LogicalBytesPerSector '' @
         show_unsigned (al_logical_sector a) @ '' B, PhysicalBytesPerSectorForAtomicity '' @
         show_unsigned (al_physical_atomicity a) @ '' B, PhysicalBytesPerSectorForPerformance '' @
         show_unsigned (al_physical_performance a) @ '' B, ByteOffsetForSectorAlignment '' @ offset @
         '', GetDiskFreeSpace BytesPerSector '' @ show_unsigned (al_disk_bytes_per_sector a) @
         '' B; using '' @ show_unsigned (granularity a) @ '' B'')"

lemma validate_sources_ok:
  "validate_sources xs = Inr () \<longleftrightarrow> (\<forall>(name, value) \<in> set xs. value \<noteq> 0 \<longrightarrow> is_power_of_two value)"
  by (induction xs rule: validate_sources.induct) auto

definition reported :: "alignment \<Rightarrow> u32 set" where
  "reported a = {al_logical_sector a, al_physical_atomicity a, al_physical_performance a,
     al_requirement a, al_disk_bytes_per_sector a} - {0}"

lemma validated:
  assumes "alignment_validate a = Inr ()"
  shows "\<forall>v \<in> reported a. is_power_of_two v" "al_logical_sector a \<in> reported a"
  using assms by (auto simp: alignment_validate_def validate_sources_ok reported_def split: if_splits)

lemma granularity_unat: "unat (granularity a) = unat (max (max (max (max (al_logical_sector a)
     (al_physical_atomicity a)) (al_physical_performance a)) (al_requirement a)) (al_disk_bytes_per_sector a))"
  (is "_ = unat ?m")
proof -
  have "unat ?m < 2 ^ LENGTH(32)" by (rule unsigned_less)
  then have "unat ?m < 2 ^ 64" by simp
  then show ?thesis by (simp add: granularity_def unsigned_ucast_eq take_bit_nat_eq_self_iff)
qed

lemma power_of_two_dvd:
  assumes "is_power_of_two v" "is_power_of_two w" "v \<le> w"
  shows "unat v dvd unat w"
proof -
  obtain j k where e: "unat v = 2 ^ j" "unat w = 2 ^ k"
    using power_of_two_unat [OF assms(1)] power_of_two_unat [OF assms(2)] by blast
  moreover have "(2::nat) ^ j \<le> 2 ^ k" using assms(3) e by (simp add: word_le_nat_alt)
  ultimately show ?thesis by (simp add: le_imp_power_dvd)
qed

lemma granularity_reported:
  assumes "alignment_validate a = Inr ()"
  shows "\<exists>w \<in> reported a. unat (granularity a) = unat w \<and> (\<forall>v \<in> reported a. v \<le> w)"
proof -
  define w where "w = max (max (max (max (al_logical_sector a) (al_physical_atomicity a))
    (al_physical_performance a)) (al_requirement a)) (al_disk_bytes_per_sector a)"
  have "\<forall>v \<in> reported a. v \<le> w" by (auto simp: reported_def w_def max_def)
  moreover from this have "w \<noteq> 0" using validated(2) [OF assms] by (force simp: reported_def)
  then have "w \<in> reported a" by (auto simp: reported_def w_def max_def)
  moreover have "unat (granularity a) = unat w" by (simp only: granularity_unat w_def)
  ultimately show ?thesis by blast
qed

lemma granularity_power_of_two:
  assumes "alignment_validate a = Inr ()"
  shows "is_power_of_two (granularity a)" "\<forall>v \<in> reported a. unat v dvd unat (granularity a)"
proof -
  obtain w where w: "w \<in> reported a" "unat (granularity a) = unat w" "\<forall>v \<in> reported a. v \<le> w"
    using granularity_reported [OF assms] by blast
  have p: "is_power_of_two w" using validated(1) [OF assms] w(1) by blast
  then obtain k where k: "k < 32" "w = 2 ^ k" by (auto simp: power_of_two_iff)
  have "granularity a = of_nat (unat w)" by (simp add: w(2) [symmetric])
  also have "unat w = 2 ^ k" using k by (simp add: unat_two_power)
  finally have "granularity a = 2 ^ k" by simp
  then show "is_power_of_two (granularity a)" using k(1) by (auto simp: power_of_two_iff intro!: exI [of _ k])
  show "\<forall>v \<in> reported a. unat v dvd unat (granularity a)"
    using power_of_two_dvd [OF _ p] validated(1) [OF assms] w by simp
qed

lemma round_up_eq:
  assumes "is_power_of_two (granularity a)"
  shows "round_up a n = Inr m \<Longrightarrow> unat (granularity a) dvd unat m \<and> unat n \<le> unat m \<and>
      unat m < unat n + unat (granularity a)"
    and "(\<exists>m. round_up a n = Inr m) \<or>
      io_kind (projl (round_up a n)) = InvalidInput \<and> 2 ^ 64 < unat n + unat (granularity a)"
proof -
  let ?g = "granularity a"
  show "round_up a n = Inr m \<Longrightarrow> unat ?g dvd unat m \<and> unat n \<le> unat m \<and> unat m < unat n + unat ?g"
    using next_multiple [of n ?g m] by (auto simp: round_up_def split: option.splits)
  obtain k where "unat ?g = 2 ^ k" using power_of_two_unat [OF assms] by blast
  then have g: "?g \<noteq> 0" by (metis power_eq_0_iff unat_0 zero_neq_numeral)
  have "unat (?g - n mod ?g) < unat ?g" if "n mod ?g \<noteq> 0"
  proof -
    have "n mod ?g < ?g" using g by (simp add: word_less_nat_alt unat_mod unat_gt_0)
    then have "unat (?g - n mod ?g) = unat ?g - unat (n mod ?g)" by (simp add: unat_sub)
    moreover have "unat (n mod ?g) \<noteq> 0" using that by (simp add: unat_eq_zero)
    moreover have "0 < unat ?g" using g by (simp add: unat_gt_0)
    ultimately show ?thesis by simp
  qed
  then show "(\<exists>m. round_up a n = Inr m) \<or>
      io_kind (projl (round_up a n)) = InvalidInput \<and> 2 ^ 64 < unat n + unat ?g"
    using g by (auto simp: round_up_def checked_next_multiple_of_def)
qed

lemma is_aligned_dvd: "alignment_is_aligned a n \<longleftrightarrow> unat (granularity a) dvd unat n"
proof (cases "granularity a = 0")
  case True
  then show ?thesis by (simp add: alignment_is_aligned_def unat_eq_zero)
next
  case False
  have "n mod granularity a = 0 \<longleftrightarrow> unat (n mod granularity a) = 0" by (simp add: unat_eq_zero)
  also have "\<dots> \<longleftrightarrow> unat (granularity a) dvd unat n" by (simp add: unat_mod dvd_eq_mod_eq_0)
  finally show ?thesis using False by (simp add: alignment_is_aligned_def)
qed

section \<open>The aligned buffer\<close>

text \<open>
  The bytes are in the memory. \<open>alloc cap align\<close> is the address the zeroing allocator answers,
  zero when it has none.
\<close>

record aligned_buf =
  ab_ptr :: usize
  ab_cap :: usize
  ab_align :: usize
  ab_len :: usize

definition write_bytes :: "memory \<Rightarrow> usize \<Rightarrow> u8 list \<Rightarrow> memory" where
  "write_bytes mem p bs = (\<lambda>x. if unat (x - p) < length bs then bs ! unat (x - p) else mem x)"

definition zero_bytes :: "memory \<Rightarrow> usize \<Rightarrow> usize \<Rightarrow> memory" where
  "zero_bytes mem p n = (\<lambda>x. if x - p < n then 0 else mem x)"

text \<open>\<open>Layout::from_size_align\<close>: the size rounded up to the alignment fits an \<open>isize\<close>.\<close>

definition layout_ok :: "usize \<Rightarrow> usize \<Rightarrow> bool" where
  "layout_ok bytes align \<longleftrightarrow> is_power_of_two align \<and> unat bytes \<le> 2 ^ 63 - unat align"

definition aligned_new ::
    "(usize \<Rightarrow> usize \<Rightarrow> usize) \<Rightarrow> memory \<Rightarrow> usize \<Rightarrow> usize \<Rightarrow> io_error + aligned_buf \<times> memory" where
  "aligned_new alloc mem cap align =
     (if \<not> is_power_of_two align
      then Inl (IoError InvalidInput (''alignment '' @ show_unsigned align @ '' is not a power of two''))
      else case checked_next_multiple_of (max cap align) align of
             None \<Rightarrow> Inl (IoError InvalidInput (''rounding a capacity of '' @ show_unsigned cap @
               '' up to a multiple of '' @ show_unsigned align @ '' overflows''))
           | Some cap' \<Rightarrow>
               (if \<not> layout_ok cap' align
                then Inl (IoError InvalidInput ''invalid parameters to Layout::from_size_align'')
                else let p = alloc cap' align
                     in if p = 0
                        then Inl (IoError OutOfMemory (''could not allocate '' @ show_unsigned cap' @
                          '' bytes aligned to '' @ show_unsigned align))
                        else Inr (\<lparr>ab_ptr = p, ab_cap = cap', ab_align = align, ab_len = 0\<rparr>,
                                  zero_bytes mem p cap')))"

definition aligned_is_aligned :: "aligned_buf \<Rightarrow> bool" where
  "aligned_is_aligned b \<longleftrightarrow> (if ab_align b = 0 then ab_ptr b = 0 else ab_ptr b mod ab_align b = 0)"

text \<open>\<open>None\<close> is the failed assertion.\<close>

definition aligned_set_len :: "usize \<Rightarrow> aligned_buf \<Rightarrow> aligned_buf option" where
  "aligned_set_len n b = (if n \<le> ab_cap b then Some (b\<lparr>ab_len := n\<rparr>) else None)"

definition slice_of :: "memory \<Rightarrow> usize \<Rightarrow> usize \<Rightarrow> u8 list" where
  "slice_of mem p n = map (\<lambda>i. mem (p + of_nat i)) [0..<unat n]"

definition aligned_filled :: "memory \<Rightarrow> aligned_buf \<Rightarrow> u8 list" where
  "aligned_filled mem b = slice_of mem (ab_ptr b) (ab_len b)"

definition aligned_spare :: "memory \<Rightarrow> aligned_buf \<Rightarrow> u8 list" where
  "aligned_spare mem b = slice_of mem (ab_ptr b) (ab_cap b)"

definition aligned_fill :: "memory \<Rightarrow> u8 list \<Rightarrow> aligned_buf \<Rightarrow> io_error + aligned_buf \<times> memory" where
  "aligned_fill mem src b =
     (if unat (ab_cap b) < length src
      then Inl (IoError InvalidInput (''source of '' @ show_base 10 (length src) @
        '' bytes exceeds capacity '' @ show_unsigned (ab_cap b)))
      else Inr (b\<lparr>ab_len := of_nat (length src)\<rparr>, write_bytes mem (ab_ptr b) src))"

definition aligned_set_buf_init :: "usize \<Rightarrow> aligned_buf \<Rightarrow> aligned_buf option" where
  "aligned_set_buf_init n b = Some (b\<lparr>ab_len := min n (ab_cap b)\<rparr>)"

definition aligned_ok :: "aligned_buf \<Rightarrow> bool" where
  "aligned_ok b \<longleftrightarrow> is_power_of_two (ab_align b) \<and> aligned_is_aligned b \<and> ab_ptr b \<noteq> 0 \<and>
     ab_len b \<le> ab_cap b \<and> unat (ab_align b) dvd unat (ab_cap b) \<and> unat (ab_ptr b) + unat (ab_cap b) \<le> 2 ^ 64"

interpretation aligned: io_buf aligned_ok ab_ptr ab_ptr ab_len ab_cap aligned_set_buf_init
  by unfold_locales (auto simp: aligned_ok_def aligned_set_buf_init_def aligned_is_aligned_def)

lemma slice_of_write:
  assumes "length bs \<le> 2 ^ 63"
  shows "slice_of (write_bytes mem p bs) p (of_nat (length bs)) = bs"
proof -
  have l: "unat (of_nat (length bs) :: usize) = length bs"
    using assms by (simp add: unat_of_nat)
  moreover have "unat (of_nat i :: usize) = i" if "i < length bs" for i
    using assms that by (simp add: unat_of_nat)
  ultimately show ?thesis
    by (auto simp: slice_of_def write_bytes_def intro!: nth_equalityI)
qed

lemma slice_of_zero: "slice_of (zero_bytes mem p n) p n = replicate (unat n) 0"
proof -
  have "(of_nat i :: usize) < n" if "i < unat n" for i
    using that unsigned_less [of n] by (simp add: word_less_nat_alt unat_of_nat)
  then show ?thesis by (auto simp: slice_of_def zero_bytes_def intro!: nth_equalityI)
qed

lemma aligned_new_ok:
  assumes "aligned_new alloc mem cap align = Inr (b, mem')"
  shows "is_power_of_two align" "layout_ok (ab_cap b) align"
    "checked_next_multiple_of (max cap align) align = Some (ab_cap b)" "ab_ptr b = alloc (ab_cap b) align"
    "ab_ptr b \<noteq> 0" "ab_align b = align" "ab_len b = 0" "mem' = zero_bytes mem (ab_ptr b) (ab_cap b)"
  using assms by (auto simp: aligned_new_def Let_def split: if_splits option.splits)

lemma aligned_new_wf:
  assumes alloc: "\<And>c g. alloc c g \<noteq> 0 \<Longrightarrow> unat g dvd unat (alloc c g) \<and> unat (alloc c g) + unat c \<le> 2 ^ 64"
    and new: "aligned_new alloc mem cap align = Inr (b, mem')"
  shows "aligned_ok b"
proof -
  note n = aligned_new_ok [OF new]
  have "unat align dvd unat (ab_ptr b)" "unat (ab_ptr b) + unat (ab_cap b) \<le> 2 ^ 64"
    using alloc [of "ab_cap b" align] n(4,5) by simp_all
  moreover from this have "ab_ptr b mod align = 0"
    by (metis dvd_imp_mod_0 unat_eq_zero unat_mod)
  ultimately show ?thesis
    using n next_multiple(1) [OF n(3)] by (auto simp: aligned_ok_def aligned_is_aligned_def)
qed

lemma aligned_fill_ok:
  assumes "aligned_ok b" "unat (ab_cap b) \<le> 2 ^ 63" "length src \<le> unat (ab_cap b)"
  shows "\<exists>b' mem'. aligned_fill mem src b = Inr (b', mem') \<and> aligned_ok b' \<and> aligned_filled mem' b' = src \<and>
    ab_ptr b' = ab_ptr b \<and> ab_cap b' = ab_cap b"
proof -
  have l: "length src \<le> 2 ^ 63" using assms(2,3) by simp
  then have "(of_nat (length src) :: usize) \<le> ab_cap b"
    using assms(3) by (simp add: word_le_nat_alt unat_of_nat)
  then show ?thesis using assms l slice_of_write [OF l]
    by (simp add: aligned_fill_def aligned_filled_def aligned_ok_def aligned_is_aligned_def)
qed

section \<open>The two guarantees\<close>

text \<open>
  The extents a host asks for: the sizes it reported, zero standing for one it does not know, and
  the buffer alignment, which it reports as a mask.
\<close>

definition host_extents :: "storage_info \<Rightarrow> u32 \<Rightarrow> u32 option \<Rightarrow> nat set" where
  "host_extents si low disk = {unat (si_logical si), unat (si_atomicity si), unat (si_performance si), unat low + 1} \<union>
     unat ` set_option disk - {0}"

lemma query_cases:
  assumes "alignment_query storage required disk = Inr a"
  obtains si m where "storage = Inr si" "required = Inr m" "alignment_validate a = Inr ()"
    "a = \<lparr>al_requirement = m + 1, al_logical_sector = si_logical si, al_physical_atomicity = si_atomicity si,
       al_physical_performance = si_performance si, al_byte_offset = si_byte_offset si,
       al_disk_bytes_per_sector = (case disk of Some d \<Rightarrow> d | None \<Rightarrow> 0)\<rparr>"
    "unat (m + 1) = unat m + 1"
proof -
  from assms obtain si m where q: "storage = Inr si" "required = Inr m" "alignment_validate a = Inr ()"
    "a = \<lparr>al_requirement = saturating_add m 1, al_logical_sector = si_logical si, al_physical_atomicity = si_atomicity si,
       al_physical_performance = si_performance si, al_byte_offset = si_byte_offset si,
       al_disk_bytes_per_sector = (case disk of Some d \<Rightarrow> d | None \<Rightarrow> 0)\<rparr>"
    by (auto simp: alignment_query_def Let_def split: sum.splits)
  have "m \<noteq> -1"
  proof
    assume "m = -1"
    then have r: "al_requirement a = -1" by (simp add: q(4) saturating_add_def unsigned_minus_1_eq_mask mask_eq_exp_minus_1)
    moreover from r have "al_requirement a \<in> reported a" by (simp add: reported_def)
    ultimately have "is_power_of_two (-1 :: u32)" using validated(1) [OF q(3)] by metis
    then obtain k where "k < 32" "unat (-1 :: u32) = 2 ^ k"
      by (auto simp: power_of_two_iff unat_two_power)
    moreover have "unat (-1 :: u32) = 4294967295" by (simp add: unsigned_minus_1_eq_mask mask_eq_exp_minus_1)
    ultimately have e: "(2 :: nat) ^ k = 4294967295" by simp
    then have "odd ((2 :: nat) ^ k)" by simp
    then have "k = 0" by (cases k) simp_all
    with e show False by simp
  qed
  moreover have "unat (-1 :: u32) = 4294967295" by (simp add: unsigned_minus_1_eq_mask mask_eq_exp_minus_1)
  ultimately have "unat m \<noteq> 4294967295" by (metis word_unat_eq_iff)
  moreover have "unat m < 2 ^ LENGTH(32)" by (rule unsigned_less)
  ultimately have s: "unat (m + 1) = unat m + 1" by (simp add: unat_word_ariths)
  moreover have "unat (m + 1) < 2 ^ LENGTH(32)" by (rule unsigned_less)
  ultimately have "saturating_add m 1 = m + 1" by (simp add: saturating_add_def)
  with q s that show thesis by simp
qed

text \<open>
  C40: The granularity satisfies everything the host reported. The query succeeds only if the host
  gave both answers it must give, and then its result is those answers unchanged: the two sector
  sizes and the preferred one, the offset, the alignment its mask stands for, and the disk's
  sector size where there is one. Its granularity is a power of two and is one of the extents
  the host asks for, the logical sector being one, and every extent the host asks for divides it,
  so what is aligned to it is aligned to each; and rounding gives the least
  aligned extent at or above the one asked for, or reports the overflow instead of wrapping.
\<close>

theorem granularity_satisfies_the_host:
  assumes "alignment_query storage required disk = Inr a"
  shows "\<exists>si m. storage = Inr si \<and> required = Inr m \<and>
    a = \<lparr>al_requirement = m + 1, al_logical_sector = si_logical si, al_physical_atomicity = si_atomicity si,
      al_physical_performance = si_performance si, al_byte_offset = si_byte_offset si,
      al_disk_bytes_per_sector = (case disk of Some d \<Rightarrow> d | None \<Rightarrow> 0)\<rparr> \<and>
    is_power_of_two (granularity a) \<and> si_logical si \<noteq> 0 \<and>
    unat (granularity a) \<in> host_extents si m disk \<and>
    (\<forall>x \<in> host_extents si m disk. x dvd unat (granularity a)) \<and>
    (\<forall>n. case round_up a n of
        Inr m \<Rightarrow> alignment_is_aligned a m \<and> unat n \<le> unat m \<and> unat m < unat n + unat (granularity a)
      | Inl e \<Rightarrow> io_kind e = InvalidInput \<and> 2 ^ 64 < unat n + unat (granularity a))"
proof -
  obtain si m where q: "storage = Inr si" "required = Inr m" "alignment_validate a = Inr ()"
    "a = \<lparr>al_requirement = m + 1, al_logical_sector = si_logical si, al_physical_atomicity = si_atomicity si,
       al_physical_performance = si_performance si, al_byte_offset = si_byte_offset si,
       al_disk_bytes_per_sector = (case disk of Some d \<Rightarrow> d | None \<Rightarrow> 0)\<rparr>"
    "unat (m + 1) = unat m + 1" by (rule query_cases [OF assms])
  note g = granularity_power_of_two [OF q(3)]
  have host: "host_extents si m disk = unat ` reported a"
  proof -
    have "unat ` (S - {0}) = unat ` S - {0}" for S :: "u32 set" by (auto simp: unat_eq_zero)
    then show ?thesis using q(5) by (cases disk) (auto simp: host_extents_def reported_def q(4))
  qed
  have "unat (granularity a) \<in> host_extents si m disk"
    using granularity_reported [OF q(3)] unfolding host by auto
  moreover have "\<forall>x \<in> host_extents si m disk. x dvd unat (granularity a)" using g(2) unfolding host by blast
  moreover have "si_logical si \<noteq> 0" using validated(2) [OF q(3)] by (simp add: reported_def q(4))
  moreover have "case round_up a n of
        Inr m \<Rightarrow> alignment_is_aligned a m \<and> unat n \<le> unat m \<and> unat m < unat n + unat (granularity a)
      | Inl e \<Rightarrow> io_kind e = InvalidInput \<and> 2 ^ 64 < unat n + unat (granularity a)" for n
    using round_up_eq [OF g(1), of n] by (cases "round_up a n") (auto simp: is_aligned_dvd)
  ultimately show ?thesis using q(1,2,4) g(1) by blast
qed

definition sane :: alignment where
  "sane = \<lparr>al_requirement = 4, al_logical_sector = 512, al_physical_atomicity = 4096,
     al_physical_performance = 4096, al_byte_offset = 0, al_disk_bytes_per_sector = 512\<rparr>"

lemma sane_query:
  "alignment_query (Inr \<lparr>si_logical = 512, si_atomicity = 4096, si_performance = 4096, si_byte_offset = 0\<rparr>)
     (Inr 3) (Some 512) = Inr sane"
proof -
  have "is_power_of_two (2 ^ k :: u32)" if "k < 32" for k using that by (auto simp: power_of_two_iff)
  from this [of 2] this [of 9] this [of 12]
  have "is_power_of_two (4 :: u32)" "is_power_of_two (512 :: u32)" "is_power_of_two (4096 :: u32)" by simp_all
  then show ?thesis
    by (simp add: alignment_query_def alignment_validate_def sane_def saturating_add_def)
qed

theorem granularity_satisfies_the_host_witness:
  "is_power_of_two (granularity sane) \<and> 512 dvd unat (granularity sane) \<and> 4096 dvd unat (granularity sane) \<and>
   4 dvd unat (granularity sane)"
proof -
  note g = granularity_satisfies_the_host [OF sane_query]
  have e: "host_extents \<lparr>si_logical = 512, si_atomicity = 4096, si_performance = 4096, si_byte_offset = 0\<rparr> 3 (Some 512) =
      {512, 4096, 4}" by (auto simp: host_extents_def)
  from g have "is_power_of_two (granularity sane)" by blast
  moreover from g have "\<forall>x \<in> {512, 4096, 4}. x dvd unat (granularity sane)" unfolding e [symmetric] by auto
  ultimately show ?thesis by simp
qed

text \<open>
  An aligned buffer is what an unbuffered read needs. With an allocator that answers null or a
  block at the asked alignment inside the address space, a buffer that was made starts at a multiple
  of its alignment, holds the least non-empty multiple of it that the caller asked for, and begins
  empty over zeroed bytes; filling it makes exactly the source readable without moving it, or
  refuses a source that does not fit; and recording a transfer up to the capacity records just it.
\<close>

theorem aligned_buffer_sound:
  assumes alloc: "\<And>c g. alloc c g \<noteq> 0 \<Longrightarrow> unat g dvd unat (alloc c g) \<and> unat (alloc c g) + unat c \<le> 2 ^ 64"
    and new: "aligned_new alloc mem cap align = Inr (b, mem')"
  shows "aligned_ok b \<and> unat align dvd unat (ab_ptr b) \<and>
    unat align dvd unat (ab_cap b) \<and> max (unat cap) (unat align) \<le> unat (ab_cap b) \<and>
    unat (ab_cap b) < max (unat cap) (unat align) + unat align \<and>
    aligned_filled mem' b = [] \<and> aligned_spare mem' b = replicate (unat (ab_cap b)) 0 \<and>
    (\<forall>src. if length src \<le> unat (ab_cap b)
       then \<exists>b2 mem2. aligned_fill mem' src b = Inr (b2, mem2) \<and> aligned_ok b2 \<and>
         aligned_filled mem2 b2 = src \<and> ab_ptr b2 = ab_ptr b \<and> ab_cap b2 = ab_cap b
       else \<exists>m. aligned_fill mem' src b = Inl (IoError InvalidInput m)) \<and>
    (\<forall>n. n \<le> ab_cap b \<longrightarrow> (\<exists>b2. aligned_set_buf_init n b = Some b2 \<and> aligned_set_len n b = Some b2 \<and>
       aligned_ok b2 \<and> ab_len b2 = n))"
proof -
  note n = aligned_new_ok [OF new] and wf = aligned_new_wf [OF alloc new]
  have c: "unat (ab_cap b) \<le> 2 ^ 63" using n(2) unfolding layout_ok_def by linarith
  have mx: "unat (max cap align) = max (unat cap) (unat align)" by (simp add: max_def word_le_nat_alt)
  note m = next_multiple [OF n(3), unfolded mx]
  have p: "unat align dvd unat (ab_ptr b)" using alloc [of "ab_cap b" align] n(4,5) by simp
  have e: "aligned_filled mem' b = []" using n(7) by (simp add: aligned_filled_def slice_of_def)
  have z: "aligned_spare mem' b = replicate (unat (ab_cap b)) 0"
    using n(8) by (simp add: aligned_spare_def slice_of_zero)
  have f: "\<forall>src. if length src \<le> unat (ab_cap b)
       then \<exists>b2 mem2. aligned_fill mem' src b = Inr (b2, mem2) \<and> aligned_ok b2 \<and>
         aligned_filled mem2 b2 = src \<and> ab_ptr b2 = ab_ptr b \<and> ab_cap b2 = ab_cap b
       else \<exists>m. aligned_fill mem' src b = Inl (IoError InvalidInput m)"
    using aligned_fill_ok [OF wf c] by (auto simp: aligned_fill_def not_le)
  have s: "\<forall>n. n \<le> ab_cap b \<longrightarrow> (\<exists>b2. aligned_set_buf_init n b = Some b2 \<and>
       aligned_set_len n b = Some b2 \<and> aligned_ok b2 \<and> ab_len b2 = n)"
  proof (intro allI impI)
    fix n assume l: "n \<le> ab_cap b"
    then have "aligned_set_buf_init n b = Some (b\<lparr>ab_len := n\<rparr>)" "aligned_set_len n b = Some (b\<lparr>ab_len := n\<rparr>)"
      by (simp_all add: aligned_set_buf_init_def aligned_set_len_def min_absorb1)
    moreover have "aligned_ok (b\<lparr>ab_len := n\<rparr>)" using aligned.init_stable [OF wf l calculation(1)] by simp
    ultimately show "\<exists>b2. aligned_set_buf_init n b = Some b2 \<and>
       aligned_set_len n b = Some b2 \<and> aligned_ok b2 \<and> ab_len b2 = n" by simp
  qed
  show ?thesis using wf p m(1) m(2) m(3) e z f s by (intro conjI)
qed

definition one_block :: "usize \<Rightarrow> usize \<Rightarrow> usize" where
  "one_block c g = (if c = 8192 \<and> g = 4096 then 65536 else 0)"

theorem aligned_buffer_sound_witness:
  "\<exists>b mem'. aligned_new one_block (\<lambda>_. 7) 4097 4096 = Inr (b, mem') \<and> ab_cap b = 8192 \<and>
     aligned_spare mem' b = replicate 8192 0"
proof -
  have g: "is_power_of_two (4096 :: usize)" unfolding power_of_two_iff by (rule exI [of _ 12]) simp
  have c: "checked_next_multiple_of (max 4097 4096) 4096 = Some 8192"
    by (simp add: checked_next_multiple_of_def)
  have "\<exists>mem'. aligned_new one_block (\<lambda>_. 7) 4097 4096 =
      Inr (\<lparr>ab_ptr = 65536, ab_cap = 8192, ab_align = 4096, ab_len = 0\<rparr>, mem')"
    using g c by (simp add: aligned_new_def layout_ok_def one_block_def)
  then obtain mem' where new: "aligned_new one_block (\<lambda>_. 7) 4097 4096 =
      Inr (\<lparr>ab_ptr = 65536, ab_cap = 8192, ab_align = 4096, ab_len = 0\<rparr>, mem')" ..
  have "unat g dvd unat (one_block c g) \<and> unat (one_block c g) + unat c \<le> 2 ^ 64"
    if "one_block c g \<noteq> 0" for c g
    using that by (auto simp: one_block_def split: if_splits)
  from aligned_buffer_sound [OF this new] new show ?thesis by auto
qed

end
