(* ===== verification/Bench_Scenario.thy ===== *)
theory Bench_Scenario
  imports Bench_Runner
begin

text \<open>
  The workloads (\<open>scenario.rs\<close>), the parameters they run with (\<open>config.rs\<close>) and the interface of
  a backend (\<open>backend.rs\<close>), all of \<open>win-ioring-bench\<close>.

  A scenario is written against the interface alone: its implementations, and the length the
  system reports for a file, are arguments. \<open>None\<close> is a panic (a block of zero bytes) or an
  operation that never completes.
\<close>

section \<open>The generator of offsets\<close>

type_synonym rng = u64

definition rng_new :: "u64 \<Rightarrow> rng" where
  "rng_new seed = or seed 1"

definition rng_next_value :: "rng \<Rightarrow> u64 \<times> rng" where
  "rng_next_value s =
     (let s1 = s + 0x9E3779B97F4A7C15;
          z1 = (xor s1 (drop_bit 30 s1)) * 0xBF58476D1CE4E5B9;
          z2 = (xor z1 (drop_bit 27 z1)) * 0x94D049BB133111EB
      in (xor z2 (drop_bit 31 z2), s1))"

definition rng_below :: "u64 \<Rightarrow> rng \<Rightarrow> u64 \<times> rng" where
  "rng_below bound s =
     (if bound = 0 then (0, s) else case rng_next_value s of (v, s') \<Rightarrow> (v mod bound, s'))"

section \<open>Scenarios\<close>

datatype scenario = SequentialRead | RandomRead | WriteThenRead | BulkRead

definition scenario_name :: "scenario \<Rightarrow> string" where
  "scenario_name sc = (case sc of SequentialRead \<Rightarrow> ''sequential read'' | RandomRead \<Rightarrow> ''random read''
     | WriteThenRead \<Rightarrow> ''write then read'' | BulkRead \<Rightarrow> ''bulk read'')"

definition scenario_shape :: "scenario \<Rightarrow> shape" where
  "scenario_shape sc = (case sc of SequentialRead \<Rightarrow> Rolling | RandomRead \<Rightarrow> Rolling
     | WriteThenRead \<Rightarrow> Rolling | BulkRead \<Rightarrow> Batched)"

definition scenario_slug :: "scenario \<Rightarrow> string" where
  "scenario_slug sc = (case sc of SequentialRead \<Rightarrow> ''sequential-read'' | RandomRead \<Rightarrow> ''random-read''
     | WriteThenRead \<Rightarrow> ''write-then-read'' | BulkRead \<Rightarrow> ''bulk-read'')"

definition scenario_all :: "scenario list" where
  "scenario_all = [SequentialRead, RandomRead, WriteThenRead, BulkRead]"

record outcome =
  oc_trace :: trace
  oc_achieved :: achieved
  oc_shape :: shape_check
  oc_submitted :: "(u64 \<times> u64) option"

definition SEED :: u64 where "SEED = 0x5EED1234ABCD0001"

section \<open>The interface of a backend\<close>

text \<open>
  Opening and flushing are awaited where they stand. A read or a write is a future (\<open>'fut\<close>) that
  does nothing until it is awaited; \<open>bk_await\<close> waits for whichever of the pending ones completes
  first, and gives its result and its buffer back.
\<close>

record ('file, 'buf, 'fut, 'b) bench_backend =
  bk_open_read :: "string \<Rightarrow> 'b \<Rightarrow> ((io_error + 'file) \<times> 'b) option"
  bk_open_write :: "string \<Rightarrow> 'b \<Rightarrow> ((io_error + 'file) \<times> 'b) option"
  bk_take_buffer :: "nat \<Rightarrow> 'b \<Rightarrow> (io_error + 'buf) \<times> 'b"
  bk_put_buffer :: "'buf \<Rightarrow> 'b \<Rightarrow> 'b"
  bk_read_at :: "'file \<Rightarrow> 'buf \<Rightarrow> u32 \<Rightarrow> u64 \<Rightarrow> 'fut"
  bk_write_at :: "'file \<Rightarrow> 'buf \<Rightarrow> u32 \<Rightarrow> u64 \<Rightarrow> 'fut"
  bk_await :: "'fut list \<Rightarrow> 'b \<Rightarrow> (nat \<times> (io_error + u32) \<times> 'buf \<times> 'b) option"
  bk_sync :: "'file \<Rightarrow> 'b \<Rightarrow> ((io_error + unit) \<times> 'b) option"
  bk_bytes :: "'buf \<Rightarrow> u8 list"
  bk_fill :: "u8 list \<Rightarrow> 'buf \<Rightarrow> io_error + 'buf"

text \<open>The pending operations remember the offset they were issued for.\<close>

definition awaiting ::
    "('file, 'buf, 'fut, 'b) bench_backend \<Rightarrow> (u64 \<times> 'fut) list \<Rightarrow> 'b
      \<Rightarrow> (nat \<times> u64 \<times> (io_error + u32 \<times> 'buf) \<times> 'b) option" where
  "awaiting K pending b =
     (case bk_await K (map snd pending) b of
        None \<Rightarrow> None
      | Some (i, r, buf, b') \<Rightarrow> Some (i, fst (pending ! i), map_sum id (\<lambda>n. (n, buf)) r, b'))"

definition reading ::
    "('file, 'buf, 'fut, 'b) bench_backend \<Rightarrow> 'file \<Rightarrow> u32 \<Rightarrow> (nat \<Rightarrow> u64) \<Rightarrow> (u64 \<times> 'fut, 'buf, 'b) backend" where
  "reading K file block offset_of =
     \<lparr>make_op = \<lambda>i b.
        (case bk_take_buffer K (unat block) b of
           (Inl e, b') \<Rightarrow> (Inl e, b')
         | (Inr buf, b') \<Rightarrow> (Inr (offset_of i, bk_read_at K file buf block (offset_of i)), b')),
      next_completion = awaiting K, put_buffer = bk_put_buffer K, buffer_bytes = bk_bytes K\<rparr>"

definition writing ::
    "('file, 'buf, 'fut, 'b) bench_backend \<Rightarrow> 'file \<Rightarrow> u32 \<Rightarrow> u8 list \<Rightarrow> (u64 \<times> 'fut, 'buf, 'b) backend" where
  "writing K file block pat =
     \<lparr>make_op = \<lambda>i b.
        (case bk_take_buffer K (unat block) b of
           (Inl e, b') \<Rightarrow> (Inl e, b')
         | (Inr buf, b') \<Rightarrow>
             (case bk_fill K pat buf of
                Inl e \<Rightarrow> (Inl e, b')
              | Inr buf' \<Rightarrow>
                  (let offset = of_nat i * ucast block in (Inr (offset, bk_write_at K file buf' block offset), b')))),
      next_completion = awaiting K, put_buffer = bk_put_buffer K, buffer_bytes = bk_bytes K\<rparr>"

section \<open>The workloads\<close>

definition issue_all :: "nat \<Rightarrow> u32 \<Rightarrow> (nat \<Rightarrow> u64) \<Rightarrow> trace \<Rightarrow> trace" where
  "issue_all operations block offset_of t = fold (\<lambda>i. trace_issued (offset_of i) block) [0..<operations] t"

definition finish_outcome :: "nat \<Rightarrow> trace \<Rightarrow> runner \<Rightarrow> outcome" where
  "finish_outcome operations t r =
     \<lparr>oc_trace = t, oc_achieved = runner_achieved operations r, oc_shape = runner_shape_check operations r,
      oc_submitted = None\<rparr>"

definition positional_reads_on ::
    "('file, 'buf, 'fut, 'b) bench_backend \<Rightarrow> 'file \<Rightarrow> u32 \<Rightarrow> nat \<Rightarrow> nat \<Rightarrow> shape \<Rightarrow> (nat \<Rightarrow> u64) \<Rightarrow> 'b
      \<Rightarrow> ((io_error + outcome) \<times> 'b) option" where
  "positional_reads_on K file block operations depth sh offset_of b =
     (case runner_run (reading K file block offset_of) operations PhaseRead
             (issue_all operations block offset_of trace_new) (runner_new depth sh) b of
        None \<Rightarrow> None
      | Some (Inl e, t, r, b') \<Rightarrow> Some (Inl e, b')
      | Some (Inr _, t, r, b') \<Rightarrow> Some (Inr (finish_outcome operations t r), b'))"

definition positional_reads ::
    "('file, 'buf, 'fut, 'b) bench_backend \<Rightarrow> string \<Rightarrow> u32 \<Rightarrow> nat \<Rightarrow> nat \<Rightarrow> shape \<Rightarrow> (nat \<Rightarrow> u64) \<Rightarrow> 'b
      \<Rightarrow> ((io_error + outcome) \<times> 'b) option" where
  "positional_reads K path block operations depth sh offset_of b =
     (case bk_open_read K path b of
        None \<Rightarrow> None
      | Some (Inl e, b') \<Rightarrow> Some (Inl e, b')
      | Some (Inr file, b') \<Rightarrow> positional_reads_on K file block operations depth sh offset_of b')"

definition sequential_offset :: "u32 \<Rightarrow> nat \<Rightarrow> u64" where
  "sequential_offset block i = of_nat i * ucast block"

fun random_offsets :: "nat \<Rightarrow> u64 \<Rightarrow> u64 \<Rightarrow> rng \<Rightarrow> u64 list" where
  "random_offsets 0 blocks block s = []"
| "random_offsets (Suc n) blocks block s =
     (case rng_below blocks s of (v, s') \<Rightarrow> v * block # random_offsets n blocks block s')"

definition random_plan :: "u64 \<Rightarrow> u32 \<Rightarrow> nat \<Rightarrow> u64 list option" where
  "random_plan len block operations =
     (if block = 0 then None
      else Some (random_offsets operations (max (len div ucast block) 1) (ucast block) (rng_new SEED)))"

text \<open>The bytes every write sends.\<close>

definition write_pattern :: "u32 \<Rightarrow> u8 list" where
  "write_pattern block = map (\<lambda>i. of_nat (i mod 251)) [0..<unat block]"

definition write_then_read ::
    "('file, 'buf, 'fut, 'b) bench_backend \<Rightarrow> string \<Rightarrow> u32 \<Rightarrow> nat \<Rightarrow> nat \<Rightarrow> shape \<Rightarrow> 'b
      \<Rightarrow> ((io_error + outcome) \<times> 'b) option" where
  "write_then_read K path block operations depth sh b =
     (let t0 = issue_all operations block (sequential_offset block)
                 (issue_all operations block (sequential_offset block) trace_new)
      in case bk_open_write K path b of
           None \<Rightarrow> None
         | Some (Inl e, b1) \<Rightarrow> Some (Inl e, b1)
         | Some (Inr file, b1) \<Rightarrow>
             (case runner_run (writing K file block (write_pattern block)) operations PhaseWrite t0 (runner_new depth sh) b1 of
                None \<Rightarrow> None
              | Some (Inl e, t1, r1, b2) \<Rightarrow> Some (Inl e, b2)
              | Some (Inr _, t1, r1, b2) \<Rightarrow>
                  (case bk_sync K file b2 of
                     None \<Rightarrow> None
                   | Some (Inl e, b3) \<Rightarrow> Some (Inl e, b3)
                   | Some (Inr _, b3) \<Rightarrow>
                       (case bk_open_read K path b3 of
                          None \<Rightarrow> None
                        | Some (Inl e, b4) \<Rightarrow> Some (Inl e, b4)
                        | Some (Inr file', b4) \<Rightarrow>
                            (case runner_run (reading K file' block (sequential_offset block)) operations PhaseRead t1
                                    (runner_new depth sh) b4 of
                               None \<Rightarrow> None
                             | Some (Inl e, t2, r2, b5) \<Rightarrow> Some (Inl e, b5)
                             | Some (Inr _, t2, r2, b5) \<Rightarrow> Some (Inr (finish_outcome operations t2 r2), b5))))))"

text \<open>\<open>file_len\<close> is what the system's metadata say of the path.\<close>

definition run_scenario ::
    "('file, 'buf, 'fut, 'b) bench_backend \<Rightarrow> (string \<Rightarrow> io_error + u64) \<Rightarrow> scenario \<Rightarrow> string \<Rightarrow> string \<Rightarrow> u32
      \<Rightarrow> nat \<Rightarrow> nat \<Rightarrow> 'b \<Rightarrow> ((io_error + outcome) \<times> 'b) option" where
  "run_scenario K file_len sc read_path write_path block operations depth b =
     (case sc of
        RandomRead \<Rightarrow>
          (case file_len read_path of
             Inl e \<Rightarrow> Some (Inl e, b)
           | Inr len \<Rightarrow>
               (case random_plan len block operations of
                  None \<Rightarrow> None
                | Some offsets \<Rightarrow>
                    positional_reads K read_path block operations depth (scenario_shape sc) (\<lambda>i. offsets ! i) b))
      | WriteThenRead \<Rightarrow> write_then_read K write_path block operations depth (scenario_shape sc) b
      | _ \<Rightarrow> positional_reads K read_path block operations depth (scenario_shape sc) (sequential_offset block) b)"

definition run_on_open_file ::
    "('file, 'buf, 'fut, 'b) bench_backend \<Rightarrow> scenario \<Rightarrow> 'file \<Rightarrow> u64 \<Rightarrow> u32 \<Rightarrow> nat \<Rightarrow> nat \<Rightarrow> 'b
      \<Rightarrow> ((io_error + outcome) \<times> 'b) option" where
  "run_on_open_file K sc file read_bytes block operations depth b =
     (case sc of
        RandomRead \<Rightarrow>
          (case random_plan read_bytes block operations of
             None \<Rightarrow> None
           | Some offsets \<Rightarrow>
               positional_reads_on K file block operations depth (scenario_shape sc) (\<lambda>i. offsets ! i) b)
      | WriteThenRead \<Rightarrow> Some (Inl (IoError InvalidInput
          (''write-then-read has no pre-opened form: it opens for writing, and '' @
           ''the arms that use this entry point measure reads'')), b)
      | _ \<Rightarrow> positional_reads_on K file block operations depth (scenario_shape sc) (sequential_offset block) b)"

section \<open>The configuration\<close>

record operations =
  op_sequential :: nat
  op_random :: nat
  op_write_then_read :: nat

record bench_config =
  cf_depths :: "nat list"
  cf_read_file_bytes :: u64
  cf_sequential_block :: u32
  cf_random_block :: u32
  cf_write_block :: u32
  cf_registered_buffers :: nat
  cf_operations :: operations

definition max_depth :: "nat list \<Rightarrow> nat option" where
  "max_depth ds = (if ds = [] then None else Some (fold max ds 0))"

definition config_default :: bench_config where
  "config_default = \<lparr>cf_depths = [1, 8, 64], cf_read_file_bytes = 256 * 1024 * 1024,
     cf_sequential_block = 64 * 1024, cf_random_block = 4 * 1024, cf_write_block = 64 * 1024,
     cf_registered_buffers = (case max_depth [1, 8, 64] of Some d \<Rightarrow> d | None \<Rightarrow> 1),
     cf_operations = \<lparr>op_sequential = 256, op_random = 512, op_write_then_read = 128\<rparr>\<rparr>"

definition config_small :: bench_config where
  "config_small = \<lparr>cf_depths = [1, 4], cf_read_file_bytes = 256 * 1024,
     cf_sequential_block = 4096, cf_random_block = 512, cf_write_block = 4096, cf_registered_buffers = 4,
     cf_operations = \<lparr>op_sequential = 64, op_random = 64, op_write_then_read = 16\<rparr>\<rparr>"

definition config_work :: "scenario \<Rightarrow> bench_config \<Rightarrow> u32 \<times> nat" where
  "config_work sc c =
     (case sc of
        SequentialRead \<Rightarrow> (cf_sequential_block c, op_sequential (cf_operations c))
      | BulkRead \<Rightarrow> (cf_sequential_block c, op_sequential (cf_operations c))
      | RandomRead \<Rightarrow> (cf_random_block c, op_random (cf_operations c))
      | WriteThenRead \<Rightarrow> (cf_write_block c, op_write_then_read (cf_operations c)))"

definition depths_for :: "scenario \<Rightarrow> bench_config \<Rightarrow> nat list" where
  "depths_for sc c =
     (case sc of
        BulkRead \<Rightarrow> (case max_depth (cf_depths c) of Some d \<Rightarrow> [d] | None \<Rightarrow> [])
      | _ \<Rightarrow> cf_depths c)"

definition write_file_bytes :: "bench_config \<Rightarrow> u64" where
  "write_file_bytes c =
     (case config_work WriteThenRead c of (block, operations) \<Rightarrow> ucast block * of_nat operations)"

definition touched_bytes :: "scenario \<Rightarrow> bench_config \<Rightarrow> u64" where
  "touched_bytes sc c =
     (case config_work sc c of (block, operations) \<Rightarrow>
        (let bytes = ucast block * of_nat operations in
         case sc of WriteThenRead \<Rightarrow> bytes * 2 | _ \<Rightarrow> bytes))"

definition resident_working_set :: "bench_config \<Rightarrow> u64" where
  "resident_working_set c = cf_read_file_bytes c + write_file_bytes c"

section \<open>What a run issues\<close>

lemma issue_all_issued:
  "tr_issued (issue_all n block f t) = tr_issued t @ map (\<lambda>i. \<lparr>io_offset = f i, io_len = block\<rparr>) [0..<n]"
  by (induction n) (simp_all add: issue_all_def trace_issued_def)

lemma run_loop_issued:
  assumes "run_loop B todo p issued pending t r b = Some (res, t', r', b')"
  shows "tr_issued t' = tr_issued t"
  using run_loop_invariant [OF assms, where I = "\<lambda>_ _ t1 _ _. tr_issued t1 = tr_issued t"]
  by (simp add: trace_delivered_def)

lemma reads_on_issued:
  assumes "positional_reads_on K file block operations depth sh f b = Some (Inr oc, b')"
  shows "tr_issued (oc_trace oc) = map (\<lambda>i. \<lparr>io_offset = f i, io_len = block\<rparr>) [0..<operations]"
proof -
  let ?t = "issue_all operations block f trace_new"
  obtain u t r b'' where "runner_run (reading K file block f) operations PhaseRead ?t (runner_new depth sh) b =
      Some (Inr u, t, r, b'')" "oc_trace oc = t"
    using assms by (auto simp: positional_reads_on_def finish_outcome_def split: option.splits sum.splits prod.splits)
  moreover from this have "tr_issued t = tr_issued ?t" using run_loop_issued by (fastforce simp: runner_run_def)
  ultimately show ?thesis by (simp add: issue_all_issued trace_new_def)
qed

lemma random_offsets_length [simp]: "length (random_offsets n blocks block s) = n"
  by (induction n arbitrary: s) (simp_all split: prod.splits)

lemma rng_below_bound: "blocks \<noteq> 0 \<Longrightarrow> rng_below blocks s = (v, s') \<Longrightarrow> v < blocks"
  by (auto simp: rng_below_def word_less_nat_alt unat_mod unat_gt_0 split: prod.splits)

lemma random_offsets_inside:
  assumes "unat blocks * unat block \<le> len" "blocks \<noteq> 0" "len < 2 ^ 64"
    and "x \<in> set (random_offsets n blocks block s)"
  shows "\<exists>k < unat blocks. unat x = k * unat block"
  using assms(4)
proof (induction n arbitrary: s)
  case (Suc n)
  obtain v s' where v: "rng_below blocks s = (v, s')" by fastforce
  show ?case
  proof (cases "x = v * block")
    case True
    have lt: "unat v < unat blocks" using rng_below_bound [OF assms(2) v] by (simp add: word_less_nat_alt)
    then have "unat v * unat block \<le> unat blocks * unat block" by simp
    then have "unat v * unat block < 2 ^ 64" using assms(1,3) by linarith
    then have "unat x = unat v * unat block" by (simp add: True unat_word_ariths)
    with lt show ?thesis by blast
  next
    case False
    then show ?thesis using Suc v by auto
  qed
qed simp

text \<open>A read lies inside a file, and starts at a multiple of the block.\<close>

definition inside_file :: "u64 \<Rightarrow> issued_op \<Rightarrow> bool" where
  "inside_file len i \<longleftrightarrow> unat (io_offset i) + unat (io_len i) \<le> unat len \<and>
     unat (io_len i) dvd unat (io_offset i)"

lemma sequential_inside:
  assumes "operations * unat block \<le> unat len" "i < operations"
  shows "inside_file len \<lparr>io_offset = sequential_offset block i, io_len = block\<rparr> \<and>
    unat (sequential_offset block i) = i * unat block"
proof -
  have c: "unat (ucast block :: u64) = unat block"
  proof -
    have "unat block < 2 ^ LENGTH(32)" by (rule unsigned_less)
    then show ?thesis by (simp add: unsigned_ucast_eq take_bit_nat_eq_self_iff)
  qed
  have len: "unat len < 2 ^ LENGTH(64)" by (rule unsigned_less)
  have le: "(i + 1) * unat block \<le> unat len"
    using mult_le_mono1 [of "i + 1" operations "unat block"] assms by linarith
  then have p: "i * unat block < 2 ^ 64" using len by simp
  have "unat (sequential_offset block i) = i * unat block"
  proof (cases "unat block = 0")
    case True
    then show ?thesis by (simp add: sequential_offset_def unat_word_ariths c)
  next
    case False
    then have "i \<le> i * unat block" by simp
    then have "i < 2 ^ 64" using p by linarith
    then have "unat (of_nat i :: u64) = i" by (simp add: unat_of_nat)
    then show ?thesis using p by (simp add: sequential_offset_def unat_word_ariths c)
  qed
  then show ?thesis using le by (simp add: inside_file_def)
qed

lemma random_inside:
  assumes "random_plan len block operations = Some offsets" "unat block \<le> unat len" "x \<in> set offsets"
  shows "inside_file len \<lparr>io_offset = x, io_len = block\<rparr>" "length offsets = operations"
proof -
  let ?b = "ucast block :: u64" and ?n = "max (len div ucast block) 1"
  have b: "block \<noteq> 0" and offsets: "offsets = random_offsets operations ?n ?b (rng_new SEED)"
    using assms(1) by (auto simp: random_plan_def split: if_splits)
  have c: "unat ?b = unat block"
  proof -
    have "unat block < 2 ^ LENGTH(32)" by (rule unsigned_less)
    then show ?thesis by (simp add: unsigned_ucast_eq take_bit_nat_eq_self_iff)
  qed
  have b0: "0 < unat block" using b by (simp add: unat_gt_0)
  have pos: "0 < unat len div unat block" using assms(2) b0 by (simp add: div_greater_zero_iff)
  then have n: "unat ?n = unat len div unat block"
    by (simp add: max_def unat_div c word_le_nat_alt)
  have "unat ?n * unat ?b \<le> unat len" unfolding n c by simp
  moreover have "?n \<noteq> 0" using n pos by (metis less_numeral_extra(3) unat_0)
  moreover have "unat len < 2 ^ 64" using unsigned_less [of len, where 'a = nat] by simp
  ultimately obtain k where k: "k < unat ?n" "unat x = k * unat block"
    using random_offsets_inside [of ?n ?b "unat len" x] assms(3) unfolding offsets c by blast
  have "(k + 1) * unat block \<le> unat len div unat block * unat block"
    using k(1) unfolding n by (intro mult_le_mono1) simp
  then have "(k + 1) * unat block \<le> unat len" using div_times_less_eq_dividend [of "unat len" "unat block"] by linarith
  then show "inside_file len \<lparr>io_offset = x, io_len = block\<rparr>" using k(2) by (simp add: inside_file_def)
  show "length offsets = operations" by (simp add: offsets)
qed

lemma configured_work:
  assumes "c = config_default \<or> c = config_small" "sc \<noteq> WriteThenRead" "config_work sc c = (block, operations)"
  shows "block \<noteq> 0" "unat block \<le> unat (cf_read_file_bytes c)"
    "sc \<noteq> RandomRead \<Longrightarrow> operations * unat block \<le> unat (cf_read_file_bytes c)"
    "\<forall>d \<in> set (depths_for sc c). 4 * d \<le> operations \<and> (sc = BulkRead \<longrightarrow> d dvd operations)"
  using assms
  by (cases sc; auto simp: config_work_def config_default_def config_small_def depths_for_def max_depth_def)+

section \<open>What a backend is really asked to do\<close>

text \<open>
  A backend that notes, each time a wait hands an operation back, the file, the offset and the
  length that operation was started with. It does exactly what the backend it is made of does.
\<close>

type_synonym 'file asked = "'file \<times> issued_op"

definition noting ::
    "('file, 'buf, 'fut, 'b) bench_backend
      \<Rightarrow> ('file, 'buf, 'fut \<times> 'file asked, 'b \<times> 'file asked list) bench_backend" where
  "noting K =
     \<lparr>bk_open_read = \<lambda>path (b, log). map_option (map_prod id (\<lambda>b. (b, log))) (bk_open_read K path b),
      bk_open_write = \<lambda>path (b, log). map_option (map_prod id (\<lambda>b. (b, log))) (bk_open_write K path b),
      bk_take_buffer = \<lambda>n (b, log). map_prod id (\<lambda>b. (b, log)) (bk_take_buffer K n b),
      bk_put_buffer = \<lambda>buf (b, log). (bk_put_buffer K buf b, log),
      bk_read_at = \<lambda>file buf len offset.
        (bk_read_at K file buf len offset, file, \<lparr>io_offset = offset, io_len = len\<rparr>),
      bk_write_at = \<lambda>file buf len offset.
        (bk_write_at K file buf len offset, file, \<lparr>io_offset = offset, io_len = len\<rparr>),
      bk_await = \<lambda>futs (b, log).
        (case bk_await K (map fst futs) b of
           None \<Rightarrow> None
         | Some (i, r, buf, b') \<Rightarrow> Some (i, r, buf, b', log @ [snd (futs ! i)])),
      bk_sync = \<lambda>file (b, log). map_option (map_prod id (\<lambda>b. (b, log))) (bk_sync K file b),
      bk_bytes = bk_bytes K, bk_fill = bk_fill K\<rparr>"

text \<open>A wait answers for one of the operations it was given, as the stream of pending futures does.\<close>

definition answers_pending :: "('file, 'buf, 'fut, 'b) bench_backend \<Rightarrow> bool" where
  "answers_pending K \<longleftrightarrow> (\<forall>futs b i r buf b'. bk_await K futs b = Some (i, r, buf, b') \<longrightarrow> futs \<noteq> [] \<longrightarrow> i < length futs)"

text \<open>A pending operation as the unlogged run has it, and what it was started with.\<close>

definition forget :: "u64 \<times> 'fut \<times> 'file asked \<Rightarrow> u64 \<times> 'fut" where
  "forget x = (fst x, fst (snd x))"

definition asked_of :: "u64 \<times> 'fut \<times> 'file asked \<Rightarrow> 'file asked" where
  "asked_of x = snd (snd x)"

definition asks :: "'file \<Rightarrow> u32 \<Rightarrow> (nat \<Rightarrow> u64) \<Rightarrow> nat \<Rightarrow> 'file asked" where
  "asks file block f i = (file, \<lparr>io_offset = f i, io_len = block\<rparr>)"

lemma refill_logged:
  fixes K :: "('file, 'buf, 'fut, 'b) bench_backend"
  assumes "refill (reading K file block f) todo issued (map forget pend) r b = (x, r1, b1)" "issued \<le> todo"
  shows "\<exists>x'. refill (reading (noting K) file block f) todo issued pend r (b, lg) = (x', r1, b1, lg) \<and>
    x = map_sum id (map_prod id (map forget)) x' \<and>
    (\<forall>issued1 pend1. x' = Inr (issued1, pend1) \<longrightarrow> issued \<le> issued1 \<and> issued1 \<le> todo \<and>
       map asked_of pend1 = map asked_of pend @ map (asks file block f) [issued..<issued1] \<and>
       (pend1 = [] \<longrightarrow> 0 < ru_configured r \<longrightarrow> issued1 = todo))"
  using assms
proof (induction "todo - issued" arbitrary: issued pend b)
  case 0
  then show ?case by (subst refill.simps) (auto simp: refill.simps [of "reading K file block f"])
next
  case (Suc k)
  let ?B = "reading K file block f" and ?L = "reading (noting K) file block f"
  show ?case
  proof (cases "length pend < ru_configured r")
    case False
    then show ?thesis using Suc.prems
      by (subst refill.simps) (auto simp: refill.simps [of ?B])
  next
    case True
    have lt: "issued < todo" using Suc.hyps(2) by simp
    obtain y b2 where take: "bk_take_buffer K (unat block) b = (y, b2)" by fastforce
    show ?thesis
    proof (cases y)
      case (Inl e)
      then have "make_op ?B issued b = (Inl e, b2)" "make_op ?L issued (b, lg) = (Inl e, b2, lg)"
        using take by (simp_all add: reading_def noting_def)
      then show ?thesis using Suc.prems Suc.hyps(2) True
        by (subst refill.simps) (auto simp: refill.simps [of ?B] split: if_splits)
    next
      case (Inr buf)
      let ?p = "(f issued, bk_read_at K file buf block (f issued), asks file block f issued)"
      have make: "make_op ?B issued b = (Inr (forget ?p), b2)" "make_op ?L issued (b, lg) = (Inr ?p, b2, lg)"
        using take Inr by (simp_all add: reading_def noting_def forget_def asks_def)
      have plain: "refill ?B todo (issued + 1) (map forget (pend @ [?p])) r b2 = (x, r1, b1)"
        using Suc.prems(1) lt True make(1) by (subst (asm) refill.simps) simp
      have step: "refill ?L todo issued pend r (b, lg) = refill ?L todo (issued + 1) (pend @ [?p]) r (b2, lg)"
        using lt True make(2) by (subst refill.simps) simp
      have left: "k = todo - (issued + 1)" "issued + 1 \<le> todo" using Suc.hyps(2) lt by simp_all
      from Suc.hyps(1) [OF left(1) plain left(2)] obtain x' where
        x': "refill ?L todo (issued + 1) (pend @ [?p]) r (b2, lg) = (x', r1, b1, lg)"
        "x = map_sum id (map_prod id (map forget)) x'"
        "\<forall>issued1 pend1. x' = Inr (issued1, pend1) \<longrightarrow> issued + 1 \<le> issued1 \<and> issued1 \<le> todo \<and>
           map asked_of pend1 = map asked_of (pend @ [?p]) @ map (asks file block f) [issued + 1..<issued1] \<and>
           (pend1 = [] \<longrightarrow> 0 < ru_configured r \<longrightarrow> issued1 = todo)" by blast
      have "issued \<le> issued1 \<and> issued1 \<le> todo \<and>
          map asked_of pend1 = map asked_of pend @ map (asks file block f) [issued..<issued1] \<and>
          (pend1 = [] \<longrightarrow> 0 < ru_configured r \<longrightarrow> issued1 = todo)" if "x' = Inr (issued1, pend1)" for issued1 pend1
        using x'(3) that by (auto simp: asked_of_def upt_conv_Cons)
      with x'(1,2) step show ?thesis by auto
    qed
  qed
qed

lemma fill_configured:
  assumes "fill_phase B todo issued pending r b = (x, r1, b1)" shows "ru_configured r1 = ru_configured r"
proof -
  have "ru_configured r1 = ru_configured r" if "refill B todo issued pending r b = (x, r1, b1)"
    using that
  proof (induction B todo issued pending r b rule: refill.induct)
    case (1 B todo issued pending r b)
    show ?case
    proof (cases "issued < todo \<and> length pending < ru_configured r")
      case True
      obtain y b2 where m: "make_op B issued b = (y, b2)" by (cases "make_op B issued b")
      show ?thesis
      proof (cases y)
        case (Inl e)
        with True m 1(2) show ?thesis by (subst (asm) refill.simps) (auto split: if_splits)
      next
        case (Inr f)
        with True m 1(2) have "refill B todo (issued + 1) (pending @ [f]) r b2 = (x, r1, b1)"
          by (subst (asm) refill.simps) simp
        from 1(1) [OF True m [symmetric] Inr this] show ?thesis .
      qed
    next
      case False
      with 1(2) show ?thesis by (subst (asm) refill.simps) auto
    qed
  qed
  with assms show ?thesis by (auto simp: fill_phase_def split: if_splits)
qed

lemma fill_logged:
  fixes K :: "('file, 'buf, 'fut, 'b) bench_backend"
  assumes fill: "fill_phase (reading K file block f) todo issued (map forget pend) r b = (Inr (issued1, pending1), r1, b1)"
    and le: "issued \<le> todo"
  obtains pend1 where
    "fill_phase (reading (noting K) file block f) todo issued pend r (b, lg) = (Inr (issued1, pend1), r1, b1, lg)"
    "pending1 = map forget pend1" "issued \<le> issued1" "issued1 \<le> todo"
    "map asked_of pend1 = map asked_of pend @ map (asks file block f) [issued..<issued1]"
    "pend1 = [] \<Longrightarrow> 0 < ru_configured r \<Longrightarrow> issued1 = todo"
proof (cases "may_refill (ru_shape r) (pend = [])")
  case True
  with fill have "refill (reading K file block f) todo issued (map forget pend) r b = (Inr (issued1, pending1), r1, b1)"
    by (simp add: fill_phase_def)
  from refill_logged [OF this le, of lg] obtain x' where
    x': "refill (reading (noting K) file block f) todo issued pend r (b, lg) = (x', r1, b1, lg)"
    "Inr (issued1, pending1) = map_sum id (map_prod id (map forget)) x'"
    "\<forall>issued1 pend1. x' = Inr (issued1, pend1) \<longrightarrow> issued \<le> issued1 \<and> issued1 \<le> todo \<and>
       map asked_of pend1 = map asked_of pend @ map (asks file block f) [issued..<issued1] \<and>
       (pend1 = [] \<longrightarrow> 0 < ru_configured r \<longrightarrow> issued1 = todo)" by blast
  from x'(2) obtain pend1 where "x' = Inr (issued1, pend1)" "pending1 = map forget pend1"
    by (cases x') auto
  with x'(1,3) True show thesis by (intro that [of pend1]) (simp_all add: fill_phase_def)
next
  case False
  with fill le show thesis by (intro that [of pend]) (auto simp: fill_phase_def may_refill_def split: shape.splits)
qed

lemma awaiting_logged:
  assumes "answers_pending K" "pend \<noteq> []" "awaiting K (map forget pend) b = Some (i, offset, res, b')"
  shows "awaiting (noting K) pend (b, lg) = Some (i, offset, res, b', lg @ [asked_of (pend ! i)])" "i < length pend"
proof -
  obtain r buf where k: "bk_await K (map (fst \<circ> snd) pend) b = Some (i, r, buf, b')"
    "offset = fst (map forget pend ! i)" "res = map_sum id (\<lambda>n. (n, buf)) r"
    using assms(3) by (auto simp: awaiting_def forget_def comp_def split: option.splits)
  show i: "i < length pend" using assms(1,2) k(1) unfolding answers_pending_def by fastforce
  with k show "awaiting (noting K) pend (b, lg) = Some (i, offset, res, b', lg @ [asked_of (pend ! i)])"
    by (simp add: awaiting_def noting_def forget_def asked_of_def comp_def)
qed

text \<open>A run and the same run logged: what completed is what was issued, each operation once.\<close>

lemma run_logged:
  fixes K :: "('file, 'buf, 'fut, 'b) bench_backend"
  assumes ans: "answers_pending K" and conf: "0 < ru_configured r0"
    and run: "runner_run (reading K file block f) todo p t0 r0 b0 = Some (Inr u, t', r', b')"
  shows "\<exists>lg. runner_run (reading (noting K) file block f) todo p t0 r0 (b0, []) = Some (Inr u, t', r', b', lg) \<and>
    mset lg = mset (map (asks file block f) [0..<todo])"
proof -
  let ?B = "reading K file block f" and ?L = "reading (noting K) file block f"
  have logged_fields: "buffer_bytes ?L = buffer_bytes ?B" "put_buffer ?L buf (b, lg) = (put_buffer ?B buf b, lg)"
    for buf b and lg :: "'file asked list"
    by (simp_all add: reading_def noting_def)
  define I where "I = (\<lambda>issued pending t r (b :: 'b). \<exists>pend lg. pending = map forget pend \<and> issued \<le> todo \<and>
    ru_configured r = ru_configured r0 \<and>
    mset lg + mset (map asked_of pend) = mset (map (asks file block f) [0..<issued]) \<and>
    run_loop ?L todo p 0 [] t0 r0 (b0, []) = run_loop ?L todo p issued pend t r (b, lg))"
  have "\<exists>issued pending r b. I issued pending t' r b \<and> turn_ends ?B todo issued pending r b (Inr u) r' b'"
    using run [unfolded runner_run_def]
  proof (rule run_loop_invariant)
    show "I 0 [] t0 r0 b0" unfolding I_def by (intro exI [of _ "[]"]) simp
  next
    fix issued pending t r b issued1 pending1 r1 b1 i offset n buf b2
    assume I: "I issued pending t r b" and fill: "fill_phase ?B todo issued pending r b = (Inr (issued1, pending1), r1, b1)"
      and ne: "pending1 \<noteq> []" and nx: "next_completion ?B pending1 b1 = Some (i, offset, Inr (n, buf), b2)"
    from I obtain pend lg where pend: "pending = map forget pend" "issued \<le> todo" "ru_configured r = ru_configured r0"
      "mset lg + mset (map asked_of pend) = mset (map (asks file block f) [0..<issued])"
      "run_loop ?L todo p 0 [] t0 r0 (b0, []) = run_loop ?L todo p issued pend t r (b, lg)" unfolding I_def by blast
    obtain pend1 where filled: "fill_phase ?L todo issued pend r (b, lg) = (Inr (issued1, pend1), r1, b1, lg)" and
      pend1: "pending1 = map forget pend1" "issued \<le> issued1" "issued1 \<le> todo"
        "map asked_of pend1 = map asked_of pend @ map (asks file block f) [issued..<issued1]"
      by (rule fill_logged [OF fill [unfolded pend(1)] pend(2), where lg = lg])
    have ne1: "pend1 \<noteq> []" using ne pend1(1) by simp
    have aw: "awaiting K (map forget pend1) b1 = Some (i, offset, Inr (n, buf), b2)"
      using nx by (simp add: reading_def pend1(1))
    note l = awaiting_logged [OF ans ne1 aw]
    let ?r = "note_completion (length pend1) (note_outstanding todo issued1 (length pend1) r1)"
    have "run_loop ?L todo p issued pend t r (b, lg) =
        run_loop ?L todo p issued1 (drop_nth i pend1) (trace_delivered p offset n (buffer_bytes ?L buf) t) ?r
          (put_buffer ?L buf (b2, lg @ [asked_of (pend1 ! i)]))"
      using filled ne1 l(1)
      by (subst run_loop.simps) (simp add: fill_phase_def [symmetric] reading_def [of "noting K"] Let_def)
    moreover have "mset (lg @ [asked_of (pend1 ! i)]) + mset (map asked_of (drop_nth i pend1)) =
        mset (map (asks file block f) [0..<issued1])"
    proof -
      have "mset (map asked_of pend1) = add_mset (asked_of (pend1 ! i)) (mset (map asked_of (drop_nth i pend1)))"
        using drop_nth_mset [of i "map asked_of pend1"] l(2) by (simp add: drop_nth_map)
      moreover have "mset lg + mset (map asked_of pend1) = mset (map (asks file block f) ([0..<issued] @ [issued..<issued1]))"
        unfolding pend1(4) using pend(4) by simp
      moreover have "[0..<issued] @ [issued..<issued1] = [0..<issued1]"
        using upt_add_eq_append [of 0 issued "issued1 - issued"] pend1(2) by simp
      ultimately show ?thesis by simp
    qed
    moreover have "ru_configured ?r = ru_configured r0" using fill_configured [OF fill] pend(3) by simp
    ultimately show "I issued1 (drop_nth i pending1) (trace_delivered p offset n (buffer_bytes ?B buf) t)
        (note_completion (length pending1) (note_outstanding todo issued1 (length pending1) r1)) (put_buffer ?B buf b2)"
      unfolding I_def
      by (intro exI [of _ "drop_nth i pend1"] exI [of _ "lg @ [asked_of (pend1 ! i)]"])
        (simp add: pend1(1,3) pend(5) drop_nth_map logged_fields)
  qed
  then obtain issued pending r b where I: "I issued pending t' r b" and ends: "turn_ends ?B todo issued pending r b (Inr u) r' b'"
    by blast
  from I obtain pend lg where pend: "pending = map forget pend" "issued \<le> todo" "ru_configured r = ru_configured r0"
    "mset lg + mset (map asked_of pend) = mset (map (asks file block f) [0..<issued])"
    "run_loop ?L todo p 0 [] t0 r0 (b0, []) = run_loop ?L todo p issued pend t' r (b, lg)" unfolding I_def by blast
  obtain issued1 where fill: "fill_phase ?B todo issued (map forget pend) r b = (Inr (issued1, []), r', b')"
  proof -
    obtain x r1 b1 where f: "fill_phase ?B todo issued (map forget pend) r b = (x, r1, b1)"
      by (cases "fill_phase ?B todo issued (map forget pend) r b")
    with ends that show thesis unfolding turn_ends_def pend(1) f
      by (cases x) (auto split: if_splits)
  qed
  obtain l: "fill_phase ?L todo issued pend r (b, lg) = (Inr (todo, []), r', b', lg)" "issued \<le> todo"
      "[] = map asked_of pend @ map (asks file block f) [issued..<todo]"
    by (rule fill_logged [OF fill pend(2), where lg = lg]) (use conf pend(3) in auto)
  have "run_loop ?L todo p issued pend t' r (b, lg) = Some (Inr u, t', r', b', lg)"
    using l(1) by (subst run_loop.simps) (simp add: fill_phase_def [symmetric])
  moreover have "mset lg = mset (map (asks file block f) [0..<todo])"
    using pend(4) l(2,3) by auto
  ultimately show ?thesis using pend(5) by (auto simp: runner_run_def)
qed

text \<open>The reads of a scenario, from its parameters and the length of the file alone.\<close>

definition planned_offset :: "scenario \<Rightarrow> u64 \<Rightarrow> u32 \<Rightarrow> nat \<Rightarrow> nat \<Rightarrow> u64" where
  "planned_offset sc len block operations i =
     (case sc of
        RandomRead \<Rightarrow> (case random_plan len block operations of Some offsets \<Rightarrow> offsets ! i | None \<Rightarrow> 0)
      | _ \<Rightarrow> sequential_offset block i)"

definition planned_reads :: "scenario \<Rightarrow> u64 \<Rightarrow> u32 \<Rightarrow> nat \<Rightarrow> issued_op list" where
  "planned_reads sc len block operations =
     map (\<lambda>i. \<lparr>io_offset = planned_offset sc len block operations i, io_len = block\<rparr>) [0..<operations]"

lemma open_run_reads:
  assumes "sc \<noteq> WriteThenRead" "block \<noteq> 0"
  shows "run_on_open_file K sc file len block operations depth b =
    positional_reads_on K file block operations depth (scenario_shape sc) (planned_offset sc len block operations) b"
proof -
  have "planned_offset sc len block operations = (if sc = RandomRead
      then (\<lambda>i. the (random_plan len block operations) ! i) else sequential_offset block)"
    using assms by (cases sc) (simp_all add: planned_offset_def random_plan_def fun_eq_iff)
  then show ?thesis using assms by (cases sc) (simp_all add: run_on_open_file_def random_plan_def)
qed

lemma planned_inside:
  assumes "sc \<noteq> WriteThenRead" "block \<noteq> 0" "unat block \<le> unat len"
    and "sc \<noteq> RandomRead \<Longrightarrow> operations * unat block \<le> unat len" "k < operations"
  shows "inside_file len \<lparr>io_offset = planned_offset sc len block operations k, io_len = block\<rparr> \<and>
    (sc \<noteq> RandomRead \<longrightarrow> unat (planned_offset sc len block operations k) = k * unat block)"
proof (cases "sc = RandomRead")
  case True
  obtain offsets where o: "random_plan len block operations = Some offsets" using assms(2) by (simp add: random_plan_def)
  then have "offsets ! k \<in> set offsets" using assms(2,5) by (auto simp: random_plan_def)
  from random_inside(1) [OF o assms(3) this] show ?thesis by (simp add: True planned_offset_def o)
next
  case False
  then have "planned_offset sc len block operations k = sequential_offset block k"
    by (cases sc) (simp_all add: planned_offset_def)
  with sequential_inside [OF assms(4) [OF False] assms(5)] show ?thesis by simp
qed

lemma reads_on_logged:
  assumes "answers_pending K" "positional_reads_on K file block operations depth sh f b = Some (Inr oc, b')"
  shows "\<exists>lg. positional_reads_on (noting K) file block operations depth sh f (b, []) = Some (Inr oc, b', lg) \<and>
    mset lg = mset (map (asks file block f) [0..<operations])"
proof -
  obtain u t r where run: "runner_run (reading K file block f) operations PhaseRead
      (issue_all operations block f trace_new) (runner_new depth sh) b = Some (Inr u, t, r, b')"
    "oc = finish_outcome operations t r"
    using assms(2) by (auto simp: positional_reads_on_def split: option.splits sum.splits prod.splits)
  have "0 < ru_configured (runner_new depth sh)" by (simp add: runner_new_def)
  from run_logged [OF assms(1) this run(1)] run(2) show ?thesis
    by (auto simp: positional_reads_on_def)
qed

text \<open>
  C32: Every backend is given the same reads, and they lie inside the file. Take either of the two
  configurations, a file at least as long as it asks for, and any backend whose waits answer for
  an operation they were given. A read scenario that completes had the backend perform, on the
  file opened, exactly the reads of \<open>planned_reads\<close>, which depend on the scenario, its parameters and
  the file's length and on nothing of the backend, random offsets included: the same run, with every operation
  handed back by a wait noted with the file, offset and length it was started with, ends
  the same and has noted each of them exactly once. The trace lists them in order. There are as
  many as the configuration says, each starting at a multiple of its block and ending inside the
  file, sequential ones back to back from its start; the run has at least four rounds
  of its depth, batches dividing evenly; and running it on a path is opening the file and running
  it on the open file.
\<close>

theorem reads_inside_file:
  assumes "c = config_default \<or> c = config_small" "sc \<noteq> WriteThenRead" "config_work sc c = (block, operations)"
    and "file_len path = Inr len" "cf_read_file_bytes c \<le> len"
    and "bk_open_read K path b0 = Some (Inr file, b)" and "answers_pending K"
  shows "run_scenario K file_len sc path wp block operations depth b0 =
      run_on_open_file K sc file len block operations depth b \<and>
    (\<forall>oc b'. run_on_open_file K sc file len block operations depth b = Some (Inr oc, b') \<longrightarrow>
      tr_issued (oc_trace oc) = planned_reads sc len block operations \<and>
      (\<exists>lg. run_on_open_file (noting K) sc file len block operations depth (b, []) = Some (Inr oc, b', lg) \<and>
         mset lg = mset (map (Pair file) (planned_reads sc len block operations))) \<and>
      trace_operations (oc_trace oc) = operations \<and>
      (\<forall>i \<in> set (planned_reads sc len block operations). io_len i = block \<and> inside_file len i) \<and>
      (sc \<noteq> RandomRead \<longrightarrow>
        (\<forall>k < operations. unat (io_offset (planned_reads sc len block operations ! k)) = k * unat block))) \<and>
    (\<forall>d \<in> set (depths_for sc c). 4 * d \<le> operations \<and> (sc = BulkRead \<longrightarrow> d dvd operations))"
proof (intro conjI allI impI)
  note w = configured_work [OF assms(1-3)]
  have le: "unat (cf_read_file_bytes c) \<le> unat len" using assms(5) by (simp add: word_le_nat_alt)
  show "run_scenario K file_len sc path wp block operations depth b0 =
      run_on_open_file K sc file len block operations depth b"
    using assms(2,4,6)
    by (cases sc) (simp_all add: run_scenario_def run_on_open_file_def positional_reads_def split: option.splits)
  show "\<forall>d \<in> set (depths_for sc c). 4 * d \<le> operations \<and> (sc = BulkRead \<longrightarrow> d dvd operations)" by (rule w(4))
  fix oc b' assume run: "run_on_open_file K sc file len block operations depth b = Some (Inr oc, b')"
  note open_run = open_run_reads [OF assms(2) w(1)]
  have inside: "inside_file len \<lparr>io_offset = planned_offset sc len block operations k, io_len = block\<rparr> \<and>
      (sc \<noteq> RandomRead \<longrightarrow> unat (planned_offset sc len block operations k) = k * unat block)" if "k < operations" for k
    by (rule planned_inside [OF assms(2) w(1) _ _ that]) (use w(2,3) le in linarith)+
  show issued: "tr_issued (oc_trace oc) = planned_reads sc len block operations"
    using reads_on_issued [OF run [unfolded open_run]] by (simp add: planned_reads_def)
  show "\<exists>lg. run_on_open_file (noting K) sc file len block operations depth (b, []) = Some (Inr oc, b', lg) \<and>
      mset lg = mset (map (Pair file) (planned_reads sc len block operations))"
    using reads_on_logged [OF assms(7) run [unfolded open_run]]
    by (simp add: open_run planned_reads_def asks_def [abs_def] comp_def)
  show "trace_operations (oc_trace oc) = operations" by (simp add: trace_operations_def issued planned_reads_def)
  show "\<forall>i \<in> set (planned_reads sc len block operations). io_len i = block \<and> inside_file len i"
    using inside by (auto simp: planned_reads_def)
  show "unat (io_offset (planned_reads sc len block operations ! k)) = k * unat block" if "sc \<noteq> RandomRead" "k < operations" for k
    using inside that by (simp add: planned_reads_def)
qed

definition sample_bench :: "(unit, unit, unit, unit) bench_backend" where
  "sample_bench = \<lparr>bk_open_read = \<lambda>_ b. Some (Inr (), b), bk_open_write = \<lambda>_ b. Some (Inr (), b),
     bk_take_buffer = \<lambda>_ b. (Inr (), b), bk_put_buffer = \<lambda>_ b. b, bk_read_at = \<lambda>_ _ _ _. (),
     bk_write_at = \<lambda>_ _ _ _. (), bk_await = \<lambda>_ b. Some (0, Inr 512, (), b), bk_sync = \<lambda>_ b. Some (Inr (), b),
     bk_bytes = \<lambda>_. [7], bk_fill = \<lambda>_ _. Inr ()\<rparr>"

theorem reads_inside_file_witness:
  "\<exists>oc lg. run_on_open_file (noting sample_bench) RandomRead () 262144 512 64 4 ((), []) = Some (Inr oc, (), lg) \<and>
     mset lg = mset (map (Pair ()) (planned_reads RandomRead 262144 512 64)) \<and>
     trace_operations (oc_trace oc) = 64 \<and> list_all (inside_file 262144) (planned_reads RandomRead 262144 512 64)"
proof -
  obtain offsets where o: "random_plan 262144 512 64 = Some offsets" by (simp add: random_plan_def)
  have "steady (reading sample_bench () 512 (\<lambda>i. offsets ! i))"
    by (auto simp: steady_def reading_def awaiting_def sample_bench_def)
  from steady_run_new [OF this, of 64 PhaseRead "issue_all 64 512 (\<lambda>i. offsets ! i) trace_new" 4 Rolling "()"]
  obtain t r where "runner_run (reading sample_bench () 512 (\<lambda>i. offsets ! i)) 64 PhaseRead
      (issue_all 64 512 (\<lambda>i. offsets ! i) trace_new) (runner_new 4 Rolling) () = Some (Inr (), t, r, ())" by auto
  then obtain oc where run: "run_on_open_file sample_bench RandomRead () 262144 512 64 4 () = Some (Inr oc, ())"
    by (simp add: run_on_open_file_def o positional_reads_on_def scenario_shape_def)
  have "config_work RandomRead config_small = (512, 64)" "cf_read_file_bytes config_small \<le> 262144"
    "bk_open_read sample_bench ''f'' () = Some (Inr (), ())" "answers_pending sample_bench"
    by (simp_all add: config_work_def config_small_def sample_bench_def answers_pending_def)
  from reads_inside_file [OF disjI2 [OF refl] _ this(1), of "\<lambda>_. Inr 262144" "''f''" 262144 sample_bench "()" "()" "()" "''g''" 4]
    this(2-4) run show ?thesis by (auto simp: list_all_iff)
qed

end
