(* ===== verification/Bench_Unbuffered.thy ===== *)
theory Bench_Unbuffered
  imports Bench_Scenario Bench_Align
begin

text \<open>
  Reads that bypass the cache (\<open>unbuffered.rs\<close> and \<open>unbuffered_matrix.rs\<close> of
  \<open>win-ioring-bench\<close>): the six configurations and their grid, the offsets, the pools of aligned
  buffers, and the measured loop.

  A buffer is the aligned buffer with the memory its owner sees. Opening a file, waiting for the
  reads in flight and checking out a registered buffer are arguments.
\<close>

section \<open>The configurations\<close>

definition FILE_FLAG_NO_BUFFERING :: u32 where "FILE_FLAG_NO_BUFFERING = 0x20000000"
definition FILE_FLAG_OVERLAPPED :: u32 where "FILE_FLAG_OVERLAPPED = 0x40000000"

definition READ_FLAGS :: u32 where "READ_FLAGS = or FILE_FLAG_NO_BUFFERING FILE_FLAG_OVERLAPPED"
definition POOL_READ_FLAGS :: u32 where "POOL_READ_FLAGS = FILE_FLAG_NO_BUFFERING"

datatype unbuffered_config = IoRingPlain | IoRingRegistered | CompioIocp | TokioPool1 | TokioPool512H1
  | TokioPool512Hn

definition unbuffered_all :: "unbuffered_config list" where
  "unbuffered_all = [IoRingPlain, IoRingRegistered, CompioIocp, TokioPool1, TokioPool512H1, TokioPool512Hn]"

definition unbuffered_slug :: "unbuffered_config \<Rightarrow> string" where
  "unbuffered_slug c = (case c of IoRingPlain \<Rightarrow> ''unbuffered-ioring-owned''
     | IoRingRegistered \<Rightarrow> ''unbuffered-ioring-registered'' | CompioIocp \<Rightarrow> ''unbuffered-compio''
     | TokioPool1 \<Rightarrow> ''unbuffered-tokio-pool1-h1'' | TokioPool512H1 \<Rightarrow> ''unbuffered-tokio-pool512-h1''
     | TokioPool512Hn \<Rightarrow> ''unbuffered-tokio-pool512-hn'')"

definition unbuffered_name :: "unbuffered_config \<Rightarrow> string" where
  "unbuffered_name c = (case c of IoRingPlain \<Rightarrow> ''win-ioring (owned buffers)''
     | IoRingRegistered \<Rightarrow> ''win-ioring (registered)'' | CompioIocp \<Rightarrow> ''compio (IOCP)''
     | TokioPool1 \<Rightarrow> ''tokio::fs (pool 1, 1 handle)'' | TokioPool512H1 \<Rightarrow> ''tokio::fs (pool 512, 1 handle)''
     | TokioPool512Hn \<Rightarrow> ''tokio::fs (pool 512, N handles)'')"

definition unbuffered_handles :: "nat \<Rightarrow> unbuffered_config \<Rightarrow> nat" where
  "unbuffered_handles depth c = (case c of TokioPool512Hn \<Rightarrow> max depth 1 | _ \<Rightarrow> 1)"

definition pool_width :: "unbuffered_config \<Rightarrow> nat option" where
  "pool_width c = (case c of TokioPool1 \<Rightarrow> Some 1 | TokioPool512H1 \<Rightarrow> Some 512 | TokioPool512Hn \<Rightarrow> Some 512
     | _ \<Rightarrow> None)"

definition read_flags :: "unbuffered_config \<Rightarrow> u32" where
  "read_flags c = (case c of TokioPool1 \<Rightarrow> POOL_READ_FLAGS | TokioPool512H1 \<Rightarrow> POOL_READ_FLAGS
     | TokioPool512Hn \<Rightarrow> POOL_READ_FLAGS | _ \<Rightarrow> READ_FLAGS)"

definition unbuffered_duplicates :: "nat \<Rightarrow> unbuffered_config \<Rightarrow> unbuffered_config \<Rightarrow> bool" where
  "unbuffered_duplicates depth c other =
     (case (pool_width c, pool_width other) of
        (Some mine, Some theirs) \<Rightarrow>
          c \<noteq> other \<and> mine = theirs \<and> unbuffered_handles depth c = unbuffered_handles depth other
      | _ \<Rightarrow> False)"

text \<open>The handles a configuration holds open, with the flags its reads use; the first failure ends it.\<close>

fun open_each :: "nat \<Rightarrow> ('e \<Rightarrow> (io_error + 'h) \<times> 'e) \<Rightarrow> 'e \<Rightarrow> (io_error + 'h list) \<times> 'e" where
  "open_each 0 open_one e = (Inr [], e)"
| "open_each (Suc n) open_one e =
     (case open_one e of
        (Inl x, e') \<Rightarrow> (Inl x, e')
      | (Inr h, e') \<Rightarrow> (case open_each n open_one e' of (r, e'') \<Rightarrow> (map_sum id (\<lambda>hs. h # hs) r, e'')))"

definition open_handle_set ::
    "(string \<Rightarrow> u32 \<Rightarrow> 'e \<Rightarrow> (io_error + 'h) \<times> 'e) \<Rightarrow> unbuffered_config \<Rightarrow> string \<Rightarrow> nat \<Rightarrow> 'e
      \<Rightarrow> (io_error + 'h list) \<times> 'e" where
  "open_handle_set open_file c path depth = open_each (unbuffered_handles depth c) (open_file path (read_flags c))"

section \<open>The grid\<close>

definition DEPTHS :: "nat list" where "DEPTHS = [1, 8, 64]"
definition SCENARIOS :: "scenario list" where "SCENARIOS = [SequentialRead, RandomRead]"

definition group_name :: "scenario \<Rightarrow> string" where
  "group_name sc = ''unbuffered-'' @ scenario_slug sc"

record cell =
  ce_scenario :: scenario
  ce_depth :: nat
  ce_config :: unbuffered_config

definition grid :: "cell list" where
  "grid = concat (map (\<lambda>sc. concat (map (\<lambda>d. map (\<lambda>c.
     \<lparr>ce_scenario = sc, ce_depth = d, ce_config = c\<rparr>) unbuffered_all) DEPTHS)) SCENARIOS)"

record unbuffered_plan =
  up_read_file_bytes :: u64
  up_random_block :: usize
  up_sequential_block :: usize
  up_operations :: nat
  up_depths :: "nat list"

definition plan_full :: unbuffered_plan where
  "plan_full = \<lparr>up_read_file_bytes = 256 * 1024 * 1024, up_random_block = 4 * 1024,
     up_sequential_block = 64 * 1024, up_operations = 256, up_depths = DEPTHS\<rparr>"

definition plan_small :: unbuffered_plan where
  "plan_small = \<lparr>up_read_file_bytes = 1024 * 1024, up_random_block = 4 * 1024,
     up_sequential_block = 64 * 1024, up_operations = 8, up_depths = [1, 8]\<rparr>"

definition plan_block :: "scenario \<Rightarrow> unbuffered_plan \<Rightarrow> usize" where
  "plan_block sc p = (case sc of SequentialRead \<Rightarrow> up_sequential_block p | _ \<Rightarrow> up_random_block p)"

definition plan_benchmarks :: "unbuffered_plan \<Rightarrow> nat" where
  "plan_benchmarks p = length SCENARIOS * length (up_depths p) * length unbuffered_all"

section \<open>The offsets\<close>

text \<open>\<open>None\<close> is the overflow of \<open>slots\<close>, which only an empty block in a file of \<open>u64::MAX\<close> reaches.\<close>

fun lcg_offsets :: "nat \<Rightarrow> u64 \<Rightarrow> u64 \<Rightarrow> u64 \<Rightarrow> u64 list" where
  "lcg_offsets 0 slots align state = []"
| "lcg_offsets (Suc n) slots align state =
     (let state' = state * 6364136223846793005 + 1442695040888963407
      in (drop_bit 16 state' mod slots) * align # lcg_offsets n slots align state')"

definition offset_span :: "usize \<Rightarrow> usize \<Rightarrow> u64 \<Rightarrow> u64" where
  "offset_span block align file_bytes =
     (if file_bytes < block then 0 else file_bytes - block) div max align 1"

definition offsets :: "scenario \<Rightarrow> nat \<Rightarrow> usize \<Rightarrow> usize \<Rightarrow> u64 \<Rightarrow> u64 list option" where
  "offsets sc operations block align file_bytes =
     (let span = offset_span block align file_bytes; slots = span + 1
      in if span = -1 then None
         else Some (case sc of
             SequentialRead \<Rightarrow> map (\<lambda>i. (of_nat i mod slots) * max align 1) [0..<operations]
           | _ \<Rightarrow> lcg_offsets operations slots (max align 1) 0x2545F4914F6CDD1D))"

section \<open>The measured loop\<close>

fun issue_more ::
    "('file, 'buf, 'fut, 'b) bench_backend \<Rightarrow> 'file \<Rightarrow> usize \<Rightarrow> u64 list \<Rightarrow> 'fut list \<Rightarrow> 'b
      \<Rightarrow> (io_error + u64 list \<times> 'fut list) \<times> 'b" where
  "issue_more K file block [] in_flight b = (Inr ([], in_flight), b)"
| "issue_more K file block (offset # rest) in_flight b =
     (case bk_take_buffer K (unat block) b of
        (Inr buf, b') \<Rightarrow>
          issue_more K file block rest (in_flight @ [bk_read_at K file buf (ucast block) offset]) b'
      | (Inl e, b') \<Rightarrow>
          (if io_kind e = WouldBlock then (Inr (offset # rest, in_flight), b') else (Inl e, b')))"

definition short_read :: "usize \<Rightarrow> u32 \<Rightarrow> io_error" where
  "short_read block n = IoError UnexpectedEof (''a '' @ show_unsigned block @ ''-byte read returned '' @
     show_unsigned n @ '' bytes; a short read did less work than the measurement claims'')"

definition no_progress :: io_error where
  "no_progress = IoError WouldBlock (''no operation is outstanding and no buffer is available, so '' @
     ''the run cannot make progress'')"

partial_function (option) issue_loop ::
    "('file, 'buf, 'fut, 'b) bench_backend \<Rightarrow> 'file \<Rightarrow> usize \<Rightarrow> u64 list \<Rightarrow> 'fut list \<Rightarrow> usize \<Rightarrow> 'b
      \<Rightarrow> ((io_error + usize) \<times> 'b) option" where
  "issue_loop K file block rest in_flight delivered b =
     (case issue_more K file block rest in_flight b of
        (Inl e, b1) \<Rightarrow> Some (Inl e, b1)
      | (Inr (rest1, in_flight1), b1) \<Rightarrow>
          (if in_flight1 = [] then Some (if rest1 = [] then Inr delivered else Inl no_progress, b1)
           else case bk_await K in_flight1 b1 of
               None \<Rightarrow> None
             | Some (i, result, buf, b2) \<Rightarrow>
                 (case result of
                    Inl e \<Rightarrow> Some (Inl e, bk_put_buffer K buf b2)
                  | Inr n \<Rightarrow>
                      if ucast n \<noteq> block then Some (Inl (short_read block n), bk_put_buffer K buf b2)
                      else if unat delivered + unat n < 2 ^ 64 then
                        issue_loop K file block rest1 (drop_nth i in_flight1) (delivered + ucast n)
                          (bk_put_buffer K buf b2)
                      else None)))"

definition issue_reads ::
    "('file, 'buf, 'fut, 'b) bench_backend \<Rightarrow> 'file \<Rightarrow> u64 list \<Rightarrow> usize \<Rightarrow> 'b
      \<Rightarrow> ((io_error + usize) \<times> 'b) option" where
  "issue_reads K file offs block b = issue_loop K file block offs [] 0 b"

section \<open>Where the offsets lie\<close>

lemma slot_inside:
  assumes "block \<le> file_bytes" "offset_span block align file_bytes \<noteq> -1"
  defines "a \<equiv> max align 1" and "slots \<equiv> offset_span block align file_bytes + 1"
  shows "unat ((x mod slots) * a) = unat x mod unat slots * unat a"
    "unat a dvd unat ((x mod slots) * a)"
    "unat ((x mod slots) * a) + unat block \<le> unat file_bytes"
proof -
  let ?span = "offset_span block align file_bytes" and ?room = "unat file_bytes - unat block"
  have span: "unat ?span = ?room div unat a"
    using assms(1) leD [OF assms(1)] by (simp add: offset_span_def a_def unat_div unat_sub)
  have slots: "unat slots = unat ?span + 1"
    using assms(2) unfolding slots_def by (rule unat_succ)
  then have m: "unat (x mod slots) \<le> unat ?span" by (simp add: unat_mod less_Suc_eq_le [symmetric])
  then have le: "unat (x mod slots) * unat a \<le> ?room"
    using span by (metis le_trans mult_le_mono1 div_times_less_eq_dividend)
  also have "?room < 2 ^ LENGTH(64)" by (rule le_less_trans [OF diff_le_self unsigned_less])
  finally have "unat ((x mod slots) * a) = unat (x mod slots) * unat a"
    by (simp add: unat_word_ariths)
  then show "unat ((x mod slots) * a) = unat x mod unat slots * unat a"
    "unat a dvd unat ((x mod slots) * a)" "unat ((x mod slots) * a) + unat block \<le> unat file_bytes"
    using le assms(1) by (simp_all add: unat_mod word_le_nat_alt)
qed

lemma lcg_length: "length (lcg_offsets n slots align state) = n"
  by (induction n arbitrary: state) (simp_all add: Let_def)

lemma lcg_slots: "o' \<in> set (lcg_offsets n slots align state) \<Longrightarrow> \<exists>x. o' = (x mod slots) * align"
  by (induction n arbitrary: state) (auto simp: Let_def)

lemma offsets_length: "offsets sc operations block align file_bytes = Some offs \<Longrightarrow> length offs = operations"
  by (auto simp: offsets_def Let_def lcg_length split: if_splits scenario.splits)

lemma offsets_slots:
  assumes "offsets sc operations block align file_bytes = Some offs" "x \<in> set offs"
  shows "\<exists>y. x = (y mod (offset_span block align file_bytes + 1)) * max align 1"
  using assms by (cases sc) (auto simp: offsets_def Let_def split: if_splits dest!: lcg_slots)

lemma offsets_inside:
  assumes "offsets sc operations block align file_bytes = Some offs" "block \<le> file_bytes" "x \<in> set offs"
  shows "unat (max align 1) dvd unat x" "unat x + unat block \<le> unat file_bytes"
proof -
  have "offset_span block align file_bytes \<noteq> -1" using assms(1) by (auto simp: offsets_def Let_def split: if_splits)
  then show "unat (max align 1) dvd unat x" "unat x + unat block \<le> unat file_bytes"
    using offsets_slots [OF assms(1,3)] slot_inside [OF assms(2)] by auto
qed

text \<open>A file that cannot hold one block is read at its start, past its end; no caller excludes it.\<close>

lemma offsets_short_file:
  assumes "offsets sc operations block align file_bytes = Some offs" "file_bytes < block" "x \<in> set offs"
  shows "x = 0"
proof -
  have "offset_span block align file_bytes = 0" using assms(2) by (simp add: offset_span_def)
  with offsets_slots [OF assms(1,3)] show ?thesis by auto
qed

lemma sequential_slots:
  assumes "offsets SequentialRead operations block align file_bytes = Some offs" "block \<le> file_bytes"
    and "operations \<le> unat (offset_span block align file_bytes)" "k < operations"
  shows "unat (offs ! k) = k * unat (max align 1)"
proof -
  have s: "offset_span block align file_bytes \<noteq> -1"
    and o: "offs = map (\<lambda>i. (of_nat i mod (offset_span block align file_bytes + 1)) * max align 1) [0..<operations]"
    using assms(1) by (auto simp: offsets_def Let_def split: if_splits)
  have "unat (offset_span block align file_bytes) < 2 ^ LENGTH(64)" by (rule unsigned_less)
  then have "k < 2 ^ 64" using assms(3,4) by simp
  then have k: "unat (of_nat k :: u64) = k" by (simp add: unat_of_nat)
  have "unat (offset_span block align file_bytes + 1) = unat (offset_span block align file_bytes) + 1"
    using s by (rule unat_succ)
  then show ?thesis using o assms(3,4) slot_inside(1) [OF assms(2) s, of "of_nat k"] by (simp add: k)
qed

section \<open>What the loop does\<close>

text \<open>
  What the loop relies on: a pool that hands out a buffer while it has room, takes it back, and
  refuses with \<open>WouldBlock\<close> when it has none; and a wait that answers with one of the reads in
  flight and its buffer. \<open>history\<close> is what the waits saw and answered.
\<close>

type_synonym 'fut wait_log = "('fut list \<times> nat \<times> (io_error + u32)) list"

definition read_started ::
    "('file, 'buf, 'fut, 'b) bench_backend \<Rightarrow> 'file \<Rightarrow> usize \<Rightarrow> ('buf \<Rightarrow> bool) \<Rightarrow> ('fut \<times> u64) \<Rightarrow> bool" where
  "read_started K file block usable = (\<lambda>(f, offset). \<exists>buf. usable buf \<and> f = bk_read_at K file buf (ucast block) offset)"

definition serves ::
    "('file, 'buf, 'fut, 'b) bench_backend \<Rightarrow> 'file \<Rightarrow> usize \<Rightarrow> ('b \<Rightarrow> bool) \<Rightarrow> ('b \<Rightarrow> nat) \<Rightarrow> ('b \<Rightarrow> 'fut wait_log)
      \<Rightarrow> ('buf \<Rightarrow> bool) \<Rightarrow> bool" where
  "serves K file block pool_ok room history usable \<longleftrightarrow>
     (\<forall>b. pool_ok b \<longrightarrow>
        (case bk_take_buffer K (unat block) b of
           (Inr buf, b') \<Rightarrow> 0 < room b \<and> usable buf \<and> pool_ok b' \<and> room b' = room b - 1 \<and> history b' = history b
         | (Inl e, b') \<Rightarrow> room b = 0 \<and> io_kind e = WouldBlock \<and> b' = b)) \<and>
     (\<forall>b buf. pool_ok b \<longrightarrow> usable buf \<longrightarrow> pool_ok (bk_put_buffer K buf b) \<and>
        room (bk_put_buffer K buf b) = room b + 1 \<and> history (bk_put_buffer K buf b) = history b) \<and>
     (\<forall>b reads. pool_ok b \<longrightarrow> reads \<noteq> [] \<longrightarrow> list_all (read_started K file block usable) reads \<longrightarrow>
        (\<exists>i r buf b'. bk_await K (map fst reads) b = Some (i, r, buf, b') \<and> i < length reads \<and> usable buf \<and>
           pool_ok b' \<and> room b' = room b \<and> history b' = history b @ [(map fst reads, i, r)]))"

lemma issue_more_serves:
  assumes "serves K file block pool_ok room history usable" "pool_ok b"
  shows "\<exists>reads b'. issue_more K file block rest in_flight b =
      (Inr (drop (min (room b) (length rest)) rest, in_flight @ map fst reads), b') \<and>
    map snd reads = take (min (room b) (length rest)) rest \<and> list_all (read_started K file block usable) reads \<and>
    pool_ok b' \<and> room b' = room b - min (room b) (length rest) \<and> history b' = history b"
  using assms(2)
proof (induction rest arbitrary: in_flight b)
  case Nil
  then show ?case by (intro exI [of _ "[]"]) simp
next
  case (Cons offset rest)
  obtain x b1 where x: "bk_take_buffer K (unat block) b = (x, b1)" by (cases "bk_take_buffer K (unat block) b")
  have t: "case x of Inr buf \<Rightarrow> 0 < room b \<and> usable buf \<and> pool_ok b1 \<and> room b1 = room b - 1 \<and> history b1 = history b
      | Inl e \<Rightarrow> room b = 0 \<and> io_kind e = WouldBlock \<and> b1 = b"
    using assms(1) Cons.prems x unfolding serves_def by (auto split: prod.splits sum.splits)
  show ?case
  proof (cases x)
    case (Inl e)
    with t x Cons.prems show ?thesis by (intro exI [of _ "[]"]) simp
  next
    case (Inr buf)
    let ?f = "bk_read_at K file buf (ucast block) offset"
    from t Inr have t: "0 < room b" "usable buf" "pool_ok b1" "room b1 = room b - 1" "history b1 = history b" by simp_all
    obtain reads b' where r: "issue_more K file block rest (in_flight @ [?f]) b1 =
        (Inr (drop (min (room b1) (length rest)) rest, (in_flight @ [?f]) @ map fst reads), b')"
      "map snd reads = take (min (room b1) (length rest)) rest" "list_all (read_started K file block usable) reads"
      "pool_ok b'" "room b' = room b1 - min (room b1) (length rest)" "history b' = history b1"
      using Cons.IH [OF t(3), of "in_flight @ [?f]"] by blast
    have m: "min (room b) (length (offset # rest)) = Suc (min (room b1) (length rest))" using t(1,4) by simp
    have "read_started K file block usable (?f, offset)" using t(2) by (auto simp: read_started_def)
    then show ?thesis unfolding m using r t x Inr by (intro exI [of _ "(?f, offset) # reads"] exI [of _ b']) simp
  qed
qed

text \<open>What a run's answer means, in terms of what its waits saw.\<close>

definition whole :: "usize \<Rightarrow> io_error + u32 \<Rightarrow> bool" where
  "whole block r \<longleftrightarrow> (case r of Inr n \<Rightarrow> ucast n = block | Inl _ \<Rightarrow> False)"

definition read_failure :: "usize \<Rightarrow> io_error + u32 \<Rightarrow> io_error" where
  "read_failure block r = (case r of Inl e \<Rightarrow> e | Inr n \<Rightarrow> short_read block n)"

definition seen :: "(('fut \<times> u64) list \<times> nat \<times> (io_error + u32)) list \<Rightarrow> 'fut wait_log" where
  "seen steps = map (\<lambda>(reads, i, r). (map fst reads, i, r)) steps"

definition completed :: "(('fut \<times> u64) list \<times> nat \<times> (io_error + u32)) list \<Rightarrow> u64 list" where
  "completed steps = map (\<lambda>(reads, i, r). snd (reads ! i)) steps"

definition step_ok ::
    "(('fut \<times> u64) \<Rightarrow> bool) \<Rightarrow> nat \<Rightarrow> u64 set \<Rightarrow> ('fut \<times> u64) list \<times> nat \<times> (io_error + u32) \<Rightarrow> bool" where
  "step_ok started n wanted = (\<lambda>(reads, i, r). i < length reads \<and> length reads \<le> n \<and> list_all started reads \<and>
     snd ` set reads \<subseteq> wanted)"

definition outcome_means ::
    "usize \<Rightarrow> u64 list \<Rightarrow> usize \<Rightarrow> (('fut \<times> u64) list \<times> nat \<times> (io_error + u32)) list \<Rightarrow> io_error + usize \<Rightarrow> bool" where
  "outcome_means block wanted delivered steps out \<longleftrightarrow>
     (case out of
        Inr n \<Rightarrow> unat n = unat delivered + unat block * length wanted \<and>
          list_all (\<lambda>(reads, i, r). whole block r) steps \<and> mset (completed steps) = mset wanted
      | Inl e \<Rightarrow> \<exists>before reads i r. steps = before @ [(reads, i, r)] \<and>
          list_all (\<lambda>(reads, i, r). whole block r) before \<and> \<not> whole block r \<and> e = read_failure block r)"

lemma step_ok_mono: "\<lbrakk>step_ok started n A x; A \<subseteq> B\<rbrakk> \<Longrightarrow> step_ok started n B x"
  by (auto simp: step_ok_def split: prod.splits)

lemma outcome_means_Cons:
  assumes "whole block r" "i < length all" "outcome_means block (map snd (drop_nth i all) @ rest) d' steps out"
    and "unat d' = unat d + unat block" and wanted: "mset wanted = mset (map snd all) + mset rest"
  shows "outcome_means block wanted d ((all, i, r) # steps) out"
proof (cases out)
  case (Inl e)
  with assms(3) obtain before rs j x where "steps = before @ [(rs, j, x)]"
    "list_all (\<lambda>(reads, i, r). whole block r) before" "\<not> whole block x" "e = read_failure block x"
    unfolding outcome_means_def by auto
  then have "\<exists>before rs j x. (all, i, r) # steps = before @ [(rs, j, x)] \<and>
      list_all (\<lambda>(reads, i, r). whole block r) before \<and> \<not> whole block x \<and> e = read_failure block x"
    using assms(1) by (intro exI [of _ "(all, i, r) # before"] exI [of _ rs] exI [of _ j] exI [of _ x]) simp
  then show ?thesis unfolding outcome_means_def Inl sum.case .
next
  case (Inr n)
  with assms(3) have c: "mset (completed steps) = mset (map snd (drop_nth i all) @ rest)" by (simp add: outcome_means_def)
  have "mset (map snd all) = add_mset (snd (all ! i)) (mset (map snd (drop_nth i all)))"
    using drop_nth_mset [of i "map snd all"] assms(2) by (simp add: drop_nth_map)
  then have "mset (completed ((all, i, r) # steps)) = mset wanted"
    unfolding wanted using c by (simp add: completed_def)
  moreover from this have "length wanted = Suc (length (completed steps))"
    by (metis completed_def length_Cons length_map size_mset)
  moreover have "length (completed steps) = length (map snd (drop_nth i all) @ rest)" using c by (rule mset_eq_length)
  ultimately show ?thesis using assms(1,3,4) Inr by (simp add: outcome_means_def)
qed

text \<open>One turn of the loop, while something is left.\<close>

lemma issue_turn:
  assumes serves: "serves K file block pool_ok room history usable" and b: "pool_ok b"
    and reads: "list_all (read_started K file block usable) reads" and left: "rest \<noteq> [] \<or> reads \<noteq> []"
    and room: "0 < room b + length reads \<or> rest = []"
  shows "\<exists>all rest1 i r b3. i < length all \<and> list_all (read_started K file block usable) all \<and>
    length rest1 + length all = length rest + length reads \<and>
    room b3 + length all = room b + length reads + 1 \<and> 0 < room b3 \<and> pool_ok b3 \<and>
    mset (map snd reads @ rest) = mset (map snd all) + mset rest1 \<and>
    history b3 = history b @ [(map fst all, i, r)] \<and>
    issue_loop K file block rest (map fst reads) delivered b =
      (case r of Inl e \<Rightarrow> Some (Inl e, b3)
       | Inr n \<Rightarrow> if ucast n \<noteq> block then Some (Inl (short_read block n), b3)
           else if unat delivered + unat n < 2 ^ 64 then
             issue_loop K file block rest1 (map fst (drop_nth i all)) (delivered + ucast n) b3
           else None)"
proof -
  let ?started = "read_started K file block usable"
  define m where "m = min (room b) (length rest)"
  obtain more b1 where more: "issue_more K file block rest (map fst reads) b =
      (Inr (drop m rest, map fst reads @ map fst more), b1)"
    "map snd more = take m rest" "list_all ?started more" "pool_ok b1" "room b1 = room b - m" "history b1 = history b"
    using issue_more_serves [OF serves b, of rest "map fst reads"] unfolding m_def by blast
  define all where "all = reads @ more"
  have len: "length more = m" using more(2) by (metis length_map length_take m_def min.absorb2 min.cobounded2)
  have ne: "all \<noteq> []"
  proof
    assume "all = []"
    then have "reads = []" "m = 0" using len by (simp_all add: all_def)
    then show False using left room by (auto simp: m_def min_def split: if_splits)
  qed
  have st: "list_all ?started all" using reads more(3) by (simp add: all_def)
  obtain i r buf b2 where aw: "bk_await K (map fst all) b1 = Some (i, r, buf, b2)" "i < length all" "usable buf"
    "pool_ok b2" "room b2 = room b1" "history b2 = history b1 @ [(map fst all, i, r)]"
    using serves more(4) ne st unfolding serves_def by blast
  define b3 where "b3 = bk_put_buffer K buf b2"
  have b3: "pool_ok b3" "room b3 = room b1 + 1" "history b3 = history b1 @ [(map fst all, i, r)]"
    using serves aw(3-6) unfolding serves_def b3_def by auto
  have "issue_loop K file block rest (map fst reads) delivered b =
      (case r of Inl e \<Rightarrow> Some (Inl e, b3)
       | Inr n \<Rightarrow> if ucast n \<noteq> block then Some (Inl (short_read block n), b3)
           else if unat delivered + unat n < 2 ^ 64 then
             issue_loop K file block (drop m rest) (map fst (drop_nth i all)) (delivered + ucast n) b3
           else None)"
    using ne by (subst issue_loop.simps) (simp add: more(1) all_def [symmetric] map_append [symmetric] aw(1) del: map_append,
        simp only: b3_def drop_nth_map)
  moreover have "mset (map snd reads @ rest) = mset (map snd all) + mset (drop m rest)"
    using more(2) by (simp add: all_def) (metis append_take_drop_id mset_append)
  moreover have "length (drop m rest) + length all = length rest + length reads"
    "room b3 + length all = room b + length reads + 1"
    using b3(2) more(5) len by (simp_all add: all_def m_def)
  ultimately show ?thesis using st aw(2) b3 more(6)
    by (intro exI [of _ all] exI [of _ "drop m rest"] exI [of _ i] exI [of _ r] exI [of _ b3]) simp
qed

lemma whole_unat: "whole block r \<Longrightarrow> \<exists>n. r = Inr n \<and> ucast n = block \<and> unat n = unat block"
proof -
  assume "whole block r"
  then obtain n :: u32 where n: "r = Inr n" "ucast n = block" by (auto simp: whole_def split: sum.splits)
  have "unat n < 2 ^ LENGTH(32)" by (rule unsigned_less)
  then have "take_bit 64 (unat n) = unat n" by (simp add: take_bit_nat_eq_self_iff)
  then show ?thesis using n by (simp add: unsigned_ucast_eq flip: n(2))
qed

lemma issue_loop_serves:
  assumes serves: "serves K file block pool_ok room history usable"
  shows "\<lbrakk>pool_ok b; list_all (read_started K file block usable) reads; 0 < room b + length reads \<or> rest = [];
      unat delivered + unat block * (length rest + length reads) < 2 ^ 64\<rbrakk> \<Longrightarrow>
    \<exists>out b' steps. issue_loop K file block rest (map fst reads) delivered b = Some (out, b') \<and>
      history b' = history b @ seen steps \<and>
      list_all (step_ok (read_started K file block usable) (room b + length reads) (set (map snd reads @ rest))) steps \<and>
      outcome_means block (map snd reads @ rest) delivered steps out \<and>
      (\<forall>n. out = Inr n \<longrightarrow> room b' = room b + length reads)"
proof (induction "length rest + length reads" arbitrary: rest reads delivered b)
  case 0
  then have "rest = []" "reads = []" by simp_all
  then show ?case using 0
    by (subst issue_loop.simps) (simp add: seen_def outcome_means_def completed_def)
next
  case (Suc k)
  let ?started = "read_started K file block usable" and ?n = "room b + length reads"
    and ?wanted = "map snd reads @ rest"
  have "rest \<noteq> [] \<or> reads \<noteq> []" using Suc.hyps(2) by auto
  then obtain all rest1 i r b3 where turn: "i < length all" "list_all ?started all"
    "length rest1 + length all = length rest + length reads" "room b3 + length all = ?n + 1" "0 < room b3" "pool_ok b3"
    "mset ?wanted = mset (map snd all) + mset rest1" "history b3 = history b @ [(map fst all, i, r)]"
    and unfold: "issue_loop K file block rest (map fst reads) delivered b =
      (case r of Inl e \<Rightarrow> Some (Inl e, b3)
       | Inr n \<Rightarrow> if ucast n \<noteq> block then Some (Inl (short_read block n), b3)
           else if unat delivered + unat n < 2 ^ 64 then
             issue_loop K file block rest1 (map fst (drop_nth i all)) (delivered + ucast n) b3
           else None)"
    using issue_turn [OF serves Suc.prems(1,2) _ Suc.prems(3), of delivered] by blast
  have sub: "set ?wanted = snd ` set all \<union> set rest1"
    using arg_cong [OF turn(7), of set_mset] by (simp add: Un_commute)
  have this_ok: "step_ok ?started ?n (set ?wanted) (all, i, r)"
    unfolding sub using turn(1,2,4,5) by (auto simp: step_ok_def)
  show ?case
  proof (cases "whole block r")
    case False
    let ?e = "read_failure block r"
    have "issue_loop K file block rest (map fst reads) delivered b = Some (Inl ?e, b3)"
      unfolding unfold using False by (cases r) (simp_all add: whole_def read_failure_def)
    moreover have "outcome_means block ?wanted delivered [(all, i, r)] (Inl ?e)"
      using False by (simp add: outcome_means_def)
    ultimately show ?thesis using this_ok turn(8)
      by (intro exI [of _ "Inl ?e"] exI [of _ b3] exI [of _ "[(all, i, r)]"]) (simp add: seen_def)
  next
    case True
    then obtain n where n: "r = Inr n" "ucast n = block" "unat n = unat block" using whole_unat by blast
    let ?left = "drop_nth i all"
    have size: "length rest + length reads = Suc k" "length rest1 + length ?left = k"
      using Suc.hyps(2) turn(1,3) drop_nth_length [OF turn(1)] by simp_all
    have "unat delivered + unat block + unat block * k < 2 ^ 64" using Suc.prems(4) unfolding size(1) by simp
    then have fits: "unat delivered + unat block < 2 ^ 64" and later: "unat delivered + unat block + unat block * k < 2 ^ 64"
      by linarith+
    have d: "unat (delivered + ucast n) = unat delivered + unat block" using fits by (simp add: n(2) unat_word_ariths)
    have bound: "room b3 + length ?left = ?n" using turn(1,4) drop_nth_length [OF turn(1)] by simp
    have st: "list_all ?started ?left" using turn(2) set_drop_nth [of i all] by (auto simp: list_all_iff)
    have pos: "0 < room b3 + length ?left \<or> rest1 = []" using turn(5) by simp
    have "unat (delivered + ucast n) + unat block * (length rest1 + length ?left) < 2 ^ 64"
      unfolding d size(2) by (rule later)
    from Suc.hyps(1) [OF size(2) [symmetric] turn(6) st pos this] obtain out b' steps where ih:
      "issue_loop K file block rest1 (map fst ?left) (delivered + ucast n) b3 = Some (out, b')"
      "history b' = history b3 @ seen steps"
      "list_all (step_ok ?started ?n (set (map snd ?left @ rest1))) steps"
      "outcome_means block (map snd ?left @ rest1) (delivered + ucast n) steps out"
      "\<forall>n. out = Inr n \<longrightarrow> room b' = ?n"
      unfolding bound by blast
    have "set (map snd ?left @ rest1) \<subseteq> set ?wanted" unfolding sub using set_drop_nth [of i all] by auto
    then have "list_all (step_ok ?started ?n (set ?wanted)) steps"
      using ih(3) unfolding list_all_iff by (meson step_ok_mono)
    moreover have "outcome_means block ?wanted delivered ((all, i, r) # steps) out"
      by (rule outcome_means_Cons [OF True turn(1) ih(4) d turn(7)])
    moreover have "issue_loop K file block rest (map fst reads) delivered b = Some (out, b')"
      unfolding unfold n(1) using n(2,3) fits ih(1) by simp
    ultimately show ?thesis using ih(2,5) this_ok turn(8)
      by (intro exI [of _ out] exI [of _ b'] exI [of _ "(all, i, r) # steps"]) (simp add: seen_def)
  qed
qed

end
