(* ===== verification/Bench_Pools.thy ===== *)
theory Bench_Pools
  imports Bench_Unbuffered
begin

text \<open>
  The pools and backends of the unbuffered reads (\<open>unbuffered.rs\<close> of \<open>win-ioring-bench\<close>), and
  what the measured loop does on them.

  The three pools of aligned buffers (the plain ring, compio, the thread pool) are the same code;
  the registered one is a stack of indices over a registration. Allocating, opening a file,
  waiting for the reads in flight and checking out a registered buffer are arguments.
\<close>

section \<open>Pools and backends\<close>

type_synonym pool_buf = "aligned_buf \<times> memory"

definition no_free_buffer :: io_error where
  "no_free_buffer = IoError WouldBlock ''the pool holds no free buffer''"

text \<open>A buffer that is too small goes back to the pool.\<close>

definition take_aligned :: "nat \<Rightarrow> pool_buf list \<Rightarrow> (io_error + pool_buf) \<times> pool_buf list" where
  "take_aligned capacity pool =
     (if pool = [] then (Inl no_free_buffer, pool)
      else let buf = last pool; rest = butlast pool in
        if unat (ab_cap (fst buf)) < capacity
        then (Inl (IoError InvalidInput (''a '' @ show_base 10 capacity @
          ''-byte read needs a buffer of at least that capacity, not '' @ show_unsigned (ab_cap (fst buf)))), rest @ [buf])
        else (Inr buf, rest))"

text \<open>\<open>allocs n\<close> is what the allocator answers the n-th time.\<close>

fun new_pool ::
    "(nat \<Rightarrow> usize \<Rightarrow> usize \<Rightarrow> usize) \<Rightarrow> nat \<Rightarrow> nat \<Rightarrow> usize \<Rightarrow> usize \<Rightarrow> memory \<Rightarrow> io_error + pool_buf list \<times> memory" where
  "new_pool allocs n 0 capacity align mem = Inr ([], mem)"
| "new_pool allocs n (Suc k) capacity align mem =
     (case aligned_new (allocs n) mem capacity align of
        Inl e \<Rightarrow> Inl e
      | Inr (b, mem') \<Rightarrow>
          (case new_pool allocs (n + 1) k capacity align mem' of
             Inl e \<Rightarrow> Inl e
           | Inr (bs, mem'') \<Rightarrow> Inr ((b, mem') # bs, mem'')))"

definition unsupported_write :: io_error where
  "unsupported_write = IoError Unsupported
     (''the unbuffered arm measures reads only; an unbuffered write would need '' @
      ''its own alignment and end-of-file treatment, and is recorded as a '' @
      ''phase candidate rather than half-built here'')"

datatype 'file ub_future =
    UnbufferedRead (ub_target: 'file) (ub_held: "aligned_buf \<times> memory") (ub_length: u32) (ub_at: u64)
  | RefusedWrite "aligned_buf \<times> memory"

type_synonym ('file, 'e) ub_wait =
  "'file ub_future list \<Rightarrow> 'e \<Rightarrow> (nat \<times> (io_error + u32) \<times> (aligned_buf \<times> memory) \<times> 'e) option"

text \<open>A refused write is complete the moment it is awaited.\<close>

fun first_refused :: "nat \<Rightarrow> 'file ub_future list \<Rightarrow> (nat \<times> pool_buf) option" where
  "first_refused n [] = None"
| "first_refused n (RefusedWrite buf # fs) = Some (n, buf)"
| "first_refused n (UnbufferedRead file buf len offset # fs) = first_refused (n + 1) fs"

definition unbuffered_ioring ::
    "(string \<Rightarrow> u32 \<Rightarrow> 'e \<Rightarrow> (io_error + 'file) \<times> 'e) \<Rightarrow> ('file, 'e) ub_wait
      \<Rightarrow> ('file, pool_buf, 'file ub_future, pool_buf list \<times> 'e) bench_backend" where
  "unbuffered_ioring open_file wait =
     \<lparr>bk_open_read = \<lambda>path (pool, e). (case open_file path READ_FLAGS e of (r, e') \<Rightarrow> Some (r, (pool, e'))),
      bk_open_write = \<lambda>path s. Some (Inl unsupported_write, s),
      bk_take_buffer = \<lambda>capacity (pool, e). (case take_aligned capacity pool of (r, pool') \<Rightarrow> (r, (pool', e))),
      bk_put_buffer = \<lambda>buf (pool, e). (pool @ [buf], e),
      bk_read_at = UnbufferedRead,
      bk_write_at = \<lambda>file buf len offset. RefusedWrite buf,
      bk_await = \<lambda>pending (pool, e).
        (case first_refused 0 pending of
           Some (i, buf) \<Rightarrow> Some (i, Inl unsupported_write, buf, (pool, e))
         | None \<Rightarrow> (case wait pending e of None \<Rightarrow> None | Some (i, r, buf, e') \<Rightarrow> Some (i, r, buf, (pool, e')))),
      bk_sync = \<lambda>file s. Some (Inr (), s),
      bk_bytes = \<lambda>(b, mem). aligned_filled mem b,
      bk_fill = \<lambda>src (b, mem). aligned_fill mem src b\<rparr>"

text \<open>The registered backend: a stack of free indices over a registration made by the driver.\<close>

record 'e registered_state =
  rg_free :: "u32 list"
  rg_registered :: bool
  rg_buffer_len :: usize
  rg_env :: 'e

definition registered_new :: "'e \<Rightarrow> 'e registered_state" where
  "registered_new e = \<lparr>rg_free = [], rg_registered = False, rg_buffer_len = 0, rg_env = e\<rparr>"

definition registered_register ::
    "nat \<Rightarrow> usize \<Rightarrow> (io_error + unit) \<Rightarrow> 'e \<Rightarrow> 'e registered_state \<Rightarrow> (io_error + unit) \<times> 'e registered_state" where
  "registered_register n capacity answer e s =
     (case answer of
        Inl x \<Rightarrow> (Inl x, s\<lparr>rg_env := e\<rparr>)
      | Inr _ \<Rightarrow> (Inr (), s\<lparr>rg_free := rev (map of_nat [0..<n]), rg_registered := True,
                          rg_buffer_len := capacity, rg_env := e\<rparr>))"

definition registered_take ::
    "(u32 \<Rightarrow> 'e \<Rightarrow> (io_error + 'buf) \<times> 'e) \<Rightarrow> nat \<Rightarrow> 'e registered_state \<Rightarrow> (io_error + 'buf) \<times> 'e registered_state" where
  "registered_take check_out capacity s =
     (if unat (rg_buffer_len s) < capacity
      then (Inl (IoError InvalidInput (''a '' @ show_base 10 capacity @ ''-byte read exceeds the '' @
        show_unsigned (rg_buffer_len s) @ ''-byte registered buffer size'')), s)
      else if rg_free s = [] then (Inl no_free_buffer, s)
      else let index = last (rg_free s); s1 = s\<lparr>rg_free := butlast (rg_free s)\<rparr>;
               put_back = (\<lambda>s. s\<lparr>rg_free := rg_free s @ [index]\<rparr>) in
        if \<not> rg_registered s
        then (Inl (IoError InvalidInput ''buffers were taken before `register` established them''), put_back s1)
        else (case check_out index (rg_env s1) of
                (Inl e, e') \<Rightarrow> (Inl e, put_back (s1\<lparr>rg_env := e'\<rparr>))
              | (Inr buf, e') \<Rightarrow> (Inr buf, s1\<lparr>rg_env := e'\<rparr>)))"

text \<open>The buffer is dropped after its index was noted, which ends its check-out.\<close>

definition registered_put :: "('buf \<Rightarrow> u32) \<Rightarrow> ('buf \<Rightarrow> 'e \<Rightarrow> 'e) \<Rightarrow> 'buf \<Rightarrow> 'e registered_state \<Rightarrow> 'e registered_state" where
  "registered_put index_of release buf s =
     s\<lparr>rg_free := rg_free s @ [index_of buf], rg_env := release buf (rg_env s)\<rparr>"

text \<open>The thread pool's handles, used in turn; \<open>None\<close> is the division by zero.\<close>

definition pool_pick :: "'h list \<Rightarrow> usize \<Rightarrow> ('h \<times> usize) option" where
  "pool_pick handles next_handle =
     (if handles = [] then None else Some (handles ! (unat next_handle mod length handles), next_handle + 1))"

section \<open>The pools serve the loop\<close>

text \<open>The system's side: it answers with a read in flight and the buffer that read was given.\<close>

definition returns_buffers :: "('file, 'e) ub_wait \<Rightarrow> bool" where
  "returns_buffers wait \<longleftrightarrow>
     (\<forall>pending e. pending \<noteq> [] \<longrightarrow> first_refused 0 pending = None \<longrightarrow>
        (\<exists>i r b mem e'. wait pending e = Some (i, r, (b, mem), e') \<and> i < length pending \<and>
           ab_ptr b = ab_ptr (fst (ub_held (pending ! i))) \<and> ab_cap b = ab_cap (fst (ub_held (pending ! i)))))"

text \<open>A wait that notes what it saw and answered, and is otherwise the one it is made of.\<close>

definition logged ::
    "('file, 'e) ub_wait \<Rightarrow> ('file, 'e \<times> 'file ub_future wait_log) ub_wait" where
  "logged wait pending s =
     (case wait pending (fst s) of
        None \<Rightarrow> None
      | Some (i, r, buf, e') \<Rightarrow> Some (i, r, buf, (e', snd s @ [(pending, i, r)])))"

definition suits :: "usize \<Rightarrow> usize \<Rightarrow> pool_buf \<Rightarrow> bool" where
  "suits align block buf \<longleftrightarrow> unat align dvd unat (ab_ptr (fst buf)) \<and> unat block \<le> unat (ab_cap (fst buf))"

lemma first_refused_reads: "(\<forall>f \<in> set fs. \<exists>file buf len o'. f = UnbufferedRead file buf len o') \<Longrightarrow> first_refused n fs = None"
proof (induction fs arbitrary: n)
  case (Cons f fs)
  then show ?case by (cases f) auto
qed simp

lemma take_aligned_suits:
  assumes "list_all (suits align block) pool"
  shows "case take_aligned (unat block) pool of
      (Inr buf, pool') \<Rightarrow> pool \<noteq> [] \<and> suits align block buf \<and> list_all (suits align block) pool' \<and>
        length pool' = length pool - 1
    | (Inl e, pool') \<Rightarrow> pool = [] \<and> io_kind e = WouldBlock \<and> pool' = pool"
proof (cases "pool = []")
  case True
  then show ?thesis by (simp add: take_aligned_def no_free_buffer_def)
next
  case False
  then have "suits align block (last pool)" "list_all (suits align block) (butlast pool)"
    using assms by (auto simp: list_all_iff dest: in_set_butlastD)
  then show ?thesis using False by (simp add: take_aligned_def suits_def not_less)
qed

lemma ring_serves:
  assumes "returns_buffers wait"
  shows "serves (unbuffered_ioring open_file (logged wait)) file block
    (\<lambda>(pool, e, log). list_all (suits align block) pool) (\<lambda>(pool, e, log). length pool) (\<lambda>(pool, e, log). log)
    (suits align block)"
  unfolding serves_def
proof (intro conjI allI impI, goal_cases)
  case (1 b)
  obtain pool e log where b: "b = (pool, e, log)" by (cases b) auto
  with 1 take_aligned_suits [of align block pool] show ?case
    by (cases "take_aligned (unat block) pool") (auto simp: unbuffered_ioring_def split: sum.splits)
next
  case (5 b reads)
  let ?K = "unbuffered_ioring open_file (logged wait)"
  obtain pool e log where b: "b = (pool, e, log)" by (cases b) auto
  have started: "\<forall>x \<in> set reads. \<exists>buf. suits align block buf \<and> fst x = UnbufferedRead file buf (ucast block) (snd x)"
    using 5(3) by (auto simp: list_all_iff read_started_def unbuffered_ioring_def)
  then have none: "first_refused 0 (map fst reads) = None" by (intro first_refused_reads) auto
  obtain i r buf mem e' where w: "wait (map fst reads) e = Some (i, r, (buf, mem), e')" "i < length reads"
    "ab_ptr buf = ab_ptr (fst (ub_held (map fst reads ! i)))" "ab_cap buf = ab_cap (fst (ub_held (map fst reads ! i)))"
    using assms none 5(2) unfolding returns_buffers_def by (metis length_map map_is_Nil_conv)
  have "\<exists>held. suits align block held \<and> fst (reads ! i) = UnbufferedRead file held (ucast block) (snd (reads ! i))"
    using started w(2) nth_mem by blast
  then have "suits align block (buf, mem)" using w by (auto simp: suits_def)
  then show ?case using 5(1) w(1,2) none by (auto simp: unbuffered_ioring_def logged_def b)
qed (auto simp: unbuffered_ioring_def)

lemma new_pool_suits:
  assumes "new_pool allocs n k capacity align mem = Inr (pool, mem')"
    and "\<And>i c g. allocs i c g \<noteq> 0 \<Longrightarrow> unat g dvd unat (allocs i c g) \<and> unat (allocs i c g) + unat c \<le> 2 ^ 64"
  shows "length pool = k \<and> list_all (suits align capacity) pool \<and> (k \<noteq> 0 \<longrightarrow> is_power_of_two align)"
  using assms(1)
proof (induction k arbitrary: n mem pool)
  case (Suc k)
  obtain b mem1 bs where b: "aligned_new (allocs n) mem capacity align = Inr (b, mem1)"
    "new_pool allocs (n + 1) k capacity align mem1 = Inr (bs, mem')" "pool = (b, mem1) # bs"
    using Suc.prems by (auto split: sum.splits)
  note a = aligned_new_ok [OF b(1)]
  have "max capacity align \<le> ab_cap b"
    using next_multiple(2) [OF a(3)] by (simp add: word_le_nat_alt)
  then have "unat capacity \<le> unat (ab_cap b)" by (simp add: word_le_nat_alt [symmetric])
  then have "suits align capacity (b, mem1)" using assms(2) [of n "ab_cap b" align] a(4,5) by (simp add: suits_def)
  then show ?case using Suc.IH [OF b(2)] b(3) a(1) by simp
qed simp

section \<open>The measured loop\<close>

lemma seen_outcome:
  assumes "outcome_means block wanted 0 steps out"
  shows "case out of
       Inr n \<Rightarrow> unat n = unat block * length wanted \<and> (\<forall>(pending, i, r) \<in> set (seen steps). whole block r) \<and>
         mset (completed steps) = mset wanted
     | Inl e \<Rightarrow> \<exists>before pending i r. seen steps = before @ [(pending, i, r)] \<and>
         (\<forall>(pending, i, r) \<in> set before. whole block r) \<and> \<not> whole block r \<and> e = read_failure block r"
proof (cases out)
  case (Inr n)
  then show ?thesis using assms by (auto simp: outcome_means_def seen_def list_all_iff)
next
  case (Inl e)
  then obtain before reads i r where x: "steps = before @ [(reads, i, r)]" "\<not> whole block r" "e = read_failure block r"
    "list_all (\<lambda>(reads, i, r). whole block r) before"
    using assms by (auto simp: outcome_means_def)
  then have "seen steps = seen before @ [(map fst reads, i, r)]" by (simp add: seen_def)
  moreover have "\<forall>(pending, i, r) \<in> set (seen before). whole block r"
    using x(4) by (auto simp: seen_def list_all_iff)
  ultimately show ?thesis using x(2,3) Inl by auto
qed

text \<open>
  C37: The measured loop does exactly the work it reports. On a pool of \<open>depth\<close> aligned
  buffers and the offsets of a scenario, it returns; at most \<open>depth\<close> reads are ever in flight; each
  of them is of one block of the file, at a multiple of the alignment, into a buffer that
  starts at a multiple of the alignment and holds a block; it lies inside the file if the file
  holds a block at all, and otherwise is at the file's start and runs past its end, which nothing
  here excludes; a count is reported only after every
  offset was read exactly once and in full, is their number times the block, and leaves the pool
  whole; and an error is that of the first read that failed or came back short.
\<close>

theorem unbuffered_reads_exact:
  assumes "new_pool allocs 0 depth block align mem = Inr (pool, mem')" "0 < depth"
    and "\<And>i c g. allocs i c g \<noteq> 0 \<Longrightarrow> unat g dvd unat (allocs i c g) \<and> unat (allocs i c g) + unat c \<le> 2 ^ 64"
    and "offsets sc operations block align file_bytes = Some offs"
    and "unat block * operations < 2 ^ 64" "returns_buffers wait"
  shows "\<exists>out pool' e' log. issue_reads (unbuffered_ioring open_file (logged wait)) file offs block (pool, e, []) =
      Some (out, pool', e', log) \<and>
    (\<forall>(pending, i, r) \<in> set log. i < length pending \<and> length pending \<le> depth \<and>
       (\<forall>f \<in> set pending. \<exists>buf offset. f = UnbufferedRead file buf (ucast block) offset \<and> offset \<in> set offs \<and>
          unat align dvd unat offset \<and> suits align block buf \<and>
          (if block \<le> file_bytes then unat offset + unat block \<le> unat file_bytes else offset = 0))) \<and>
    (case out of
       Inr n \<Rightarrow> unat n = unat block * operations \<and> length pool' = depth \<and>
         (\<forall>(pending, i, r) \<in> set log. whole block r) \<and>
         mset (map (\<lambda>(pending, i, r). ub_at (pending ! i)) log) = mset offs
     | Inl e \<Rightarrow> \<exists>before pending i r. log = before @ [(pending, i, r)] \<and>
         (\<forall>(pending, i, r) \<in> set before. whole block r) \<and> \<not> whole block r \<and> e = read_failure block r)"
proof -
  let ?K = "unbuffered_ioring open_file (logged wait)"
  let ?started = "read_started ?K file block (suits align block)"
  have pool: "length pool = depth" "list_all (suits align block) pool" "is_power_of_two align"
    using new_pool_suits [OF assms(1,3)] assms(2) by simp_all
  obtain j where "unat align = 2 ^ j" using power_of_two_unat [OF pool(3)] by blast
  then have "1 \<le> align" by (simp add: word_le_nat_alt)
  then have one: "max align 1 = align" by (rule max_absorb1)
  have len: "length offs = operations" using offsets_length [OF assms(4)] .
  have s: "serves ?K file block (\<lambda>(pool, e, log). list_all (suits align block) pool)
      (\<lambda>(pool, e, log). length pool) (\<lambda>(pool, e, log). log) (suits align block)"
    by (rule ring_serves [OF assms(6)])
  obtain out b' steps where run: "issue_loop ?K file block offs (map fst []) 0 (pool, e, []) = Some (out, b')"
    "(\<lambda>(pool, e, log). log) b' = (\<lambda>(pool, e, log). log) (pool, e, []) @ seen steps"
    "list_all (step_ok ?started (length pool + length []) (set (map snd [] @ offs))) steps"
    "outcome_means block (map snd [] @ offs) 0 steps out"
    "\<forall>n. out = Inr n \<longrightarrow> (\<lambda>(pool, e, log). length pool) b' = length pool + length []"
    using issue_loop_serves [OF s, of "(pool, e, [])" "[]" offs 0]
      pool assms(2,5) len by auto
  obtain pool' e' where b': "b' = (pool', e', seen steps)" using run(2) by (cases b') auto
  have started: "\<exists>buf. f = UnbufferedRead file buf (ucast block) o' \<and> suits align block buf" if "?started (f, o')" for f o'
    using that by (auto simp: read_started_def unbuffered_ioring_def)
  have lies: "unat align dvd unat offset \<and>
      (if block \<le> file_bytes then unat offset + unat block \<le> unat file_bytes else offset = 0)"
    if "offset \<in> set offs" for offset
    using offsets_inside [OF assms(4) _ that, unfolded one] offsets_short_file [OF assms(4) _ that]
    by (cases "block \<le> file_bytes") auto
  have all: "\<forall>(pending, i, r) \<in> set (seen steps). i < length pending \<and> length pending \<le> depth \<and>
       (\<forall>f \<in> set pending. \<exists>buf offset. f = UnbufferedRead file buf (ucast block) offset \<and> offset \<in> set offs \<and>
          unat align dvd unat offset \<and> suits align block buf \<and>
          (if block \<le> file_bytes then unat offset + unat block \<le> unat file_bytes else offset = 0))"
    using run(3) lies started pool(1) by (fastforce simp: seen_def list_all_iff step_ok_def)
  have "ub_at (map fst reads ! i) = snd (reads ! i)" if "(reads, i, r) \<in> set steps" for reads i r
  proof -
    have "i < length reads" "?started (reads ! i)" using run(3) that by (auto simp: list_all_iff step_ok_def)
    then show ?thesis using started [of "fst (reads ! i)" "snd (reads ! i)"] by auto
  qed
  then have at: "map (\<lambda>(pending, i, r). ub_at (pending ! i)) (seen steps) = completed steps"
    by (auto simp: seen_def completed_def)
  show ?thesis
    using run(1,5) all seen_outcome [OF run(4) [simplified]] at by (auto simp: issue_reads_def b' pool(1) len split: sum.splits)
qed

definition sample_allocs :: "nat \<Rightarrow> usize \<Rightarrow> usize \<Rightarrow> usize" where
  "sample_allocs n c g = (if c = 512 \<and> g = 512 then 65536 else 0)"

definition sample_wait :: "(unit, unit) ub_wait" where
  "sample_wait pending e = (case pending of [] \<Rightarrow> None | f # _ \<Rightarrow> Some (0, Inr 512, ub_held f, e))"

lemma sample_wait_ok: "returns_buffers sample_wait"
  unfolding returns_buffers_def sample_wait_def
proof (intro allI impI)
  fix pending :: "unit ub_future list" and e :: unit
  assume "pending \<noteq> []"
  then obtain f fs where "pending = f # fs" by (cases pending) auto
  then show "\<exists>i r b mem e'. (case pending of [] \<Rightarrow> None | f # _ \<Rightarrow> Some (0, Inr 512, ub_held f, e)) =
      Some (i, r, (b, mem), e') \<and> i < length pending \<and> ab_ptr b = ab_ptr (fst (ub_held (pending ! i))) \<and>
      ab_cap b = ab_cap (fst (ub_held (pending ! i)))"
    by (cases "ub_held f") simp
qed

lemma sample_pool:
  "new_pool sample_allocs 0 1 512 512 (\<lambda>_. 7) =
     Inr ([(\<lparr>ab_ptr = 65536, ab_cap = 512, ab_align = 512, ab_len = 0\<rparr>, zero_bytes (\<lambda>_. 7) 65536 512)],
          zero_bytes (\<lambda>_. 7) 65536 512)"
proof -
  have g: "is_power_of_two (512 :: usize)" unfolding power_of_two_iff by (rule exI [of _ 9]) simp
  have c: "checked_next_multiple_of 512 512 = Some (512 :: usize)" by (simp add: checked_next_multiple_of_def)
  show ?thesis using g c by (simp add: aligned_new_def layout_ok_def sample_allocs_def)
qed

lemmas ring_eval = unbuffered_ioring_def take_aligned_def no_free_buffer_def logged_def sample_wait_def Let_def drop_nth_def

theorem unbuffered_reads_exact_witness:
  "\<exists>pool' log. issue_reads (unbuffered_ioring (\<lambda>_ _ e. (Inr (), e)) (logged sample_wait)) () [0, 512] 512
      ([(\<lparr>ab_ptr = 65536, ab_cap = 512, ab_align = 512, ab_len = 0\<rparr>, zero_bytes (\<lambda>_. 7) 65536 512)], (), []) =
      Some (Inr 1024, pool', (), log) \<and> length pool' = 1 \<and>
     mset (map (\<lambda>(pending, i, r). ub_at (pending ! i)) log) = mset [0, 512]"
proof -
  let ?K = "unbuffered_ioring (\<lambda>_ _ e. (Inr (), e)) (logged sample_wait)"
  have offs: "offsets SequentialRead 2 512 512 1024 = Some [0, 512]"
  proof -
    have "\<not> (512 :: usize) \<le> 1" by (simp add: word_le_nat_alt)
    then have "max (512 :: usize) 1 = 512" by (simp add: max_def)
    moreover from this have "offset_span 512 512 1024 = 1" by (simp add: offset_span_def)
    moreover have "[0..<2] = [0, 1]" by (simp add: upt_rec)
    ultimately show ?thesis by (simp add: offsets_def Let_def)
  qed
  have run: "\<exists>s. issue_reads ?K () [0, 512] 512
      ([(\<lparr>ab_ptr = 65536, ab_cap = 512, ab_align = 512, ab_len = 0\<rparr>, zero_bytes (\<lambda>_. 7) 65536 512)], (), []) =
      Some (Inr 1024, s)"
    unfolding issue_reads_def by ((subst issue_loop.simps, simp add: ring_eval)+)
  have alloc: "\<And>i c g. sample_allocs i c g \<noteq> 0 \<Longrightarrow>
      unat g dvd unat (sample_allocs i c g) \<and> unat (sample_allocs i c g) + unat c \<le> 2 ^ 64"
    by (auto simp: sample_allocs_def split: if_splits)
  show ?thesis
    using unbuffered_reads_exact [OF sample_pool _ alloc offs _ sample_wait_ok, of "\<lambda>_ _ e. (Inr (), e)" "()" "()"] run
    by auto
qed


section \<open>The registered pool and the thread pool's handles\<close>

text \<open>A refusal leaves the free indices as they were; a buffer handed out is the last of them.\<close>

lemma registered_take_cases:
  assumes "registered_take check_out capacity s = (r, s')"
  shows "case r of
      Inl e \<Rightarrow> rg_free s' = rg_free s
    | Inr buf \<Rightarrow> \<exists>index. rg_free s = rg_free s' @ [index] \<and> check_out index (rg_env s) = (Inr buf, rg_env s') \<and>
        capacity \<le> unat (rg_buffer_len s) \<and> rg_registered s"
  using assms by (auto simp: registered_take_def Let_def append_butlast_last_id [symmetric]
    split: if_splits sum.splits prod.splits intro!: exI [of _ "last (rg_free s)"])

text \<open>Any stretch of consecutive reads spreads over the handles as evenly as it can.\<close>

fun picks :: "'h list \<Rightarrow> nat \<Rightarrow> usize \<Rightarrow> ('h list \<times> usize) option" where
  "picks handles 0 k = Some ([], k)"
| "picks handles (Suc n) k =
     (case pool_pick handles k of
        None \<Rightarrow> None
      | Some (h, k') \<Rightarrow> map_option (\<lambda>(hs, k''). (h # hs, k'')) (picks handles n k'))"

lemma picks_in_turn:
  assumes "handles \<noteq> []" "unat k + n < 2 ^ 64"
  shows "\<exists>k'. picks handles n k = Some (map (\<lambda>j. handles ! ((unat k + j) mod length handles)) [0..<n], k') \<and>
    unat k' = unat k + n"
  using assms(2)
proof (induction n arbitrary: k)
  case (Suc n)
  have k: "unat (k + 1) = unat k + 1" using Suc.prems by (simp add: unat_word_ariths)
  with Suc.prems have "unat (k + 1) + n < 2 ^ 64" by simp
  from Suc.IH [OF this] show ?case using assms(1)
    by (auto simp: pool_pick_def k map_upt_Suc simp del: upt_Suc)
qed simp

section \<open>The grid and the sequential offsets\<close>

theorem grid_complete:
  "distinct (map (\<lambda>c. (group_name (ce_scenario c), ce_depth c, unbuffered_slug (ce_config c))) grid) \<and>
   length grid = plan_benchmarks plan_full"
  by code_simp

lemma duplicates_only_shallow:
  "unbuffered_duplicates depth c d \<longleftrightarrow> depth \<le> 1 \<and> {c, d} = {TokioPool512H1, TokioPool512Hn}"
  by (cases c; cases d) (auto simp: unbuffered_duplicates_def pool_width_def unbuffered_handles_def max_def doubleton_eq_iff)

text \<open>
  The sequential offsets advance by the alignment, not by the block: with a block longer than the
  alignment each read repeats all but one sector of the one before it, and a run of the full plan
  stays within the first few blocks of the file.
\<close>

theorem sequential_reads_overlap:
  assumes "offsets SequentialRead operations block align file_bytes = Some offs" "block \<le> file_bytes"
    and "operations \<le> unat (offset_span block align file_bytes)" "max align 1 < block" "k + 1 < operations"
  shows "unat (offs ! (k + 1)) = unat (offs ! k) + unat (max align 1)"
    and "unat (offs ! (k + 1)) < unat (offs ! k) + unat block"
  using sequential_slots [OF assms(1-3), of k] sequential_slots [OF assms(1-3), of "k + 1"] assms(4,5)
  by (simp_all add: word_less_nat_alt)

end
