(* ===== verification/Bench_Harness.thy ===== *)
theory Bench_Harness
  imports Bench_Scenario
begin

text \<open>
  Measuring one backend on one workload (\<open>harness.rs\<close>, with the session's part of \<open>session.rs\<close>,
  both of \<open>win-ioring-bench\<close>).

  A session is a prepared backend: what it is called, how it opens the file, runs one iteration
  and is torn down. Preparing one is I/O and an argument, as is the number of iterations the
  timer runs. \<open>None\<close> is a failed assertion or an iteration that never ends.
\<close>

section \<open>The configurations\<close>

datatype which = TokioOne | TokioMany | RingPlain | RingRegistered | Compio | RingPlainSync | RingRegisteredSync

datatype handle_mode = Overlapped | Synchronous

definition which_all :: "which list" where
  "which_all = [TokioOne, TokioMany, RingPlain, RingRegistered, Compio]"

definition which_handle_mode :: "which \<Rightarrow> handle_mode" where
  "which_handle_mode w = (case w of RingPlainSync \<Rightarrow> Synchronous | RingRegisteredSync \<Rightarrow> Synchronous
     | _ \<Rightarrow> Overlapped)"

definition expected_handle_mode :: "which \<Rightarrow> handle_mode" where
  "expected_handle_mode w = (case w of RingPlain \<Rightarrow> Overlapped | RingRegistered \<Rightarrow> Overlapped
     | Compio \<Rightarrow> Overlapped | _ \<Rightarrow> Synchronous)"

definition overlapped_twin :: "which \<Rightarrow> which" where
  "overlapped_twin w = (case w of RingPlainSync \<Rightarrow> RingPlain | RingRegisteredSync \<Rightarrow> RingRegistered | _ \<Rightarrow> w)"

definition which_slug :: "which \<Rightarrow> string" where
  "which_slug w = (case w of TokioOne \<Rightarrow> ''tokio-pool-1'' | TokioMany \<Rightarrow> ''tokio-pool-512''
     | RingPlain \<Rightarrow> ''ioring-owned'' | RingRegistered \<Rightarrow> ''ioring-registered'' | Compio \<Rightarrow> ''compio-iocp''
     | RingPlainSync \<Rightarrow> ''ioring-owned-sync'' | RingRegisteredSync \<Rightarrow> ''ioring-registered-sync'')"

definition builds_a_driver :: "which \<Rightarrow> bool" where
  "builds_a_driver w \<longleftrightarrow> w \<in> {RingPlain, RingRegistered, RingPlainSync, RingRegisteredSync}"

definition rotated_order :: "nat \<Rightarrow> which list" where
  "rotated_order index = rotate (index mod length which_all) which_all"

text \<open>A handle whose mode cannot be read, or is not the expected one, ends the run.\<close>

definition FILE_SYNCHRONOUS_IO_ALERT :: u32 where "FILE_SYNCHRONOUS_IO_ALERT = 0x10"
definition FILE_SYNCHRONOUS_IO_NONALERT :: u32 where "FILE_SYNCHRONOUS_IO_NONALERT = 0x20"

definition classify_handle_mode :: "io_error + u32 \<Rightarrow> handle_mode \<Rightarrow> unit option" where
  "classify_handle_mode mode expected =
     (case mode of
        Inl _ \<Rightarrow> None
      | Inr m \<Rightarrow>
          (if and m FILE_SYNCHRONOUS_IO_ALERT \<noteq> 0 then None
           else let actual = (if and m FILE_SYNCHRONOUS_IO_NONALERT \<noteq> 0 then Synchronous else Overlapped)
             in if actual = expected then Some () else None))"

section \<open>Sessions\<close>

record job =
  jb_scenario :: scenario
  jb_read_path :: string
  jb_write_path :: string
  jb_block :: u32
  jb_operations :: nat
  jb_depth :: nat

record unavailable =
  un_name :: string
  un_reason :: string

text \<open>A prepared backend with its driver, if it has one: its submission counts, and closing it.\<close>

record ('file, 'buf, 'fut, 'b) prepared =
  pr_name :: string
  pr_configuration :: string
  pr_backend :: "('file, 'buf, 'fut, 'b) bench_backend"
  pr_file_len :: "string \<Rightarrow> io_error + u64"
  pr_submission_counts :: "'b \<Rightarrow> (u64 \<times> u64) option"
  pr_close :: "'b \<Rightarrow> 'b"
  pr_file_mode :: "'file \<Rightarrow> io_error + u32"

text \<open>The counts never decrease; the subtraction would panic if they did.\<close>

definition counts_between :: "(u64 \<times> u64) option \<Rightarrow> (u64 \<times> u64) option \<Rightarrow> (u64 \<times> u64) option option" where
  "counts_between before after =
     (case (before, after) of
        (Some (s0, e0), Some (s1, e1)) \<Rightarrow> if s1 < s0 \<or> e1 < e0 then None else Some (Some (s1 - s0, e1 - e0))
      | _ \<Rightarrow> Some None)"

definition with_counts ::
    "('file, 'buf, 'fut, 'b) prepared \<Rightarrow> ('b \<Rightarrow> ((io_error + outcome) \<times> 'b) option) \<Rightarrow> 'b
      \<Rightarrow> ((io_error + outcome) \<times> 'b) option" where
  "with_counts P run b =
     (case run b of
        None \<Rightarrow> None
      | Some (Inl e, b') \<Rightarrow> Some (Inl e, b')
      | Some (Inr oc, b') \<Rightarrow>
          (case counts_between (pr_submission_counts P b) (pr_submission_counts P b') of
             None \<Rightarrow> None
           | Some n \<Rightarrow> Some (Inr (oc\<lparr>oc_submitted := n\<rparr>), b')))"

definition prepared_one :: "('file, 'buf, 'fut, 'b) prepared \<Rightarrow> job \<Rightarrow> 'b \<Rightarrow> ((io_error + outcome) \<times> 'b) option" where
  "prepared_one P j =
     with_counts P (run_scenario (pr_backend P) (pr_file_len P) (jb_scenario j) (jb_read_path j) (jb_write_path j)
       (jb_block j) (jb_operations j) (jb_depth j))"

text \<open>An open file and its length when it was opened.\<close>

definition prepared_open_read ::
    "('file, 'buf, 'fut, 'b) prepared \<Rightarrow> string \<Rightarrow> 'b \<Rightarrow> ((io_error + 'file \<times> u64) \<times> 'b) option" where
  "prepared_open_read P path b =
     (case pr_file_len P path of
        Inl e \<Rightarrow> Some (Inl e, b)
      | Inr len \<Rightarrow>
          (case bk_open_read (pr_backend P) path b of
             None \<Rightarrow> None
           | Some (Inl e, b') \<Rightarrow> Some (Inl e, b')
           | Some (Inr file, b') \<Rightarrow> Some (Inr (file, len), b')))"

definition prepared_one_on ::
    "('file, 'buf, 'fut, 'b) prepared \<Rightarrow> 'file \<times> u64 \<Rightarrow> job \<Rightarrow> 'b \<Rightarrow> ((io_error + outcome) \<times> 'b) option" where
  "prepared_one_on P f j =
     with_counts P (run_on_open_file (pr_backend P) (jb_scenario j) (fst f) (snd f)
       (jb_block j) (jb_operations j) (jb_depth j))"

definition prepared_finish :: "('file, 'buf, 'fut, 'b) prepared \<Rightarrow> 'b \<Rightarrow> (io_error + unit) \<times> 'b" where
  "prepared_finish P b = (Inr (), pr_close P b)"

section \<open>Evidence and records\<close>

record evidence =
  ev_first :: "outcome option"
  ev_last :: "outcome option"
  ev_iterations :: nat
  ev_failure :: "io_error option"

definition evidence_new :: evidence where
  "evidence_new = \<lparr>ev_first = None, ev_last = None, ev_iterations = 0, ev_failure = None\<rparr>"

definition evidence_record :: "outcome \<Rightarrow> evidence \<Rightarrow> evidence" where
  "evidence_record oc ev =
     ev\<lparr>ev_iterations := ev_iterations ev + 1,
        ev_first := (if ev_first ev = None then Some oc else ev_first ev), ev_last := Some oc\<rparr>"

definition evidence_record_failure :: "io_error \<Rightarrow> evidence \<Rightarrow> evidence" where
  "evidence_record_failure e ev =
     ev\<lparr>ev_iterations := ev_iterations ev + 1,
        ev_failure := (if ev_failure ev = None then Some e else ev_failure ev)\<rparr>"

datatype bench_record =
    Measured (mr_name: string) (mr_configuration: string) (mr_achieved: achieved) (mr_trace: trace)
      (mr_submitted: "(u64 \<times> u64) option") (mr_shape: shape_check) (mr_iterations: nat) (mr_timed: bool)
  | NotAvailable string string
  | MeasureFailed string string io_error

datatype opens = PerIteration | Hoisted

datatype weakness = NoWeakness | SkipsWork | HollowDelivery | HollowFromRun nat

text \<open>The timer awaits one iteration after the other.\<close>

fun timed_iterations ::
    "nat \<Rightarrow> ('b \<Rightarrow> ((io_error + outcome) \<times> 'b) option) \<Rightarrow> evidence \<Rightarrow> 'b \<Rightarrow> (evidence \<times> 'b) option" where
  "timed_iterations 0 one ev b = Some (ev, b)"
| "timed_iterations (Suc n) one ev b =
     (case one b of
        None \<Rightarrow> None
      | Some (Inr oc, b') \<Rightarrow> timed_iterations n one (evidence_record oc ev) b'
      | Some (Inl e, b') \<Rightarrow> timed_iterations n one (evidence_record_failure e ev) b')"

text \<open>What the evidence of a finished session amounts to.\<close>

definition judge ::
    "('file, 'buf, 'fut, 'b) prepared \<Rightarrow> job \<Rightarrow> outcome \<Rightarrow> evidence \<Rightarrow> io_error + unit \<Rightarrow> (scenario, nat) ledger
      \<Rightarrow> ((scenario, nat) fairness_failure + bench_record) \<times> (scenario, nat) ledger" where
  "judge P j warm ev teardown l =
     (case ev_failure ev of
        Some e \<Rightarrow> (Inr (MeasureFailed (pr_name P) (pr_configuration P) e), l)
      | None \<Rightarrow>
          (case teardown of
             Inl e \<Rightarrow> (Inr (MeasureFailed (pr_name P) (pr_configuration P) e), l)
           | Inr _ \<Rightarrow>
               (case (case (ev_first ev, ev_last ev) of
                        (Some a, Some z) \<Rightarrow> agrees_with (oc_trace a) (oc_trace z)
                      | _ \<Rightarrow> Inr ()) of
                  Inl m \<Rightarrow>
                    (Inl \<lparr>ff_scenario = jb_scenario j, ff_depth = jb_depth j,
                          ff_reference = pr_name P @ '' (first iteration)'',
                          ff_backend = pr_name P @ '' (last iteration)'', ff_mismatch = m\<rparr>, l)
                | Inr _ \<Rightarrow>
                    (let oc = (case ev_last ev of Some oc \<Rightarrow> oc | None \<Rightarrow> warm)
                     in case ledger_observe (jb_scenario j) (jb_depth j) (pr_name P) (oc_trace oc) l of
                          (Inl f, l') \<Rightarrow> (Inl f, l')
                        | (Inr _, l') \<Rightarrow>
                            (Inr (Measured (pr_name P) (pr_configuration P) (oc_achieved oc) (oc_trace oc)
                               (oc_submitted oc) (oc_shape oc) (ev_iterations ev) (0 < ev_iterations ev)), l')))))"

definition tear_down_failed ::
    "('file, 'buf, 'fut, 'b) prepared \<Rightarrow> io_error \<Rightarrow> (scenario, nat) ledger \<Rightarrow> 'b
      \<Rightarrow> (((scenario, nat) fairness_failure + bench_record) \<times> (scenario, nat) ledger) \<times> 'b" where
  "tear_down_failed P e l b =
     (case prepared_finish P b of
        (r, b') \<Rightarrow> ((Inr (MeasureFailed (pr_name P) (pr_configuration P) (case r of Inl t \<Rightarrow> t | Inr _ \<Rightarrow> e)), l), b'))"

text \<open>
  The session's iteration: reopening the file every time (\<open>one\<close> is the session's own, weakened or
  not), or on the file that was opened once.
\<close>

definition measure_combination_with ::
    "which \<Rightarrow> weakness \<Rightarrow> opens \<Rightarrow> (unavailable + ('file, 'buf, 'fut, 'b) prepared)
      \<Rightarrow> (('file, 'buf, 'fut, 'b) prepared \<Rightarrow> 'b \<Rightarrow> ((io_error + outcome) \<times> 'b) option)
      \<Rightarrow> job \<Rightarrow> nat \<Rightarrow> (scenario, nat) ledger \<Rightarrow> 'b
      \<Rightarrow> ((((scenario, nat) fairness_failure + bench_record) \<times> (scenario, nat) ledger) \<times> 'b) option" where
  "measure_combination_with w weak opens prep one j n l b =
     (if opens = Hoisted \<and> weak \<noteq> NoWeakness then None
      else case prep of
        Inl u \<Rightarrow> Some ((Inr (NotAvailable (un_name u) (un_reason u)), l), b)
      | Inr P \<Rightarrow>
          (case (case opens of
                   PerIteration \<Rightarrow> Some (Inr (one P), b)
                 | Hoisted \<Rightarrow>
                     (case prepared_open_read P (jb_read_path j) b of
                        None \<Rightarrow> None
                      | Some (Inl e, b') \<Rightarrow> Some (Inl e, b')
                      | Some (Inr f, b') \<Rightarrow>
                          (case classify_handle_mode (pr_file_mode P (fst f)) (expected_handle_mode w) of
                             None \<Rightarrow> None
                           | Some _ \<Rightarrow> Some (Inr (prepared_one_on P f j), b')))) of
             None \<Rightarrow> None
           | Some (Inl e, b1) \<Rightarrow> Some (tear_down_failed P e l b1)
           | Some (Inr iter, b1) \<Rightarrow>
               (case iter b1 of
                  None \<Rightarrow> None
                | Some (Inl e, b2) \<Rightarrow> Some (tear_down_failed P e l b2)
                | Some (Inr warm, b2) \<Rightarrow>
                    (case timed_iterations n iter evidence_new b2 of
                       None \<Rightarrow> None
                     | Some (ev, b3) \<Rightarrow>
                         (case prepared_finish P b3 of (r, b4) \<Rightarrow> Some (judge P j warm ev r l, b4))))))"

section \<open>The schedule\<close>

text \<open>
  As many consecutive rotations as there are elements put every element at every place once:
  whatever a position costs, each configuration pays it equally often.
\<close>

lemma rotations_balanced:
  assumes "position < length xs"
  shows "mset (map (\<lambda>k. rotate ((start + k) mod length xs) xs ! position) [0..<length xs]) = mset xs"
proof -
  have "map (\<lambda>k. rotate ((start + k) mod length xs) xs ! position) [0..<length xs] = rotate (start + position) xs"
  proof (rule nth_equalityI)
    fix k assume "k < length (map (\<lambda>k. rotate ((start + k) mod length xs) xs ! position) [0..<length xs])"
    then have k: "k < length xs" by simp
    have "rotate ((start + k) mod length xs) xs ! position = xs ! ((start + k + position) mod length xs)"
      using assms by (simp add: nth_rotate mod_add_left_eq)
    also have "\<dots> = rotate (start + position) xs ! k"
      using k by (simp add: nth_rotate add.commute add.left_commute)
    finally show "map (\<lambda>k. rotate ((start + k) mod length xs) xs ! position) [0..<length xs] ! k =
        rotate (start + position) xs ! k"
      using k by simp
  qed simp
  moreover have "mset (rotate m xs) = mset xs" for m
  proof (induction m)
    case (Suc m)
    have "mset (rotate1 ys) = mset ys" for ys :: "'a list" by (cases ys) simp_all
    with Suc show ?case by simp
  qed simp
  ultimately show ?thesis by simp
qed

theorem rotation_balanced:
  assumes "position < 5"
  shows "mset (map (\<lambda>k. rotated_order (start + k) ! position) [0..<5]) = mset which_all"
proof -
  have "length which_all = 5" by (simp add: which_all_def)
  with rotations_balanced [of position which_all start] assms show ?thesis by (simp add: rotated_order_def)
qed

section \<open>What a record says\<close>

fun iterates :: "('b \<Rightarrow> ((io_error + outcome) \<times> 'b) option) \<Rightarrow> (io_error + outcome) list \<Rightarrow> 'b \<Rightarrow> 'b \<Rightarrow> bool" where
  "iterates iter [] b b' \<longleftrightarrow> b' = b"
| "iterates iter (r # rs) b b' \<longleftrightarrow> (\<exists>b1. iter b = Some (r, b1) \<and> iterates iter rs b1 b')"

definition evidence_add :: "io_error + outcome \<Rightarrow> evidence \<Rightarrow> evidence" where
  "evidence_add r ev = (case r of Inr oc \<Rightarrow> evidence_record oc ev | Inl e \<Rightarrow> evidence_record_failure e ev)"

lemma timed_iterations_Suc:
  "timed_iterations (Suc n) iter ev b =
     (case iter b of None \<Rightarrow> None | Some (r, b') \<Rightarrow> timed_iterations n iter (evidence_add r ev) b')"
  by (simp add: evidence_add_def split: option.splits prod.splits sum.splits)

lemma timed_iterations_results:
  assumes "timed_iterations n iter ev b = Some (ev', b')"
  shows "\<exists>rs. length rs = n \<and> iterates iter rs b b' \<and> ev' = fold evidence_add rs ev"
  using assms
proof (induction n arbitrary: ev b)
  case 0
  then show ?case by simp
next
  case (Suc n)
  obtain r b1 where r: "iter b = Some (r, b1)" "timed_iterations n iter (evidence_add r ev) b1 = Some (ev', b')"
    using Suc.prems unfolding timed_iterations_Suc by (auto split: option.splits)
  from Suc.IH [OF r(2)] obtain rs where "length rs = n" "iterates iter rs b1 b'" "ev' = fold evidence_add rs (evidence_add r ev)"
    by blast
  then show ?case using r(1) by (intro exI [of _ "r # rs"]) simp
qed

fun first_failure :: "(io_error + outcome) list \<Rightarrow> io_error option" where
  "first_failure [] = None"
| "first_failure (Inl e # rs) = Some e"
| "first_failure (Inr oc # rs) = first_failure rs"

lemma fold_evidence:
  "ev_iterations (fold evidence_add rs ev) = ev_iterations ev + length rs \<and>
   ev_failure (fold evidence_add rs ev) = (case ev_failure ev of Some e \<Rightarrow> Some e | None \<Rightarrow> first_failure rs)"
proof (induction rs arbitrary: ev)
  case (Cons r rs)
  then show ?case
    by (cases r; cases "ev_failure ev") (simp_all add: evidence_add_def evidence_record_def evidence_record_failure_def)
qed (simp split: option.split)

lemma no_failure: "first_failure rs = None \<Longrightarrow> \<exists>ocs. rs = map Inr ocs"
proof (induction rs rule: first_failure.induct)
  case (3 oc rs)
  then obtain ocs where "rs = map Inr ocs" by auto
  then show ?case by (intro exI [of _ "oc # ocs"]) simp
qed simp_all

lemma fold_evidence_outcomes:
  "fold evidence_add (map Inr ocs) ev =
     ev\<lparr>ev_iterations := ev_iterations ev + length ocs,
        ev_first := (if ev_first ev = None then (case ocs of [] \<Rightarrow> None | oc # _ \<Rightarrow> Some oc) else ev_first ev),
        ev_last := (if ocs = [] then ev_last ev else Some (last ocs))\<rparr>"
  by (induction ocs arbitrary: ev) (auto simp: evidence_add_def evidence_record_def split: list.splits)

text \<open>The iteration a measurement repeats, and the state it starts from.\<close>

definition session_iteration ::
    "which \<Rightarrow> opens \<Rightarrow> (('file, 'buf, 'fut, 'b) prepared \<Rightarrow> 'b \<Rightarrow> ((io_error + outcome) \<times> 'b) option)
      \<Rightarrow> job \<Rightarrow> ('file, 'buf, 'fut, 'b) prepared \<Rightarrow> 'b \<Rightarrow> ('b \<Rightarrow> ((io_error + outcome) \<times> 'b) option) \<Rightarrow> 'b \<Rightarrow> bool" where
  "session_iteration w opens one j P b iter b1 \<longleftrightarrow>
     (case opens of
        PerIteration \<Rightarrow> iter = one P \<and> b1 = b
      | Hoisted \<Rightarrow> \<exists>f. prepared_open_read P (jb_read_path j) b = Some (Inr f, b1) \<and> iter = prepared_one_on P f j \<and>
          classify_handle_mode (pr_file_mode P (fst f)) (expected_handle_mode w) = Some ())"

definition measured_from ::
    "('b \<Rightarrow> ((io_error + outcome) \<times> 'b) option) \<Rightarrow> nat \<Rightarrow> 'b \<Rightarrow> outcome \<Rightarrow> (io_error + outcome) list \<Rightarrow> 'b \<Rightarrow> bool" where
  "measured_from iter n b1 warm rs b3 \<longleftrightarrow>
     length rs = n \<and> (\<exists>b2. iter b1 = Some (Inr warm, b2) \<and> iterates iter rs b2 b3)"

text \<open>
  A fairness failure is a disagreement of the last trace with the first, or with the ledger's
  reference, which it names.
\<close>

definition unfair ::
    "('file, 'buf, 'fut, 'b) prepared \<Rightarrow> job \<Rightarrow> outcome \<Rightarrow> outcome list \<Rightarrow> (scenario, nat) ledger
      \<Rightarrow> (scenario, nat) fairness_failure \<Rightarrow> bool" where
  "unfair P j warm ocs l f \<longleftrightarrow> ff_scenario f = jb_scenario j \<and> ff_depth f = jb_depth j \<and>
     (ocs \<noteq> [] \<and> agrees_with (oc_trace (hd ocs)) (oc_trace (last ocs)) = Inl (ff_mismatch f) \<and>
        ff_reference f = pr_name P @ '' (first iteration)'' \<and> ff_backend f = pr_name P @ '' (last iteration)'' \<or>
      (case ledger_find (jb_scenario j) (jb_depth j) l of
         None \<Rightarrow> False
       | Some r \<Rightarrow> agrees_with (rf_trace r) (oc_trace (last (warm # ocs))) = Inl (ff_mismatch f) \<and>
           ff_reference f = rf_backend r \<and> ff_backend f = pr_name P))"

lemma ledger_observe_fails:
  assumes "ledger_observe s d n t l = (Inl f, l')"
  shows "l' = l \<and> ff_scenario f = s \<and> ff_depth f = d \<and> ff_backend f = n \<and>
    (\<exists>r. ledger_find s d l = Some r \<and> agrees_with (rf_trace r) t = Inl (ff_mismatch f) \<and> ff_reference f = rf_backend r)"
proof (cases "ledger_find s d l")
  case (Some r)
  then show ?thesis using assms
    by (cases "agrees_with (rf_trace r) t") (auto simp: ledger_observe_def)
qed (use assms in \<open>simp add: ledger_observe_def\<close>)

lemma judge_evidence:
  assumes "judge P j warm (fold evidence_add rs evidence_new) (Inr ()) l = (out, l')"
  shows "case out of
      Inl f \<Rightarrow> l' = l \<and> (\<exists>ocs. rs = map Inr ocs \<and> unfair P j warm ocs l f)
    | Inr (Measured name conf ach tr sub sh k tm) \<Rightarrow>
        \<exists>ocs. rs = map Inr ocs \<and> name = pr_name P \<and> tr = oc_trace (last (warm # ocs)) \<and>
          ach = oc_achieved (last (warm # ocs)) \<and> sh = oc_shape (last (warm # ocs)) \<and>
          k = length ocs \<and> (tm \<longleftrightarrow> 0 < length ocs) \<and> (ocs \<noteq> [] \<longrightarrow> oc_trace (hd ocs) = tr) \<and>
          ledger_observe (jb_scenario j) (jb_depth j) (pr_name P) tr l = (Inr (), l')
    | Inr (NotAvailable _ _) \<Rightarrow> False
    | Inr (MeasureFailed _ _ e) \<Rightarrow> first_failure rs = Some e \<and> l' = l"
proof (cases "first_failure rs")
  case (Some e)
  then have "ev_failure (fold evidence_add rs evidence_new) = Some e"
    using fold_evidence [of rs evidence_new] by (simp add: evidence_new_def)
  then show ?thesis using assms Some by (auto simp: judge_def)
next
  case None
  then obtain ocs where rs: "rs = map Inr ocs" using no_failure by blast
  have ev: "fold evidence_add rs evidence_new =
      \<lparr>ev_first = (case ocs of [] \<Rightarrow> None | oc # _ \<Rightarrow> Some oc), ev_last = (if ocs = [] then None else Some (last ocs)),
       ev_iterations = length ocs, ev_failure = None\<rparr>"
    unfolding rs fold_evidence_outcomes by (simp add: evidence_new_def)
  obtain x l1 where obs: "ledger_observe (jb_scenario j) (jb_depth j) (pr_name P) (oc_trace (last (warm # ocs))) l = (x, l1)"
    by fastforce
  have v: "(case x of Inl f \<Rightarrow> (Inl f, l1)
      | Inr _ \<Rightarrow> (Inr (Measured (pr_name P) (pr_configuration P) (oc_achieved (last (warm # ocs))) (oc_trace (last (warm # ocs)))
          (oc_submitted (last (warm # ocs))) (oc_shape (last (warm # ocs))) (length ocs) (0 < length ocs)), l1)) = (out, l')"
    if "ocs \<noteq> [] \<longrightarrow> agrees_with (oc_trace (hd ocs)) (oc_trace (last ocs)) = Inr ()"
    using assms that obs unfolding ev judge_def by (cases ocs; cases x) (simp_all add: Let_def)
  show ?thesis
  proof (cases "ocs \<noteq> [] \<longrightarrow> agrees_with (oc_trace (hd ocs)) (oc_trace (last ocs)) = Inr ()")
    case True
    then have h: "ocs \<noteq> [] \<longrightarrow> oc_trace (hd ocs) = oc_trace (last (warm # ocs))" by (simp add: agrees_iff)
    show ?thesis
    proof (cases x)
      case (Inl f)
      then have "out = Inl f" "l' = l1" using v [OF True] by simp_all
      moreover have "l1 = l" "unfair P j warm ocs l f"
        using ledger_observe_fails [OF obs [unfolded Inl]] by (auto simp: unfair_def)
      ultimately show ?thesis using rs by auto
    next
      case (Inr u)
      then show ?thesis using v [OF True] rs obs h by (auto intro!: exI [of _ ocs])
    qed
  next
    case False
    then obtain m oc ocs' where m: "ocs = oc # ocs'" "agrees_with (oc_trace (hd ocs)) (oc_trace (last ocs)) = Inl m"
      by (cases ocs; cases "agrees_with (oc_trace (hd ocs)) (oc_trace (last ocs))") auto
    then have "l' = l \<and> (\<exists>f. out = Inl f \<and> unfair P j warm ocs l f)"
      using assms unfolding ev judge_def by (auto simp: unfair_def)
    then show ?thesis using rs by auto
  qed
qed

lemma tear_down_failed_eq:
  "tear_down_failed P e l b = ((Inr (MeasureFailed (pr_name P) (pr_configuration P) e), l), pr_close P b)"
  by (simp add: tear_down_failed_def prepared_finish_def)

text \<open>The ways a measurement of a prepared session ends.\<close>

lemma measure_cases:
  assumes "measure_combination_with w weak opens (Inr P) one j n l b = Some ((out, l'), b')"
  obtains (unopened) e b1 where "opens = Hoisted" "prepared_open_read P (jb_read_path j) b = Some (Inl e, b1)"
      "out = Inr (MeasureFailed (pr_name P) (pr_configuration P) e)" "l' = l" "b' = pr_close P b1"
    | (cold) iter b1 e b2 where "session_iteration w opens one j P b iter b1" "iter b1 = Some (Inl e, b2)"
      "out = Inr (MeasureFailed (pr_name P) (pr_configuration P) e)" "l' = l" "b' = pr_close P b2"
    | (judged) iter b1 warm rs b3 where "session_iteration w opens one j P b iter b1"
      "measured_from iter n b1 warm rs b3" "b' = pr_close P b3"
      "judge P j warm (fold evidence_add rs evidence_new) (Inr ()) l = (out, l')"
proof -
  let ?start = "case opens of
       PerIteration \<Rightarrow> Some (Inr (one P), b)
     | Hoisted \<Rightarrow>
         (case prepared_open_read P (jb_read_path j) b of
            None \<Rightarrow> None
          | Some (Inl e, b') \<Rightarrow> Some (Inl e, b')
          | Some (Inr f, b') \<Rightarrow>
              (case classify_handle_mode (pr_file_mode P (fst f)) (expected_handle_mode w) of
                 None \<Rightarrow> None
               | Some _ \<Rightarrow> Some (Inr (prepared_one_on P f j), b')))"
  have ran: "(case ?start of
             None \<Rightarrow> None
           | Some (Inl e, b1) \<Rightarrow> Some (tear_down_failed P e l b1)
           | Some (Inr iter, b1) \<Rightarrow>
               (case iter b1 of
                  None \<Rightarrow> None
                | Some (Inl e, b2) \<Rightarrow> Some (tear_down_failed P e l b2)
                | Some (Inr warm, b2) \<Rightarrow>
                    (case timed_iterations n iter evidence_new b2 of
                       None \<Rightarrow> None
                     | Some (ev, b3) \<Rightarrow> Some (judge P j warm ev (Inr ()) l, pr_close P b3)))) = Some ((out, l'), b')"
    using assms unfolding measure_combination_with_def prepared_finish_def sum.case prod.case
    by (simp only: option.distinct split: if_splits)
  then obtain s b1 where start: "?start = Some (s, b1)" by (cases ?start) auto
  show thesis
  proof (cases s)
    case (Inl e)
    then have "opens = Hoisted" "prepared_open_read P (jb_read_path j) b = Some (Inl e, b1)"
      using start by (cases opens; auto split: option.splits sum.splits prod.splits)+
    then show thesis using unopened ran start Inl by (simp add: tear_down_failed_eq)
  next
    case (Inr iter)
    have si: "session_iteration w opens one j P b iter b1"
      using start Inr by (cases opens) (auto simp: session_iteration_def split: option.splits sum.splits prod.splits)
    have rest: "(case iter b1 of
                  None \<Rightarrow> None
                | Some (Inl e, b2) \<Rightarrow> Some (tear_down_failed P e l b2)
                | Some (Inr warm, b2) \<Rightarrow>
                    (case timed_iterations n iter evidence_new b2 of
                       None \<Rightarrow> None
                     | Some (ev, b3) \<Rightarrow> Some (judge P j warm ev (Inr ()) l, pr_close P b3))) = Some ((out, l'), b')"
      using ran unfolding start Inr by simp
    then obtain r b2 where first: "iter b1 = Some (r, b2)" by (cases "iter b1") auto
    show thesis
    proof (cases r)
      case (Inl e)
      then show thesis using cold [OF si] first rest by (simp add: tear_down_failed_eq)
    next
      case (Inr warm)
      then obtain ev b3 where t: "timed_iterations n iter evidence_new b2 = Some (ev, b3)"
        "judge P j warm ev (Inr ()) l = (out, l')" "b' = pr_close P b3"
        using rest first by (auto split: option.splits)
      then obtain rs where "length rs = n" "iterates iter rs b2 b3" "ev = fold evidence_add rs evidence_new"
        using timed_iterations_results [OF t(1)] by blast
      then show thesis using judged [OF si _ t(3)] t(2) first Inr by (auto simp: measured_from_def)
    qed
  qed
qed

text \<open>
  C33: A measurement is reported only if it was earned. A measured record says that the warm-up and
  every timed iteration succeeded, that it counts them all, that the first and the last did the
  same work, and that this work is what the ledger has for the combination; a failed record carries
  the first error. A fairness failure is reported only when every iteration succeeded and the
  last trace differs from that of the first iteration or from the ledger's reference, names the
  two that disagree, and leaves the whole ledger as it was; a measurement adds at most its own
  first observation to it, and a failed record nothing. Whatever the answer, a session that was
  prepared has been closed, after its last iteration.
\<close>

theorem record_is_earned:
  assumes "measure_combination_with w weak opens prep one j n l b = Some ((out, l'), b')"
  shows "case prep of
      Inl u \<Rightarrow> out = Inr (NotAvailable (un_name u) (un_reason u)) \<and> l' = l \<and> b' = b
    | Inr P \<Rightarrow> (\<exists>b3. b' = pr_close P b3) \<and>
        (case out of
           Inr (Measured name conf ach tr sub sh k tm) \<Rightarrow>
             \<exists>iter b1 warm ocs b3. session_iteration w opens one j P b iter b1 \<and>
               measured_from iter n b1 warm (map Inr ocs) b3 \<and> b' = pr_close P b3 \<and>
               name = pr_name P \<and> k = n \<and> (tm \<longleftrightarrow> 0 < n) \<and>
               tr = oc_trace (last (warm # ocs)) \<and> (ocs \<noteq> [] \<longrightarrow> oc_trace (hd ocs) = tr) \<and>
               (case ledger_find (jb_scenario j) (jb_depth j) l of
                  Some r \<Rightarrow> tr = rf_trace r \<and> l' = l
                | None \<Rightarrow> ledger_reference (jb_scenario j) (jb_depth j) l' = Some name \<and>
                    l' = l @ [\<lparr>rf_scenario = jb_scenario j, rf_depth = jb_depth j, rf_backend = name, rf_trace = tr\<rparr>])
         | Inr (MeasureFailed name conf e) \<Rightarrow> l' = l \<and>
             (prepared_open_read P (jb_read_path j) b \<in> {Some (Inl e, b1) |b1. True} \<or>
              (\<exists>iter b1. session_iteration w opens one j P b iter b1 \<and>
                ((\<exists>b2. iter b1 = Some (Inl e, b2)) \<or>
                 (\<exists>warm rs b3. measured_from iter n b1 warm rs b3 \<and> first_failure rs = Some e))))
         | Inr (NotAvailable _ _) \<Rightarrow> False
         | Inl f \<Rightarrow> l' = l \<and> (\<exists>iter b1 warm ocs b3. session_iteration w opens one j P b iter b1 \<and>
             measured_from iter n b1 warm (map Inr ocs) b3 \<and> b' = pr_close P b3 \<and> unfair P j warm ocs l f))"
proof (cases prep)
  case (Inl u)
  then show ?thesis using assms by (auto simp: measure_combination_with_def split: if_splits)
next
  case (Inr P)
  from assms [unfolded Inr] show ?thesis
  proof (cases rule: measure_cases)
    case (unopened e b1)
    then show ?thesis by (auto simp: Inr)
  next
    case (cold iter b1 e b2)
    then show ?thesis by (auto simp: Inr)
  next
    case (judged iter b1 warm rs b3)
    note ev = judge_evidence [OF judged(4)]
    show ?thesis
    proof (cases out)
      case (Inl f)
      then obtain ocs where "l' = l" "rs = map Inr ocs" "unfair P j warm ocs l f" using ev by auto
      with judged(1-3) have "l' = l \<and> (\<exists>iter b1 warm ocs b3. session_iteration w opens one j P b iter b1 \<and>
          measured_from iter n b1 warm (map Inr ocs) b3 \<and> b' = pr_close P b3 \<and> unfair P j warm ocs l f)" by blast
      then show ?thesis using judged(3) Inl by (simp add: Inr) blast
    next
      case out: (Inr r)
      show ?thesis
      proof (cases r)
        case (Measured name conf ach tr sub sh k tm)
        then obtain ocs where o: "rs = map Inr ocs" "name = pr_name P" "tr = oc_trace (last (warm # ocs))"
          "k = length ocs" "tm \<longleftrightarrow> 0 < length ocs" "ocs \<noteq> [] \<longrightarrow> oc_trace (hd ocs) = tr"
          "ledger_observe (jb_scenario j) (jb_depth j) (pr_name P) tr l = (Inr (), l')"
          using ev out by auto
        have "length ocs = n" using judged(2) o(1) by (simp add: measured_from_def)
        moreover have "case ledger_find (jb_scenario j) (jb_depth j) l of
            Some r \<Rightarrow> tr = rf_trace r \<and> l' = l
          | None \<Rightarrow> ledger_reference (jb_scenario j) (jb_depth j) l' = Some name \<and>
              l' = l @ [\<lparr>rf_scenario = jb_scenario j, rf_depth = jb_depth j, rf_backend = name, rf_trace = tr\<rparr>]"
        proof (cases "ledger_find (jb_scenario j) (jb_depth j) l")
          case None
          then have "l' = l @ [\<lparr>rf_scenario = jb_scenario j, rf_depth = jb_depth j, rf_backend = pr_name P, rf_trace = tr\<rparr>]"
            using o(7) by (simp add: ledger_observe_def)
          then show ?thesis using None o(2) by (simp add: ledger_reference_def ledger_find_def find_append)
        next
          case (Some r)
          then show ?thesis using o(7) agrees_iff [of "rf_trace r" tr]
            by (cases "agrees_with (rf_trace r) tr") (auto simp: ledger_observe_def)
        qed
        ultimately have "session_iteration w opens one j P b iter b1 \<and> measured_from iter n b1 warm (map Inr ocs) b3 \<and>
            b' = pr_close P b3 \<and> name = pr_name P \<and> k = n \<and> (tm \<longleftrightarrow> 0 < n) \<and>
            tr = oc_trace (last (warm # ocs)) \<and> (ocs \<noteq> [] \<longrightarrow> oc_trace (hd ocs) = tr) \<and>
            (case ledger_find (jb_scenario j) (jb_depth j) l of
               Some r \<Rightarrow> tr = rf_trace r \<and> l' = l
             | None \<Rightarrow> ledger_reference (jb_scenario j) (jb_depth j) l' = Some name \<and>
                 l' = l @ [\<lparr>rf_scenario = jb_scenario j, rf_depth = jb_depth j, rf_backend = name, rf_trace = tr\<rparr>])"
          using judged(1-3) o(1-6) by blast
        then have "\<exists>iter b1 warm ocs b3. session_iteration w opens one j P b iter b1 \<and>
            measured_from iter n b1 warm (map Inr ocs) b3 \<and> b' = pr_close P b3 \<and> name = pr_name P \<and> k = n \<and>
            (tm \<longleftrightarrow> 0 < n) \<and> tr = oc_trace (last (warm # ocs)) \<and> (ocs \<noteq> [] \<longrightarrow> oc_trace (hd ocs) = tr) \<and>
            (case ledger_find (jb_scenario j) (jb_depth j) l of
               Some r \<Rightarrow> tr = rf_trace r \<and> l' = l
             | None \<Rightarrow> ledger_reference (jb_scenario j) (jb_depth j) l' = Some name \<and>
                 l' = l @ [\<lparr>rf_scenario = jb_scenario j, rf_depth = jb_depth j, rf_backend = name, rf_trace = tr\<rparr>])" by blast
        then show ?thesis using judged(3) unfolding Inr out Measured sum.case bench_record.case by blast
      next
        case (NotAvailable x y)
        then show ?thesis using ev out by simp
      next
        case (MeasureFailed x y e)
        then have "first_failure rs = Some e" "l' = l" using ev out by simp_all
        then show ?thesis using judged(1-3) unfolding Inr out MeasureFailed sum.case bench_record.case by blast
      qed
    qed
  qed
qed

definition sample_prepared :: "(unit, unit, unit, unit) prepared" where
  "sample_prepared = \<lparr>pr_name = ''sample'', pr_configuration = [], pr_backend = sample_bench,
     pr_file_len = \<lambda>_. Inr 4096, pr_submission_counts = \<lambda>_. None, pr_close = \<lambda>b. b, pr_file_mode = \<lambda>_. Inr 0\<rparr>"

definition sample_job :: job where
  "sample_job = \<lparr>jb_scenario = SequentialRead, jb_read_path = ''f'', jb_write_path = ''g'', jb_block = 512,
     jb_operations = 4, jb_depth = 2\<rparr>"

theorem record_is_earned_witness:
  "\<exists>oc :: outcome. measure_combination_with RingPlain NoWeakness PerIteration (Inr sample_prepared)
      (\<lambda>P. prepared_one P sample_job) sample_job 2 ledger_new () =
      Some ((Inr (Measured ''sample'' [] (oc_achieved oc) (oc_trace oc) None (oc_shape oc) 2 True),
        snd (ledger_observe SequentialRead 2 ''sample'' (oc_trace oc) ledger_new)), ()) \<and>
     ledger_reference SequentialRead (2 :: nat)
       (snd (ledger_observe SequentialRead 2 ''sample'' (oc_trace oc) ledger_new)) = Some ''sample''"
proof -
  have "steady (reading sample_bench () 512 (sequential_offset 512))"
    by (auto simp: steady_def reading_def awaiting_def sample_bench_def)
  from steady_run_new [OF this, of 4 PhaseRead "issue_all 4 512 (sequential_offset 512) trace_new" 2 Rolling "()"]
  obtain t r where run: "runner_run (reading sample_bench () 512 (sequential_offset 512)) 4 PhaseRead
      (issue_all 4 512 (sequential_offset 512) trace_new) (runner_new 2 Rolling) () = Some (Inr (), t, r, ())" by auto
  have "bk_open_read sample_bench ''f'' () = Some (Inr (), ())" by (simp add: sample_bench_def)
  then have one: "prepared_one sample_prepared sample_job () = Some (Inr (finish_outcome 4 t r), ())" (is "_ = Some (Inr ?oc, _)")
    using run by (simp add: prepared_one_def with_counts_def run_scenario_def positional_reads_def positional_reads_on_def
        scenario_shape_def sample_prepared_def sample_job_def counts_between_def finish_outcome_def)
  have sub: "oc_submitted ?oc = None" by (simp add: finish_outcome_def)
  let ?l = "snd (ledger_observe SequentialRead (2 :: nat) ''sample'' (oc_trace ?oc) ledger_new)"
  have m: "measure_combination_with RingPlain NoWeakness PerIteration (Inr sample_prepared)
      (\<lambda>P. prepared_one P sample_job) sample_job 2 ledger_new () =
      Some ((Inr (Measured ''sample'' [] (oc_achieved ?oc) (oc_trace ?oc) None (oc_shape ?oc) 2 True), ?l), ())"
    using agrees_iff [of "oc_trace ?oc" "oc_trace ?oc"]
    by (simp add: measure_combination_with_def one numeral_2_eq_2 evidence_record_def evidence_new_def judge_def
        prepared_finish_def sub)
      (simp add: sample_prepared_def sample_job_def ledger_observe_def ledger_new_def ledger_find_def numeral_2_eq_2
        sub Let_def)
  have "ledger_find (jb_scenario sample_job) (jb_depth sample_job) ledger_new = None"
    by (simp add: ledger_find_def ledger_new_def)
  with record_is_earned [OF m] have "ledger_reference SequentialRead (2 :: nat) ?l = Some ''sample''"
    by (auto simp: sample_job_def)
  with m show ?thesis by (intro exI [of _ ?oc] conjI)
qed

end
