(* ===== verification/Bench_Workload.thy ===== *)
theory Bench_Workload
  imports Bench_Unbuffered Bench_Harness
begin

text \<open>
  The working files of the benchmarks (\<open>workload.rs\<close> and \<open>unbuffered_workload.rs\<close> of
  \<open>win-ioring-bench\<close>): the cached one, reading it through once, and the one that no cached access
  may ever touch.

  The file system is an argument, a record of the calls the code makes over a state of its own.
  A buffered writer passes the same bytes on in the same order, so it is not told apart from the
  file under it. \<open>None\<close> is a panic or a loop that does not end.
\<close>

section \<open>The file system\<close>

record ('h, 'p) file_system =
  fs_parent :: "string \<Rightarrow> string option"
  fs_join :: "string \<Rightarrow> string \<Rightarrow> string"
  fs_create_dir_all :: "string \<Rightarrow> 'p \<Rightarrow> (io_error + unit) \<times> 'p"
  fs_metadata_len :: "string \<Rightarrow> 'p \<Rightarrow> io_error + u64"
  fs_create :: "string \<Rightarrow> u32 \<Rightarrow> 'p \<Rightarrow> (io_error + 'h) \<times> 'p"
  fs_open :: "string \<Rightarrow> 'p \<Rightarrow> (io_error + 'h) \<times> 'p"
  fs_write_all :: "'h \<Rightarrow> u8 list \<Rightarrow> 'p \<Rightarrow> (io_error + unit) \<times> 'p"
  fs_read :: "'h \<Rightarrow> nat \<Rightarrow> 'p \<Rightarrow> (io_error + nat) \<times> 'p"
  fs_flush :: "'h \<Rightarrow> 'p \<Rightarrow> (io_error + unit) \<times> 'p"
  fs_sync_all :: "'h \<Rightarrow> 'p \<Rightarrow> (io_error + unit) \<times> 'p"
  fs_query_mode :: "'h \<Rightarrow> 'p \<Rightarrow> 32 word \<times> u32"
  fs_show_status :: "32 word \<Rightarrow> string"

definition filler :: "nat \<Rightarrow> u8 list" where
  "filler n = map (\<lambda>i. of_nat (i mod 251)) [0..<n]"

text \<open>The loop both files are written by: the same chunk again and again, the last one cut short.\<close>

partial_function (option) write_chunks ::
    "('h, 'p) file_system \<Rightarrow> 'h \<Rightarrow> u8 list \<Rightarrow> u64 \<Rightarrow> u64 \<Rightarrow> 'p \<Rightarrow> ((io_error + unit) \<times> 'p) option" where
  "write_chunks fs h content bytes written p =
     (if written < bytes then
        (let n = min (unat (bytes - written)) (length content) in
         case fs_write_all fs h (take n content) p of
           (Inl e, p') \<Rightarrow> Some (Inl e, p')
         | (Inr _, p') \<Rightarrow> write_chunks fs h content bytes (written + of_nat n) p')
      else Some (Inr (), p))"

definition create_parent :: "('h, 'p) file_system \<Rightarrow> string \<Rightarrow> 'p \<Rightarrow> (io_error + unit) \<times> 'p" where
  "create_parent fs path p = (case fs_parent fs path of None \<Rightarrow> (Inr (), p) | Some d \<Rightarrow> fs_create_dir_all fs d p)"

section \<open>The cached file\<close>

definition ensure_file :: "('h, 'p) file_system \<Rightarrow> string \<Rightarrow> u64 \<Rightarrow> 'p \<Rightarrow> ((io_error + unit) \<times> 'p) option" where
  "ensure_file fs path bytes p =
     (case create_parent fs path p of
        (Inl e, p1) \<Rightarrow> Some (Inl e, p1)
      | (Inr _, p1) \<Rightarrow>
          (if fs_metadata_len fs path p1 = Inr bytes then Some (Inr (), p1)
           else case fs_create fs path 0 p1 of
               (Inl e, p2) \<Rightarrow> Some (Inl e, p2)
             | (Inr h, p2) \<Rightarrow>
                 (case write_chunks fs h (filler (1024 * 1024)) bytes 0 p2 of
                    None \<Rightarrow> None
                  | Some (Inl e, p3) \<Rightarrow> Some (Inl e, p3)
                  | Some (Inr _, p3) \<Rightarrow>
                      (case fs_flush fs h p3 of
                         (Inl e, p4) \<Rightarrow> Some (Inl e, p4)
                       | (Inr _, p4) \<Rightarrow> Some (fs_sync_all fs h p4)))))"

partial_function (option) warm_loop ::
    "('h, 'p) file_system \<Rightarrow> 'h \<Rightarrow> u64 \<Rightarrow> 'p \<Rightarrow> ((io_error + u64) \<times> 'p) option" where
  "warm_loop fs h total_read p =
     (case fs_read fs h (1024 * 1024) p of
        (Inl e, p') \<Rightarrow> Some (Inl e, p')
      | (Inr n, p') \<Rightarrow>
          (if n = 0 then Some (Inr total_read, p')
           else if unat total_read + n < 2 ^ 64 then warm_loop fs h (total_read + of_nat n) p' else None))"

definition warm :: "('h, 'p) file_system \<Rightarrow> string \<Rightarrow> 'p \<Rightarrow> ((io_error + u64) \<times> 'p) option" where
  "warm fs path p =
     (case fs_open fs path p of
        (Inl e, p') \<Rightarrow> Some (Inl e, p')
      | (Inr h, p') \<Rightarrow> warm_loop fs h 0 p')"

datatype cache_premise = HoldsIn u64 | DoubtfulIn u64 | UnknownMemory

definition cache_premise_of :: "u64 option \<Rightarrow> u64 \<Rightarrow> cache_premise" where
  "cache_premise_of physical working_set =
     (case physical of
        Some n \<Rightarrow> if working_set \<le> n div 4 then HoldsIn n else DoubtfulIn n
      | None \<Rightarrow> UnknownMemory)"

section \<open>The file no cached access may touch\<close>

definition FILE_NO_INTERMEDIATE_BUFFERING :: u32 where "FILE_NO_INTERMEDIATE_BUFFERING = 0x8"

text \<open>Any status but success is an error, a pending one included.\<close>

definition file_mode :: "('h, 'p) file_system \<Rightarrow> 'h \<Rightarrow> 'p \<Rightarrow> io_error + u32" where
  "file_mode fs h p =
     (case fs_query_mode fs h p of (status, mode) \<Rightarrow>
        if status \<noteq> 0
        then Inl (IoError OtherKind (''NtQueryInformationFile(FileModeInformation) returned '' @ fs_show_status fs status))
        else Inr mode)"

definition is_unbuffered :: "('h, 'p) file_system \<Rightarrow> 'h \<Rightarrow> 'p \<Rightarrow> io_error + bool" where
  "is_unbuffered fs h p = map_sum id (\<lambda>m. and m FILE_NO_INTERMEDIATE_BUFFERING \<noteq> 0) (file_mode fs h p)"

definition is_synchronous :: "('h, 'p) file_system \<Rightarrow> 'h \<Rightarrow> 'p \<Rightarrow> io_error + bool" where
  "is_synchronous fs h p = map_sum id (\<lambda>m. and m FILE_SYNCHRONOUS_IO_NONALERT \<noteq> 0) (file_mode fs h p)"

definition buffered_creation :: io_error where
  "buffered_creation = IoError OtherKind
     (''the creation handle is buffered, which poisons the working file '' @
      ''for unbuffered I/O for the life of the process and inflates every '' @
      ''subsequent measurement against it by roughly an order of magnitude '' @
      [char_of (0xE2 :: nat), char_of (0x80 :: nat), char_of (0x94 :: nat)] @
      '' silently, since the file still reads back correctly'')"

definition ensure_unbuffered_file ::
    "('h, 'p) file_system \<Rightarrow> (usize \<Rightarrow> usize \<Rightarrow> usize) \<Rightarrow> memory \<Rightarrow> string \<Rightarrow> u64 \<Rightarrow> alignment \<Rightarrow> 'p
      \<Rightarrow> ((io_error + unit) \<times> 'p) option" where
  "ensure_unbuffered_file fs alloc mem path bytes a p =
     (case create_parent fs path p of
        (Inl e, p1) \<Rightarrow> Some (Inl e, p1)
      | (Inr _, p1) \<Rightarrow>
          (let g = granularity a in
           if \<not> alignment_is_aligned a bytes
           then Some (Inl (IoError InvalidInput (''size '' @ show_unsigned bytes @ '' is not a multiple of the '' @
             show_unsigned g @ ''-byte alignment granularity'')), p1)
           else case checked_next_multiple_of (max g (push_bit 20 1)) g of
               None \<Rightarrow> None
             | Some chunk \<Rightarrow>
                 (case aligned_new alloc mem chunk g of
                    Inl e \<Rightarrow> Some (Inl e, p1)
                  | Inr (b, mem1) \<Rightarrow>
                      (let mem2 = write_bytes mem1 (ab_ptr b) (filler (unat (ab_cap b))) in
                       case fs_create fs path FILE_FLAG_NO_BUFFERING p1 of
                         (Inl e, p2) \<Rightarrow> Some (Inl e, p2)
                       | (Inr h, p2) \<Rightarrow>
                           (case is_unbuffered fs h p2 of
                              Inl e \<Rightarrow> Some (Inl e, p2)
                            | Inr ok \<Rightarrow>
                                (if \<not> ok then Some (Inl buffered_creation, p2)
                                 else case write_chunks fs h (take (unat chunk) (aligned_spare mem2 b)) bytes 0 p2 of
                                     None \<Rightarrow> None
                                   | Some (Inl e, p3) \<Rightarrow> Some (Inl e, p3)
                                   | Some (Inr _, p3) \<Rightarrow> Some (fs_sync_all fs h p3)))))))"

record unbuffered_file =
  uf_path :: string
  uf_bytes :: u64

definition unbuffered_file_create ::
    "('h, 'p) file_system \<Rightarrow> (usize \<Rightarrow> usize \<Rightarrow> usize) \<Rightarrow> memory \<Rightarrow> string \<Rightarrow> u64 \<Rightarrow> alignment \<Rightarrow> 'p
      \<Rightarrow> ((io_error + unbuffered_file) \<times> 'p) option" where
  "unbuffered_file_create fs alloc mem dir bytes a p =
     (if bytes = 0
      then Some (Inl (IoError InvalidInput (''a zero-length working file measures nothing, but would still '' @
        ''produce timings'')), p)
      else case round_up a bytes of
          Inl e \<Rightarrow> Some (Inl e, p)
        | Inr n \<Rightarrow>
            (let path = fs_join fs dir ''unbuffered-read.dat'' in
             case ensure_unbuffered_file fs alloc mem path n a p of
               None \<Rightarrow> None
             | Some (Inl e, p') \<Rightarrow> Some (Inl e, p')
             | Some (Inr _, p') \<Rightarrow> Some (Inr \<lparr>uf_path = path, uf_bytes = n\<rparr>, p')))"

section \<open>What creating the file writes\<close>

text \<open>
  An unbuffered file: creating it gives an empty one whose mode can be read back, and a write of
  whole sectors of length \<open>g\<close> appends its bytes. What other writes do is left open.
\<close>

definition unbuffered_fs :: "('h, 'p) file_system \<Rightarrow> nat \<Rightarrow> ('h \<Rightarrow> 'p \<Rightarrow> u8 list) \<Rightarrow> bool" where
  "unbuffered_fs fs g contents \<longleftrightarrow>
     (\<forall>path p. \<exists>p'. fs_create_dir_all fs path p = (Inr (), p')) \<and>
     (\<forall>path p. \<exists>h p'. fs_create fs path FILE_FLAG_NO_BUFFERING p = (Inr h, p') \<and> contents h p' = [] \<and>
        is_unbuffered fs h p' = Inr True) \<and>
     (\<forall>h bs p. g dvd length bs \<longrightarrow>
        (\<exists>p'. fs_write_all fs h bs p = (Inr (), p') \<and> contents h p' = contents h p @ bs)) \<and>
     (\<forall>h p. \<exists>p'. fs_sync_all fs h p = (Inr (), p') \<and> contents h p' = contents h p)"

lemma write_chunks_writes:
  assumes fs: "\<And>bs p. g dvd length bs \<Longrightarrow> \<exists>p'. fs_write_all fs h bs p = (Inr (), p') \<and> contents h p' = contents h p @ bs"
    and content: "content \<noteq> []" "g dvd length content" and bytes: "g dvd unat bytes"
  shows "\<lbrakk>written \<le> bytes; g dvd unat written\<rbrakk> \<Longrightarrow>
    \<exists>p'. write_chunks fs h content bytes written p = Some (Inr (), p') \<and>
      contents h p' = contents h p @ map (\<lambda>i. content ! (i mod length content)) [0..<unat bytes - unat written]"
proof (induction "unat bytes - unat written" arbitrary: written p rule: less_induct)
  case less
  show ?case
  proof (cases "written < bytes")
    case False
    then have "written = bytes" using less.prems(1) by simp
    then show ?thesis by (subst write_chunks.simps) simp
  next
    case True
    define n where "n = min (unat (bytes - written)) (length content)"
    have left: "unat (bytes - written) = unat bytes - unat written" using less.prems(1) by (simp add: unat_sub)
    have lt: "unat written < unat bytes" using True by (simp add: word_less_nat_alt)
    have n: "0 < n" "n \<le> unat bytes - unat written" "n \<le> length content"
      using lt content(1) by (simp_all add: n_def left)
    have "g dvd unat bytes - unat written" using bytes less.prems(2) by (rule dvd_diff_nat)
    then have gn: "g dvd n" using content(2) by (simp add: n_def left min_def)
    then have "g dvd length (take n content)" using n(3) by simp
    from fs [OF this, of p] obtain p1 where p1: "fs_write_all fs h (take n content) p = (Inr (), p1)"
      "contents h p1 = contents h p @ take n content" by blast
    have "unat written + n < 2 ^ LENGTH(64)" using n(2) lt unsigned_less [of bytes] by (intro le_less_trans [OF _ unsigned_less [of bytes]]) simp
    then have w: "unat (written + of_nat n) = unat written + n" by (simp add: unat_word_ariths unat_of_nat)
    have "unat bytes - unat (written + of_nat n) < unat bytes - unat written" using w n(1) lt by simp
    moreover have "written + of_nat n \<le> bytes" using w n(2) lt by (simp add: word_le_nat_alt)
    moreover have "g dvd unat (written + of_nat n)" unfolding w using less.prems(2) gn by (rule dvd_add)
    ultimately obtain p' where p': "write_chunks fs h content bytes (written + of_nat n) p1 = Some (Inr (), p')"
      "contents h p' = contents h p1 @ map (\<lambda>i. content ! (i mod length content)) [0..<unat bytes - unat (written + of_nat n)]"
      using less.hyps by blast
    have rest: "take n content @ map (\<lambda>i. content ! (i mod length content)) [0..<unat bytes - unat (written + of_nat n)] =
        map (\<lambda>i. content ! (i mod length content)) [0..<unat bytes - unat written]" (is "?l = ?r")
    proof (rule nth_equalityI)
      show "length ?l = length ?r" using n w by simp
      fix i assume "i < length ?l"
      then have i: "i < unat bytes - unat written" using n w by simp
      show "?l ! i = ?r ! i"
      proof (cases "i < n")
        case True
        then show ?thesis using i n(3) by (simp add: nth_append)
      next
        case False
        then have full: "n = length content" using i n(2) by (auto simp: n_def left min_def split: if_splits)
        then have "(i - n) mod length content = i mod length content" using False by (simp add: le_mod_geq)
        then show ?thesis using False i n w full by (simp add: nth_append)
      qed
    qed
    have "write_chunks fs h content bytes written p = Some (Inr (), p')"
      using True p1(1) p'(1) by (subst write_chunks.simps) (simp add: n_def [symmetric] Let_def)
    then show ?thesis using p1(2) p'(2) rest by simp
  qed
qed

lemma chunk_value:
  assumes "is_power_of_two g" "unat g < 2 ^ 32"
  shows "checked_next_multiple_of (max g (push_bit 20 1)) g = Some (max g (push_bit 20 1))"
    and "unat g dvd unat (max g (push_bit 20 1))" and "unat (max g (push_bit 20 1)) \<le> 2 ^ 32" and "g \<noteq> 0"
proof -
  obtain k where k: "unat g = 2 ^ k" using power_of_two_unat [OF assms(1)] by blast
  have m: "unat (push_bit 20 1 :: usize) = 2 ^ 20" by simp
  have u: "unat (max g (push_bit 20 1)) = max (2 ^ k) (2 ^ 20)"
    using k m by (simp add: max_def word_le_nat_alt)
  show d: "unat g dvd unat (max g (push_bit 20 1))"
  proof -
    have "(2 :: nat) ^ k dvd max (2 ^ k) (2 ^ 20)"
    proof (cases "k \<le> 20")
      case True
      then have "max ((2 :: nat) ^ k) (2 ^ 20) = 2 ^ 20" by (intro max_absorb2 power_increasing) simp_all
      then show ?thesis using True by (simp only: le_imp_power_dvd)
    next
      case False
      then have "max ((2 :: nat) ^ k) (2 ^ 20) = 2 ^ k" by (intro max_absorb1 power_increasing) simp_all
      then show ?thesis by simp
    qed
    then show ?thesis by (simp only: u k)
  qed
  show "unat (max g (push_bit 20 1)) \<le> 2 ^ 32" using assms(2) unfolding u k by simp
  show g: "g \<noteq> 0" using k by (metis power_eq_0_iff unat_0 zero_neq_numeral)
  have "unat (max g (push_bit 20 1) mod g) = 0" using d by (simp add: unat_mod)
  then have "max g (push_bit 20 1) mod g = 0" by (simp only: unat_eq_zero)
  then show "checked_next_multiple_of (max g (push_bit 20 1)) g = Some (max g (push_bit 20 1))"
    using g by (simp add: checked_next_multiple_of_def)
qed


definition chunk_of :: "alignment \<Rightarrow> usize" where
  "chunk_of a = max (granularity a) (push_bit 20 1)"

lemma filled_chunk:
  assumes "is_power_of_two (granularity a)" "unat (granularity a) < 2 ^ 32" "alloc (chunk_of a) (granularity a) \<noteq> 0"
  shows "\<exists>b mem1. aligned_new alloc mem (chunk_of a) (granularity a) = Inr (b, mem1) \<and>
    aligned_spare (write_bytes mem1 (ab_ptr b) (filler (unat (ab_cap b)))) b = filler (unat (chunk_of a))"
proof -
  note c = chunk_value [OF assms(1,2), folded chunk_of_def]
  have "granularity a \<le> chunk_of a" by (simp add: chunk_of_def)
  then have m: "max (chunk_of a) (granularity a) = chunk_of a" by (rule max_absorb1)
  have ok: "layout_ok (chunk_of a) (granularity a)"
    using assms(1,2) c(3) by (simp add: layout_ok_def)
  have l: "length (filler (unat (chunk_of a))) = unat (chunk_of a)" by (simp add: filler_def)
  have "aligned_new alloc mem (chunk_of a) (granularity a) =
      Inr (\<lparr>ab_ptr = alloc (chunk_of a) (granularity a), ab_cap = chunk_of a, ab_align = granularity a, ab_len = 0\<rparr>,
        zero_bytes mem (alloc (chunk_of a) (granularity a)) (chunk_of a))"
    using assms(1,3) ok c(1) by (simp add: aligned_new_def m Let_def)
  moreover have "slice_of (write_bytes mem' p (filler (unat (chunk_of a)))) p (chunk_of a) = filler (unat (chunk_of a))"
    for mem' p
    using slice_of_write [of "filler (unat (chunk_of a))" mem' p] c(3) by (simp add: l)
  ultimately show ?thesis by (simp add: aligned_spare_def)
qed

lemma parent_created:
  assumes "unbuffered_fs fs g contents"
  shows "\<exists>p'. create_parent fs path p = (Inr (), p')"
  using assms by (auto simp: unbuffered_fs_def create_parent_def split: option.split)

lemma unbuffered_file_written:
  assumes pow: "is_power_of_two (granularity a)" "unat (granularity a) < 2 ^ 32"
    and "alloc (chunk_of a) (granularity a) \<noteq> 0"
    and fs: "unbuffered_fs fs (unat (granularity a)) contents" and n: "unat (granularity a) dvd unat n"
  shows "\<exists>h p'. ensure_unbuffered_file fs alloc mem path n a p = Some (Inr (), p') \<and>
    contents h p' = map (\<lambda>i. of_nat (i mod unat (chunk_of a) mod 251)) [0..<unat n]"
proof -
  let ?g = "granularity a" and ?c = "filler (unat (chunk_of a))"
  note c = chunk_value [OF pow, folded chunk_of_def]
  obtain p1 where p1: "create_parent fs path p = (Inr (), p1)" using parent_created [OF fs] by blast
  obtain b mem1 where b: "aligned_new alloc mem (chunk_of a) ?g = Inr (b, mem1)"
    "aligned_spare (write_bytes mem1 (ab_ptr b) (filler (unat (ab_cap b)))) b = ?c"
    using filled_chunk [where alloc = alloc, OF pow assms(3)] by blast
  obtain h p2 where h: "fs_create fs path FILE_FLAG_NO_BUFFERING p1 = (Inr h, p2)" "contents h p2 = []"
    "is_unbuffered fs h p2 = Inr True"
    using fs unfolding unbuffered_fs_def by blast
  have l: "length ?c = unat (chunk_of a)" by (simp add: filler_def)
  have "unat ?g \<le> unat (chunk_of a)" by (simp add: chunk_of_def word_le_nat_alt [symmetric])
  moreover have "0 < unat ?g" using c(4) by (simp add: unat_gt_0)
  ultimately have "?c \<noteq> []" using l by auto
  moreover have "unat ?g dvd length ?c" using c(2) l by simp
  moreover have "\<exists>p'. fs_write_all fs h bs p = (Inr (), p') \<and> contents h p' = contents h p @ bs"
    if "unat ?g dvd length bs" for bs p
    using fs that unfolding unbuffered_fs_def by blast
  ultimately obtain p3 where p3: "write_chunks fs h ?c n 0 p2 = Some (Inr (), p3)"
    "contents h p3 = map (\<lambda>i. ?c ! (i mod length ?c)) [0..<unat n]"
    using write_chunks_writes [where h = h and content = ?c and g = "unat ?g" and fs = fs and contents = contents, of n 0 p2]
      n h(2) by auto
  obtain p4 where p4: "fs_sync_all fs h p3 = (Inr (), p4)" "contents h p4 = contents h p3"
    using fs unfolding unbuffered_fs_def by blast
  have "?c ! (i mod length ?c) = of_nat (i mod unat (chunk_of a) mod 251)" for i
  proof -
    have "0 < length ?c" using \<open>?c \<noteq> []\<close> by (rule length_greater_0_conv [THEN iffD2])
    then have "i mod unat (chunk_of a) < unat (chunk_of a)" unfolding l by (rule mod_less_divisor)
    then show ?thesis unfolding l by (simp add: filler_def)
  qed
  then have "contents h p4 = map (\<lambda>i. of_nat (i mod unat (chunk_of a) mod 251)) [0..<unat n]"
    using p3(2) p4(2) by simp
  moreover have "ensure_unbuffered_file fs alloc mem path n a p = Some (Inr (), p4)"
    unfolding ensure_unbuffered_file_def Let_def chunk_of_def [symmetric]
    using p1 b h p3(1) p4(1) c(1) n l by (simp add: is_aligned_dvd)
  ultimately show ?thesis by blast
qed

text \<open>
  The filler starts again at every chunk, so byte \<open>i\<close> is not \<open>i mod 251\<close> throughout, as the
  documentation of \<open>ensure_unbuffered_file\<close> has it: a chunk is no multiple of 251.
\<close>

lemma chunk_no_multiple:
  assumes "is_power_of_two (granularity a)" "unat (granularity a) < 2 ^ 32"
  shows "unat (chunk_of a) mod 251 \<noteq> 0"
proof -
  obtain k where k: "unat (granularity a) = 2 ^ k" using power_of_two_unat [OF assms(1)] by blast
  have "unat (push_bit 20 1 :: usize) = 2 ^ 20" by simp
  with k have "unat (chunk_of a) \<in> {2 ^ k, 2 ^ 20}"
    by (auto simp: chunk_of_def max_def word_le_nat_alt)
  moreover have "\<not> (251 :: nat) dvd 2 ^ j" for j
  proof
    assume "(251 :: nat) dvd 2 ^ j"
    moreover have "coprime (251 :: nat) (2 ^ j)" by (simp add: coprime_power_right_iff)
    ultimately show False using coprime_common_divisor [of "251 :: nat" "2 ^ j" 251] by simp
  qed
  ultimately show ?thesis by (auto simp: dvd_eq_mod_eq_0 simp del: power_Suc)
qed

text \<open>
  C39: The working file is what the unbuffered reads need. With sectors the host reported, a file
  system on which whole-sector writes succeed, and memory for one chunk, creation succeeds: every
  write it makes is of whole sectors, the file has the least whole number of sectors that holds the
  size asked for, and that size is the one the file remembers. Byte \<open>i\<close> is the filler's at
  its place in its chunk, that is \<open>i mod 251\<close> in the first chunk, which is one mebibyte or
  the granularity if that is larger; where the file goes on, the filler starts again from zero,
  so the first byte of the second chunk is not \<open>i mod 251\<close>, though the documentation of
  \<open>ensure_unbuffered_file\<close> says so of every byte. On any file system, a success means that the handle the file was created through said
  it bypasses the cache.
\<close>

theorem working_file_exact:
  fixes fs :: "('h, 'p) file_system"
  assumes "alignment_query storage required disk = Inr a" "bytes \<noteq> 0" "round_up a bytes = Inr n"
    and "alloc (chunk_of a) (granularity a) \<noteq> 0" "unbuffered_fs fs (unat (granularity a)) contents"
  shows "(\<exists>h p'. unbuffered_file_create fs alloc mem dir bytes a p =
        Some (Inr \<lparr>uf_path = fs_join fs dir ''unbuffered-read.dat'', uf_bytes = n\<rparr>, p') \<and>
      contents h p' = map (\<lambda>i. of_nat (i mod unat (chunk_of a) mod 251)) [0..<unat n] \<and>
      (\<forall>i < unat n. i < unat (chunk_of a) \<longrightarrow> contents h p' ! i = of_nat (i mod 251)) \<and>
      (unat (chunk_of a) < unat n \<longrightarrow>
         contents h p' ! unat (chunk_of a) \<noteq> of_nat (unat (chunk_of a) mod 251))) \<and>
    unat (chunk_of a) = max (2 ^ 20) (unat (granularity a)) \<and>
    unat (granularity a) dvd unat n \<and> unat bytes \<le> unat n \<and> unat n < unat bytes + unat (granularity a) \<and>
    (\<forall>(fs2 :: ('h, 'p) file_system) f p'. unbuffered_file_create fs2 alloc mem dir bytes a p = Some (Inr f, p') \<longrightarrow>
      (\<exists>h p1 p2. fs_create fs2 (uf_path f) FILE_FLAG_NO_BUFFERING p1 = (Inr h, p2) \<and> is_unbuffered fs2 h p2 = Inr True))"
proof -
  have v: "alignment_validate a = Inr ()"
    using assms(1) by (auto simp: alignment_query_def Let_def split: sum.splits)
  note g = granularity_power_of_two [OF v]
  have "unat w < 2 ^ LENGTH(32)" for w :: u32 by (rule unsigned_less)
  then have lt: "unat (granularity a) < 2 ^ 32" unfolding granularity_unat by simp
  note n = round_up_eq(1) [OF g(1) assms(3)]
  obtain h p' where "ensure_unbuffered_file fs alloc mem (fs_join fs dir ''unbuffered-read.dat'') n a p = Some (Inr (), p')"
    "contents h p' = map (\<lambda>i. of_nat (i mod unat (chunk_of a) mod 251)) [0..<unat n]"
    using unbuffered_file_written [where alloc = alloc, OF g(1) lt assms(4,5)] n by blast
  then have "\<exists>h p'. unbuffered_file_create fs alloc mem dir bytes a p =
        Some (Inr \<lparr>uf_path = fs_join fs dir ''unbuffered-read.dat'', uf_bytes = n\<rparr>, p') \<and>
      contents h p' = map (\<lambda>i. of_nat (i mod unat (chunk_of a) mod 251)) [0..<unat n]"
    using assms(2,3) by (auto simp: unbuffered_file_create_def Let_def)
  moreover have "\<exists>h p1 p2. fs_create fs2 (uf_path f) FILE_FLAG_NO_BUFFERING p1 = (Inr h, p2) \<and> is_unbuffered fs2 h p2 = Inr True"
    if "unbuffered_file_create fs2 alloc mem dir bytes a p = Some (Inr f, p')" for fs2 :: "('h, 'p) file_system" and f p'
    using that assms(2,3) by (fastforce simp: unbuffered_file_create_def ensure_unbuffered_file_def Let_def
        split: option.splits sum.splits prod.splits if_splits)
  ultimately have made: "\<exists>h p'. unbuffered_file_create fs alloc mem dir bytes a p =
        Some (Inr \<lparr>uf_path = fs_join fs dir ''unbuffered-read.dat'', uf_bytes = n\<rparr>, p') \<and>
      contents h p' = map (\<lambda>i. of_nat (i mod unat (chunk_of a) mod 251)) [0..<unat n]"
    and through: "\<And>(fs2 :: ('h, 'p) file_system) f p'. unbuffered_file_create fs2 alloc mem dir bytes a p = Some (Inr f, p') \<Longrightarrow>
      \<exists>h p1 p2. fs_create fs2 (uf_path f) FILE_FLAG_NO_BUFFERING p1 = (Inr h, p2) \<and> is_unbuffered fs2 h p2 = Inr True"
    by blast+
  have "(of_nat (unat (chunk_of a) mod 251) :: u8) \<noteq> 0"
  proof -
    have "unat (of_nat (unat (chunk_of a) mod 251) :: u8) = unat (chunk_of a) mod 251"
      by (simp add: unat_of_nat)
    then show ?thesis using chunk_no_multiple [OF g(1) lt] by (metis unat_0)
  qed
  then have again: "map (\<lambda>i. of_nat (i mod unat (chunk_of a) mod 251)) [0..<unat n] ! unat (chunk_of a)
      \<noteq> (of_nat (unat (chunk_of a) mod 251) :: u8)" if "unat (chunk_of a) < unat n"
    using that by simp
  have size: "unat (chunk_of a) = max (2 ^ 20) (unat (granularity a))"
    by (simp add: chunk_of_def max_def word_le_nat_alt)
  show ?thesis
    using made through again size n by (intro conjI) (fastforce, simp_all)
qed

definition sample_fs :: "(unit, u8 list) file_system" where
  "sample_fs = \<lparr>fs_parent = \<lambda>_. Some ''d'', fs_join = \<lambda>d f. d @ ''/'' @ f, fs_create_dir_all = \<lambda>_ p. (Inr (), p),
     fs_metadata_len = \<lambda>_ p. Inr (of_nat (length p)), fs_create = \<lambda>_ _ p. (Inr (), []), fs_open = \<lambda>_ p. (Inr (), p),
     fs_write_all = \<lambda>_ bs p. (Inr (), p @ bs), fs_read = \<lambda>_ _ p. (Inr 0, p), fs_flush = \<lambda>_ p. (Inr (), p),
     fs_sync_all = \<lambda>_ p. (Inr (), p), fs_query_mode = \<lambda>_ _. (0, 8), fs_show_status = \<lambda>_. []\<rparr>"

lemma sample_unbuffered: "unbuffered_fs sample_fs g (\<lambda>_ p. p)"
  by (simp add: unbuffered_fs_def sample_fs_def is_unbuffered_def file_mode_def FILE_NO_INTERMEDIATE_BUFFERING_def)

lemma sane_granularity: "granularity sane = 4096"
  by (simp add: granularity_def sane_def max_def word_le_nat_alt)

theorem working_file_exact_witness:
  "\<exists>p'. unbuffered_file_create sample_fs (\<lambda>_ _. 65536) (\<lambda>_. 7) ''d'' 5000 sane [] =
     Some (Inr \<lparr>uf_path = ''d/unbuffered-read.dat'', uf_bytes = 8192\<rparr>, p') \<and> length p' = 8192"
proof -
  have r: "round_up sane 5000 = Inr 8192"
    by (simp add: round_up_def sane_granularity checked_next_multiple_of_def)
  have ne: "(5000 :: u64) \<noteq> 0" by simp
  show ?thesis
    using working_file_exact [where alloc = "\<lambda>_ _. 65536" and fs = sample_fs and contents = "\<lambda>_ p. p" and p = "[]"
        and dir = "''d''" and mem = "\<lambda>_. 7", OF sane_query ne r _ sample_unbuffered]
    by (auto simp: sample_fs_def)
qed

end
