(* ===== verification/Bench_Weaken.thy ===== *)
theory Bench_Weaken
  imports Bench_Harness
begin

text \<open>
  A backend that does less than it says (\<open>weaken.rs\<close> of \<open>win-ioring-bench\<close>), which the tests put
  under the comparison to see it refused.

  The wrapper numbers its reads when their futures are first polled, in the order they were
  issued; it remembers the numbers of those still pending, which the callers keep in that order.
  A skipped read completes when it is first polled. Which of several completed operations is
  answered first makes no difference to a trace (\<open>deliveries_any_order\<close>); here it is a skipped one.
\<close>

section \<open>The wrapper\<close>

text \<open>The runs a thread has begun: the index of this one, and the count with it.\<close>

definition next_run :: "nat \<Rightarrow> nat \<times> nat" where
  "next_run runs = (runs, runs + 1)"

definition HOLLOW :: u8 where "HOLLOW = 0xA5"
definition SKIP_EVERY :: nat where "SKIP_EVERY = 4"

text \<open>Whether this run delivers hollow buffers, decided when the wrapper is made.\<close>

definition weakened_hollow :: "weakness \<Rightarrow> nat \<Rightarrow> bool \<times> nat" where
  "weakened_hollow w runs =
     (case w of
        HollowDelivery \<Rightarrow> (True, runs)
      | HollowFromRun from_run \<Rightarrow> (case next_run runs of (index, runs') \<Rightarrow> (from_run \<le> index, runs'))
      | _ \<Rightarrow> (False, runs))"

definition weakened_skips :: "weakness \<Rightarrow> nat \<Rightarrow> bool" where
  "weakened_skips w index \<longleftrightarrow> w = SkipsWork \<and> index mod SKIP_EVERY = 0"

datatype ('file, 'buf) weak_future =
    WeakRead (weak_file: 'file) (weak_buffer: 'buf) (weak_len: u32) (weak_offset: u64)
  | WeakWrite (weak_file: 'file) (weak_buffer: 'buf) (weak_len: u32) (weak_offset: u64)

definition inner_future ::
    "('file, 'buf, 'fut, 'b) bench_backend \<Rightarrow> ('file, 'buf) weak_future \<Rightarrow> 'fut" where
  "inner_future K f =
     (case f of
        WeakRead file buf len offset \<Rightarrow> bk_read_at K file buf len offset
      | WeakWrite file buf len offset \<Rightarrow> bk_write_at K file buf len offset)"

text \<open>Numbering the reads among futures polled for the first time.\<close>

fun first_polls :: "nat \<Rightarrow> ('file, 'buf) weak_future list \<Rightarrow> nat option list \<times> nat" where
  "first_polls n [] = ([], n)"
| "first_polls n (WeakRead file buf len offset # fs) = (case first_polls (n + 1) fs of (ns, n') \<Rightarrow> (Some n # ns, n'))"
| "first_polls n (WeakWrite file buf len offset # fs) = (case first_polls n fs of (ns, n') \<Rightarrow> (None # ns, n'))"

fun first_skipped :: "weakness \<Rightarrow> nat \<Rightarrow> nat option list \<Rightarrow> nat option" where
  "first_skipped w i [] = None"
| "first_skipped w i (n # ns) =
     (case n of
        Some index \<Rightarrow> if weakened_skips w index then Some i else first_skipped w (i + 1) ns
      | None \<Rightarrow> first_skipped w (i + 1) ns)"

definition weakened_fill ::
    "('file, 'buf, 'fut, 'b) bench_backend \<Rightarrow> bool \<Rightarrow> io_error + u32 \<Rightarrow> 'buf \<Rightarrow> (io_error + u32) \<times> 'buf" where
  "weakened_fill K hollow r buf =
     (case r of
        Inl e \<Rightarrow> (Inl e, buf)
      | Inr transferred \<Rightarrow>
          (if \<not> hollow then (Inr transferred, buf)
           else case bk_fill K (replicate (unat transferred) HOLLOW) buf of
               Inl e \<Rightarrow> (Inl e, buf)
             | Inr buf' \<Rightarrow> (Inr transferred, buf')))"

type_synonym 'b weak_state = "'b \<times> nat \<times> nat option list"

definition weakened_await ::
    "('file, 'buf, 'fut, 'b) bench_backend \<Rightarrow> weakness \<Rightarrow> bool \<Rightarrow> ('file, 'buf) weak_future list \<Rightarrow> 'b weak_state
      \<Rightarrow> (nat \<times> (io_error + u32) \<times> 'buf \<times> 'b weak_state) option" where
  "weakened_await K w hollow pending = (\<lambda>(b, reads, polled).
     (case first_polls reads (drop (length polled) pending) of
        (fresh, reads') \<Rightarrow>
          (case first_skipped w 0 (polled @ fresh) of
             Some i \<Rightarrow> Some (i, Inr 0, weak_buffer (pending ! i), (b, reads', drop_nth i (polled @ fresh)))
           | None \<Rightarrow>
               (case bk_await K (map (inner_future K) pending) b of
                  None \<Rightarrow> None
                | Some (i, r, buf, b') \<Rightarrow>
                    (case weakened_fill K hollow r buf of
                       (r', buf') \<Rightarrow> Some (i, r', buf', (b', reads', drop_nth i (polled @ fresh))))))))"

definition on_inner :: "(('a + 'c) \<times> 'b) option \<Rightarrow> nat \<times> nat option list \<Rightarrow> (('a + 'c) \<times> 'b weak_state) option" where
  "on_inner x s = map_option (\<lambda>(r, b). (r, (b, s))) x"

definition weakened ::
    "('file, 'buf, 'fut, 'b) bench_backend \<Rightarrow> weakness \<Rightarrow> bool
      \<Rightarrow> ('file, 'buf, ('file, 'buf) weak_future, 'b weak_state) bench_backend" where
  "weakened K w hollow =
     \<lparr>bk_open_read = \<lambda>path (b, s). on_inner (bk_open_read K path b) s,
      bk_open_write = \<lambda>path (b, s). on_inner (bk_open_write K path b) s,
      bk_take_buffer = \<lambda>capacity (b, s). (case bk_take_buffer K capacity b of (r, b') \<Rightarrow> (r, (b', s))),
      bk_put_buffer = \<lambda>buf (b, s). (bk_put_buffer K buf b, s),
      bk_read_at = WeakRead, bk_write_at = WeakWrite, bk_await = weakened_await K w hollow,
      bk_sync = \<lambda>file (b, s). on_inner (bk_sync K file b) s,
      bk_bytes = bk_bytes K, bk_fill = bk_fill K\<rparr>"

text \<open>One job, on the backend itself or on a fresh wrapper; the count of weakened runs goes on.\<close>

definition session_scenario ::
    "('file, 'buf, 'fut, 'b) bench_backend \<Rightarrow> (string \<Rightarrow> io_error + u64) \<Rightarrow> job \<Rightarrow> 'b
      \<Rightarrow> ((io_error + outcome) \<times> 'b) option" where
  "session_scenario K file_len j =
     run_scenario K file_len (jb_scenario j) (jb_read_path j) (jb_write_path j) (jb_block j) (jb_operations j) (jb_depth j)"

definition run_job ::
    "('file, 'buf, 'fut, 'b) bench_backend \<Rightarrow> (string \<Rightarrow> io_error + u64) \<Rightarrow> job \<Rightarrow> weakness \<Rightarrow> nat \<Rightarrow> 'b
      \<Rightarrow> ((io_error + outcome) \<times> 'b \<times> nat) option" where
  "run_job K file_len j w runs b =
     (case w of
        NoWeakness \<Rightarrow> map_option (\<lambda>(r, b'). (r, (b', runs))) (session_scenario K file_len j b)
      | _ \<Rightarrow>
          (case weakened_hollow w runs of
             (hollow, runs') \<Rightarrow>
               map_option (\<lambda>(r, (b', _)). (r, (b', runs'))) (session_scenario (weakened K w hollow) file_len j (b, 0, []))))"

section \<open>A run that does its work\<close>

lemma refill_more:
  assumes keeps: "\<And>i b x b'. make_op B i b = (x, b') \<Longrightarrow> P b \<Longrightarrow> P b'"
  shows "refill B todo issued pending r b = (Inr (issued1, pending1), r1, b1) \<Longrightarrow> P b \<Longrightarrow>
    \<exists>more. pending1 = pending @ more \<and> issued1 = issued + length more \<and> (issued \<le> todo \<longrightarrow> issued1 \<le> todo) \<and>
      (\<forall>f \<in> set more. \<exists>i b b'. make_op B i b = (Inr f, b')) \<and> P b1 \<and> ru_configured r1 = ru_configured r \<and>
      (pending1 = [] \<longrightarrow> 0 < ru_configured r \<longrightarrow> todo \<le> issued1)"
proof (induction "todo - issued" arbitrary: issued pending r b)
  case (0 issued pending r b)
  then show ?case by (subst (asm) refill.simps) simp
next
  case (Suc k)
  obtain x b2 where m: "make_op B issued b = (x, b2)" by (cases "make_op B issued b")
  show ?case
  proof (cases "length pending < ru_configured r")
    case False
    with Suc.prems show ?thesis by (subst (asm) refill.simps) auto
  next
    case room: True
    then have go: "issued < todo \<and> length pending < ru_configured r" using Suc.hyps(2) by simp
    show ?thesis
    proof (cases x)
      case (Inl e)
      with Suc.prems go m keeps [OF m] show ?thesis by (subst (asm) refill.simps) (auto split: if_splits)
    next
      case (Inr f)
      with Suc.prems(1) go m have r: "refill B todo (issued + 1) (pending @ [f]) r b2 = (Inr (issued1, pending1), r1, b1)"
        by (subst (asm) refill.simps) simp
      have "k = todo - (issued + 1)" using Suc.hyps(2) by simp
      from Suc.hyps(1) [OF this r keeps [OF m Suc.prems(2)]] obtain more where more:
        "pending1 = (pending @ [f]) @ more" "issued1 = issued + 1 + length more" "issued + 1 \<le> todo \<longrightarrow> issued1 \<le> todo"
        "\<forall>f \<in> set more. \<exists>i b b'. make_op B i b = (Inr f, b')" "P b1" "ru_configured r1 = ru_configured r" by blast
      then show ?thesis using m Inr go by (intro exI [of _ "f # more"]) auto
    qed
  qed
qed

lemma fill_more:
  assumes "fill_phase B todo issued pending r b = (Inr (issued1, pending1), r1, b1)"
    and "\<And>i b x b'. make_op B i b = (x, b') \<Longrightarrow> P b \<Longrightarrow> P b'" "P b"
  shows "\<exists>more. pending1 = pending @ more \<and> issued1 = issued + length more \<and> (issued \<le> todo \<longrightarrow> issued1 \<le> todo) \<and>
    (\<forall>f \<in> set more. \<exists>i b b'. make_op B i b = (Inr f, b')) \<and> P b1 \<and> ru_configured r1 = ru_configured r \<and>
    (pending1 = [] \<longrightarrow> 0 < ru_configured r \<longrightarrow> todo \<le> issued1)"
proof (cases "may_refill (ru_shape r) (pending = [])")
  case True
  then show ?thesis using refill_more [where P = P, OF assms(2)] assms(1,3)
    by (fastforce simp: fill_phase_def)
next
  case False
  then have "pending \<noteq> []" by (auto simp: may_refill_def split: shape.splits)
  then show ?thesis using False assms(1,3) by (auto simp: fill_phase_def)
qed

text \<open>A backend whose reads deliver what they were asked for.\<close>

definition honest :: "('file, 'buf, 'fut, 'b) bench_backend \<Rightarrow> u32 \<Rightarrow> bool" where
  "honest K block \<longleftrightarrow>
     (\<forall>reads b. reads \<noteq> [] \<longrightarrow>
        (\<exists>i buf b'. bk_await K (map (\<lambda>(f, buf, offset). bk_read_at K f buf block offset) reads) b =
             Some (i, Inr block, buf, b') \<and> i < length reads \<and> unat block \<le> length (bk_bytes K buf)))"

text \<open>Reads that are pending, of one block each, and what has been delivered of those that completed.\<close>

definition reads_pending ::
    "('file, 'buf, 'fut, 'b) bench_backend \<Rightarrow> u32 \<Rightarrow> (u64 \<times> 'fut) list \<Rightarrow> bool" where
  "reads_pending K block pending \<longleftrightarrow>
     (\<exists>reads. pending = map (\<lambda>(f, buf, offset). (offset, bk_read_at K f buf block offset)) reads)"

lemma reads_pending_simps:
  "reads_pending K block []"
  "reads_pending K block pending \<Longrightarrow> reads_pending K block (drop_nth i pending)"
  "reads_pending K block pending \<Longrightarrow> reads_pending K block fresh \<Longrightarrow> reads_pending K block (pending @ fresh)"
proof -
  show "reads_pending K block []" by (simp add: reads_pending_def)
  show "reads_pending K block pending \<Longrightarrow> reads_pending K block (drop_nth i pending)"
    by (auto simp: reads_pending_def drop_nth_map simp del: split_paired_Ex)
  assume "reads_pending K block pending" "reads_pending K block fresh"
  then obtain xs ys where "pending = map (\<lambda>(f, buf, offset). (offset, bk_read_at K f buf block offset)) xs"
    "fresh = map (\<lambda>(f, buf, offset). (offset, bk_read_at K f buf block offset)) ys"
    unfolding reads_pending_def by blast
  then show "reads_pending K block (pending @ fresh)"
    unfolding reads_pending_def by (intro exI [of _ "xs @ ys"]) simp
qed

lemma reading_more:
  assumes "\<forall>f \<in> set fresh. \<exists>i b b'. make_op (reading K h block offset_of) i b = (Inr f, b')"
  shows "reads_pending K block fresh"
  using assms
proof (induction fresh)
  case (Cons f fresh)
  from Cons.prems obtain i b b' where "make_op (reading K h block offset_of) i b = (Inr f, b')" by auto
  then obtain buf offset where f: "f = (offset, bk_read_at K h buf block offset)"
    by (auto simp: reading_def split: prod.splits sum.splits)
  have "reads_pending K block ([f] @ fresh)"
    using Cons by (intro reads_pending_simps(3)) (auto simp: reads_pending_def f intro: exI [of _ "[(h, buf, offset)]"])
  then show ?case by simp
qed (simp add: reads_pending_def)

lemma honest_completion:
  assumes "honest K block" "reads_pending K block pending" "pending \<noteq> []"
  shows "\<exists>i buf b'. next_completion (reading K h block offset_of) pending b =
      Some (i, fst (pending ! i), Inr (block, buf), b') \<and> i < length pending \<and>
    delivery_take block (buffer_bytes (reading K h block offset_of) buf) = unat block"
proof -
  obtain reads where r: "pending = map (\<lambda>(f, buf, offset). (offset, bk_read_at K f buf block offset)) reads"
    using assms(2) by (auto simp: reads_pending_def)
  have "map snd pending = map (\<lambda>(f, buf, offset). bk_read_at K f buf block offset) reads"
    unfolding r by (simp add: comp_def split_beta)
  moreover have "reads \<noteq> []" using assms(3) r by simp
  ultimately obtain i buf b' where "bk_await K (map snd pending) b = Some (i, Inr block, buf, b')" "i < length reads"
    "unat block \<le> length (bk_bytes K buf)"
    using assms(1) unfolding honest_def by metis
  then show ?thesis by (auto simp: reading_def awaiting_def r delivery_take_def)
qed


text \<open>A successful end of the loop has started and completed everything.\<close>

lemma successful_end:
  assumes "turn_ends B todo issued pending r b (Inr ()) r' b'" "0 < ru_configured r" "issued \<le> todo"
  shows "pending = [] \<and> issued = todo"
proof -
  obtain x r1 b1 where fill: "fill_phase B todo issued pending r b = (x, r1, b1)"
    by (cases "fill_phase B todo issued pending r b")
  then obtain issued1 where x: "x = Inr (issued1, [])"
    using assms(1) unfolding turn_ends_def by (auto split: sum.splits if_splits)
  from fill_more [where P = "\<lambda>_. True", OF fill [unfolded x]] assms(2,3) show ?thesis by auto
qed

lemma honest_delivers:
  fixes b :: 'b and K :: "('file, 'buf, 'fut, 'b) bench_backend"
  assumes "honest K block"
    and run: "runner_run (reading K h block offset_of) todo p t (runner_new depth sh) b = Some (Inr (), t', r', b')"
  shows "tr_delivered_bytes t' = tr_delivered_bytes t + of_nat (todo * unat block)"
proof -
  let ?B = "reading K h block offset_of"
  let ?I = "\<lambda>issued pending (t1 :: trace) (r :: runner) (b :: 'b). reads_pending K block pending \<and> length pending \<le> issued \<and> issued \<le> todo \<and>
    0 < ru_configured r \<and>
    tr_delivered_bytes t1 = tr_delivered_bytes t + of_nat ((issued - length pending) * unat block)"
  have start: "?I 0 [] t (runner_new depth sh) b" by (simp add: reads_pending_simps runner_new_def)
  have "\<exists>issued pending r b. ?I issued pending t' r b \<and> turn_ends ?B todo issued pending r b (Inr ()) r' b'"
    using run [unfolded runner_run_def] start
  proof (rule run_loop_invariant)
    fix issued pending t1 r b issued1 pending1 r1 b1 i offset n buf b2
    assume I: "?I issued pending t1 r b" and fill: "fill_phase ?B todo issued pending r b = (Inr (issued1, pending1), r1, b1)"
      and ne: "pending1 \<noteq> []" and nx: "next_completion ?B pending1 b1 = Some (i, offset, Inr (n, buf), b2)"
    obtain fresh where f: "pending1 = pending @ fresh" "issued1 = issued + length fresh" "issued1 \<le> todo"
      "\<forall>f \<in> set fresh. \<exists>i b b'. make_op ?B i b = (Inr f, b')" "ru_configured r1 = ru_configured r"
      using fill_more [where P = "\<lambda>_. True", OF fill] I by auto
    have reads: "reads_pending K block pending1"
      unfolding f(1) using I reading_more [OF f(4)] by (intro reads_pending_simps(3)) simp_all
    have c: "n = block" "i < length pending1" "delivery_take block (buffer_bytes ?B buf) = unat block"
      using honest_completion [OF assms(1) reads ne, of h offset_of b1] nx by auto
    have one: "issued1 - length (drop_nth i pending1) = Suc (issued - length pending)"
      and le: "length (drop_nth i pending1) \<le> issued1"
      using drop_nth_length [OF c(2)] f(1,2) I c(2) by auto
    have "tr_delivered_bytes (trace_delivered p offset n (buffer_bytes ?B buf) t1) =
        tr_delivered_bytes t + of_nat ((issued1 - length (drop_nth i pending1)) * unat block)"
      unfolding one mult_Suc of_nat_add using I by (simp add: trace_delivered_def c(1,3) ac_simps)
    then show "?I issued1 (drop_nth i pending1) (trace_delivered p offset n (buffer_bytes ?B buf) t1)
        (note_completion (length pending1) (note_outstanding todo issued1 (length pending1) r1)) (put_buffer ?B buf b2)"
      using I f(3,5) le reads_pending_simps(2) [OF reads, of i] by simp
  qed
  then obtain issued pending r b where I: "?I issued pending t' r b"
    and ends: "turn_ends ?B todo issued pending r b (Inr ()) r' b'" by blast
  have "pending = [] \<and> issued = todo" by (rule successful_end [OF ends]) (use I in simp_all)
  then show ?thesis using I by simp
qed


section \<open>A run that skips\<close>

lemma map_sum_Inr_iff: "map_sum f g x = Inr y \<longleftrightarrow> (\<exists>z. x = Inr z \<and> y = g z)"
  by (cases x) auto

lemma weak_completion:
  fixes K :: "('file, 'buf, 'fut, 'b) bench_backend"
  defines "W \<equiv> weakened K SkipsWork False"
  assumes "honest K block" and pending: "reads_pending W block pending" and ne: "pending \<noteq> []"
    and nx: "next_completion (reading W h block offset_of) pending s = Some (i, offset, Inr (n, buf), s')"
  shows "n = 0 \<or> n = block \<and> i < length pending" and "snd s = (0, []) \<Longrightarrow> n = 0 \<and> i = 0"
proof -
  obtain bb count polled where s: "s = (bb, count, polled)" by (cases s)
  obtain reads where r: "pending = map (\<lambda>(f, buf, offset). (offset, WeakRead f buf block offset)) reads"
    using pending by (auto simp: reads_pending_def W_def weakened_def)
  have snds: "map snd pending = map (\<lambda>(f, buf, offset). WeakRead f buf block offset) reads"
    unfolding r by (simp add: comp_def split_beta)
  have inner: "map (inner_future K) (map snd pending) = map (\<lambda>(f, buf, offset). bk_read_at K f buf block offset) reads"
    unfolding snds by (simp add: inner_future_def comp_def split_beta)
  have reads: "reads \<noteq> []" using ne r by simp
  obtain fresh count' where polls: "first_polls count (drop (length polled) (map snd pending)) = (fresh, count')"
    by (cases "first_polls count (drop (length polled) (map snd pending))")
  obtain buf' s2 where aw: "weakened_await K SkipsWork False (map snd pending) s = Some (i, Inr n, buf', s2)"
    using nx by (auto simp: reading_def awaiting_def W_def weakened_def map_sum_Inr_iff split: option.splits prod.splits)
  have key: "(\<exists>j. first_skipped SkipsWork 0 (polled @ fresh) = Some j \<and> i = j \<and> n = 0) \<or>
    n = block \<and> i < length reads"
  proof (cases "first_skipped SkipsWork 0 (polled @ fresh)")
    case None
    obtain j b3 b' where "bk_await K (map (inner_future K) (map snd pending)) bb = Some (j, Inr block, b3, b')" "j < length reads"
      using assms(2) reads unfolding honest_def inner by metis
    with aw None polls show ?thesis by (simp add: weakened_await_def s weakened_fill_def)
  next
    case (Some j)
    with aw polls show ?thesis by (simp add: weakened_await_def s)
  qed
  then show "n = 0 \<or> n = block \<and> i < length pending" using r by auto
  assume "snd s = (0, [])"
  then have "count = 0" "polled = []" using s by simp_all
  moreover obtain f fs where "map snd pending = f # fs" using ne by (cases pending) auto
  moreover from this obtain g bf where "f = WeakRead g bf block (weak_offset f)" using snds by (cases reads) auto
  ultimately have "\<exists>ns. polled @ fresh = Some 0 # ns" using polls
    by (cases f) (auto split: prod.splits)
  then have "first_skipped SkipsWork 0 (polled @ fresh) = Some 0" by (auto simp: weakened_skips_def)
  then show "n = 0 \<and> i = 0" using key aw polls by (auto simp: weakened_await_def s)
qed


lemma skipping_delivers_less:
  fixes K :: "('file, 'buf, 'fut, 'b) bench_backend"
  defines "W \<equiv> weakened K SkipsWork False"
  assumes honest: "honest K block" and todo: "0 < todo"
    and run: "runner_run (reading W h block offset_of) todo p t (runner_new depth sh) (bb, 0, []) = Some (Inr (), t', r', s')"
  shows "\<exists>d. tr_delivered_bytes t' = tr_delivered_bytes t + of_nat d \<and> d + unat block \<le> todo * unat block"
proof -
  let ?B = "reading W h block offset_of"
  let ?some = "\<lambda>issued (pending :: (u64 \<times> ('file, 'buf) weak_future) list) (t1 :: trace).
    \<exists>d. tr_delivered_bytes t1 = tr_delivered_bytes t + of_nat d \<and> d + unat block \<le> (issued - length pending) * unat block"
  let ?I = "\<lambda>issued pending (t1 :: trace) (r :: runner) (s :: 'b weak_state). reads_pending W block pending \<and>
    length pending \<le> issued \<and> issued \<le> todo \<and> 0 < ru_configured r \<and>
    (issued = 0 \<and> t1 = t \<and> snd s = (0, []) \<or> ?some issued pending t1)"
  have start: "?I 0 [] t (runner_new depth sh) (bb, 0, [])" by (simp add: reads_pending_simps runner_new_def)
  have "\<exists>issued pending r s. ?I issued pending t' r s \<and> turn_ends ?B todo issued pending r s (Inr ()) r' s'"
    using run [unfolded runner_run_def] start
  proof (rule run_loop_invariant [where I = ?I])
    fix issued pending t1 r s issued1 pending1 r1 s1 i offset n buf s2
    assume I: "?I issued pending t1 r s" and fill: "fill_phase ?B todo issued pending r s = (Inr (issued1, pending1), r1, s1)"
      and ne: "pending1 \<noteq> []" and nx: "next_completion ?B pending1 s1 = Some (i, offset, Inr (n, buf), s2)"
    have keeps: "snd s3 = snd s" if "make_op ?B i s2 = (x, s3)" "snd s2 = snd s" for i s2 x s3
      using that by (auto simp: reading_def W_def weakened_def split: prod.splits sum.splits)
    have "\<exists>fresh. pending1 = pending @ fresh \<and> issued1 = issued + length fresh \<and> (issued \<le> todo \<longrightarrow> issued1 \<le> todo) \<and>
        (\<forall>f \<in> set fresh. \<exists>i b b'. make_op ?B i b = (Inr f, b')) \<and> snd s1 = snd s \<and> ru_configured r1 = ru_configured r \<and>
        (pending1 = [] \<longrightarrow> 0 < ru_configured r \<longrightarrow> todo \<le> issued1)"
      by (rule fill_more [where P = "\<lambda>s1. snd s1 = snd s", OF fill _ refl]) (rule keeps)
    then obtain fresh where f: "pending1 = pending @ fresh" "issued1 = issued + length fresh" "issued1 \<le> todo"
      "\<forall>f \<in> set fresh. \<exists>i b b'. make_op ?B i b = (Inr f, b')" "snd s1 = snd s" "ru_configured r1 = ru_configured r"
      using I by blast
    have reads: "reads_pending W block pending1"
      unfolding f(1) using I reading_more [OF f(4)] by (intro reads_pending_simps(3)) simp_all
    note answer = weak_completion [OF honest reads [unfolded W_def] ne nx [unfolded W_def]]
    let ?t = "trace_delivered p offset n (buffer_bytes ?B buf) t1" and ?left = "drop_nth i pending1"
    define k where "k = delivery_take n (buffer_bytes ?B buf)"
    have t: "tr_delivered_bytes ?t = tr_delivered_bytes t1 + of_nat k" by (simp add: trace_delivered_def k_def)
    have "k \<le> unat n" by (simp add: k_def delivery_take_def)
    have le: "length ?left \<le> length pending1" by (simp add: drop_nth_def)
    have "?some issued1 ?left ?t"
    proof (cases "issued = 0 \<and> t1 = t \<and> snd s = (0, [])")
      case True
      then have "n = 0" "i = 0" using answer(2) f(5) by simp_all
      moreover have "issued1 - length ?left = 1"
        using True I f(1,2) ne drop_nth_length [of 0 pending1] \<open>i = 0\<close> by (cases pending1) auto
      ultimately show ?thesis using t True \<open>k \<le> unat n\<close> by (intro exI [of _ 0]) simp
    next
      case False
      then obtain d where d: "tr_delivered_bytes t1 = tr_delivered_bytes t + of_nat d"
        "d + unat block \<le> (issued - length pending) * unat block" using I by blast
      have "k = 0 \<and> issued - length pending \<le> issued1 - length ?left \<or>
          k \<le> unat block \<and> Suc (issued - length pending) \<le> issued1 - length ?left"
        using answer(1) \<open>k \<le> unat n\<close> le f(1,2) drop_nth_length [of i pending1] I by auto
      then have "d + k + unat block \<le> (issued1 - length ?left) * unat block"
      proof
        assume k: "k = 0 \<and> issued - length pending \<le> issued1 - length ?left"
        then have "(issued - length pending) * unat block \<le> (issued1 - length ?left) * unat block"
          by (intro mult_le_mono1) simp
        then show ?thesis using d(2) k by linarith
      next
        assume k: "k \<le> unat block \<and> Suc (issued - length pending) \<le> issued1 - length ?left"
        then have "Suc (issued - length pending) * unat block \<le> (issued1 - length ?left) * unat block"
          by (intro mult_le_mono1) simp
        then have "unat block + (issued - length pending) * unat block \<le> (issued1 - length ?left) * unat block"
          by (simp only: mult_Suc)
        then show ?thesis using d(2) k by linarith
      qed
      then show ?thesis using d(1) t by (intro exI [of _ "d + k"]) (simp add: ac_simps)
    qed
    then show "?I issued1 ?left ?t
        (note_completion (length pending1) (note_outstanding todo issued1 (length pending1) r1)) (put_buffer ?B buf s2)"
      using I f(1,2,3,6) le reads_pending_simps(2) [OF reads, of i] by auto
  qed
  then obtain issued pending r s where I: "?I issued pending t' r s"
    and ends: "turn_ends ?B todo issued pending r s (Inr ()) r' s'" by blast
  have "pending = [] \<and> issued = todo" by (rule successful_end [OF ends]) (use I in simp_all)
  then show ?thesis using I todo by auto
qed


section \<open>Both runs return\<close>

text \<open>
  A loop whose backend always has an operation to start and always completes one of those
  pending returns. \<open>J\<close> is what holds of the pending operations and the backend's state.
\<close>

lemma refill_returns:
  assumes make: "\<And>i pending b. J pending b \<Longrightarrow> \<exists>f b'. make_op B i b = (Inr f, b') \<and> J (pending @ [f]) b'"
    and "J pending b"
  shows "\<exists>issued' pending' b'. refill B todo issued pending r b = (Inr (issued', pending'), r, b') \<and> J pending' b' \<and>
    todo - issued' + length pending' = todo - issued + length pending"
  using assms(2)
proof (induction "todo - issued" arbitrary: issued pending b)
  case 0
  then show ?case by (subst refill.simps) simp
next
  case (Suc k)
  show ?case
  proof (cases "length pending < ru_configured r")
    case False
    then show ?thesis using Suc.prems by (subst refill.simps) simp
  next
    case True
    obtain f b1 where f: "make_op B issued b = (Inr f, b1)" "J (pending @ [f]) b1" using make [OF Suc.prems] by blast
    have lt: "issued < todo" "k = todo - (issued + 1)" using Suc.hyps(2) by simp_all
    have "refill B todo issued pending r b = refill B todo (issued + 1) (pending @ [f]) r b1"
      using True lt(1) f(1) by (subst refill.simps) simp
    moreover have "todo - (issued + 1) + length (pending @ [f]) = todo - issued + length pending"
      using lt(1) by simp
    ultimately show ?thesis using Suc.hyps(1) [OF lt(2) f(2)] by metis
  qed
qed

lemma run_returns:
  assumes make: "\<And>i pending b. J pending b \<Longrightarrow> \<exists>f b'. make_op B i b = (Inr f, b') \<and> J (pending @ [f]) b'"
    and completes: "\<And>pending b. J pending b \<Longrightarrow> pending \<noteq> [] \<Longrightarrow>
      \<exists>i offset n buf b'. next_completion B pending b = Some (i, offset, Inr (n, buf), b') \<and> i < length pending \<and>
        J (drop_nth i pending) (put_buffer B buf b')"
    and "J pending b"
  shows "\<exists>t' r' b'. run_loop B todo p issued pending t r b = Some (Inr (), t', r', b')"
  using assms(3)
proof (induction "todo - issued + length pending" arbitrary: issued pending t r b rule: less_induct)
  case less
  obtain issued1 pending1 b1 where fill: "fill_phase B todo issued pending r b = (Inr (issued1, pending1), r, b1)"
    "J pending1 b1" "todo - issued1 + length pending1 = todo - issued + length pending"
    using refill_returns [OF make less.prems, of todo issued r] less.prems
    by (cases "may_refill (ru_shape r) (pending = [])") (auto simp: fill_phase_def)
  show ?case
  proof (cases "pending1 = []")
    case True
    then show ?thesis using fill(1) by (subst run_loop.simps) (simp add: fill_phase_def [symmetric])
  next
    case False
    then obtain i offset n buf b2 where c: "next_completion B pending1 b1 = Some (i, offset, Inr (n, buf), b2)"
      "i < length pending1" "J (drop_nth i pending1) (put_buffer B buf b2)"
      using completes [OF fill(2)] by blast
    have less': "todo - issued1 + length (drop_nth i pending1) < todo - issued + length pending"
      using fill(3) c(2) drop_nth_length [OF c(2)] False by (cases pending1) auto
    show ?thesis using less.hyps [OF less' c(3)] fill(1) c(1) False
      by (subst run_loop.simps) (simp add: fill_phase_def [symmetric] Let_def)
  qed
qed

text \<open>A backend that opens the file and always has a buffer to lend, and a system that knows the length.\<close>

definition ready :: "('file, 'buf, 'fut, 'b) bench_backend \<Rightarrow> (string \<Rightarrow> io_error + u64) \<Rightarrow> job \<Rightarrow> bool" where
  "ready K file_len j \<longleftrightarrow> (\<exists>len. file_len (jb_read_path j) = Inr len) \<and>
     (\<forall>b. \<exists>h b'. bk_open_read K (jb_read_path j) b = Some (Inr h, b')) \<and>
     (\<forall>b. \<exists>buf b'. bk_take_buffer K (unat (jb_block j)) b = (Inr buf, b'))"

lemma reads_pending_one:
  "reads_pending K block pending \<Longrightarrow> reads_pending K block (pending @ [(offset, bk_read_at K f buf block offset)])"
  by (rule reads_pending_simps(3)) (auto simp: reads_pending_def intro: exI [of _ "[(f, buf, offset)]"])

lemma honest_returns:
  assumes "honest K block" "\<forall>b. \<exists>buf b'. bk_take_buffer K (unat block) b = (Inr buf, b')"
  shows "\<exists>t' r' b'. runner_run (reading K h block offset_of) todo p t r b = Some (Inr (), t', r', b')"
  unfolding runner_run_def
proof (rule run_returns [where J = "\<lambda>pending b. reads_pending K block pending"])
  fix i pending and b :: 'd assume J: "reads_pending K block pending"
  obtain buf b' where "bk_take_buffer K (unat block) b = (Inr buf, b')" using assms(2) by blast
  then show "\<exists>f b'. make_op (reading K h block offset_of) i b = (Inr f, b') \<and> reads_pending K block (pending @ [f])"
    using reads_pending_one [OF J] by (simp add: reading_def)
next
  fix pending and b :: 'd assume J: "reads_pending K block pending" "pending \<noteq> []"
  from honest_completion [OF assms(1) J] reads_pending_simps(2) [OF J(1)]
  show "\<exists>i offset n buf b'. next_completion (reading K h block offset_of) pending b = Some (i, offset, Inr (n, buf), b') \<and>
      i < length pending \<and> reads_pending K block (drop_nth i pending)" by blast
qed (simp add: reads_pending_simps)

lemma first_polls_length: "first_polls n fs = (ns, n') \<Longrightarrow> length ns = length fs"
  by (induction n fs arbitrary: ns n' rule: first_polls.induct) (auto split: prod.splits)

lemma first_skipped_bound: "first_skipped w k ns = Some i \<Longrightarrow> i < k + length ns"
  by (induction w k ns rule: first_skipped.induct) (auto split: option.splits if_splits)

text \<open>The wrapper polls no more than is pending, and answers for one of them.\<close>

lemma weak_completes:
  fixes K :: "('file, 'buf, 'fut, 'b) bench_backend"
  defines "W \<equiv> weakened K SkipsWork False"
  assumes "honest K block" and pending: "reads_pending W block pending" and ne: "pending \<noteq> []"
    and polled: "length (snd (snd s)) \<le> length pending"
  shows "\<exists>i offset n buf s'. next_completion (reading W h block offset_of) pending s = Some (i, offset, Inr (n, buf), s') \<and>
    i < length pending \<and> Suc (length (snd (snd s'))) = length pending"
proof -
  obtain bb count polled where s: "s = (bb, count, polled)" by (cases s)
  obtain reads where r: "pending = map (\<lambda>(f, buf, offset). (offset, WeakRead f buf block offset)) reads"
    using pending by (auto simp: reads_pending_def W_def weakened_def)
  have inner: "map (inner_future K) (map snd pending) = map (\<lambda>(f, buf, offset). bk_read_at K f buf block offset) reads"
    unfolding r by (simp add: inner_future_def comp_def split_beta)
  have reads: "reads \<noteq> []" using ne r by simp
  obtain fresh count' where polls: "first_polls count (drop (length polled) (map snd pending)) = (fresh, count')"
    by (cases "first_polls count (drop (length polled) (map snd pending))")
  have len: "length (polled @ fresh) = length pending"
    using first_polls_length [OF polls] assms(5) by (simp add: s)
  show ?thesis
  proof (cases "first_skipped SkipsWork 0 (polled @ fresh)")
    case None
    obtain j buf b' where "bk_await K (map (inner_future K) (map snd pending)) bb = Some (j, Inr block, buf, b')" "j < length reads"
      using assms(2) reads unfolding honest_def inner by metis
    then show ?thesis using None polls len drop_nth_length [of j "polled @ fresh"] r
      by (auto simp: reading_def awaiting_def W_def weakened_def weakened_await_def weakened_fill_def s)
  next
    case (Some j)
    then have "j < length pending" using first_skipped_bound [OF Some] len by simp
    then show ?thesis using Some polls len drop_nth_length [of j "polled @ fresh"]
      by (auto simp: reading_def awaiting_def W_def weakened_def weakened_await_def s)
  qed
qed

lemma weak_returns:
  fixes K :: "('file, 'buf, 'fut, 'b) bench_backend"
  assumes "honest K block" "\<forall>b. \<exists>buf b'. bk_take_buffer K (unat block) b = (Inr buf, b')"
  shows "\<exists>t' r' s'. runner_run (reading (weakened K SkipsWork False) h block offset_of) todo p t r (bb, 0, []) =
    Some (Inr (), t', r', s')"
proof -
  let ?W = "weakened K SkipsWork False"
  let ?J = "\<lambda>pending (s :: 'b weak_state). reads_pending ?W block pending \<and> length (snd (snd s)) \<le> length pending"
  show ?thesis unfolding runner_run_def
  proof (rule run_returns [where J = ?J])
    fix i pending and s :: "'b weak_state" assume J: "?J pending s"
    obtain b n where s: "s = (b, n)" by (cases s)
    obtain buf b' where "bk_take_buffer K (unat block) b = (Inr buf, b')" using assms(2) by blast
    then have "make_op (reading ?W h block offset_of) i s =
        (Inr (offset_of i, bk_read_at ?W h buf block (offset_of i)), b', n)"
      by (simp add: reading_def weakened_def s)
    then show "\<exists>f s'. make_op (reading ?W h block offset_of) i s = (Inr f, s') \<and> ?J (pending @ [f]) s'"
      using reads_pending_one [of ?W] J by (fastforce simp: s)
  next
    fix pending and s :: "'b weak_state" assume J: "?J pending s" and ne: "pending \<noteq> []"
    then obtain i offset n buf s' where c:
      "next_completion (reading ?W h block offset_of) pending s = Some (i, offset, Inr (n, buf), s')"
      "i < length pending" "Suc (length (snd (snd s'))) = length pending"
      using weak_completes [OF assms(1), of pending s] by blast
    moreover have "snd (put_buffer (reading ?W h block offset_of) buf s') = snd s'"
      by (cases s') (simp add: reading_def weakened_def)
    ultimately show "\<exists>i offset n buf s'. next_completion (reading ?W h block offset_of) pending s = Some (i, offset, Inr (n, buf), s') \<and>
        i < length pending \<and> ?J (drop_nth i pending) (put_buffer (reading ?W h block offset_of) buf s')"
      using J reads_pending_simps(2) [of ?W block pending] drop_nth_length [OF c(2)]
      by (intro exI [of _ i] exI [of _ offset] exI [of _ n] exI [of _ buf] exI [of _ s']) simp
  qed (simp add: reads_pending_simps)
qed

lemma session_reads:
  assumes "session_scenario B file_len j s = Some (Inr oc, s')" "jb_scenario j \<noteq> WriteThenRead"
  shows "\<exists>h s1 offset_of r. bk_open_read B (jb_read_path j) s = Some (Inr h, s1) \<and>
    runner_run (reading B h (jb_block j) offset_of) (jb_operations j) PhaseRead
      (issue_all (jb_operations j) (jb_block j) offset_of trace_new)
      (runner_new (jb_depth j) (scenario_shape (jb_scenario j))) s1 = Some (Inr (), oc_trace oc, r, s')"
proof -
  have "\<exists>h s1 offset_of. bk_open_read B (jb_read_path j) s = Some (Inr h, s1) \<and>
      positional_reads_on B h (jb_block j) (jb_operations j) (jb_depth j) (scenario_shape (jb_scenario j)) offset_of s1 =
        Some (Inr oc, s')"
    using assms
    by (cases "jb_scenario j") (auto simp: session_scenario_def run_scenario_def positional_reads_def
        split: option.splits sum.splits)
  then obtain h s1 offset_of where o: "bk_open_read B (jb_read_path j) s = Some (Inr h, s1)"
    "positional_reads_on B h (jb_block j) (jb_operations j) (jb_depth j) (scenario_shape (jb_scenario j)) offset_of s1 =
      Some (Inr oc, s')" by blast
  from o(2) obtain t r where t: "runner_run (reading B h (jb_block j) offset_of) (jb_operations j) PhaseRead
      (issue_all (jb_operations j) (jb_block j) offset_of trace_new)
      (runner_new (jb_depth j) (scenario_shape (jb_scenario j))) s1 = Some (Inr (), t, r, s')"
    "oc = finish_outcome (jb_operations j) t r"
    unfolding positional_reads_on_def by (auto split: option.splits sum.splits)
  then have "oc_trace oc = t" by (simp add: finish_outcome_def)
  with t(1) o(1) show ?thesis by blast
qed

lemma issue_all_delivered [simp]: "tr_delivered_bytes (issue_all n block f t) = tr_delivered_bytes t"
  by (induction n) (simp_all add: issue_all_def trace_issued_def)

lemma skipping_totals:
  assumes "honest K (jb_block j)" "jb_block j \<noteq> 0" "0 < jb_operations j"
    and "jb_operations j * unat (jb_block j) < 2 ^ 64" "jb_scenario j \<noteq> WriteThenRead"
    and whole: "session_scenario K file_len j b1 = Some (Inr oc, b1')"
    and weak: "session_scenario (weakened K SkipsWork False) file_len j (b2, 0, []) = Some (Inr oc', s')"
  shows "trace_delivered_total (oc_trace oc) = of_nat (jb_operations j * unat (jb_block j))"
    and "trace_delivered_total (oc_trace oc') < trace_delivered_total (oc_trace oc)"
proof -
  let ?all = "jb_operations j * unat (jb_block j)"
  from session_reads [OF whole assms(5)] honest_delivers [OF assms(1)]
  have full: "tr_delivered_bytes (oc_trace oc) = of_nat ?all" by (fastforce simp: trace_new_def)
  from session_reads [OF weak assms(5)] obtain h s1 offset_of r where
    o: "bk_open_read (weakened K SkipsWork False) (jb_read_path j) (b2, 0, []) = Some (Inr h, s1)"
    and run: "runner_run (reading (weakened K SkipsWork False) h (jb_block j) offset_of) (jb_operations j) PhaseRead
      (issue_all (jb_operations j) (jb_block j) offset_of trace_new)
      (runner_new (jb_depth j) (scenario_shape (jb_scenario j))) s1 = Some (Inr (), oc_trace oc', r, s')" by blast
  from o obtain bb where "s1 = (bb, 0, [])" by (auto simp: weakened_def on_inner_def)
  with skipping_delivers_less [OF assms(1,3)] run obtain d where d:
    "tr_delivered_bytes (oc_trace oc') = of_nat d" "d + unat (jb_block j) \<le> ?all" by (fastforce simp: trace_new_def)
  have "0 < unat (jb_block j)" using assms(2) by (simp add: unat_gt_0)
  then have "d < ?all" using d(2) by linarith
  have "unat (of_nat n :: u64) = n" if "n < 2 ^ 64" for n using that by (simp add: unat_of_nat)
  from this [of d] this [OF assms(4)] have "tr_delivered_bytes (oc_trace oc') < tr_delivered_bytes (oc_trace oc)"
    using \<open>d < ?all\<close> assms(4) unfolding full d(1) word_less_nat_alt by linarith
  then show "trace_delivered_total (oc_trace oc) = of_nat ?all"
    "trace_delivered_total (oc_trace oc') < trace_delivered_total (oc_trace oc)"
    using full by (simp_all add: trace_delivered_total_def)
qed

text \<open>What a reading job issues, whatever runs it.\<close>

definition job_reads :: "(string \<Rightarrow> io_error + u64) \<Rightarrow> job \<Rightarrow> issued_op list" where
  "job_reads file_len j = planned_reads (jb_scenario j)
     (case file_len (jb_read_path j) of Inr len \<Rightarrow> len | Inl _ \<Rightarrow> 0) (jb_block j) (jb_operations j)"

lemma session_open:
  assumes "jb_scenario j \<noteq> WriteThenRead" "jb_block j \<noteq> 0" "bk_open_read B (jb_read_path j) s = Some (Inr h, s1)"
    and "jb_scenario j = RandomRead \<Longrightarrow> \<exists>len. file_len (jb_read_path j) = Inr len"
  shows "session_scenario B file_len j s =
    positional_reads_on B h (jb_block j) (jb_operations j) (jb_depth j) (scenario_shape (jb_scenario j))
      (planned_offset (jb_scenario j) (case file_len (jb_read_path j) of Inr len \<Rightarrow> len | Inl _ \<Rightarrow> 0)
        (jb_block j) (jb_operations j)) s1"
proof -
  let ?len = "case file_len (jb_read_path j) of Inr len \<Rightarrow> len | Inl _ \<Rightarrow> 0"
  have "session_scenario B file_len j s =
      run_on_open_file B (jb_scenario j) h ?len (jb_block j) (jb_operations j) (jb_depth j) s1"
    using assms(1,3,4)
    by (cases "jb_scenario j")
      (auto simp: session_scenario_def run_scenario_def run_on_open_file_def positional_reads_def split: option.splits)
  then show ?thesis by (simp add: open_run_reads [OF assms(1,2)])
qed

lemma session_issued:
  assumes "session_scenario B file_len j s = Some (Inr oc, s')" "jb_scenario j \<noteq> WriteThenRead" "jb_block j \<noteq> 0"
  shows "tr_issued (oc_trace oc) = job_reads file_len j"
proof -
  obtain h s1 where o: "bk_open_read B (jb_read_path j) s = Some (Inr h, s1)" using session_reads [OF assms(1,2)] by blast
  have len: "\<exists>len. file_len (jb_read_path j) = Inr len" if "jb_scenario j = RandomRead"
    using assms(1) that by (cases "file_len (jb_read_path j)") (auto simp: session_scenario_def run_scenario_def)
  have "session_scenario B file_len j s =
    positional_reads_on B h (jb_block j) (jb_operations j) (jb_depth j) (scenario_shape (jb_scenario j))
      (planned_offset (jb_scenario j) (case file_len (jb_read_path j) of Inr len \<Rightarrow> len | Inl _ \<Rightarrow> 0)
        (jb_block j) (jb_operations j)) s1"
    by (rule session_open [OF assms(2,3) o]) (rule len)
  from reads_on_issued [OF assms(1) [unfolded this]] show ?thesis by (simp add: job_reads_def planned_reads_def)
qed

lemma session_returns:
  assumes "jb_scenario j \<noteq> WriteThenRead" "jb_block j \<noteq> 0" "ready K file_len j"
    and "bk_open_read B (jb_read_path j) s = Some (Inr h, s1)"
    and "\<And>offset_of todo p t r. \<exists>t' r' s'. runner_run (reading B h (jb_block j) offset_of) todo p t r s1 = Some (Inr (), t', r', s')"
  shows "\<exists>oc s'. session_scenario B file_len j s = Some (Inr oc, s')"
proof -
  have "\<exists>len. file_len (jb_read_path j) = Inr len" using assms(3) by (simp add: ready_def)
  from session_open [where file_len = file_len, OF assms(1,2,4) this] show ?thesis
    using assms(5) [where todo = "jb_operations j" and p = PhaseRead] unfolding positional_reads_on_def by (metis (no_types, lifting) option.case sum.case(2) prod.case)
qed

lemma both_return:
  fixes K :: "('file, 'buf, 'fut, 'b) bench_backend"
  assumes "honest K (jb_block j)" "jb_block j \<noteq> 0" "jb_scenario j \<noteq> WriteThenRead" "ready K file_len j"
    and "w = NoWeakness \<or> w = SkipsWork"
  shows "\<exists>oc b' runs'. run_job K file_len j w runs b = Some (Inr oc, b', runs')"
proof -
  have lends: "\<forall>b. \<exists>buf b'. bk_take_buffer K (unat (jb_block j)) b = (Inr buf, b')" using assms(4) by (simp add: ready_def)
  obtain h b1 where h: "bk_open_read K (jb_read_path j) b = Some (Inr h, b1)" using assms(4) unfolding ready_def by blast
  show ?thesis
  proof (cases "w = NoWeakness")
    case True
    from session_returns [OF assms(3,2,4) h] honest_returns [OF assms(1) lends]
    have "\<exists>oc s'. session_scenario K file_len j b = Some (Inr oc, s')" by blast
    then show ?thesis using True by (auto simp: run_job_def)
  next
    case False
    have h': "bk_open_read (weakened K SkipsWork False) (jb_read_path j) (b, 0, []) = Some (Inr h, b1, 0, [])"
      using h by (simp add: weakened_def on_inner_def)
    from session_returns [OF assms(3,2,4) h'] weak_returns [OF assms(1) lends]
    have "\<exists>oc s'. session_scenario (weakened K SkipsWork False) file_len j (b, 0, []) = Some (Inr oc, s')" by blast
    then show ?thesis using False assms(5) by (auto simp: run_job_def weakened_hollow_def)
  qed
qed

text \<open>
  C38: Work that was skipped is never taken for work that was done. Take a backend whose reads deliver
  what they are asked for, and a reading job. If the backend opens the file and lends buffers,
  and the file's length is known, the job returns, run as it is or with some of its reads
  skipped. Whenever both return, they have issued the same operations; the whole job has
  delivered all its bytes and the skipping job fewer, so the two traces disagree, and no ledger
  that accepts the one accepts the other after it.
\<close>

theorem skipping_is_caught:
  fixes K :: "('file, 'buf, 'fut, 'b) bench_backend"
  assumes "honest K (jb_block j)" "jb_block j \<noteq> 0" "0 < jb_operations j"
    and "jb_operations j * unat (jb_block j) < 2 ^ 64" "jb_scenario j \<noteq> WriteThenRead"
  shows "(ready K file_len j \<longrightarrow>
      (\<forall>w \<in> {NoWeakness, SkipsWork}. \<forall>runs b. \<exists>oc b' runs'. run_job K file_len j w runs b = Some (Inr oc, b', runs'))) \<and>
    (\<forall>runs b b1 runs1 b2 b3 runs2 runs3 oc oc' name name' l.
      run_job K file_len j NoWeakness runs b = Some (Inr oc, b1, runs1) \<longrightarrow>
      run_job K file_len j SkipsWork runs2 b2 = Some (Inr oc', b3, runs3) \<longrightarrow>
      tr_issued (oc_trace oc) = job_reads file_len j \<and> tr_issued (oc_trace oc') = job_reads file_len j \<and>
      trace_delivered_total (oc_trace oc) = of_nat (jb_operations j * unat (jb_block j)) \<and>
      trace_delivered_total (oc_trace oc') < trace_delivered_total (oc_trace oc) \<and>
      (\<exists>m. agrees_with (oc_trace oc) (oc_trace oc') = Inl m) \<and>
      (fst (ledger_observe (jb_scenario j) (jb_depth j) name (oc_trace oc) l) = Inr () \<longrightarrow>
       fst (ledger_observe (jb_scenario j) (jb_depth j) name' (oc_trace oc')
         (snd (ledger_observe (jb_scenario j) (jb_depth j) name (oc_trace oc) l))) \<noteq> Inr ()))"
proof (intro conjI allI impI ballI)
  show "\<exists>oc b' runs'. run_job K file_len j w runs b = Some (Inr oc, b', runs')"
    if "ready K file_len j" "w \<in> {NoWeakness, SkipsWork}" for w runs b
    using both_return [OF assms(1,2,5) that(1)] that(2) by simp
next
  fix runs b b1 runs1 b2 b3 runs2 runs3 oc oc' name name' l
  assume whole: "run_job K file_len j NoWeakness runs b = Some (Inr oc, b1, runs1)"
    and weak: "run_job K file_len j SkipsWork runs2 b2 = Some (Inr oc', b3, runs3)"
  have ran: "session_scenario K file_len j b = Some (Inr oc, b1)" using whole by (auto simp: run_job_def)
  obtain s' where ran': "session_scenario (weakened K SkipsWork False) file_len j (b2, 0, []) = Some (Inr oc', s')"
    using weak by (auto simp: run_job_def weakened_hollow_def)
  show "tr_issued (oc_trace oc) = job_reads file_len j" "tr_issued (oc_trace oc') = job_reads file_len j"
    by (rule session_issued [OF ran assms(5,2)], rule session_issued [OF ran' assms(5,2)])
  note totals = skipping_totals [OF assms ran ran']
  then show "trace_delivered_total (oc_trace oc) = of_nat (jb_operations j * unat (jb_block j))"
    "trace_delivered_total (oc_trace oc') < trace_delivered_total (oc_trace oc)" by simp_all
  from totals(2) have ne: "oc_trace oc \<noteq> oc_trace oc'" by auto
  then show "\<exists>m. agrees_with (oc_trace oc) (oc_trace oc') = Inl m"
    using agrees_iff [of "oc_trace oc" "oc_trace oc'"] by (cases "agrees_with (oc_trace oc) (oc_trace oc')") auto
  show "fst (ledger_observe (jb_scenario j) (jb_depth j) name' (oc_trace oc')
      (snd (ledger_observe (jb_scenario j) (jb_depth j) name (oc_trace oc) l))) \<noteq> Inr ()"
    if "fst (ledger_observe (jb_scenario j) (jb_depth j) name (oc_trace oc) l) = Inr ()"
    using that ne by (auto simp: ledger_observe_def ledger_find_def map_sum_Inr_iff agrees_iff find_append split: option.splits)
qed

definition one_byte_bench :: "(unit, unit, unit, unit) bench_backend" where
  "one_byte_bench = \<lparr>bk_open_read = \<lambda>_ b. Some (Inr (), b), bk_open_write = \<lambda>_ b. Some (Inr (), b),
     bk_take_buffer = \<lambda>_ b. (Inr (), b), bk_put_buffer = \<lambda>_ b. b, bk_read_at = \<lambda>_ _ _ _. (),
     bk_write_at = \<lambda>_ _ _ _. (), bk_await = \<lambda>pending b. if pending = [] then None else Some (0, Inr 1, (), b),
     bk_sync = \<lambda>_ b. Some (Inr (), b), bk_bytes = \<lambda>_. [7], bk_fill = \<lambda>_ _. Inr ()\<rparr>"

definition two_reads :: job where
  "two_reads = \<lparr>jb_scenario = SequentialRead, jb_read_path = ''f'', jb_write_path = ''g'', jb_block = 1,
     jb_operations = 2, jb_depth = 1\<rparr>"

lemma one_byte_honest: "honest one_byte_bench 1"
  by (auto simp: honest_def one_byte_bench_def)

lemmas run_eval = run_job_def session_scenario_def run_scenario_def positional_reads_def positional_reads_on_def
  runner_run_def runner_new_def scenario_shape_def one_byte_bench_def two_reads_def reading_def awaiting_def
  may_refill_def refill.simps drop_nth_def

lemmas turn_eval = run_eval Let_def note_completion_def note_outstanding_def weakened_def weakened_hollow_def on_inner_def
  weakened_await_def weakened_skips_def SKIP_EVERY_def weakened_fill_def

theorem skipping_is_caught_witness:
  "\<exists>oc oc'. run_job one_byte_bench (\<lambda>_. Inr 2) two_reads NoWeakness 0 () = Some (Inr oc, (), 0) \<and>
     run_job one_byte_bench (\<lambda>_. Inr 2) two_reads SkipsWork 0 () = Some (Inr oc', (), 0) \<and>
     tr_issued (oc_trace oc) = tr_issued (oc_trace oc') \<and> length (tr_issued (oc_trace oc')) = 2 \<and>
     trace_delivered_total (oc_trace oc) = 2 \<and> trace_delivered_total (oc_trace oc') < 2 \<and>
     (\<exists>m. agrees_with (oc_trace oc) (oc_trace oc') = Inl m)"
proof -
  have j: "jb_block two_reads = 1" "jb_operations two_reads = 2" "jb_scenario two_reads = SequentialRead"
    by (simp_all add: two_reads_def)
  have pre: "honest one_byte_bench (jb_block two_reads)" "jb_block two_reads \<noteq> 0" "0 < jb_operations two_reads"
    "jb_operations two_reads * unat (jb_block two_reads) < 2 ^ 64" "jb_scenario two_reads \<noteq> WriteThenRead"
    by (simp_all add: j one_byte_honest)
  have "ready one_byte_bench (\<lambda>_. Inr 2) two_reads" by (simp add: ready_def one_byte_bench_def)
  note caught = skipping_is_caught [OF pre, where file_len = "\<lambda>_. Inr 2"]
  then obtain oc oc' k k' where runs: "run_job one_byte_bench (\<lambda>_. Inr 2) two_reads NoWeakness 0 () = Some (Inr oc, (), k)"
    "run_job one_byte_bench (\<lambda>_. Inr 2) two_reads SkipsWork 0 () = Some (Inr oc', (), k')"
    using \<open>ready _ _ _\<close> by (metis (full_types) insertI1 insertI2 old.unit.exhaust)
  have "k = 0" "k' = 0" using runs by (auto simp: run_job_def weakened_hollow_def)
  from caught runs have both: "tr_issued (oc_trace oc) = job_reads (\<lambda>_. Inr 2) two_reads"
    "tr_issued (oc_trace oc') = job_reads (\<lambda>_. Inr 2) two_reads" "trace_delivered_total (oc_trace oc) = of_nat (2 * unat (1 :: u32))"
    "trace_delivered_total (oc_trace oc') < trace_delivered_total (oc_trace oc)"
    "\<exists>m. agrees_with (oc_trace oc) (oc_trace oc') = Inl m"
    unfolding j by blast+
  have "length (job_reads (\<lambda>_. Inr 2) two_reads) = 2" by (simp add: job_reads_def planned_reads_def j)
  moreover have "trace_delivered_total (oc_trace oc) = 2" using both(3) by simp
  ultimately show ?thesis using both(1,2,4,5) runs \<open>k = 0\<close> \<open>k' = 0\<close> by (intro exI [of _ oc] exI [of _ oc']) simp
qed

end
