(* ===== verification/Bench_Account.thy ===== *)
theory Bench_Account
  imports Bench_Workload Bench_Weaken
begin

text \<open>
  The account of a run (\<open>account.rs\<close>), what its arms cost, and the schedule of the handle-mode arm
  (\<open>handle_mode.rs\<close>, both of \<open>win-ioring-bench\<close>).

  A duration is its number of nanoseconds. How a fraction is printed is an argument; the prose of
  the rendered account is left out.
\<close>

section \<open>Budgets\<close>

type_synonym duration = nat

definition NANOS :: nat where "NANOS = 1000000000"

definition from_secs :: "u64 \<Rightarrow> duration" where
  "from_secs s = unat s * NANOS"

text \<open>The longest duration has \<open>u64::MAX\<close> seconds; a longer one is a panic.\<close>

definition checked_duration :: "nat \<Rightarrow> duration option" where
  "checked_duration n = (if n div NANOS < 2 ^ 64 then Some n else None)"

record budget =
  bu_warm_up :: duration
  bu_measurement :: duration
  bu_sample_size :: nat

definition CHOSEN :: budget where
  "CHOSEN = \<lparr>bu_warm_up = from_secs 1, bu_measurement = from_secs 2, bu_sample_size = 100\<rparr>"

definition RUN_BUDGET :: duration where "RUN_BUDGET = from_secs 360"
definition UNBUFFERED_RUN_BUDGET :: duration where "UNBUFFERED_RUN_BUDGET = from_secs 600"
definition HANDLE_MODE_RUN_BUDGET :: duration where "HANDLE_MODE_RUN_BUDGET = from_secs 320"

definition budget_floor :: "budget \<Rightarrow> nat \<Rightarrow> duration option" where
  "budget_floor bu benchmarks =
     (case checked_duration (bu_warm_up bu + bu_measurement bu) of
        None \<Rightarrow> None
      | Some d \<Rightarrow> checked_duration (d * (if benchmarks < 2 ^ 32 then benchmarks else 2 ^ 32 - 1)))"

definition plan_floor :: "unbuffered_plan \<Rightarrow> duration option" where
  "plan_floor p = budget_floor CHOSEN (plan_benchmarks p)"

definition plan_affordable :: "unbuffered_plan \<Rightarrow> bool option" where
  "plan_affordable p =
     (case plan_floor p of
        None \<Rightarrow> None
      | Some d \<Rightarrow> map_option (\<lambda>d2. d2 \<le> UNBUFFERED_RUN_BUDGET) (checked_duration (d * 2)))"

section \<open>The handle-mode arm\<close>

definition HM_DEPTHS :: "nat list" where "HM_DEPTHS = [1, 8, 64]"
definition HM_SCENARIOS :: "scenario list" where "HM_SCENARIOS = [SequentialRead, RandomRead]"
definition HM_OPENS :: opens where "HM_OPENS = Hoisted"

definition CONFIGS :: "which list" where
  "CONFIGS = [RingPlain, RingPlainSync, RingRegistered, RingRegisteredSync, Compio, TokioOne]"

definition hm_group_name :: "scenario \<Rightarrow> string" where
  "hm_group_name sc = ''handle-mode-'' @ scenario_slug sc"

record hm_cell =
  hc_scenario :: scenario
  hc_depth :: nat
  hc_config :: which

definition hm_rotated_order :: "nat \<Rightarrow> which list" where
  "hm_rotated_order index = rotate (index mod length CONFIGS) CONFIGS"

fun hm_combination_cells :: "nat \<Rightarrow> (scenario \<times> nat) list \<Rightarrow> hm_cell list" where
  "hm_combination_cells n [] = []"
| "hm_combination_cells n ((sc, d) # rest) =
     map (\<lambda>w. \<lparr>hc_scenario = sc, hc_depth = d, hc_config = w\<rparr>) (hm_rotated_order n) @ hm_combination_cells (n + 1) rest"

definition hm_grid :: "hm_cell list" where
  "hm_grid = hm_combination_cells 0 (List.product HM_SCENARIOS HM_DEPTHS)"

definition hm_combinations :: nat where
  "hm_combinations = length HM_SCENARIOS * length HM_DEPTHS"

definition hm_benchmarks :: nat where
  "hm_benchmarks = length hm_grid"

definition hm_affordable :: "bool option" where
  "hm_affordable =
     (case budget_floor CHOSEN hm_benchmarks of
        None \<Rightarrow> None
      | Some d \<Rightarrow> map_option (\<lambda>d2. d2 \<le> HANDLE_MODE_RUN_BUDGET) (checked_duration (d * 2)))"

section \<open>The cost of an open\<close>

record open_cost =
  os_std_median :: duration
  os_compio_median :: duration
  os_std_p90 :: duration
  os_compio_p90 :: duration

definition summarise :: "duration list \<Rightarrow> (duration \<times> duration) option" where
  "summarise samples =
     (if samples = [] then None
      else let sorted = sort samples
        in Some (sorted ! (length sorted div 2), sorted ! (min (length sorted * 9 div 10) (length sorted - 1))))"

definition open_cost_extra :: "open_cost \<Rightarrow> duration" where
  "open_cost_extra c = os_compio_median c - os_std_median c"

definition open_cost_ratio :: "open_cost \<Rightarrow> rat" where
  "open_cost_ratio c = (if os_std_median c = 0 then 0 else of_nat (os_compio_median c) / of_nat (os_std_median c))"

section \<open>Entries\<close>

datatype standing =
    Timed achieved nat nat "(u64 \<times> u64) option" shape_check
  | VerifiedNotTimed achieved nat "(u64 \<times> u64) option" shape_check
  | StandingUnavailable string
  | StandingFailed string

record account_entry =
  ae_backend :: string
  ae_configuration :: string
  ae_standing :: standing

definition entry_from_record :: "bench_record \<Rightarrow> account_entry" where
  "entry_from_record r =
     (case r of
        Measured name configuration ach t submitted shape iterations timed \<Rightarrow>
          \<lparr>ae_backend = name, ae_configuration = configuration,
           ae_standing = (if timed then Timed ach (trace_operations t) iterations submitted shape
                          else VerifiedNotTimed ach (trace_operations t) submitted shape)\<rparr>
      | NotAvailable name reason \<Rightarrow>
          \<lparr>ae_backend = name, ae_configuration = ''not built'', ae_standing = StandingUnavailable reason\<rparr>
      | MeasureFailed name configuration e \<Rightarrow>
          \<lparr>ae_backend = name, ae_configuration = configuration, ae_standing = StandingFailed (io_message e)\<rparr>)"

record combination =
  cb_scenario :: scenario
  cb_depth :: nat
  cb_order :: "string list"
  cb_reference :: "string option"
  cb_entries :: "account_entry list"

record account =
  ac_config :: bench_config
  ac_budget :: budget
  ac_test_mode :: bool
  ac_volume :: string
  ac_cache :: cache_premise
  ac_combinations :: "combination list"
  ac_drivers_built :: nat
  ac_ring_combinations :: nat
  ac_write_file_bytes :: "u64 option"
  ac_preparation :: duration
  ac_open_cost :: "open_cost option"
  ac_measurement :: duration

text \<open>\<open>physical\<close> is what the system says of its memory.\<close>

definition account_new :: "u64 option \<Rightarrow> bench_config \<Rightarrow> budget \<Rightarrow> bool \<Rightarrow> string \<Rightarrow> account" where
  "account_new physical config bu test_mode volume =
     \<lparr>ac_config = config, ac_budget = bu, ac_test_mode = test_mode, ac_volume = volume,
      ac_cache = cache_premise_of physical (resident_working_set config), ac_combinations = [],
      ac_drivers_built = 0, ac_ring_combinations = 0, ac_write_file_bytes = None, ac_preparation = 0,
      ac_open_cost = None, ac_measurement = 0\<rparr>"

definition account_record :: "combination \<Rightarrow> account \<Rightarrow> account" where
  "account_record c a = a\<lparr>ac_combinations := ac_combinations a @ [c]\<rparr>"

text \<open>The failure an entry is, if it is one.\<close>

definition entry_failure :: "(rat \<Rightarrow> string) \<Rightarrow> combination \<Rightarrow> account_entry \<Rightarrow> string list" where
  "entry_failure show_f64 c e =
     (let place = ae_backend e @ '' at '' @ scenario_name (cb_scenario c) @ '' depth '' @ show_base 10 (cb_depth c);
          missed = (\<lambda>shape. if is_failure shape
            then [place @ '': achieved a mean depth of '' @ show_f64 (check_measured shape) @
              '' where its shape predicts '' @ show_f64 (check_predicted shape) @ '' '' @
              [char_of (0xE2 :: nat), char_of (0x80 :: nat), char_of (0x94 :: nat)] @
              '' the run did not drive the shape it declared, so its timing measures something '' @
              ''other than what it is labelled'']
            else [])
      in case ae_standing e of
           StandingFailed error \<Rightarrow> [place @ '': '' @ error]
         | Timed ach n iterations submitted shape \<Rightarrow> missed shape
         | VerifiedNotTimed ach n submitted shape \<Rightarrow> missed shape
         | StandingUnavailable reason \<Rightarrow> [])"

definition account_failures :: "(rat \<Rightarrow> string) \<Rightarrow> account \<Rightarrow> string list" where
  "account_failures show_f64 a = concat (map (\<lambda>c. concat (map (entry_failure show_f64 c) (cb_entries c))) (ac_combinations a))"

definition bytes_text :: "u64 \<Rightarrow> string" where
  "bytes_text n =
     (if 1024 * 1024 \<le> n then show_unsigned (n div (1024 * 1024)) @ '' MiB''
      else if 1024 \<le> n then show_unsigned (n div 1024) @ '' KiB''
      else show_unsigned n @ '' B'')"

section \<open>Properties of the account\<close>

lemma sorted_rank:
  fixes s :: "'a::linorder list"
  assumes "sorted s" "k < length s"
  shows "k + 1 \<le> length (filter (\<lambda>x. x \<le> s ! k) s)" "length s - k \<le> length (filter (\<lambda>x. s ! k \<le> x) s)"
proof -
  have "{0..k} \<subseteq> {i. i < length s \<and> s ! i \<le> s ! k}" "{k..<length s} \<subseteq> {i. i < length s \<and> s ! k \<le> s ! i}"
    using assms by (auto intro: sorted_nth_mono)
  then have "card {0..k} \<le> card {i. i < length s \<and> s ! i \<le> s ! k}"
    "card {k..<length s} \<le> card {i. i < length s \<and> s ! k \<le> s ! i}"
    using card_mono [of "{i. i < length s \<and> s ! i \<le> s ! k}" "{0..k}"]
      card_mono [of "{i. i < length s \<and> s ! k \<le> s ! i}" "{k..<length s}"] by simp_all
  then show "k + 1 \<le> length (filter (\<lambda>x. x \<le> s ! k) s)" "length s - k \<le> length (filter (\<lambda>x. s ! k \<le> x) s)"
    unfolding length_filter_conv_card by simp_all
qed

lemma filter_sort_length: "length (filter P (sort xs)) = length (filter P xs)"
  by (metis mset_filter mset_sort size_mset)

text \<open>
  The summary of the samples is a summary of the samples. Whatever their order, the median and
  the ninetieth percentile are two of them, the one no larger than the other; at least half of
  the samples are at most the median and at least half at least it, and more than nine in ten are
  at most the percentile. Only an empty list has no summary.
\<close>

theorem summary_is_of_samples:
  "(summarise samples = None \<longleftrightarrow> samples = []) \<and>
   (\<forall>m p. summarise samples = Some (m, p) \<longrightarrow>
     m \<in> set samples \<and> p \<in> set samples \<and> m \<le> p \<and>
     length samples < 2 * length (filter (\<lambda>x. x \<le> m) samples) \<and>
     length samples \<le> 2 * length (filter (\<lambda>x. m \<le> x) samples) \<and>
     9 * length samples < 10 * length (filter (\<lambda>x. x \<le> p) samples)) \<and>
   (\<forall>others. mset others = mset samples \<longrightarrow> summarise others = summarise samples)"
proof (intro conjI allI impI)
  show "summarise samples = None \<longleftrightarrow> samples = []" by (simp add: summarise_def Let_def)
  show "summarise others = summarise samples" if "mset others = mset samples" for others
  proof -
    have "sort others = sort samples" using that by (intro properties_for_sort) (simp_all)
    moreover have "others = [] \<longleftrightarrow> samples = []" using that by (metis mset_zero_iff)
    ultimately show ?thesis by (simp add: summarise_def)
  qed
next
  fix m p assume s: "summarise samples = Some (m, p)"
  let ?s = "sort samples" and ?n = "length samples"
  have ne: "0 < ?n" and m: "m = ?s ! (?n div 2)" and p: "p = ?s ! min (?n * 9 div 10) (?n - 1)"
    using s by (auto simp: summarise_def Let_def split: if_splits)
  have i: "?n div 2 < length ?s" "min (?n * 9 div 10) (?n - 1) < length ?s" "?n div 2 \<le> min (?n * 9 div 10) (?n - 1)"
    using ne unfolding length_sort by linarith+
  show "m \<in> set samples" "p \<in> set samples" using nth_mem [OF i(1)] nth_mem [OF i(2)] by (simp_all add: m p)
  show "m \<le> p" unfolding m p by (rule sorted_nth_mono [OF sorted_sort i(3,2)])
  note rm = sorted_rank [OF sorted_sort i(1), folded m, unfolded filter_sort_length]
    and rp = sorted_rank(1) [OF sorted_sort i(2), folded p, unfolded filter_sort_length]
  show "?n < 2 * length (filter (\<lambda>x. x \<le> m) samples)" "?n \<le> 2 * length (filter (\<lambda>x. m \<le> x) samples)"
    using rm by simp_all
  show "9 * ?n < 10 * length (filter (\<lambda>x. x \<le> p) samples)" using rp ne by linarith
qed

text \<open>
  The handle-mode arm runs every configuration once at every position, each ring backend in both
  modes, and both arms fit twice into what they may cost.
\<close>

lemmas cost_eval = budget_floor_def CHOSEN_def from_secs_def NANOS_def checked_duration_def

theorem schedules_balanced:
  "(position < 6 \<longrightarrow> mset (map (\<lambda>k. hm_rotated_order (start + k) ! position) [0..<6]) = mset CONFIGS) \<and>
   distinct hm_grid \<and> hm_benchmarks = 36 \<and> hm_affordable = Some True \<and>
   plan_affordable plan_full = Some True \<and> plan_affordable plan_small = Some True \<and>
   (\<forall>w \<in> set CONFIGS. builds_a_driver w \<longrightarrow>
      map which_handle_mode (filter (\<lambda>v. overlapped_twin v = overlapped_twin w) CONFIGS) = [Overlapped, Synchronous])"
proof (intro conjI impI)
  have "length CONFIGS = 6" by (simp add: CONFIGS_def)
  then show "mset (map (\<lambda>k. hm_rotated_order (start + k) ! position) [0..<6]) = mset CONFIGS" if "position < 6"
    using rotations_balanced [of position CONFIGS start] that by (simp add: hm_rotated_order_def)
  show "distinct hm_grid" by code_simp
  show n: "hm_benchmarks = 36" by code_simp
  show "hm_affordable = Some True" by (simp add: hm_affordable_def n HANDLE_MODE_RUN_BUDGET_def cost_eval)
  show "plan_affordable plan_full = Some True" "plan_affordable plan_small = Some True"
    by (simp_all add: plan_affordable_def plan_floor_def plan_benchmarks_def plan_full_def plan_small_def
        SCENARIOS_def DEPTHS_def unbuffered_all_def UNBUFFERED_RUN_BUDGET_def cost_eval)
  show "\<forall>w \<in> set CONFIGS. builds_a_driver w \<longrightarrow>
      map which_handle_mode (filter (\<lambda>v. overlapped_twin v = overlapped_twin w) CONFIGS) = [Overlapped, Synchronous]"
    by (auto simp: CONFIGS_def builds_a_driver_def overlapped_twin_def which_handle_mode_def)
qed


text \<open>
  An account fails exactly when one of its entries does, once for each; an entry does when its
  measurement failed, or the run it measured did not drive the shape it declared. A run whose
  operations all start and complete is never blamed.
\<close>

definition entry_blamed :: "account_entry \<Rightarrow> bool" where
  "entry_blamed e =
     (case ae_standing e of
        StandingFailed _ \<Rightarrow> True | Timed _ _ _ _ shape \<Rightarrow> is_failure shape
      | VerifiedNotTimed _ _ _ shape \<Rightarrow> is_failure shape | StandingUnavailable _ \<Rightarrow> False)"

lemma entry_failure_length: "length (entry_failure show_f64 c e) = (if entry_blamed e then 1 else 0)"
  by (cases "ae_standing e") (simp_all add: entry_failure_def entry_blamed_def Let_def)

lemma sum_list_indicator: "sum_list (map (\<lambda>x. if P x then 1 else 0) xs) = length (filter P xs)"
  by (induction xs) simp_all

theorem account_blames_exactly:
  "length (account_failures show_f64 a) =
     length (filter entry_blamed (concat (map cb_entries (ac_combinations a)))) \<and>
   (entry_blamed (entry_from_record r) \<longleftrightarrow>
     (case r of MeasureFailed _ _ _ \<Rightarrow> True | Measured _ _ _ _ _ shape _ _ \<Rightarrow> is_failure shape | NotAvailable _ _ \<Rightarrow> False)) \<and>
   (\<forall>(B :: ('d, 'e, 'f, 'g) bench_backend) oc s s' h. steady (reading B h block offset_of) \<longrightarrow>
     positional_reads_on B h block n depth sh offset_of s = Some (Inr oc, s') \<longrightarrow> \<not> is_failure (oc_shape oc))"
proof (intro conjI allI impI)
  have "length (account_failures show_f64 a) =
      sum_list (map (\<lambda>c. sum_list (map (\<lambda>e. if entry_blamed e then 1 else 0) (cb_entries c))) (ac_combinations a))"
    by (simp add: account_failures_def length_concat comp_def entry_failure_length)
  then show "length (account_failures show_f64 a) =
      length (filter entry_blamed (concat (map cb_entries (ac_combinations a))))"
    by (simp add: sum_list_indicator filter_concat length_concat comp_def)
  show "entry_blamed (entry_from_record r) \<longleftrightarrow>
     (case r of MeasureFailed _ _ _ \<Rightarrow> True | Measured _ _ _ _ _ shape _ _ \<Rightarrow> is_failure shape | NotAvailable _ _ \<Rightarrow> False)"
    by (cases r) (simp_all add: entry_from_record_def entry_blamed_def)
next
  fix B :: "('d, 'e, 'f, 'g) bench_backend" and oc :: outcome and s s' h
  assume "steady (reading B h block offset_of)"
  from steady_run_new [OF this, of n PhaseRead "issue_all n block offset_of trace_new" depth sh s]
  obtain t r' s1 where "runner_run (reading B h block offset_of) n PhaseRead (issue_all n block offset_of trace_new)
      (runner_new depth sh) s = Some (Inr (), t, r', s1)"
    "runner_shape_check n r' = Matched (predicted_mean_depth sh n depth) (predicted_mean_depth sh n depth)" by blast
  moreover assume "positional_reads_on B h block n depth sh offset_of s = Some (Inr oc, s')"
  ultimately show "\<not> is_failure (oc_shape oc)"
    by (auto simp: positional_reads_on_def finish_outcome_def is_failure_def)
qed

end
