(* ===== verification/Bench_Ring.thy ===== *)
theory Bench_Ring
  imports Bench_Pools Bench_Harness World File
begin

text \<open>
  The ring under the benchmarks (\<open>backends/ioring.rs\<close> and \<open>drive_while\<close> of \<open>session.rs\<close>, with the
  buffer pool of \<open>backends/tokio_fs.rs\<close>): the backend that measures this crate, built on the model
  of the crate.

  One thread runs the work and the driver. The task polls the driver, then the work, and sleeps
  when neither was woken; while it sleeps the kernel runs until the thread pool calls back. What
  the kernel does then, where a growing vector moves, in which order the pending operations are
  polled, and opening a file are arguments.
\<close>

section \<open>Vectors and their pool\<close>

text \<open>A vector in its owner's hands, with its bytes.\<close>

type_synonym vec = "iobuf \<times> u8 list"

definition vec_grow :: "(nat \<Rightarrow> iobuf \<Rightarrow> usize \<times> usize) \<Rightarrow> nat \<Rightarrow> iobuf \<Rightarrow> iobuf" where
  "vec_grow realloc n b =
     (if n \<le> unat (ib_cap b) then b else case realloc n b of (p, c) \<Rightarrow> b\<lparr>ib_addr := p, ib_cap := c\<rparr>)"

definition vec_reserve :: "(nat \<Rightarrow> iobuf \<Rightarrow> usize \<times> usize) \<Rightarrow> nat \<Rightarrow> vec \<Rightarrow> vec" where
  "vec_reserve realloc extra v = (vec_grow realloc (length (snd v) + extra) (fst v), snd v)"

definition vec_resize :: "(nat \<Rightarrow> iobuf \<Rightarrow> usize \<times> usize) \<Rightarrow> nat \<Rightarrow> vec \<Rightarrow> vec" where
  "vec_resize realloc n v =
     ((vec_grow realloc n (fst v))\<lparr>ib_len := of_nat n\<rparr>, take n (snd v) @ replicate (n - length (snd v)) 0)"

definition vec_fill :: "u8 list \<Rightarrow> vec \<Rightarrow> io_error + vec" where
  "vec_fill src v =
     (if unat (ib_cap (fst v)) < length src then Inl (IoError InvalidInput ''source longer than the buffer'')
      else Inr ((fst v)\<lparr>ib_len := of_nat (length src)\<rparr>, src))"

definition buffer_pool_new :: "(nat \<Rightarrow> usize) \<Rightarrow> nat \<Rightarrow> nat \<Rightarrow> vec list" where
  "buffer_pool_new alloc n capacity =
     map (\<lambda>i. (\<lparr>ib_kind = VecBuf, ib_addr = alloc i, ib_len = of_nat capacity, ib_cap = of_nat capacity\<rparr>,
               replicate capacity 0)) [0..<n]"

definition buffer_pool_take ::
    "(nat \<Rightarrow> iobuf \<Rightarrow> usize \<times> usize) \<Rightarrow> nat \<Rightarrow> vec list \<Rightarrow> (io_error + vec) \<times> vec list" where
  "buffer_pool_take realloc capacity pool =
     (if pool = [] then (Inl no_free_buffer, pool)
      else let v = last pool; room = unat (ib_cap (fst v));
               v1 = (if room < capacity then vec_reserve realloc (capacity - room) v else v)
        in (Inr (vec_resize realloc capacity v1), butlast pool))"

definition buffer_pool_put :: "vec \<Rightarrow> vec list \<Rightarrow> vec list" where
  "buffer_pool_put v pool = pool @ [v]"

section \<open>Opening, and building a ring\<close>

definition mode_open_read ::
    "(open_options \<Rightarrow> string \<Rightarrow> win_error + handle) \<Rightarrow> handle_mode \<Rightarrow> string \<Rightarrow> win_error + file_state" where
  "mode_open_read std_open mode path =
     (case mode of
        Overlapped \<Rightarrow> file_open std_open path
      | Synchronous \<Rightarrow> map_sum id file_from_std
          (std_open (open_options_new\<lparr>oo_read := True, oo_custom_flags := 0\<rparr>) path))"

definition mode_open_write ::
    "(open_options \<Rightarrow> string \<Rightarrow> win_error + handle) \<Rightarrow> handle_mode \<Rightarrow> string \<Rightarrow> win_error + file_state" where
  "mode_open_write std_open mode path =
     (case mode of
        Overlapped \<Rightarrow> file_create std_open path
      | Synchronous \<Rightarrow> map_sum id file_from_std
          (std_open (open_options_new\<lparr>oo_write := True, oo_create := True, oo_truncate := True,
             oo_custom_flags := 0\<rparr>) path))"

definition mode_suffix :: "handle_mode \<Rightarrow> string" where
  "mode_suffix mode = (case mode of Overlapped \<Rightarrow> ''overlapped handle'' | Synchronous \<Rightarrow> ''synchronous handle'')"

definition queue_size :: "nat \<Rightarrow> u32" where
  "queue_size depth = of_nat (min (max (min (depth * 4) (2 ^ 64 - 1)) 128) (2 ^ 32 - 1))"

definition io_other :: "(win_error \<Rightarrow> string) \<Rightarrow> runtime_error \<Rightarrow> io_error" where
  "io_other sys e = IoError OtherKind (runtime_display sys e)"

text \<open>The ring and the driver both backends start from; \<open>None\<close> is the overflow of the doubled queue.\<close>

definition ring_driver_new ::
    "'k platform \<Rightarrow> (build_error \<Rightarrow> string) \<Rightarrow> (win_error \<Rightarrow> string) \<Rightarrow> nat \<Rightarrow> win_error + handle
      \<Rightarrow> (fid \<Rightarrow> file_state) \<Rightarrow> 'k \<Rightarrow> ((io_error + 'k driver) \<times> 'k) option" where
  "ring_driver_new P show_build sys depth armed fs k =
     (let queue = queue_size depth in
      if 2 ^ 32 \<le> 2 * unat queue then None
      else case ring_build P (bu_with_completion_queue_size (queue * 2) (bu_with_submission_queue_size queue ring_builder_new)) k of
          (Inl e, k1) \<Rightarrow> Some (Inl (IoError OtherKind (show_build e)), k1)
        | (Inr r, k1) \<Rightarrow>
            (case driver_new P r armed fs k1 of
               (Inl e, r1, k2) \<Rightarrow> Some (Inl (io_other sys e), k2)
             | (Inr d, r1, k2) \<Rightarrow> Some (Inr d, k2)))"

section \<open>The task\<close>

text \<open>An operation that has been polled; one that has not is still the call it will make.\<close>

datatype vec_future =
    ReadVec fid vec u32 u64
  | WriteVec fid vec u32 u64

datatype started_op = StartedRead "iobuf buf_op_state" | StartedWrite write_future

record 'k bench_ring =
  bs_pool :: "vec list"
  bs_driver :: "'k driver"
  bs_armed :: armed_state
  bs_pc :: drive_pc
  bs_memory :: memory
  bs_started :: "started_op option list"
  bs_woken :: bool
  bs_next_file :: fid

record 'k ring_env =
  en_platform :: "'k platform"
  en_task :: waker
  en_schedule :: "vec_future list \<Rightarrow> 'k bench_ring \<Rightarrow> nat list"
  en_sleep :: "'k \<Rightarrow> memory \<Rightarrow> ('k \<times> memory) option"
  en_realloc :: "nat \<Rightarrow> iobuf \<Rightarrow> usize \<times> usize"
  en_std_open :: "open_options \<Rightarrow> string \<Rightarrow> win_error + handle"
  en_os_error :: "win_error \<Rightarrow> io_error"
  en_show :: "win_error \<Rightarrow> string"

text \<open>Polling \<open>drive\<close> runs it to its next suspension; a yield wakes the task that polls it.\<close>

fun suspended :: "drive_pc \<Rightarrow> bool" where
  "suspended PcParked = True"
| "suspended PcYield = True"
| "suspended (PcDrainYield n) = True"
| "suspended PcDone = True"
| "suspended pc = False"

fun yields :: "drive_pc \<Rightarrow> bool" where
  "yields PcYield = True"
| "yields (PcDrainYield n) = True"
| "yields pc = False"

partial_function (option) drive_poll ::
    "'k platform \<Rightarrow> waker \<Rightarrow> drive_pc \<Rightarrow> waker list \<Rightarrow> 'k driver \<Rightarrow> armed_state
      \<Rightarrow> (drive_pc \<times> waker list \<times> 'k driver \<times> armed_state) option" where
  "drive_poll P w pc ws d s =
     (case drive_resume P w pc (d, s) of
        None \<Rightarrow> None
      | Some (pc', ws', reports, d', s') \<Rightarrow>
          (if suspended pc' then Some (pc', ws @ ws' @ (if yields pc' then [w] else []), d', s')
           else drive_poll P w pc' (ws @ ws') d' s'))"

text \<open>The driver's turn; one that shuts down under running work is a panic.\<close>

definition drive_turn :: "'k ring_env \<Rightarrow> 'k bench_ring \<Rightarrow> 'k bench_ring option" where
  "drive_turn E st =
     (case drive_poll (en_platform E) (en_task E) (bs_pc st) [] (bs_driver st) (bs_armed st) of
        None \<Rightarrow> None
      | Some (pc, ws, d, s) \<Rightarrow>
          (if pc = PcDone then None
           else Some (st\<lparr>bs_pc := pc, bs_driver := d, bs_armed := s, bs_woken := bs_woken st \<or> en_task E \<in> set ws\<rparr>)))"

text \<open>The thread parks until the task is woken; a callback that wakes somebody else leaves it parked.\<close>

definition task_wait :: "'k ring_env \<Rightarrow> 'k bench_ring \<Rightarrow> 'k bench_ring option" where
  "task_wait E st =
     (if bs_woken st then Some st
      else case en_sleep E (kern (bs_driver st)) (bs_memory st) of
          None \<Rightarrow> None
        | Some (k, m) \<Rightarrow>
            (case armed_callback (bs_armed st) of
               (w, s) \<Rightarrow>
                 (if w = Some (en_task E)
                  then Some (st\<lparr>bs_driver := (bs_driver st)\<lparr>kern := k\<rparr>, bs_memory := m, bs_armed := s\<rparr>)
                  else None)))"

definition task_turn :: "'k ring_env \<Rightarrow> 'k bench_ring \<Rightarrow> 'k bench_ring option" where
  "task_turn E st = (case task_wait E st of None \<Rightarrow> None | Some st1 \<Rightarrow> drive_turn E (st1\<lparr>bs_woken := False\<rparr>))"

definition drive_while ::
    "'k ring_env \<Rightarrow> ('k bench_ring \<Rightarrow> ('a \<times> 'k bench_ring) option) \<Rightarrow> 'k bench_ring \<Rightarrow> ('a \<times> 'k bench_ring) option" where
  "drive_while E work st =
     (case drive_turn E (st\<lparr>bs_pc := PcIdle, bs_woken := False\<rparr>) of
        None \<Rightarrow> None
      | Some st1 \<Rightarrow>
          (case work st1 of
             None \<Rightarrow> None
           | Some (r, st2) \<Rightarrow>
               (case drive_drop False (bs_pc st2) (bs_driver st2, bs_armed st2) of
                  (pc, d, s) \<Rightarrow> Some (r, st2\<lparr>bs_pc := pc, bs_driver := d, bs_armed := s\<rparr>))))"

section \<open>The operations\<close>

text \<open>The calls are \<open>Handle::read\<close> and \<open>Handle::write\<close> with default flags, as \<open>File::read_at\<close> makes them.\<close>

definition start_vec ::
    "'k ring_env \<Rightarrow> vec_future \<Rightarrow> 'k bench_ring \<Rightarrow> (started_op \<times> waker list \<times> 'k bench_ring) option" where
  "start_vec E f st =
     (case f of
        ReadVec file v len offset \<Rightarrow>
          (let v1 = (if length (snd v) < unat len then vec_resize (en_realloc E) (unat len) v else v) in
           case file_read_at (en_platform E) file (fst v1) len offset (bs_driver st) of
             None \<Rightarrow> None
           | Some (s, ws, d) \<Rightarrow>
               Some (StartedRead s, ws, st\<lparr>bs_driver := d, bs_memory := write_bytes (bs_memory st) (ib_addr (fst v1)) (snd v1)\<rparr>))
      | WriteVec file v len offset \<Rightarrow>
          (case file_write_at (en_platform E) file (fst v) len offset (bs_driver st) of
             None \<Rightarrow> None
           | Some (s, ws, d) \<Rightarrow>
               Some (StartedWrite s, ws, st\<lparr>bs_driver := d, bs_memory := write_bytes (bs_memory st) (ib_addr (fst v)) (snd v)\<rparr>)))"

text \<open>The outcome as the backend hands it on, with the bytes the owner finds in the buffer.\<close>

definition vec_outcome :: "'k ring_env \<Rightarrow> memory \<Rightarrow> iobuf Futures.outcome \<Rightarrow> (io_error + u32) \<times> vec" where
  "vec_outcome E mem out =
     (case into_parts out of (r, b) \<Rightarrow> (map_sum (io_other (en_show E)) id r, (b, as_io_slice mem b)))"

definition poll_vec ::
    "'k ring_env \<Rightarrow> started_op \<Rightarrow> 'k bench_ring \<Rightarrow> (((io_error + u32) \<times> vec) poll \<times> started_op \<times> 'k bench_ring) option" where
  "poll_vec E s st =
     (case s of
        StartedRead r \<Rightarrow>
          (case read_future_poll (en_task E) r (bs_driver st) of
             None \<Rightarrow> None
           | Some (p, r', d) \<Rightarrow>
               Some (case p of Ready out \<Rightarrow> Ready (vec_outcome E (bs_memory st) out) | NotReady \<Rightarrow> NotReady,
                     StartedRead r', st\<lparr>bs_driver := d\<rparr>))
      | StartedWrite f \<Rightarrow>
          (case write_future_poll (en_task E) f (bs_driver st) of
             None \<Rightarrow> None
           | Some (p, f', d) \<Rightarrow>
               Some (case p of Ready out \<Rightarrow> Ready (vec_outcome E (bs_memory st) out) | NotReady \<Rightarrow> NotReady,
                     StartedWrite f', st\<lparr>bs_driver := d\<rparr>)))"

text \<open>The \<open>i\<close>-th pending operation, started if it was not.\<close>

definition begin_nth :: "'k ring_env \<Rightarrow> vec_future list \<Rightarrow> nat \<Rightarrow> 'k bench_ring \<Rightarrow> (started_op \<times> 'k bench_ring) option" where
  "begin_nth E pending i st =
     (case bs_started st ! i of
        Some s \<Rightarrow> Some (s, st)
      | None \<Rightarrow>
          (case start_vec E (pending ! i) st of
             None \<Rightarrow> None
           | Some (s, ws, st1) \<Rightarrow> Some (s, st1\<lparr>bs_woken := bs_woken st1 \<or> en_task E \<in> set ws\<rparr>)))"

definition poll_nth ::
    "'k ring_env \<Rightarrow> vec_future list \<Rightarrow> nat \<Rightarrow> 'k bench_ring \<Rightarrow> (((io_error + u32) \<times> vec) poll \<times> 'k bench_ring) option" where
  "poll_nth E pending i st =
     (case begin_nth E pending i st of
        None \<Rightarrow> None
      | Some (s, st1) \<Rightarrow>
          (case poll_vec E s st1 of
             None \<Rightarrow> None
           | Some (NotReady, s', st2) \<Rightarrow> Some (NotReady, st2\<lparr>bs_started := (bs_started st2)[i := Some s']\<rparr>)
           | Some (Ready r, s', st2) \<Rightarrow> Some (Ready r, st2\<lparr>bs_started := drop_nth i (bs_started st2)\<rparr>)))"

fun poll_some ::
    "'k ring_env \<Rightarrow> vec_future list \<Rightarrow> nat list \<Rightarrow> 'k bench_ring
      \<Rightarrow> ((nat \<times> (io_error + u32) \<times> vec) option \<times> 'k bench_ring) option" where
  "poll_some E pending [] st = Some (None, st)"
| "poll_some E pending (i # is) st =
     (case poll_nth E pending i st of
        None \<Rightarrow> None
      | Some (Ready (r, v), st1) \<Rightarrow> Some (Some (i, r, v), st1)
      | Some (NotReady, st1) \<Rightarrow> poll_some E pending is st1)"

definition note_pending :: "vec_future list \<Rightarrow> 'k bench_ring \<Rightarrow> 'k bench_ring" where
  "note_pending pending st =
     st\<lparr>bs_started := bs_started st @ replicate (length pending - length (bs_started st)) None\<rparr>"

partial_function (option) ring_await ::
    "'k ring_env \<Rightarrow> vec_future list \<Rightarrow> 'k bench_ring \<Rightarrow> (nat \<times> (io_error + u32) \<times> vec \<times> 'k bench_ring) option" where
  "ring_await E pending st =
     (case poll_some E pending (en_schedule E pending (note_pending pending st)) (note_pending pending st) of
        None \<Rightarrow> None
      | Some (Some (i, r, v), st1) \<Rightarrow> Some (i, r, v, st1)
      | Some (None, st1) \<Rightarrow>
          (case task_turn E st1 of None \<Rightarrow> None | Some st2 \<Rightarrow> ring_await E pending st2))"

partial_function (option) flush_await ::
    "'k ring_env \<Rightarrow> flush_state \<Rightarrow> 'k bench_ring \<Rightarrow> ((io_error + unit) \<times> 'k bench_ring) option" where
  "flush_await E f st =
     (case flush_future_poll (en_task E) f (bs_driver st) of
        None \<Rightarrow> None
      | Some (Ready r, f', d) \<Rightarrow> Some (map_sum (io_other (en_show E)) id r, st\<lparr>bs_driver := d\<rparr>)
      | Some (NotReady, f', d) \<Rightarrow>
          (case task_turn E (st\<lparr>bs_driver := d\<rparr>) of None \<Rightarrow> None | Some st2 \<Rightarrow> flush_await E f' st2))"

section \<open>The backend\<close>

text \<open>\<open>sync\<close> is called between runs only, so its assertion on that is left out.\<close>

definition add_file :: "(win_error \<Rightarrow> io_error) \<Rightarrow> win_error + file_state \<Rightarrow> 'k bench_ring \<Rightarrow> (io_error + fid) \<times> 'k bench_ring" where
  "add_file os_error r st =
     (case r of
        Inl e \<Rightarrow> (Inl (os_error e), st)
      | Inr fs \<Rightarrow>
          (let f = bs_next_file st; d = bs_driver st
           in (Inr f, st\<lparr>bs_driver := d\<lparr>files := (files d)(f := fs)\<rparr>, bs_next_file := f + 1\<rparr>)))"

definition ring_plain :: "'k ring_env \<Rightarrow> handle_mode \<Rightarrow> (fid, vec, vec_future, 'k bench_ring) bench_backend" where
  "ring_plain E mode =
     \<lparr>bk_open_read = \<lambda>path st. Some (add_file (en_os_error E) (mode_open_read (en_std_open E) mode path) st),
      bk_open_write = \<lambda>path st. Some (add_file (en_os_error E) (mode_open_write (en_std_open E) mode path) st),
      bk_take_buffer = \<lambda>capacity st. (case buffer_pool_take (en_realloc E) capacity (bs_pool st) of
        (r, pool) \<Rightarrow> (r, st\<lparr>bs_pool := pool\<rparr>)),
      bk_put_buffer = \<lambda>v st. st\<lparr>bs_pool := buffer_pool_put v (bs_pool st)\<rparr>,
      bk_read_at = ReadVec, bk_write_at = WriteVec, bk_await = ring_await E,
      bk_sync = \<lambda>file st. (case file_flush (en_platform E) file (bs_driver st) of
        None \<Rightarrow> None
      | Some (f, ws, d) \<Rightarrow> flush_await E f (st\<lparr>bs_driver := d, bs_woken := bs_woken st \<or> en_task E \<in> set ws\<rparr>)),
      bk_bytes = snd, bk_fill = vec_fill\<rparr>"

definition ring_configuration :: "handle_mode \<Rightarrow> string" where
  "ring_configuration mode =
     ''single-threaded driver; caller-owned buffers; unregistered handles; '' @ mode_suffix mode"

text \<open>\<open>None\<close>: a backend with no ring has no counts.\<close>

definition prepared_counts :: "which \<Rightarrow> 'k driver \<Rightarrow> (u64 \<times> u64) option" where
  "prepared_counts w d = (if builds_a_driver w then Some (submission_counts d) else None)"

end
