(* ===== verification/Bench_Ring_Props.thy ===== *)
theory Bench_Ring_Props
  imports Bench_Ring Bench_Weaken
begin

text \<open>
  A measured run on the ring gives every buffer back: from the runner's window through the driver,
  its slab and its result cells to the kernel and back to the pool.
\<close>

section \<open>The driver keeps what it holds\<close>

text \<open>
  The buffer of a read that is under way: in the payload of the operation, or, once the completion
  was reaped, in the result cell.
\<close>

definition holds :: "'k driver \<Rightarrow> op_future \<Rightarrow> iobuf \<Rightarrow> bool" where
  "holds d f b \<longleftrightarrow> of_cell f < next_cell d \<and> rs_future (cells d (of_cell f)) \<and>
     ((\<exists>p. live_payloads d (token_key (of_token f)) = Some p \<and> op_slot p = of_cell f \<and>
         op_buffer p = Some (AnyBuf b) \<and> op_pending p = None) \<or>
      (\<exists>r. rs_completed (cells d (of_cell f)) = Some (r, Some (AnyBuf b))))"

text \<open>A step that leaves the driver running, loses no buffer and starts nothing.\<close>

definition carries :: "'k driver \<Rightarrow> 'k driver \<Rightarrow> bool" where
  "carries d d' \<longleftrightarrow> driver_inv d' \<and> shutdown d' = Running \<and> (\<forall>f b. holds d f b \<longrightarrow> holds d' f b) \<and>
     live_payloads d' \<subseteq>\<^sub>m live_payloads d"

lemma carries_trans: "\<lbrakk>carries a b; carries b c\<rbrakk> \<Longrightarrow> carries a c"
  by (auto simp: carries_def intro: map_le_trans)

lemma carries_same:
  assumes "keeps d d'" "cells d' = cells d" "next_cell d' = next_cell d" "shutdown d' = Running"
  shows "carries d d'"
  using assms by (auto simp: carries_def holds_def keeps_def retains_def)

lemma cancel_abandoned_frame:
  assumes "driver_inv d"
  shows "cells (cancel_abandoned P d) = cells d \<and> next_cell (cancel_abandoned P d) = next_cell d \<and>
    shutdown (cancel_abandoned P d) = shutdown d"
proof -
  have i: "driver_inv (d\<lparr>deferred_cancels := []\<rparr>)"
    by (rule keeps_inv [OF keeps_quiet [OF assms]]) (simp_all add: cells_kept_same regs_kept_same)
  note j = keeps_inv [OF keeps_issue_cancels [OF i]]
  have frame: "cells (issue_cancels P ts e) = cells e \<and> next_cell (issue_cancels P ts e) = next_cell e \<and>
      shutdown (issue_cancels P ts e) = shutdown e" if "driver_inv e" for e :: "'a driver" and ts
    using issue_cancels_only [OF driver_invD(1) [OF that], of P ts] by (auto simp: cancels_only_def)
  show ?thesis using frame [OF i] frame [OF j] by (simp add: cancel_abandoned_def Let_def)
qed

lemma submit_carries:
  assumes inv: "driver_inv d" and run: "shutdown d = Running" shows "carries d (submit_pending P d)"
proof (rule carries_same [OF keeps_submit_pending [OF inv]])
  have "cells (submit_pending P d) = cells d \<and> next_cell (submit_pending P d) = next_cell d \<and>
    shutdown (submit_pending P d) = shutdown d"
  proof (cases rule: submit_pending_cases [of d P])
    case (accepted entries k)
    from cancel_abandoned_frame [OF keeps_inv [OF keeps_submitted [OF inv]]] accepted(3) show ?thesis
      by (simp add: submitted_def)
  next
    case (refused e k)
    then show ?thesis by (simp add: note_submit_failure_def Let_def report_def)
  qed simp
  then show "cells (submit_pending P d) = cells d" "next_cell (submit_pending P d) = next_cell d"
    "shutdown (submit_pending P d) = Running" using run by simp_all
qed

lemma next_cell_drops:
  "next_cell (drop_any b d) = next_cell d" "next_cell (drop_payload p d) = next_cell d"
  "next_cell (snd (resolve_cell c r d)) = next_cell d" "next_cell (raise_for res q b d) = next_cell d"
  by (simp_all add: drop_any_def drop_payload_def drop_cell_half_def clear_sequential_def drop_reg_buf_def
      resolve_cell_def raise_for_def Let_def split: option.split any_buf.split prod.split sum.split)

lemma next_cell_settle: "settle_registration res q b d = Some (b', d') \<Longrightarrow> next_cell d' = next_cell d"
  by (auto simp: settle_registration_def adopt_registration_def Let_def
      split: option.splits pending_registration.splits sum.splits prod.splits)

lemma next_cell_reap_one:
  assumes "reap_one c d = Some (ws, d')" shows "next_cell d' = next_cell d"
  using assms
  by (auto simp: reap_one_def reap_cancel_def reap_operation_def Let_def split_def next_cell_drops
      dest!: next_cell_settle split: if_splits option.splits)

lemma next_cell_reaps: "reaps P d cs ws d' \<Longrightarrow> next_cell d' = next_cell d"
  by (induction rule: reaps.induct) (auto simp: report_def dest: next_cell_reap_one)

lemma completed_not_live:
  assumes "driver_inv d" "rs_completed (cells d c) = Some r" "live_payloads d k = Some p"
  shows "op_slot p \<noteq> c"
  using driver_invD(6) [OF assms(1,3)] assms(2) by (auto simp: payload_ok_def cell_open_def)

lemma reaps_carries:
  assumes inv: "driver_inv d" and run: "shutdown d = Running" and r: "reaps P d cs ws d'"
  shows "carries d d'"
proof -
  note k = reaps_keeps [OF r inv]
  have "holds d' f b" if h: "holds d f b" for f b
  proof -
    consider (live) p where "live_payloads d (token_key (of_token f)) = Some p" "op_slot p = of_cell f"
        "op_buffer p = Some (AnyBuf b)" "op_pending p = None"
      | (done_) x where "rs_completed (cells d (of_cell f)) = Some (x, Some (AnyBuf b))"
      using h by (auto simp: holds_def)
    then show ?thesis
    proof cases
      case live
      show ?thesis using reaps_deliver [OF r inv live(1)] live h next_cell_reaps [OF r]
        by (auto simp: holds_def gives_back_def same_buffer_def split: option.splits)
    next
      case done_
      have "cells d' (of_cell f) = cells d (of_cell f)"
        by (rule reaps_other_cells [OF r inv]) (use completed_not_live [OF inv done_] in blast)
      then show ?thesis using done_ h next_cell_reaps [OF r] by (auto simp: holds_def)
    qed
  qed
  with k run show ?thesis by (auto simp: carries_def map_le_def dom_def split: if_splits)
qed

section \<open>Polling the driver\<close>

definition running_pc :: "drive_pc \<Rightarrow> bool" where
  "running_pc pc \<longleftrightarrow> pc \<in> {PcIdle, PcPass, PcYield, PcPark, PcParked}"

lemma carries_refl: "\<lbrakk>driver_inv d; shutdown d = Running\<rbrakk> \<Longrightarrow> carries d d"
  by (simp add: carries_def)

lemma park_carries:
  assumes inv: "driver_inv d" and run: "shutdown d = Running" and p: "park_poll w (d, s) = (r, d1, s1)"
  shows "carries d d1" "park_drop False (d1, s1) = (d2, s2) \<Longrightarrow> carries d d2"
proof -
  from park_poll_spec(1) [OF p] obtain x where d1: "d1 = d\<lparr>nudged := False, driver_waker := x\<rparr>" ..
  show "carries d d1" by (rule carries_same [OF park_resumed(1) [OF inv p]]) (use run in \<open>simp_all add: d1\<close>)
  show "carries d d2" if "park_drop False (d1, s1) = (d2, s2)"
    using park_resumed(2) [OF inv p that]
    by (rule carries_same) (use that run in \<open>auto simp: park_drop_def take_driver_waker_def d1\<close>)
qed

lemma drive_resume_carries:
  assumes inv: "driver_inv d" and run: "shutdown d = Running" and pc: "running_pc pc"
    and r: "drive_resume P w pc (d, s) = Some (pc', ws, rs, d', s')"
  shows "running_pc pc' \<and> carries d d'"
proof -
  have park: ?thesis if "(case park_poll w (d, s) of
        (PollReady, d', s') \<Rightarrow> (case park_drop False (d', s') of (d'', s'') \<Rightarrow> Some (PcPass, [], [], d'', s''))
      | (PollPending, d', s') \<Rightarrow> Some (PcParked, [], [], d', s')) = Some (pc', ws, rs, d', s')"
  proof -
    obtain res d1 s1 where pp: "park_poll w (d, s) = (res, d1, s1)" by (cases "park_poll w (d, s)")
    from that pp park_carries [OF inv run pp] show ?thesis
      by (cases res) (auto simp: running_pc_def split: prod.splits)
  qed
  from pc consider "pc = PcIdle" | "pc = PcPass" | "pc = PcYield" | "pc = PcPark" | "pc = PcParked"
    by (auto simp: running_pc_def)
  then show ?thesis
  proof cases
    case 2
    from r 2 obtain pr where pr: "drive_pass P d = Some (pr, d')"
      "pc' = (if pr_shutting_down pr then PcDrain 0 else if pr_retry_owed pr then PcYield else PcPark)"
      by (auto simp: drive_resume_def split: option.splits)
    then obtain ws1 d1 rs1 where t1: "reap_completions P (submit_pending P d) = Some (ws1, d1)" "take_reports d1 = (rs1, d')"
      "pr = \<lparr>pr_shutting_down = (shutdown d' \<noteq> Running), pr_retry_owed = pending_submit d', pr_wakers = ws1, pr_reports = rs1\<rparr>"
      unfolding drive_pass_def by (fastforce split: option.splits prod.splits)
    then have p: "reap_completions P (submit_pending P d) = Some (ws1, d1)" "d' = snd (take_reports d1)"
      "pr_shutting_down pr = (shutdown d' \<noteq> Running)" by simp_all
    note s = submit_carries [OF inv run, of P]
    from p(1) obtain cs where "reaps P (submit_pending P d) cs ws1 d1" by (auto simp: reap_completions_reaps)
    then have c: "carries (submit_pending P d) d1" using s by (intro reaps_carries) (simp_all add: carries_def)
    have t: "carries d1 d'" unfolding p(2)
      by (rule carries_same [OF keeps_take_reports]) (use c in \<open>simp_all add: carries_def take_reports_def\<close>)
    have "carries d d'" by (rule carries_trans [OF carries_trans [OF s c] t])
    then show ?thesis using p(3) pr(2) by (simp add: running_pc_def carries_def)
  qed (use r park carries_refl [OF inv run] in \<open>auto simp: drive_resume_def running_pc_def\<close>)
qed

lemma drive_poll_carries:
  fixes P :: "'k platform"
  assumes "drive_poll P w pc ws d s = Some (pc', ws', d', s')" "driver_inv d" "shutdown d = Running" "running_pc pc"
  shows "running_pc pc' \<and> carries d d'"
proof -
  define Q where "Q = (\<lambda>(P' :: 'k platform) (w' :: waker) pc (ws :: waker list) (d :: 'k driver) (s :: armed_state)
      (out :: drive_pc \<times> waker list \<times> 'k driver \<times> armed_state).
    driver_inv d \<longrightarrow> shutdown d = Running \<longrightarrow> running_pc pc \<longrightarrow> running_pc (fst out) \<and> carries d (fst (snd (snd out))))"
  have "Q P w pc ws d s (pc', ws', d', s')"
  proof (rule drive_poll.raw_induct [where Pa = "\<lambda>(((((P, w), pc), ws), d), s). Q P w pc ws d s", OF _ assms(1), unfolded prod.case])
    fix rec :: "'k platform \<Rightarrow> waker \<Rightarrow> drive_pc \<Rightarrow> waker list \<Rightarrow> 'k driver \<Rightarrow> armed_state
      \<Rightarrow> (drive_pc \<times> waker list \<times> 'k driver \<times> armed_state) option"
      and P w pc ws d s out
    assume ih: "\<And>P w pc ws d s out. rec P w pc ws d s = Some out \<Longrightarrow> Q P w pc ws d s out"
      and step: "(case drive_resume P w pc (d, s) of
        None \<Rightarrow> None
      | Some (pc', ws', reports, d', s') \<Rightarrow>
          (if suspended pc' then Some (pc', ws @ ws' @ (if yields pc' then [w] else []), d', s')
           else rec P w pc' (ws @ ws') d' s')) = Some out"
    show "Q P w pc ws d s out"
      unfolding Q_def
    proof (intro impI)
      assume i: "driver_inv d" "shutdown d = Running" "running_pc pc"
      from step obtain pc1 ws1 rs d1 s1 where r: "drive_resume P w pc (d, s) = Some (pc1, ws1, rs, d1, s1)"
        by (cases "drive_resume P w pc (d, s)") auto
      note c = drive_resume_carries [OF i r]
      show "running_pc (fst out) \<and> carries d (fst (snd (snd out)))"
      proof (cases "suspended pc1")
        case True
        with step r c show ?thesis by auto
      next
        case False
        with step r have "rec P w pc1 (ws @ ws1) d1 s1 = Some out" by simp
        from ih [OF this] c have "running_pc (fst out) \<and> carries d1 (fst (snd (snd out)))"
          by (simp add: Q_def carries_def)
        with c carries_trans show ?thesis by blast
      qed
    qed
  qed
  with assms(2-4) show ?thesis by (simp add: Q_def)
qed

section \<open>The operations of the task\<close>

text \<open>What stays the same of a vector from the pool to the kernel and back: its allocation.\<close>

definition allocation :: "iobuf \<Rightarrow> buf_kind \<times> usize \<times> usize" where
  "allocation b = (ib_kind b, ib_addr b, ib_cap b)"

lemma allocation_set_init: "set_buf_init n b = Some b' \<Longrightarrow> allocation b' = allocation b"
  by (auto simp: set_buf_init_def allocation_def split: buf_kind.splits if_splits)

lemma poll_pending:
  assumes inv: "driver_inv d" "shutdown d = Running"
    and p: "read_future_poll w (BufWaiting f) d = Some (NotReady, r', d')"
  shows "r' = BufWaiting f \<and> carries d d'"
proof -
  from p have n: "rs_completed (cells d (of_cell f)) = None" and r: "r' = BufWaiting f"
    and d': "d' = snd (snd (poll_resolution w f d))"
    by (auto simp: read_future_poll_def poll_resolution_def split: option.splits prod.splits sum.splits)
  have "driver_inv d'" unfolding d' using client_ok_inv [OF client_ok_poll [OF inv(1)]] by blast
  moreover have "holds d' g b" if "holds d g b" for g b
    using that n by (auto simp: holds_def d' poll_resolution_def live_payloads_def)
  moreover have "live_payloads d' = live_payloads d" "shutdown d' = Running"
    using n inv(2) by (simp_all add: d' poll_resolution_def live_payloads_def fun_eq_iff)
  ultimately show ?thesis using r by (simp add: carries_def)
qed

text \<open>A future that yields a count yields the buffer the driver held for it, and leaves the others.\<close>

lemma poll_ready:
  assumes inv: "driver_inv d" "shutdown d = Running" and h: "holds d f b"
    and p: "read_future_poll w (BufWaiting f) d = Some (Ready out, r', d')" and ok: "br_result out = Inr n"
  shows "allocation (br_buffer out) = allocation b" "driver_inv d'" "shutdown d' = Running"
    "live_payloads d' = live_payloads d" "live_payloads d' k = Some q \<Longrightarrow> op_slot q \<noteq> of_cell f"
    "\<lbrakk>holds d g c; of_cell g \<noteq> of_cell f\<rbrakk> \<Longrightarrow> holds d' g c"
proof -
  from p obtain r x where c: "rs_completed (cells d (of_cell f)) = Some (r, x)"
    by (auto simp: read_future_poll_def poll_resolution_def split: option.splits)
  have "x = Some (AnyBuf b)"
    using h completed_not_live [OF inv(1) c] c unfolding holds_def by (metis option.inject prod.inject)
  with c have c: "rs_completed (cells d (of_cell f)) = Some (r, Some (AnyBuf b))" by simp
  have d': "d' = snd (snd (poll_resolution w f d))" and "allocation (br_buffer out) = allocation b"
    using p c ok by (auto simp: read_future_poll_def poll_resolution_def into_outcome_def buf_result_new_def
        split: option.splits sum.splits dest: allocation_set_init)
  then show "allocation (br_buffer out) = allocation b" by blast
  have live: "live_payloads d' = live_payloads d" by (simp add: d' poll_resolution_def c live_payloads_def fun_eq_iff)
  then show "live_payloads d' = live_payloads d" .
  show "driver_inv d'" unfolding d' using client_ok_inv [OF client_ok_poll [OF inv(1)]] by blast
  show "shutdown d' = Running" using inv(2) by (simp add: d' poll_resolution_def c)
  show "op_slot q \<noteq> of_cell f" if "live_payloads d' k = Some q"
    using completed_not_live [OF inv(1) c] that unfolding live by blast
  show "holds d' g c" if "holds d g c" "of_cell g \<noteq> of_cell f"
    using that live by (auto simp: holds_def d' poll_resolution_def c)
qed

text \<open>A read that could be started holds its buffer, in a cell of its own.\<close>

lemma start_read:
  assumes inv: "driver_inv d" "shutdown d = Running" and s: "file_read_at P file b len offset d = Some (s, ws, d')"
  obtains (failed) e b' where "s = BufFailed (Some (e, b'))"
    | (started) f where "s = BufWaiting f" "holds d' f b" "of_cell f = next_cell d" "driver_inv d'" "shutdown d' = Running"
        "\<And>g c. holds d g c \<Longrightarrow> holds d' g c \<and> of_cell g \<noteq> of_cell f"
        "\<And>k q. live_payloads d' k = Some q \<Longrightarrow> live_payloads d k = Some q \<or> op_slot q = of_cell f"
using inv(1)
proof (cases rule: try_read_cases [where d = d and P = P and f = "file" and b = b and len = len and off = offset and fl = SQE_NONE and g = None])
  case (failed e d1)
  with s show thesis by (intro that(1)) (auto simp: file_read_at_def handle_read_def)
next
  case (started t d1)
  let ?f = "op_future_pending t (next_cell d)" and ?p = "buffer_payload file (next_cell d) None b"
  from s started(3) have e: "s = BufWaiting ?f" "d' = d1" by (auto simp: file_read_at_def handle_read_def)
  note st = started(4) [unfolded started_def]
  have live: "live_payloads d1 = (live_payloads d)(token_key t \<mapsto> ?p)"
    and new: "live_payloads d (token_key t) = None" using st by (auto simp: live_payloads_def fun_eq_iff)
  show thesis
  proof (rule that(2) [of ?f])
    show "holds d' ?f b" using st live
      by (auto simp: e holds_def op_future_pending_def buffer_payload_def file_payload_def result_slot_new_def)
    show "holds d' g c \<and> of_cell g \<noteq> of_cell ?f" if "holds d g c" for g c
      using that st live new by (fastforce simp: e holds_def op_future_pending_def)
    show "live_payloads d k = Some q \<or> op_slot q = of_cell ?f" if "live_payloads d' k = Some q" for k q
      using that live by (auto simp: e op_future_pending_def buffer_payload_def file_payload_def split: if_splits)
  qed (use st e inv in \<open>simp_all add: op_future_pending_def\<close>)
qed

declare split_paired_All [simp del] split_paired_Ex [simp del]

section \<open>The task between two polls\<close>

fun held :: "vec_future \<Rightarrow> vec" where
  "held (ReadVec file v len offset) = v"
| "held (WriteVec file v len offset) = v"

fun cell_list :: "started_op option \<Rightarrow> cid list" where
  "cell_list (Some (StartedRead (BufWaiting f))) = [of_cell f]"
| "cell_list s = []"

definition cells_of :: "started_op option list \<Rightarrow> cid list" where
  "cells_of xs = concat (map cell_list xs)"

definition tracks :: "'k driver \<Rightarrow> started_op option \<Rightarrow> vec_future \<Rightarrow> bool" where
  "tracks d s f \<longleftrightarrow> s = None \<or> (\<exists>g b. s = Some (StartedRead (BufWaiting g)) \<and> holds d g b \<and>
     allocation b = allocation (fst (held f)))"

text \<open>
  Every operation that was polled is held by the running driver, in a cell of its own, and nothing
  else is live that was not live before (\<open>live\<close>).
\<close>

definition sound :: "(key \<Rightarrow> op_payload option) \<Rightarrow> vec_future list \<Rightarrow> 'k bench_ring \<Rightarrow> bool" where
  "sound live pending st \<longleftrightarrow>
     driver_inv (bs_driver st) \<and> shutdown (bs_driver st) = Running \<and> running_pc (bs_pc st) \<and>
     length (bs_started st) \<le> length pending \<and>
     (\<forall>s f. (s, f) \<in> set (zip (bs_started st) pending) \<longrightarrow> tracks (bs_driver st) s f) \<and>
     distinct (cells_of (bs_started st)) \<and>
     (\<forall>k p. live_payloads (bs_driver st) k = Some p \<longrightarrow> live k = Some p \<or> op_slot p \<in> set (cells_of (bs_started st)))"

lemma soundD:
  assumes "sound live pending st"
  shows "driver_inv (bs_driver st)" "shutdown (bs_driver st) = Running" "running_pc (bs_pc st)"
    "length (bs_started st) \<le> length pending"
    "(s, f) \<in> set (zip (bs_started st) pending) \<Longrightarrow> tracks (bs_driver st) s f"
    "distinct (cells_of (bs_started st))"
    "live_payloads (bs_driver st) k = Some p \<Longrightarrow> live k = Some p \<or> op_slot p \<in> set (cells_of (bs_started st))"
  using assms unfolding sound_def by blast+

lemma tracks_carries: "\<lbrakk>tracks d s f; carries d d'\<rbrakk> \<Longrightarrow> tracks d' s f"
  unfolding tracks_def carries_def by blast

lemma sound_carries:
  assumes s: "sound live pending st" and c: "carries (bs_driver st) (bs_driver st')"
    and "running_pc (bs_pc st')" "bs_started st' = bs_started st"
  shows "sound live pending st'"
proof -
  have "live_payloads (bs_driver st) k = Some p" if "live_payloads (bs_driver st') k = Some p" for k p
    using c that unfolding carries_def map_le_def dom_def by (metis (mono_tags, lifting) mem_Collect_eq option.distinct(1))
  then show ?thesis
    using s c assms(3,4) tracks_carries [OF _ c] unfolding sound_def carries_def by metis
qed

lemma cells_of_simps: "cells_of (xs @ ys) = cells_of xs @ cells_of ys" "cells_of (replicate n None) = []"
  by (simp_all add: cells_of_def map_replicate_const)

lemma cells_of_nth:
  assumes "i < length xs"
  shows "mset (cells_of xs) = mset (cell_list (xs ! i) @ cells_of (drop_nth i xs))"
proof -
  have "cells_of xs = cells_of (take i xs @ [xs ! i] @ drop (i + 1) xs)"
    using id_take_nth_drop [OF assms] by simp
  then show ?thesis by (simp add: cells_of_def drop_nth_def)
qed

lemma drop_nth_update: "drop_nth i (xs[i := y]) = drop_nth i xs"
  by (simp add: drop_nth_def)

lemma zip_drop_nth:
  assumes "length xs = length ys"
  shows "zip (drop_nth i xs) (drop_nth i ys) = drop_nth i (zip xs ys)"
  using assms by (simp add: drop_nth_def take_zip drop_zip)

lemma length_drop_nth: "i < length xs \<Longrightarrow> length (drop_nth i xs) = length xs - 1"
  by (simp add: drop_nth_def)

lemma sound_note:
  assumes "sound live pending st"
  shows "sound live pending (note_pending pending st)" "length (bs_started (note_pending pending st)) = length pending"
    "bs_pool (note_pending pending st) = bs_pool st"
proof -
  note s = soundD [OF assms]
  have "tracks (bs_driver st) x f" if "(x, f) \<in> set (zip (bs_started st @ replicate n None) pending)" for x f n
  proof -
    from that obtain j where j: "j < length pending" "x = (bs_started st @ replicate n None) ! j" "f = pending ! j"
      "j < length (bs_started st) + n" by (auto simp: in_set_zip)
    show ?thesis
    proof (cases "j < length (bs_started st)")
      case True
      with j have "(x, f) \<in> set (zip (bs_started st) pending)" by (auto simp: in_set_zip nth_append)
      then show ?thesis by (rule s(5))
    qed (use j in \<open>simp add: tracks_def nth_append\<close>)
  qed
  then show "sound live pending (note_pending pending st)"
    using s by (auto simp: sound_def note_pending_def cells_of_simps)
  show "length (bs_started (note_pending pending st)) = length pending" using s(4) by (simp add: note_pending_def)
  show "bs_pool (note_pending pending st) = bs_pool st" by (simp add: note_pending_def)
qed

text \<open>A vector with room for the block keeps its place when it is resized to it.\<close>

definition roomy :: "u32 \<Rightarrow> vec \<Rightarrow> bool" where
  "roomy block v \<longleftrightarrow> unat block \<le> unat (ib_cap (fst v))"

lemma resize_roomy: "roomy block v \<Longrightarrow> allocation (fst (vec_resize realloc (unat block) v)) = allocation (fst v)"
  by (simp add: roomy_def vec_resize_def vec_grow_def allocation_def)

lemma sound_update:
  assumes s: "sound live pending st" and i: "i < length (bs_started st)" "i < length pending" "bs_started st ! i = None"
    and h: "holds d f b" "allocation b = allocation (fst (held (pending ! i)))" "driver_inv d" "shutdown d = Running"
      "\<And>g c. holds (bs_driver st) g c \<Longrightarrow> holds d g c \<and> of_cell g \<noteq> of_cell f"
      "\<And>k q. live_payloads d k = Some q \<Longrightarrow> live_payloads (bs_driver st) k = Some q \<or> op_slot q = of_cell f"
    and st': "bs_driver st' = d" "bs_pc st' = bs_pc st" "bs_started st' = (bs_started st)[i := Some (StartedRead (BufWaiting f))]"
  shows "sound live pending st'"
proof -
  note d = soundD [OF s]
  let ?xs = "bs_started st"
  have old: "mset (cells_of ?xs) = mset (cells_of (drop_nth i ?xs))"
    using cells_of_nth [OF i(1)] i(3) by simp
  have "mset (cells_of (bs_started st')) = mset (of_cell f # cells_of ?xs)"
    using cells_of_nth [of i "bs_started st'"] i(1) old by (simp add: st'(3) drop_nth_update)
  note eq = this
  have new: "distinct (cells_of (bs_started st')) = distinct (of_cell f # cells_of ?xs)"
    "set (cells_of (bs_started st')) = insert (of_cell f) (set (cells_of ?xs))"
    using mset_eq_imp_distinct_iff [OF eq] mset_eq_setD [OF eq] by simp_all
  have "of_cell f \<notin> set (cells_of ?xs)"
  proof
    assume "of_cell f \<in> set (cells_of ?xs)"
    then obtain x where x: "x \<in> set ?xs" "of_cell f \<in> set (cell_list x)" by (auto simp: cells_of_def)
    then obtain j where "j < length ?xs" "x = ?xs ! j" by (auto simp: in_set_conv_nth)
    then have "(x, pending ! j) \<in> set (zip ?xs pending)" using d(4) by (auto simp: in_set_zip)
    from d(5) [OF this] x(2) obtain g c where "holds (bs_driver st) g c" "of_cell g = of_cell f"
      by (auto simp: tracks_def)
    with h(5) show False by blast
  qed
  moreover have "tracks d x p" if "(x, p) \<in> set (zip (bs_started st') pending)" for x p
  proof -
    from that obtain j where j: "j < length ?xs" "j < length pending" "x = bs_started st' ! j" "p = pending ! j"
      by (auto simp: in_set_zip st'(3))
    show ?thesis
    proof (cases "j = i")
      case True
      with j i h(1,2) show ?thesis by (auto simp: tracks_def st'(3))
    next
      case False
      then have "(x, p) \<in> set (zip ?xs pending)" using j by (auto simp: in_set_zip st'(3))
      from d(5) [OF this] h(5) show ?thesis unfolding tracks_def by blast
    qed
  qed
  moreover have "live k = Some p \<or> op_slot p \<in> set (cells_of (bs_started st'))" if "live_payloads d k = Some p" for k p
    using h(6) [OF that] d(7) [of k p] unfolding new(2) by blast
  ultimately show ?thesis
    using d h(3,4) st' unfolding sound_def new by simp
qed

lemma begin_sound:
  assumes s: "sound live pending st" and i: "i < length (bs_started st)" "length (bs_started st) = length pending"
    and f: "pending ! i = ReadVec file v block offset" "roomy block v"
    and b: "begin_nth E pending i st = Some (s', st1)"
  obtains (failed) e b' where "s' = StartedRead (BufFailed (Some (e, b')))"
    | (under_way) "sound live pending (st1\<lparr>bs_started := (bs_started st1)[i := Some s']\<rparr>)"
        "bs_pool st1 = bs_pool st" "length (bs_started st1) = length pending"
proof (cases "bs_started st ! i")
  case (Some s0)
  with b have "s' = s0" "st1 = st" by (simp_all add: begin_nth_def)
  moreover have "st\<lparr>bs_started := (bs_started st)[i := Some s0]\<rparr> = st" using list_update_id [of "bs_started st" i] Some by simp
  ultimately show thesis using s i(2) by (intro that(2)) simp_all
next
  case None
  define v1 where "v1 = (if length (snd v) < unat block then vec_resize (en_realloc E) (unat block) v else v)"
  have a: "allocation (fst v1) = allocation (fst v)" using f(2) by (simp add: v1_def resize_roomy)
  note d = soundD [OF s]
  from b None f(1) obtain r ws d1 where r: "file_read_at (en_platform E) file (fst v1) block offset (bs_driver st) = Some (r, ws, d1)"
    "s' = StartedRead r" "bs_driver st1 = d1" "bs_pc st1 = bs_pc st" "bs_started st1 = bs_started st" "bs_pool st1 = bs_pool st"
    by (auto simp: begin_nth_def start_vec_def Let_def v1_def split: option.splits)
  show thesis
  proof (cases rule: start_read [OF d(1,2) r(1)])
    case (1 e b')
    with r(2) that(1) show thesis by blast
  next
    case (2 g)
    have "sound live pending (st1\<lparr>bs_started := (bs_started st1)[i := Some s']\<rparr>)"
      by (rule sound_update [OF s i(1) _ None 2(2) _ 2(4,5,6,7)]) (use i f(1) a r 2(1) in simp_all)
    with r i show thesis by (intro that(2)) simp_all
  qed
qed

lemma sound_collect:
  assumes s: "sound live pending st" and i: "i < length pending" "length (bs_started st) = length pending"
    and g: "bs_started st ! i = Some (StartedRead (BufWaiting g))"
    and h: "driver_inv d" "shutdown d = Running" "live_payloads d = live_payloads (bs_driver st)"
      "\<And>k q. live_payloads d k = Some q \<Longrightarrow> op_slot q \<noteq> of_cell g"
      "\<And>f c. \<lbrakk>holds (bs_driver st) f c; of_cell f \<noteq> of_cell g\<rbrakk> \<Longrightarrow> holds d f c"
    and st': "bs_driver st' = d" "bs_pc st' = bs_pc st" "bs_started st' = drop_nth i (bs_started st)"
  shows "sound live (drop_nth i pending) st'"
proof -
  note d = soundD [OF s]
  let ?xs = "bs_started st"
  have eq: "mset (cells_of ?xs) = mset (of_cell g # cells_of (drop_nth i ?xs))"
    using cells_of_nth [of i ?xs] i g by simp
  have new: "distinct (of_cell g # cells_of (drop_nth i ?xs))"
    "set (cells_of ?xs) = insert (of_cell g) (set (cells_of (drop_nth i ?xs)))"
    using d(6) mset_eq_imp_distinct_iff [OF eq] mset_eq_setD [OF eq] by simp_all
  have "tracks d x p" if "(x, p) \<in> set (zip (drop_nth i ?xs) (drop_nth i pending))" for x p
  proof -
    have "(x, p) \<in> set (drop_nth i (zip ?xs pending))" using that zip_drop_nth [OF i(2)] by simp
    note t = d(5) [OF subsetD [OF set_drop_nth this]]
    have "x \<in> set (drop_nth i ?xs)" using that by (rule set_zip_leftD)
    then have "of_cell f \<noteq> of_cell g" if "x = Some (StartedRead (BufWaiting f))" for f
      using new(1) that by (force simp: cells_of_def)
    with t h(5) show ?thesis unfolding tracks_def by blast
  qed
  moreover have "live k = Some p \<or> op_slot p \<in> set (cells_of (drop_nth i ?xs))" if "live_payloads d k = Some p" for k p
    using d(7) [of k p] that h(4) [OF that] unfolding new(2) h(3) by blast
  ultimately show ?thesis
    using d h(1,2) st' new(1) i length_drop_nth [of i pending] length_drop_nth [of i ?xs] unfolding sound_def by simp
qed

lemma poll_nth_result:
  assumes "poll_nth E pending i st = Some (res, st')"
  shows "\<exists>s1 st1 r s2 st2. begin_nth E pending i st = Some (s1, st1) \<and> poll_vec E s1 st1 = Some (r, s2, st2) \<and> res = r \<and>
    st' = st2\<lparr>bs_started := (case r of NotReady \<Rightarrow> (bs_started st2)[i := Some s2] | _ \<Rightarrow> drop_nth i (bs_started st2))\<rparr>"
proof (cases "begin_nth E pending i st")
  case (Some y)
  obtain s1 st1 where y: "y = (s1, st1)" by (cases y)
  show ?thesis
  proof (cases "poll_vec E s1 st1")
    case None
    with assms Some y show ?thesis by (simp add: poll_nth_def)
  next
    case v: (Some z)
    obtain r s2 st2 where z: "z = (r, s2, st2)" by (cases z)
    have "(res, st') = (r, st2\<lparr>bs_started := (case r of NotReady \<Rightarrow> (bs_started st2)[i := Some s2] | _ \<Rightarrow> drop_nth i (bs_started st2))\<rparr>)"
      using assms unfolding poll_nth_def Some y option.case prod.case v z by (cases r) (simp_all only: poll.case prod.case option.case option.inject)
    with Some v y z show ?thesis by blast
  qed
qed (use assms in \<open>simp add: poll_nth_def\<close>)

text \<open>What polling the \<open>i\<close>-th operation does to the task.\<close>

lemma poll_nth_sound:
  assumes s: "sound live pending st" and i: "i < length pending" "length (bs_started st) = length pending"
    and f: "pending ! i = ReadVec file v block offset" "roomy block v"
    and p: "poll_nth E pending i st = Some (res, st')"
  shows "case res of
      NotReady \<Rightarrow> sound live pending st' \<and> length (bs_started st') = length pending \<and> bs_pool st' = bs_pool st
    | Ready (Inr n, v') \<Rightarrow> sound live (drop_nth i pending) st' \<and> bs_pool st' = bs_pool st \<and>
        allocation (fst v') = allocation (fst v)
    | Ready (Inl e, v') \<Rightarrow> True"
proof -
  from poll_nth_result [OF p] obtain s1 st1 r s2 st2 where b: "begin_nth E pending i st = Some (s1, st1)"
    and q: "poll_vec E s1 st1 = Some (r, s2, st2)" "res = r"
    "st' = st2\<lparr>bs_started := (case r of NotReady \<Rightarrow> (bs_started st2)[i := Some s2] | _ \<Rightarrow> drop_nth i (bs_started st2))\<rparr>"
    by blast
  have i': "i < length (bs_started st)" using i by simp
  show ?thesis
  proof (cases rule: begin_sound [OF s i' i(2) f b])
    case (1 e b')
    with q show ?thesis
      by (auto simp: poll_vec_def read_future_poll_def vec_outcome_def into_parts_def buf_result_new_def)
  next
    case 2
    let ?st = "st1\<lparr>bs_started := (bs_started st1)[i := Some s1]\<rparr>"
    have len: "i < length (bs_started ?st)" "length (bs_started st1) = length pending" using 2(3) i(1) by simp_all
    note d = soundD [OF 2(1), simplified]
    have "(Some s1, pending ! i) \<in> set (zip (bs_started ?st) pending)"
      using len i(1) by (auto simp: in_set_zip intro!: exI [of _ i])
    from soundD(5) [OF 2(1) this] f(1) obtain g c where g: "s1 = StartedRead (BufWaiting g)" "holds (bs_driver st1) g c"
      "allocation c = allocation (fst v)" by (auto simp: tracks_def)
    show ?thesis
    proof (cases r)
      case NotReady
      with q have p1: "poll_vec E s1 st1 = Some (NotReady, s2, st2)" "res = NotReady"
        "st' = st2\<lparr>bs_started := (bs_started st2)[i := Some s2]\<rparr>" by simp_all
      then obtain r' d' where r: "read_future_poll (en_task E) (BufWaiting g) (bs_driver st1) = Some (NotReady, r', d')"
        "s2 = StartedRead r'" "st2 = st1\<lparr>bs_driver := d'\<rparr>"
        by (auto simp: poll_vec_def g(1) split: option.splits poll.splits)
      note c = poll_pending [OF d(1,2) r(1)]
      have "sound live pending st'"
        by (rule sound_carries [OF 2(1)]) (use c r p1 g(1) d(3) in simp_all)
      then show ?thesis using p1 r 2(2) len by simp
    next
      case (Ready rv)
      with q have p1: "poll_vec E s1 st1 = Some (Ready rv, s2, st2)" "res = Ready rv"
        "st' = st2\<lparr>bs_started := drop_nth i (bs_started st2)\<rparr>" by simp_all
      then obtain out r' d' where o: "read_future_poll (en_task E) (BufWaiting g) (bs_driver st1) = Some (Ready out, r', d')"
        "rv = vec_outcome E (bs_memory st1) out" "st2 = st1\<lparr>bs_driver := d'\<rparr>"
        by (auto simp: poll_vec_def g(1) split: option.splits poll.splits)
      show ?thesis
      proof (cases "br_result out")
        case (Inl e)
        with p1(2) o(2) show ?thesis by (simp add: vec_outcome_def into_parts_def)
      next
        case (Inr n)
        note y = poll_ready [OF d(1,2) g(2) o(1) Inr]
        have "sound live (drop_nth i pending) st'"
        proof (rule sound_collect [OF 2(1) i(1)])
          show "op_slot q \<noteq> of_cell g" if "live_payloads d' k = Some q" for k q using that by (rule y(5))
          show "holds d' f c" if "holds (bs_driver ?st) f c" "of_cell f \<noteq> of_cell g" for f c
            using that y(6) by simp
        qed (use y(2-4) len i p1(3) o(3) g(1) in \<open>simp_all add: drop_nth_update\<close>)
        then show ?thesis using p1(2,3) o(2,3) Inr y(1) g(3) 2(2) by (simp add: vec_outcome_def into_parts_def)
      qed
    qed
  qed
qed

section \<open>Awaiting a completion\<close>

text \<open>The pending reads of a run, each of one block into a vector with room for it.\<close>

definition block_reads :: "u32 \<Rightarrow> vec_future list \<Rightarrow> bool" where
  "block_reads block pending \<longleftrightarrow> (\<forall>f \<in> set pending. \<exists>file v offset. f = ReadVec file v block offset \<and> roomy block v)"

lemma poll_some_sound:
  assumes "sound live pending st" "length (bs_started st) = length pending" "block_reads block pending"
    and "\<forall>i \<in> set is. i < length pending" "poll_some E pending is st = Some (res, st')"
  shows "case res of
      None \<Rightarrow> sound live pending st' \<and> bs_pool st' = bs_pool st
    | Some (i, Inr n, v) \<Rightarrow> i < length pending \<and> sound live (drop_nth i pending) st' \<and> bs_pool st' = bs_pool st \<and>
        allocation (fst v) = allocation (fst (held (pending ! i)))
    | Some (i, Inl e, v) \<Rightarrow> True"
  using assms
proof (induction "is" arbitrary: st)
  case (Cons i "is")
  have i: "i < length pending" using Cons.prems(4) by simp
  then have "pending ! i \<in> set pending" by simp
  then obtain h v offset where f: "pending ! i = ReadVec h v block offset" "roomy block v"
    using Cons.prems(3) unfolding block_reads_def by blast
  obtain r st1 where p: "poll_nth E pending i st = Some (r, st1)"
    using Cons.prems(5) by (cases "poll_nth E pending i st") auto
  note q = poll_nth_sound [OF Cons.prems(1) i Cons.prems(2) f p]
  show ?case
  proof (cases r)
    case NotReady
    with q have n: "sound live pending st1" "length (bs_started st1) = length pending" "bs_pool st1 = bs_pool st" by simp_all
    have a: "\<forall>i \<in> set is. i < length pending" using Cons.prems(4) by simp
    have "poll_some E pending is st1 = Some (res, st')" using Cons.prems(5) p NotReady by simp
    from Cons.IH [OF n(1,2) Cons.prems(3) a this] show ?thesis unfolding n(3) .
  next
    case (Ready rv)
    then have "res = Some (i, rv)" "st' = st1" using Cons.prems(5) p by (simp_all split: prod.splits)
    with q Ready i f(1) show ?thesis by (cases "fst rv") (auto split: prod.splits)
  qed
qed simp

lemma task_turn_sound:
  assumes s: "sound live pending st" and t: "task_turn E st = Some st'"
  shows "sound live pending st'" "bs_pool st' = bs_pool st"
proof -
  note d = soundD [OF s]
  have kern: "carries (bs_driver st) ((bs_driver st)\<lparr>kern := k\<rparr>)" for k
    by (rule carries_same [OF keeps_kern [OF d(1)]]) (simp_all add: d(2))
  from t obtain st1 where w: "task_wait E st = Some st1" "drive_turn E (st1\<lparr>bs_woken := False\<rparr>) = Some st'"
    by (auto simp: task_turn_def split: option.splits)
  then have 1: "carries (bs_driver st) (bs_driver st1)" "bs_pc st1 = bs_pc st" "bs_started st1 = bs_started st" "bs_pool st1 = bs_pool st"
    using kern carries_refl [OF d(1,2)]
    by (auto simp: task_wait_def split: if_splits option.splits prod.splits)
  from w(2) obtain pc ws d' s' where p: "drive_poll (en_platform E) (en_task E) (bs_pc st1) [] (bs_driver st1) (bs_armed st1) = Some (pc, ws, d', s')"
    "bs_driver st' = d'" "bs_pc st' = pc" "bs_started st' = bs_started st1" "bs_pool st' = bs_pool st1"
    by (auto simp: drive_turn_def split: option.splits if_splits)
  have "running_pc pc \<and> carries (bs_driver st1) d'"
    by (rule drive_poll_carries [OF p(1)]) (use 1 d in \<open>simp_all add: carries_def\<close>)
  then show "sound live pending st'" "bs_pool st' = bs_pool st"
    using sound_carries [OF s carries_trans [OF 1(1)]] 1 p by simp_all
qed

text \<open>What the schedule may do: poll operations that are pending.\<close>

definition polls_pending :: "'k ring_env \<Rightarrow> bool" where
  "polls_pending E \<longleftrightarrow> (\<forall>pending st. \<forall>i \<in> set (en_schedule E pending st). i < length pending)"

lemma ring_await_sound:
  fixes E :: "'a ring_env"
  assumes "ring_await E pending st = Some out" "sound live pending st" "block_reads block pending" "polls_pending E"
  shows "case out of
      (i, Inr n, v, st') \<Rightarrow> i < length pending \<and> sound live (drop_nth i pending) st' \<and> bs_pool st' = bs_pool st \<and>
        allocation (fst v) = allocation (fst (held (pending ! i)))
    | (i, Inl e, v, st') \<Rightarrow> True"
proof -
  define Q where "Q = (\<lambda>(E :: 'a ring_env) pending (st :: 'a bench_ring) (out :: nat \<times> (io_error + u32) \<times> vec \<times> 'a bench_ring). sound live pending st \<longrightarrow> block_reads block pending \<longrightarrow>
    polls_pending E \<longrightarrow>
    (case out of
      (i, Inr (n :: u32), v, st') \<Rightarrow> i < length pending \<and> sound live (drop_nth i pending) st' \<and> bs_pool st' = bs_pool st \<and>
        allocation (fst (v :: vec)) = allocation (fst (held (pending ! i)))
    | (i, Inl (e :: io_error), v, st') \<Rightarrow> True))"
  have "Q E pending st out"
  proof (rule ring_await.raw_induct [where P = Q, OF _ assms(1)])
    fix rec :: "'a ring_env \<Rightarrow> vec_future list \<Rightarrow> 'a bench_ring \<Rightarrow> (nat \<times> (io_error + u32) \<times> vec \<times> 'a bench_ring) option"
      and E pending st out
    assume ih: "\<And>E pending st out. rec E pending st = Some out \<Longrightarrow> Q E pending st out"
      and step: "(case poll_some E pending (en_schedule E pending (note_pending pending st)) (note_pending pending st) of
        None \<Rightarrow> None
      | Some (Some (i, r, v), st1) \<Rightarrow> Some (i, r, v, st1)
      | Some (None, st1) \<Rightarrow>
          (case task_turn E st1 of None \<Rightarrow> None | Some st2 \<Rightarrow> rec E pending st2)) = Some out"
    show "Q E pending st out"
      unfolding Q_def
    proof (intro impI)
      assume s: "sound live pending st" and b: "block_reads block pending" and e: "polls_pending E"
      note n = sound_note [OF s]
      obtain res st1 where p: "poll_some E pending (en_schedule E pending (note_pending pending st)) (note_pending pending st) = Some (res, st1)"
        using step by (cases "poll_some E pending (en_schedule E pending (note_pending pending st)) (note_pending pending st)") auto
      have "\<forall>i \<in> set (en_schedule E pending (note_pending pending st)). i < length pending"
        using e by (simp add: polls_pending_def)
      note q = poll_some_sound [OF n(1,2) b this p]
      show "case out of
          (i, Inr (n :: u32), v, st') \<Rightarrow> i < length pending \<and> sound live (drop_nth i pending) st' \<and> bs_pool st' = bs_pool st \<and>
            allocation (fst (v :: vec)) = allocation (fst (held (pending ! i)))
        | (i, Inl (e :: io_error), v, st') \<Rightarrow> True"
      proof (cases res)
        case None
        with step p obtain st2 where t: "task_turn E st1 = Some st2" "rec E pending st2 = Some out"
          by (auto split: option.splits)
        from q None have s1: "sound live pending st1" "bs_pool st1 = bs_pool st" using n(3) by simp_all
        note s2 = task_turn_sound [OF s1(1) t(1)]
        from ih [OF t(2), unfolded Q_def, rule_format, OF s2(1) b e] show ?thesis unfolding s2(2) s1(2) .
      next
        case (Some irv)
        with step p have "out = (fst irv, fst (snd irv), snd (snd irv), st1)" by (simp split: prod.splits)
        with q Some n(3) show ?thesis by (auto split: prod.splits sum.splits)
      qed
    qed
  qed
  with assms(2-4) show ?thesis by (simp add: Q_def)
qed

section \<open>A whole run\<close>

definition vec_allocations :: "vec list \<Rightarrow> (buf_kind \<times> usize \<times> usize) multiset" where
  "vec_allocations vs = mset (map (\<lambda>v. allocation (fst v)) vs)"

text \<open>The invariant of the runner's loop: every buffer is in the pool or in a pending read.\<close>

definition run_ok ::
    "(key \<Rightarrow> op_payload option) \<Rightarrow> u32 \<Rightarrow> (buf_kind \<times> usize \<times> usize) multiset \<Rightarrow> (u64 \<times> vec_future) list \<Rightarrow> 'k bench_ring \<Rightarrow> bool" where
  "run_ok live block M pending st \<longleftrightarrow>
     sound live (map snd pending) st \<and> block_reads block (map snd pending) \<and>
     (\<forall>v \<in> set (bs_pool st). roomy block v) \<and>
     vec_allocations (bs_pool st) + vec_allocations (map (held \<circ> snd) pending) = M"

lemma sound_more:
  assumes "sound live pending st" shows "sound live (pending @ zs) st"
proof -
  have "zip (bs_started st) (pending @ zs) = zip (bs_started st) pending"
    using soundD(4) [OF assms] by (simp add: zip_append2)
  with assms show ?thesis by (simp add: sound_def)
qed

lemma roomy_allocation: "allocation (fst v) = allocation (fst w) \<Longrightarrow> roomy block v = roomy block w"
  by (simp add: roomy_def allocation_def)

lemma take_roomy:
  assumes "buffer_pool_take realloc (unat block) pool = (Inr v, pool')" "\<forall>v \<in> set pool. roomy block v"
  shows "roomy block v \<and> (\<forall>v \<in> set pool'. roomy block v) \<and> vec_allocations pool = vec_allocations (pool' @ [v])"
proof -
  from assms(1) have ne: "pool \<noteq> []" by (auto simp: buffer_pool_take_def)
  then have l: "roomy block (last pool)" using assms(2) by simp
  then have v: "v = vec_resize realloc (unat block) (last pool)" "pool' = butlast pool"
    using assms(1) ne by (simp_all add: buffer_pool_take_def Let_def roomy_def)
  have a: "allocation (fst v) = allocation (fst (last pool))" by (simp add: v(1) resize_roomy [OF l])
  have "vec_allocations pool = vec_allocations (butlast pool @ [last pool])" using ne by simp
  then show ?thesis using a l assms(2) roomy_allocation [OF a]
    by (auto simp: v(2) vec_allocations_def dest: in_set_butlastD)
qed

lemma make_run_ok:
  assumes "run_ok live block M pending st"
    and "make_op (reading (ring_plain E mode) h block offset_of) i st = (x, st')"
  shows "case x of Inr f \<Rightarrow> run_ok live block M (pending @ [f]) st' | Inl e \<Rightarrow> run_ok live block M pending st'"
proof -
  obtain r pool' where t: "buffer_pool_take (en_realloc E) (unat block) (bs_pool st) = (r, pool')"
    by (cases "buffer_pool_take (en_realloc E) (unat block) (bs_pool st)")
  show ?thesis
  proof (cases r)
    case (Inl e)
    with t have "pool' = bs_pool st" by (auto simp: buffer_pool_take_def Let_def split: if_splits)
    with assms t Inl show ?thesis by (auto simp: reading_def ring_plain_def)
  next
    case (Inr v)
    note v = take_roomy [OF t [unfolded Inr]]
    from assms(2) t Inr have x: "x = Inr (offset_of i, ReadVec h v block (offset_of i))" "st' = st\<lparr>bs_pool := pool'\<rparr>"
      by (simp_all add: reading_def ring_plain_def)
    note o = assms(1) [unfolded run_ok_def]
    have "sound live (map snd pending) st'" using o by (simp add: x(2) sound_def)
    from sound_more [OF this, of "[ReadVec h v block (offset_of i)]"] o v show ?thesis
      by (simp add: x run_ok_def block_reads_def vec_allocations_def)
  qed
qed

lemma refill_run_ok:
  assumes "refill (reading (ring_plain E mode) h block offset_of) todo issued pending r st = (Inr (issued1, pending1), r1, st1)"
    and "run_ok live block M pending st"
  shows "run_ok live block M pending1 st1"
  using assms
proof (induction "todo - issued" arbitrary: issued pending r st)
  case 0
  then show ?case by (subst (asm) refill.simps) simp
next
  case (Suc k)
  let ?B = "reading (ring_plain E mode) h block offset_of"
  obtain x st2 where m: "make_op ?B issued st = (x, st2)" by (cases "make_op ?B issued st")
  note o = make_run_ok [OF Suc.prems(2) m]
  show ?case
  proof (cases "issued < todo \<and> length pending < ru_configured r")
    case False
    with Suc.prems show ?thesis by (subst (asm) refill.simps) auto
  next
    case go: True
    show ?thesis
    proof (cases x)
      case (Inl e)
      with Suc.prems go m o show ?thesis by (subst (asm) refill.simps) (auto split: if_splits)
    next
      case (Inr f)
      with Suc.prems(1) go m have "refill ?B todo (issued + 1) (pending @ [f]) r st2 = (Inr (issued1, pending1), r1, st1)"
        by (subst (asm) refill.simps) simp
      moreover have "k = todo - (issued + 1)" using Suc.hyps(2) by simp
      ultimately show ?thesis using Suc.hyps(1) o Inr by simp
    qed
  qed
qed

lemma fill_run_ok:
  assumes "fill_phase (reading (ring_plain E mode) h block offset_of) todo issued pending r st = (Inr (issued1, pending1), r1, st1)"
    and "run_ok live block M pending st"
  shows "run_ok live block M pending1 st1"
  using assms refill_run_ok by (fastforce simp: fill_phase_def split: if_splits)

lemma turn_run_ok:
  assumes ok: "run_ok live block M pending st" and e: "polls_pending E"
    and c: "next_completion (reading (ring_plain E mode) h block offset_of) pending st = Some (i, offset, Inr (n, v), st')"
  shows "i < length pending" "run_ok live block M (drop_nth i pending) (st'\<lparr>bs_pool := buffer_pool_put v (bs_pool st')\<rparr>)"
proof -
  note o = ok [unfolded run_ok_def]
  from c obtain r where a: "ring_await E (map snd pending) st = Some (i, r, v, st')" "r = Inr n"
    by (auto simp: reading_def ring_plain_def awaiting_def map_sum_Inr_iff split: option.splits)
  from ring_await_sound [OF a(1) conjunct1 [OF o] conjunct1 [OF conjunct2 [OF o]] e] a(2)
  have q: "i < length pending" "sound live (map snd (drop_nth i pending)) st'" "bs_pool st' = bs_pool st"
    "allocation (fst v) = allocation (fst (held (snd (pending ! i))))"
    by (auto simp: drop_nth_map)
  then show "i < length pending" by simp
  have f: "snd (pending ! i) \<in> set (map snd pending)" using q(1) by simp
  then have "roomy block (held (snd (pending ! i)))" using o unfolding block_reads_def by fastforce
  with q(4) have v: "roomy block v" using roomy_allocation by blast
  have "vec_allocations (map (held \<circ> snd) pending)
      = add_mset (allocation (fst v)) (vec_allocations (map (held \<circ> snd) (drop_nth i pending)))"
    using drop_nth_mset [OF q(1)] unfolding vec_allocations_def q(4) mset_map by simp
  moreover have "block_reads block (map snd (drop_nth i pending))"
    using o set_drop_nth [of i pending] by (auto simp: block_reads_def)
  moreover have "sound live (map snd (drop_nth i pending)) (st'\<lparr>bs_pool := buffer_pool_put v (bs_pool st')\<rparr>)"
    using q(2) by (simp add: sound_def)
  ultimately show "run_ok live block M (drop_nth i pending) (st'\<lparr>bs_pool := buffer_pool_put v (bs_pool st')\<rparr>)"
    using o v q(3) unfolding run_ok_def by (auto simp: buffer_pool_put_def vec_allocations_def)
qed

lemma reads_run_ok:
  fixes E :: "'k ring_env"
  assumes run: "positional_reads_on (ring_plain E mode) h block n depth sh offset_of st = Some (Inr oc, st')"
    and ok: "run_ok live block M [] st" and e: "polls_pending E"
  shows "run_ok live block M [] st' \<and> tr_completions (oc_trace oc) = n"
proof -
  let ?B = "reading (ring_plain E mode) h block offset_of"
  let ?I = "\<lambda>issued pending (t :: trace) (r :: runner) (st :: 'k bench_ring). run_ok live block M pending st \<and> issued \<le> n \<and>
    tr_completions t + length pending = issued \<and> ru_configured r = max depth 1"
  from run obtain t r' where l: "run_loop ?B n PhaseRead 0 [] (issue_all n block offset_of trace_new) (runner_new depth sh) st
      = Some (Inr (), t, r', st')" "oc_trace oc = t"
    by (auto simp: positional_reads_on_def runner_run_def finish_outcome_def split: option.splits sum.splits)
  have "tr_completions (issue_all n block offset_of trace_new) = 0"
    by (induction n) (simp_all add: issue_all_def trace_issued_def trace_new_def)
  then have start: "?I 0 [] (issue_all n block offset_of trace_new) (runner_new depth sh) st"
    using ok by (simp add: runner_new_def)
  have fill: "?I issued1 pending1 t r1 b1 \<and> (pending1 = [] \<longrightarrow> issued1 = n)"
    if "?I issued pending t r b" "fill_phase ?B n issued pending r b = (Inr (issued1, pending1), r1, b1)"
    for issued pending t r b issued1 pending1 r1 b1
    using fill_more [where P = "\<lambda>_. True", OF that(2)] fill_run_ok [OF that(2)] that(1) by auto
  have "\<exists>issued pending r b. ?I issued pending t r b \<and> turn_ends ?B n issued pending r b (Inr ()) r' st'"
    using l(1) start
  proof (rule run_loop_invariant)
    fix issued pending t r b issued1 pending1 r1 b1 i offset k v b2
    assume a: "?I issued pending t r b" "fill_phase ?B n issued pending r b = (Inr (issued1, pending1), r1, b1)"
      "pending1 \<noteq> []" "next_completion ?B pending1 b1 = Some (i, offset, Inr (k, v), b2)"
    note f = fill [OF a(1,2)]
    note t = turn_run_ok [OF conjunct1 [OF conjunct1 [OF f]] e a(4)]
    show "?I issued1 (drop_nth i pending1) (trace_delivered PhaseRead offset k (buffer_bytes ?B v) t)
        (note_completion (length pending1) (note_outstanding n issued1 (length pending1) r1)) (backend.put_buffer ?B v b2)"
      using f t a(3) length_drop_nth [OF t(1)]
      by (auto simp: reading_def ring_plain_def trace_delivered_def note_completion_def note_outstanding_def Let_def)
  qed
  then obtain issued pending r b where i: "?I issued pending t r b" "turn_ends ?B n issued pending r b (Inr ()) r' st'" by blast
  then obtain issued1 r1 where f: "fill_phase ?B n issued pending r b = (Inr (issued1, []), r1, st')"
    by (auto simp: turn_ends_def split: prod.splits sum.splits if_splits)
  from fill [OF i(1) f] show ?thesis by (simp add: l(2))
qed

text \<open>
  C34: A measured run on the ring loses nothing. Take the reads of one iteration, run over the model
  of this crate from the runner's window down to the kernel, with the driver polled alongside, and
  let them succeed, whatever the kernel does, in whatever order operations complete and are
  polled, and however often the thread sleeps. If the pool's vectors had room for a block, then
  the pool holds the same allocations again, each once; as many completions were counted as
  operations asked for; the driver is running and sound; and no operation of the run is live in
  its slab.
\<close>

theorem ring_returns_every_buffer:
  assumes "driver_inv (bs_driver st)" "shutdown (bs_driver st) = Running" "bs_started st = []"
    and "\<forall>v \<in> set (bs_pool st). roomy block v" "polls_pending E"
    and "drive_while E (positional_reads_on (ring_plain E mode) h block n depth sh offset_of) st = Some (Inr oc, st')"
  shows "vec_allocations (bs_pool st') = vec_allocations (bs_pool st) \<and> tr_completions (oc_trace oc) = n \<and>
    driver_inv (bs_driver st') \<and> shutdown (bs_driver st') = Running \<and> bs_started st' = [] \<and>
    live_payloads (bs_driver st') \<subseteq>\<^sub>m live_payloads (bs_driver st)"
proof -
  let ?live = "live_payloads (bs_driver st)" and ?M = "vec_allocations (bs_pool st)"
  from assms(6) obtain st1 st2 where d: "drive_turn E (st\<lparr>bs_pc := PcIdle, bs_woken := False\<rparr>) = Some st1"
    and w: "positional_reads_on (ring_plain E mode) h block n depth sh offset_of st1 = Some (Inr oc, st2)"
    and q: "st' = (case drive_drop False (bs_pc st2) (bs_driver st2, bs_armed st2) of
        (pc, d, s) \<Rightarrow> st2\<lparr>bs_pc := pc, bs_driver := d, bs_armed := s\<rparr>)"
    unfolding drive_while_def by (auto split: option.splits prod.splits)
  let ?st = "st\<lparr>bs_pc := PcIdle, bs_woken := False\<rparr>"
  from d obtain pc ws d1 s1 where p: "drive_poll (en_platform E) (en_task E) PcIdle [] (bs_driver st) (bs_armed st) = Some (pc, ws, d1, s1)"
    "bs_driver st1 = d1" "bs_pc st1 = pc" "bs_started st1 = bs_started st" "bs_pool st1 = bs_pool st"
    by (auto simp: drive_turn_def split: option.splits if_splits)
  have c: "running_pc pc \<and> carries (bs_driver st) d1"
    by (rule drive_poll_carries [OF p(1) assms(1,2)]) (simp add: running_pc_def)
  have "sound ?live [] ?st"
    using assms(1-3) by (simp add: sound_def running_pc_def cells_of_def)
  then have "sound ?live [] st1" by (rule sound_carries) (use c p in simp_all)
  then have "run_ok ?live block ?M [] st1"
    using assms(4) p(5) by (simp add: run_ok_def block_reads_def vec_allocations_def)
  from reads_run_ok [OF w this assms(5)] have o: "sound ?live [] st2" "vec_allocations (bs_pool st2) = ?M"
    "tr_completions (oc_trace oc) = n" by (simp_all add: run_ok_def vec_allocations_def)
  note s = soundD [OF o(1)]
  obtain pc3 d3 s3 where dd: "drive_drop False (bs_pc st2) (bs_driver st2, bs_armed st2) = (pc3, d3, s3)"
    by (cases "drive_drop False (bs_pc st2) (bs_driver st2, bs_armed st2)")
  note k = keeps_drive_drop [OF s(1) dd]
  have st': "bs_driver st' = d3" "bs_pool st' = bs_pool st2" "bs_started st' = bs_started st2" using q dd by simp_all
  have "shutdown d3 = Running" using dd s(2)
    by (auto simp: drive_drop_def park_drop_def take_driver_waker_def split: if_splits)
  moreover have "live_payloads (bs_driver st2) \<subseteq>\<^sub>m ?live"
    using s(4,7) by (fastforce simp: map_le_def cells_of_def)
  ultimately show ?thesis using o s(4) k st' by (simp add: keeps_def retains_def)
qed

end
