(* ===== verification/Bench_Ring_Samples.thy ===== *)
theory Bench_Ring_Samples
  imports Driver_Samples Bench_Ring_Props
begin

text \<open>
  One read on the ring under the benchmarks, from the pool down to the kernel and back: the task
  asks, the driver submits and parks, the thread sleeps, the callback wakes it, and the vector
  returns to the pool with the bytes the device wrote.
\<close>

section \<open>The run\<close>

definition sample_env :: "cqe list ring_env" where
  "sample_env = \<lparr>en_platform = queue_platform, en_task = 9, en_schedule = \<lambda>pending st. [0..<length pending],
     en_sleep = \<lambda>k m. Some ([sample_cqe], m), en_realloc = \<lambda>n b. (4096, of_nat n),
     en_std_open = \<lambda>o' path. Inr 5, en_os_error = \<lambda>e. IoError OtherKind ''open'', en_show = \<lambda>e. ''error''\<rparr>"

definition sample_bench :: "cqe list bench_ring" where
  "sample_bench = \<lparr>bs_pool = [(sample_buf, [1, 2, 3, 4])], bs_driver = sample_driver, bs_armed = armed_state_new,
     bs_pc = PcIdle, bs_memory = (\<lambda>_. 7), bs_started = [], bs_woken = False, bs_next_file = 1\<rparr>"

text \<open>The driver idle, with the read started, accepted and answered.\<close>

definition idle_driver :: "cqe list driver" where
  "idle_driver = sample_driver\<lparr>driver_waker := Some 9\<rparr>"

definition polled_cells :: "cid \<Rightarrow> result_slot" where
  "polled_cells = (\<lambda>_. result_slot_new)(0 := result_slot_new\<lparr>rs_waker := Some 9\<rparr>)"

definition waiting_driver :: "cqe list driver" where
  "waiting_driver = accepted\<lparr>submissions := 1, submitted_entries := 1, pending_submit := False, nudged := False,
     driver_waker := Some 9, cells := polled_cells\<rparr>"

definition answered_driver :: "cqe list driver" where
  "answered_driver = waiting_driver\<lparr>slab := \<lparr>slots = [\<lparr>slot_generation = 2, slot_state = Vacant None\<rparr>], free_head = Some 0, occupied = 0\<rparr>,
     cells := (\<lambda>_. result_slot_new)(0 := result_slot_new\<lparr>rs_completed := Some (Inr 4, Some (AnyBuf sample_buf))\<rparr>)\<rparr>"

lemmas park_eval = park_poll_def park_drop_def take_nudge_def take_driver_waker_def poll_signalled_def release_waker_def

lemma drive_poll_go:
  "\<lbrakk>drive_resume P w pc (d, s) = Some (pc', ws', rs, d', s'); \<not> suspended pc'\<rbrakk> \<Longrightarrow>
     drive_poll P w pc ws d s = drive_poll P w pc' (ws @ ws') d' s'"
  by (subst drive_poll.simps) simp

lemma drive_poll_stop:
  "\<lbrakk>drive_resume P w pc (d, s) = Some (pc', ws', rs, d', s'); suspended pc'\<rbrakk> \<Longrightarrow>
     drive_poll P w pc ws d s = Some (pc', ws @ ws' @ (if yields pc' then [w] else []), d', s')"
  by (subst drive_poll.simps) simp

text \<open>The turn of a parked driver that has something to do: out of the park, one pass, back into it.\<close>

lemma parked_turn:
  assumes "drive_resume P w PcParked (d, s) = Some (PcPass, [], [], d1, s1)"
    and "drive_resume P w PcPass (d1, s1) = Some (PcPark, ws, rs, d2, s2)"
    and "drive_resume P w PcPark (d2, s2) = Some (PcParked, [], [], d3, s3)"
  shows "drive_poll P w PcParked [] d s = Some (PcParked, ws, d3, s3)"
  by (simp add: drive_poll_go [OF assms(1)] drive_poll_go [OF assms(2)] drive_poll_stop [OF assms(3)])

lemma idle_turn: "drive_poll queue_platform 9 PcIdle [] sample_driver armed_state_new =
    Some (PcParked, [], idle_driver, \<lparr>as_signalled = False, as_waker = Some 9\<rparr>)"
  by (subst drive_poll.simps, simp add: drive_resume_def)
    (subst drive_poll.simps, simp add: drive_resume_def sample_pass,
     subst drive_poll.simps, simp add: drive_resume_def park_eval armed_state_new_def idle_driver_def)

lemma idle_read: "try_read queue_platform 0 sample_buf 4 0 0 None idle_driver = Some (Inr (op_future_pending tok0 0), [9], Driver_Samples.reading)"
  by (simp add: start_eval idle_driver_def sample_driver_def sample_ring_def sample_file_def driver_initial_def sample_buf_def
      Driver_Samples.reading_def sample_slab_def sample_payload_def buffer_payload_def fun_eq_iff)

definition asked_driver :: "cqe list driver" where
  "asked_driver = Driver_Samples.reading\<lparr>cells := polled_cells\<rparr>"

definition vec_op :: "iobuf buf_op_state" where
  "vec_op = BufWaiting (op_future_pending tok0 0)"

lemma asked_poll: "read_future_poll 9 vec_op Driver_Samples.reading = Some (NotReady, vec_op, asked_driver)"
  by (simp add: vec_op_def read_future_poll_def poll_resolution_def op_future_pending_def Driver_Samples.reading_def
      result_slot_new_def asked_driver_def polled_cells_def)

lemma asked_fields: "nudged asked_driver = True" "driver_waker asked_driver = None" "kern asked_driver = []"
  by (simp_all add: asked_driver_def Driver_Samples.reading_def)

definition submitted_driver :: "cqe list driver" where
  "submitted_driver = waiting_driver\<lparr>driver_waker := None\<rparr>"

lemma submit_asked: "submit_pending queue_platform (asked_driver\<lparr>nudged := False\<rparr>) = submitted_driver"
  by (simp add: submit_pending_def asked_driver_def Driver_Samples.reading_def sample_driver_def driver_initial_def ring_submit_def sample_ring_def
      guarded_def ensure_open_def queue_platform_def cancel_abandoned_def issue_cancels_def accepted_def waiting_driver_def submitted_driver_def
      slab_promote_built_to_submitted_def promote_slot_def sample_slab_def slab_detached_submitted_uncancelled_def
      slab_tokens_where_def Let_def)

lemma submitted_fields: "ring submitted_driver = sample_ring" "kern submitted_driver = []" "nudged submitted_driver = False"
  "deferred_reports submitted_driver = []" "shutdown submitted_driver = Running" "pending_submit submitted_driver = False"
  by (simp_all add: submitted_driver_def waiting_driver_def accepted_def Driver_Samples.reading_def)

lemma asked_pass: "drive_pass queue_platform (asked_driver\<lparr>nudged := False\<rparr>) =
  Some (\<lparr>pr_shutting_down = False, pr_retry_owed = False, pr_wakers = [], pr_reports = []\<rparr>, submitted_driver)"
  by (simp add: drive_pass_def submit_asked sample_reap take_reports_def submitted_fields; simp add: submitted_driver_def waiting_driver_def accepted_def Driver_Samples.reading_def sample_driver_def driver_initial_def)

lemma asked_turn: "drive_poll queue_platform 9 PcParked [] asked_driver \<lparr>as_signalled = False, as_waker = Some 9\<rparr> =
    Some (PcParked, [], waiting_driver, \<lparr>as_signalled = False, as_waker = Some 9\<rparr>)"
proof -
  have e: "asked_driver\<lparr>nudged := False, driver_waker := None\<rparr> = asked_driver\<lparr>nudged := False\<rparr>"
    "submitted_driver\<lparr>nudged := False, driver_waker := Some 9\<rparr> = waiting_driver"
    by (simp_all add: asked_driver_def Driver_Samples.reading_def sample_driver_def driver_initial_def
        submitted_driver_def waiting_driver_def)
  show ?thesis
  proof (rule parked_turn)
    show "drive_resume queue_platform 9 PcParked (asked_driver, \<lparr>as_signalled = False, as_waker = Some 9\<rparr>)
        = Some (PcPass, [], [], asked_driver\<lparr>nudged := False\<rparr>, \<lparr>as_signalled = False, as_waker = None\<rparr>)"
      by (simp add: drive_resume_def park_eval asked_fields e)
    show "drive_resume queue_platform 9 PcPass (asked_driver\<lparr>nudged := False\<rparr>, \<lparr>as_signalled = False, as_waker = None\<rparr>)
        = Some (PcPark, [], [], submitted_driver, \<lparr>as_signalled = False, as_waker = None\<rparr>)"
      by (simp add: drive_resume_def asked_pass)
    show "drive_resume queue_platform 9 PcPark (submitted_driver, \<lparr>as_signalled = False, as_waker = None\<rparr>)
        = Some (PcParked, [], [], waiting_driver, \<lparr>as_signalled = False, as_waker = Some 9\<rparr>)"
      by (simp add: drive_resume_def park_eval submitted_fields e)
  qed
qed

text \<open>The callback has signalled, and the queue holds the completion.\<close>

definition woken_driver :: "cqe list driver" where
  "woken_driver = waiting_driver\<lparr>kern := [sample_cqe], driver_waker := None\<rparr>"

lemma woken_pass: "drive_pass queue_platform woken_driver =
  Some (\<lparr>pr_shutting_down = False, pr_retry_owed = False, pr_wakers = [9], pr_reports = []\<rparr>,
    answered_driver\<lparr>driver_waker := None\<rparr>)"
proof -
  let ?d = "answered_driver\<lparr>driver_waker := None\<rparr>"
  have f: "ring woken_driver = sample_ring" "kern woken_driver = [sample_cqe]" "pending_submit woken_driver = False"
    "ring ?d = sample_ring" "kern ?d = []"
    by (simp_all add: woken_driver_def waiting_driver_def accepted_def Driver_Samples.reading_def answered_driver_def)
  have pop: "pop_completion queue_platform sample_ring [sample_cqe] = (Inr (Some sample_cqe), [])"
    by (simp add: pop_completion_def ensure_open_def queue_platform_def)
  have r: "reap_one sample_cqe (woken_driver\<lparr>kern := []\<rparr>) = Some ([9], ?d)"
    by (simp add: reap_one_def sample_cqe_def from_user_data_def reap_operation_def slab_eval woken_driver_def waiting_driver_def accepted_def
        sample_slab_def answered_driver_def settle_registration_def raise_for_def refresh_for_def resolve_cell_def
        sample_payload_def buffer_payload_def file_payload_def polled_cells_def drop_payload_def drop_any_def drop_cell_half_def
        clear_sequential_def complete_result_def hresult_ok_def result_slot_new_def)
  have "reaps queue_platform woken_driver [sample_cqe] ([9] @ []) ?d"
    by (rule reaps_next [OF _ r sample_reaps]) (simp_all add: f pop)
  then have "reap_completions queue_platform woken_driver = Some ([9], ?d)" by (auto simp: reap_completions_reaps)
  then show ?thesis
    by (simp add: drive_pass_def submit_pending_def f take_reports_def)
      (simp add: answered_driver_def waiting_driver_def accepted_def Driver_Samples.reading_def sample_driver_def driver_initial_def)
qed

lemma woken_turn: "drive_poll queue_platform 9 PcParked [] (waiting_driver\<lparr>kern := [sample_cqe]\<rparr>) \<lparr>as_signalled = True, as_waker = None\<rparr> =
    Some (PcParked, [9], answered_driver, \<lparr>as_signalled = False, as_waker = Some 9\<rparr>)"
proof -
  have e: "waiting_driver\<lparr>kern := [sample_cqe], nudged := False, driver_waker := None\<rparr> = woken_driver"
    "waiting_driver\<lparr>kern := [sample_cqe], nudged := False, driver_waker := Some 9\<rparr> = waiting_driver\<lparr>kern := [sample_cqe]\<rparr>"
    "answered_driver\<lparr>driver_waker := None, nudged := False\<rparr> = answered_driver\<lparr>driver_waker := None\<rparr>"
    "answered_driver\<lparr>nudged := False, driver_waker := Some 9\<rparr> = answered_driver"
    and n: "nudged waiting_driver = False" "nudged answered_driver = False"
    by (simp_all add: woken_driver_def waiting_driver_def answered_driver_def)
  show ?thesis
  proof (rule parked_turn)
    show "drive_resume queue_platform 9 PcParked (waiting_driver\<lparr>kern := [sample_cqe]\<rparr>, \<lparr>as_signalled = True, as_waker = None\<rparr>)
        = Some (PcPass, [], [], woken_driver, \<lparr>as_signalled = False, as_waker = None\<rparr>)"
      by (simp add: drive_resume_def park_eval n woken_driver_def)
    show "drive_resume queue_platform 9 PcPass (woken_driver, \<lparr>as_signalled = False, as_waker = None\<rparr>)
        = Some (PcPark, [9], [], answered_driver\<lparr>driver_waker := None\<rparr>, \<lparr>as_signalled = False, as_waker = None\<rparr>)"
      by (simp add: drive_resume_def woken_pass)
    show "drive_resume queue_platform 9 PcPark (answered_driver\<lparr>driver_waker := None\<rparr>, \<lparr>as_signalled = False, as_waker = None\<rparr>)
        = Some (PcParked, [], [], answered_driver, \<lparr>as_signalled = False, as_waker = Some 9\<rparr>)"
      by (simp add: drive_resume_def park_eval n) (simp add: answered_driver_def waiting_driver_def)
  qed
qed

lemma answered_poll: "\<exists>r d'. read_future_poll 9 vec_op answered_driver =
    Some (Ready \<lparr>br_result = Inr 4, br_buffer = sample_buf\<rparr>, r, d')"
  by (simp add: vec_op_def read_future_poll_def poll_resolution_def op_future_pending_def answered_driver_def
      into_outcome_def buf_result_new_def set_buf_init_def sample_buf_def)

text \<open>The task, after each of its turns.\<close>

definition task_at :: "'k driver \<Rightarrow> started_op option list \<Rightarrow> bool \<Rightarrow> armed_state \<Rightarrow> 'k bench_ring" where
  "task_at d ops woken a = \<lparr>bs_pool = [], bs_driver = d, bs_armed = a, bs_pc = PcParked,
     bs_memory = write_bytes (\<lambda>_. 7) 4096 [1, 2, 3, 4], bs_started = ops, bs_woken = woken, bs_next_file = 1\<rparr>"

abbreviation parked_arm :: armed_state where "parked_arm \<equiv> \<lparr>as_signalled = False, as_waker = Some 9\<rparr>"

definition one_read :: vec_future where
  "one_read = ReadVec 0 (sample_buf, [1, 2, 3, 4]) 4 0"

lemmas await_eval = note_pending_def poll_nth_def begin_nth_def poll_vec_def task_at_def sample_env_def

lemma sample_await: "\<exists>st'. ring_await sample_env [one_read]
    (sample_bench\<lparr>bs_pool := [], bs_driver := idle_driver, bs_armed := parked_arm, bs_pc := PcParked\<rparr>) =
    Some (0, Inr 4, (sample_buf, [1, 2, 3, 4]), st') \<and> bs_pool st' = []"
proof -
  let ?st = "sample_bench\<lparr>bs_pool := [], bs_driver := idle_driver, bs_armed := parked_arm, bs_pc := PcParked\<rparr>"
  have sched: "en_schedule sample_env [one_read] st = [0]" for st by (simp add: sample_env_def)
  have p: "en_platform sample_env = queue_platform" "en_task sample_env = 9" by (simp_all add: sample_env_def)
  have bytes: "as_io_slice (write_bytes (\<lambda>_. 7) 4096 [1, 2, 3, 4]) sample_buf = [1, 2, 3, 4 :: u8]"
    by (simp add: as_io_slice_def write_bytes_def sample_buf_def buf_len_def buf_ptr_def upt_rec)
  have begin0: "poll_nth sample_env [one_read] 0 (note_pending [one_read] ?st) =
      Some (NotReady, task_at asked_driver [Some (StartedRead vec_op)] True parked_arm)"
    using idle_read asked_poll
    by (simp add: await_eval one_read_def start_vec_def file_read_at_def handle_read_def sample_bench_def SQE_NONE_def
        sample_buf_def vec_op_def)
  have again: "poll_nth sample_env [one_read] 0 (task_at waiting_driver [Some (StartedRead vec_op)] False parked_arm) =
      Some (NotReady, task_at waiting_driver [Some (StartedRead vec_op)] False parked_arm)"
    by (simp add: await_eval vec_op_def read_future_poll_def poll_resolution_def op_future_pending_def waiting_driver_def polled_cells_def
        result_slot_new_def)
  obtain r d' where r: "read_future_poll 9 vec_op answered_driver = Some (Ready \<lparr>br_result = Inr 4, br_buffer = sample_buf\<rparr>, r, d')"
    using answered_poll by blast
  have last: "\<exists>st'. poll_nth sample_env [one_read] 0 (task_at answered_driver [Some (StartedRead vec_op)] True parked_arm) =
      Some (Ready (Inr 4, (sample_buf, [1, 2, 3, 4])), st') \<and> bs_pool st' = []"
    using r by (simp add: await_eval vec_outcome_def into_parts_def bytes)
  have turn1: "task_turn sample_env (task_at asked_driver [Some (StartedRead vec_op)] True parked_arm) =
      Some (task_at waiting_driver [Some (StartedRead vec_op)] False parked_arm)"
    by (simp add: task_turn_def task_wait_def drive_turn_def p task_at_def asked_turn)
  have slept: "en_sleep sample_env k m = Some ([sample_cqe], m)" for k m by (simp add: sample_env_def)
  have called: "armed_callback parked_arm = (Some 9, \<lparr>as_signalled = True, as_waker = None\<rparr>)"
    by (simp add: armed_callback_def)
  have turn2: "task_turn sample_env (task_at waiting_driver [Some (StartedRead vec_op)] False parked_arm) =
      Some (task_at answered_driver [Some (StartedRead vec_op)] True parked_arm)"
    by (simp add: task_turn_def task_wait_def drive_turn_def p task_at_def slept called woken_turn)
  have note1: "note_pending [one_read] (task_at d [Some s] w a) = task_at d [Some s] w a" for d :: "cqe list driver" and s w a
    by (simp add: note_pending_def task_at_def)
  obtain st' where l: "poll_nth sample_env [one_read] 0 (task_at answered_driver [Some (StartedRead vec_op)] True parked_arm) =
      Some (Ready (Inr 4, (sample_buf, [1, 2, 3, 4])), st')" "bs_pool st' = []" using last by blast
  have "ring_await sample_env [one_read] (task_at answered_driver [Some (StartedRead vec_op)] True parked_arm) =
      Some (0, Inr 4, (sample_buf, [1, 2, 3, 4]), st')"
    by (subst ring_await.simps) (simp add: sched note1 l(1))
  moreover have "ring_await sample_env [one_read] (task_at waiting_driver [Some (StartedRead vec_op)] False parked_arm) =
      ring_await sample_env [one_read] (task_at answered_driver [Some (StartedRead vec_op)] True parked_arm)"
    by (subst ring_await.simps) (simp add: sched note1 again turn2)
  moreover have "ring_await sample_env [one_read] ?st =
      ring_await sample_env [one_read] (task_at waiting_driver [Some (StartedRead vec_op)] False parked_arm)"
    by (subst ring_await.simps) (simp add: sched begin0 turn1)
  ultimately show ?thesis using l(2) by simp
qed

abbreviation sample_ring_backend :: "(fid, vec, vec_future, cqe list bench_ring) bench_backend" where
  "sample_ring_backend \<equiv> ring_plain sample_env Overlapped"

definition ready_bench :: "cqe list bench_ring" where
  "ready_bench = sample_bench\<lparr>bs_driver := idle_driver, bs_armed := parked_arm, bs_pc := PcParked\<rparr>"

lemma sample_take: "buffer_pool_take (en_realloc sample_env) 4 [(sample_buf, [1, 2, 3, 4])] = (Inr (sample_buf, [1, 2, 3, 4]), [])"
  by (simp add: buffer_pool_take_def vec_resize_def vec_grow_def sample_buf_def)

lemma sample_loop:
  "\<exists>t' r' st'. run_loop (reading sample_ring_backend 0 4 (\<lambda>_. 0)) 1 PhaseRead 0 [] t (runner_new 1 Rolling) ready_bench =
    Some (Inr (), t', r', st') \<and> bs_pool st' = [(sample_buf, [1, 2, 3, 4])]"
proof -
  let ?B = "reading sample_ring_backend 0 4 (\<lambda>_. 0)"
  obtain st' where await: "ring_await sample_env [one_read] (ready_bench\<lparr>bs_pool := []\<rparr>) =
      Some (0, Inr 4, (sample_buf, [1, 2, 3, 4]), st')" "bs_pool st' = []"
    using sample_await by (auto simp: ready_bench_def sample_bench_def)
  have pool: "bs_pool ready_bench = [(sample_buf, [1, 2, 3, 4])]" by (simp add: ready_bench_def sample_bench_def)
  have op: "make_op ?B 0 ready_bench = (Inr (0, one_read), ready_bench\<lparr>bs_pool := []\<rparr>)"
    by (simp add: Bench_Scenario.reading_def ring_plain_def pool sample_take one_read_def)
  have refill: "refill ?B 1 0 [] (runner_new 1 Rolling) ready_bench =
      (Inr (1, [(0, one_read)]), runner_new 1 Rolling, ready_bench\<lparr>bs_pool := []\<rparr>)"
    by (subst refill.simps) (simp add: op runner_new_def, subst refill.simps, simp)
  have nx: "next_completion ?B [(0, one_read)] (ready_bench\<lparr>bs_pool := []\<rparr>) =
      Some (0, 0, Inr (4, sample_buf, [1, 2, 3, 4]), st')"
    by (simp add: Bench_Scenario.reading_def awaiting_def ring_plain_def await(1))
  have put: "bs_pool (put_buffer ?B (sample_buf, [1, 2, 3, 4]) st') = [(sample_buf, [1, 2, 3, 4])]"
    by (simp add: Bench_Scenario.reading_def ring_plain_def buffer_pool_put_def await(2))
  have last: "run_loop ?B (Suc 0) PhaseRead (Suc 0) [] t r st = Some (Inr (), t, r, st)" for t r st
    by (subst run_loop.simps) (simp add: refill.simps)
  show ?thesis
    by (subst run_loop.simps) (simp add: may_refill_def runner_new_def refill [unfolded runner_new_def, simplified] nx Let_def drop_nth_def last put)
qed

lemma sample_turn: "drive_turn sample_env (sample_bench\<lparr>bs_pc := PcIdle, bs_woken := False\<rparr>) = Some ready_bench"
proof -
  have p: "en_platform sample_env = queue_platform" "en_task sample_env = 9" by (simp_all add: sample_env_def)
  show ?thesis by (simp add: drive_turn_def p sample_bench_def idle_turn ready_bench_def)
qed

lemma sample_run:
  "\<exists>oc st'. drive_while sample_env (positional_reads_on sample_ring_backend 0 4 1 1 Rolling (\<lambda>_. 0)) sample_bench = Some (Inr oc, st')"
proof -
  obtain t' r' st' where "run_loop (reading sample_ring_backend 0 4 (\<lambda>_. 0)) 1 PhaseRead 0 []
      (issue_all 1 4 (\<lambda>_. 0) trace_new) (runner_new 1 Rolling) ready_bench = Some (Inr (), t', r', st')"
    using sample_loop by blast
  then have "positional_reads_on sample_ring_backend 0 4 1 1 Rolling (\<lambda>_. 0) ready_bench = Some (Inr (finish_outcome 1 t' r'), st')"
    by (simp add: positional_reads_on_def runner_run_def)
  then show ?thesis by (simp add: drive_while_def sample_turn split: prod.split)
qed

theorem ring_returns_every_buffer_witness:
  "\<exists>oc st'. drive_while sample_env (positional_reads_on (ring_plain sample_env Overlapped) 0 4 1 1 Rolling (\<lambda>_. 0)) sample_bench =
      Some (Inr oc, st') \<and> vec_allocations (bs_pool st') = {#(VecBuf, 4096, 8)#}"
proof -
  obtain oc st' where r: "drive_while sample_env (positional_reads_on sample_ring_backend 0 4 1 1 Rolling (\<lambda>_. 0)) sample_bench =
      Some (Inr oc, st')" using sample_run by blast
  have "polls_pending sample_env" by (simp add: polls_pending_def sample_env_def)
  moreover have "driver_inv (bs_driver sample_bench)" "shutdown (bs_driver sample_bench) = Running" "bs_started sample_bench = []"
    using sample_inv by (simp_all add: sample_bench_def sample_driver_def driver_initial_def)
  moreover have "\<forall>v \<in> set (bs_pool sample_bench). roomy 4 v" by (simp add: sample_bench_def roomy_def sample_buf_def)
  ultimately have "vec_allocations (bs_pool st') = vec_allocations (bs_pool sample_bench)"
    using ring_returns_every_buffer [OF _ _ _ _ _ r] by blast
  then show ?thesis using r by (simp add: sample_bench_def vec_allocations_def allocation_def sample_buf_def)
qed

end
