(* ===== verification/Bench_Registered.thy ===== *)
theory Bench_Registered
  imports Bench_Ring_Samples
begin

text \<open>
  The registered form of the benchmarks' ring backend (\<open>IoRingRegistered\<close> of
  \<open>backends/ioring.rs\<close>), on the model of the crate.

  A registration is established once; after that a stack of free indices says which of its buffers
  may be checked out. A transfer is awaited on its own here: the driver's turns between two polls of
  it are the ones of \<open>Bench_Ring\<close>. The backend's own handle keeps the driver's state alive.
\<close>

section \<open>The registration\<close>

record 'k registered_ring =
  rr_ring :: "'k bench_ring"
  rr_buffers :: "rid option"
  rr_free :: "u32 list"
  rr_registered_file :: bool

definition ring_registered_new :: "'k bench_ring \<Rightarrow> 'k registered_ring" where
  "ring_registered_new br = \<lparr>rr_ring = br, rr_buffers = None, rr_free = [], rr_registered_file = False\<rparr>"

definition after_call :: "'k ring_env \<Rightarrow> 'k driver \<Rightarrow> waker list \<Rightarrow> 'k bench_ring \<Rightarrow> 'k bench_ring" where
  "after_call E d ws st = st\<lparr>bs_driver := d, bs_woken := bs_woken st \<or> en_task E \<in> set ws\<rparr>"

partial_function (option) registration_await ::
    "'k ring_env \<Rightarrow> op_future \<Rightarrow> 'k bench_ring
      \<Rightarrow> ((runtime_error \<times> pending_registration option + rid option) \<times> 'k bench_ring) option" where
  "registration_await E f st =
     (case registration_poll (en_task E) f (bs_driver st) of
        (Ready r, f', d) \<Rightarrow> Some (r, st\<lparr>bs_driver := d\<rparr>)
      | (NotReady, f', d) \<Rightarrow>
          (case task_turn E (st\<lparr>bs_driver := d\<rparr>) of None \<Rightarrow> None | Some st1 \<Rightarrow> registration_await E f' st1))"

text \<open>The vectors are fresh and zeroed; their number is truncated to 32 bits where it is counted.\<close>

definition ring_register ::
    "'k ring_env \<Rightarrow> (nat \<Rightarrow> usize) \<Rightarrow> nat \<Rightarrow> nat \<Rightarrow> 'k registered_ring
      \<Rightarrow> ((io_error + unit) \<times> 'k registered_ring) option" where
  "ring_register E alloc n capacity st =
     (let vecs = buffer_pool_new alloc n capacity; br = rr_ring st;
          mem = fold (\<lambda>v m. write_bytes m (ib_addr (fst v)) (snd v)) vecs (bs_memory br)
      in case register_buffers (en_platform E) (map fst vecs) (bs_driver br) of
           None \<Rightarrow> None
         | Some (Inl (e, returned), ws, d) \<Rightarrow>
             Some (Inl (io_other (en_show E) e), st\<lparr>rr_ring := after_call E d ws (br\<lparr>bs_memory := mem\<rparr>)\<rparr>)
         | Some (Inr f, ws, d) \<Rightarrow>
             (case registration_await E f (after_call E d ws (br\<lparr>bs_memory := mem\<rparr>)) of
                None \<Rightarrow> None
              | Some (r, br1) \<Rightarrow>
                  (case finish_register_buffers r of
                     None \<Rightarrow> None
                   | Some (RegisteredOk c) \<Rightarrow>
                       Some (Inr (), st\<lparr>rr_ring := br1, rr_free := rev (map of_nat [0..<unat (of_nat n :: u32)]),
                                       rr_buffers := Some c\<rparr>)
                   | Some (RegisteredFailed e returned) \<Rightarrow>
                       Some (Inl (io_other (en_show E) e), st\<lparr>rr_ring := br1\<rparr>))))"

definition ring_register_file ::
    "'k ring_env \<Rightarrow> fid \<Rightarrow> 'k registered_ring \<Rightarrow> ((io_error + unit) \<times> 'k registered_ring) option" where
  "ring_register_file E file st =
     (case register_files (en_platform E) [file] (bs_driver (rr_ring st)) of
        None \<Rightarrow> None
      | Some (Inl e, ws, d) \<Rightarrow> Some (Inl (io_other (en_show E) e), st\<lparr>rr_ring := after_call E d ws (rr_ring st)\<rparr>)
      | Some (Inr f, ws, d) \<Rightarrow>
          (case registration_await E f (after_call E d ws (rr_ring st)) of
             None \<Rightarrow> None
           | Some (r, br1) \<Rightarrow>
               (case finish_register_files r of
                  Inl e \<Rightarrow> Some (Inl (io_other (en_show E) e), st\<lparr>rr_ring := br1\<rparr>)
                | Inr _ \<Rightarrow> Some (Inr (), st\<lparr>rr_ring := br1, rr_registered_file := True\<rparr>))))"

definition ring_target :: "'k registered_ring \<Rightarrow> fid \<Rightarrow> file_target" where
  "ring_target st file = (if rr_registered_file st then TargetRegistered 0 else TargetOwned file)"

section \<open>The stack of free indices\<close>

text \<open>The index is popped before anything can fail, and no failure puts it back.\<close>

definition ring_registered_take ::
    "(win_error \<Rightarrow> string) \<Rightarrow> nat \<Rightarrow> 'k registered_ring \<Rightarrow> ((io_error + reg_buf) \<times> 'k registered_ring) option" where
  "ring_registered_take sys capacity st =
     (if rr_free st = [] then Some (Inl (IoError WouldBlock ''the registration holds no free buffer''), st)
      else let index = last (rr_free st); st1 = st\<lparr>rr_free := butlast (rr_free st)\<rparr> in
        case rr_buffers st1 of
          None \<Rightarrow> Some (Inl (IoError OtherKind ''nothing registered''), st1)
        | Some me \<Rightarrow>
            (case check_out True me index (bs_driver (rr_ring st1)) of
               None \<Rightarrow> None
             | Some (r, d) \<Rightarrow> Some (map_sum (io_other sys) id r, st1\<lparr>rr_ring := (rr_ring st1)\<lparr>bs_driver := d\<rparr>\<rparr>)))"

definition ring_registered_put :: "reg_buf \<Rightarrow> 'k registered_ring \<Rightarrow> 'k registered_ring" where
  "ring_registered_put b st =
     (let br = rr_ring st
      in st\<lparr>rr_ring := br\<lparr>bs_driver := drop_reg_buf b (bs_driver br)\<rparr>, rr_free := rr_free st @ [rb_index b]\<rparr>)"

definition registered_bytes :: "'k registered_ring \<Rightarrow> reg_buf \<Rightarrow> u8 list" where
  "registered_bytes st b = reg_buf_deref (bs_memory (rr_ring st)) b"

text \<open>\<open>None\<close>: the registration behind the handle is gone, which the handle's reference excludes.\<close>

definition registered_fill ::
    "(win_error \<Rightarrow> string) \<Rightarrow> u8 list \<Rightarrow> reg_buf \<Rightarrow> 'k registered_ring
      \<Rightarrow> ((io_error + unit) \<times> reg_buf \<times> 'k registered_ring) option" where
  "registered_fill sys src b st =
     (let br = rr_ring st; d = bs_driver br in
      case regs d (rb_registry b) of
        None \<Rightarrow> None
      | Some r \<Rightarrow>
          (case reg_buf_fill src (b, r, bs_memory br) of
             (res, b', r', mem) \<Rightarrow>
               Some (map_sum (io_other sys) id res, b',
                 st\<lparr>rr_ring := br\<lparr>bs_driver := d\<lparr>regs := (regs d)(rb_registry b := Some r')\<rparr>, bs_memory := mem\<rparr>\<rparr>)))"

section \<open>The operations\<close>

partial_function (option) registered_await ::
    "'k ring_env \<Rightarrow> reg_buf buf_op_state \<Rightarrow> 'k bench_ring \<Rightarrow> ((io_error + u32) \<times> reg_buf \<times> 'k bench_ring) option" where
  "registered_await E f st =
     (case registered_future_poll (en_task E) f (bs_driver st) of
        None \<Rightarrow> None
      | Some (Ready out, f', d) \<Rightarrow>
          (case into_parts out of (r, b) \<Rightarrow> Some (map_sum (io_other (en_show E)) id r, b, st\<lparr>bs_driver := d\<rparr>))
      | Some (NotReady, f', d) \<Rightarrow>
          (case task_turn E (st\<lparr>bs_driver := d\<rparr>) of None \<Rightarrow> None | Some st1 \<Rightarrow> registered_await E f' st1))"

definition registered_transfer ::
    "'k ring_env \<Rightarrow> bool \<Rightarrow> fid \<Rightarrow> reg_buf \<Rightarrow> u32 \<Rightarrow> u64 \<Rightarrow> 'k registered_ring
      \<Rightarrow> ((io_error + u32) \<times> reg_buf \<times> 'k registered_ring) option" where
  "registered_transfer E is_write file b len offset st =
     (case registered_op (en_platform E) (ring_target st file) b 0 len offset is_write (bs_driver (rr_ring st)) of
        None \<Rightarrow> None
      | Some (f, ws, d) \<Rightarrow>
          (case registered_await E f (after_call E d ws (rr_ring st)) of
             None \<Rightarrow> None
           | Some (r, b', br) \<Rightarrow> Some (r, b', st\<lparr>rr_ring := br\<rparr>)))"

definition ring_registered_read_at ::
    "'k ring_env \<Rightarrow> fid \<Rightarrow> reg_buf \<Rightarrow> u32 \<Rightarrow> u64 \<Rightarrow> 'k registered_ring
      \<Rightarrow> ((io_error + u32) \<times> reg_buf \<times> 'k registered_ring) option" where
  "ring_registered_read_at E = registered_transfer E False"

definition ring_registered_write_at ::
    "'k ring_env \<Rightarrow> fid \<Rightarrow> reg_buf \<Rightarrow> u32 \<Rightarrow> u64 \<Rightarrow> 'k registered_ring
      \<Rightarrow> ((io_error + u32) \<times> reg_buf \<times> 'k registered_ring) option" where
  "ring_registered_write_at E = registered_transfer E True"

definition ring_registered_configuration :: "handle_mode \<Rightarrow> string" where
  "ring_registered_configuration mode =
     ''single-threaded driver; registered buffers and file handle; '' @
     ''registration-naming operations; '' @ mode_suffix mode"

section \<open>The stack is kept\<close>

lemma unchecked_idem: "\<not> rs_checked_out s \<Longrightarrow> s\<lparr>rs_checked_out := False\<rparr> = s"
  by (cases s) simp

lemma regs_idem: "regs d me = Some r \<Longrightarrow> d\<lparr>regs := (regs d)(me := Some r)\<rparr> = d"
  by (simp add: fun_upd_idem)

lemma release_claimed:
  "registry_claim me i r = Some (Inr b, r') \<Longrightarrow> registry_release (rb_index b) r' = r \<and> rb_registry b = me \<and> rb_index b = i"
  by (cases r) (auto simp: registry_claim_def registry_release_def list_get_def Let_def unchecked_idem
      split: option.splits if_splits)

lemma check_out_back:
  assumes "check_out alive me i d = Some (Inr b, d')"
  shows "drop_reg_buf b d' = d \<and> rb_index b = i"
proof -
  from assms obtain r r' where r: "regs d me = Some r" "registry_claim me i r = Some (Inr b, r')"
    and d': "d' = d\<lparr>regs := (regs d)(me := Some r')\<rparr>"
    by (auto simp: check_out_def split: option.splits if_splits)
  have undone: "registry_release (rb_index b) r' = r" "rb_registry b = me" "rb_index b = i"
    using release_claimed [OF r(2)] by blast+
  have "drop_reg_buf b d' = d\<lparr>regs := (regs d)(me := Some r)\<rparr>"
    using undone(1,2) by (simp add: d' drop_reg_buf_def reg_buf_drop_def)
  then show ?thesis using undone(3) by (simp add: regs_idem [OF r(1)])
qed

text \<open>
  A failed check-out loses its index: while a registration is in flight every take takes one from
  the stack, and none of them is in anybody's hands.
\<close>

lemma failed_take_loses_index:
  assumes "rr_free st \<noteq> []" "rr_buffers st = Some me"
    and "shutdown (bs_driver (rr_ring st)) = Running" "\<not> torn_down (bs_driver (rr_ring st))"
    and "registration_in_flight (bs_driver (rr_ring st))"
  shows "ring_registered_take sys capacity st =
    Some (Inl (io_other sys RtRegistrationPending), st\<lparr>rr_free := butlast (rr_free st)\<rparr>)"
  using assms by (simp add: ring_registered_take_def check_out_def Let_def)

text \<open>
  Putting a registered buffer back undoes taking it: after a check-out and the matching
  put, the stack of free indices, the driver and the registration are the ones from before.
\<close>

lemma registered_put_undoes_take:
  assumes "ring_registered_take sys capacity st = Some (Inr b, st')"
  shows "ring_registered_put b st' = st \<and> rr_free st = rr_free st' @ [rb_index b]"
proof -
  from assms obtain me d where ne: "rr_free st \<noteq> []"
    and c: "check_out True me (last (rr_free st)) (bs_driver (rr_ring st)) = Some (Inr b, d)"
    and st': "st' = st\<lparr>rr_free := butlast (rr_free st), rr_ring := (rr_ring st)\<lparr>bs_driver := d\<rparr>\<rparr>"
    by (auto simp: ring_registered_take_def Let_def map_sum_def split: if_splits option.splits sum.splits)
  from check_out_back [OF c] st' ne show ?thesis by (simp add: ring_registered_put_def)
qed

end
