(* ===== verification/Bench_Session.thy ===== *)
theory Bench_Session
  imports Bench_Registered
begin

text \<open>
  Preparing a session of a ring backend and ending it (\<open>prepare\<close> and \<open>Prepared::finish\<close> of
  \<open>session.rs\<close>), and what the benchmark's task is for the driver: a run of the driver's world.
\<close>

section \<open>Preparing a session and ending it\<close>

definition start_driver ::
    "'k ring_env \<Rightarrow> (build_error \<Rightarrow> string) \<Rightarrow> nat \<Rightarrow> win_error + handle \<Rightarrow> (fid \<Rightarrow> file_state)
      \<Rightarrow> vec list \<Rightarrow> memory \<Rightarrow> 'k \<Rightarrow> ((io_error + 'k bench_ring) \<times> 'k) option" where
  "start_driver E show_build depth armed fs pool mem k =
     (case ring_driver_new (en_platform E) show_build (en_show E) depth armed fs k of
        None \<Rightarrow> None
      | Some (Inl e, k1) \<Rightarrow> Some (Inl e, k1)
      | Some (Inr d, k1) \<Rightarrow>
          Some (Inr \<lparr>bs_pool = pool, bs_driver = d, bs_armed = armed_state_new, bs_pc = PcIdle, bs_memory = mem,
                     bs_started = [], bs_woken = False, bs_next_file = 0\<rparr>, k1))"

text \<open>The end: an immediate shutdown, \<open>drive\<close> to its end, and the drop of the driver.\<close>

partial_function (option) drive_out :: "'k ring_env \<Rightarrow> 'k bench_ring \<Rightarrow> 'k bench_ring option" where
  "drive_out E st =
     (case drive_poll (en_platform E) (en_task E) (bs_pc st) [] (bs_driver st) (bs_armed st) of
        None \<Rightarrow> None
      | Some (pc, ws, d, s) \<Rightarrow>
          (let st1 = st\<lparr>bs_pc := pc, bs_driver := d, bs_armed := s, bs_woken := en_task E \<in> set ws\<rparr> in
           if pc = PcDone then Some st1
           else case task_wait E st1 of None \<Rightarrow> None | Some st2 \<Rightarrow> drive_out E st2))"

definition shut_down :: "'k ring_env \<Rightarrow> 'k bench_ring \<Rightarrow> 'k bench_ring option" where
  "shut_down E st =
     (case handle_shutdown_now (bs_driver st) of
        (ws, d) \<Rightarrow>
          (case drive_out E (st\<lparr>bs_driver := d, bs_pc := PcIdle, bs_woken := False\<rparr>) of
             None \<Rightarrow> None
           | Some st1 \<Rightarrow>
               (case driver_drop (en_platform E) (bs_driver st1) of
                  None \<Rightarrow> None
                | Some (ws1, reports, d1) \<Rightarrow> Some (st1\<lparr>bs_driver := d1\<rparr>))))"

text \<open>
  \<open>prepare\<close> for the ring backends: the plain one is its pool; the registered one is driven
  through its registration, and shut down again if that fails.
\<close>

definition prepare_plain ::
    "'k ring_env \<Rightarrow> (build_error \<Rightarrow> string) \<Rightarrow> win_error + handle \<Rightarrow> (fid \<Rightarrow> file_state) \<Rightarrow> (nat \<Rightarrow> usize)
      \<Rightarrow> nat \<Rightarrow> u32 \<Rightarrow> memory \<Rightarrow> 'k \<Rightarrow> (io_error + 'k bench_ring) option" where
  "prepare_plain E show_build armed fs alloc depth block mem k =
     map_option fst (start_driver E show_build depth armed fs (buffer_pool_new alloc (max depth 1) (unat block)) mem k)"

definition prepare_registered ::
    "'k ring_env \<Rightarrow> (build_error \<Rightarrow> string) \<Rightarrow> win_error + handle \<Rightarrow> (fid \<Rightarrow> file_state) \<Rightarrow> (nat \<Rightarrow> usize)
      \<Rightarrow> nat \<Rightarrow> nat \<Rightarrow> u32 \<Rightarrow> memory \<Rightarrow> 'k \<Rightarrow> (io_error + 'k registered_ring) option" where
  "prepare_registered E show_build armed fs alloc depth buffers block mem k =
     (case start_driver E show_build depth armed fs [] mem k of
        None \<Rightarrow> None
      | Some (Inl e, k1) \<Rightarrow> Some (Inl e)
      | Some (Inr br, k1) \<Rightarrow>
          (case drive_while E (\<lambda>br. map_option (\<lambda>(r, st). ((r, st), rr_ring st))
                   (ring_register E alloc buffers (unat block) (ring_registered_new br))) br of
             None \<Rightarrow> None
           | Some ((Inr _, st), br1) \<Rightarrow> Some (Inr (st\<lparr>rr_ring := br1\<rparr>))
           | Some ((Inl e, st), br1) \<Rightarrow>
               (case shut_down E br1 of None \<Rightarrow> None | Some br2 \<Rightarrow> Some (Inl e))))"

section \<open>Runs of the benchmark are runs of the driver's world\<close>

text \<open>
  The driver as its own model sees it: polling \<open>drive\<close>, the thread asleep and the callback
  that wakes it are steps of \<open>World\<close>, so what holds of every reachable world holds here.
\<close>

definition world_at :: "waker \<Rightarrow> bool \<Rightarrow> 'k bench_ring \<Rightarrow> 'k world" where
  "world_at t woken st =
     \<lparr>w_driver = bs_driver st, w_armed = bs_armed st, w_pc = bs_pc st, w_task = t, w_woken = woken\<rparr>"

lemma reap_logged: "reap_completions P d = Some out \<Longrightarrow> \<exists>cs ws d'. reaps P d cs ws d'"
  by (cases out) (auto simp: reap_completions_reaps)

lemma resume_logged:
  assumes "driver_inv d" "drive_resume P t pc (d, s) = Some out" shows "\<exists>cs. resume_log P pc d cs"
  using assms(2)
  by (cases pc) (auto simp: drive_resume_def resume_log_def drive_pass_def teardown_step_def
      drain_step_eq [OF assms(1)] dest!: reap_logged split: option.splits if_splits prod.splits)

lemma drive_poll_world:
  fixes P :: "'k platform"
  assumes "drive_poll P t pc ws d s = Some (pc', ws', d', s')"
    and "world_inv \<lparr>w_driver = d, w_armed = s, w_pc = pc, w_task = t, w_woken = woken\<rparr>"
  shows "\<exists>cs woken'. world_run P \<lparr>w_driver = d, w_armed = s, w_pc = pc, w_task = t, w_woken = woken\<rparr> cs
    \<lparr>w_driver = d', w_armed = s', w_pc = pc', w_task = t, w_woken = woken'\<rparr>"
proof -
  define Q where "Q = (\<lambda>(P :: 'k platform) t pc (ws :: waker list) d s (out :: drive_pc \<times> waker list \<times> 'k driver \<times> armed_state).
    \<forall>woken. world_inv \<lparr>w_driver = d, w_armed = s, w_pc = pc, w_task = t, w_woken = woken\<rparr> \<longrightarrow>
      (\<exists>cs woken'. world_run P \<lparr>w_driver = d, w_armed = s, w_pc = pc, w_task = t, w_woken = woken\<rparr> cs
      \<lparr>w_driver = fst (snd (snd out)), w_armed = snd (snd (snd out)), w_pc = fst out, w_task = t, w_woken = woken'\<rparr>))"
  have "Q P t pc ws d s (pc', ws', d', s')"
  proof (rule drive_poll.raw_induct [where Pa = "\<lambda>(((((P, w), pc), ws), d), s). Q P w pc ws d s", OF _ assms(1), unfolded prod.case])
    fix rec :: "'k platform \<Rightarrow> waker \<Rightarrow> drive_pc \<Rightarrow> waker list \<Rightarrow> 'k driver \<Rightarrow> armed_state
      \<Rightarrow> (drive_pc \<times> waker list \<times> 'k driver \<times> armed_state) option"
      and P w pc ws d s out
    assume ih: "\<And>P w pc ws d s out. rec P w pc ws d s = Some out \<Longrightarrow> Q P w pc ws d s out"
      and step: "(case drive_resume P w pc (d, s) of
        None \<Rightarrow> None
      | Some (pc', ws', reports, d', s') \<Rightarrow>
          (if suspended pc' then Some (pc', ws @ ws' @ (if yields pc' then [w] else []), d', s')
           else rec P w pc' (ws @ ws') d' s')) = Some out"
    from step obtain pc1 ws1 rs d1 s1 where r: "drive_resume P w pc (d, s) = Some (pc1, ws1, rs, d1, s1)"
      by (cases "drive_resume P w pc (d, s)") auto
    show "Q P w pc ws d s out"
      unfolding Q_def
    proof (intro allI impI)
      fix woken
      let ?w = "\<lparr>w_driver = d, w_armed = s, w_pc = pc, w_task = w, w_woken = woken\<rparr>"
        and ?w1 = "\<lparr>w_driver = d1, w_armed = s1, w_pc = pc1, w_task = w, w_woken = (w \<in> set ws1)\<rparr>"
      assume i: "world_inv ?w"
      then obtain cs where l: "resume_log P pc d cs" using resume_logged [OF _ r] by (auto simp: world_inv_def)
      have one: "world_step P ?w cs ?w1" using ws_resume [of P w ?w] r l by simp
      show "\<exists>cs woken'. world_run P ?w cs
          \<lparr>w_driver = fst (snd (snd out)), w_armed = snd (snd (snd out)), w_pc = fst out, w_task = w, w_woken = woken'\<rparr>"
      proof (cases "suspended pc1")
        case True
        with step r have "out = (pc1, ws @ ws1 @ (if yields pc1 then [w] else []), d1, s1)" by simp
        then show ?thesis using run_step [OF one run_refl] by force
      next
        case False
        with step r have "rec P w pc1 (ws @ ws1) d1 s1 = Some out" by simp
        from ih [OF this] world_step_inv [OF one i] run_step [OF one] show ?thesis unfolding Q_def by meson
      qed
    qed
  qed
  with assms(2) show ?thesis by (simp add: Q_def)
qed

lemma task_wait_world:
  assumes "task_wait E st = Some st'"
  shows "\<exists>woken'. world_run P (world_at t woken st) [] (world_at t woken' st')"
proof (cases "bs_woken st")
  case True
  with assms run_refl show ?thesis by (auto simp: task_wait_def)
next
  case False
  with assms obtain k m w s where k: "armed_callback (bs_armed st) = (w, s)"
    "st' = st\<lparr>bs_driver := (bs_driver st)\<lparr>kern := k\<rparr>, bs_memory := m, bs_armed := s\<rparr>"
    by (auto simp: task_wait_def split: option.splits prod.splits if_splits)
  let ?w1 = "world_at t woken (st\<lparr>bs_driver := (bs_driver st)\<lparr>kern := k\<rparr>\<rparr>)"
  have "world_step P (world_at t woken st) [] ?w1"
    using ws_client [OF cs_kernel, of P "world_at t woken st" k] by (simp add: world_at_def)
  moreover have "world_step P ?w1 [] (world_at t (woken \<or> w = Some t) st')"
    using ws_signal [of ?w1 w s P] k by (simp add: world_at_def)
  ultimately show ?thesis using run_step [OF _ run_step [OF _ run_refl]] by force
qed

lemma drive_out_world:
  fixes E :: "'k ring_env"
  assumes "drive_out E st = Some st'" "world_inv (world_at (en_task E) woken st)"
  shows "(\<exists>cs woken'. world_run (en_platform E) (world_at (en_task E) woken st) cs (world_at (en_task E) woken' st')) \<and>
    bs_pc st' = PcDone"
proof -
  define Q where "Q = (\<lambda>(E :: 'k ring_env) (st :: 'k bench_ring) st'.
    (\<forall>woken. world_inv (world_at (en_task E) woken st) \<longrightarrow>
      (\<exists>cs woken'. world_run (en_platform E) (world_at (en_task E) woken st) cs (world_at (en_task E) woken' st'))) \<and>
    bs_pc st' = PcDone)"
  have "Q E st st'"
  proof (rule drive_out.raw_induct [where P = Q, OF _ assms(1)])
    fix rec :: "'k ring_env \<Rightarrow> 'k bench_ring \<Rightarrow> 'k bench_ring option" and E st st'
    assume ih: "\<And>E st st'. rec E st = Some st' \<Longrightarrow> Q E st st'"
      and step: "(case drive_poll (en_platform E) (en_task E) (bs_pc st) [] (bs_driver st) (bs_armed st) of
        None \<Rightarrow> None
      | Some (pc, ws, d, s) \<Rightarrow>
          (let st1 = st\<lparr>bs_pc := pc, bs_driver := d, bs_armed := s, bs_woken := en_task E \<in> set ws\<rparr> in
           if pc = PcDone then Some st1
           else case task_wait E st1 of None \<Rightarrow> None | Some st2 \<Rightarrow> rec E st2)) = Some st'"
    let ?P = "en_platform E" and ?t = "en_task E"
    from step obtain pc ws d s where p: "drive_poll ?P ?t (bs_pc st) [] (bs_driver st) (bs_armed st) = Some (pc, ws, d, s)"
      by (auto split: option.splits)
    define st1 where "st1 = st\<lparr>bs_pc := pc, bs_driver := d, bs_armed := s, bs_woken := ?t \<in> set ws\<rparr>"
    have poll: "\<exists>cs woken'. world_run ?P (world_at ?t woken st) cs (world_at ?t woken' st1)"
      if "world_inv (world_at ?t woken st)" for woken
      using drive_poll_world [OF p] that by (simp add: world_at_def st1_def)
    show "Q E st st'"
    proof (cases "pc = PcDone")
      case True
      with step p have "st' = st1" by (simp add: st1_def)
      with True poll show ?thesis by (simp add: Q_def st1_def)
    next
      case False
      with step p obtain st2 where w: "task_wait E st1 = Some st2" "rec E st2 = Some st'"
        by (auto simp: st1_def Let_def split: option.splits)
      note rest = ih [OF w(2), unfolded Q_def]
      have "\<exists>cs woken'. world_run ?P (world_at ?t woken st) cs (world_at ?t woken' st')"
        if i: "world_inv (world_at ?t woken st)" for woken
      proof -
        from poll [OF i] task_wait_world [OF w(1), of ?P ?t] obtain cs b
          where run: "world_run ?P (world_at ?t woken st) cs (world_at ?t b st2)" by (meson world_run_trans)
        from world_run_inv [OF run i] rest obtain cs' b'
          where "world_run ?P (world_at ?t b st2) cs' (world_at ?t b' st')" by blast
        with run show ?thesis by (meson world_run_trans)
      qed
      with rest show ?thesis by (simp add: Q_def)
    qed
  qed
  with assms(2) show ?thesis by (simp add: Q_def)
qed

text \<open>
  C35: A session ends clean. Finishing one, from whatever state its driver is in, if it returns
  at all, asks for an immediate shutdown and drives \<open>drive\<close> to its end. In the state
  \<open>drive\<close> ended in, before the driver is dropped, the ring is already closed, no operation is
  live, and the drop finds nothing to do: it wakes nobody, reports nothing and leaves the driver
  as it is, so this is the state the session ends in. Every step on the way, from the request to
  shut down to the last one of \<open>drive\<close>, is a step of the driver's world.
\<close>

theorem session_ends_clean:
  assumes "driver_inv (bs_driver st)" "shut_down E st = Some st'"
  shows "\<exists>st1. drive_out E (st\<lparr>bs_driver := snd (handle_shutdown_now (bs_driver st)), bs_pc := PcIdle,
        bs_woken := False\<rparr>) = Some st1 \<and>
    bs_pc st1 = PcDone \<and> torn_down (bs_driver st1) \<and> ring_closed (ring (bs_driver st1)) \<and>
    live_payloads (bs_driver st1) = Map.empty \<and>
    (\<exists>cs woken. world_run (en_platform E) (world_at (en_task E) False (st\<lparr>bs_pc := PcIdle\<rparr>)) cs
       (world_at (en_task E) woken st1)) \<and>
    driver_drop (en_platform E) (bs_driver st1) = Some ([], [], bs_driver st1) \<and> st' = st1"
proof -
  let ?P = "en_platform E" and ?t = "en_task E" and ?d = "snd (handle_shutdown_now (bs_driver st))"
  let ?idle = "st\<lparr>bs_pc := PcIdle\<rparr>" and ?asked = "st\<lparr>bs_driver := ?d, bs_pc := PcIdle, bs_woken := False\<rparr>"
  from assms(2) obtain st2 ws reports d where o: "drive_out E ?asked = Some st2"
    and drop: "driver_drop ?P (bs_driver st2) = Some (ws, reports, d)" "st' = st2\<lparr>bs_driver := d\<rparr>"
    by (cases "handle_shutdown_now (bs_driver st)") (auto simp: shut_down_def split: option.splits)
  obtain b where asked: "world_run ?P (world_at ?t False ?idle) ([] @ []) (world_at ?t b ?asked)"
    using run_step [OF ws_client [OF cs_shutdown_now, of ?P "world_at ?t False ?idle"] run_refl]
    by (simp add: world_at_def)
  have i0: "world_inv (world_at ?t False ?idle)" using assms(1) by (simp add: world_inv_def world_at_def pc_ok_def)
  from drive_out_world [OF o world_run_inv [OF asked i0]] obtain cs b'
    where out: "world_run ?P (world_at ?t b ?asked) cs (world_at ?t b' st2)" and pc: "bs_pc st2 = PcDone" by blast
  note run = world_run_trans [OF asked out]
  from world_run_inv [OF run i0] pc have i: "driver_inv (bs_driver st2)" "torn_down (bs_driver st2)"
    by (simp_all add: world_inv_def world_at_def pc_ok_def)
  then have idle: "driver_drop ?P (bs_driver st2) = Some ([], [], bs_driver st2)" by (simp add: driver_drop_def)
  with drop have "st' = st2" by simp
  moreover have "ring_closed (ring (bs_driver st2))" "live_payloads (bs_driver st2) = Map.empty"
    using i driver_invD(9,10) [OF i(1)] by simp_all
  moreover have "\<exists>cs woken. world_run ?P (world_at ?t False ?idle) cs (world_at ?t woken st2)" using run by metis
  ultimately show ?thesis using o pc i(2) idle by blast
qed

text \<open>The session of one driver, its shutdown already asked for.\<close>

definition closing_bench :: "cqe list bench_ring" where
  "closing_bench = sample_bench\<lparr>bs_driver := sample_driver\<lparr>shutdown := Immediate\<rparr>\<rparr>"

lemma closing_pass: "drive_pass queue_platform (sample_driver\<lparr>shutdown := Immediate\<rparr>) =
  Some (\<lparr>pr_shutting_down = True, pr_retry_owed = False, pr_wakers = [], pr_reports = []\<rparr>, sample_driver\<lparr>shutdown := Immediate\<rparr>)"
proof -
  have "(sample_driver\<lparr>shutdown := Immediate\<rparr>)\<lparr>deferred_reports := []\<rparr> = sample_driver\<lparr>shutdown := Immediate\<rparr>"
    by (simp add: sample_driver_def driver_initial_def)
  then show ?thesis by (simp add: drive_pass_def submit_pending_def sample_reap take_reports_def)
qed

lemma closing_poll: "\<exists>d'. drive_poll queue_platform 9 PcIdle [] (sample_driver\<lparr>shutdown := Immediate\<rparr>) s = Some (PcDone, [], d', s)"
proof -
  let ?d = "sample_driver\<lparr>shutdown := Immediate\<rparr>"
  obtain d' where f: "teardown_finish queue_platform ?d = Some ([], [], d')" using dropped_finish ..
  have 1: "drive_resume queue_platform 9 PcIdle (?d, s) = Some (PcPass, [], [], ?d, s)"
    and 2: "drive_resume queue_platform 9 PcPass (?d, s) = Some (PcDrain 0, [], [], ?d, s)"
    and 3: "drive_resume queue_platform 9 (PcDrain 0) (?d, s) = Some (PcClose, [], [], ?d, s)"
    and 4: "drive_resume queue_platform 9 PcClose (?d, s) = Some (PcDone, [], [], d', s)"
    by (simp_all add: drive_resume_def closing_pass dropped_drain f)
  show ?thesis
    by (simp add: drive_poll_go [OF 1] drive_poll_go [OF 2] drive_poll_go [OF 3] drive_poll_stop [OF 4])
qed

theorem session_ends_clean_witness:
  "\<exists>st'. shut_down sample_env closing_bench = Some st' \<and> ring_closed (ring (bs_driver st')) \<and> torn_down (bs_driver st')"
proof -
  let ?d = "sample_driver\<lparr>shutdown := Immediate\<rparr>"
  have p: "en_platform sample_env = queue_platform" "en_task sample_env = 9" by (simp_all add: sample_env_def)
  have i: "driver_inv ?d" using keeps_inv [OF keeps_drop_mode [OF sample_inv]] by (simp add: max_def)
  obtain d' where "drive_poll queue_platform 9 PcIdle [] ?d armed_state_new = Some (PcDone, [], d', armed_state_new)"
    using closing_poll by blast
  then have "\<exists>st1. drive_out sample_env (closing_bench\<lparr>bs_pc := PcIdle, bs_woken := False\<rparr>) = Some st1"
    by (subst drive_out.simps) (simp add: p closing_bench_def sample_bench_def)
  then obtain st1 where o: "drive_out sample_env (closing_bench\<lparr>bs_pc := PcIdle, bs_woken := False\<rparr>) = Some st1" ..
  have "\<exists>st'. shut_down sample_env closing_bench = Some st'"
  proof -
    have e: "handle_shutdown_now (bs_driver closing_bench) = ([], bs_driver closing_bench)"
      by (simp add: handle_shutdown_now_def escalate_def closing_bench_def)
    from drive_out_world [OF o, of False] i obtain cs b where
      r: "world_run queue_platform (world_at 9 False (closing_bench\<lparr>bs_pc := PcIdle, bs_woken := False\<rparr>)) cs (world_at 9 b st1)"
      "bs_pc st1 = PcDone"
      by (auto simp: p world_inv_def world_at_def pc_ok_def closing_bench_def)
    have "world_inv (world_at 9 False (closing_bench\<lparr>bs_pc := PcIdle, bs_woken := False\<rparr>))"
      using i by (simp add: world_inv_def world_at_def pc_ok_def closing_bench_def)
    from world_run_inv [OF r(1) this] r(2) have "torn_down (bs_driver st1)"
      by (simp add: world_inv_def world_at_def pc_ok_def)
    then show ?thesis using o e by (simp add: shut_down_def driver_drop_def p)
  qed
  then obtain st' where s: "shut_down sample_env closing_bench = Some st'" ..
  moreover have "driver_inv (bs_driver closing_bench)" using i by (simp add: closing_bench_def)
  ultimately show ?thesis using session_ends_clean [OF _ s] by blast
qed

end
