(* ===== verification/Bench_Adapters.thy ===== *)
theory Bench_Adapters
  imports Bench_Ring
begin

text \<open>
  The backends the ring is compared with: positional calls on a pool of blocking threads
  (\<open>backends/tokio_fs.rs\<close>) and on completion ports (\<open>backends/compio.rs\<close>).

  What a call of the operating system delivers is an argument: \<open>reads offset n\<close> is what a read of
  at most \<open>n\<close> bytes gives. The runtimes are not modelled; a task of the blocking pool may be lost,
  which is an argument too.
\<close>

section \<open>The thread pool\<close>

definition vec_none :: vec where
  "vec_none = (\<lparr>ib_kind = VecBuf, ib_addr = 1, ib_len = 0, ib_cap = 0\<rparr>, [])"

definition vec_bytes :: "u8 list \<Rightarrow> vec \<Rightarrow> vec" where
  "vec_bytes bs v = ((fst v)\<lparr>ib_len := of_nat (length bs)\<rparr>, bs)"

text \<open>The bytes a call delivered, over the beginning of what the vector held.\<close>

definition overlay :: "u8 list \<Rightarrow> u8 list \<Rightarrow> u8 list" where
  "overlay delivered bs = delivered @ drop (length delivered) bs"

definition pool_read_at ::
    "(nat \<Rightarrow> iobuf \<Rightarrow> usize \<times> usize) \<Rightarrow> io_error option \<Rightarrow> (u64 \<Rightarrow> nat \<Rightarrow> io_error + u8 list)
      \<Rightarrow> vec \<Rightarrow> u32 \<Rightarrow> u64 \<Rightarrow> (io_error + u32) \<times> vec" where
  "pool_read_at realloc lost reads v len offset =
     (let v1 = (if length (snd v) < unat len then vec_resize realloc (unat len) v else v) in
      case lost of
        Some e \<Rightarrow> (Inl e, vec_none)
      | None \<Rightarrow>
          (case reads offset (unat len) of
             Inl e \<Rightarrow> (Inl e, v1)
           | Inr delivered \<Rightarrow>
               (Inr (of_nat (length delivered)),
                vec_bytes (take (length delivered) (overlay delivered (snd v1))) v1)))"

definition pool_write_at ::
    "io_error option \<Rightarrow> (u64 \<Rightarrow> u8 list \<Rightarrow> io_error + nat) \<Rightarrow> vec \<Rightarrow> u32 \<Rightarrow> u64 \<Rightarrow> (io_error + u32) \<times> vec" where
  "pool_write_at lost writes v len offset =
     (case lost of
        Some e \<Rightarrow> (Inl e, vec_none)
      | None \<Rightarrow> (map_sum id of_nat (writes offset (take (min (unat len) (length (snd v))) (snd v))), v))"

definition pool_sync :: "io_error option \<Rightarrow> (io_error + unit) \<Rightarrow> io_error + unit" where
  "pool_sync lost answer = (case lost of Some e \<Rightarrow> Inl e | None \<Rightarrow> answer)"

definition pool_open_read :: "(open_options \<Rightarrow> string \<Rightarrow> io_error + handle) \<Rightarrow> string \<Rightarrow> io_error + handle" where
  "pool_open_read std_open path = std_open (open_options_new\<lparr>oo_read := True\<rparr>) path"

definition pool_open_write :: "(open_options \<Rightarrow> string \<Rightarrow> io_error + handle) \<Rightarrow> string \<Rightarrow> io_error + handle" where
  "pool_open_write std_open path =
     std_open (open_options_new\<lparr>oo_write := True, oo_create := True, oo_truncate := True\<rparr>) path"

definition pool_name :: "nat \<Rightarrow> string" where
  "pool_name width = ''tokio::fs (blocking pool '' @ show_base 10 width @ '')''"

definition pool_configuration :: "nat \<Rightarrow> string" where
  "pool_configuration width =
     ''spawn_blocking + seek_read/seek_write; multi-thread runtime; max_blocking_threads = '' @ show_base 10 width"

section \<open>Completion ports\<close>

text \<open>
  The runtime fills a vector to its capacity, which the slice bounds; completing a read makes a
  vector longer, never shorter. \<open>None\<close> is the failed debug assertion.
\<close>

definition port_read_at ::
    "(u64 \<Rightarrow> nat \<Rightarrow> io_error + u8 list) \<Rightarrow> vec \<Rightarrow> u32 \<Rightarrow> u64 \<Rightarrow> ((io_error + u32) \<times> vec) option" where
  "port_read_at reads v len offset =
     (if unat (ib_cap (fst v)) < unat len then None
      else case reads offset (min (unat len) (unat (ib_cap (fst v)))) of
          Inl e \<Rightarrow> Some (Inl e, v)
        | Inr delivered \<Rightarrow>
            Some (Inr (of_nat (length delivered)), vec_bytes (overlay delivered (snd v)) v))"

definition port_write_at ::
    "(u64 \<Rightarrow> u8 list \<Rightarrow> io_error + nat) \<Rightarrow> vec \<Rightarrow> u32 \<Rightarrow> u64 \<Rightarrow> (io_error + u32) \<times> vec" where
  "port_write_at writes v len offset = (map_sum id of_nat (writes offset (take (unat len) (snd v))), v)"

definition port_configuration :: "string \<Rightarrow> string" where
  "port_configuration driver =
     driver @ '' driver; single-threaded completion processing '' @
     ''(`iocp-global` off, so the runtime drives its own thread's '' @
     ''completions); caller-owned buffers; unregistered handles''"

section \<open>They are measured alike\<close>

lemma overlay_prefix: "take (length delivered) (overlay delivered bs) = delivered"
  by (simp add: overlay_def)

lemma delivered_prefix:
  assumes "take (unat n) bs = take (unat n) bs'" "unat n \<le> length bs" "unat n \<le> length bs'"
  shows "trace_delivered p offset n bs t = trace_delivered p offset n bs' t"
proof -
  have "delivery_take n bs = unat n" "delivery_take n bs' = unat n"
    using assms(2,3) by (simp_all add: delivery_take_def)
  then show ?thesis using assms(1) by (simp add: trace_delivered_def delivery_hash_def)
qed

text \<open>
  C36: Two backends that are given the same bytes are measured alike. Take a read both adapters
  can serve, of a block the vector has room for, and let the system deliver the same bytes to
  both: then both report the same number, and although the one cuts its vector to what arrived and the
  other leaves the old bytes behind it, the trace counts and hashes exactly the same.
\<close>

theorem adapters_measured_alike:
  assumes "unat len \<le> unat (ib_cap (fst v))" "reads offset (unat len) = Inr delivered" "length delivered \<le> unat len"
  shows "\<exists>n b b'. pool_read_at realloc None reads v len offset = (Inr n, b) \<and>
    port_read_at reads v len offset = Some (Inr n, b') \<and> unat n = length delivered \<and>
    snd b = delivered \<and> take (unat n) (snd b') = delivered \<and>
    trace_delivered p off n (snd b) t = trace_delivered p off n (snd b') t"
proof -
  let ?n = "of_nat (length delivered) :: u32"
  let ?v1 = "if length (snd v) < unat len then vec_resize realloc (unat len) v else v"
  have n: "unat ?n = length delivered"
    using le_less_trans [OF assms(3) unsigned_less [of len, where 'a = nat]]
    by (simp add: unsigned_of_nat take_bit_nat_eq_self)
  have pool: "pool_read_at realloc None reads v len offset = (Inr ?n, vec_bytes delivered ?v1)"
    using assms(2) by (simp add: pool_read_at_def Let_def overlay_prefix)
  have port: "port_read_at reads v len offset = Some (Inr ?n, vec_bytes (overlay delivered (snd v)) v)"
    using assms(1,2) by (simp add: port_read_at_def min_absorb1)
  have "trace_delivered p off ?n delivered t = trace_delivered p off ?n (overlay delivered (snd v)) t"
    by (rule delivered_prefix) (simp_all add: n overlay_prefix, simp add: overlay_def)
  with pool port n show ?thesis
    by (intro exI [of _ ?n] exI [of _ "vec_bytes delivered ?v1"] exI [of _ "vec_bytes (overlay delivered (snd v)) v"])
      (simp add: vec_bytes_def overlay_prefix)
qed

text \<open>A short read of two bytes of four, into a vector that held something else.\<close>

definition adapter_vec :: vec where
  "adapter_vec = (\<lparr>ib_kind = VecBuf, ib_addr = 4096, ib_len = 4, ib_cap = 8\<rparr>, [9, 9, 9, 9])"

theorem adapters_measured_alike_witness:
  "\<exists>b b'. pool_read_at (\<lambda>n b. (4096, of_nat n)) None (\<lambda>o' n. Inr [1, 2]) adapter_vec 4 0 = (Inr 2, b) \<and>
    port_read_at (\<lambda>o' n. Inr [1, 2]) adapter_vec 4 0 = Some (Inr 2, b') \<and>
    trace_delivered PhaseRead 0 2 (snd b) trace_new = trace_delivered PhaseRead 0 2 (snd b') trace_new"
  using adapters_measured_alike [of 4 adapter_vec "\<lambda>o' n. Inr [1, 2]" 0 "[1, 2]" "\<lambda>n b. (4096, of_nat n)" PhaseRead 0 trace_new]
  by (auto simp: adapter_vec_def pool_read_at_def port_read_at_def)

end
