(* ===== verification/Spec2Isabelle.thy ===== *)
theory Spec2Isabelle
  imports Slab_Props Errors Buf Ring_Ops Io_Ring Registry_Props Event File_Props Pipe_Samples
    Executor_Samples Bench_Align Bench_Pools Bench_Account Bench_Session Bench_Adapters
begin

text \<open>
  A model of \<open>win-ioring\<close> (\<open>src/crates/win-ioring/src\<close>), of the executor its tests run on
  (\<open>src/crates/win-ioring-tests/src/rt.rs\<close>) and of the core of its benchmarks
  (\<open>src/crates/win-ioring-bench/src\<close>), and what makes them correct.

  \<^bold>\<open>The program.\<close> The crate drives the Windows IoRing from safe asynchronous code. An
  operation is described by a builder (\<open>io_ring/ops.rs\<close>) and put into a submission queue
  (\<open>io_ring/api.rs\<close>); the kernel reads and writes the operation's buffer at a time of its
  own, so the buffer belongs to the runtime until the completion arrives
  (\<open>runtime/slab.rs\<close>). A driver task submits, reaps completions and parks until an event
  says there are more (\<open>runtime/mod.rs\<close>, \<open>sys/event.rs\<close>). Handles start operations and
  return futures; files (\<open>file.rs\<close>), registered buffers (\<open>runtime/registry.rs\<close>) and named
  pipes (\<open>pipe/\<close>) are built on them. Everything but the armed event is single threaded.

  \<^bold>\<open>The components.\<close> Each theory models the file it names; records are the structs,
  datatypes the enums, a definition the method of the same name.
    \<^item> \<open>Prelude\<close>: machine integers, checked list access, saturating addition, collections.
    \<^item> \<open>Token\<close>, \<open>Slab\<close>: \<open>Token\<close> and \<open>OpSlab\<close>. \<open>Slab_View\<close> has the invariant and
      reads a slab as a map from keys (index, generation) to entries; \<open>Slab_Spec\<close> shows that
      every method implements a simple step on that map; \<open>Slab_Trace\<close> lifts this to
      sequences of calls through the locales \<open>op_store\<close> and \<open>generational_store\<close>;
      \<open>Slab_Props\<close> has the properties.
    \<^item> \<open>Errors\<close>: the code tables, the error types of the six \<open>error.rs\<close> files and their
      conversions. \<open>Buf\<close>: the buffer traits over a byte memory (locale \<open>io_buf\<close>) and the
      bounds checks. \<open>Ring_Ops\<close>, \<open>Io_Ring\<close>: the builders and the ring.
    \<^item> \<open>Registry\<close>, \<open>Registry_Props\<close>: registered buffers and their checkout (locale
      \<open>exclusive_pool\<close>). \<open>Event\<close>: events and the armed wait.
    \<^item> \<open>Driver\<close>, \<open>Driver_Reap\<close>, \<open>Handle\<close>, \<open>Futures\<close>, \<open>Drive\<close>: \<open>runtime/mod.rs\<close>, in the
      order of the file: \<open>DriverInner\<close>; reaping and teardown; the operations of \<open>Handle\<close>;
      the futures with their drops; \<open>Driver::drive\<close> and \<open>Drop for Driver\<close>. \<open>drive\<close> is a
      coroutine: its program counter is a datatype with one constructor per await, and
      \<open>drive_resume\<close> runs to the next one.
    \<^item> \<open>File\<close>: \<open>file.rs\<close>. \<open>Pipe_Io\<close>, \<open>Pipe_Server\<close>: \<open>pipe/\<close>.
    \<^item> \<open>Executor\<close>, \<open>Executor_Run\<close>: \<open>rt.rs\<close>, a single-threaded executor with two registries of
      wakers, spawners and one-shot channels, as a machine whose futures may call any of its
      operations and whose thread-safe wakers any thread may call; \<open>Executor_Inv\<close> has its
      invariant, \<open>Executor_Props\<close> that no wake is lost and that a run returns with every task
      complete.
    \<^item> \<open>Bench_Trace\<close> (\<open>verify.rs\<close>, \<open>fairness.rs\<close>): what a run did, and when two runs did the
      same. \<open>Bench_Runner\<close> (\<open>concurrency.rs\<close>): a bounded number of operations in flight, over
      any backend. \<open>Bench_Scenario\<close> (\<open>scenario.rs\<close>, \<open>config.rs\<close>, \<open>backend.rs\<close>): the
      workloads. \<open>Bench_Harness\<close> (\<open>harness.rs\<close>, \<open>session.rs\<close>): measuring one of them.
      \<open>Bench_Weaken\<close> (\<open>weaken.rs\<close>): a backend that does less than it says, and that the
      measurement refuses it. \<open>Bench_Align\<close> (\<open>align.rs\<close>, \<open>aligned.rs\<close>): sector alignment and
      aligned buffers. \<open>Bench_Unbuffered\<close>, \<open>Bench_Pools\<close> (\<open>unbuffered.rs\<close>,
      \<open>unbuffered_matrix.rs\<close>): reads that bypass the cache, their offsets, buffer pools and loop.
      \<open>Bench_Workload\<close> (\<open>workload.rs\<close>, \<open>unbuffered_workload.rs\<close>): the working files.
      \<open>Bench_Account\<close> (\<open>account.rs\<close>, \<open>handle_mode.rs\<close>): budgets, schedules, and what an account
      of the runs blames.
    \<^item> \<open>Bench_Ring\<close> (\<open>backends/ioring.rs\<close>, \<open>drive_while\<close> of \<open>session.rs\<close>): the benchmarks' backend
      on the model of the crate, with the task that drives work and driver together;
      \<open>Bench_Ring_Props\<close> follows a buffer from the pool down to the slab and back,
      \<open>Bench_Ring_Samples\<close> has one such run. \<open>Bench_Registered\<close>: the form with registered
      buffers. \<open>Bench_Session\<close> (\<open>session.rs\<close>): preparing a session and ending it.
      \<open>Bench_Adapters\<close> (\<open>backends/tokio_fs.rs\<close>, \<open>backends/compio.rs\<close>): the backends it is
      compared with.

  \<^bold>\<open>What connects them.\<close> The driver's state holds the ring, the slab of payloads, the result
  cells the payloads share with the futures, the registrations and the files; the platform
  below it is a record of functions over an arbitrary kernel state, so every theorem holds for
  every behaviour of the kernel that its hypotheses admit. \<open>Driver_Run\<close> gives one step
  relation for everything a client can do, and \<open>World\<close> interleaves such steps with the
  driver's coroutine, the thread pool's callback and the kernel. \<open>Pipe_Safety\<close> does the same
  for a pipe server, with the memory of the structures the kernel writes made explicit.
  \<open>Bench_Ring\<close> closes the loop from above: the benchmark's runner, the backend, the handle's
  operations and the driver's coroutine are run as one task, and \<open>Bench_Session\<close> shows that what
  it does to the driver is a run of \<open>World\<close>.

  \<^bold>\<open>The lemmas.\<close> \<open>Driver_Slab\<close> and \<open>Driver_Cancel\<close> describe each operation by what it does
  to the slab's map; \<open>Driver_Inv\<close> has the driver's invariant and three generic preservation
  lemmas (an entry changed, added, removed); \<open>Driver_Start\<close>, \<open>Driver_Steps\<close>,
  \<open>Driver_Complete\<close> and \<open>Driver_Teardown\<close> apply them to every operation; \<open>Wakeups\<close> shows
  that whatever leaves work for the driver also wakes it; \<open>Driver_Total\<close> that its loops end
  and that its two teardowns are one. \<open>Driver_Props\<close>, \<open>File_Props\<close> and \<open>Pipe_Props\<close> state
  the properties over reachable states: buffers stay where the kernel may reach them until the
  completion is reaped; each completion reaches its own future, once; the ring is closed only
  when the kernel holds nothing, and then every future has an answer; no wakeup is lost; a
  stale token is never honoured; registered buffers have one holder; a file has at most one
  sequential operation; a pipe server frees a structure only when the kernel has finished with
  it. \<open>Driver_Samples\<close> and \<open>Pipe_Samples\<close> hold the concrete runs at which the properties
  are applied.

  \<^bold>\<open>Conventions.\<close> Integers keep their width (\<open>usize\<close> has 64 bits). A panic is \<open>None\<close>, an
  error the left side of a sum. Loops that end only if the platform lets them (the reap loop,
  the blocking teardown) are \<open>partial_function (option)\<close>, where \<open>None\<close> is not returning;
  \<open>turns_return\<close> shows that they return when the platform's completion queue is finite,
  which \<open>finite_queue\<close> states by a measure. No fuel is used. The hypotheses on the platform
  (\<open>finite_queue\<close>, \<open>pipe_contract\<close>) are documented behaviour, and concrete platforms
  satisfy them.

  \<^bold>\<open>The benchmarks.\<close> A backend is an argument of everything built on it, so the statements
  hold for each of the program's backends; so are the answers of the system (file lengths, the
  sectors of a volume). Where the code averages in \<open>f64\<close> the model has exact fractions.

  \<^bold>\<open>Not modelled.\<close> \<open>AbortOnUnwind\<close> (a guard that aborts the process on a panic); reference
  counts of \<open>Rc\<close>, except where a leak is the point (\<open>Event\<close>); \<open>Debug\<close> output; the hooks
  and counters that only tests read; \<open>lib.rs\<close> (documentation and re-exports); the raw waker
  tables of \<open>rt.rs\<close> (cloning and freeing a waker) and the channel of the \<open>futures\<close> crate;
  the prose an account is rendered as; the runtimes the ring is compared with, so building and
  running them, in \<open>backends/\<close> and in \<open>unbuffered.rs\<close>; the assertion that a backend is not
  flushed in a timed region; and the fixtures of the tests.
\<close>

end
